(* ===== verification/Prelude.thy ===== *)
theory Prelude
  imports Main
begin

text \<open>
  The shared base of the development: the fact collections the component theories feed
  (\<open>go_string\<close> for the Go standard library's string functions, \<open>wf_intro\<close> for
  well-formedness of states), bounded iteration over lists and maps, and the generic lemmas
  on lists, options and maps that more than one component uses.  Nothing in this theory is
  about one particular file of the repository.
\<close>

named_theorems go_string "facts about the Go string functions"
named_theorems wf_intro "well-formedness is established and kept"

section \<open>Errors as values\<close>

text \<open>
  A Go function with results \<open>(T, error)\<close> returns a value of a sum type: \<open>Inl e\<close> for a
  non-nil error, \<open>Inr x\<close> for success.  The sequencing of two such calls, with the early
  return on the first error, is \<open>and_then\<close>.
\<close>

definition and_then :: "'e + 'a \<Rightarrow> ('a \<Rightarrow> 'e + 'b) \<Rightarrow> 'e + 'b" where
  "and_then r k = (case r of Inl e \<Rightarrow> Inl e | Inr x \<Rightarrow> k x)"

lemma and_then_simps [simp]:
  "and_then (Inl e) k = Inl e"
  "and_then (Inr x) k = k x"
  by (simp_all add: and_then_def)

lemma and_then_Inr_iff:
  "and_then r k = Inr y \<longleftrightarrow> (\<exists>x. r = Inr x \<and> k x = Inr y)"
  by (cases r) auto

lemma and_then_Inl_iff:
  "and_then r k = Inl e \<longleftrightarrow> r = Inl e \<or> (\<exists>x. r = Inr x \<and> k x = Inl e)"
  by (cases r) auto

definition is_ok :: "'e + 'a \<Rightarrow> bool" where
  "is_ok r = (case r of Inl _ \<Rightarrow> False | Inr _ \<Rightarrow> True)"

lemma is_ok_simps [simp]: "\<not> is_ok (Inl e)" "is_ok (Inr x)"
  by (simp_all add: is_ok_def)

lemma is_ok_iff: "is_ok r \<longleftrightarrow> (\<exists>x. r = Inr x)"
  by (cases r) auto

section \<open>Machine integers\<close>

text \<open>Go's \<open>int\<close> and \<open>int64\<close> wrap at 64 bits; a result is read modulo \<open>2 ^ 64\<close> into the signed range.\<close>

definition int64 :: "int \<Rightarrow> int" where
  "int64 x = (x + 2 ^ 63) mod 2 ^ 64 - 2 ^ 63"

lemma int64_id: "- (2 ^ 63) \<le> x \<Longrightarrow> x < 2 ^ 63 \<Longrightarrow> int64 x = x"
  by (simp add: int64_def)

lemma int64_range: "- (2 ^ 63) \<le> int64 x \<and> int64 x < 2 ^ 63"
  by (simp add: int64_def)

section \<open>Lists\<close>

text \<open>The index of the first element that satisfies a predicate, as a Go range loop with
  \<open>break\<close> finds it.\<close>

fun find_index :: "('a \<Rightarrow> bool) \<Rightarrow> 'a list \<Rightarrow> nat option" where
  "find_index P [] = None"
| "find_index P (x # xs) = (if P x then Some 0 else map_option Suc (find_index P xs))"

lemma find_index_None_iff: "find_index P xs = None \<longleftrightarrow> (\<forall>x\<in>set xs. \<not> P x)"
  by (induction xs) auto

lemma find_index_SomeD:
  "find_index P xs = Some i \<Longrightarrow> i < length xs \<and> P (xs ! i) \<and> (\<forall>j<i. \<not> P (xs ! j))"
proof (induction xs arbitrary: i)
  case (Cons x xs)
  show ?case
  proof (cases "P x")
    case False
    with Cons.prems obtain j where j: "find_index P xs = Some j" "i = Suc j"
      by auto
    with Cons.IH [OF j(1)] False show ?thesis
      by (auto simp: less_Suc_eq_0_disj)
  qed (use Cons.prems in auto)
qed simp

lemma find_index_cong:
  "map P xs = map P ys \<Longrightarrow> find_index P xs = find_index P ys"
proof (induction xs arbitrary: ys)
  case (Cons x xs)
  then show ?case by (cases ys) auto
qed simp

lemma list_update_same_map:
  "(\<And>x. x \<in> set xs \<Longrightarrow> f x = f (xs ! i)) \<Longrightarrow> i < length xs \<Longrightarrow> map f (xs[i := xs ! i]) = map f xs"
  by simp

lemma map_list_update_frame:
  "f y = f (xs ! i) \<Longrightarrow> map f (xs[i := y]) = map f xs"
  by (simp add: map_update) (metis list_update_beyond list_update_id map_update not_le nth_map)

section \<open>Maps\<close>

text \<open>The last value an association list gives a key: what a Go loop \<open>out[k] = v\<close> leaves.\<close>

definition last_of :: "('k \<times> 'v) list \<Rightarrow> 'k \<Rightarrow> 'v option" where
  "last_of kvs k = map_of (rev kvs) k"

lemma last_of_Nil [simp]: "last_of [] k = None"
  by (simp add: last_of_def)

lemma last_of_snoc [simp]:
  "last_of (kvs @ [(k', v)]) k = (if k = k' then Some v else last_of kvs k)"
  by (simp add: last_of_def)

lemma last_of_None_iff: "last_of kvs k = None \<longleftrightarrow> k \<notin> fst ` set kvs"
  by (simp add: last_of_def map_of_eq_None_iff)

end
