(* ===== verification/Go_Strings.thy ===== *)
theory Go_Strings
  imports Prelude "HOL-Library.Sublist" "HOL-Library.Char_ord" "HOL-Library.List_Lexorder"
begin

text \<open>
  What the repository uses of Go's \<open>strings\<close> and \<open>sort\<close> packages.  A Go string is a
  sequence of bytes; so is an Isabelle \<open>string\<close>, and the functions below work on bytes as
  the Go functions do.  \<open>sort.Strings\<close> is \<open>sort\<close> at the lexicographic order of
  \<open>HOL-Library.List_Lexorder\<close>, which compares bytes.
\<close>

abbreviation NL :: char where "NL \<equiv> CHR 0x0A"
abbreviation CR :: char where "CR \<equiv> CHR 0x0D"
abbreviation DQ :: char where "DQ \<equiv> CHR 0x22"
abbreviation SQ :: char where "SQ \<equiv> CHR 0x27"

section \<open>Searching\<close>

text \<open>\<open>strings.HasPrefix s p\<close>, \<open>strings.HasSuffix s p\<close>, \<open>strings.TrimPrefix\<close>.\<close>

abbreviation has_prefix :: "string \<Rightarrow> string \<Rightarrow> bool" where
  "has_prefix s p \<equiv> prefix p s"

abbreviation has_suffix :: "string \<Rightarrow> string \<Rightarrow> bool" where
  "has_suffix s p \<equiv> suffix p s"

definition trim_prefix :: "string \<Rightarrow> string \<Rightarrow> string" where
  "trim_prefix s p = (if has_prefix s p then drop (length p) s else s)"

lemma trim_prefix_append [go_string]: "trim_prefix (p @ s) p = s"
  by (simp add: trim_prefix_def)

text \<open>\<open>strings.Index\<close>: the first position of a substring (\<open>None\<close> for \<open>-1\<close>).\<close>

fun index_of :: "string \<Rightarrow> string \<Rightarrow> nat option" where
  "index_of [] sub = (if sub = [] then Some 0 else None)"
| "index_of (x # xs) sub =
     (if has_prefix (x # xs) sub then Some 0 else map_option Suc (index_of xs sub))"

lemma index_of_SomeD:
  "index_of s sub = Some i \<Longrightarrow> s = take i s @ sub @ drop (i + length sub) s"
proof (induction s arbitrary: i)
  case Nil
  then show ?case by (auto split: if_splits)
next
  case (Cons x xs)
  show ?case
  proof (cases "prefix sub (x # xs)")
    case True
    with Cons.prems show ?thesis by (auto elim: prefixE)
  next
    case False
    with Cons.prems obtain j where j: "index_of xs sub = Some j" "i = Suc j" by auto
    from Cons.IH [OF j(1)] j(2) show ?thesis by simp
  qed
qed

lemma index_of_bound: "index_of s sub = Some i \<Longrightarrow> i + length sub \<le> length s"
proof (induction s arbitrary: i)
  case Nil
  then show ?case by (auto split: if_splits)
next
  case (Cons x xs)
  then show ?case by (auto split: if_splits dest: prefix_length_le)
qed

text \<open>\<open>strings.Contains\<close>.\<close>

definition contains :: "string \<Rightarrow> string \<Rightarrow> bool" where
  "contains s sub \<longleftrightarrow> index_of s sub \<noteq> None"

lemma contains_Nil [simp]: "contains [] sub \<longleftrightarrow> sub = []"
  by (simp add: contains_def)

lemma contains_Cons:
  "contains (x # xs) sub \<longleftrightarrow> prefix sub (x # xs) \<or> contains xs sub"
  by (auto simp: contains_def)

lemma contains_iff [go_string]: "contains s sub \<longleftrightarrow> (\<exists>a b. s = a @ sub @ b)"
proof (induction s)
  case (Cons x xs)
  have "(\<exists>a b. x # xs = a @ sub @ b) \<longleftrightarrow> prefix sub (x # xs) \<or> (\<exists>a b. xs = a @ sub @ b)"
    by (auto simp: prefix_def Cons_eq_append_conv)
  with Cons.IH show ?case by (simp add: contains_Cons)
qed simp

lemma contains_append: "contains s sub \<Longrightarrow> contains (a @ s @ b) sub"
  by (metis append.assoc contains_iff)

text \<open>\<open>strings.Cut s sep\<close> at a one-byte separator: the parts before and after the first one.\<close>

fun cut :: "char \<Rightarrow> string \<Rightarrow> (string \<times> string) option" where
  "cut c [] = None"
| "cut c (x # xs) =
     (if x = c then Some ([], xs) else map_option (\<lambda>(a, b). (x # a, b)) (cut c xs))"

lemma cut_SomeD: "cut c s = Some (a, b) \<Longrightarrow> s = a @ c # b \<and> c \<notin> set a"
proof (induction s arbitrary: a)
  case (Cons x xs)
  then show ?case by (auto split: if_splits)
qed simp

lemma cut_None_iff: "cut c s = None \<longleftrightarrow> c \<notin> set s"
  by (induction s) auto

lemma cut_append [go_string]: "c \<notin> set a \<Longrightarrow> cut c (a @ c # b) = Some (a, b)"
  by (induction a) auto

section \<open>Split and Join\<close>

text \<open>\<open>strings.Split s sep\<close> at a one-byte separator: never empty.\<close>

fun split_on :: "char \<Rightarrow> string \<Rightarrow> string list" where
  "split_on c [] = [[]]"
| "split_on c (x # xs) =
     (if x = c then [] # split_on c xs
      else case split_on c xs of [] \<Rightarrow> [[x]] | y # ys \<Rightarrow> (x # y) # ys)"

text \<open>\<open>strings.Join\<close>.\<close>

fun join :: "string \<Rightarrow> string list \<Rightarrow> string" where
  "join sep [] = []"
| "join sep [x] = x"
| "join sep (x # y # xs) = x @ sep @ join sep (y # xs)"

lemma split_on_not_Nil [simp]: "split_on c s \<noteq> []"
  by (cases s) (auto split: list.splits)

lemma split_on_Cons:
  "split_on c (x # xs) =
     (if x = c then [] # split_on c xs
      else (x # hd (split_on c xs)) # tl (split_on c xs))"
  using split_on_not_Nil [of c xs] by (auto split: list.splits)

lemma join_Cons: "xs \<noteq> [] \<Longrightarrow> join sep (x # xs) = x @ sep @ join sep xs"
  by (cases xs) auto

lemma join_hd_tl: "xs \<noteq> [] \<Longrightarrow> join sep ((y # hd xs) # tl xs) = y # join sep xs"
  by (cases xs; cases "tl xs") auto

lemma join_split_on [go_string, simp]: "join [c] (split_on c s) = s"
  by (induction s) (auto simp: split_on_Cons join_Cons join_hd_tl simp del: split_on.simps(2))

lemma split_on_no_sep: "l \<in> set (split_on c s) \<Longrightarrow> c \<notin> set l"
proof (induction s arbitrary: l)
  case (Cons x xs)
  have "hd (split_on c xs) \<in> set (split_on c xs)" by simp
  moreover have "set (tl (split_on c xs)) \<subseteq> set (split_on c xs)"
    by (cases "split_on c xs") auto
  ultimately show ?case
    using Cons by (auto simp: split_on_Cons simp del: split_on.simps(2) split: if_splits)
qed simp

lemma split_on_id: "c \<notin> set s \<Longrightarrow> split_on c s = [s]"
  by (induction s) auto

lemma split_on_append:
  "c \<notin> set a \<Longrightarrow> split_on c (a @ c # s) = a # split_on c s"
  by (induction a) auto

lemma split_join [go_string]:
  "xs \<noteq> [] \<Longrightarrow> \<forall>l\<in>set xs. c \<notin> set l \<Longrightarrow> split_on c (join [c] xs) = xs"
proof (induction xs)
  case (Cons x xs)
  then show ?case
    by (cases xs) (auto simp: split_on_id split_on_append)
qed simp

text \<open>\<open>strings.Split s sep\<close> at any non-empty separator.\<close>

function split_str :: "string \<Rightarrow> string \<Rightarrow> string list" where
  "split_str sep s =
     (if sep = [] then map (\<lambda>c. [c]) s
      else case index_of s sep of
        None \<Rightarrow> [s]
      | Some i \<Rightarrow> take i s # split_str sep (drop (i + length sep) s))"
  by pat_completeness auto
termination
  by (relation "measure (\<lambda>(sep, s). length s)")
    (auto dest!: index_of_bound simp: Suc_le_eq [symmetric] length_greater_0_conv [symmetric]
      simp del: length_greater_0_conv)

declare split_str.simps [simp del]

text \<open>\<open>strings.ReplaceAll s old new\<close> for a non-empty \<open>old\<close>.\<close>

definition replace_all :: "string \<Rightarrow> string \<Rightarrow> string \<Rightarrow> string" where
  "replace_all s old new = join new (split_str old s)"

lemma index_of_single:
  "c \<notin> set a \<Longrightarrow> index_of (a @ c # b) [c] = Some (length a)"
  by (induction a) auto

lemma index_of_single_None: "index_of s [c] = None \<longleftrightarrow> c \<notin> set s"
  by (induction s) auto

lemma split_str_single: "split_str [c] s = split_on c s"
proof (induction s rule: measure_induct_rule [of length])
  case (less s)
  show ?case
  proof (cases "c \<in> set s")
    case True
    then obtain a b where s: "s = a @ c # b" "c \<notin> set a" by (meson split_list_first)
    then show ?thesis
      using less [of b] by (subst split_str.simps) (simp add: index_of_single split_on_append)
  next
    case False
    then show ?thesis
      by (subst split_str.simps) (simp add: index_of_single_None [THEN iffD2] split_on_id)
  qed
qed

lemma replace_all_single: "replace_all s [c] new = concat (map (\<lambda>x. if x = c then new else [x]) s)"
proof -
  have "join new (split_on c s) = concat (map (\<lambda>x. if x = c then new else [x]) s)"
    by (induction s) (auto simp: split_on_Cons join_Cons join_hd_tl simp del: split_on.simps(2))
  then show ?thesis by (simp add: replace_all_def split_str_single)
qed

section \<open>TrimSpace\<close>

text \<open>
  The UTF-8 encodings of the runes Go's \<open>unicode.IsSpace\<close> accepts: the ASCII ones, U+0085,
  U+00A0, U+1680, U+2000 to U+200A, U+2028, U+2029, U+202F, U+205F and U+3000.  Trimming
  removes such encodings from the ends, one rune at a time.
\<close>

definition space_tokens :: "string list" where
  "space_tokens =
     [[CHR 0x20], [CHR 0x09], [CHR 0x0A], [CHR 0x0B], [CHR 0x0C], [CHR 0x0D],
      [CHR 0xC2, CHR 0x85], [CHR 0xC2, CHR 0xA0], [CHR 0xE1, CHR 0x9A, CHR 0x80]]
     @ map (\<lambda>c. [CHR 0xE2, CHR 0x80, c])
         [CHR 0x80, CHR 0x81, CHR 0x82, CHR 0x83, CHR 0x84, CHR 0x85, CHR 0x86, CHR 0x87,
          CHR 0x88, CHR 0x89, CHR 0x8A, CHR 0xA8, CHR 0xA9, CHR 0xAF]
     @ [[CHR 0xE2, CHR 0x81, CHR 0x9F], [CHR 0xE3, CHR 0x80, CHR 0x80]]"

definition lead_len :: "string list \<Rightarrow> string \<Rightarrow> nat" where
  "lead_len toks s = (case find (\<lambda>t. t \<noteq> [] \<and> has_prefix s t) toks of
     None \<Rightarrow> 0 | Some t \<Rightarrow> length t)"

lemma lead_len_le: "lead_len toks s \<le> length s"
  by (auto simp: lead_len_def find_Some_iff split: option.splits dest: prefix_length_le)

lemma lead_len_Nil [simp]: "lead_len toks [] = 0"
  using lead_len_le [of toks "[]"] by simp

function strip :: "string list \<Rightarrow> string \<Rightarrow> string" where
  "strip toks s = (if lead_len toks s = 0 then s else strip toks (drop (lead_len toks s) s))"
  by pat_completeness auto
termination
proof (relation "measure (\<lambda>(toks, s). length s)")
  fix toks s
  assume "lead_len toks s \<noteq> 0"
  moreover have "lead_len toks s \<le> length s" by (rule lead_len_le)
  ultimately show "((toks, drop (lead_len toks s) s), toks, s) \<in> measure (\<lambda>(toks, s). length s)"
    by simp
qed simp

declare strip.simps [simp del]

definition trim_left_space :: "string \<Rightarrow> string" where
  "trim_left_space s = strip space_tokens s"

definition trim_right_space :: "string \<Rightarrow> string" where
  "trim_right_space s = rev (strip (map rev space_tokens) (rev s))"

definition trim_space :: "string \<Rightarrow> string" where
  "trim_space s = trim_right_space (trim_left_space s)"

lemma strip_fixed: "lead_len toks s = 0 \<Longrightarrow> strip toks s = s"
  by (simp add: strip.simps)

lemma lead_len_strip [simp]: "lead_len toks (strip toks s) = 0"
proof (induction toks s rule: strip.induct)
  case (1 toks s)
  show ?case
    by (cases "lead_len toks s = 0") (use 1 in \<open>simp_all add: strip.simps [of toks s]\<close>)
qed

lemma strip_idem [simp]: "strip toks (strip toks s) = strip toks s"
  by (rule strip_fixed) simp

lemma suffix_strip: "suffix (strip toks s) s"
proof (induction toks s rule: strip.induct)
  case (1 toks s)
  show ?case
  proof (cases "lead_len toks s = 0")
    case False
    with 1 have "suffix (strip toks (drop (lead_len toks s) s)) (drop (lead_len toks s) s)"
      by simp
    then show ?thesis
      using False by (simp add: strip.simps [of toks s]) (metis suffix_drop suffix_order.trans)
  qed (simp add: strip.simps)
qed

lemma strip_length_le: "length (strip toks s) \<le> length s"
  using suffix_strip by (rule suffix_length_le)

lemma lead_len_0_iff:
  "lead_len toks s = 0 \<longleftrightarrow> (\<forall>t\<in>set toks. t \<noteq> [] \<longrightarrow> \<not> has_prefix s t)"
proof (cases "find (\<lambda>t. t \<noteq> [] \<and> has_prefix s t) toks")
  case None
  then have "lead_len toks s = 0" by (simp add: lead_len_def)
  with None show ?thesis by (auto simp: find_None_iff)
next
  case (Some t)
  then have "t \<in> set toks" "t \<noteq> []" "has_prefix s t"
    by (auto simp: find_Some_iff)
  with Some show ?thesis by (auto simp: lead_len_def)
qed

text \<open>A prefix of a string with no leading space has none either: a token in front of the
  prefix is in front of the whole.\<close>

lemma lead_len_prefix: "prefix p s \<Longrightarrow> lead_len toks s = 0 \<Longrightarrow> lead_len toks p = 0"
  by (auto simp: lead_len_0_iff dest: prefix_order.trans)

lemma prefix_trim_right: "prefix (trim_right_space s) s"
  using suffix_strip [of "map rev space_tokens" "rev s"]
  by (simp add: trim_right_space_def suffix_to_prefix)

lemma trim_space_idem [simp, go_string]: "trim_space (trim_space s) = trim_space s"
proof -
  have "lead_len space_tokens (trim_space s) = 0"
    unfolding trim_space_def
    by (rule lead_len_prefix [OF prefix_trim_right]) (simp add: trim_left_space_def)
  then have "trim_left_space (trim_space s) = trim_space s"
    by (simp add: trim_left_space_def strip_fixed)
  then show ?thesis
    by (simp add: trim_space_def [of "trim_space s"]) (simp add: trim_space_def trim_right_space_def)
qed

text \<open>A string is trimmed when no space token stands at either end.\<close>

definition trimmed :: "string \<Rightarrow> bool" where
  "trimmed s \<longleftrightarrow> trim_space s = s"

lemma trimmed_trim_space [simp, intro]: "trimmed (trim_space s)"
  by (simp add: trimmed_def)

lemma trim_space_trimmed: "trimmed s \<Longrightarrow> trim_space s = s"
  by (simp add: trimmed_def)

lemma trim_space_Nil [simp]: "trim_space [] = []"
  by (simp add: trim_space_def trim_left_space_def trim_right_space_def strip_fixed)

lemma trimmed_Nil [simp]: "trimmed []"
  by (simp add: trimmed_def)

lemma sublist_trim_space: "sublist (trim_space s) s"
proof -
  have "prefix (trim_space s) (trim_left_space s)"
    by (simp add: trim_space_def prefix_trim_right)
  moreover have "suffix (trim_left_space s) s"
    by (simp add: trim_left_space_def suffix_strip)
  ultimately show ?thesis
    by (meson prefix_imp_sublist sublist_order.order.trans suffix_imp_sublist)
qed

lemma set_trim_space: "set (trim_space s) \<subseteq> set s"
  using sublist_trim_space by (rule set_mono_sublist)

lemma lead_len_around:
  "lead_len toks a = 0 \<Longrightarrow> \<forall>t\<in>set toks. c \<notin> set t \<Longrightarrow> lead_len toks (a @ c # b) = 0"
  by (fastforce simp: lead_len_0_iff prefix_append prefix_Cons)

lemma trimmed_lead: "trimmed s \<Longrightarrow> lead_len space_tokens s = 0"
proof -
  have "lead_len space_tokens (trim_space s) = 0"
    unfolding trim_space_def
    by (rule lead_len_prefix [OF prefix_trim_right]) (simp add: trim_left_space_def)
  then show "trimmed s \<Longrightarrow> lead_len space_tokens s = 0" by (simp add: trimmed_def)
qed

lemma trimmed_trail: "trimmed s \<Longrightarrow> lead_len (map rev space_tokens) (rev s) = 0"
  by (metis lead_len_strip rev_rev_ident trim_right_space_def trim_space_def trimmed_def)

lemma trimmedI:
  "lead_len space_tokens s = 0 \<Longrightarrow> lead_len (map rev space_tokens) (rev s) = 0 \<Longrightarrow> trimmed s"
  by (simp add: trimmed_def trim_space_def trim_left_space_def trim_right_space_def strip_fixed)

text \<open>Two trimmed strings around a byte that is in no space stay trimmed.\<close>

lemma trimmed_around:
  assumes "trimmed a" "trimmed b" "\<forall>t\<in>set space_tokens. c \<notin> set t"
  shows "trimmed (a @ c # b)"
proof (rule trimmedI)
  show "lead_len space_tokens (a @ c # b) = 0"
    using assms by (intro lead_len_around) (auto intro: trimmed_lead)
  have "lead_len (map rev space_tokens) (rev b @ c # rev a) = 0"
    using assms by (intro lead_len_around) (auto intro: trimmed_trail)
  then show "lead_len (map rev space_tokens) (rev (a @ c # b)) = 0" by simp
qed

text \<open>The blank test \<open>strings.TrimSpace(s) == ""\<close>.\<close>

definition blank :: "string \<Rightarrow> bool" where
  "blank s \<longleftrightarrow> trim_space s = []"

lemma blank_Nil [simp]: "blank []"
  by (simp add: blank_def)

lemma strip_spaces: "strip space_tokens (replicate n (CHR '' '') @ s) = strip space_tokens s"
proof (induction n)
  case (Suc n)
  have "lead_len space_tokens (CHR '' '' # replicate n (CHR '' '') @ s) = 1"
    by (simp add: lead_len_def space_tokens_def)
  then show ?case using Suc by (simp add: strip.simps)
qed simp

lemma trim_space_spaces: "trim_space (replicate n (CHR '' '') @ s) = trim_space s"
  by (simp add: trim_space_def trim_left_space_def strip_spaces)

text \<open>Trimming takes away no byte that is in no white space rune.\<close>

lemma strip_keeps:
  assumes "\<forall>t\<in>set toks. c \<notin> set t" "c \<in> set s"
  shows "c \<in> set (strip toks s)"
  using assms
proof (induction toks s rule: strip.induct)
  case (1 toks s)
  have "c \<notin> set (take (lead_len toks s) s)"
    using 1(2) by (auto simp: lead_len_def find_Some_iff prefix_def split: option.splits)
  then have "c \<in> set (drop (lead_len toks s) s)"
    using 1(3) by (metis Un_iff append_take_drop_id set_append)
  then show ?case
    using 1 by (cases "lead_len toks s = 0") (simp_all add: strip.simps [of toks s])
qed

definition space_byte :: "char \<Rightarrow> bool" where
  "space_byte c \<longleftrightarrow> (\<exists>t\<in>set space_tokens. c \<in> set t)"

lemma trim_space_keeps: "\<not> space_byte c \<Longrightarrow> c \<in> set s \<Longrightarrow> c \<in> set (trim_space s)"
  unfolding trim_space_def trim_right_space_def trim_left_space_def
  using strip_keeps [of space_tokens c s] strip_keeps [of "map rev space_tokens" c "rev (strip space_tokens s)"]
  by (auto simp: space_byte_def)

lemma not_blank: "\<not> space_byte c \<Longrightarrow> c \<in> set s \<Longrightarrow> \<not> blank s"
  unfolding blank_def using trim_space_keeps by fastforce

lemma not_space_byte_DQ [simp]: "\<not> space_byte DQ" "\<not> space_byte SQ" "\<not> space_byte (CHR ''('')"
  by (code_simp)+

text \<open>The white space of a regular expression.\<close>

definition re_space :: "char \<Rightarrow> bool" where
  "re_space c \<longleftrightarrow> c \<in> {CHR '' '', CHR 0x09, CHR 0x0A, CHR 0x0C, CHR 0x0D}"

section \<open>Numbers\<close>

definition re_digit :: "char \<Rightarrow> bool" where
  "re_digit c \<longleftrightarrow> (let n = of_char c :: nat in 48 \<le> n \<and> n \<le> 57)"

text \<open>\<open>strconv.Atoi\<close>: an optional sign and digits, within 64 bits.\<close>

definition atoi :: "string \<Rightarrow> int option" where
  "atoi s =
     (let neg = has_prefix s ''-'';
          ds = (if neg \<or> has_prefix s ''+'' then drop 1 s else s);
          n = foldl (\<lambda>n c. n * 10 + (of_char c - 48)) (0 :: int) ds;
          v = (if neg then - n else n) in
      if ds \<noteq> [] \<and> list_all re_digit ds \<and> - (2 ^ 63) \<le> v \<and> v < 2 ^ 63 then Some v else None)"

text \<open>\<open>strconv.Itoa\<close>.\<close>

fun digits_of :: "nat \<Rightarrow> string" where
  "digits_of n = (if n < 10 then [] else digits_of (n div 10)) @ [char_of (48 + n mod 10)]"

declare digits_of.simps [simp del]

definition itoa :: "int \<Rightarrow> string" where
  "itoa n = (if n < 0 then ''-'' else []) @ digits_of (nat \<bar>n\<bar>)"


lemma of_char_digit:
  assumes "m < 256"
  shows "(of_char (char_of m :: char) :: int) = int m" "(of_char (char_of m :: char) :: nat) = m"
proof -
  show n: "(of_char (char_of m :: char) :: nat) = m" using assms by (simp add: of_char_of)
  show "(of_char (char_of m :: char) :: int) = int m"
    using arg_cong [OF n, of int] by (simp only: of_nat_of_char)
qed

lemma foldl_digits:
  "foldl (\<lambda>n c. n * 10 + (of_char c - 48)) (0 :: int) (digits_of n) = int n"
proof (induction n rule: digits_of.induct)
  case (1 n)
  have "(of_char (char_of (48 + n mod 10) :: char) :: int) = int (48 + n mod 10)"
    by (rule of_char_digit) simp
  moreover have "int (n div 10) * 10 + int (n mod 10) = int n"
    by (metis div_mult_mod_eq of_nat_add of_nat_mult of_nat_numeral)
  ultimately show ?case
    using 1 by (simp add: digits_of.simps [of n])
qed

lemma digits_of_ok: "digits_of n \<noteq> [] \<and> list_all re_digit (digits_of n)"
proof (induction n rule: digits_of.induct)
  case (1 n)
  have "re_digit (char_of (48 + n mod 10))" by (simp add: re_digit_def Let_def of_char_digit)
  then show ?case using 1 by (simp add: digits_of.simps [of n])
qed

lemma digits_of_sign: "\<not> has_prefix (digits_of n) ''-''" "\<not> has_prefix (digits_of n) ''+''"
proof -
  have "\<not> re_digit (CHR ''-'')" "\<not> re_digit (CHR ''+'')" by (simp_all add: re_digit_def)
  then show "\<not> has_prefix (digits_of n) ''-''" "\<not> has_prefix (digits_of n) ''+''"
    using digits_of_ok [of n] by (auto simp: prefix_def)
qed

lemma atoi_itoa: "- (2 ^ 63) \<le> n \<Longrightarrow> n < 2 ^ 63 \<Longrightarrow> atoi (itoa n) = Some n"
  using digits_of_ok [of "nat \<bar>n\<bar>"] digits_of_sign [of "nat \<bar>n\<bar>"]
  by (auto simp: atoi_def itoa_def Let_def foldl_digits)

lemma lead_len_no_token:
  assumes "\<And>t. t \<in> set toks \<Longrightarrow> set t \<inter> set s = {}"
  shows "lead_len toks s = 0"
  unfolding lead_len_0_iff
proof (intro ballI impI notI)
  fix t
  assume t: "t \<in> set toks" "t \<noteq> []" "has_prefix s t"
  then have "set t \<subseteq> set s" by (simp add: set_mono_prefix)
  with t(2) assms [OF t(1)] show False by (metis inf.absorb1 set_empty)
qed

lemma trimmed_no_space: "\<forall>c\<in>set s. \<not> space_byte c \<Longrightarrow> trimmed s"
  unfolding space_byte_def by (intro trimmedI lead_len_no_token) (auto simp del: space_tokens_def)

lemma itoa_trimmed: "trim_space (itoa n) = itoa n"
proof -
  have "list_all (\<lambda>t. list_all (\<lambda>c. \<not> re_digit c \<and> c \<noteq> CHR ''-'') t) space_tokens" by code_simp
  then have "\<forall>t\<in>set space_tokens. \<forall>c\<in>set t. \<not> re_digit c \<and> c \<noteq> CHR ''-''"
    by (simp only: list_all_iff)
  then have "\<not> space_byte c" if "re_digit c \<or> c = CHR ''-''" for c
    using that unfolding space_byte_def by blast
  moreover have "\<forall>c\<in>set (itoa n). re_digit c \<or> c = CHR ''-''"
    using digits_of_ok [of "nat \<bar>n\<bar>"] by (auto simp: itoa_def list_all_iff)
  ultimately have "trimmed (itoa n)" by (intro trimmed_no_space) blast
  then show ?thesis by (rule trim_space_trimmed)
qed

lemma itoa_not_Nil: "itoa n \<noteq> []"
  using digits_of_ok by (simp add: itoa_def)

section \<open>Evaluation\<close>

text \<open>Trimming a string whose first and last bytes are printable ASCII has nothing to do; the code
  equation says so, which keeps the evaluation of witnesses short.\<close>

definition printable :: "char \<Rightarrow> bool" where
  "printable c \<longleftrightarrow> (let n = of_char c :: nat in 33 \<le> n \<and> n \<le> 126)"

lemma space_ends: "t \<in> set space_tokens \<Longrightarrow> t \<noteq> [] \<and> \<not> printable (hd t) \<and> \<not> printable (last t)"
proof -
  have "list_all (\<lambda>t. t \<noteq> [] \<and> \<not> printable (hd t) \<and> \<not> printable (last t)) space_tokens" by code_simp
  then show "t \<in> set space_tokens \<Longrightarrow> t \<noteq> [] \<and> \<not> printable (hd t) \<and> \<not> printable (last t)"
    unfolding list_all_iff by blast
qed

lemma trimmed_printable:
  assumes "s \<noteq> []" "printable (hd s)" "printable (last s)"
  shows "trimmed s"
proof (rule trimmedI)
  show "lead_len space_tokens s = 0"
    unfolding lead_len_0_iff using assms space_ends by (fastforce simp: prefix_def)
  have "\<not> has_prefix (rev s) (rev t)" if "t \<in> set space_tokens" for t
    using assms space_ends [OF that] by (auto simp: suffix_to_prefix [symmetric] suffix_def)
  then show "lead_len (map rev space_tokens) (rev s) = 0"
    by (auto simp: lead_len_0_iff)
qed

lemma trim_space_code [code]:
  "trim_space s = (if s = [] then [] else if printable (hd s) \<and> printable (last s) then s
     else trim_right_space (trim_left_space s))"
  using trimmed_printable [of s] by (simp add: trim_space_trimmed) (simp add: trim_space_def)

end
