(* ===== verification/Atomic_File.thy ===== *)
theory Atomic_File
  imports Go_Strings
begin

text \<open>
  The file system as the tool's atomic writers use it: a map from paths to files, the faults
  the operating system may raise in the course of a write (create, write, chmod, close,
  rename, and the clean-up's remove), and the interface \<open>atomic_writer\<close>: whatever fails, the
  target holds either its old file or the new content in full.
\<close>

section \<open>Paths\<close>

text \<open>\<open>strings.LastIndexByte path '/'\<close>, and the two path helpers built on it.\<close>

definition last_slash :: "string \<Rightarrow> nat option" where
  "last_slash path =
     map_option (\<lambda>j. length path - Suc j) (find_index (\<lambda>c. c = CHR ''/'') (rev path))"

definition dir_of :: "string \<Rightarrow> string" where
  "dir_of path =
     (case last_slash path of
        Some i \<Rightarrow> (if i = 0 then ''/'' else take i path)
      | None \<Rightarrow> ''.'')"

definition filepath_base :: "string \<Rightarrow> string" where
  "filepath_base path =
     (case last_slash path of Some i \<Rightarrow> drop (Suc i) path | None \<Rightarrow> path)"

text \<open>\<open>os.CreateTemp dir pattern\<close>: the \<open>*\<close> of the pattern becomes a random string, and a
  separator is put after the directory unless it ends with one.\<close>

definition create_temp_name :: "string \<Rightarrow> string \<Rightarrow> string \<Rightarrow> string \<Rightarrow> string" where
  "create_temp_name dir pre suf rnd =
     (if dir \<noteq> [] \<and> last dir = CHR ''/'' then dir else dir @ ''/'') @ pre @ rnd @ suf"

section \<open>Files and faults\<close>

record disk_file =
  f_content :: string
  f_mode :: nat

type_synonym fs = "string \<rightharpoonup> disk_file"

text \<open>The first system call that fails, if one does.  \<open>WriteFails p\<close> leaves the part \<open>p\<close> of
  the content in the temporary file.\<close>

datatype io_fault =
    NoFault
  | CreateFails
  | WriteFails string
  | ChmodFails
  | CloseFails
  | RenameFails

text \<open>What the operating system does during one write: the fault, the random part of the
  temporary file's name, and whether removing the temporary file works.\<close>

record io_plan =
  io_fault :: io_fault
  io_rnd :: string
  io_remove_ok :: bool

definition remove_tmp :: "io_plan \<Rightarrow> string \<Rightarrow> fs \<Rightarrow> fs" where
  "remove_tmp plan tmp d = (if io_remove_ok plan then d(tmp := None) else d)"

text \<open>\<open>os.Rename\<close>: the file moves, replacing what the new name held.\<close>

definition rename_file :: "string \<Rightarrow> string \<Rightarrow> fs \<Rightarrow> fs" where
  "rename_file old new d = (d(old := None))(new := d old)"

lemma remove_tmp_other: "p \<noteq> tmp \<Longrightarrow> remove_tmp plan tmp d p = d p"
  by (simp add: remove_tmp_def)

section \<open>The interface of the atomic writers\<close>

text \<open>
  \<open>store plan path content d\<close> is the outcome (\<open>None\<close> for success) and the file system
  after it; \<open>tmp plan path\<close> is the name of its temporary file, fresh because
  \<open>os.CreateTemp\<close> opens with \<open>O_EXCL\<close>.
\<close>

locale atomic_writer =
  fixes store :: "io_plan \<Rightarrow> string \<Rightarrow> string \<Rightarrow> fs \<Rightarrow> 'e option \<times> fs"
    and tmp :: "io_plan \<Rightarrow> string \<Rightarrow> string"
    and mode :: nat
  assumes write_ok: "tmp plan path \<notin> dom d \<Longrightarrow> store plan path c d = (None, d') \<Longrightarrow>
      d' = d(path \<mapsto> \<lparr>f_content = c, f_mode = mode\<rparr>)"
    and write_err: "tmp plan path \<notin> dom d \<Longrightarrow> store plan path c d = (Some e, d') \<Longrightarrow>
      p \<noteq> tmp plan path \<Longrightarrow> d' p = d p"
    and tmp_not_target: "tmp plan path \<noteq> path"
begin

lemma all_or_nothing:
  assumes "tmp plan path \<notin> dom d"
  shows "snd (store plan path c d) path \<in> {d path, Some \<lparr>f_content = c, f_mode = mode\<rparr>}"
proof (cases "store plan path c d")
  case (Pair r d')
  then show ?thesis
    using write_ok [OF assms, of c d'] write_err [OF assms, of c _ d' path] tmp_not_target [of plan path]
    by (cases r) auto
qed

lemma others_untouched:
  assumes "tmp plan path \<notin> dom d" "p \<noteq> path" "p \<noteq> tmp plan path"
  shows "snd (store plan path c d) p = d p"
proof (cases "store plan path c d")
  case (Pair r d')
  then show ?thesis
    using write_ok [OF assms(1), of c d'] write_err [OF assms(1), of c _ d' p] assms(2,3)
    by (cases r) auto
qed

text \<open>A reader that opens the target between two writes, or after a crashed one, never sees
  a partly written file: over any sequence of attempts the content is the original one or
  one of those written in full.\<close>

fun write_all :: "(io_plan \<times> string) list \<Rightarrow> string \<Rightarrow> fs \<Rightarrow> fs" where
  "write_all [] path d = d"
| "write_all ((plan, c) # ws) path d = write_all ws path (snd (store plan path c d))"

fun fresh_all :: "(io_plan \<times> string) list \<Rightarrow> string \<Rightarrow> fs \<Rightarrow> bool" where
  "fresh_all [] path d \<longleftrightarrow> True"
| "fresh_all ((plan, c) # ws) path d \<longleftrightarrow>
     tmp plan path \<notin> dom d \<and> fresh_all ws path (snd (store plan path c d))"

lemma write_all_target:
  "fresh_all ws path d \<Longrightarrow>
   write_all ws path d path \<in>
     insert (d path) ((\<lambda>c. Some \<lparr>f_content = c, f_mode = mode\<rparr>) ` snd ` set ws)"
proof (induction ws path d rule: write_all.induct)
  case (2 plan c ws path d)
  then show ?case using all_or_nothing [of plan path d c] by auto
qed simp

end

end
