(* ===== verification/Key_Value.thy ===== *)
theory Key_Value
  imports Prelude
begin

text \<open>
  The contract of a keyed store: a lookup after a store returns the stored value at that key
  and what it returned before at every other key, and storing keeps the store's invariant.
  The laws for sequences of stores are proved once here; the components that keep keyed state
  interpret the locale on their own operations.
\<close>

locale kv_store =
  fixes get :: "'s \<Rightarrow> 'k \<Rightarrow> 'v option"
    and put :: "'s \<Rightarrow> 'k \<Rightarrow> 'v \<Rightarrow> 's"
    and inv :: "'s \<Rightarrow> bool"
  assumes get_put: "inv s \<Longrightarrow> get (put s k v) k' = (if k' = k then Some v else get s k')"
    and put_inv: "inv s \<Longrightarrow> inv (put s k v)"
begin

lemma put_all_inv: "inv s \<Longrightarrow> inv (foldl (\<lambda>s (k, v). put s k v) s kvs)"
  by (induction kvs arbitrary: s) (auto intro: put_inv)

text \<open>After any sequence of stores a key holds the last value stored at it.\<close>

lemma get_put_all:
  "inv s \<Longrightarrow> get (foldl (\<lambda>s (k, v). put s k v) s kvs) k =
     (case last_of kvs k of Some v \<Rightarrow> Some v | None \<Rightarrow> get s k)"
proof (induction kvs arbitrary: s)
  case (Cons kv kvs)
  then show ?case
    by (cases kv) (auto simp: get_put put_inv last_of_def map_add_def split: option.splits)
qed simp

text \<open>Stores at different keys commute, as far as lookups can tell; a second store at the same
  key makes the first one invisible.\<close>

lemma put_commute:
  "inv s \<Longrightarrow> k \<noteq> k' \<Longrightarrow> get (put (put s k v) k' v') j = get (put (put s k' v') k v) j"
  by (simp add: get_put put_inv)

lemma put_overwrite: "inv s \<Longrightarrow> get (put (put s k v) k v') j = get (put s k v') j"
  by (simp add: get_put put_inv)

end

section \<open>Association lists\<close>

text \<open>Update the first entry of a name, or append one.\<close>

fun upsert :: "'k \<Rightarrow> 'v \<Rightarrow> ('k \<times> 'v) list \<Rightarrow> ('k \<times> 'v) list" where
  "upsert k v [] = [(k, v)]"
| "upsert k v ((k', v') # es) = (if k' = k then (k, v) # es else (k', v') # upsert k v es)"

interpretation named: kv_store map_of "\<lambda>es k v. upsert k v es" "\<lambda>_. True"
proof
  show "map_of (upsert k v es) k' = (if k' = k then Some v else map_of es k')" for k :: 'k and v :: 'v and es k'
    by (induction k v es rule: upsert.induct) auto
qed simp

abbreviation others :: "'k \<Rightarrow> ('k \<times> 'v) list \<Rightarrow> ('k \<times> 'v) list" where
  "others k es \<equiv> filter (\<lambda>e. fst e \<noteq> k) es"

lemma upsert_others: "others k (upsert k v es) = others k es"
  by (induction k v es rule: upsert.induct) auto

lemma upsert_keys [simp]: "fst ` set (upsert k v es) = insert k (fst ` set es)"
  by (induction k v es rule: upsert.induct) auto

lemma upsert_set: "e \<in> set (upsert k v es) \<Longrightarrow> e = (k, v) \<or> e \<in> set es"
  by (induction k v es rule: upsert.induct) (auto split: if_splits)

lemma map_of_upsert: "map_of (upsert k v es) = (map_of es)(k \<mapsto> v)"
  by (rule ext) (simp add: named.get_put)

end
