(* ===== verification/Env_File.thy ===== *)
theory Env_File
  imports Atomic_File Key_Value
begin

text \<open>
  The order-preserving reader and writer of \<open>cluster-config.env\<close>
  (\<open>cli/internal/bootstrap/config/env.go\<close>): the list of lines with its key index, the
  scanner, the accessors, the mutators, the rendering and the atomic write.  Errors carry the
  stage that failed; the texts of the messages are not modelled.
\<close>

section \<open>Data\<close>

datatype env_line_kind = LineKV | LineBlank | LineComment

record env_line =
  el_kind :: env_line_kind
  el_key :: string
  el_value :: string
  el_raw :: string

record env =
  env_path :: string
  env_lines :: "env_line list"
  env_index :: "string \<rightharpoonup> nat"

definition new_env :: env where
  "new_env = \<lparr>env_path = [], env_lines = [], env_index = Map.empty\<rparr>"

text \<open>Strip one pair of matching quotes.\<close>

definition env_unquote :: "string \<Rightarrow> string" where
  "env_unquote s =
     (if length s < 2 then s
      else if (hd s = DQ \<and> last s = DQ) \<or> (hd s = SQ \<and> last s = SQ)
      then butlast (tl s) else s)"

section \<open>Reading\<close>

datatype env_error = EnvOpen | EnvTooLong | EnvNoPath | EnvIO io_fault

text \<open>\<open>bufio.Scanner\<close> with \<open>ScanLines\<close> and the buffer limit of 1 MiB that \<open>LoadEnv\<close> sets:
  the final newline ends the last line, one carriage return before a newline is dropped, and
  a line that fills the buffer stops the scan with \<open>ErrTooLong\<close>.\<close>

definition max_token :: nat where
  "max_token = 1024 * 1024"

definition drop_cr :: "string \<Rightarrow> string" where
  "drop_cr l = (if l \<noteq> [] \<and> last l = CR then butlast l else l)"

definition raw_lines :: "string \<Rightarrow> string list" where
  "raw_lines s = (let ls = split_on NL s in if last ls = [] then butlast ls else ls)"

definition scan_lines :: "string \<Rightarrow> env_error + string list" where
  "scan_lines s =
     (if \<exists>l\<in>set (raw_lines s). max_token \<le> length l then Inl EnvTooLong
      else Inr (map drop_cr (raw_lines s)))"

definition append_line :: "env \<Rightarrow> env_line \<Rightarrow> env" where
  "append_line e l = e\<lparr>env_lines := env_lines e @ [l]\<rparr>"

text \<open>One iteration of the scan loop.\<close>

definition load_line :: "env \<Rightarrow> string \<Rightarrow> env" where
  "load_line e line =
     (let trimmed = trim_space line in
      if trimmed = [] then
        append_line e \<lparr>el_kind = LineBlank, el_key = [], el_value = [], el_raw = line\<rparr>
      else if has_prefix trimmed ''#'' then
        append_line e \<lparr>el_kind = LineComment, el_key = [], el_value = [], el_raw = line\<rparr>
      else case cut (CHR ''='') line of
        None \<Rightarrow>
          append_line e \<lparr>el_kind = LineComment, el_key = [], el_value = [], el_raw = line\<rparr>
      | Some (lhs, rhs) \<Rightarrow>
          (let key = trim_space lhs; val = env_unquote (trim_space rhs);
               e' = append_line e \<lparr>el_kind = LineKV, el_key = key, el_value = val, el_raw = line\<rparr>
           in e'\<lparr>env_index := (env_index e')(key \<mapsto> length (env_lines e') - 1)\<rparr>))"

fun load_lines :: "env \<Rightarrow> string list \<Rightarrow> env" where
  "load_lines e [] = e"
| "load_lines e (l # ls) = load_lines (load_line e l) ls"

definition load_env :: "string \<Rightarrow> fs \<Rightarrow> env_error + env" where
  "load_env path d =
     (case d path of
        None \<Rightarrow> Inl EnvOpen
      | Some f \<Rightarrow>
          and_then (scan_lines (f_content f))
            (\<lambda>ls. Inr (load_lines \<lparr>env_path = path, env_lines = [], env_index = Map.empty\<rparr> ls)))"

section \<open>Access\<close>

definition env_get :: "env \<Rightarrow> string \<Rightarrow> string option" where
  "env_get e key =
     (case env_index e key of
        None \<Rightarrow> None
      | Some i \<Rightarrow> Some (el_value (env_lines e ! i)))"

definition env_get_or :: "env \<Rightarrow> string \<Rightarrow> string \<Rightarrow> string" where
  "env_get_or e key fallback = (case env_get e key of None \<Rightarrow> fallback | Some v \<Rightarrow> v)"

definition is_kv :: "env_line \<Rightarrow> bool" where
  "is_kv l \<longleftrightarrow> el_kind l = LineKV"

definition kv_pairs :: "env_line list \<Rightarrow> (string \<times> string) list" where
  "kv_pairs ls = map (\<lambda>l. (el_key l, el_value l)) (filter is_kv ls)"

definition env_as_map :: "env \<Rightarrow> string \<rightharpoonup> string" where
  "env_as_map e = last_of (kv_pairs (env_lines e))"

definition env_keys :: "env \<Rightarrow> string list" where
  "env_keys e = map el_key (filter is_kv (env_lines e))"

section \<open>Mutation\<close>

definition env_set :: "env \<Rightarrow> string \<Rightarrow> string \<Rightarrow> env" where
  "env_set e key value =
     (case env_index e key of
        Some i \<Rightarrow>
          e\<lparr>env_lines := (env_lines e)
              [i := (env_lines e ! i)\<lparr>el_value := value, el_raw := key @ ''='' @ value\<rparr>]\<rparr>
      | None \<Rightarrow>
          (let e' = append_line e
                 \<lparr>el_kind = LineKV, el_key = key, el_value = value, el_raw = key @ ''='' @ value\<rparr>
           in e'\<lparr>env_index := (env_index e')(key \<mapsto> length (env_lines e') - 1)\<rparr>))"

definition append_comment :: "env \<Rightarrow> string \<Rightarrow> env" where
  "append_comment e text =
     append_line e \<lparr>el_kind = LineComment, el_key = [], el_value = [], el_raw = text\<rparr>"

definition append_blank :: "env \<Rightarrow> env" where
  "append_blank e =
     append_line e \<lparr>el_kind = LineBlank, el_key = [], el_value = [], el_raw = []\<rparr>"

section \<open>Writing\<close>

definition render_line :: "env_line \<Rightarrow> string" where
  "render_line l =
     (case el_kind l of
        LineKV \<Rightarrow> el_key l @ ''='' @ el_value l
      | LineComment \<Rightarrow> el_raw l
      | LineBlank \<Rightarrow> el_raw l)"

definition render_env :: "env \<Rightarrow> string" where
  "render_env e = concat (map (\<lambda>l. render_line l @ [NL]) (env_lines e))"

definition env_tmp :: "io_plan \<Rightarrow> string \<Rightarrow> string" where
  "env_tmp plan path =
     create_temp_name (dir_of path) (filepath_base path @ ''.'') ''.tmp'' (io_rnd plan)"

definition write_content :: "io_plan \<Rightarrow> string \<Rightarrow> string \<Rightarrow> fs \<Rightarrow> env_error option \<times> fs" where
  "write_content plan path content d =
     (let tmp = env_tmp plan path;
          d1 = d(tmp \<mapsto> \<lparr>f_content = [], f_mode = 384\<rparr>);
          d2 = d(tmp \<mapsto> \<lparr>f_content = content, f_mode = 384\<rparr>);
          d3 = d(tmp \<mapsto> \<lparr>f_content = content, f_mode = 420\<rparr>)
      in case io_fault plan of
           CreateFails \<Rightarrow> (Some (EnvIO CreateFails), d)
         | WriteFails part \<Rightarrow>
             (Some (EnvIO (WriteFails part)),
              remove_tmp plan tmp (d1(tmp \<mapsto> \<lparr>f_content = part, f_mode = 384\<rparr>)))
         | ChmodFails \<Rightarrow> (Some (EnvIO ChmodFails), remove_tmp plan tmp d2)
         | CloseFails \<Rightarrow> (Some (EnvIO CloseFails), remove_tmp plan tmp d3)
         | RenameFails \<Rightarrow> (Some (EnvIO RenameFails), remove_tmp plan tmp d3)
         | NoFault \<Rightarrow> (None, rename_file tmp path d3))"

definition env_write :: "io_plan \<Rightarrow> env \<Rightarrow> string \<Rightarrow> fs \<Rightarrow> env_error option \<times> env \<times> fs" where
  "env_write plan e path d =
     (let target = (if path = [] then env_path e else path) in
      if target = [] then (Some EnvNoPath, e, d)
      else case write_content plan target (render_env e) d of
        (Some err, d') \<Rightarrow> (Some err, e, d')
      | (None, d') \<Rightarrow> (None, e\<lparr>env_path := target\<rparr>, d'))"


section \<open>Well-formedness: the index points at the last line of each key\<close>

definition kv_at :: "string \<Rightarrow> env_line \<Rightarrow> bool" where
  "kv_at k l \<longleftrightarrow> is_kv l \<and> el_key l = k"

definition last_pos :: "env_line list \<Rightarrow> string \<Rightarrow> nat option" where
  "last_pos ls k = map_option (\<lambda>j. length ls - Suc j) (find_index (kv_at k) (rev ls))"

definition env_wf :: "env \<Rightarrow> bool" where
  "env_wf e \<longleftrightarrow> env_index e = last_pos (env_lines e)"

lemma last_pos_Nil [simp]: "last_pos [] = Map.empty"
  by (simp add: last_pos_def fun_eq_iff)

lemma last_pos_snoc: "last_pos (ls @ [l]) k = (if kv_at k l then Some (length ls) else last_pos ls k)"
  by (simp add: last_pos_def option.map_comp comp_def)

lemma last_pos_SomeD:
  assumes "last_pos ls k = Some i"
  shows "i < length ls" "kv_at k (ls ! i)" "\<And>j. i < j \<Longrightarrow> j < length ls \<Longrightarrow> \<not> kv_at k (ls ! j)"
proof -
  from assms obtain m where m: "find_index (kv_at k) (rev ls) = Some m" "i = length ls - Suc m"
    by (auto simp: last_pos_def)
  note f = find_index_SomeD [OF m(1)]
  show "i < length ls" using f m(2) by auto
  show "kv_at k (ls ! i)" using f m(2) by (auto simp: rev_nth)
  show "\<not> kv_at k (ls ! j)" if "i < j" "j < length ls" for j
  proof -
    from that f m(2) have "length ls - Suc j < m" by auto
    with f have "\<not> kv_at k (rev ls ! (length ls - Suc j))" by blast
    with that show ?thesis by (simp add: rev_nth Suc_diff_Suc)
  qed
qed

lemma last_pos_update:
  assumes "i < length ls" "is_kv l" "is_kv (ls ! i)" "el_key l = el_key (ls ! i)"
  shows "last_pos (ls[i := l]) = last_pos ls"
proof
  fix k
  have "map (kv_at k) (ls[i := l]) = map (kv_at k) ls"
    by (rule map_list_update_frame) (use assms in \<open>simp add: kv_at_def\<close>)
  then have "find_index (kv_at k) (rev (ls[i := l])) = find_index (kv_at k) (rev ls)"
    by (intro find_index_cong) (simp flip: rev_map)
  then show "last_pos (ls[i := l]) k = last_pos ls k"
    by (simp add: last_pos_def)
qed

lemma kv_pairs_append [simp]: "kv_pairs (xs @ ys) = kv_pairs xs @ kv_pairs ys"
  by (simp add: kv_pairs_def)

lemma kv_pairs_single [simp]: "kv_pairs [l] = (if is_kv l then [(el_key l, el_value l)] else [])"
  by (simp add: kv_pairs_def)

text \<open>The index lookup finds what a scan of all lines finds.\<close>

lemma last_pos_value:
  "map_option (\<lambda>i. el_value (ls ! i)) (last_pos ls k) = last_of (kv_pairs ls) k"
proof (induction ls rule: rev_induct)
  case Nil
  then show ?case by (simp add: kv_pairs_def)
next
  case (snoc l ls)
  show ?case
  proof (cases "kv_at k l")
    case True
    then show ?thesis by (simp add: last_pos_snoc kv_at_def)
  next
    case False
    have "map_option (\<lambda>i. el_value ((ls @ [l]) ! i)) (last_pos ls k) =
        map_option (\<lambda>i. el_value (ls ! i)) (last_pos ls k)"
      by (cases "last_pos ls k") (auto dest: last_pos_SomeD(1) simp: nth_append)
    then show ?thesis
      using False snoc by (auto simp: last_pos_snoc kv_at_def)
  qed
qed

lemma env_get_as_map: "env_wf e \<Longrightarrow> env_get e k = env_as_map e k"
  using last_pos_value [of "env_lines e" k]
  by (auto simp: env_get_def env_as_map_def env_wf_def map_option_case split: option.splits)

subsection \<open>Every operation keeps it\<close>

lemma new_env_wf [wf_intro]: "env_wf new_env"
  by (simp add: env_wf_def new_env_def)

lemma append_line_wf:
  "env_wf e \<Longrightarrow> \<not> is_kv l \<Longrightarrow> env_wf (append_line e l)"
  by (auto simp: env_wf_def append_line_def fun_eq_iff last_pos_snoc kv_at_def)

lemma append_kv_wf:
  "env_wf e \<Longrightarrow> is_kv l \<Longrightarrow>
   env_wf (append_line e l\<lparr>env_index := (env_index e)(el_key l \<mapsto> length (env_lines e))\<rparr>)"
  by (auto simp: env_wf_def append_line_def fun_eq_iff last_pos_snoc kv_at_def)

lemma load_line_wf [wf_intro]:
  assumes "env_wf e"
  shows "env_wf (load_line e line)"
proof -
  have "env_wf (e\<lparr>env_lines := env_lines e @ [l], env_index := (env_index e)(k \<mapsto> length (env_lines e))\<rparr>)"
    if "is_kv l" "el_key l = k" for l k
    using append_kv_wf [OF assms that(1)] that(2) by (simp add: append_line_def)
  with append_line_wf [OF assms] show ?thesis
    by (simp add: load_line_def Let_def is_kv_def append_line_def split: option.splits)
qed

lemma load_lines_wf [wf_intro]: "env_wf e \<Longrightarrow> env_wf (load_lines e ls)"
  by (induction e ls rule: load_lines.induct) (auto intro: wf_intro)

lemma load_env_wf: "load_env path d = Inr e \<Longrightarrow> env_wf e"
  by (auto simp: load_env_def and_then_Inr_iff env_wf_def [of "env.make _ _ _"]
      split: option.splits intro!: load_lines_wf)
     (simp add: env_wf_def)

lemma env_set_wf [wf_intro]: "env_wf e \<Longrightarrow> env_wf (env_set e k v)"
proof (cases "env_index e k")
  case None
  assume "env_wf e"
  with None show ?thesis
    using append_kv_wf [of e "\<lparr>el_kind = LineKV, el_key = k, el_value = v, el_raw = k @ ''='' @ v\<rparr>"]
    by (simp add: env_set_def Let_def append_line_def is_kv_def)
next
  case (Some i)
  assume wf: "env_wf e"
  with Some have "last_pos (env_lines e) k = Some i" by (simp add: env_wf_def)
  from last_pos_SomeD [OF this] have "i < length (env_lines e)" "is_kv (env_lines e ! i)"
    by (auto simp: kv_at_def)
  with wf Some show ?thesis
    by (simp add: env_set_def env_wf_def) (subst last_pos_update; simp add: is_kv_def)
qed

lemma append_comment_wf [wf_intro]: "env_wf e \<Longrightarrow> env_wf (append_comment e t)"
  by (simp add: append_comment_def append_line_wf is_kv_def)

lemma append_blank_wf [wf_intro]: "env_wf e \<Longrightarrow> env_wf (append_blank e)"
  by (simp add: append_blank_def append_line_wf is_kv_def)


section \<open>The keyed-store contract\<close>

lemma env_index_SomeD:
  "env_wf e \<Longrightarrow> env_index e k = Some i \<Longrightarrow>
   i < length (env_lines e) \<and> is_kv (env_lines e ! i) \<and> el_key (env_lines e ! i) = k"
  using last_pos_SomeD(1,2) [of "env_lines e" k i] by (auto simp: env_wf_def kv_at_def)

lemma env_get_set:
  assumes "env_wf e"
  shows "env_get (env_set e k v) k' = (if k' = k then Some v else env_get e k')"
proof (cases "env_index e k")
  case None
  have old: "el_value ((env_lines e @ [l]) ! i) = el_value (env_lines e ! i)"
    if "env_index e k' = Some i" for i l
    using env_index_SomeD [OF assms that] by (simp add: nth_append)
  show ?thesis
    using None old by (auto simp: env_get_def env_set_def Let_def append_line_def split: option.splits)
next
  case (Some i)
  note i = env_index_SomeD [OF assms Some]
  show ?thesis
  proof (cases "k' = k")
    case True
    with Some i show ?thesis by (simp add: env_get_def env_set_def)
  next
    case False
    have "j \<noteq> i" if "env_index e k' = Some j" for j
      using env_index_SomeD [OF assms that] i False by auto
    with Some False show ?thesis
      by (auto simp: env_get_def env_set_def split: option.splits)
  qed
qed

interpretation env_kv: kv_store env_get env_set env_wf
  by unfold_locales (auto simp: env_get_set intro: env_set_wf)

text \<open>A store rewrites one line or appends one: every other line, and the order of the keys,
  stays.\<close>

lemma env_set_lines:
  assumes "env_wf e"
  shows "env_lines (env_set e k v) =
    (case env_index e k of
       Some i \<Rightarrow> take i (env_lines e)
         @ (env_lines e ! i)\<lparr>el_value := v, el_raw := k @ ''='' @ v\<rparr> # drop (Suc i) (env_lines e)
     | None \<Rightarrow> env_lines e
         @ [\<lparr>el_kind = LineKV, el_key = k, el_value = v, el_raw = k @ ''='' @ v\<rparr>])"
  using env_index_SomeD [OF assms]
  by (auto simp: env_set_def Let_def append_line_def upd_conv_take_nth_drop split: option.splits)

lemma last_pos_None_iff: "last_pos ls k = None \<longleftrightarrow> k \<notin> set (map el_key (filter is_kv ls))"
  by (auto simp: last_pos_def find_index_None_iff kv_at_def)

lemma env_keys_set_lemma:
  assumes "env_wf e"
  shows "env_keys (env_set e k v) = (if k \<in> set (env_keys e) then env_keys e else env_keys e @ [k])"
proof (cases "env_index e k")
  case None
  with assms have "k \<notin> set (env_keys e)"
    by (simp add: env_wf_def env_keys_def last_pos_None_iff)
  with None show ?thesis
    by (simp add: env_set_def Let_def append_line_def env_keys_def is_kv_def)
next
  case (Some i)
  note i = env_index_SomeD [OF assms Some]
  let ?ls = "env_lines e"
  have keys: "map el_key (filter is_kv ?ls) =
      map el_key (filter is_kv (take i ?ls @ ?ls ! i # drop (Suc i) ?ls))"
    using id_take_nth_drop [of i ?ls] i by simp
  have "k \<in> set (env_keys e)"
    using i by (auto simp: env_keys_def)
  moreover have "env_keys (env_set e k v) = env_keys e"
    unfolding env_keys_def keys env_set_lines [OF assms]
    using Some i by (simp add: is_kv_def)
  ultimately show ?thesis by simp
qed

section \<open>The atomic write\<close>

lemma create_temp_name_length: "length dir + length pre \<le> length (create_temp_name dir pre suf rnd)"
  by (simp add: create_temp_name_def)

lemma last_slash_bound: "last_slash path = Some i \<Longrightarrow> i < length path"
  by (auto simp: last_slash_def dest!: find_index_SomeD)

lemma env_tmp_longer: "length path < length (env_tmp plan path)"
proof (cases "last_slash path")
  case None
  then show ?thesis
    by (simp add: env_tmp_def create_temp_name_def dir_of_def filepath_base_def)
next
  case (Some i)
  note last_slash_bound [OF Some]
  with Some show ?thesis
    by (auto simp: env_tmp_def create_temp_name_def dir_of_def filepath_base_def)
qed

interpretation env_writer: atomic_writer write_content env_tmp 420
proof
  show "env_tmp plan path \<noteq> path" for plan path
    using env_tmp_longer [of path plan] by auto
  then show "d' = d(path \<mapsto> \<lparr>f_content = c, f_mode = 420\<rparr>)"
    if "env_tmp plan path \<notin> dom d" "write_content plan path c d = (None, d')" for plan path d c d'
    using that
    by (auto simp: write_content_def Let_def rename_file_def domIff split: io_fault.splits intro!: ext)
  show "d' p = d p"
    if "env_tmp plan path \<notin> dom d" "write_content plan path c d = (Some e, d')"
      "p \<noteq> env_tmp plan path" for plan path d c e d' p
    using that by (auto simp: write_content_def Let_def remove_tmp_other split: io_fault.splits)
qed

section \<open>Writing and reading back\<close>

lemma raw_lines_concat:
  "\<forall>l\<in>set rs. NL \<notin> set l \<Longrightarrow> raw_lines (concat (map (\<lambda>l. l @ [NL]) rs)) = rs"
proof -
  assume "\<forall>l\<in>set rs. NL \<notin> set l"
  then have "split_on NL (concat (map (\<lambda>l. l @ [NL]) rs)) = rs @ [[]]"
    by (induction rs) (auto simp: split_on_append)
  then show ?thesis by (simp add: raw_lines_def)
qed

text \<open>A line survives being written and read back: no newline inside, within the scanner's
  limit, no carriage return at its end; a key that is trimmed and has neither an equals sign
  nor a leading hash, a value that is trimmed and not wrapped in quotes.\<close>

definition clean_text :: "env_line \<Rightarrow> bool" where
  "clean_text l \<longleftrightarrow>
     NL \<notin> set (render_line l) \<and> drop_cr (render_line l) = render_line l \<and>
     (case el_kind l of
        LineKV \<Rightarrow> trimmed (el_key l) \<and> CHR ''='' \<notin> set (el_key l) \<and> \<not> has_prefix (el_key l) ''#'' \<and>
          trimmed (el_value l) \<and> env_unquote (el_value l) = el_value l
      | LineBlank \<Rightarrow> el_key l = [] \<and> el_value l = [] \<and> blank (el_raw l)
      | LineComment \<Rightarrow> el_key l = [] \<and> el_value l = [] \<and> \<not> blank (el_raw l) \<and>
          (has_prefix (trim_space (el_raw l)) ''#'' \<or> CHR ''='' \<notin> set (el_raw l)))"

definition clean_line :: "env_line \<Rightarrow> bool" where
  "clean_line l \<longleftrightarrow> length (render_line l) < max_token \<and> clean_text l"

definition canon_line :: "env_line \<Rightarrow> env_line" where
  "canon_line l = l\<lparr>el_raw := render_line l\<rparr>"

lemma canon_line_kv [simp]: "is_kv (canon_line l) = is_kv l" "el_key (canon_line l) = el_key l"
  "el_value (canon_line l) = el_value l"
  by (simp_all add: canon_line_def is_kv_def)

lemma kv_pairs_canon [simp]: "kv_pairs (map canon_line ls) = kv_pairs ls"
  by (simp add: kv_pairs_def filter_map comp_def)

text \<open>The line the scan loop appends.\<close>

lemma load_line_clean:
  assumes "clean_line l"
  shows "env_lines (load_line e (render_line l)) = env_lines e @ [canon_line l]"
proof (cases "el_kind l")
  case LineKV
  let ?k = "el_key l" and ?v = "el_value l"
  from assms LineKV have k: "trimmed ?k" "CHR ''='' \<notin> set ?k" "\<not> has_prefix ?k ''#''"
    and v: "trimmed ?v" "env_unquote ?v = ?v"
    by (simp_all add: clean_line_def clean_text_def)
  have t: "trim_space (?k @ CHR ''='' # ?v) = ?k @ CHR ''='' # ?v"
    using trimmed_around [OF k(1) v(1), of "CHR ''=''"]
    by (simp add: trimmed_def space_tokens_def)
  have h: "\<not> has_prefix (?k @ CHR ''='' # ?v) ''#''"
    using k(3) by (cases ?k) auto
  show ?thesis
    using t h k v LineKV
    by (simp add: load_line_def Let_def render_line_def append_line_def cut_append
        trim_space_trimmed canon_line_def)
next
  case LineBlank
  with assms show ?thesis
    by (simp add: clean_line_def clean_text_def load_line_def render_line_def append_line_def blank_def canon_line_def)
next
  case LineComment
  with assms have "el_key l = []" "el_value l = []" "trim_space (el_raw l) \<noteq> []"
    "has_prefix (trim_space (el_raw l)) ''#'' \<or> cut (CHR ''='') (el_raw l) = None"
    by (auto simp: clean_line_def clean_text_def blank_def cut_None_iff)
  with LineComment show ?thesis
    by (auto simp: load_line_def Let_def render_line_def append_line_def canon_line_def)
qed

lemma load_lines_clean:
  "\<forall>l\<in>set ls. clean_line l \<Longrightarrow>
   env_lines (load_lines e (map render_line ls)) = env_lines e @ map canon_line ls"
  by (induction ls arbitrary: e) (auto simp: load_line_clean)

lemma scan_render:
  assumes "\<forall>l\<in>set (env_lines e). clean_line l"
  shows "scan_lines (render_env e) = Inr (map render_line (env_lines e))"
proof -
  let ?rs = "map render_line (env_lines e)"
  have "raw_lines (render_env e) = ?rs"
    using raw_lines_concat [of ?rs] assms by (auto simp: render_env_def clean_line_def clean_text_def comp_def)
  moreover have "map drop_cr ?rs = ?rs"
    using assms by (auto simp: clean_line_def clean_text_def)
  ultimately show ?thesis
    using assms by (auto simp: scan_lines_def clean_line_def clean_text_def not_le)
qed

lemma load_render:
  assumes "\<forall>l\<in>set (env_lines e). clean_line l" "env_wf e" "d path = Some f" "f_content f = render_env e"
  shows "\<exists>e'. load_env path d = Inr e' \<and> env_lines e' = map canon_line (env_lines e) \<and>
    (\<forall>k. env_get e' k = env_get e k)"
proof -
  let ?e0 = "\<lparr>env_path = path, env_lines = [], env_index = Map.empty\<rparr>"
  let ?e' = "load_lines ?e0 (map render_line (env_lines e))"
  have load: "load_env path d = Inr ?e'"
    using assms scan_render [OF assms(1)] by (simp add: load_env_def)
  have lines: "env_lines ?e' = map canon_line (env_lines e)"
    using load_lines_clean [OF assms(1), of ?e0] by simp
  have "env_get ?e' k = env_get e k" for k
    using load_env_wf [OF load] assms(2) by (simp add: env_get_as_map env_as_map_def lines)
  with load lines show ?thesis by blast
qed

lemma env_set_clean:
  assumes "env_wf e" "\<forall>l\<in>set (env_lines e). clean_line l"
    and "clean_line \<lparr>el_kind = LineKV, el_key = k, el_value = v, el_raw = k @ ''='' @ v\<rparr>"
  shows "\<forall>l\<in>set (env_lines (env_set e k v)). clean_line l"
proof -
  have "clean_line (l\<lparr>el_value := v, el_raw := k @ ''='' @ v\<rparr>)" if "is_kv l" "el_key l = k" for l
    using assms(3) that by (simp add: clean_line_def clean_text_def is_kv_def render_line_def)
  with assms show ?thesis
    using env_index_SomeD [OF assms(1)]
    by (auto simp: env_set_lines split: option.splits dest: in_set_takeD in_set_dropD)
qed

lemma env_set_all_clean:
  assumes "env_wf e" "\<forall>l\<in>set (env_lines e). clean_line l"
    and "\<forall>(k, v)\<in>set kvs. clean_line \<lparr>el_kind = LineKV, el_key = k, el_value = v, el_raw = k @ ''='' @ v\<rparr>"
  shows "\<forall>l\<in>set (env_lines (foldl (\<lambda>e (k, v). env_set e k v) e kvs)). clean_line l"
  using assms
proof (induction kvs arbitrary: e)
  case (Cons kv kvs)
  obtain k v where "kv = (k, v)" by (cases kv)
  with Cons.prems(3) have kv: "clean_line \<lparr>el_kind = LineKV, el_key = k, el_value = v, el_raw = k @ ''='' @ v\<rparr>"
    by simp
  have "\<forall>l\<in>set (env_lines (foldl (\<lambda>e (k, v). env_set e k v) (env_set e k v) kvs)). clean_line l"
    by (rule Cons.IH [OF env_set_wf [OF Cons.prems(1)] env_set_clean [OF Cons.prems(1,2) kv]])
      (use Cons.prems(3) in auto)
  then show ?case by (simp add: \<open>kv = (k, v)\<close>)
qed simp

lemma env_set_split:
  assumes "env_wf e"
  shows "\<exists>pre old post new. env_lines e = pre @ old @ post \<and> env_lines (env_set e k v) = pre @ new # post \<and>
       is_kv new \<and> el_key new = k \<and> el_value new = v \<and> render_line new = k @ ''='' @ v \<and>
       (if k \<in> set (env_keys e) then (\<exists>l. old = [l] \<and> is_kv l \<and> el_key l = k) \<and> k \<notin> set (map el_key (filter is_kv post))
        else old = [] \<and> post = [])"
proof (cases "env_index e k")
  case None
  then have "k \<notin> set (env_keys e)"
    using assms by (simp add: env_wf_def env_keys_def last_pos_None_iff)
  then show ?thesis
    by (intro exI [of _ "env_lines e"] exI [of _ "[]"])
      (simp add: env_set_lines [OF assms] None is_kv_def render_line_def)
next
  case (Some i)
  let ?ls = "env_lines e"
  note i = env_index_SomeD [OF assms Some]
  have "k \<in> set (env_keys e)" using i by (auto simp: env_keys_def)
  moreover have "k \<notin> set (map el_key (filter is_kv (drop (Suc i) ?ls)))"
  proof
    assume "k \<in> set (map el_key (filter is_kv (drop (Suc i) ?ls)))"
    then obtain l where l: "l \<in> set (drop (Suc i) ?ls)" "kv_at k l" by (auto simp: kv_at_def)
    then obtain j where "j < length (drop (Suc i) ?ls)" "l = drop (Suc i) ?ls ! j"
      by (auto simp: in_set_conv_nth)
    then have j: "l = ?ls ! (Suc i + j)" "Suc i + j < length ?ls" by auto
    have "last_pos ?ls k = Some i" using Some assms by (simp add: env_wf_def)
    from last_pos_SomeD(3) [OF this _ j(2)] l(2) j(1) show False by simp
  qed
  ultimately show ?thesis
    using i id_take_nth_drop [of i ?ls]
    by (intro exI [of _ "take i ?ls"] exI [of _ "[?ls ! i]"] exI [of _ "drop (Suc i) ?ls"])
      (simp add: env_set_lines [OF assms] Some is_kv_def render_line_def)
qed

section \<open>Properties\<close>

definition env_disk_example :: fs where
  "env_disk_example = [''c.env'' \<mapsto> \<lparr>f_content = ''# c'' @ [NL] @ ''A=1'' @ [NL] @ ''A=2'', f_mode = 420\<rparr>]"

definition env_example :: env where
  "env_example = load_lines \<lparr>env_path = ''c.env'', env_lines = [], env_index = Map.empty\<rparr>
     [''# c'', ''A=1'', ''A=2'']"

lemma env_example_load: "load_env ''c.env'' env_disk_example = Inr env_example"
proof -
  have "raw_lines (''# c'' @ [NL] @ ''A=1'' @ [NL] @ ''A=2'') = [''# c'', ''A=1'', ''A=2'']"
    by code_simp
  then have "scan_lines (''# c'' @ [NL] @ ''A=1'' @ [NL] @ ''A=2'') = Inr [''# c'', ''A=1'', ''A=2'']"
    by (simp add: scan_lines_def max_token_def drop_cr_def)
  then show ?thesis by (simp add: load_env_def env_disk_example_def env_example_def)
qed

lemma env_example_lines: "env_lines env_example =
  [\<lparr>el_kind = LineComment, el_key = [], el_value = [], el_raw = ''# c''\<rparr>,
   \<lparr>el_kind = LineKV, el_key = ''A'', el_value = ''1'', el_raw = ''A=1''\<rparr>,
   \<lparr>el_kind = LineKV, el_key = ''A'', el_value = ''2'', el_raw = ''A=2''\<rparr>]"
  by code_simp

lemma env_example_clean:
  "\<forall>l\<in>set (env_lines env_example). clean_line l"
  "clean_line \<lparr>el_kind = LineKV, el_key = ''B'', el_value = ''x'', el_raw = ''B'' @ ''='' @ ''x''\<rparr>"
proof -
  have "\<forall>l\<in>set (env_lines env_example). clean_text l"
    unfolding env_example_lines by code_simp
  then show "\<forall>l\<in>set (env_lines env_example). clean_line l"
    unfolding env_example_lines by (simp add: clean_line_def render_line_def max_token_def)
  have "clean_text \<lparr>el_kind = LineKV, el_key = ''B'', el_value = ''x'', el_raw = ''B'' @ ''='' @ ''x''\<rparr>"
    by code_simp
  then show "clean_line \<lparr>el_kind = LineKV, el_key = ''B'', el_value = ''x'', el_raw = ''B'' @ ''='' @ ''x''\<rparr>"
    by (simp add: clean_line_def render_line_def max_token_def)
qed

text \<open>C13. The key index of an environment file never goes stale: after a load, even of a file that
  defines a key more than once, and any sequence of stores, every lookup returns the last value
  stored at the key, and without one the value of the last line of the file that defines it.\<close>

theorem env_lookup_last_write:
  assumes "load_env path d = Inr e"
  shows "env_get (foldl (\<lambda>e (k, v). env_set e k v) e kvs) key =
    (case last_of kvs key of Some v \<Rightarrow> Some v | None \<Rightarrow> env_as_map e key)"
  using env_kv.get_put_all [OF load_env_wf [OF assms], of kvs key] load_env_wf [OF assms]
  by (simp add: env_get_as_map split: option.split)

lemma env_lookup_last_write_witness:
  "env_get (foldl (\<lambda>e (k, v). env_set e k v) env_example [(''B'', ''x'')]) ''A'' = Some ''2''"
  by (subst env_lookup_last_write [OF env_example_load])
    (simp add: last_of_def env_as_map_def kv_pairs_def is_kv_def env_example_lines)

text \<open>A store touches one line: a known key has its last line rewritten in place, an unknown one is
  appended; the comments, the blank lines, every other line and the order of the keys stay.\<close>

theorem env_set_touches_one_line:
  assumes "load_env path d = Inr e0" "e = foldl (\<lambda>e (k, v). env_set e k v) e0 kvs"
  shows "env_keys (env_set e k v) = (if k \<in> set (env_keys e) then env_keys e else env_keys e @ [k]) \<and>
    (\<exists>pre old post new. env_lines e = pre @ old @ post \<and> env_lines (env_set e k v) = pre @ new # post \<and>
       is_kv new \<and> el_key new = k \<and> el_value new = v \<and> render_line new = k @ ''='' @ v \<and>
       (if k \<in> set (env_keys e) then (\<exists>l. old = [l] \<and> is_kv l \<and> el_key l = k) \<and> k \<notin> set (map el_key (filter is_kv post))
        else old = [] \<and> post = []))"
proof -
  have wf: "env_wf e" unfolding assms(2) by (rule env_kv.put_all_inv [OF load_env_wf [OF assms(1)]])
  show ?thesis
    using env_keys_set_lemma [OF wf] env_set_split [OF wf] by blast
qed

lemma env_set_touches_one_line_witness:
  "env_keys (env_set env_example ''A'' ''9'') = [''A'', ''A''] \<and>
   (\<exists>pre old post new. env_lines env_example = pre @ old @ post \<and>
      env_lines (env_set env_example ''A'' ''9'') = pre @ new # post \<and> el_value new = ''9'')"
proof -
  note p = env_set_touches_one_line [OF env_example_load, of env_example "[]" "''A''" "''9''", simplified]
  have "env_keys env_example = [''A'', ''A'']"
    by (simp add: env_keys_def is_kv_def env_example_lines)
  then show ?thesis using p by (simp only: list.set insert_iff simp_thms if_True) blast
qed

text \<open>A file written and read back is the file in memory: when every line survives the format (no
  newline in it, a trimmed key without an equals sign, a trimmed value outside quotes), loading
  what was written gives the same lines and the same value at every key, also after further
  stores of clean values.\<close>

theorem env_write_read_back:
  assumes "load_env path0 d0 = Inr e0" "e = foldl (\<lambda>e (k, v). env_set e k v) e0 kvs"
    and "\<forall>l\<in>set (env_lines e0). clean_line l"
    and "\<forall>(k, v)\<in>set kvs. clean_line \<lparr>el_kind = LineKV, el_key = k, el_value = v, el_raw = k @ ''='' @ v\<rparr>"
    and "path \<noteq> []" "env_tmp plan path \<notin> dom d" "env_write plan e path d = (None, e1, d1)"
  shows "\<exists>e'. load_env path d1 = Inr e' \<and> env_lines e' = map canon_line (env_lines e) \<and>
    (\<forall>k. env_get e' k = env_get e k)"
proof -
  have wf: "env_wf e" unfolding assms(2) by (rule env_kv.put_all_inv [OF load_env_wf [OF assms(1)]])
  have clean: "\<forall>l\<in>set (env_lines e). clean_line l"
    unfolding assms(2) by (rule env_set_all_clean [OF load_env_wf [OF assms(1)] assms(3,4)])
  have "write_content plan path (render_env e) d = (None, d1)"
    using assms(5,7) by (auto simp: env_write_def Let_def split: prod.splits option.splits)
  from env_writer.write_ok [OF assms(6) this] show ?thesis
    by (intro load_render [OF clean wf]) auto
qed

lemma env_write_read_back_witness:
  "\<exists>e'. load_env ''c.env'' (snd (snd (env_write \<lparr>io_fault = NoFault, io_rnd = ''1'', io_remove_ok = True\<rparr>
        (env_set env_example ''B'' ''x'') ''c.env'' env_disk_example))) = Inr e' \<and>
     env_lines e' = map canon_line (env_lines (env_set env_example ''B'' ''x'')) \<and>
     (\<forall>k. env_get e' k = env_get (env_set env_example ''B'' ''x'') k)"
proof -
  let ?plan = "\<lparr>io_fault = NoFault, io_rnd = ''1'', io_remove_ok = True\<rparr>"
  let ?e = "env_set env_example ''B'' ''x''"
  have "env_tmp ?plan ''c.env'' \<notin> dom env_disk_example"
    using env_tmp_longer [of "''c.env''" ?plan] by (auto simp: env_disk_example_def)
  moreover obtain e1 d1 where w: "env_write ?plan ?e ''c.env'' env_disk_example = (None, e1, d1)"
    by (auto simp: env_write_def write_content_def Let_def)
  ultimately have "\<exists>e'. load_env ''c.env'' d1 = Inr e' \<and> env_lines e' = map canon_line (env_lines ?e) \<and>
      (\<forall>k. env_get e' k = env_get ?e k)"
    by (intro env_write_read_back [OF env_example_load _ env_example_clean(1), where kvs = "[(''B'', ''x'')]" and plan = ?plan])
      (use env_example_clean(2) in auto)
  then show ?thesis by (simp add: w)
qed

lemma env_write_outcome:
  assumes "env_tmp plan path \<notin> dom d" "path \<noteq> []" "env_write plan e path d = (r, e1, d1)"
  shows "(r = None \<longrightarrow> d1 = d(path \<mapsto> \<lparr>f_content = render_env e, f_mode = 420\<rparr>)) \<and>
    (r \<noteq> None \<longrightarrow> d1 path = d path \<and> e1 = e) \<and>
    (\<forall>p. p \<noteq> path \<longrightarrow> p \<noteq> env_tmp plan path \<longrightarrow> d1 p = d p)"
proof -
  obtain r' where w: "write_content plan path (render_env e) d = (r', d1)"
    and r: "r = r'" "r' \<noteq> None \<longrightarrow> e1 = e"
    using assms(2,3) by (auto simp: env_write_def Let_def split: prod.splits option.splits)
  have "d1 path = d path" if "r \<noteq> None"
    using that env_writer.write_err [OF assms(1), of "render_env e" _ d1 path]
      env_writer.tmp_not_target [of plan path] w r by auto
  moreover have "d1 p = d p" if "p \<noteq> path" "p \<noteq> env_tmp plan path" for p
    using env_writer.others_untouched [OF assms(1) that, of "render_env e"] w by simp
  ultimately show ?thesis
    using env_writer.write_ok [OF assms(1), of "render_env e" d1] w r by auto
qed

text \<open>A write is all or nothing: whichever system call fails, and whether or not the temporary file
  can be removed, the target holds its old file or the whole new content, success is reported
  exactly when it is the new content that was put there with mode 0644, and no other file but
  the temporary one changes.\<close>

theorem env_write_all_or_nothing:
  assumes "env_tmp plan path \<notin> dom d" "path \<noteq> []" "env_write plan e path d = (r, e1, d1)"
  shows "(r = None \<longrightarrow> d1 = d(path \<mapsto> \<lparr>f_content = render_env e, f_mode = 420\<rparr>)) \<and>
    (r \<noteq> None \<longrightarrow> d1 path = d path \<and> e1 = e) \<and>
    (\<forall>p. p \<noteq> path \<longrightarrow> p \<noteq> env_tmp plan path \<longrightarrow> d1 p = d p)"
  using assms by (rule env_write_outcome)

lemma env_write_all_or_nothing_witness:
  "snd (snd (env_write \<lparr>io_fault = WriteFails ''A='', io_rnd = ''1'', io_remove_ok = False\<rparr>
     env_example ''c.env'' env_disk_example)) ''c.env'' = env_disk_example ''c.env''"
proof -
  let ?plan = "\<lparr>io_fault = WriteFails ''A='', io_rnd = ''1'', io_remove_ok = False\<rparr>"
  have f: "env_tmp ?plan ''c.env'' \<notin> dom env_disk_example"
    using env_tmp_longer [of "''c.env''" ?plan] by (auto simp: env_disk_example_def)
  obtain r e1 d1 where w: "env_write ?plan env_example ''c.env'' env_disk_example = (r, e1, d1)" "r \<noteq> None"
    by (auto simp: env_write_def write_content_def Let_def)
  from env_write_all_or_nothing [OF f _ w(1)] w show ?thesis by simp
qed

end
