(* ===== verification/Oidc_Config.thy ===== *)
theory Oidc_Config
  imports Go_Strings
begin

text \<open>
  The line transform that wires the kube-apiserver to the OIDC webhook authenticator
  (\<open>cli/internal/bootstrap/oidccutover/config.go\<close>): locating the top-level
  \<open>kube-apiserver-arg\<close> block of an RKE2 \<open>config.yaml\<close>, removing the retired flag, adding the
  missing ones, and the idempotence and preservation facts about it.  Errors carry the line
  numbers of the message, not its text.
\<close>

section \<open>Constants\<close>

definition webhook_kubeconfig_path :: string where
  "webhook_kubeconfig_path = ''/etc/rancher/oidc-webhook-kubeconfig.yaml''"

definition rke2_config_path :: string where
  "rke2_config_path = ''/etc/rancher/rke2/config.yaml''"

definition backup_suffix :: string where
  "backup_suffix = ''.pre-oidc''"

definition apiserver_arg_key :: string where
  "apiserver_arg_key = ''kube-apiserver-arg''"

definition webhook_flag :: string where
  "webhook_flag = ''authentication-token-webhook-config-file='' @ webhook_kubeconfig_path"

definition cache_ttl_flag :: string where
  "cache_ttl_flag = ''authentication-token-webhook-cache-ttl=2m''"

definition legacy_auth_config_prefix :: string where
  "legacy_auth_config_prefix = ''authentication-config=''"

definition managed_flags :: "string list" where
  "managed_flags = [webhook_flag, cache_ttl_flag]"

section \<open>Line helpers\<close>

definition strip_comment :: "string \<Rightarrow> string" where
  "strip_comment line =
     (case find_index (\<lambda>c. c = CHR ''#'') line of Some i \<Rightarrow> take i line | None \<Rightarrow> line)"

text \<open>\<open>len(s) - len(strings.TrimLeft(s, " \t"))\<close>.\<close>

definition leading_spaces :: "string \<Rightarrow> nat" where
  "leading_spaces s = length s - length (dropWhile (\<lambda>c. c = CHR '' '' \<or> c = CHR 0x09) s)"

definition unquote :: "string \<Rightarrow> string" where
  "unquote s =
     (if length s \<ge> 2 \<and> (hd s = DQ \<or> hd s = SQ) \<and> last s = hd s then butlast (tl s) else s)"

text \<open>The trimmed item text of a line, and the flag a list item carries.\<close>

definition item_of :: "string \<Rightarrow> string" where
  "item_of line = trim_space (strip_comment line)"

definition is_item :: "string \<Rightarrow> bool" where
  "is_item line \<longleftrightarrow> has_prefix (item_of line) ''- ''"

definition item_flag :: "string \<Rightarrow> string" where
  "item_flag line = unquote (trim_space (trim_prefix (item_of line) ''- ''))"

definition is_cut_over :: "string \<Rightarrow> bool" where
  "is_cut_over body \<longleftrightarrow> (\<exists>line\<in>set (split_on NL body). contains (strip_comment line) webhook_flag)"

section \<open>The block\<close>

datatype oidc_error =
    InlineValue nat string
  | DeclaredTwice nat nat

text \<open>The key a line declares at column zero, with what follows the colon (\<open>None\<close> without a
  colon).  Blank lines and indented ones declare nothing.\<close>

definition declared_key :: "string \<Rightarrow> (string \<times> string option) option" where
  "declared_key line =
     (let trimmed = strip_comment line in
      if trim_space trimmed = [] then None
      else if leading_spaces trimmed \<noteq> 0 then None
      else case cut (CHR '':'') trimmed of
        None \<Rightarrow> Some (unquote (trim_space trimmed), None)
      | Some (lhs, rhs) \<Rightarrow> Some (unquote (trim_space lhs), Some rhs))"

text \<open>The scan of \<open>findAPIServerArgBlock\<close> from line \<open>i\<close> with the start found so far.  The block's
  indentation is always 0.\<close>

fun find_block_from :: "nat \<Rightarrow> nat option \<Rightarrow> string list \<Rightarrow> oidc_error + nat option" where
  "find_block_from i start [] = Inr start"
| "find_block_from i start (line # ls) =
     (case declared_key line of
        None \<Rightarrow> find_block_from (Suc i) start ls
      | Some (key, rest) \<Rightarrow>
          (if key \<noteq> apiserver_arg_key then find_block_from (Suc i) start ls
           else if (case rest of None \<Rightarrow> False | Some v \<Rightarrow> trim_space v \<noteq> [])
           then Inl (InlineValue (i + 1) (trim_space (the rest)))
           else case start of
             Some s \<Rightarrow> Inl (DeclaredTwice (s + 1) (i + 1))
           | None \<Rightarrow> find_block_from (Suc i) (Some i) ls))"

definition find_apiserver_arg_block :: "string list \<Rightarrow> oidc_error + nat option" where
  "find_apiserver_arg_block ls = find_block_from 0 None ls"

text \<open>A line that ends the block: not blank, not indented deeper than the key, and not a
  sequence item flush with it.\<close>

definition ends_block :: "nat \<Rightarrow> string \<Rightarrow> bool" where
  "ends_block indent line \<longleftrightarrow>
     (let content = strip_comment line; trimmed = trim_space content; spaces = leading_spaces content
      in trimmed \<noteq> [] \<and> \<not> spaces > indent \<and> \<not> (spaces = indent \<and> has_prefix trimmed ''- ''))"

definition end_of_block :: "string list \<Rightarrow> nat \<Rightarrow> nat \<Rightarrow> nat" where
  "end_of_block ls start indent =
     (case find_index (ends_block indent) (drop (start + 1) ls) of
        Some j \<Rightarrow> start + 1 + j
      | None \<Rightarrow> length ls)"

definition block_lines :: "string list \<Rightarrow> nat \<Rightarrow> nat \<Rightarrow> string list" where
  "block_lines ls start bend = drop (start + 1) (take bend ls)"

definition list_item_indent :: "string list \<Rightarrow> nat \<Rightarrow> nat \<Rightarrow> nat \<Rightarrow> string" where
  "list_item_indent ls start bend indent =
     (case find is_item (block_lines ls start bend) of
        Some line \<Rightarrow> replicate (leading_spaces (strip_comment line)) (CHR '' '')
      | None \<Rightarrow> replicate (indent + 2) (CHR '' ''))"

definition block_has_flag :: "string list \<Rightarrow> nat \<Rightarrow> nat \<Rightarrow> string \<Rightarrow> bool" where
  "block_has_flag ls start bend flag \<longleftrightarrow>
     (\<exists>line\<in>set (block_lines ls start bend). is_item line \<and> item_flag line = flag)"

definition is_legacy :: "string \<Rightarrow> bool" where
  "is_legacy line \<longleftrightarrow> is_item line \<and> has_prefix (item_flag line) legacy_auth_config_prefix"

definition drop_legacy_auth_config :: "string list \<Rightarrow> nat \<Rightarrow> nat \<Rightarrow> string list \<times> nat" where
  "drop_legacy_auth_config ls start indent =
     (let bend = end_of_block ls start indent;
          block = block_lines ls start bend
      in (take (start + 1) ls @ filter (\<lambda>l. \<not> is_legacy l) block @ drop bend ls,
          length (filter is_legacy block)))"

definition append_block :: "string list \<Rightarrow> string list \<Rightarrow> string list" where
  "append_block ls block =
     rev (dropWhile (\<lambda>l. trim_space l = []) (rev ls)) @ block @ [[]]"

section \<open>The transform\<close>

definition patch_config :: "string \<Rightarrow> oidc_error + (string \<times> bool)" where
  "patch_config body =
     (let ls = split_on NL body in
      and_then (find_apiserver_arg_block ls) (\<lambda>found.
        case found of
          None \<Rightarrow>
            (let block = (apiserver_arg_key @ '':'') # map (\<lambda>flag. ''  - '' @ flag) managed_flags
             in Inr (join [NL] (append_block ls block), True))
        | Some start \<Rightarrow>
            (let bend0 = end_of_block ls start 0;
                 item_indent = list_item_indent ls start bend0 0;
                 (patched, dropped) = drop_legacy_auth_config ls start 0;
                 bend = bend0 - dropped;
                 missing = filter (\<lambda>flag. \<not> block_has_flag patched start bend flag) managed_flags
             in if missing = [] \<and> dropped = 0 then Inr (body, False)
                else Inr (join [NL] (take bend patched
                       @ map (\<lambda>flag. item_indent @ ''- '' @ flag) missing
                       @ drop bend patched), True))))"


section \<open>What the block search finds\<close>

definition neutral :: "string \<Rightarrow> bool" where
  "neutral line \<longleftrightarrow>
     (case declared_key line of None \<Rightarrow> True | Some (key, _) \<Rightarrow> key \<noteq> apiserver_arg_key)"

definition declares_block :: "string \<Rightarrow> bool" where
  "declares_block line \<longleftrightarrow>
     (case declared_key line of
        None \<Rightarrow> False
      | Some (key, rest) \<Rightarrow>
          key = apiserver_arg_key \<and> (case rest of None \<Rightarrow> True | Some v \<Rightarrow> trim_space v = []))"

lemma find_block_from_Some_iff:
  "find_block_from i (Some s) ls = Inr r \<longleftrightarrow> r = Some s \<and> (\<forall>l\<in>set ls. neutral l)"
  by (induction ls arbitrary: i) (auto simp: neutral_def split: option.splits)

lemma find_block_from_None_iff:
  "find_block_from i None ls = Inr None \<longleftrightarrow> (\<forall>l\<in>set ls. neutral l)"
  by (induction ls arbitrary: i)
    (auto simp: neutral_def find_block_from_Some_iff split: option.splits)

lemma find_block_from_found_iff:
  "find_block_from i None ls = Inr (Some s) \<longleftrightarrow>
     (\<exists>A l R. ls = A @ l # R \<and> s = i + length A \<and> declares_block l \<and> (\<forall>x\<in>set (A @ R). neutral x))"
proof (induction ls arbitrary: i)
  case Nil
  then show ?case by simp
next
  case (Cons x xs)
  show ?case
  proof (cases "neutral x")
    case True
    then have "find_block_from i None (x # xs) = find_block_from (Suc i) None xs"
      by (auto simp: neutral_def split: option.splits)
    moreover have "\<not> declares_block x"
      using True by (auto simp: neutral_def declares_block_def split: option.splits)
    then have "(\<exists>A l R. x # xs = A @ l # R \<and> s = i + length A \<and> declares_block l \<and> (\<forall>y\<in>set (A @ R). neutral y)) \<longleftrightarrow>
        (\<exists>A l R. xs = A @ l # R \<and> s = Suc i + length A \<and> declares_block l \<and> (\<forall>y\<in>set (A @ R). neutral y))"
      (is "?L \<longleftrightarrow> ?R")
    proof (intro iffI)
      assume ?L
      then obtain A l R where a: "x # xs = A @ l # R" "s = i + length A" "declares_block l"
        "\<forall>y\<in>set (A @ R). neutral y" by blast
      then obtain A' where "A = x # A'"
        using \<open>\<not> declares_block x\<close> by (cases A) auto
      with a show ?R by (intro exI [of _ A'] exI [of _ l] exI [of _ R]) auto
    next
      assume ?R
      then obtain A l R where "xs = A @ l # R" "s = Suc i + length A" "declares_block l"
        "\<forall>y\<in>set (A @ R). neutral y" by blast
      with True show ?L by (intro exI [of _ "x # A"] exI [of _ l] exI [of _ R]) auto
    qed
    ultimately show ?thesis by (simp add: Cons.IH)
  next
    case False
    then obtain rest where d: "declared_key x = Some (apiserver_arg_key, rest)"
      by (auto simp: neutral_def split: option.splits)
    then have "find_block_from i None (x # xs) = Inr (Some s) \<longleftrightarrow>
        s = i \<and> declares_block x \<and> (\<forall>y\<in>set xs. neutral y)"
      by (cases rest) (auto simp: find_block_from_Some_iff declares_block_def)
    also have "\<dots> \<longleftrightarrow> (\<exists>A l R. x # xs = A @ l # R \<and> s = i + length A \<and> declares_block l \<and>
        (\<forall>y\<in>set (A @ R). neutral y))" (is "?L \<longleftrightarrow> ?R")
    proof (intro iffI)
      assume ?L
      then show ?R by (intro exI [of _ "[]"] exI [of _ x] exI [of _ xs]) simp
    next
      assume ?R
      then obtain A l R where a: "x # xs = A @ l # R" "s = i + length A" "declares_block l"
        "\<forall>y\<in>set (A @ R). neutral y" by blast
      with False have "A = []" by (cases A) auto
      with a show ?L by simp
    qed
    finally show ?thesis .
  qed
qed

lemma find_block_found_iff:
  "find_apiserver_arg_block ls = Inr (Some s) \<longleftrightarrow>
     (\<exists>A l R. ls = A @ l # R \<and> s = length A \<and> declares_block l \<and> (\<forall>x\<in>set (A @ R). neutral x))"
  by (simp add: find_apiserver_arg_block_def find_block_from_found_iff)

lemma find_block_absent_iff:
  "find_apiserver_arg_block ls = Inr None \<longleftrightarrow> (\<forall>l\<in>set ls. neutral l)"
  by (simp add: find_apiserver_arg_block_def find_block_from_None_iff)

text \<open>A configuration with a block, cut at the block: the lines up to the key, the lines of the
  block, the lines after it.\<close>

lemma end_of_block_append:
  assumes "length A = start" "\<forall>l\<in>set B. \<not> ends_block indent l" "C = [] \<or> ends_block indent (hd C)"
  shows "end_of_block (A @ k # B @ C) start indent = start + 1 + length B"
proof -
  have "find_index (ends_block indent) (B @ C) = (if C = [] then None else Some (length B))"
    using assms(2,3)
    by (induction B) (auto simp: find_index_None_iff neq_Nil_conv)
  with assms(1) show ?thesis by (simp add: end_of_block_def)
qed

lemma block_split:
  obtains B C where "R = B @ C" "\<forall>l\<in>set B. \<not> ends_block indent l" "C = [] \<or> ends_block indent (hd C)"
proof
  show "R = takeWhile (\<lambda>l. \<not> ends_block indent l) R @ dropWhile (\<lambda>l. \<not> ends_block indent l) R"
    by simp
  show "\<forall>l\<in>set (takeWhile (\<lambda>l. \<not> ends_block indent l) R). \<not> ends_block indent l"
    by (auto dest: set_takeWhileD)
  show "dropWhile (\<lambda>l. \<not> ends_block indent l) R = [] \<or>
      ends_block indent (hd (dropWhile (\<lambda>l. \<not> ends_block indent l) R))"
    using hd_dropWhile by blast
qed

lemma block_lines_append:
  "length A = start \<Longrightarrow> block_lines (A @ k # B @ C) start (start + 1 + length B) = B"
  by (simp add: block_lines_def)

section \<open>The lines the transform adds\<close>

lemma strip_comment_id: "CHR ''#'' \<notin> set s \<Longrightarrow> strip_comment s = s"
proof -
  assume "CHR ''#'' \<notin> set s"
  then have "find_index (\<lambda>c. c = CHR ''#'') s = None" by (auto simp: find_index_None_iff)
  then show "strip_comment s = s" by (simp add: strip_comment_def)
qed

lemma sublist_strip_comment: "prefix (strip_comment s) s"
  by (auto simp: strip_comment_def take_is_prefix split: option.splits)

lemma dropWhile_replicate: "P x \<Longrightarrow> dropWhile P (replicate n x @ xs) = dropWhile P xs"
  by (induction n) auto

definition item_line :: "nat \<Rightarrow> string \<Rightarrow> string" where
  "item_line n flag = replicate n (CHR '' '') @ ''- '' @ flag"

lemmas flag_defs = webhook_flag_def cache_ttl_flag_def webhook_kubeconfig_path_def

lemma managed_flag_shape:
  assumes "flag \<in> set managed_flags"
  shows "CHR ''#'' \<notin> set flag" "NL \<notin> set flag" "trimmed flag" "trimmed (''- '' @ flag)"
    "unquote flag = flag" "\<not> prefix legacy_auth_config_prefix flag" "CHR '':'' \<notin> set flag"
proof -
  consider "flag = webhook_flag" | "flag = cache_ttl_flag"
    using assms by (auto simp: managed_flags_def)
  then have "CHR ''#'' \<notin> set flag \<and> NL \<notin> set flag \<and> trimmed flag \<and> trimmed (''- '' @ flag) \<and>
    unquote flag = flag \<and> \<not> prefix legacy_auth_config_prefix flag \<and> CHR '':'' \<notin> set flag"
  proof cases
    case 1
    show ?thesis unfolding 1 by code_simp
  next
    case 2
    show ?thesis unfolding 2 by code_simp
  qed
  then show "CHR ''#'' \<notin> set flag" "NL \<notin> set flag" "trimmed flag" "trimmed (''- '' @ flag)"
    "unquote flag = flag" "\<not> prefix legacy_auth_config_prefix flag" "CHR '':'' \<notin> set flag" by auto
qed

lemma item_line_facts:
  assumes "flag \<in> set managed_flags"
  shows "is_item (item_line n flag)" "item_flag (item_line n flag) = flag"
    "leading_spaces (strip_comment (item_line n flag)) = n"
    "neutral (item_line n flag)" "\<not> ends_block 0 (item_line n flag)"
    "\<not> is_legacy (item_line n flag)" "NL \<notin> set (item_line n flag)"
proof -
  note m = managed_flag_shape [OF assms]
  have c: "strip_comment (item_line n flag) = item_line n flag"
    by (rule strip_comment_id) (use m(1) in \<open>simp add: item_line_def\<close>)
  have i: "item_of (item_line n flag) = ''- '' @ flag"
    using m(4) c by (simp add: item_of_def item_line_def trim_space_spaces trim_space_trimmed)
  show it: "is_item (item_line n flag)" by (simp add: is_item_def i)
  show fl: "item_flag (item_line n flag) = flag"
    using m by (simp add: item_flag_def i trim_prefix_def trim_space_trimmed)
  have ls: "leading_spaces (item_line n flag) = n"
    by (simp add: item_line_def leading_spaces_def dropWhile_replicate)
  then show "leading_spaces (strip_comment (item_line n flag)) = n" by (simp add: c)
  have "declared_key (item_line n flag) =
      (if n = 0 then Some (''- '' @ flag, None) else None)"
  proof (cases n)
    case 0
    have "cut (CHR '':'') (''- '' @ flag) = None"
      using m(7) by (simp add: cut_None_iff)
    with 0 m(4) ls c show ?thesis
      by (simp add: declared_key_def Let_def item_line_def trim_space_trimmed unquote_def)
  next
    case (Suc k)
    with ls c i show ?thesis by (simp add: declared_key_def Let_def item_of_def)
  qed
  then show "neutral (item_line n flag)"
    by (simp add: neutral_def apiserver_arg_key_def)
  show "\<not> ends_block 0 (item_line n flag)"
    using i ls c by (cases n) (simp_all add: ends_block_def Let_def item_of_def)
  show "\<not> is_legacy (item_line n flag)"
    using m(6) by (simp add: is_legacy_def fl)
  show "NL \<notin> set (item_line n flag)"
    using m(2) by (simp add: item_line_def)
qed


section \<open>The shape of the result\<close>

text \<open>A file is wired when it has exactly one apiserver block, with every managed flag an item
  of it and no retired flag in it.\<close>

definition has_item :: "string list \<Rightarrow> string \<Rightarrow> bool" where
  "has_item B flag \<longleftrightarrow> (\<exists>l\<in>set B. is_item l \<and> item_flag l = flag)"

definition block_at :: "string list \<Rightarrow> string list \<Rightarrow> string \<Rightarrow> string list \<Rightarrow> string list \<Rightarrow> bool" where
  "block_at ls A k B C \<longleftrightarrow>
     ls = A @ k # B @ C \<and> declares_block k \<and> (\<forall>x\<in>set (A @ B @ C). neutral x) \<and>
     (\<forall>l\<in>set B. \<not> ends_block 0 l) \<and> (C = [] \<or> ends_block 0 (hd C))"

definition wired :: "string list \<Rightarrow> bool" where
  "wired ls \<longleftrightarrow> (\<exists>A k B C. block_at ls A k B C \<and>
     (\<forall>flag\<in>set managed_flags. has_item B flag) \<and> (\<forall>l\<in>set B. \<not> is_legacy l))"

lemma block_at_exists:
  assumes "find_apiserver_arg_block ls = Inr (Some s)"
  obtains A k B C where "block_at ls A k B C" "length A = s"
proof -
  obtain A k R where ls: "ls = A @ k # R" "s = length A" "declares_block k" "\<forall>x\<in>set (A @ R). neutral x"
    using assms by (auto simp: find_block_found_iff)
  obtain B C where "R = B @ C" "\<forall>l\<in>set B. \<not> ends_block 0 l" "C = [] \<or> ends_block 0 (hd C)"
    by (rule block_split)
  with ls have "block_at ls A k B C" by (auto simp: block_at_def)
  with ls(2) show thesis by (intro that) auto
qed

lemma block_at_find: "block_at ls A k B C \<Longrightarrow> find_apiserver_arg_block ls = Inr (Some (length A))"
  by (force simp: block_at_def find_block_found_iff)

lemma block_at_end:
  "block_at ls A k B C \<Longrightarrow> end_of_block ls (length A) 0 = length A + 1 + length B"
  by (simp add: block_at_def end_of_block_append)

lemma drop_legacy_block:
  assumes "block_at ls A k B C"
  shows "drop_legacy_auth_config ls (length A) 0 =
    (A @ k # filter (\<lambda>l. \<not> is_legacy l) B @ C, length (filter is_legacy B))"
  using assms block_at_end [OF assms]
  by (simp add: drop_legacy_auth_config_def block_at_def block_lines_append [simplified] Let_def)

lemma filter_partition_length: "length (filter P xs) + length (filter (\<lambda>x. \<not> P x) xs) = length xs"
  by (rule sum_length_filter_compl)

lemma patch_block:
  fixes B :: "string list"
  defines "fb \<equiv> filter (\<lambda>l. \<not> is_legacy l) B"
  assumes at: "block_at (split_on NL body) A k B C"
  shows "\<exists>n. patch_config body =
    (if filter (\<lambda>f. \<not> has_item fb f) managed_flags = [] \<and> filter is_legacy B = [] then Inr (body, False)
     else Inr (join [NL] (A @ k # fb @ map (item_line n) (filter (\<lambda>f. \<not> has_item fb f) managed_flags) @ C), True))"
proof -
  let ?ls = "split_on NL body"
  let ?s = "length A"
  obtain n where n: "list_item_indent ?ls ?s (end_of_block ?ls ?s 0) 0 = replicate n (CHR '' '')"
  proof (cases "find is_item (block_lines ?ls ?s (end_of_block ?ls ?s 0))")
    case None
    then show ?thesis by (intro that [of 2]) (simp add: list_item_indent_def numeral_2_eq_2)
  next
    case (Some line)
    then show ?thesis
      by (intro that [of "leading_spaces (strip_comment line)"]) (simp add: list_item_indent_def)
  qed
  have bend: "end_of_block ?ls ?s 0 - length (filter is_legacy B) = ?s + 1 + length fb"
    using block_at_end [OF at] filter_partition_length [of is_legacy B]
    by (simp add: fb_def)
  have flag: "block_has_flag (A @ k # fb @ C) ?s (?s + 1 + length fb) f \<longleftrightarrow> has_item fb f" for f
    using block_lines_append [of A ?s k fb C] by (simp add: block_has_flag_def has_item_def)
  have il: "(\<lambda>f. replicate n (CHR '' '') @ ''- '' @ f) = item_line n"
    by (rule ext) (simp add: item_line_def)
  show ?thesis
    unfolding patch_config_def Let_def block_at_find [OF at] drop_legacy_block [OF at, folded fb_def]
      prod.case n bend flag il and_then_simps option.case
    by (rule exI [of _ n]) simp
qed

lemma patch_absent:
  assumes "\<forall>l\<in>set (split_on NL body). neutral l"
  shows "patch_config body = Inr (join [NL]
    (rev (dropWhile (\<lambda>l. trim_space l = []) (rev (split_on NL body)))
      @ (apiserver_arg_key @ '':'') # map (item_line 2) managed_flags @ [[]]), True)"
proof -
  have "item_line 2 = (@) ''  - ''"
    by (rule ext) (simp add: item_line_def numeral_2_eq_2)
  with assms show ?thesis
    by (simp add: patch_config_def Let_def find_block_absent_iff [THEN iffD2] append_block_def)
qed

lemma key_line_declares: "declares_block (apiserver_arg_key @ '':'')"
  by code_simp

lemma blank_line_facts [simp]: "neutral []" "\<not> ends_block 0 []" "\<not> is_legacy []"
  by (code_simp)+

lemma dropWhile_rev_prefix: "\<exists>zs. xs = rev (dropWhile P (rev xs)) @ zs"
  by (metis rev_append rev_rev_ident takeWhile_dropWhile_id)

lemma legacy_item_line [simp]: "flag \<in> set managed_flags \<Longrightarrow> is_legacy (item_line n flag) = False"
  using item_line_facts(6) by blast

lemma patch_result:
  assumes "patch_config body = Inr (out, ch)"
  obtains (absent) S where "\<forall>l\<in>set (split_on NL body). neutral l"
      "S = rev (dropWhile (\<lambda>l. trim_space l = []) (rev (split_on NL body)))"
      "split_on NL out = S @ (apiserver_arg_key @ '':'') # map (item_line 2) managed_flags @ [[]]"
  | (present) A k B C n fb ms where "block_at (split_on NL body) A k B C"
      "fb = filter (\<lambda>l. \<not> is_legacy l) B" "ms = filter (\<lambda>f. \<not> has_item fb f) managed_flags"
      "split_on NL out = A @ k # fb @ map (item_line n) ms @ C"
proof -
  have nonl: "\<And>l. l \<in> set (split_on NL body) \<Longrightarrow> NL \<notin> set l" by (rule split_on_no_sep)
  have keyl: "NL \<notin> set (apiserver_arg_key @ '':'')" by code_simp
  consider (e) e where "find_apiserver_arg_block (split_on NL body) = Inl e"
    | (n) "find_apiserver_arg_block (split_on NL body) = Inr None"
    | (s) s where "find_apiserver_arg_block (split_on NL body) = Inr (Some s)"
    by (metis not_None_eq obj_sumE)
  then show thesis
  proof cases
    case e
    with assms show thesis by (simp add: patch_config_def)
  next
    case n
    let ?S = "rev (dropWhile (\<lambda>l. trim_space l = []) (rev (split_on NL body)))"
    let ?B = "map (item_line 2) managed_flags @ [[]]"
    from n have neu: "\<forall>l\<in>set (split_on NL body). neutral l" by (simp add: find_block_absent_iff)
    have S: "set ?S \<subseteq> set (split_on NL body)" by (auto dest: set_dropWhileD)
    have out: "out = join [NL] (?S @ (apiserver_arg_key @ '':'') # ?B)"
      using assms patch_absent [OF neu] by simp
    have "split_on NL out = ?S @ (apiserver_arg_key @ '':'') # ?B"
      unfolding out by (rule split_join) (use S nonl keyl item_line_facts(7) in auto)
    with neu show thesis by (intro absent) auto
  next
    case s
    then obtain A k B C where at: "block_at (split_on NL body) A k B C"
      by (metis block_at_exists)
    let ?fb = "filter (\<lambda>l. \<not> is_legacy l) B"
    let ?missing = "filter (\<lambda>f. \<not> has_item ?fb f) managed_flags"
    from patch_block [OF at] obtain n where n: "patch_config body =
      (if ?missing = [] \<and> filter is_legacy B = [] then Inr (body, False)
       else Inr (join [NL] (A @ k # ?fb @ map (item_line n) ?missing @ C), True))" by blast
    have mf: "set ?missing \<subseteq> set managed_flags" by auto
    have "split_on NL out = A @ k # ?fb @ map (item_line n) ?missing @ C"
    proof (cases "?missing = [] \<and> filter is_legacy B = []")
      case True
      then have "?fb = B" by (simp add: filter_empty_conv filter_id_conv)
      with True n assms at show ?thesis by (auto simp: block_at_def)
    next
      case False
      with n assms have "out = join [NL] (A @ k # ?fb @ map (item_line n) ?missing @ C)" by simp
      moreover have "\<forall>l\<in>set (A @ k # ?fb @ map (item_line n) ?missing @ C). NL \<notin> set l"
        using at nonl item_line_facts(7) mf by (auto simp: block_at_def)
      ultimately show ?thesis by (simp add: split_join del: append.simps append_assoc)
    qed
    with at show thesis by (intro present) auto
  qed
qed

lemma patch_wired:
  assumes "patch_config body = Inr (out, ch)"
  shows "wired (split_on NL out)"
  using assms
proof (cases rule: patch_result)
  case (absent S)
  let ?B = "map (item_line 2) managed_flags @ [[]]"
  have "set S \<subseteq> set (split_on NL body)"
    using absent(2) by (auto dest: set_dropWhileD)
  then have "block_at (split_on NL out) S (apiserver_arg_key @ '':'') ?B []"
    unfolding block_at_def using absent(1,3) item_line_facts(4,5) key_line_declares by auto
  moreover have "\<forall>flag\<in>set managed_flags. has_item ?B flag"
    using item_line_facts(1,2) by (auto simp: has_item_def)
  moreover have "\<forall>l\<in>set ?B. \<not> is_legacy l" by auto
  ultimately show ?thesis unfolding wired_def by blast
next
  case (present A k B C n fb ms)
  let ?B = "fb @ map (item_line n) ms"
  have "block_at (split_on NL out) A k ?B C"
    using present item_line_facts(4,5) by (auto simp: block_at_def)
  moreover have "has_item ?B flag" if "flag \<in> set managed_flags" for flag
    by (cases "has_item fb flag")
      (use that item_line_facts(1,2) [OF that, of n] present in \<open>auto simp: has_item_def\<close>)
  moreover have "\<forall>l\<in>set ?B. \<not> is_legacy l" using present by auto
  ultimately show ?thesis unfolding wired_def by blast
qed

lemma wired_patch:
  assumes "wired (split_on NL body)"
  shows "patch_config body = Inr (body, False)"
proof -
  obtain A k B C where at: "block_at (split_on NL body) A k B C"
    and flags: "\<forall>flag\<in>set managed_flags. has_item B flag" and leg: "\<forall>l\<in>set B. \<not> is_legacy l"
    using assms by (auto simp: wired_def)
  from leg have "filter (\<lambda>l. \<not> is_legacy l) B = B" "filter is_legacy B = []" by auto
  with patch_block [OF at] flags show ?thesis by auto
qed

lemma item_flag_sublist: "sublist (item_flag l) (strip_comment l)"
proof -
  have "sublist (trim_prefix (item_of l) ''- '') (item_of l)"
    by (simp add: trim_prefix_def)
  moreover have "sublist (unquote s) s" for s
    unfolding unquote_def by (auto intro: sublist_order.order.trans [OF sublist_butlast sublist_tl])
  ultimately show ?thesis
    unfolding item_flag_def item_of_def by (meson sublist_order.order.trans sublist_trim_space)
qed

lemma wired_cut_over:
  assumes "wired (split_on NL body)"
  shows "is_cut_over body"
proof -
  obtain A k B C l where at: "block_at (split_on NL body) A k B C"
    and l: "l \<in> set B" "item_flag l = webhook_flag"
    using assms by (auto simp: wired_def has_item_def managed_flags_def)
  then have "l \<in> set (split_on NL body)" by (auto simp: block_at_def)
  moreover have "contains (strip_comment l) webhook_flag"
    using item_flag_sublist [of l] l(2) by (auto simp: contains_iff sublist_def)
  ultimately show ?thesis by (auto simp: is_cut_over_def)
qed


lemma dropWhile_filter: "filter (\<lambda>x. \<not> P x) (dropWhile P xs) = filter (\<lambda>x. \<not> P x) xs"
  by (induction xs) auto

text \<open>Nothing of the operator's file is lost but the retired items of the block, and nothing is
  added but the key, the managed items and one final newline.\<close>

lemma patch_keeps:
  assumes "patch_config body = Inr (out, ch)"
  shows "subseq (filter (\<lambda>l. \<not> is_legacy l) (filter (\<lambda>l. \<not> trim_space l = []) (split_on NL body)))
    (split_on NL out)"
  using assms
proof (cases rule: patch_result)
  case (absent S)
  have "rev (filter (\<lambda>l. \<not> trim_space l = []) S) = rev (filter (\<lambda>l. \<not> trim_space l = []) (split_on NL body))"
    unfolding absent(2) by (simp add: rev_filter dropWhile_filter)
  then have "filter (\<lambda>l. \<not> trim_space l = []) (split_on NL body) = filter (\<lambda>l. \<not> trim_space l = []) S"
    by simp
  moreover have "subseq (filter (\<lambda>l. \<not> is_legacy l) (filter (\<lambda>l. \<not> trim_space l = []) S)) S"
    unfolding filter_filter by (rule subseq_filter_left)
  ultimately show ?thesis
    unfolding absent(3) by (simp add: subseq_rev_drop_many)
next
  case (present A k B C n fb ms)
  let ?f = "\<lambda>xs. filter (\<lambda>l. \<not> is_legacy l) (filter (\<lambda>l. \<not> trim_space l = []) xs)"
  have sub: "subseq (?f xs) xs" for xs
    unfolding filter_filter by (rule subseq_filter_left)
  have "?f B = filter (\<lambda>l. \<not> trim_space l = []) fb"
    unfolding present(2) filter_filter by (rule filter_cong) auto
  then have B: "subseq (?f B) (fb @ map (item_line n) ms)"
    using subseq_filter_left by (metis subseq_rev_drop_many)
  have "subseq (?f A @ ?f [k] @ ?f B @ ?f C) (A @ [k] @ (fb @ map (item_line n) ms) @ C)"
    by (intro list_emb_append_mono sub B)
  moreover have "?f (split_on NL body) = ?f A @ ?f [k] @ ?f B @ ?f C"
    using present(1) by (simp add: block_at_def)
  ultimately show ?thesis by (simp add: present(4))
qed

lemma patch_adds:
  assumes "patch_config body = Inr (out, ch)" "l \<in> set (split_on NL out)"
  shows "l \<in> set (split_on NL body) \<or> l = [] \<or> l = apiserver_arg_key @ '':'' \<or>
    (\<exists>n flag. flag \<in> set managed_flags \<and> l = item_line n flag)"
  using assms(1)
proof (cases rule: patch_result)
  case (absent S)
  then show ?thesis using assms(2) by (auto dest: set_dropWhileD)
next
  case (present A k B C n fb ms)
  then show ?thesis using assms(2) by (auto simp: block_at_def)
qed

lemma at_most_one:
  "(\<forall>l\<in>set ls. neutral l) \<or> (\<exists>A k B. ls = A @ k # B \<and> declares_block k \<and> (\<forall>x\<in>set (A @ B). neutral x)) \<longleftrightarrow>
    length (filter (\<lambda>l. \<not> neutral l) ls) \<le> 1 \<and> (\<forall>l\<in>set ls. neutral l \<or> declares_block l)"
  (is "?L \<longleftrightarrow> ?R")
proof
  assume ?L
  then show ?R by auto
next
  assume R: ?R
  show ?L
  proof (cases "filter (\<lambda>l. \<not> neutral l) ls")
    case Nil
    then show ?thesis by (auto simp: filter_empty_conv)
  next
    case (Cons k ks)
    with R have "filter (\<lambda>l. \<not> neutral l) ls = [k]" by auto
    then obtain A B where s: "ls = A @ k # B" "\<forall>x\<in>set A. neutral x" "\<not> neutral k"
        "[] = filter (\<lambda>l. \<not> neutral l) B"
      by (auto simp: filter_eq_Cons_iff)
    then have "\<forall>x\<in>set B. neutral x" by (metis filter_empty_conv)
    with s R show ?thesis by fastforce
  qed
qed

section \<open>Properties\<close>

text \<open>A file of an operator: a retired flag beside one of his own.\<close>

definition example_body :: string where
  "example_body = ''kube-apiserver-arg:'' @ [NL] @ ''- v=2'' @ [NL]"

lemma example_found: "find_apiserver_arg_block (split_on NL example_body) = Inr (Some 0)"
  by code_simp

lemma example_patchable: "\<exists>out ch. patch_config example_body = Inr (out, ch)"
  by (auto simp: patch_config_def Let_def example_found split: prod.split)

text \<open>The transform is idempotent: what it produces is left alone by a second run, and the check
  for a cut-over file accepts it.\<close>

theorem oidc_patch_idempotent:
  assumes "patch_config body = Inr (out, ch)"
  shows "patch_config out = Inr (out, False) \<and> is_cut_over out"
  using wired_patch [OF patch_wired [OF assms]] wired_cut_over [OF patch_wired [OF assms]] by simp

lemma oidc_patch_idempotent_witness:
  "\<exists>out ch. patch_config example_body = Inr (out, ch) \<and> patch_config out = Inr (out, False) \<and> is_cut_over out"
  using oidc_patch_idempotent example_patchable by blast

text \<open>C12. The transform is conservative: the lines of the operator's file that are neither blank nor the
  retired flag stay, in their order, and every line of the result is one of his, the empty
  line, the key line or a managed flag as an item.\<close>

theorem oidc_patch_conservative:
  assumes "patch_config body = Inr (out, ch)"
  shows "subseq (filter (\<lambda>l. \<not> is_legacy l) (filter (\<lambda>l. \<not> trim_space l = []) (split_on NL body)))
      (split_on NL out) \<and>
    (\<forall>l\<in>set (split_on NL out). l \<in> set (split_on NL body) \<or> l = [] \<or> l = apiserver_arg_key @ '':'' \<or>
      (\<exists>n flag. flag \<in> set managed_flags \<and> l = item_line n flag))"
  using patch_keeps [OF assms] patch_adds [OF assms] by blast

lemma oidc_patch_conservative_witness:
  "\<exists>out ch. patch_config example_body = Inr (out, ch) \<and>
     subseq [''kube-apiserver-arg:'', ''- v=2''] (split_on NL out)"
proof -
  obtain out ch where p: "patch_config example_body = Inr (out, ch)" using example_patchable by blast
  have "filter (\<lambda>l. \<not> is_legacy l) (filter (\<lambda>l. \<not> trim_space l = []) (split_on NL example_body)) =
      [''kube-apiserver-arg:'', ''- v=2'']" by code_simp
  with oidc_patch_conservative [OF p] p show ?thesis by auto
qed

text \<open>The transform reports no change exactly for the files that are wired: one apiserver block, at
  column zero, with every managed flag an item of it and no retired flag; the result is then the
  file itself, and otherwise it is a wired file.\<close>

theorem oidc_unchanged_iff_wired:
  assumes "patch_config body = Inr (out, ch)"
  shows "(\<not> ch \<longleftrightarrow> wired (split_on NL body)) \<and> (\<not> ch \<longrightarrow> out = body) \<and> wired (split_on NL out)"
proof -
  have out: "out = body" if "\<not> ch"
  proof -
    obtain found where f: "find_apiserver_arg_block (split_on NL body) = Inr found"
      using assms by (auto simp: patch_config_def Let_def and_then_Inr_iff)
    show ?thesis
    proof (cases found)
      case None
      then show ?thesis using assms that f by (simp add: patch_config_def Let_def)
    next
      case (Some s)
      then show ?thesis
        using assms that f
        by (cases "drop_legacy_auth_config (split_on NL body) s 0")
          (auto simp: patch_config_def Let_def split: if_splits)
    qed
  qed
  then show ?thesis
    using wired_patch [of body] patch_wired [OF assms] assms by fastforce
qed

lemma oidc_unchanged_iff_wired_witness:
  "\<exists>out ch. patch_config example_body = Inr (out, ch) \<and> (ch \<longleftrightarrow> \<not> wired (split_on NL example_body)) \<and>
     wired (split_on NL out)"
  using oidc_unchanged_iff_wired example_patchable by blast

text \<open>The transform refuses exactly the files it cannot edit safely: it returns a result if and only
  if at most one line at column zero declares the apiserver key and every such line declares it
  as a block, with nothing after the colon.\<close>

theorem oidc_refuses_ambiguous:
  "is_ok (patch_config body) \<longleftrightarrow>
     length (filter (\<lambda>l. \<not> neutral l) (split_on NL body)) \<le> 1 \<and>
     (\<forall>l\<in>set (split_on NL body). neutral l \<or> declares_block l)"
proof -
  let ?ls = "split_on NL body"
  have "is_ok (patch_config body) \<longleftrightarrow> is_ok (find_apiserver_arg_block ?ls)"
    by (auto simp: patch_config_def Let_def and_then_def split: sum.split option.split prod.split)
  also have "\<dots> \<longleftrightarrow> (\<forall>l\<in>set ?ls. neutral l) \<or>
      (\<exists>A k B. ?ls = A @ k # B \<and> declares_block k \<and> (\<forall>x\<in>set (A @ B). neutral x))"
    using find_block_absent_iff [of ?ls] find_block_found_iff [of ?ls]
    by (auto simp: is_ok_iff) (metis not_None_eq)+
  also have "\<dots> \<longleftrightarrow> length (filter (\<lambda>l. \<not> neutral l) ?ls) \<le> 1 \<and> (\<forall>l\<in>set ?ls. neutral l \<or> declares_block l)"
    by (rule at_most_one)
  finally show ?thesis .
qed

lemma oidc_refuses_ambiguous_witness:
  "length (filter (\<lambda>l. \<not> neutral l) (split_on NL example_body)) \<le> 1 \<and>
   \<not> is_ok (patch_config ''kube-apiserver-arg: x'')"
proof -
  have "is_ok (patch_config example_body)" using example_patchable by auto
  then have 1: "length (filter (\<lambda>l. \<not> neutral l) (split_on NL example_body)) \<le> 1"
    using oidc_refuses_ambiguous by blast
  have "\<not> (\<forall>l\<in>set (split_on NL ''kube-apiserver-arg: x''). neutral l \<or> declares_block l)"
    by code_simp
  then show ?thesis using 1 oidc_refuses_ambiguous [of "''kube-apiserver-arg: x''"] by blast
qed

end
