(* ===== verification/Effects.thy ===== *)
theory Effects
  imports Prelude
begin

text \<open>
  The tool's workflows are sequences of calls to adapters (SSH, the Kubernetes API, git, the
  clock) with an early return on the first error.  Such a workflow is modelled as a function
  of the history of calls made so far.  The environment is a parameter: it answers every call
  as any function of the history and the arguments, so a theorem for every environment holds
  whatever the remote side does, however its answers change from call to call.  A workflow
  returns the outcome with the extended history, or \<open>None\<close> when a polling loop has used up its
  fuel.
\<close>

type_synonym ('ev, 'e, 'a) prog = "'ev list \<Rightarrow> (('e + 'a) \<times> 'ev list) option"

named_theorems wp "weakest preconditions of the workflow combinators"

definition ret :: "'a \<Rightarrow> ('ev, 'e, 'a) prog" where
  "ret x = (\<lambda>h. Some (Inr x, h))"

definition fail :: "'e \<Rightarrow> ('ev, 'e, 'a) prog" where
  "fail e = (\<lambda>h. Some (Inl e, h))"

definition bind :: "('ev, 'e, 'a) prog \<Rightarrow> ('a \<Rightarrow> ('ev, 'e, 'b) prog) \<Rightarrow> ('ev, 'e, 'b) prog" where
  "bind m k = (\<lambda>h. case m h of
     None \<Rightarrow> None
   | Some (Inl e, h') \<Rightarrow> Some (Inl e, h')
   | Some (Inr x, h') \<Rightarrow> k x h')"

text \<open>One call to an adapter: the environment answers from the history; the call and its answer
  become the history's last event.\<close>

definition ask :: "('ev list \<Rightarrow> 'r) \<Rightarrow> ('r \<Rightarrow> 'ev) \<Rightarrow> ('ev, 'e, 'r) prog" where
  "ask answer event = (\<lambda>h. Some (Inr (answer h), h @ [event (answer h)]))"

text \<open>A reading that leaves no trace (the clock, a cancelled context).\<close>

definition observe :: "('ev list \<Rightarrow> 'r) \<Rightarrow> ('ev, 'e, 'r) prog" where
  "observe answer = (\<lambda>h. Some (Inr (answer h), h))"

text \<open>\<open>if err != nil { return wrap(err) }\<close>.\<close>

definition check_err :: "('x \<Rightarrow> 'e) \<Rightarrow> 'x + 'a \<Rightarrow> ('ev, 'e, 'a) prog" where
  "check_err wrap r = (case r of Inl x \<Rightarrow> fail (wrap x) | Inr y \<Rightarrow> ret y)"

definition out_of_fuel :: "('ev, 'e, 'a) prog" where
  "out_of_fuel = (\<lambda>h. None)"

definition guard :: "'e \<Rightarrow> bool \<Rightarrow> ('ev, 'e, unit) prog" where
  "guard e b = (if b then ret () else fail e)"

text \<open>\<open>if err := f(); err != nil { return fmt.Errorf(..., err) }\<close> around a called workflow.\<close>

definition wrap_err :: "('e \<Rightarrow> 'f) \<Rightarrow> ('ev, 'e, 'a) prog \<Rightarrow> ('ev, 'f, 'a) prog" where
  "wrap_err w m = (\<lambda>h. case m h of
     None \<Rightarrow> None
   | Some (Inl e, h') \<Rightarrow> Some (Inl (w e), h')
   | Some (Inr x, h') \<Rightarrow> Some (Inr x, h'))"

fun for_each :: "('x \<Rightarrow> ('ev, 'e, unit) prog) \<Rightarrow> 'x list \<Rightarrow> ('ev, 'e, unit) prog" where
  "for_each body [] = ret ()"
| "for_each body (x # xs) = bind (body x) (\<lambda>_. for_each body xs)"

lemma bind_check_err:
  "bind (check_err w (Inr x)) k = k x" "bind (check_err w (Inl e)) k = fail (w e)"
  by (simp_all add: bind_def check_err_def ret_def fail_def)

lemma bind_guard: "bind (guard e b) k = (if b then k () else fail e)"
  by (simp add: bind_def guard_def ret_def fail_def)

section \<open>Weakest preconditions\<close>

text \<open>\<open>wp m Q E h\<close>: run from history \<open>h\<close>, the workflow \<open>m\<close> either runs out of fuel, or returns
  normally with \<open>Q\<close>, or with an error and \<open>E\<close>.  \<open>returns m h\<close>: it does not run out of fuel.\<close>

definition wp :: "('ev, 'e, 'a) prog \<Rightarrow> ('a \<Rightarrow> 'ev list \<Rightarrow> bool) \<Rightarrow> ('e \<Rightarrow> 'ev list \<Rightarrow> bool) \<Rightarrow>
    'ev list \<Rightarrow> bool" where
  "wp m Q E h = (case m h of
     None \<Rightarrow> True
   | Some (Inl e, h') \<Rightarrow> E e h'
   | Some (Inr x, h') \<Rightarrow> Q x h')"

definition returns :: "('ev, 'e, 'a) prog \<Rightarrow> 'ev list \<Rightarrow> bool" where
  "returns m h \<longleftrightarrow> m h \<noteq> None"

lemma wp_ret [wp]: "wp (ret x) Q E = Q x"
  by (simp add: wp_def ret_def fun_eq_iff)

lemma wp_fail [wp]: "wp (fail e) Q E = E e"
  by (simp add: wp_def fail_def fun_eq_iff)

lemma wp_bind [wp]: "wp (bind m k) Q E h = wp m (\<lambda>x. wp (k x) Q E) E h"
  by (auto simp: wp_def bind_def split: option.splits sum.splits)

lemma wp_ask [wp]: "wp (ask answer event) Q E h = Q (answer h) (h @ [event (answer h)])"
  by (simp add: wp_def ask_def)

lemma wp_observe [wp]: "wp (observe answer) Q E h = Q (answer h) h"
  by (simp add: wp_def observe_def)

lemma wp_check_err [wp]:
  "wp (check_err w r) Q E h = (case r of Inl x \<Rightarrow> E (w x) h | Inr y \<Rightarrow> Q y h)"
  by (simp add: check_err_def wp split: sum.split)

lemma wp_out_of_fuel [wp]: "wp out_of_fuel Q E h"
  by (simp add: wp_def out_of_fuel_def)

lemma wp_guard [wp]: "wp (guard e b) Q E h = (if b then Q () h else E e h)"
  by (simp add: guard_def wp)

lemma wp_wrap_err [wp]: "wp (wrap_err w m) Q E h = wp m Q (\<lambda>e. E (w e)) h"
  by (auto simp: wp_def wrap_err_def split: option.splits sum.splits)

lemma wp_if [wp]: "wp (if b then m else m') Q E h = (if b then wp m Q E h else wp m' Q E h)"
  by simp

text \<open>Equations that take a workflow apart step by step, without touching what follows.\<close>

lemma bind_assoc: "bind (bind m k) k' = bind m (\<lambda>x. bind (k x) k')"
  by (auto simp: bind_def fun_eq_iff split: option.splits sum.splits)

lemma bind_ret: "bind (ret x) k = k x"
  by (simp add: bind_def ret_def fun_eq_iff)

lemma bind_run: "m h = Some (Inr x, h') \<Longrightarrow> bind m k h = k x h'"
  by (simp add: bind_def)

lemma bind_fail: "bind (fail e) k = fail e"
  by (simp add: bind_def fail_def)

lemma wp_bind_ask: "wp (bind (ask answer event) k) Q E h = wp (k (answer h)) Q E (h @ [event (answer h)])"
  by (simp add: wp_def bind_def ask_def)

lemma wp_bind_observe: "wp (bind (observe answer) k) Q E h = wp (k (answer h)) Q E h"
  by (simp add: wp_def bind_def observe_def)

lemmas wp_steps = bind_assoc bind_fail bind_guard bind_check_err wp_bind_ask wp_bind_observe wp_fail wp_ret

text \<open>The same as introduction rules, to take one call at a time.\<close>

lemma wp_bindI: "wp m (\<lambda>x. wp (k x) Q E) E h \<Longrightarrow> wp (bind m k) Q E h"
  by (simp only: wp_bind)

lemma wp_wrap_errI: "wp m Q (\<lambda>e. E (w e)) h \<Longrightarrow> wp (wrap_err w m) Q E h"
  by (simp only: wp_wrap_err)

lemma wp_conseq:
  "wp m Q E h \<Longrightarrow> (\<And>x h'. Q x h' \<Longrightarrow> Q' x h') \<Longrightarrow> (\<And>e h'. E e h' \<Longrightarrow> E' e h') \<Longrightarrow> wp m Q' E' h"
  by (auto simp: wp_def split: option.splits sum.splits)

lemma wp_conj_grows:
  "wp m Q E h \<Longrightarrow> wp m Q' (\<lambda>_ _. True) h \<Longrightarrow> wp m (\<lambda>x h'. Q x h' \<and> Q' x h') E h"
  by (auto simp: wp_def split: option.splits sum.splits)

lemma wp_conj_total:
  "wp m Q E h \<Longrightarrow> wp m Q' (\<lambda>_ _. False) h \<Longrightarrow> wp m (\<lambda>x h'. Q x h' \<and> Q' x h') (\<lambda>_ _. False) h"
  by (auto simp: wp_def split: option.splits sum.splits)

lemma wp_conj_both:
  "wp m Q E h \<Longrightarrow> wp m Q' E' h \<Longrightarrow> wp m (\<lambda>x h'. Q x h' \<and> Q' x h') (\<lambda>e h'. E e h' \<and> E' e h') h"
  by (auto simp: wp_def split: option.splits sum.splits)

lemma wp_Inr: "wp m Q E h \<Longrightarrow> m h = Some (Inr x, h') \<Longrightarrow> Q x h'"
  by (simp add: wp_def)

lemma wp_Inl: "wp m Q E h \<Longrightarrow> m h = Some (Inl e, h') \<Longrightarrow> E e h'"
  by (simp add: wp_def)

text \<open>A loop keeps an invariant its body keeps.\<close>

lemma wp_for_each:
  assumes "\<And>x h. x \<in> set xs \<Longrightarrow> I h \<Longrightarrow> wp (body x) (\<lambda>_. I) E h" "I h"
    and "\<And>h. I h \<Longrightarrow> Q () h"
  shows "wp (for_each body xs) Q E h"
  using assms
proof (induction xs arbitrary: h)
  case Nil
  then show ?case by (simp add: wp)
next
  case (Cons x xs)
  have "wp (body x) (\<lambda>_. I) E h" using Cons.prems(1,2) by simp
  then show ?case
    unfolding for_each.simps wp_bind
    by (rule wp_conseq) (use Cons in auto)
qed


text \<open>A loop whose invariant says how far it has come.\<close>

lemma wp_for_each_upto:
  assumes "\<And>ys x zs h. xs = ys @ x # zs \<Longrightarrow> I ys h \<Longrightarrow> wp (body x) (\<lambda>_. I (ys @ [x])) E h" "I [] h"
  shows "wp (for_each body xs) (\<lambda>_. I xs) E h"
proof -
  have "I ys h \<Longrightarrow> xs = ys @ zs \<Longrightarrow> wp (for_each body zs) (\<lambda>_. I xs) E h" for ys zs h
  proof (induction zs arbitrary: ys h)
    case (Cons z zs)
    have "wp (body z) (\<lambda>_. I (ys @ [z])) E h" using assms(1) Cons.prems by blast
    then show ?case
      unfolding for_each.simps wp_bind by (rule wp_conseq) (use Cons in auto)
  qed (simp add: wp)
  from this [of "[]"] show ?thesis using assms(2) by simp
qed

section \<open>Caught errors, deferred calls and workflows on another history\<close>

text \<open>\<open>attempt m\<close>: the error is a value.  \<open>finally_do m c\<close>: \<open>c\<close> is deferred, and its result ignored.
  \<open>embed w m\<close>: the workflow \<open>m\<close>, whose environment may depend on what happened before, keeps a history
  of its own, whose events \<open>w\<close> puts into the outer one.\<close>

definition attempt :: "('ev, 'e, 'a) prog \<Rightarrow> ('ev, 'f, 'e + 'a) prog" where
  "attempt m = (\<lambda>h. map_option (\<lambda>(r, h'). (Inr r, h')) (m h))"

definition finally_do :: "('ev, 'e, 'a) prog \<Rightarrow> ('ev, 'f, 'b) prog \<Rightarrow> ('ev, 'e, 'a) prog" where
  "finally_do m c = (\<lambda>h. case m h of None \<Rightarrow> None
     | Some (r, h') \<Rightarrow> map_option (\<lambda>(_, h''). (r, h'')) (c h'))"

definition embed :: "('ev \<Rightarrow> 'ev2) \<Rightarrow> ('ev2 list \<Rightarrow> ('ev, 'e, 'a) prog) \<Rightarrow> ('ev2, 'e, 'a) prog" where
  "embed w m = (\<lambda>h. map_option (\<lambda>(r, evs). (r, h @ map w evs)) (m h []))"

lemma wp_attempt [wp]: "wp (attempt m) Q E h = wp m (\<lambda>x. Q (Inr x)) (\<lambda>e. Q (Inl e)) h"
  by (auto simp: wp_def attempt_def split: option.splits sum.splits)

lemma wp_finally_do [wp]:
  "wp (finally_do m c) Q E h = wp m (\<lambda>x. wp c (\<lambda>_. Q x) (\<lambda>_. Q x)) (\<lambda>e. wp c (\<lambda>_. E e) (\<lambda>_. E e)) h"
  by (auto simp: wp_def finally_do_def split: option.splits sum.splits)

lemma wp_embed [wp]:
  "wp (embed w m) Q E h = wp (m h) (\<lambda>x evs. Q x (h @ map w evs)) (\<lambda>e evs. E e (h @ map w evs)) []"
  by (auto simp: wp_def embed_def split: option.splits sum.splits)

section \<open>The events a workflow adds\<close>

text \<open>\<open>emits P m\<close>: whatever the history, \<open>m\<close> only adds events to it, and all of them satisfy \<open>P\<close>.\<close>

definition emits :: "('ev \<Rightarrow> bool) \<Rightarrow> ('ev, 'e, 'a) prog \<Rightarrow> bool" where
  "emits P m \<longleftrightarrow> (\<forall>h r h'. m h = Some (r, h') \<longrightarrow> (\<exists>evs. h' = h @ evs \<and> list_all P evs))"

named_theorems emits_rule "the events of the workflow combinators"

lemma emits_basic [emits_rule]:
  "emits P (ret x)" "emits P (fail e)" "emits P (observe a)" "emits P (check_err w r)" "emits P (guard e b)" "emits P out_of_fuel"
  by (auto simp: emits_def ret_def fail_def observe_def check_err_def guard_def out_of_fuel_def split: sum.splits)

lemma emits_ask [emits_rule]: "(\<And>r. P (event r)) \<Longrightarrow> emits P (ask answer event)"
  by (auto simp: emits_def ask_def)

lemma emits_bind [emits_rule]:
  assumes "emits P m" "\<And>x. emits P (k x)"
  shows "emits P (bind m k)"
  unfolding emits_def
proof (intro allI impI)
  fix h r h'
  assume run: "bind m k h = Some (r, h')"
  show "\<exists>evs. h' = h @ evs \<and> list_all P evs"
  proof (cases "m h")
    case (Some y)
    obtain r1 h1 where y: "y = (r1, h1)" by force
    obtain e1 where e1: "h1 = h @ e1" "list_all P e1"
      using assms(1) Some y unfolding emits_def by blast
    show ?thesis
    proof (cases r1)
      case (Inr x)
      then have "k x h1 = Some (r, h')" using run Some y by (simp add: bind_def)
      then obtain e2 where "h' = h1 @ e2" "list_all P e2"
        using assms(2) unfolding emits_def by blast
      with e1 show ?thesis by (intro exI [of _ "e1 @ e2"]) simp
    qed (use run Some y e1 in \<open>auto simp: bind_def\<close>)
  qed (use run in \<open>simp add: bind_def\<close>)
qed

lemma emits_wrap_err [emits_rule]: "emits P m \<Longrightarrow> emits P (wrap_err w m)"
  by (auto simp: emits_def wrap_err_def split: option.splits sum.splits)

lemma emits_attempt [emits_rule]: "emits P m \<Longrightarrow> emits P (attempt m)"
  by (auto simp: emits_def attempt_def)

lemma emits_if [emits_rule]: "emits P m \<Longrightarrow> emits P m' \<Longrightarrow> emits P (if b then m else m')"
  by simp

lemma emits_for_each [emits_rule]: "(\<And>x. emits P (body x)) \<Longrightarrow> emits P (for_each body xs)"
  by (induction xs) (auto intro: emits_rule)

lemma emits_embed [emits_rule]: "(\<And>x. P (w x)) \<Longrightarrow> emits P (embed w m)"
  by (fastforce simp: emits_def embed_def list_all_iff)

lemma emits_wp:
  assumes "emits P m" "wp m Q E h"
  shows "wp m (\<lambda>x h'. Q x h' \<and> (\<exists>evs. h' = h @ evs \<and> list_all P evs))
    (\<lambda>e h'. E e h' \<and> (\<exists>evs. h' = h @ evs \<and> list_all P evs)) h"
  using assms unfolding emits_def wp_def by (fastforce split: option.splits sum.splits)

lemma emits_any: "emits P m \<Longrightarrow>
    wp m (\<lambda>_ h'. \<exists>evs. h' = h @ evs \<and> list_all P evs) (\<lambda>_ h'. \<exists>evs. h' = h @ evs \<and> list_all P evs) h"
  using emits_wp [of P m "\<lambda>_ _. True" "\<lambda>_ _. True" h]
  by (simp add: wp_def split: option.split sum.split)

section \<open>Returning\<close>

lemma returns_simps [simp]:
  "returns (ret x) h" "returns (fail e) h" "returns (ask answer event) h"
  "returns (observe answer) h" "returns (check_err w r) h" "returns (guard e b) h"
  by (auto simp: returns_def ret_def fail_def ask_def observe_def check_err_def guard_def
      split: sum.splits)

lemma returns_wrap_err [simp]: "returns (wrap_err w m) h = returns m h"
  by (auto simp: returns_def wrap_err_def split: option.splits sum.splits)

lemma returns_bind:
  "returns m h \<Longrightarrow> wp m (\<lambda>x h'. returns (k x) h') (\<lambda>_ _. True) h \<Longrightarrow> returns (bind m k) h"
  by (auto simp: returns_def bind_def wp_def split: option.splits sum.splits)

lemma wp_bound: "(\<And>x h'. Q x h') \<Longrightarrow> (\<And>e h'. E e h') \<Longrightarrow> wp m Q E h"
  by (auto simp: wp_def split: option.split sum.split)

lemma returns_seq:
  "(\<And>h. returns m h) \<Longrightarrow> (\<And>x h. returns (k x) h) \<Longrightarrow> returns (bind m k) h"
  by (rule returns_bind) (auto intro: wp_bound)

lemma returns_for_each:
  assumes "\<And>x k. x \<in> set xs \<Longrightarrow> returns (body x) k"
  shows "returns (for_each body xs) h"
  using assms
proof (induction xs arbitrary: h)
  case Nil
  then show ?case by simp
next
  case (Cons y ys k)
  have "wp (body y) (\<lambda>_ h'. returns (for_each body ys) h') (\<lambda>_ _. True) k"
    using Cons by (auto simp: wp_def split: option.splits sum.splits)
  with Cons.prems show ?case by (auto intro!: returns_bind)
qed

lemma returns_caught [simp]:
  "returns (attempt m) h = returns m h"
  "returns (embed w k) h = returns (k h) []"
  by (auto simp: returns_def attempt_def embed_def)

lemma returns_finally:
  "(\<And>h. returns m h) \<Longrightarrow> (\<And>h. returns c h) \<Longrightarrow> returns (finally_do m c) h"
  by (force simp: returns_def finally_do_def split: option.splits)

lemma returns_if: "(b \<Longrightarrow> returns m h) \<Longrightarrow> (\<not> b \<Longrightarrow> returns m' h) \<Longrightarrow> returns (if b then m else m') h"
  by simp

text \<open>A workflow that returns and cannot fail ends as its weakest precondition says.\<close>

lemma total_run:
  "returns m h \<Longrightarrow> wp m Q (\<lambda>_ _. False) h \<Longrightarrow> \<exists>x h'. m h = Some (Inr x, h') \<and> Q x h'"
  by (cases "m h"; cases "fst (the (m h))") (auto simp: returns_def wp_def)

text \<open>\<open>succeeds m\<close>: from every history the workflow returns without an error.\<close>

definition succeeds :: "('ev, 'e, 'a) prog \<Rightarrow> bool" where
  "succeeds m \<longleftrightarrow> (\<forall>h. \<exists>x h'. m h = Some (Inr x, h'))"

named_theorems succeeds_rule "workflows that succeed"

lemma succeeds_basic [succeeds_rule]:
  "succeeds (ret x)" "succeeds (ask answer event)" "succeeds (observe answer)"
  by (simp_all add: succeeds_def ret_def ask_def observe_def)

lemma succeeds_bind [succeeds_rule]: "succeeds m \<Longrightarrow> (\<And>x. succeeds (k x)) \<Longrightarrow> succeeds (bind m k)"
  unfolding succeeds_def bind_def by (metis (mono_tags, lifting) case_prod_conv option.simps(5) sum.simps(6))

lemma succeeds_bind_const: "(\<And>h. answer h = a) \<Longrightarrow> succeeds (k a) \<Longrightarrow> succeeds (bind (ask answer event) k)"
  by (simp add: succeeds_def bind_def ask_def)

lemma succeeds_wrap_err [succeeds_rule]: "succeeds m \<Longrightarrow> succeeds (wrap_err w m)"
  unfolding succeeds_def wrap_err_def by (metis (mono_tags, lifting) case_prod_conv option.simps(5) sum.simps(6))

lemma succeeds_for_each [succeeds_rule]: "(\<And>x. succeeds (body x)) \<Longrightarrow> succeeds (for_each body xs)"
  by (induction xs) (auto intro: succeeds_rule)

section \<open>What holds of every event at its place\<close>

text \<open>\<open>always A h\<close>: every event of the history \<open>h\<close> was allowed by \<open>A\<close> after what came before it.\<close>

definition always :: "('ev list \<Rightarrow> 'ev \<Rightarrow> bool) \<Rightarrow> 'ev list \<Rightarrow> bool" where
  "always A h \<longleftrightarrow> (\<forall>p e s. h = p @ e # s \<longrightarrow> A p e)"

lemma always_Nil [simp]: "always A []"
  by (simp add: always_def)

lemma always_snoc [simp]: "always A (h @ [e]) \<longleftrightarrow> always A h \<and> A h e"
proof
  assume l: "always A (h @ [e])"
  have "A p x" if "h = p @ x # s" for p x s
    using l that by (auto simp: always_def)
  moreover have "A h e" using l unfolding always_def by blast
  ultimately show "always A h \<and> A h e" by (auto simp: always_def)
next
  assume r: "always A h \<and> A h e"
  have "A p x" if "h @ [e] = p @ x # s" for p x s
    using r that by (cases s rule: rev_cases) (auto simp: always_def)
  then show "always A (h @ [e])" by (auto simp: always_def)
qed

text \<open>The same of a list of events that follows a history, one event at a time.\<close>

fun always_from :: "('ev list \<Rightarrow> 'ev \<Rightarrow> bool) \<Rightarrow> 'ev list \<Rightarrow> 'ev list \<Rightarrow> bool" where
  "always_from A h [] = True"
| "always_from A h (e # es) = (A h e \<and> always_from A (h @ [e]) es)"

lemma always_append_Cons [simp]:
  "always A (h @ e # es) \<longleftrightarrow> always A h \<and> always_from A h (e # es)"
proof (induction es arbitrary: h e)
  case (Cons f es)
  show ?case using Cons [of "h @ [e]" f] always_snoc [of A h e] by simp
qed simp

lemma always_single [simp]: "always A [e] \<longleftrightarrow> A [] e"
  using always_snoc [of A "[]" e] by simp

lemma alwaysD: "always A (p @ e # s) \<Longrightarrow> A p e"
  by (auto simp: always_def)

lemma always_append:
  assumes "always A h" "\<And>p e s. evs = p @ e # s \<Longrightarrow> A (h @ p) e"
  shows "always A (h @ evs)"
  using assms
proof (induction evs rule: rev_induct)
  case (snoc e evs)
  have "always A (h @ evs)" using snoc.prems by (intro snoc.IH) auto
  moreover have "A (h @ evs) e" using snoc.prems(2) [of evs e "[]"] by simp
  ultimately have "always A ((h @ evs) @ [e])" by (simp only: always_snoc)
  then show ?case by simp
qed simp

end
