(* ===== verification/Shell.thy ===== *)
theory Shell
  imports Go_Strings
begin

text \<open>
  The host a command is sent to (\<open>SSHHost\<close> of \<open>ports/ssh.go\<close>) and quoting for its POSIX shell: the
  two forms of \<open>shellQuote\<close>, of \<open>oidccutover/run.go\<close> and of \<open>rke2/install.go\<close> (all under
  \<open>src/cli/internal/bootstrap\<close>), and what a shell reads back from a quoted word.
\<close>

record ssh_host =
  host_alias :: string
  hostname :: string
  user :: string
  port :: int
  proxy_jump :: string

definition shell_quote :: "string \<Rightarrow> string" where
  "shell_quote s = SQ # replace_all s [SQ] [SQ, DQ, SQ, DQ, SQ] @ [SQ]"

text \<open>
  One word of a command line, as a shell reads it without expanding anything: pieces in single
  quotes, taken as they are; pieces in double quotes without a dollar, a backquote or a
  backslash; and unquoted letters that mean nothing to the shell.  \<open>None\<close>: the text is not such a
  word, it ends early, or the shell would expand something in it.
\<close>

definition plain_char :: "char \<Rightarrow> bool" where
  "plain_char c \<longleftrightarrow> c \<in> set ''abcdefghijklmnopqrstuvwxyzABCDEFGHIJKLMNOPQRSTUVWXYZ0123456789-_./:=,+@%''"

function sh_word :: "string \<Rightarrow> string option" where
  "sh_word s = (case s of
     [] \<Rightarrow> Some []
   | c # r \<Rightarrow>
       if c = SQ then
         (case cut SQ r of None \<Rightarrow> None | Some (q, r') \<Rightarrow> map_option ((@) q) (sh_word r'))
       else if c = DQ then
         (case cut DQ r of None \<Rightarrow> None | Some (q, r') \<Rightarrow>
            if set q \<inter> {CHR ''$'', CHR 0x60, CHR 0x5C} = {} then map_option ((@) q) (sh_word r')
            else None)
       else if plain_char c then map_option (Cons c) (sh_word r)
       else None)"
  by pat_completeness auto
termination
  by (relation "measure length") (auto dest!: cut_SomeD)

declare sh_word.simps [simp del]

lemma sh_word_single: "SQ \<notin> set q \<Longrightarrow> sh_word (SQ # q @ SQ # r) = map_option ((@) q) (sh_word r)"
  by (subst sh_word.simps) (simp add: cut_append)

lemma sh_word_double: "sh_word (DQ # SQ # DQ # r) = map_option (Cons SQ) (sh_word r)"
proof -
  have "(@) [SQ] = Cons SQ" by auto
  then show ?thesis by (subst sh_word.simps) simp
qed

lemma sh_word_quote_rest:
  "sh_word (SQ # concat (map (\<lambda>x. if x = SQ then [SQ, DQ, SQ, DQ, SQ] else [x]) (q @ s)) @ [SQ]) =
    Some (q @ s)" if "SQ \<notin> set q"
  using that
proof (induction s arbitrary: q)
  case Nil
  have "concat (map (\<lambda>x. if x = SQ then [SQ, DQ, SQ, DQ, SQ] else [x]) q) = q"
    using Nil by (induction q) auto
  then show ?case
    using sh_word_single [OF Nil, of "[]"] by (simp add: sh_word.simps [of "[]"])
next
  case (Cons c s)
  show ?case
  proof (cases "c = SQ")
    case True
    have "concat (map (\<lambda>x. if x = SQ then [SQ, DQ, SQ, DQ, SQ] else [x]) q) = q"
      using Cons.prems by (induction q) auto
    then show ?thesis
      using Cons.IH [of "[]"] True sh_word_single [OF Cons.prems]
      by (simp add: sh_word_double)
  next
    case False
    then show ?thesis using Cons.IH [of "q @ [c]"] Cons.prems by simp
  qed
qed

text \<open>A shell reads the quoted text back as one word, and it is the text that was quoted, whatever
  bytes it holds: no quote, dollar, semicolon or newline in it reaches the shell.\<close>

theorem shell_quote_read_back: "sh_word (shell_quote s) = Some s"
  using sh_word_quote_rest [of "[]" s] by (simp add: shell_quote_def replace_all_single)

section \<open>Command lines\<close>

text \<open>The other form closes the quotes, writes the quote behind a backslash and opens them again.\<close>

abbreviation BS :: char where "BS \<equiv> CHR 0x5C"

definition quote_bs :: "string \<Rightarrow> string" where
  "quote_bs s = SQ # replace_all s [SQ] [SQ, BS, SQ, SQ] @ [SQ]"

text \<open>The words of a command line: blanks separate them; single quotes, a backslash before a character
  other than a newline, and letters that mean nothing to the shell are read into the current word.
  \<open>None\<close>: anything else, which the shell might expand or treat as an operator.\<close>

definition word_so_far :: "string option \<Rightarrow> string" where
  "word_so_far w = (case w of None \<Rightarrow> [] | Some x \<Rightarrow> x)"

definition closed_word :: "string option \<Rightarrow> string list" where
  "closed_word w = (case w of None \<Rightarrow> [] | Some x \<Rightarrow> [x])"

function sh_words :: "string option \<Rightarrow> string \<Rightarrow> string list option" where
  "sh_words w s = (case s of
     [] \<Rightarrow> Some (closed_word w)
   | c # r \<Rightarrow>
       if c = CHR '' '' then map_option ((@) (closed_word w)) (sh_words None r)
       else if c = SQ then
         (case cut SQ r of None \<Rightarrow> None | Some (q, r') \<Rightarrow> sh_words (Some (word_so_far w @ q)) r')
       else if c = BS then
         (case r of [] \<Rightarrow> None | d # r' \<Rightarrow> if d = NL then None else sh_words (Some (word_so_far w @ [d])) r')
       else if plain_char c then sh_words (Some (word_so_far w @ [c])) r
       else None)"
  by pat_completeness auto
termination
  by (relation "measure (\<lambda>(w, s). length s)") (auto dest!: cut_SomeD)

declare sh_words.simps [simp del]

lemma sh_words_end: "sh_words w [] = Some (closed_word w)"
  by (simp add: sh_words.simps)

lemma sh_words_blank: "sh_words w (CHR '' '' # r) = map_option ((@) (closed_word w)) (sh_words None r)"
  by (subst sh_words.simps) simp

lemma sh_words_single: "SQ \<notin> set q \<Longrightarrow> sh_words w (SQ # q @ SQ # r) = sh_words (Some (word_so_far w @ q)) r"
  by (subst sh_words.simps) (simp add: cut_append)

lemma sh_words_escaped: "sh_words w (BS # SQ # r) = sh_words (Some (word_so_far w @ [SQ])) r"
  by (subst sh_words.simps) simp

lemma plain_char_special [simp]: "\<not> plain_char (CHR '' '')" "\<not> plain_char SQ" "\<not> plain_char BS"
  by (simp_all add: plain_char_def)

lemma sh_words_plain:
  "list_all plain_char p \<Longrightarrow> p \<noteq> [] \<Longrightarrow> sh_words w (p @ r) = sh_words (Some (word_so_far w @ p)) r"
proof (induction p arbitrary: w)
  case (Cons c p)
  then have c: "plain_char c" "c \<noteq> CHR '' ''" "c \<noteq> SQ" "c \<noteq> BS" by auto
  then have step: "sh_words w (c # p @ r) = sh_words (Some (word_so_far w @ [c])) (p @ r)"
    by (subst sh_words.simps) simp
  show ?case
  proof (cases "p = []")
    case False
    then show ?thesis using step Cons.IH [of "Some (word_so_far w @ [c])"] Cons.prems by (simp add: word_so_far_def)
  qed (use step in simp)
qed simp

lemma sh_words_quote_rest:
  "SQ \<notin> set q \<Longrightarrow>
   sh_words w (SQ # concat (map (\<lambda>x. if x = SQ then [SQ, BS, SQ, SQ] else [x]) (q @ s)) @ SQ # r) =
     sh_words (Some (word_so_far w @ q @ s)) r"
proof (induction s arbitrary: w q)
  case Nil
  have "concat (map (\<lambda>x. if x = SQ then [SQ, BS, SQ, SQ] else [x]) q) = q"
    using Nil by (induction q) auto
  then show ?case using sh_words_single [OF Nil] by simp
next
  case (Cons c s)
  have q: "concat (map (\<lambda>x. if x = SQ then [SQ, BS, SQ, SQ] else [x]) q) = q"
    using Cons.prems by (induction q) auto
  show ?case
  proof (cases "c = SQ")
    case True
    then show ?thesis
      using q Cons.IH [of "[]" "Some (word_so_far w @ q @ [SQ])"] sh_words_single [OF Cons.prems]
      by (simp add: sh_words_escaped word_so_far_def)
  next
    case False
    then show ?thesis using Cons.IH [of "q @ [c]"] Cons.prems by simp
  qed
qed

text \<open>A quoted text is read into the current word as it is, whatever bytes it holds.\<close>

lemma sh_words_quote: "sh_words w (quote_bs s @ r) = sh_words (Some (word_so_far w @ s)) r"
  using sh_words_quote_rest [of "[]" w s r] by (simp add: quote_bs_def replace_all_single)

end
