(* ===== verification/Oidc_Run.thy ===== *)
theory Oidc_Run
  imports Oidc_Config Effects Shell "HOL-Library.List_Lexorder" "HOL-Library.Char_ord"
    "HOL-Library.Multiset"
begin

text \<open>
  \<open>src/cli/internal/bootstrap/oidccutover/run.go\<close>: the cutover of every control-plane node over
  SSH, with its preflight, its readiness gate and its rollback.  The SSH and Kubernetes clients
  and the clock are an environment that answers from the history of calls, so every theorem
  holds however the nodes behave.  What the workflow prints to \<open>o.Out\<close> is left out.
\<close>

text \<open>The command runs under sudo unless the SSH user is root.\<close>

definition sudo :: "string \<Rightarrow> string" where
  "sudo cmd = ''if [ '' @ [DQ] @ ''$(id -u)'' @ [DQ] @ '' -ne 0 ] && command -v sudo >/dev/null 2>&1; '' @
     ''then sudo -n sh -c '' @ shell_quote cmd @ ''; else sh -c '' @ shell_quote cmd @ ''; fi''"

section \<open>Nodes, options and the calls a run makes\<close>

definition ssh_target :: "ssh_host \<Rightarrow> string" where
  "ssh_target h = (let target = (if hostname h = '''' then host_alias h else hostname h) in
     if user h \<noteq> '''' then user h @ ''@'' @ target else target)"

record oe_node =
  node_name :: string
  node_host :: ssh_host

definition label_of :: "oe_node \<Rightarrow> string" where
  "label_of n = (if node_name n = '''' then hostname (node_host n) else node_name n)"

record oe_options =
  has_k8s :: bool
  oe_nodes :: "oe_node list"
  dry_run :: bool
  roll_back :: bool
  ready_timeout :: int
  poll_interval :: int

record oe_result =
  wired_nodes :: "string list"
  already_wired :: "string list"
  skipped :: "(string \<times> string) list"

text \<open>The remote commands, named; \<open>cmd_text\<close> is the text the code sends.\<close>

datatype remote_cmd =
    Kubeconfig_check | Port_check | Snapshot | Restart | Ready_probe | Flag_check
  | Snapshot_check | Restore

fun cmd_text :: "remote_cmd \<Rightarrow> string" where
  "cmd_text Kubeconfig_check =
     ''test -s '' @ webhook_kubeconfig_path @ '' && echo present || echo absent''"
| "cmd_text Port_check = sudo (''ss -tlpnH '' @ [SQ] @ ''sport = :6443'' @ [SQ] @ '' 2>/dev/null || true'')"
| "cmd_text Snapshot =
     sudo (''cp -n '' @ rke2_config_path @ '' '' @ rke2_config_path @ backup_suffix)"
| "cmd_text Restart = sudo ''systemctl restart rke2-server''"
| "cmd_text Ready_probe =
     ''sudo -n sh -c '' @ [SQ] @ ''KUBECONFIG=/etc/rancher/rke2/rke2.yaml '' @
     ''/var/lib/rancher/rke2/bin/kubectl get --raw=/readyz'' @ [SQ] @ '' 2>&1 || true''"
| "cmd_text Flag_check =
     ''ps -eo args= | grep '' @ [SQ] @ ''[k]ube-apiserver'' @ [SQ] @ '' | tr '' @ [SQ] @ '' '' @ [SQ] @
     '' '' @ [SQ, CHR 0x5C, CHR ''n'', SQ] @ '' | grep authentication-token-webhook || true''"
| "cmd_text Snapshot_check = sudo (''test -s '' @ rke2_config_path @ backup_suffix)"
| "cmd_text Restore =
     sudo (''cp '' @ rke2_config_path @ backup_suffix @ '' '' @ rke2_config_path)"

declare cmd_text.simps [simp del]

datatype oe_event =
    Listed string "string + string list"
  | Ran ssh_host remote_cmd "string + string"
  | Fetched ssh_host string "string + string"
  | Put_file ssh_host string string nat "string + unit"
  | Slept int

record oe_env =
  on_pods :: "oe_event list \<Rightarrow> string \<Rightarrow> string + string list"
  on_run :: "oe_event list \<Rightarrow> ssh_host \<Rightarrow> string \<Rightarrow> string + string"
  on_fetch :: "oe_event list \<Rightarrow> ssh_host \<Rightarrow> string \<Rightarrow> string + string"
  on_put :: "oe_event list \<Rightarrow> ssh_host \<Rightarrow> string \<Rightarrow> string \<Rightarrow> nat \<Rightarrow> string + unit"
  now :: "oe_event list \<Rightarrow> int"
  cancelled :: "oe_event list \<Rightarrow> string option"

datatype wait_error = Ctx_done string | Not_ready string

datatype verify_error = Cannot_inspect string | Flag_missing

datatype oe_error =
    No_nodes
  | No_authenticator_pods
  | Unreachable string string string
  | Kubeconfig_missing "string list"
  | Read_failed string string
  | Patch_failed string oidc_error
  | Port_unknown string string
  | Port_held string string
  | Snapshot_failed string string
  | Write_failed string string
  | Restart_failed string string
  | Wait_failed string wait_error
  | Verify_failed string verify_error
  | No_snapshot string
  | Restore_failed string string

type_synonym ('e, 'a) oe_prog = "(oe_event, 'e, 'a) prog"

definition run_cmd :: "oe_env \<Rightarrow> ssh_host \<Rightarrow> remote_cmd \<Rightarrow> ('e, string + string) oe_prog" where
  "run_cmd env h c = ask (\<lambda>hist. on_run env hist h (cmd_text c)) (Ran h c)"

definition fetch :: "oe_env \<Rightarrow> ssh_host \<Rightarrow> string \<Rightarrow> ('e, string + string) oe_prog" where
  "fetch env h p = ask (\<lambda>hist. on_fetch env hist h p) (Fetched h p)"

definition put :: "oe_env \<Rightarrow> ssh_host \<Rightarrow> string \<Rightarrow> string \<Rightarrow> nat \<Rightarrow> ('e, string + unit) oe_prog" where
  "put env h p body mode = ask (\<lambda>hist. on_put env hist h p body mode) (Put_file h p body mode)"

definition list_pods :: "oe_env \<Rightarrow> string \<Rightarrow> ('e, string + string list) oe_prog" where
  "list_pods env ns = ask (\<lambda>hist. on_pods env hist ns) (Listed ns)"

definition sleep :: "int \<Rightarrow> ('e, unit) oe_prog" where
  "sleep d = ask (\<lambda>_. ()) (\<lambda>_. Slept d)"

lemmas call_defs = run_cmd_def fetch_def put_def list_pods_def sleep_def

section \<open>Preflight\<close>

definition webhook_namespace :: string where
  "webhook_namespace = ''oidc-webhook-authenticator''"

fun probe_nodes :: "oe_env \<Rightarrow> oe_node list \<Rightarrow> string list \<Rightarrow> (oe_error, string list) oe_prog" where
  "probe_nodes env [] missing = ret missing"
| "probe_nodes env (n # ns) missing =
     bind (run_cmd env (node_host n) Kubeconfig_check) (\<lambda>r.
     bind (check_err (Unreachable (node_name n) (ssh_target (node_host n))) r) (\<lambda>out.
     probe_nodes env ns (if contains out ''present'' then missing else missing @ [node_name n])))"

definition preflight :: "oe_env \<Rightarrow> oe_options \<Rightarrow> (oe_error, unit) oe_prog" where
  "preflight env opts =
     bind (if has_k8s opts then
             bind (list_pods env webhook_namespace) (\<lambda>r. case r of
               Inl _ \<Rightarrow> ret ()
             | Inr pods \<Rightarrow> guard No_authenticator_pods (pods \<noteq> []))
           else ret ()) (\<lambda>_.
     bind (probe_nodes env (oe_nodes opts) []) (\<lambda>missing.
     guard (Kubeconfig_missing (sort missing)) (missing = [])))"

section \<open>The port check\<close>

function foreign_name :: "string \<Rightarrow> string option" where
  "foreign_name rest = (case index_of rest [CHR ''('', DQ] of
     None \<Rightarrow> None
   | Some at \<Rightarrow>
       (let rest = drop (at + 2) rest in
        case index_of rest [DQ] of
          None \<Rightarrow> None
        | Some e \<Rightarrow>
            (let name = take e rest in
             if name \<noteq> '''' \<and> name \<noteq> ''kube-apiserver'' then Some name
             else foreign_name (drop e rest))))"
  by pat_completeness auto
termination
  by (relation "measure length") (auto dest!: index_of_bound)

declare foreign_name.simps [simp del]

fun foreign_owner_lines :: "string list \<Rightarrow> string" where
  "foreign_owner_lines [] = ''''"
| "foreign_owner_lines (l # ls) =
     (if blank l then foreign_owner_lines ls
      else (case foreign_name l of
              Some name \<Rightarrow> name
            | None \<Rightarrow> foreign_owner_lines ls))"

definition foreign_owner :: "string \<Rightarrow> string" where
  "foreign_owner out = foreign_owner_lines (split_on NL out)"

definition foreign_port_owner :: "oe_env \<Rightarrow> ssh_host \<Rightarrow> (string, string) oe_prog" where
  "foreign_port_owner env h =
     bind (run_cmd env h Port_check) (\<lambda>r.
     bind (check_err id r) (\<lambda>out. ret (foreign_owner out)))"

section \<open>Waiting for the apiserver\<close>

fun wait_loop :: "oe_env \<Rightarrow> int \<Rightarrow> ssh_host \<Rightarrow> int \<Rightarrow> nat \<Rightarrow> string \<Rightarrow> (wait_error, unit) oe_prog" where
  "wait_loop env poll h deadline 0 seen = out_of_fuel"
| "wait_loop env poll h deadline (Suc n) seen =
     bind (observe (now env)) (\<lambda>t.
     if t < deadline then
       bind (observe (cancelled env)) (\<lambda>c. case c of
         Some e \<Rightarrow> fail (Ctx_done e)
       | None \<Rightarrow>
           bind (sleep poll) (\<lambda>_.
           bind (run_cmd env h Ready_probe) (\<lambda>r. case r of
             Inl e \<Rightarrow> wait_loop env poll h deadline n e
           | Inr out \<Rightarrow>
               if trim_space out = ''ok'' then ret ()
               else wait_loop env poll h deadline n (trim_space out))))
     else fail (Not_ready seen))"

definition wait_api_server_ready ::
    "oe_env \<Rightarrow> nat \<Rightarrow> oe_options \<Rightarrow> ssh_host \<Rightarrow> (wait_error, unit) oe_prog" where
  "wait_api_server_ready env fuel opts h =
     bind (observe (now env)) (\<lambda>t.
     wait_loop env (poll_interval opts) h (t + ready_timeout opts) fuel '''')"

definition verify_flag_live :: "oe_env \<Rightarrow> ssh_host \<Rightarrow> (verify_error, unit) oe_prog" where
  "verify_flag_live env h =
     bind (run_cmd env h Flag_check) (\<lambda>r.
     bind (check_err Cannot_inspect r) (\<lambda>out.
     guard Flag_missing (contains out webhook_flag)))"

section \<open>The cutover, the rollback and the run\<close>

definition cut_over_node :: "oe_env \<Rightarrow> nat \<Rightarrow> oe_options \<Rightarrow> oe_result \<Rightarrow> oe_node \<Rightarrow>
    (oe_result \<times> oe_error, oe_result) oe_prog" where
  "cut_over_node env fuel opts res n =
     (let h = node_host n; l = label_of n in
      bind (fetch env h rke2_config_path) (\<lambda>r.
      bind (check_err (\<lambda>e. (res, Read_failed l e)) r) (\<lambda>body.
      bind (check_err (\<lambda>e. (res, Patch_failed l e)) (patch_config body)) (\<lambda>(patched, changed).
      if \<not> changed then ret (res\<lparr>already_wired := already_wired res @ [l]\<rparr>)
      else
        bind (wrap_err (\<lambda>e. (res, Port_unknown l e)) (foreign_port_owner env h)) (\<lambda>owner.
        if owner \<noteq> '''' then
          fail (res\<lparr>skipped := skipped res @ [(l, owner)]\<rparr>, Port_held l owner)
        else if dry_run opts then ret (res\<lparr>wired_nodes := wired_nodes res @ [l]\<rparr>)
        else
          bind (run_cmd env h Snapshot) (\<lambda>r.
          bind (check_err (\<lambda>e. (res, Snapshot_failed l e)) r) (\<lambda>_.
          bind (put env h rke2_config_path patched 384) (\<lambda>r.
          bind (check_err (\<lambda>e. (res, Write_failed l e)) r) (\<lambda>_.
          bind (run_cmd env h Restart) (\<lambda>r.
          bind (check_err (\<lambda>e. (res, Restart_failed l e)) r) (\<lambda>_.
          bind (wrap_err (\<lambda>e. (res, Wait_failed l e)) (wait_api_server_ready env fuel opts h)) (\<lambda>_.
          bind (wrap_err (\<lambda>e. (res, Verify_failed l e)) (verify_flag_live env h)) (\<lambda>_.
          ret (res\<lparr>wired_nodes := wired_nodes res @ [l]\<rparr>))))))))))))))"

fun cut_over_nodes :: "oe_env \<Rightarrow> nat \<Rightarrow> oe_options \<Rightarrow> oe_result \<Rightarrow> oe_node list \<Rightarrow>
    (oe_result \<times> oe_error, oe_result) oe_prog" where
  "cut_over_nodes env fuel opts res [] = ret res"
| "cut_over_nodes env fuel opts res (n # ns) =
     bind (cut_over_node env fuel opts res n) (\<lambda>res. cut_over_nodes env fuel opts res ns)"

definition roll_back_node :: "oe_env \<Rightarrow> nat \<Rightarrow> oe_options \<Rightarrow> oe_node \<Rightarrow> (oe_error, unit) oe_prog" where
  "roll_back_node env fuel opts n =
     (let h = node_host n; l = label_of n in
      if dry_run opts then ret ()
      else
        bind (run_cmd env h Snapshot_check) (\<lambda>r.
        bind (check_err (\<lambda>_. No_snapshot l) r) (\<lambda>_.
        bind (run_cmd env h Restore) (\<lambda>r.
        bind (check_err (Restore_failed l) r) (\<lambda>_.
        bind (run_cmd env h Restart) (\<lambda>r.
        bind (check_err (Restart_failed l) r) (\<lambda>_.
        wrap_err (Wait_failed l) (wait_api_server_ready env fuel opts h))))))))"

definition rollback :: "oe_env \<Rightarrow> nat \<Rightarrow> oe_options \<Rightarrow> (oe_error, unit) oe_prog" where
  "rollback env fuel opts = for_each (roll_back_node env fuel opts) (oe_nodes opts)"

text \<open>\<open>Run\<close> fills in the defaults, 5 minutes and 5 seconds, in nanoseconds.\<close>

definition with_defaults :: "oe_options \<Rightarrow> oe_options" where
  "with_defaults opts = opts\<lparr>
     ready_timeout := (if ready_timeout opts = 0 then 300000000000 else ready_timeout opts),
     poll_interval := (if poll_interval opts \<le> 0 then 5000000000 else poll_interval opts)\<rparr>"

definition empty_result :: oe_result where
  "empty_result = \<lparr>wired_nodes = [], already_wired = [], skipped = []\<rparr>"

definition oe_run :: "oe_env \<Rightarrow> nat \<Rightarrow> oe_options \<Rightarrow> (oe_result \<times> oe_error, oe_result) oe_prog" where
  "oe_run env fuel opts0 =
     (let opts = with_defaults opts0 in
      if oe_nodes opts = [] then fail (empty_result, No_nodes)
      else if roll_back opts then
        bind (wrap_err (Pair empty_result) (rollback env fuel opts)) (\<lambda>_. ret empty_result)
      else
        bind (wrap_err (Pair empty_result) (preflight env opts)) (\<lambda>_.
        cut_over_nodes env fuel opts empty_result (oe_nodes opts)))"

section \<open>The protocol of a run\<close>

text \<open>What a run may do next, as a step relation over its calls.  A node is read; if it needs the
  flags its port is checked, its file saved, written and the server restarted; then the server is
  probed until it answers, and its flag is looked up in the running process.  A failed call stops
  the run.  A dry run leaves the node after the port check; a rollback checks for the saved file,
  restores it and restarts.\<close>

datatype run_mode = Cutover | Dry_run | Rollback

datatype phase =
    Idle | Needs ssh_host string | Free ssh_host string | Saved ssh_host string
  | Restorable ssh_host | Written ssh_host | Restarted ssh_host | Answering ssh_host | Stopped

inductive oe_step :: "run_mode \<Rightarrow> phase \<Rightarrow> oe_event \<Rightarrow> phase \<Rightarrow> bool" for m where
  read_wired: "m \<noteq> Rollback \<Longrightarrow> patch_config body = Inr (p, False) \<Longrightarrow>
    oe_step m Idle (Fetched h rke2_config_path (Inr body)) Idle"
| read_needs: "m \<noteq> Rollback \<Longrightarrow> patch_config body = Inr (p, True) \<Longrightarrow>
    oe_step m Idle (Fetched h rke2_config_path (Inr body)) (Needs h p)"
| read_bad: "m \<noteq> Rollback \<Longrightarrow> patch_config body = Inl e \<Longrightarrow>
    oe_step m Idle (Fetched h rke2_config_path (Inr body)) Stopped"
| read_failed: "m \<noteq> Rollback \<Longrightarrow> oe_step m Idle (Fetched h rke2_config_path (Inl e)) Stopped"
| port_free: "foreign_owner out = '''' \<Longrightarrow> m = Cutover \<Longrightarrow>
    oe_step m (Needs h p) (Ran h Port_check (Inr out)) (Free h p)"
| port_free_dry: "foreign_owner out = '''' \<Longrightarrow> m = Dry_run \<Longrightarrow>
    oe_step m (Needs h p) (Ran h Port_check (Inr out)) Idle"
| port_held: "foreign_owner out \<noteq> '''' \<Longrightarrow>
    oe_step m (Needs h p) (Ran h Port_check (Inr out)) Stopped"
| port_unknown: "oe_step m (Needs h p) (Ran h Port_check (Inl e)) Stopped"
| snapshot: "oe_step m (Free h p) (Ran h Snapshot (Inr out)) (Saved h p)"
| snapshot_failed: "oe_step m (Free h p) (Ran h Snapshot (Inl e)) Stopped"
| write_ok: "oe_step m (Saved h p) (Put_file h rke2_config_path p 384 (Inr ())) (Written h)"
| write_failed: "oe_step m (Saved h p) (Put_file h rke2_config_path p 384 (Inl e)) Stopped"
| restorable: "m = Rollback \<Longrightarrow> oe_step m Idle (Ran h Snapshot_check (Inr out)) (Restorable h)"
| not_restorable: "m = Rollback \<Longrightarrow> oe_step m Idle (Ran h Snapshot_check (Inl e)) Stopped"
| restore: "oe_step m (Restorable h) (Ran h Restore (Inr out)) (Written h)"
| restore_failed: "oe_step m (Restorable h) (Ran h Restore (Inl e)) Stopped"
| restart: "oe_step m (Written h) (Ran h Restart (Inr out)) (Restarted h)"
| restart_failed: "oe_step m (Written h) (Ran h Restart (Inl e)) Stopped"
| pause: "oe_step m (Restarted h) (Slept d) (Restarted h)"
| probe_failed: "oe_step m (Restarted h) (Ran h Ready_probe (Inl e)) (Restarted h)"
| not_ready: "trim_space out \<noteq> ''ok'' \<Longrightarrow>
    oe_step m (Restarted h) (Ran h Ready_probe (Inr out)) (Restarted h)"
| ready: "trim_space out = ''ok'' \<Longrightarrow> m \<noteq> Rollback \<Longrightarrow>
    oe_step m (Restarted h) (Ran h Ready_probe (Inr out)) (Answering h)"
| ready_rollback: "trim_space out = ''ok'' \<Longrightarrow> m = Rollback \<Longrightarrow>
    oe_step m (Restarted h) (Ran h Ready_probe (Inr out)) Idle"
| flag_live: "contains out webhook_flag \<Longrightarrow> oe_step m (Answering h) (Ran h Flag_check (Inr out)) Idle"
| flag_missing: "\<not> contains out webhook_flag \<Longrightarrow>
    oe_step m (Answering h) (Ran h Flag_check (Inr out)) Stopped"
| flag_unknown: "oe_step m (Answering h) (Ran h Flag_check (Inl e)) Stopped"

inductive oe_path :: "run_mode \<Rightarrow> phase \<Rightarrow> oe_event list \<Rightarrow> phase \<Rightarrow> bool" for m a where
  stay: "oe_path m a [] a"
| go: "oe_path m a evs b \<Longrightarrow> oe_step m b e c \<Longrightarrow> oe_path m a (evs @ [e]) c"

inductive_cases stoppedE [elim!]: "oe_step m Stopped e c"
inductive_cases to_restartedE: "oe_step m b e (Restarted h)"
inductive_cases to_writtenE: "oe_step m b e (Written h)"
inductive_cases to_savedE: "oe_step m b e (Saved h p)"
inductive_cases to_freeE: "oe_step m b e (Free h p)"
inductive_cases to_needsE: "oe_step m b e (Needs h p)"
inductive_cases to_answeringE: "oe_step m b e (Answering h)"
inductive_simps oe_step_restart: "oe_step m b (Ran h Restart r) c"

definition mode_of :: "oe_options \<Rightarrow> run_mode" where
  "mode_of opts = (if roll_back opts then Rollback else if dry_run opts then Dry_run else Cutover)"

definition reach :: "run_mode \<Rightarrow> oe_event list \<Rightarrow> oe_event list \<Rightarrow> phase \<Rightarrow> bool" where
  "reach m h0 h ph \<longleftrightarrow> (\<exists>evs. h = h0 @ evs \<and> oe_path m Idle evs ph)"

lemma reach_start: "reach m h0 h0 Idle"
  unfolding reach_def by (rule exI [of _ "[]"]) (simp add: oe_path.stay)

lemma reach_step: "reach m h0 h b \<Longrightarrow> oe_step m b e c \<Longrightarrow> reach m h0 (h @ [e]) c"
  unfolding reach_def using oe_path.go by fastforce

definition reaches :: "run_mode \<Rightarrow> oe_event list \<Rightarrow> oe_event list \<Rightarrow> bool" where
  "reaches m h0 h \<longleftrightarrow> (\<exists>ph. reach m h0 h ph)"

lemma reachesI: "reach m h0 h ph \<Longrightarrow> reaches m h0 h"
  by (auto simp: reaches_def)

lemma wait_loop_reach:
  assumes "reach m h0 h (Restarted hh)"
    and ok: "\<And>h out. reach m h0 h (Restarted hh) \<Longrightarrow> trim_space out = ''ok'' \<Longrightarrow>
      Q () (h @ [Ran hh Ready_probe (Inr out)])"
  shows "wp (wait_loop env poll hh deadline n seen) Q (\<lambda>_. reaches m h0) h"
  using assms(1)
proof (induction n arbitrary: seen h)
  case (Suc n)
  have slept: "reach m h0 (h @ [Slept poll]) (Restarted hh)"
    by (rule reach_step [OF Suc.prems oe_step.pause])
  show ?case
    using Suc.prems
    by (auto simp: wp call_defs reachesI simp del: append_assoc split: option.split sum.split
        intro!: Suc.IH ok slept reach_step [OF slept] oe_step.probe_failed oe_step.not_ready)
qed (simp add: wp)

lemma reach_needs:
  "reach m h0 h Idle \<Longrightarrow> m \<noteq> Rollback \<Longrightarrow> patch_config body = Inr (p, True) \<Longrightarrow>
    reach m h0 (h @ [Fetched hh rke2_config_path (Inr body)]) (Needs hh p)"
  by (erule reach_step) (rule read_needs)

lemma reach_free:
  "reach Cutover h0 h (Needs hh p) \<Longrightarrow> foreign_owner out = '''' \<Longrightarrow>
    reach Cutover h0 (h @ [Ran hh Port_check (Inr out)]) (Free hh p)"
  by (erule reach_step) (simp add: port_free)

lemma reach_restarted:
  "reach Cutover h0 h (Free hh p) \<Longrightarrow>
    reach Cutover h0 (h @ [Ran hh Snapshot (Inr a)] @ [Put_file hh rke2_config_path p 384 (Inr ())] @
      [Ran hh Restart (Inr b)]) (Restarted hh)"
  using reach_step [OF reach_step [OF reach_step [OF _ snapshot] write_ok] restart]
  by (simp only: append_assoc [symmetric])

lemma wait_ready_reach:
  assumes "reach m h0 h (Restarted hh)"
    and "\<And>h'. m \<noteq> Rollback \<Longrightarrow> reach m h0 h' (Answering hh) \<Longrightarrow> Q () h'"
    and "\<And>h'. m = Rollback \<Longrightarrow> reach m h0 h' Idle \<Longrightarrow> Q () h'"
    and E: "\<And>e h'. reaches m h0 h' \<Longrightarrow> E e h'"
  shows "wp (wait_api_server_ready env fuel opts hh) Q E h"
proof -
  have "Q () (h @ [Ran hh Ready_probe (Inr out)])"
    if "reach m h0 h (Restarted hh)" "trim_space out = ''ok''" for h out
  proof (cases "m = Rollback")
    case True
    show ?thesis by (rule assms(3) [OF True reach_step [OF that(1) ready_rollback [OF that(2) True]]])
  next
    case False
    show ?thesis by (rule assms(2) [OF False reach_step [OF that(1) ready [OF that(2) False]]])
  qed
  then have "wp (wait_loop env p hh d fuel s) Q (\<lambda>_. reaches m h0) h" for p d s
    by (rule wait_loop_reach [OF assms(1)])
  then have "wp (wait_loop env p hh d fuel s) Q E h" for p d s
    by (rule wp_conseq) (use E in auto)
  then show ?thesis unfolding wait_api_server_ready_def wp .
qed

lemma flag_live_reach:
  assumes "reach m h0 h (Answering hh)"
    and Q: "\<And>h'. reach m h0 h' Idle \<Longrightarrow> Q () h'" and E: "\<And>e h'. reaches m h0 h' \<Longrightarrow> E e h'"
  shows "wp (verify_flag_live env hh) Q E h"
proof -
  note step = reach_step [OF assms(1)]
  show ?thesis
    unfolding verify_flag_live_def wp call_defs
    by (auto split: sum.split intro: Q E reachesI step [OF oe_step.flag_unknown]
        step [OF oe_step.flag_live] step [OF oe_step.flag_missing])
qed

lemma port_owner_reach:
  assumes "reach m h0 h (Needs hh p)"
    and "\<And>h'. m = Cutover \<Longrightarrow> reach m h0 h' (Free hh p) \<Longrightarrow> Q '''' h'"
    and "\<And>h'. m = Dry_run \<Longrightarrow> reach m h0 h' Idle \<Longrightarrow> Q '''' h'"
    and "\<And>h' w. w \<noteq> '''' \<Longrightarrow> reaches m h0 h' \<Longrightarrow> Q w h'"
    and E: "\<And>e h'. reaches m h0 h' \<Longrightarrow> E e h'"
    and "m \<noteq> Rollback"
  shows "wp (foreign_port_owner env hh) Q E h"
proof -
  note step = reach_step [OF assms(1)]
  have "m = Cutover \<or> m = Dry_run" using assms(6) by (cases m) auto
  then have "Q (foreign_owner out) (h @ [Ran hh Port_check (Inr out)])" for out
    using assms(2,3) [OF _ step] assms(4) [OF _ reachesI [OF step]] port_free port_free_dry port_held
    by (cases "foreign_owner out = ''''") metis+
  then show ?thesis
    unfolding foreign_port_owner_def wp call_defs
    by (auto split: sum.split intro: E reachesI step [OF oe_step.port_unknown])
qed

text \<open>One call: the two answers are two steps.\<close>

lemma call_reach:
  assumes "reach m h0 h b"
    and "\<And>x. oe_step m b (Ran hh c (Inl x)) Stopped" "\<And>x. oe_step m b (Ran hh c (Inr x)) b'"
    and "\<And>x h'. reach m h0 h' b' \<Longrightarrow> wp (k x) Q E h'" and E: "\<And>x h'. reaches m h0 h' \<Longrightarrow> E (w x) h'"
  shows "wp (bind (run_cmd env hh c) (\<lambda>r. bind (check_err w r) k)) Q E h"
  unfolding wp call_defs
  by (auto split: sum.split intro: assms(4) E reachesI reach_step [OF assms(1)] assms(2,3))

lemma put_reach:
  assumes "reach m h0 h (Saved hh p)"
    and "\<And>x h'. reach m h0 h' (Written hh) \<Longrightarrow> wp (k x) Q E h'"
    and E: "\<And>x h'. reaches m h0 h' \<Longrightarrow> E (w x) h'"
  shows "wp (bind (put env hh rke2_config_path p 384) (\<lambda>r. bind (check_err w r) k)) Q E h"
  unfolding wp call_defs
  by (auto split: sum.split intro: assms(2) E reachesI
      reach_step [OF assms(1) write_ok] reach_step [OF assms(1) write_failed])

lemma fetch_reach:
  assumes "reach m h0 h Idle" "m \<noteq> Rollback"
    and "\<And>p h'. reach m h0 h' Idle \<Longrightarrow> wp (k (p, False)) Q E h'"
    and "\<And>p h'. reach m h0 h' (Needs hh p) \<Longrightarrow> wp (k (p, True)) Q E h'"
    and E: "\<And>x h'. reaches m h0 h' \<Longrightarrow> E (w x) h'" "\<And>x h'. reaches m h0 h' \<Longrightarrow> E (v x) h'"
  shows "wp (bind (fetch env hh rke2_config_path) (\<lambda>r. bind (check_err w r) (\<lambda>body.
           bind (check_err v (patch_config body)) k))) Q E h"
proof -
  note step = reach_step [OF assms(1)]
  have "wp (bind (check_err v (patch_config body)) k) Q E (h @ [Fetched hh rke2_config_path (Inr body)])"
    for body
  proof (cases "patch_config body")
    case (Inl e)
    then show ?thesis unfolding wp by (simp add: E(2) [OF reachesI [OF step [OF read_bad [OF assms(2) Inl]]]])
  next
    case (Inr r)
    obtain p c where "r = (p, c)" by (cases r)
    then show ?thesis
      using Inr assms(3) [OF step [OF read_wired [OF assms(2)]]]
        assms(4) [OF step [OF read_needs [OF assms(2)]]]
      unfolding wp by (cases c) auto
  qed
  then show ?thesis
    unfolding wp call_defs
    by (cases "on_fetch env h hh rke2_config_path")
      (simp_all add: E(1) [OF reachesI [OF step [OF read_failed [OF assms(2)]]]] cong del: sum.case_cong_weak)
qed

lemma cut_over_node_reach:
  assumes "reach m h0 h Idle" "m = mode_of opts" "\<not> roll_back opts"
  shows "wp (cut_over_node env fuel opts res n) (\<lambda>_ h'. reach m h0 h' Idle) (\<lambda>_. reaches m h0) h"
proof -
  have m: "m \<noteq> Rollback" "dry_run opts \<longleftrightarrow> m = Dry_run" using assms(2,3) by (auto simp: mode_of_def)
  show ?thesis
    unfolding cut_over_node_def Let_def
    apply (rule fetch_reach [OF assms(1) m(1)])
       apply (simp_all only: prod.case simp_thms if_True if_False wp_ret m)
    apply (rule wp_bindI, rule wp_wrap_errI, erule port_owner_reach)
        apply (simp_all only: prod.case simp_thms if_True if_False wp_ret wp_fail m run_mode.simps refl)
    apply (erule call_reach, rule oe_step.snapshot_failed, rule oe_step.snapshot)
     apply (erule put_reach)
      apply (erule call_reach, rule oe_step.restart_failed, rule oe_step.restart)
       apply (rule wp_bindI, rule wp_wrap_errI, erule wait_ready_reach)
         apply (rule wp_bindI, rule wp_wrap_errI, erule flag_live_reach)
          apply (simp_all only: wp_ret simp_thms run_mode.simps)
    done
qed

lemma cut_over_nodes_reach:
  assumes "m = mode_of opts" "\<not> roll_back opts"
  shows "reach m h0 h Idle \<Longrightarrow>
    wp (cut_over_nodes env fuel opts res ns) (\<lambda>_ h'. reach m h0 h' Idle) (\<lambda>_. reaches m h0) h"
proof (induction ns arbitrary: res h)
  case (Cons n ns)
  show ?case
    unfolding cut_over_nodes.simps
    by (rule wp_bindI, rule wp_conseq [OF cut_over_node_reach [OF Cons.prems assms]])
      (simp_all add: Cons.IH)
qed (simp add: wp)

lemma roll_back_node_reach:
  assumes "reach Rollback h0 h Idle"
  shows "wp (roll_back_node env fuel opts n) (\<lambda>_ h'. reach Rollback h0 h' Idle)
    (\<lambda>_. reaches Rollback h0) h"
proof (cases "dry_run opts")
  case False
  show ?thesis
    unfolding roll_back_node_def Let_def if_not_P [OF False]
    apply (rule call_reach [OF assms oe_step.not_restorable oe_step.restorable], simp_all only: refl)
    apply (erule call_reach, rule oe_step.restore_failed, rule oe_step.restore)
     apply (erule call_reach, rule oe_step.restart_failed, rule oe_step.restart)
      apply (rule wp_wrap_errI, erule wait_ready_reach)
        apply (simp_all only: simp_thms)
    done
qed (simp add: roll_back_node_def wp assms)

text \<open>What the preflight has seen when it lets a run start.\<close>

fun is_preflight :: "oe_event \<Rightarrow> bool" where
  "is_preflight (Listed ns r) \<longleftrightarrow> True"
| "is_preflight (Ran h c r) \<longleftrightarrow> c = Kubeconfig_check"
| "is_preflight _ \<longleftrightarrow> False"

definition kubeconfig_seen :: "oe_event list \<Rightarrow> oe_node \<Rightarrow> bool" where
  "kubeconfig_seen evs n \<longleftrightarrow>
     (\<exists>out. Ran (node_host n) Kubeconfig_check (Inr out) \<in> set evs \<and> contains out ''present'')"

definition preflighted :: "oe_event list \<Rightarrow> oe_event list \<Rightarrow> bool" where
  "preflighted h0 h \<longleftrightarrow> (\<exists>pre. h = h0 @ pre \<and> (\<forall>e\<in>set pre. is_preflight e))"

lemma preflighted_step: "preflighted h0 h \<Longrightarrow> is_preflight e \<Longrightarrow> preflighted h0 (h @ [e])"
  unfolding preflighted_def by force

lemma kubeconfig_seen_mono: "kubeconfig_seen h n \<Longrightarrow> kubeconfig_seen (h @ evs) n"
  by (auto simp: kubeconfig_seen_def)

lemma probe_nodes_wp:
  "preflighted h0 h \<Longrightarrow>
    wp (probe_nodes env ns missing)
      (\<lambda>left h'. preflighted h0 h' \<and> (\<exists>evs more. h' = h @ evs \<and> left = missing @ more) \<and>
        (left = missing \<longrightarrow> (\<forall>n\<in>set ns. kubeconfig_seen h' n)))
      (\<lambda>_. preflighted h0) h"
proof (induction ns arbitrary: missing h)
  case (Cons n ns)
  let ?e = "\<lambda>r. Ran (node_host n) Kubeconfig_check r"
  have nxt: "preflighted h0 (h @ [?e r])" for r
    by (rule preflighted_step [OF Cons.prems]) simp
  have "wp (probe_nodes env ns (if contains out ''present'' then missing else missing @ [node_name n]))
      (\<lambda>left h'. preflighted h0 h' \<and> (\<exists>evs more. h' = h @ evs \<and> left = missing @ more) \<and>
        (left = missing \<longrightarrow> (\<forall>n\<in>set (n # ns). kubeconfig_seen h' n)))
      (\<lambda>_. preflighted h0) (h @ [?e (Inr out)])" for out
  proof (rule wp_conseq [OF Cons.IH [OF nxt]], goal_cases)
    case (1 left h')
    then obtain evs where evs: "h' = (h @ [?e (Inr out)]) @ evs" by auto
    have "kubeconfig_seen h' n" if "contains out ''present''"
      using that unfolding evs kubeconfig_seen_def by auto
    with 1 show ?case by (auto split: if_splits)
  qed
  then show ?case
    unfolding probe_nodes.simps wp call_defs
    by (cases "on_run env h (node_host n) (cmd_text Kubeconfig_check)")
      (simp_all add: nxt cong del: sum.case_cong_weak)
qed (simp add: wp)

lemma preflight_wp:
  assumes "preflighted h0 h"
  shows "wp (preflight env opts)
      (\<lambda>_ h'. preflighted h0 h' \<and> (\<forall>n\<in>set (oe_nodes opts). kubeconfig_seen h' n))
      (\<lambda>_. preflighted h0) h"
proof -
  have probe: "wp (bind (probe_nodes env (oe_nodes opts) []) (\<lambda>missing.
        guard (Kubeconfig_missing (sort missing)) (missing = [])))
      (\<lambda>_ h'. preflighted h0 h' \<and> (\<forall>n\<in>set (oe_nodes opts). kubeconfig_seen h' n))
      (\<lambda>_. preflighted h0) h" if "preflighted h0 h" for h
    unfolding wp by (rule wp_conseq [OF probe_nodes_wp [OF that]]) auto
  show ?thesis
    unfolding preflight_def
    using preflighted_step [OF assms, of "Listed webhook_namespace _"] assms
    by (auto simp: wp_bind wp_ask wp_ret wp_guard call_defs split: sum.split
        intro!: probe [unfolded wp_bind])
qed

section \<open>What a run has done\<close>

lemma oe_nodes_defaults [simp]:
  "oe_nodes (with_defaults opts) = oe_nodes opts" "roll_back (with_defaults opts) = roll_back opts"
  "dry_run (with_defaults opts) = dry_run opts" "has_k8s (with_defaults opts) = has_k8s opts"
  "mode_of (with_defaults opts) = mode_of opts"
  by (simp_all add: with_defaults_def mode_of_def)

text \<open>The trace of a run that is not a rollback: the preflight, then the protocol.\<close>

definition cutover_trace :: "oe_options \<Rightarrow> bool \<Rightarrow> oe_event list \<Rightarrow> bool" where
  "cutover_trace opts ok h \<longleftrightarrow> (\<exists>pre main ph. h = pre @ main \<and> (\<forall>e\<in>set pre. is_preflight e) \<and>
     (main \<noteq> [] \<longrightarrow> (\<forall>n\<in>set (oe_nodes opts). kubeconfig_seen pre n)) \<and>
     oe_path (mode_of opts) Idle main ph \<and> (ok \<longrightarrow> ph = Idle))"

lemma cutover_trace_preflight: "preflighted [] h \<Longrightarrow> cutover_trace opts False h"
  unfolding cutover_trace_def preflighted_def
  by (rule exI [of _ h], rule exI [of _ "[]"], rule exI [of _ Idle]) (auto intro: oe_path.stay)

lemma cutover_trace_reach:
  assumes "preflighted [] pre" "\<forall>n\<in>set (oe_nodes opts). kubeconfig_seen pre n"
    and "reach (mode_of opts) pre h ph" "ok \<longrightarrow> ph = Idle"
  shows "cutover_trace opts ok h"
  using assms unfolding cutover_trace_def preflighted_def reach_def by auto

lemma oe_run_trace:
  assumes "\<not> roll_back opts"
  shows "wp (oe_run env fuel opts) (\<lambda>_. cutover_trace opts True) (\<lambda>_. cutover_trace opts False) []"
proof -
  let ?o = "with_defaults opts"
  have nodes: "wp (cut_over_nodes env fuel ?o empty_result (oe_nodes opts))
      (\<lambda>_. cutover_trace opts True) (\<lambda>_. cutover_trace opts False) h"
    if pre: "preflighted [] h" "\<forall>n\<in>set (oe_nodes opts). kubeconfig_seen h n" for h
  proof (rule wp_conseq [OF cut_over_nodes_reach [where m = "mode_of opts" and ?h0.0 = h]], goal_cases)
    case (4 x h')
    then show ?case using cutover_trace_reach [OF pre] by blast
  next
    case (5 e h')
    then show ?case by (auto simp: reaches_def intro: cutover_trace_reach [OF pre])
  qed (simp_all add: assms reach_start)
  have "wp (bind (wrap_err (Pair empty_result) (preflight env ?o)) (\<lambda>_.
        cut_over_nodes env fuel ?o empty_result (oe_nodes opts)))
      (\<lambda>_. cutover_trace opts True) (\<lambda>_. cutover_trace opts False) []"
    unfolding wp_bind wp_wrap_err
  proof (rule wp_conseq [OF preflight_wp [where ?h0.0 = "[]"]], goal_cases)
    case 1
    show ?case by (simp add: preflighted_def)
  next
    case (2 x h')
    then show ?case using nodes by simp
  next
    case (3 e h')
    then show ?case by (rule cutover_trace_preflight)
  qed
  moreover have "cutover_trace opts False []"
    by (rule cutover_trace_preflight) (simp add: preflighted_def)
  ultimately show ?thesis
    by (simp add: oe_run_def Let_def assms wp)
qed

lemma oe_run_cutover_trace:
  assumes "oe_run env fuel opts [] = Some (r, h)" "\<not> roll_back opts"
  shows "cutover_trace opts (is_ok r) h"
  using oe_run_trace [OF assms(2), of env fuel] assms(1)
  by (cases r) (auto simp: wp_def)

lemma oe_run_rollback_trace:
  assumes "oe_run env fuel opts [] = Some (r, h)" "roll_back opts"
  shows "\<exists>ph. oe_path Rollback Idle h ph \<and> (is_ok r \<longrightarrow> ph = Idle)"
proof -
  let ?o = "with_defaults opts"
  have "wp (rollback env fuel ?o) (\<lambda>_ h. reach Rollback [] h Idle) (\<lambda>_. reaches Rollback []) []"
    unfolding rollback_def
    by (rule wp_for_each [where I = "\<lambda>h. reach Rollback [] h Idle"])
      (auto intro: roll_back_node_reach reach_start)
  then have "wp (oe_run env fuel opts) (\<lambda>_ h. reach Rollback [] h Idle) (\<lambda>_. reaches Rollback []) []"
    using assms(2)
    using reachesI [OF reach_start] by (auto simp: oe_run_def Let_def wp)
  then show ?thesis
    using assms(1) by (cases r) (auto simp: wp_def reach_def reaches_def)
qed

text \<open>Paths split where an event is.\<close>

lemma oe_path_split:
  "oe_path m a (xs @ ys) c \<Longrightarrow> \<exists>b. oe_path m a xs b \<and> oe_path m b ys c"
proof (induction ys arbitrary: c rule: rev_induct)
  case Nil
  then show ?case by (auto intro: oe_path.stay)
next
  case (snoc y ys)
  from snoc.prems obtain d where "oe_path m a (xs @ ys) d" "oe_step m d y c"
    by (cases rule: oe_path.cases) auto
  then show ?case using snoc.IH oe_path.go by blast
qed

lemma oe_path_ConsD: "oe_path m a (e # es) c \<Longrightarrow> \<exists>b. oe_step m a e b \<and> oe_path m b es c"
proof -
  assume "oe_path m a (e # es) c"
  then obtain b where b: "oe_path m a ([] @ [e]) b" "oe_path m b es c"
    using oe_path_split [of m a "[e]" es c] by auto
  from b(1) obtain b0 where "oe_path m a [] b0" "oe_step m b0 e b"
    by (cases rule: oe_path.cases) auto
  then have "oe_step m a e b" by (cases rule: oe_path.cases) auto
  then show ?thesis using b(2) by blast
qed

lemma oe_path_snocE:
  assumes "oe_path m a evs c" "c \<noteq> a"
  obtains evs' b e where "evs = evs' @ [e]" "oe_path m a evs' b" "oe_step m b e c"
  using assms by (cases rule: oe_path.cases) auto

text \<open>Before a restart in a cutover: the node was read and needs the flags, its port is not held,
  its file is saved and the patched file is in place, in this order and with nothing between.\<close>

lemma written_history:
  assumes "oe_path Cutover Idle evs (Written h)"
  shows "\<exists>pre body p out s. evs = pre @ [Fetched h rke2_config_path (Inr body),
      Ran h Port_check (Inr out), Ran h Snapshot (Inr s), Put_file h rke2_config_path p 384 (Inr ())] \<and>
    patch_config body = Inr (p, True) \<and> foreign_owner out = ''''"
proof -
  have no: "oe_path Cutover Idle evs (Restorable h) \<Longrightarrow> False" for evs
    by (erule oe_path_snocE) (auto elim: oe_step.cases)
  from assms obtain evs1 e1 p where 1: "evs = evs1 @ [e1]" "oe_path Cutover Idle evs1 (Saved h p)"
      "e1 = Put_file h rke2_config_path p 384 (Inr ())"
    by (rule oe_path_snocE) (auto elim!: to_writtenE dest: no)
  from 1(2) obtain evs2 e2 s where 2: "evs1 = evs2 @ [e2]" "oe_path Cutover Idle evs2 (Free h p)"
      "e2 = Ran h Snapshot (Inr s)"
    by (rule oe_path_snocE) (auto elim!: to_savedE)
  from 2(2) obtain evs3 e3 out where 3: "evs2 = evs3 @ [e3]" "oe_path Cutover Idle evs3 (Needs h p)"
      "e3 = Ran h Port_check (Inr out)" "foreign_owner out = ''''"
    by (rule oe_path_snocE) (auto elim!: to_freeE)
  from 3(2) obtain evs4 e4 body where 4: "evs3 = evs4 @ [e4]"
      "e4 = Fetched h rke2_config_path (Inr body)" "patch_config body = Inr (p, True)"
    by (rule oe_path_snocE) (auto elim!: to_needsE)
  show ?thesis
    by (rule exI [of _ evs4], rule exI [of _ body], rule exI [of _ p], rule exI [of _ out], rule exI [of _ s])
      (simp add: 1 2 3 4)
qed

fun mutates :: "oe_event \<Rightarrow> bool" where
  "mutates (Put_file h f b m r) \<longleftrightarrow> True"
| "mutates (Ran h c r) \<longleftrightarrow> c = Snapshot \<or> c = Restore \<or> c = Restart"
| "mutates _ \<longleftrightarrow> False"

lemma dry_path:
  "oe_path Dry_run Idle evs ph \<Longrightarrow>
    (\<forall>e\<in>set evs. \<not> mutates e) \<and> (ph = Idle \<or> ph = Stopped \<or> (\<exists>h p. ph = Needs h p))"
proof (induction rule: oe_path.induct)
  case (go evs b e c)
  from go.hyps(2) go.IH show ?case by (cases rule: oe_step.cases) auto
qed simp

lemma preflight_harmless: "is_preflight e \<Longrightarrow> \<not> mutates e"
  by (cases e) auto

text \<open>The host a call goes to.\<close>

fun host_of :: "oe_event \<Rightarrow> ssh_host option" where
  "host_of (Fetched h f r) = Some h"
| "host_of (Ran h c r) = Some h"
| "host_of (Put_file h f b m r) = Some h"
| "host_of _ = None"

text \<open>The server of \<open>h\<close> answered its readiness probe, and its process carries the flag.\<close>

definition ready_seen :: "ssh_host \<Rightarrow> oe_event list \<Rightarrow> bool" where
  "ready_seen h evs \<longleftrightarrow> (\<exists>out. Ran h Ready_probe (Inr out) \<in> set evs \<and> trim_space out = ''ok'')"

definition flag_seen :: "ssh_host \<Rightarrow> oe_event list \<Rightarrow> bool" where
  "flag_seen h evs \<longleftrightarrow> (\<exists>out. Ran h Flag_check (Inr out) \<in> set evs \<and> contains out webhook_flag)"

lemma seen_snoc:
  "ready_seen h (evs @ [e]) \<longleftrightarrow>
    ready_seen h evs \<or> (\<exists>out. e = Ran h Ready_probe (Inr out) \<and> trim_space out = ''ok'')"
  "flag_seen h (evs @ [e]) \<longleftrightarrow>
    flag_seen h evs \<or> (\<exists>out. e = Ran h Flag_check (Inr out) \<and> contains out webhook_flag)"
  unfolding ready_seen_def flag_seen_def by auto

lemma after_restart:
  "oe_path Cutover (Restarted h) evs ph \<Longrightarrow>
    (ph = Restarted h \<or> ph = Stopped \<or> ph = Answering h \<and> ready_seen h evs) \<or>
    ready_seen h evs \<and> flag_seen h evs"
proof (induction rule: oe_path.induct)
  case (go evs b e c)
  from go.hyps(2) go.IH show ?case by (cases rule: oe_step.cases) (auto simp: seen_snoc)
qed simp

lemma other_host_after_restart:
  assumes "oe_path Cutover (Restarted h) (mid @ [e]) ph" "host_of e = Some h'" "h' \<noteq> h"
  shows "ready_seen h mid \<and> flag_seen h mid"
proof -
  obtain b where b: "oe_path Cutover (Restarted h) mid b" "oe_step Cutover b e ph"
    using assms(1) by (cases rule: oe_path.cases) auto
  have "b \<noteq> Restarted h" "b \<noteq> Stopped" "b \<noteq> Answering h"
    using b(2) assms(2,3) by (auto elim: oe_step.cases)
  then show ?thesis using after_restart [OF b(1)] by auto
qed

text \<open>The same for a rollback.\<close>

lemma rollback_history:
  assumes "oe_path Rollback Idle evs (Written h)"
  shows "\<exists>pre s t. evs = pre @ [Ran h Snapshot_check (Inr s), Ran h Restore (Inr t)]"
proof -
  have no: "\<not> (\<exists>h p. ph \<in> {Saved h p, Free h p, Needs h p})" if "oe_path Rollback Idle evs ph" for evs ph
    using that
  proof (induction rule: oe_path.induct)
    case (go evs b e c)
    from go.hyps(2) go.IH show ?case by (cases rule: oe_step.cases) auto
  qed simp
  from assms obtain evs1 e1 t where 1: "evs = evs1 @ [e1]" "oe_path Rollback Idle evs1 (Restorable h)"
      "e1 = Ran h Restore (Inr t)"
    by (rule oe_path_snocE) (auto elim!: to_writtenE dest: no)
  from 1(2) obtain evs2 e2 s where 2: "evs1 = evs2 @ [e2]" "e2 = Ran h Snapshot_check (Inr s)"
    by (rule oe_path_snocE) (auto elim: oe_step.cases)
  show ?thesis by (simp add: 1 2)
qed

lemma after_rollback_restart:
  "oe_path Rollback (Restarted h) evs ph \<Longrightarrow> ph = Restarted h \<or> ready_seen h evs"
proof (induction rule: oe_path.induct)
  case (go evs b e c)
  from go.hyps(2) go.IH show ?case by (cases rule: oe_step.cases) (auto simp: seen_snoc)
qed simp

lemma rollback_ready_first:
  assumes "oe_path Rollback (Restarted h) (mid @ [e]) ph" "host_of e \<notin> {None, Some h}"
  shows "ready_seen h mid"
proof -
  obtain b where b: "oe_path Rollback (Restarted h) mid b" "oe_step Rollback b e ph"
    using assms(1) by (cases rule: oe_path.cases) auto
  have "b \<noteq> Restarted h" using b(2) assms(2) by (auto elim: oe_step.cases)
  then show ?thesis using after_rollback_restart [OF b(1)] by auto
qed

lemma cutover_split:
  assumes "cutover_trace opts ok (xs @ e # ys)" "\<not> is_preflight e"
  shows "\<exists>pre zs ph. xs = pre @ zs \<and> (\<forall>e\<in>set pre. is_preflight e) \<and>
    (\<forall>n\<in>set (oe_nodes opts). kubeconfig_seen pre n) \<and> oe_path (mode_of opts) Idle (zs @ e # ys) ph"
proof -
  from assms obtain pre main ph where d: "xs @ e # ys = pre @ main" "\<forall>e\<in>set pre. is_preflight e"
    "main \<noteq> [] \<longrightarrow> (\<forall>n\<in>set (oe_nodes opts). kubeconfig_seen pre n)"
    "oe_path (mode_of opts) Idle main ph"
    unfolding cutover_trace_def by auto
  from d(1) obtain zs where "xs = pre @ zs \<and> main = zs @ e # ys"
    using d(2) assms(2) by (auto simp: append_eq_append_conv2 Cons_eq_append_conv)
  then show ?thesis using d by auto
qed

lemma restart_path:
  assumes "oe_path m a (xs @ Ran h Restart r # ys) c"
  shows "oe_path m a xs (Written h) \<and>
    (case r of Inl e \<Rightarrow> ys = [] | Inr out \<Rightarrow> oe_path m (Restarted h) ys c)"
proof -
  obtain b b' where b: "oe_path m a xs b" "oe_step m b (Ran h Restart r) b'" "oe_path m b' ys c"
    using oe_path_split [OF assms] oe_path_ConsD by blast
  have "ys = []" if "oe_path m Stopped ys c"
    using that by (cases ys) (auto dest: oe_path_ConsD)
  then show ?thesis
    using b by (auto simp: oe_step_restart split: sum.split)
qed

lemma restart_in_cutover:
  assumes "oe_run env fuel opts [] = Some (r, h)" "\<not> roll_back opts"
    and "h = xs @ Ran hh Restart a # ys"
  obtains pre zs ph where "xs = pre @ zs" "\<forall>n\<in>set (oe_nodes opts). kubeconfig_seen pre n"
    "oe_path Cutover Idle zs (Written hh)"
    "case a of Inl e \<Rightarrow> ys = [] | Inr out \<Rightarrow> oe_path Cutover (Restarted hh) ys ph"
proof -
  obtain pre zs ph where d: "xs = pre @ zs" "\<forall>n\<in>set (oe_nodes opts). kubeconfig_seen pre n"
      "oe_path (mode_of opts) Idle (zs @ Ran hh Restart a # ys) ph"
    using cutover_split [OF oe_run_cutover_trace [OF assms(1,2), unfolded assms(3)]] by auto
  have "mode_of opts \<noteq> Dry_run" using dry_path d(3) by fastforce
  then have "mode_of opts = Cutover" using assms(2) by (auto simp: mode_of_def)
  then have "oe_path Cutover Idle (zs @ Ran hh Restart a # ys) ph" using d(3) by simp
  from that [OF d(1,2) conjunct1 [OF restart_path [OF this]] conjunct2 [OF restart_path [OF this]]]
  show thesis .
qed

section \<open>Returning\<close>

text \<open>What the loop needs of the clock: it does not run backwards, and a timer does not fire
  early.\<close>

definition clock_sound :: "oe_env \<Rightarrow> bool" where
  "clock_sound env \<longleftrightarrow> (\<forall>h e. now env h \<le> now env (h @ [e])) \<and>
     (\<forall>h d. now env h + d \<le> now env (h @ [Slept d]))"

lemma wait_loop_returns:
  assumes "clock_sound env" "0 < poll"
  shows "0 < n \<Longrightarrow> deadline \<le> now env h + (int n - 1) * poll \<Longrightarrow>
    returns (wait_loop env poll hh deadline n seen) h"
proof (induction n arbitrary: h seen)
  case (Suc n)
  have IH: "returns (wait_loop env poll hh deadline n seen) (h @ [Slept poll, Ran hh Ready_probe r])"
    if "now env h < deadline" for r seen
  proof -
    have "now env h + poll \<le> now env (h @ [Slept poll])"
      "now env (h @ [Slept poll]) \<le> now env ((h @ [Slept poll]) @ [Ran hh Ready_probe r])"
      using assms(1) unfolding clock_sound_def by blast+
    then have "now env h + poll \<le> now env (h @ [Slept poll, Ran hh Ready_probe r])" by simp
    moreover have "0 < n" using Suc.prems(2) that by (cases n) auto
    ultimately show ?thesis
      using Suc.prems(2) by (intro Suc.IH) (auto simp: algebra_simps)
  qed
  then show ?case
    by (auto simp: wp call_defs intro!: returns_bind split: option.split sum.split)
qed simp

text \<open>Fuel enough for the polls a timeout allows.\<close>

definition enough_fuel :: "nat \<Rightarrow> oe_options \<Rightarrow> bool" where
  "enough_fuel fuel opts \<longleftrightarrow> 0 < fuel \<and>
     ready_timeout (with_defaults opts) \<le> (int fuel - 1) * poll_interval (with_defaults opts)"

lemma wait_ready_returns:
  assumes "clock_sound env" "enough_fuel fuel opts"
  shows "returns (wait_api_server_ready env fuel (with_defaults opts) hh) h"
  unfolding wait_api_server_ready_def
  using assms(2)
  by (auto simp: wp enough_fuel_def with_defaults_def intro!: returns_bind
      wait_loop_returns [OF assms(1)])

lemma returns_calls [simp]:
  "returns (run_cmd env hh c) h" "returns (fetch env hh p) h" "returns (put env hh p b m) h"
  "returns (list_pods env ns) h"
  by (simp_all add: call_defs)

lemma probe_nodes_returns: "returns (probe_nodes env ns missing) h"
  by (induction ns arbitrary: missing h) (auto intro!: returns_seq)

lemma cut_over_node_returns:
  assumes "clock_sound env" "enough_fuel fuel opts"
  shows "returns (cut_over_node env fuel (with_defaults opts) res n) h"
  unfolding cut_over_node_def Let_def foreign_port_owner_def verify_flag_live_def
  by (auto intro!: returns_seq wait_ready_returns [OF assms] split: prod.split)

lemma cut_over_nodes_returns:
  assumes "clock_sound env" "enough_fuel fuel opts"
  shows "returns (cut_over_nodes env fuel (with_defaults opts) res ns) h"
  by (induction ns arbitrary: res h) (auto intro!: returns_seq cut_over_node_returns [OF assms])

section \<open>Results\<close>

text \<open>Success is honest: a node counted as wired was read as wired, or (but for a dry run) was seen
  ready and carrying the flag.\<close>

definition node_settled :: "bool \<Rightarrow> oe_event list \<Rightarrow> oe_node \<Rightarrow> bool" where
  "node_settled dry h n \<longleftrightarrow>
     (\<exists>body p c. Fetched (node_host n) rke2_config_path (Inr body) \<in> set h \<and>
        patch_config body = Inr (p, c) \<and>
        (c \<and> \<not> dry \<longrightarrow> ready_seen (node_host n) h \<and> flag_seen (node_host n) h))"

definition tally :: "oe_result \<Rightarrow> string multiset" where
  "tally r = mset (wired_nodes r) + mset (already_wired r)"

lemma tally_empty: "tally empty_result = {#}" "skipped empty_result = []"
  by (simp_all add: tally_def empty_result_def)

lemma seen_mono:
  "ready_seen hh h \<Longrightarrow> ready_seen hh (h @ evs)" "flag_seen hh h \<Longrightarrow> flag_seen hh (h @ evs)"
  "node_settled dry h n \<Longrightarrow> node_settled dry (h @ evs) n"
  by (auto simp: ready_seen_def flag_seen_def node_settled_def)

lemma settledI:
  "patch_config body = Inr (p, c) \<Longrightarrow> Fetched (node_host n) rke2_config_path (Inr body) \<in> set h \<Longrightarrow>
    (c \<Longrightarrow> \<not> dry \<Longrightarrow> ready_seen (node_host n) h \<and> flag_seen (node_host n) h) \<Longrightarrow>
    node_settled dry h n"
  unfolding node_settled_def by blast

lemma seen_simps [simp]:
  "ready_seen hh [] \<longleftrightarrow> False" "flag_seen hh [] \<longleftrightarrow> False"
  "ready_seen hh (xs @ ys) \<longleftrightarrow> ready_seen hh xs \<or> ready_seen hh ys"
  "flag_seen hh (xs @ ys) \<longleftrightarrow> flag_seen hh xs \<or> flag_seen hh ys"
  "ready_seen hh (e # xs) \<longleftrightarrow>
     (\<exists>out. e = Ran hh Ready_probe (Inr out) \<and> trim_space out = ''ok'') \<or> ready_seen hh xs"
  "flag_seen hh (e # xs) \<longleftrightarrow>
     (\<exists>out. e = Ran hh Flag_check (Inr out) \<and> contains out webhook_flag) \<or> flag_seen hh xs"
  unfolding ready_seen_def flag_seen_def by auto

lemma wait_loop_seen:
  "wp (wait_loop env poll hh deadline n seen)
    (\<lambda>_ h'. (\<exists>evs. h' = h @ evs) \<and> ready_seen hh h') (\<lambda>_ _. True) h"
proof (induction n arbitrary: seen h)
  case (Suc n)
  have IH: "wp (wait_loop env poll hh deadline n seen)
      (\<lambda>_ h'. (\<exists>evs. h' = h @ evs) \<and> ready_seen hh h') (\<lambda>_ _. True) (h @ evs)" for evs seen
    by (rule wp_conseq [OF Suc.IH]) auto
  show ?case
    by (auto simp: wp call_defs ready_seen_def [of hh "h @ _"] IH split: option.split sum.split)
qed (simp add: wp)

lemma cut_over_node_result:
  "wp (cut_over_node env fuel opts res n)
    (\<lambda>res' h'. (\<exists>evs. h' = h @ evs) \<and> node_settled (dry_run opts) h' n \<and>
       tally res' = add_mset (label_of n) (tally res) \<and> skipped res' = skipped res) (\<lambda>_ _. True) h"
proof -
  have wait: "wp (wait_api_server_ready env fuel opts hh) Q (\<lambda>_ _. True) h"
    if "\<And>h'. \<exists>evs. h' = h @ evs \<Longrightarrow> ready_seen hh h' \<Longrightarrow> Q () h'" for hh Q h
    unfolding wait_api_server_ready_def wp_bind wp_observe
    by (rule wp_conseq [OF wait_loop_seen]) (use that in auto)
  show ?thesis
    unfolding cut_over_node_def Let_def
    by (auto simp: wp call_defs foreign_port_owner_def verify_flag_live_def tally_def
        split: sum.split intro!: wait settledI)
qed

lemma cut_over_nodes_result:
  "wp (cut_over_nodes env fuel opts res ns)
    (\<lambda>res' h'. (\<exists>evs. h' = h @ evs) \<and> (\<forall>n\<in>set ns. node_settled (dry_run opts) h' n) \<and>
       tally res' = tally res + mset (map label_of ns) \<and> skipped res' = skipped res) (\<lambda>_ _. True) h"
proof (induction ns arbitrary: res h)
  case (Cons n ns)
  show ?case
    unfolding cut_over_nodes.simps
    by (rule wp_bindI, rule wp_conseq [OF cut_over_node_result], rule wp_conseq [OF Cons.IH])
      (auto dest: seen_mono(3))
qed (simp add: wp)

section \<open>An example cluster\<close>

text \<open>Two nodes that do as they are told; the first file is empty, the second already wired.  The
  clock counts the pauses.\<close>

fun pause_of :: "oe_event \<Rightarrow> int" where
  "pause_of (Slept d) = max 0 d"
| "pause_of _ = 0"

lemma pause_nonneg: "0 \<le> pause_of e"
  by (cases e) auto

lemma pause_slept: "d \<le> pause_of (Slept d)"
  by simp

definition example_host :: "string \<Rightarrow> ssh_host" where
  "example_host n = \<lparr>host_alias = [], hostname = n, user = [], port = 0, proxy_jump = []\<rparr>"

definition patched_empty :: string where
  "patched_empty = (case patch_config [] of Inr (p, _) \<Rightarrow> p | Inl _ \<Rightarrow> [])"

definition example_env :: oe_env where
  "example_env = \<lparr>
     on_pods = (\<lambda>h ns. Inr [''webhook'']),
     on_run = (\<lambda>h hh c.
       if has_prefix c ''test'' then Inr ''present''
       else if has_prefix c ''sudo'' then Inr ''ok''
       else if has_prefix c ''ps'' then Inr webhook_flag
       else Inr []),
     on_fetch = (\<lambda>h hh p. if hostname hh = ''a'' then Inr [] else Inr patched_empty),
     on_put = (\<lambda>h hh p b m. Inr ()),
     now = (\<lambda>h. sum_list (map pause_of h)),
     cancelled = (\<lambda>h. None)\<rparr>"

definition example_options :: "bool \<Rightarrow> bool \<Rightarrow> oe_options" where
  "example_options dry back = \<lparr>has_k8s = True,
     oe_nodes = [\<lparr>node_name = ''a'', node_host = example_host ''a''\<rparr>,
       \<lparr>node_name = ''b'', node_host = example_host ''b''\<rparr>],
     dry_run = dry, roll_back = back, ready_timeout = 0, poll_interval = 0\<rparr>"

lemma example_patch:
  "patch_config [] = Inr (patched_empty, True)" "patch_config patched_empty = Inr (patched_empty, False)"
proof -
  show 1: "patch_config [] = Inr (patched_empty, True)"
    using patch_absent [of "[]"] by (simp add: patched_empty_def)
  show "patch_config patched_empty = Inr (patched_empty, False)"
    by (rule wired_patch [OF patch_wired [OF 1]])
qed

lemma example_answers:
  "on_run example_env h hh (cmd_text Kubeconfig_check) = Inr ''present''"
  "on_run example_env h hh (cmd_text Port_check) = Inr []"
  "on_run example_env h hh (cmd_text Snapshot) = Inr []"
  "on_run example_env h hh (cmd_text Restart) = Inr []"
  "on_run example_env h hh (cmd_text Ready_probe) = Inr ''ok''"
  "on_run example_env h hh (cmd_text Flag_check) = Inr webhook_flag"
  "on_run example_env h hh (cmd_text Snapshot_check) = Inr []"
  "on_run example_env h hh (cmd_text Restore) = Inr []"
  "on_pods example_env h ns = Inr [''webhook'']" "on_put example_env h hh p b m = Inr ()"
  "on_fetch example_env h hh p = (if hostname hh = ''a'' then Inr [] else Inr patched_empty)"
  "now example_env h = sum_list (map pause_of h)" "cancelled example_env h = None"
  by (simp_all add: example_env_def cmd_text.simps sudo_def)

lemma example_text:
  "contains ''present'' ''present''" "contains webhook_flag webhook_flag"
  "trim_space ''ok'' = ''ok''" "foreign_owner [] = []"
  by (code_simp, simp add: contains_iff exI [of _ "[]"], code_simp, code_simp)

lemmas example_simps = oe_run_def with_defaults_def preflight_def probe_nodes.simps rollback_def
  roll_back_node_def cut_over_node_def foreign_port_owner_def verify_flag_live_def
  wait_api_server_ready_def call_defs check_err_def guard_def bind_def ret_def ask_def observe_def
  wrap_err_def label_of_def example_options_def example_host_def example_answers example_text
  example_patch empty_result_def Let_def numeral_2_eq_2

lemma example_cutover:
  "oe_run example_env 2 (example_options False False) [] = Some
     (Inr \<lparr>wired_nodes = [''a''], already_wired = [''b''], skipped = []\<rparr>,
      [Listed webhook_namespace (Inr [''webhook'']),
       Ran (example_host ''a'') Kubeconfig_check (Inr ''present''),
       Ran (example_host ''b'') Kubeconfig_check (Inr ''present''),
       Fetched (example_host ''a'') rke2_config_path (Inr []),
       Ran (example_host ''a'') Port_check (Inr []),
       Ran (example_host ''a'') Snapshot (Inr []),
       Put_file (example_host ''a'') rke2_config_path patched_empty 384 (Inr ())] @
      Ran (example_host ''a'') Restart (Inr []) #
      [Slept 5000000000,
       Ran (example_host ''a'') Ready_probe (Inr ''ok''),
       Ran (example_host ''a'') Flag_check (Inr webhook_flag)] @
      [Fetched (example_host ''b'') rke2_config_path (Inr patched_empty)])"
  by (simp add: example_simps)

lemma example_dry_run:
  "oe_run example_env 2 (example_options True False) [] = Some
     (Inr \<lparr>wired_nodes = [''a''], already_wired = [''b''], skipped = []\<rparr>,
      [Listed webhook_namespace (Inr [''webhook'']),
       Ran (example_host ''a'') Kubeconfig_check (Inr ''present''),
       Ran (example_host ''b'') Kubeconfig_check (Inr ''present''),
       Fetched (example_host ''a'') rke2_config_path (Inr []),
       Ran (example_host ''a'') Port_check (Inr []),
       Fetched (example_host ''b'') rke2_config_path (Inr patched_empty)])"
  by (simp add: example_simps)

lemma example_rollback:
  "oe_run example_env 2 (example_options False True) [] = Some
     (Inr empty_result,
      [Ran (example_host ''a'') Snapshot_check (Inr []), Ran (example_host ''a'') Restore (Inr [])] @
      Ran (example_host ''a'') Restart (Inr []) #
      [Slept 5000000000, Ran (example_host ''a'') Ready_probe (Inr ''ok'')] @
      Ran (example_host ''b'') Snapshot_check (Inr []) #
      [Ran (example_host ''b'') Restore (Inr []),
       Ran (example_host ''b'') Restart (Inr []), Slept 5000000000,
       Ran (example_host ''b'') Ready_probe (Inr ''ok'')])"
  by (simp add: example_simps)

text \<open>What the port check reads from a socket line: text without a quote, then for each process its
  quoted name after an opening parenthesis, and more text without a quote.\<close>

definition ss_line :: "string \<Rightarrow> (string \<times> string) list \<Rightarrow> string" where
  "ss_line lead ps = lead @ concat (map (\<lambda>(name, rest). CHR ''('' # DQ # name @ DQ # rest) ps)"

definition foreign :: "string \<Rightarrow> bool" where
  "foreign name \<longleftrightarrow> name \<noteq> '''' \<and> name \<noteq> ''kube-apiserver''"

lemma index_of_open:
  "DQ \<notin> set r \<Longrightarrow> index_of (r @ CHR ''('' # DQ # x) [CHR ''('', DQ] = Some (length r)"
proof (induction r)
  case (Cons a r)
  then have "\<not> prefix [CHR ''('', DQ] (a # r @ CHR ''('' # DQ # x)" by (cases r) auto
  with Cons show ?case by simp
qed simp

lemma index_of_open_None: "DQ \<notin> set r \<Longrightarrow> index_of r [CHR ''('', DQ] = None"
  by (induction r) (auto simp: prefix_def)

lemma foreign_name_line:
  assumes "DQ \<notin> set lead" "\<forall>(name, rest)\<in>set ps. DQ \<notin> set name \<and> DQ \<notin> set rest"
  shows "foreign_name (ss_line lead ps) = find foreign (map fst ps) \<and>
    foreign_name (DQ # ss_line lead ps) = find foreign (map fst ps)"
  using assms
proof (induction ps arbitrary: lead)
  case Nil
  have "index_of (DQ # lead) [CHR ''('', DQ] = None"
    using Nil by (simp add: index_of_open_None)
  then show ?case
    using Nil by (simp add: ss_line_def foreign_name.simps index_of_open_None)
next
  case (Cons p ps)
  obtain name rest where p: "p = (name, rest)" by (cases p)
  have line: "ss_line lead (p # ps) = lead @ CHR ''('' # DQ # name @ DQ # ss_line rest ps"
    by (simp add: ss_line_def p)
  have step: "foreign_name s = (if foreign name then Some name else foreign_name (DQ # ss_line rest ps))"
    if "index_of s [CHR ''('', DQ] = Some n" "drop (n + 2) s = name @ DQ # ss_line rest ps" for s n
    using Cons.prems(2) that
    by (subst foreign_name.simps) (simp add: p Let_def index_of_single foreign_def)
  have "foreign_name (DQ # ss_line rest ps) = find foreign (map fst ps)"
    using Cons by (simp add: p)
  moreover have "foreign_name (ss_line lead (p # ps)) =
      (if foreign name then Some name else foreign_name (DQ # ss_line rest ps))"
    by (rule step [of _ "length lead"]) (use Cons.prems in \<open>simp_all add: line index_of_open\<close>)
  moreover have "foreign_name (DQ # ss_line lead (p # ps)) =
      (if foreign name then Some name else foreign_name (DQ # ss_line rest ps))"
    by (rule step [of _ "Suc (length lead)"]) (use Cons.prems in \<open>simp_all add: line index_of_open\<close>)
  ultimately show ?case by (simp add: p)
qed

definition ss_row_ok :: "string \<times> (string \<times> string) list \<Rightarrow> bool" where
  "ss_row_ok row \<longleftrightarrow> DQ \<notin> set (fst row) \<and> NL \<notin> set (fst row) \<and>
     (\<forall>(name, rest)\<in>set (snd row). set name \<inter> {DQ, NL} = {} \<and> set rest \<inter> {DQ, NL} = {})"

lemma find_append: "find P (xs @ ys) = (case find P xs of None \<Rightarrow> find P ys | Some x \<Rightarrow> Some x)"
  by (induction xs) auto

lemma foreign_owner_rows:
  assumes "\<forall>row\<in>set rows. ss_row_ok row"
  shows "foreign_owner_lines (map (\<lambda>(lead, ps). ss_line lead ps) rows) =
    (case find foreign (concat (map (\<lambda>(lead, ps). map fst ps) rows)) of Some n \<Rightarrow> n | None \<Rightarrow> '''')"
  using assms
proof (induction rows)
  case (Cons row rows)
  obtain lead ps where row: "row = (lead, ps)" by (cases row)
  have "foreign_name (ss_line lead ps) = find foreign (map fst ps)"
    using foreign_name_line [of lead ps] Cons.prems by (fastforce simp: row ss_row_ok_def)
  moreover have "find foreign (map fst ps) = None" if "blank (ss_line lead ps)"
    using that not_blank [of DQ "ss_line lead ps"]
    by (cases ps) (auto simp: ss_line_def split: prod.splits)
  ultimately show ?case
    using Cons by (auto simp: row find_append split: option.split)
qed simp

section \<open>Properties\<close>

text \<open>The port check reads every process of every socket line, in whatever order they come: the
  owner it reports is the first name that is not empty and not kube-apiserver, and it reports
  none exactly when there is no such name.\<close>

theorem foreign_owner_every_process:
  assumes "rows \<noteq> []" "\<forall>row\<in>set rows. ss_row_ok row"
  shows "foreign_owner (join [NL] (map (\<lambda>(lead, ps). ss_line lead ps) rows)) =
    (case find foreign (concat (map (\<lambda>(lead, ps). map fst ps) rows)) of Some n \<Rightarrow> n | None \<Rightarrow> '''')"
proof -
  have "\<forall>l\<in>set (map (\<lambda>(lead, ps). ss_line lead ps) rows). NL \<notin> set l"
    using assms(2) by (fastforce simp: ss_line_def ss_row_ok_def)
  then show ?thesis
    using assms foreign_owner_rows by (simp add: foreign_owner_def split_join)
qed

lemma foreign_owner_every_process_witness:
  "foreign_owner (join [NL] (map (\<lambda>(lead, ps). ss_line lead ps)
     [(''LISTEN users:('', [(''kube-apiserver'', '',pid=1),''), (''envoy'', '',pid=2))'')])])) = ''envoy''"
  by (subst foreign_owner_every_process) (auto simp: ss_row_ok_def foreign_def)

text \<open>C2. However nodes and clock behave, a server is restarted in a cutover only when, in this order
  and with nothing between: its configuration was read and needs the flags, no other process
  holds its port, its file was saved and the patched file was written, to that same host; and
  before all that the webhook's kubeconfig was seen on every node of the run.\<close>

theorem cutover_restart_guarded:
  assumes "oe_run env fuel opts [] = Some (r, h)" "\<not> roll_back opts"
    and "h = xs @ Ran hh Restart a # ys"
  shows "\<exists>pre body p out s. xs = pre @ [Fetched hh rke2_config_path (Inr body),
      Ran hh Port_check (Inr out), Ran hh Snapshot (Inr s), Put_file hh rke2_config_path p 384 (Inr ())] \<and>
    patch_config body = Inr (p, True) \<and> foreign_owner out = '''' \<and>
    (\<forall>n\<in>set (oe_nodes opts). kubeconfig_seen pre n)"
  using assms
proof (rule restart_in_cutover)
  fix pre zs ph
  assume d: "xs = pre @ zs" "\<forall>n\<in>set (oe_nodes opts). kubeconfig_seen pre n"
    "oe_path Cutover Idle zs (Written hh)"
  then show ?thesis
    using written_history [OF d(3)] kubeconfig_seen_mono by fastforce
qed

lemma cutover_restart_guarded_witness:
  "\<exists>pre body p out s. [Listed webhook_namespace (Inr [''webhook'']),
       Ran (example_host ''a'') Kubeconfig_check (Inr ''present''),
       Ran (example_host ''b'') Kubeconfig_check (Inr ''present''),
       Fetched (example_host ''a'') rke2_config_path (Inr []),
       Ran (example_host ''a'') Port_check (Inr []),
       Ran (example_host ''a'') Snapshot (Inr []),
       Put_file (example_host ''a'') rke2_config_path patched_empty 384 (Inr ())] =
      pre @ [Fetched (example_host ''a'') rke2_config_path (Inr body),
        Ran (example_host ''a'') Port_check (Inr out), Ran (example_host ''a'') Snapshot (Inr s),
        Put_file (example_host ''a'') rke2_config_path p 384 (Inr ())] \<and>
    patch_config body = Inr (p, True) \<and> foreign_owner out = '''' \<and>
    list_all (kubeconfig_seen pre) (oe_nodes (example_options False False))"
  unfolding list_all_iff
  by (rule cutover_restart_guarded [OF example_cutover]) (simp_all add: example_options_def)

text \<open>C17. One node at a time: after a node's restart nothing is done on any other host until the
  node's apiserver has answered its readiness probe with ok and its running process was seen to
  carry the webhook flag.\<close>

theorem cutover_one_node_at_a_time:
  assumes "oe_run env fuel opts [] = Some (r, h)" "\<not> roll_back opts"
    and "h = xs @ Ran hh Restart a # mid @ e # ys" "host_of e = Some h'" "h' \<noteq> hh"
  shows "is_ok a \<and> ready_seen hh mid \<and> flag_seen hh mid"
  using assms(1-3)
proof (rule restart_in_cutover)
  fix ph
  assume c: "case a of Inl e' \<Rightarrow> mid @ e # ys = [] | Inr out \<Rightarrow> oe_path Cutover (Restarted hh) (mid @ e # ys) ph"
  then obtain out where a: "a = Inr out" by (cases a) auto
  then have "oe_path Cutover (Restarted hh) ((mid @ [e]) @ ys) ph" using c by simp
  then obtain b where "oe_path Cutover (Restarted hh) (mid @ [e]) b"
    using oe_path_split by blast
  from other_host_after_restart [OF this assms(4,5)] show ?thesis by (simp add: a)
qed

lemma cutover_one_node_at_a_time_witness:
  "is_ok (Inr [] :: string + string) \<and>
   ready_seen (example_host ''a'') [Slept 5000000000,
       Ran (example_host ''a'') Ready_probe (Inr ''ok''),
       Ran (example_host ''a'') Flag_check (Inr webhook_flag)] \<and>
   flag_seen (example_host ''a'') [Slept 5000000000,
       Ran (example_host ''a'') Ready_probe (Inr ''ok''),
       Ran (example_host ''a'') Flag_check (Inr webhook_flag)]"
  by (rule cutover_one_node_at_a_time [OF example_cutover _ refl, where h' = "example_host ''b''"])
    (simp_all add: example_options_def example_host_def)

text \<open>A run that succeeds is honest in its report: every node's label is counted once, as wired or
  as already wired, no node is reported skipped, and a node whose file needed the flags was, but
  for a dry run, seen ready and with the flag in its running process.\<close>

theorem cutover_success_honest:
  assumes "oe_run env fuel opts [] = Some (Inr res, h)" "\<not> roll_back opts"
  shows "tally res = mset (map label_of (oe_nodes opts)) \<and> skipped res = [] \<and>
    (\<forall>n\<in>set (oe_nodes opts). node_settled (dry_run opts) h n)"
proof -
  let ?o = "with_defaults opts"
  have "wp (oe_run env fuel opts)
      (\<lambda>res h. tally res = mset (map label_of (oe_nodes opts)) \<and> skipped res = [] \<and>
        (\<forall>n\<in>set (oe_nodes opts). node_settled (dry_run opts) h n)) (\<lambda>_ _. True) []"
    using assms(2)
    by (auto simp: oe_run_def Let_def wp tally_empty intro!: wp_bound wp_conseq [OF cut_over_nodes_result])
  then show ?thesis using assms(1) by (simp add: wp_def)
qed

lemma cutover_success_honest_witness:
  "tally \<lparr>wired_nodes = [''a''], already_wired = [''b''], skipped = []\<rparr> =
      mset (map label_of (oe_nodes (example_options True False))) \<and>
   skipped \<lparr>wired_nodes = [''a''], already_wired = [''b''], skipped = []\<rparr> = [] \<and>
   list_all (node_settled True
     [Listed webhook_namespace (Inr [''webhook'']),
       Ran (example_host ''a'') Kubeconfig_check (Inr ''present''),
       Ran (example_host ''b'') Kubeconfig_check (Inr ''present''),
       Fetched (example_host ''a'') rke2_config_path (Inr []),
       Ran (example_host ''a'') Port_check (Inr []),
       Fetched (example_host ''b'') rke2_config_path (Inr patched_empty)]) (oe_nodes (example_options True False))"
  using cutover_success_honest [OF example_dry_run] by (simp add: example_options_def list_all_iff)

text \<open>A dry run, of the cutover or of the rollback, changes nothing: it writes no file, takes no
  snapshot, restores nothing and restarts nothing.\<close>

theorem cutover_dry_run_harmless:
  assumes "oe_run env fuel opts [] = Some (r, h)" "dry_run opts"
  shows "\<forall>e\<in>set h. \<not> mutates e"
proof (cases "roll_back opts")
  case True
  have "for_each (roll_back_node env fuel (with_defaults opts)) ns [] = Some (Inr (), [])" for ns
    by (induction ns) (simp_all add: roll_back_node_def assms(2) ret_def bind_def)
  then have "h = []"
    using assms(1) True
    by (auto simp: oe_run_def Let_def rollback_def bind_def wrap_err_def ret_def fail_def split: if_splits)
  then show ?thesis by simp
next
  case False
  then have "mode_of opts = Dry_run" using assms(2) by (simp add: mode_of_def)
  then show ?thesis
    using oe_run_cutover_trace [OF assms(1) False] dry_path preflight_harmless
    unfolding cutover_trace_def by fastforce
qed

lemma cutover_dry_run_harmless_witness:
  "list_all (\<lambda>e. \<not> mutates e) [Listed webhook_namespace (Inr [''webhook'']),
       Ran (example_host ''a'') Kubeconfig_check (Inr ''present''),
       Ran (example_host ''b'') Kubeconfig_check (Inr ''present''),
       Fetched (example_host ''a'') rke2_config_path (Inr []),
       Ran (example_host ''a'') Port_check (Inr []),
       Fetched (example_host ''b'') rke2_config_path (Inr patched_empty)]"
  unfolding list_all_iff
  by (rule cutover_dry_run_harmless [OF example_dry_run]) (simp add: example_options_def)

text \<open>C18. A rollback restarts a server only right after its snapshot was found and put back, and
  goes on to another host only after the restarted apiserver has answered ok.\<close>

theorem rollback_restores_first:
  assumes "oe_run env fuel opts [] = Some (r, h)" "roll_back opts"
    and "h = xs @ Ran hh Restart a # ys"
  shows "(\<exists>pre s t. xs = pre @ [Ran hh Snapshot_check (Inr s), Ran hh Restore (Inr t)]) \<and>
    (\<forall>mid e zs. ys = mid @ e # zs \<longrightarrow> host_of e \<notin> {None, Some hh} \<longrightarrow> ready_seen hh mid)"
proof -
  obtain ph where p: "oe_path Rollback Idle (xs @ Ran hh Restart a # ys) ph"
    using oe_run_rollback_trace [OF assms(1,2)] assms(3) by auto
  have "\<exists>pre s t. xs = pre @ [Ran hh Snapshot_check (Inr s), Ran hh Restore (Inr t)]"
    using conjunct1 [OF restart_path [OF p]] by (rule rollback_history)
  moreover have "ready_seen hh mid"
    if "ys = mid @ e # zs" "host_of e \<notin> {None, Some hh}" for mid e zs
  proof -
    have "oe_path Rollback (Restarted hh) ((mid @ [e]) @ zs) ph"
      using conjunct2 [OF restart_path [OF p]] that(1) by (cases a) auto
    then obtain b where "oe_path Rollback (Restarted hh) (mid @ [e]) b" using oe_path_split by blast
    then show ?thesis using rollback_ready_first that(2) by auto
  qed
  ultimately show ?thesis by blast
qed

lemma rollback_restores_first_witness:
  "(\<exists>pre s t. [Ran (example_host ''a'') Snapshot_check (Inr []), Ran (example_host ''a'') Restore (Inr [])] =
      pre @ [Ran (example_host ''a'') Snapshot_check (Inr s), Ran (example_host ''a'') Restore (Inr t)]) \<and>
   ready_seen (example_host ''a'') [Slept 5000000000, Ran (example_host ''a'') Ready_probe (Inr ''ok'')]"
proof -
  have "roll_back (example_options False True)" by (simp add: example_options_def)
  note p = rollback_restores_first [OF example_rollback this refl]
  have "host_of (Ran (example_host ''b'') Snapshot_check (Inr [])) \<notin> {None, Some (example_host ''a'')}"
    by (simp add: example_host_def)
  with conjunct2 [OF p] have "ready_seen (example_host ''a'')
      [Slept 5000000000, Ran (example_host ''a'') Ready_probe (Inr ''ok'')]" by blast
  with conjunct1 [OF p] show ?thesis ..
qed

text \<open>The run returns: with a clock that does not run back and timers that do not fire early, the
  fuel that covers the polls of one timeout is enough, whatever the nodes answer.\<close>

theorem cutover_returns:
  assumes "clock_sound env" "enough_fuel fuel opts"
  shows "\<exists>r h'. oe_run env fuel opts h = Some (r, h')"
proof -
  have "returns (oe_run env fuel opts) h"
    unfolding oe_run_def Let_def rollback_def roll_back_node_def preflight_def
    by (auto intro!: returns_seq returns_for_each cut_over_nodes_returns [OF assms]
        wait_ready_returns [OF assms] probe_nodes_returns split: sum.split)
  then show ?thesis by (auto simp: returns_def)
qed

lemma cutover_returns_witness:
  "\<exists>r h'. oe_run example_env 61 (example_options False False) [] = Some (r, h')"
  by (rule cutover_returns)
    (auto simp: clock_sound_def example_answers enough_fuel_def with_defaults_def example_options_def
      pause_nonneg pause_slept)

end
