(* ===== verification/Gpu_Node_Rule.thy ===== *)
theory Gpu_Node_Rule
  imports Atomic_File
begin

text \<open>
  \<open>src/cli/internal/bootstrap/gputransition/nodefeature.go\<close>: the rule file that assigns a GPU
  node its workload mode.  A rule is a block of lines from a \<open>- name:\<close> line to the next one; it
  is the rule of a node when it holds the node's value line.  Reading it checks that its three
  ownership labels agree; writing it rewrites its name and these labels and nothing else, and
  puts the file in place atomically.
\<close>

section \<open>The rule of a node\<close>

type_synonym mode = string

abbreviation pod_hami :: mode where "pod_hami \<equiv> ''pod-hami''"
abbreviation pod_hami_dra :: mode where "pod_hami_dra \<equiv> ''pod-hami-dra''"
abbreviation vm_passthrough :: mode where "vm_passthrough \<equiv> ''vm-passthrough''"

datatype rule_error =
    Rule_unreadable | Bad_node_name string | Rule_ambiguous string | Rule_absent string
  | Label_drift string | Mode_drift string mode mode | Labels_missing string | Rule_io io_fault

definition lower_digit :: "char \<Rightarrow> bool" where
  "lower_digit c \<longleftrightarrow> c \<in> set ''abcdefghijklmnopqrstuvwxyz0123456789''"

text \<open>\<open>^[a-z0-9](?:[-a-z0-9.]*[a-z0-9])?$\<close>.\<close>

definition node_name_ok :: "string \<Rightarrow> bool" where
  "node_name_ok s \<longleftrightarrow> s \<noteq> [] \<and> lower_digit (hd s) \<and> lower_digit (last s) \<and>
     (\<forall>c\<in>set s. lower_digit c \<or> c = CHR ''-'' \<or> c = CHR ''.'')"

definition rule_header :: string where "rule_header = ''    - name:''"
definition mode_prefix :: string where
  "mode_prefix = ''        kube-dc.com/gpu.workload-mode:''"
definition expected_prefix :: string where
  "expected_prefix = ''        kube-dc.com/gpu.expected-workload-mode:''"
definition config_prefix :: string where
  "config_prefix = ''        nvidia.com/gpu.workload.config:''"

definition is_header :: "string \<Rightarrow> bool" where
  "is_header l \<longleftrightarrow> has_prefix l rule_header"

definition value_line :: "string \<Rightarrow> string" where
  "value_line node = ''              value: ['' @ [DQ] @ node @ [DQ] @ '']''"

definition block_start :: "string list \<Rightarrow> nat \<Rightarrow> nat option" where
  "block_start ls i = map_option (\<lambda>k. i - k) (find_index is_header (rev (take (i + 1) ls)))"

definition block_stop :: "string list \<Rightarrow> nat \<Rightarrow> nat" where
  "block_stop ls i =
     (case find_index is_header (drop (i + 1) ls) of Some k \<Rightarrow> i + 1 + k | None \<Rightarrow> length ls)"

text \<open>The scan of the lines: the first value line needs a header above it, a second value line is
  refused.\<close>

definition hits :: "string list \<Rightarrow> string \<Rightarrow> nat list" where
  "hits ls v = filter (\<lambda>i. ls ! i = v) [0..<length ls]"

definition rule_span :: "string list \<Rightarrow> string \<Rightarrow> rule_error + nat \<times> nat" where
  "rule_span ls node =
     (case hits ls (value_line node) of
        [] \<Rightarrow> Inl (Rule_absent node)
      | i # js \<Rightarrow>
          (case block_start ls i of
             None \<Rightarrow> Inl (Rule_ambiguous node)
           | Some s \<Rightarrow>
               if js \<noteq> [] then Inl (Rule_ambiguous node) else Inr (s, block_stop ls i)))"

text \<open>The value of a label: of the last line that has it, empty without one.\<close>

definition label_value :: "string list \<Rightarrow> string \<Rightarrow> string" where
  "label_value block p =
     (case find (\<lambda>l. has_prefix l p) (rev block) of
        None \<Rightarrow> []
      | Some l \<Rightarrow> trim_space (trim_prefix l p))"

definition config_of :: "mode \<Rightarrow> string" where
  "config_of m = (if m = pod_hami then ''container'' else m)"

definition rule_block :: "string list \<Rightarrow> nat \<Rightarrow> nat \<Rightarrow> string list" where
  "rule_block ls s e = take (e - s) (drop s ls)"

definition block_mode :: "string \<Rightarrow> string list \<Rightarrow> rule_error + mode" where
  "block_mode node block =
     (let m = label_value block mode_prefix;
          expected = label_value block expected_prefix;
          config = label_value block config_prefix
      in if (m \<noteq> pod_hami \<and> m \<noteq> vm_passthrough) \<or> expected \<noteq> m \<or> config \<noteq> config_of m
         then Inl (Label_drift node) else Inr m)"

definition locate_node_rule :: "string \<Rightarrow> string \<Rightarrow> rule_error + nat \<times> nat \<times> mode" where
  "locate_node_rule body node =
     (if \<not> node_name_ok node then Inl (Bad_node_name node)
      else
        (let ls = split_on NL body in
         and_then (rule_span ls node) (\<lambda>(s, e).
         and_then (block_mode node (rule_block ls s e)) (\<lambda>m. Inr (s, e, m)))))"

definition read_node_mode :: "string \<Rightarrow> string \<Rightarrow> fs \<Rightarrow> rule_error + mode" where
  "read_node_mode path node d =
     (case d path of
        None \<Rightarrow> Inl Rule_unreadable
      | Some f \<Rightarrow> and_then (locate_node_rule (f_content f) node) (\<lambda>(s, e, m). Inr m))"

section \<open>Changing the mode\<close>

text \<open>The four replacements of \<open>WriteNodeMode\<close>: their prefixes exclude one another.\<close>

definition new_line :: "string \<Rightarrow> mode \<Rightarrow> string \<Rightarrow> string" where
  "new_line node to l =
     (if has_prefix l rule_header then rule_header @ '' '' @ node @ ''-'' @ to
      else if has_prefix l mode_prefix then mode_prefix @ '' '' @ to
      else if has_prefix l expected_prefix then expected_prefix @ '' '' @ to
      else if has_prefix l config_prefix then config_prefix @ '' '' @ config_of to
      else l)"

definition all_prefixes :: "string list" where
  "all_prefixes = [rule_header, mode_prefix, expected_prefix, config_prefix]"

definition change_rule :: "string \<Rightarrow> string \<Rightarrow> mode \<Rightarrow> mode \<Rightarrow> rule_error + string" where
  "change_rule body node from to =
     and_then (locate_node_rule body node) (\<lambda>(s, e, current).
       if current \<noteq> from then Inl (Mode_drift node current from)
       else
         (let ls = split_on NL body; block = rule_block ls s e in
          if \<exists>p\<in>set all_prefixes. \<forall>l\<in>set block. \<not> has_prefix l p then Inl (Labels_missing node)
          else Inr (join [NL] (take s ls @ map (new_line node to) block @ drop e ls))))"

section \<open>The atomic write\<close>

text \<open>\<open>filepath.Clean\<close>, \<open>Dir\<close> and \<open>Base\<close> of Go on a system with slashes.\<close>

fun clean_parts :: "bool \<Rightarrow> string list \<Rightarrow> string list \<Rightarrow> string list" where
  "clean_parts rooted out [] = rev out"
| "clean_parts rooted out (p # ps) =
     (if p = [] \<or> p = ''.'' then clean_parts rooted out ps
      else if p = ''..'' then
        (if out \<noteq> [] \<and> hd out \<noteq> ''..'' then clean_parts rooted (tl out) ps
         else if rooted then clean_parts rooted out ps
         else clean_parts rooted (p # out) ps)
      else clean_parts rooted (p # out) ps)"

definition clean_path :: "string \<Rightarrow> string" where
  "clean_path s =
     (let rooted = has_prefix s ''/'';
          out = (if rooted then ''/'' else []) @ join ''/'' (clean_parts rooted [] (split_on (CHR ''/'') s))
      in if out = [] then ''.'' else out)"

definition path_dir :: "string \<Rightarrow> string" where
  "path_dir s = clean_path (rev (dropWhile (\<lambda>c. c \<noteq> CHR ''/'') (rev s)))"

definition path_base :: "string \<Rightarrow> string" where
  "path_base s =
     (if s = [] then ''.''
      else
        (let t = rev (dropWhile (\<lambda>c. c = CHR ''/'') (rev s)) in
         if t = [] then ''/'' else last (split_on (CHR ''/'') t)))"

text \<open>The random part \<open>os.CreateTemp\<close> puts in place of the star is a number.\<close>

definition rnd_digits :: "io_plan \<Rightarrow> string" where
  "rnd_digits plan = filter (\<lambda>c. c \<in> set ''0123456789'') (io_rnd plan)"

definition rule_tmp :: "io_plan \<Rightarrow> string \<Rightarrow> string" where
  "rule_tmp plan path =
     (let dir = path_dir path in
      (if has_suffix dir ''/'' then dir else dir @ ''/'') @ path_base path @ ''.'' @ rnd_digits plan @ ''.tmp'')"

text \<open>The deferred \<open>os.Remove\<close> runs on every path; after the rename it finds nothing.\<close>

definition atomic_write :: "io_plan \<Rightarrow> string \<Rightarrow> string \<Rightarrow> fs \<Rightarrow> rule_error option \<times> fs" where
  "atomic_write plan path body d =
     (let tmp = rule_tmp plan path;
          put = (\<lambda>c m. d(tmp \<mapsto> \<lparr>f_content = c, f_mode = m\<rparr>))
      in case io_fault plan of
           CreateFails \<Rightarrow> (Some (Rule_io CreateFails), d)
         | WriteFails part \<Rightarrow> (Some (Rule_io (WriteFails part)), remove_tmp plan tmp (put part 384))
         | ChmodFails \<Rightarrow> (Some (Rule_io ChmodFails), remove_tmp plan tmp (put body 384))
         | CloseFails \<Rightarrow> (Some (Rule_io CloseFails), remove_tmp plan tmp (put body 420))
         | RenameFails \<Rightarrow> (Some (Rule_io RenameFails), remove_tmp plan tmp (put body 420))
         | NoFault \<Rightarrow> (None, remove_tmp plan tmp (rename_file tmp path (put body 420))))"

definition write_node_mode ::
    "io_plan \<Rightarrow> string \<Rightarrow> string \<Rightarrow> mode \<Rightarrow> mode \<Rightarrow> fs \<Rightarrow> rule_error option \<times> fs" where
  "write_node_mode plan path node from to d =
     (case d path of
        None \<Rightarrow> (Some Rule_unreadable, d)
      | Some f \<Rightarrow>
          (case change_rule (f_content f) node from to of
             Inl e \<Rightarrow> (Some e, d)
           | Inr body \<Rightarrow> atomic_write plan path body d))"

section \<open>The temporary file\<close>

lemma last_split_append: "c \<notin> set b \<Longrightarrow> last (split_on c (a @ c # b)) = b"
proof (induction a)
  case Nil
  then show ?case by (simp add: split_on_id)
next
  case (Cons x a)
  show ?case
  proof (cases "tl (split_on c (a @ c # b)) = []")
    case True
    then have "split_on c (a @ c # b) = [hd (split_on c (a @ c # b))]"
      using split_on_not_Nil by (metis list.collapse)
    then have "join [c] (split_on c (a @ c # b)) = hd (split_on c (a @ c # b))"
      by (metis join.simps(2))
    then have "c \<in> set (hd (split_on c (a @ c # b)))" by simp
    moreover have "c \<notin> set (hd (split_on c (a @ c # b)))"
      by (rule split_on_no_sep [OF hd_in_set]) simp
    ultimately show ?thesis by contradiction
  next
    case False
    then have "last (split_on c ((x # a) @ c # b)) = last (split_on c (a @ c # b))"
      by (auto simp: split_on_Cons last_tl split_on_not_Nil simp del: split_on.simps(2))
    with Cons show ?thesis by simp
  qed
qed

lemma path_base_no_slash:
  assumes "path \<noteq> []" "last path \<noteq> CHR ''/''"
  shows "path_base path = last (split_on (CHR ''/'') path)"
proof -
  have "dropWhile (\<lambda>c. c = CHR ''/'') (rev path) = rev path"
    using assms by (cases path rule: rev_cases) auto
  with assms show ?thesis by (simp add: path_base_def)
qed

lemma rule_tmp_not_target: "rule_tmp plan path \<noteq> path"
proof
  assume eq: "rule_tmp plan path = path"
  obtain a where tmp: "rule_tmp plan path = a @ CHR ''/'' # path_base path @ ''.'' @ rnd_digits plan @ ''.tmp''"
    by (cases "has_suffix (path_dir path) ''/''") (auto simp: rule_tmp_def Let_def suffix_def)
  then have "last (rule_tmp plan path) = CHR ''p''" "rule_tmp plan path \<noteq> []" by simp_all
  then have p: "path \<noteq> []" "last path \<noteq> CHR ''/''" unfolding eq by auto
  then have b: "path_base path = last (split_on (CHR ''/'') path)" by (rule path_base_no_slash)
  have "CHR ''/'' \<notin> set (path_base path)"
    unfolding b by (rule split_on_no_sep [OF last_in_set]) simp
  moreover have "CHR ''/'' \<notin> set (rnd_digits plan)" by (simp add: rnd_digits_def)
  ultimately have "last (split_on (CHR ''/'') (rule_tmp plan path)) = path_base path @ ''.'' @ rnd_digits plan @ ''.tmp''"
    unfolding tmp by (intro last_split_append) auto
  with b eq show False by auto
qed

interpretation rule_writer: atomic_writer atomic_write rule_tmp 420
proof
  show "rule_tmp plan path \<noteq> path" for plan path by (rule rule_tmp_not_target)
  then show "d' = d(path \<mapsto> \<lparr>f_content = c, f_mode = 420\<rparr>)"
    if "rule_tmp plan path \<notin> dom d" "atomic_write plan path c d = (None, d')" for plan path d c d'
    using that
    by (auto simp: atomic_write_def Let_def rename_file_def remove_tmp_def domIff fun_eq_iff
        split: io_fault.splits if_splits)
  show "d' p = d p"
    if "rule_tmp plan path \<notin> dom d" "atomic_write plan path c d = (Some e, d')"
      "p \<noteq> rule_tmp plan path" for plan path d c e d' p
    using that by (auto simp: atomic_write_def Let_def remove_tmp_other split: io_fault.splits)
qed

section \<open>What a change leaves alone\<close>

lemma prefixes_exclude:
  "p \<in> set all_prefixes \<Longrightarrow> q \<in> set all_prefixes \<Longrightarrow> has_prefix l p \<Longrightarrow> has_prefix l q \<Longrightarrow> p = q"
proof -
  assume a: "p \<in> set all_prefixes" "q \<in> set all_prefixes" "has_prefix l p" "has_prefix l q"
  have "\<forall>p\<in>set all_prefixes. \<forall>q\<in>set all_prefixes. prefix p q \<longrightarrow> p = q"
    by code_simp
  moreover have "prefix p q \<or> prefix q p" using a(3,4) by (rule prefix_same_cases)
  ultimately show ?thesis using a(1,2) by blast
qed

text \<open>What a prefix becomes.\<close>

definition new_value :: "string \<Rightarrow> mode \<Rightarrow> string \<Rightarrow> string" where
  "new_value node to p =
     (if p = rule_header then node @ ''-'' @ to
      else if p = config_prefix then config_of to else to)"

lemma all_prefixes_distinct: "distinct all_prefixes"
  by code_simp

lemma new_line_prefix:
  assumes "p \<in> set all_prefixes" "has_prefix l p"
  shows "new_line node to l = p @ '' '' @ new_value node to p"
proof -
  have "has_prefix l q \<longleftrightarrow> q = p" if "q \<in> set all_prefixes" for q
    using prefixes_exclude [OF assms(1) that assms(2)] assms(2) by auto
  then have "has_prefix l rule_header \<longleftrightarrow> rule_header = p" "has_prefix l mode_prefix \<longleftrightarrow> mode_prefix = p"
    "has_prefix l expected_prefix \<longleftrightarrow> expected_prefix = p" "has_prefix l config_prefix \<longleftrightarrow> config_prefix = p"
    by (simp_all add: all_prefixes_def)
  moreover have "p = rule_header \<or> p = mode_prefix \<or> p = expected_prefix \<or> p = config_prefix"
    using assms(1) by (auto simp: all_prefixes_def)
  ultimately show ?thesis
    using all_prefixes_distinct by (auto simp: new_line_def new_value_def all_prefixes_def)
qed

lemma new_line_other: "\<forall>p\<in>set all_prefixes. \<not> has_prefix l p \<Longrightarrow> new_line node to l = l"
  by (simp add: new_line_def all_prefixes_def)

lemma new_line_same_prefix:
  assumes "p \<in> set all_prefixes"
  shows "has_prefix (new_line node to l) p \<longleftrightarrow> has_prefix l p"
proof (cases "\<exists>q\<in>set all_prefixes. has_prefix l q")
  case True
  then obtain q where q: "q \<in> set all_prefixes" "has_prefix l q" by blast
  have "has_prefix (new_line node to l) q" by (simp add: new_line_prefix [OF q])
  with q assms prefixes_exclude show ?thesis by blast
next
  case False
  then show ?thesis using new_line_other [of l] by simp
qed

lemma value_line_no_prefix: "p \<in> set all_prefixes \<Longrightarrow> \<not> has_prefix (value_line n) p"
proof -
  assume "p \<in> set all_prefixes"
  moreover have "\<forall>p\<in>set all_prefixes. take 11 p \<noteq> ''           '' \<and> 11 \<le> length p" by code_simp
  moreover have "take 11 (value_line n) = ''           ''" by (simp add: value_line_def)
  ultimately show ?thesis by (auto simp: prefix_def)
qed

lemma new_line_value: "new_line node to l = value_line n \<longleftrightarrow> l = value_line n"
proof (cases "\<exists>q\<in>set all_prefixes. has_prefix l q")
  case True
  then obtain q where q: "q \<in> set all_prefixes" "has_prefix l q" by blast
  then have "has_prefix (new_line node to l) q" using new_line_same_prefix by blast
  with q value_line_no_prefix show ?thesis by metis
next
  case False
  then show ?thesis using new_line_other [of l] by simp
qed

text \<open>The span of a rule depends only on where the headers and the value lines are.\<close>

lemma rule_span_cong:
  assumes h: "map is_header ls' = map is_header ls"
    and v: "map (\<lambda>l. l = value_line n) ls' = map (\<lambda>l. l = value_line n) ls"
  shows "rule_span ls' n = rule_span ls n"
proof -
  have len: "length ls' = length ls" by (rule map_eq_imp_length_eq [OF h])
  have "ls' ! i = value_line n \<longleftrightarrow> ls ! i = value_line n" if "i < length ls" for i
  proof -
    have "map (\<lambda>l. l = value_line n) ls' ! i = map (\<lambda>l. l = value_line n) ls ! i" by (simp only: v)
    then show ?thesis using that len by simp
  qed
  then have "hits ls' (value_line n) = hits ls (value_line n)"
    unfolding hits_def len by (intro filter_cong) auto
  moreover have "block_start ls' = block_start ls"
  proof
    fix i
    have "map is_header (rev (take (i + 1) ls')) = map is_header (rev (take (i + 1) ls))"
      by (metis h rev_map take_map)
    then have "find_index is_header (rev (take (i + 1) ls')) = find_index is_header (rev (take (i + 1) ls))"
      by (rule find_index_cong)
    then show "block_start ls' i = block_start ls i" by (simp only: block_start_def)
  qed
  moreover have "block_stop ls' = block_stop ls"
  proof
    fix i
    have "map is_header (drop (i + 1) ls') = map is_header (drop (i + 1) ls)"
      by (metis h drop_map)
    then have "find_index is_header (drop (i + 1) ls') = find_index is_header (drop (i + 1) ls)"
      by (rule find_index_cong)
    then show "block_stop ls' i = block_stop ls i" by (simp only: block_stop_def len)
  qed
  ultimately show ?thesis by (simp only: rule_span_def)
qed

lemma rule_span_shape:
  assumes "rule_span ls node = Inr (s, e)"
  shows "s < e" "e \<le> length ls" "is_header (ls ! s)" "\<And>j. s < j \<Longrightarrow> j < e \<Longrightarrow> \<not> is_header (ls ! j)"
proof -
  obtain i js where i: "hits ls (value_line node) = i # js" "block_start ls i = Some s" "e = block_stop ls i"
    using assms by (auto simp: rule_span_def split: list.splits option.splits if_splits)
  have "i \<in> set (hits ls (value_line node))" using i(1) by simp
  then have il: "i < length ls" by (auto simp: hits_def)
  obtain k where k: "find_index is_header (rev (take (i + 1) ls)) = Some k" "s = i - k"
    using i(2) by (auto simp: block_start_def)
  note f = find_index_SomeD [OF k(1)]
  have kl: "k \<le> i" using f il by simp
  have nth: "rev (take (i + 1) ls) ! m = ls ! (i - m)" if "m \<le> i" for m
    using that il by (simp add: rev_nth)
  show "is_header (ls ! s)" using f kl nth k(2) by auto
  have stop: "i < e \<and> e \<le> length ls \<and> (\<forall>j. i < j \<longrightarrow> j < e \<longrightarrow> \<not> is_header (ls ! j))"
  proof (cases "find_index is_header (drop (i + 1) ls)")
    case None
    have "\<not> is_header (ls ! j)" if "i < j" "j < length ls" for j
    proof -
      have "ls ! j = drop (i + 1) ls ! (j - (i + 1))" "j - (i + 1) < length (drop (i + 1) ls)"
        using that by auto
      then show ?thesis using None by (metis find_index_None_iff nth_mem)
    qed
    with None il i(3) show ?thesis by (simp add: block_stop_def)
  next
    case (Some m)
    note g = find_index_SomeD [OF Some]
    have "\<not> is_header (ls ! j)" if "i < j" "j < i + 1 + m" for j
    proof -
      have "j - (i + 1) < m" using that by auto
      moreover have "drop (i + 1) ls ! (j - (i + 1)) = ls ! j" using that il by simp
      ultimately show ?thesis using g by metis
    qed
    with Some il g i(3) show ?thesis by (auto simp: block_stop_def)
  qed
  then show "s < e" "e \<le> length ls" using k(2) by auto
  show "\<not> is_header (ls ! j)" if "s < j" "j < e" for j
  proof (cases "i < j")
    case False
    then have "i - j < k" "ls ! j = rev (take (i + 1) ls) ! (i - j)"
      using that(1) k(2) kl nth [of "i - j"] by auto
    then show ?thesis using f by auto
  qed (use stop that in auto)
qed

text \<open>The lines after a change, and what they have in common with the lines before.\<close>

definition changed_lines :: "string list \<Rightarrow> nat \<Rightarrow> nat \<Rightarrow> string \<Rightarrow> mode \<Rightarrow> string list" where
  "changed_lines ls s e node to = take s ls @ map (new_line node to) (rule_block ls s e) @ drop e ls"

lemma lines_split:
  assumes "s \<le> e" "e \<le> length ls"
  shows "ls = take s ls @ rule_block ls s e @ drop e ls"
proof -
  have "drop s ls = take (e - s) (drop s ls) @ drop (e - s) (drop s ls)"
    by (rule append_take_drop_id [symmetric])
  also have "drop (e - s) (drop s ls) = drop e ls" using assms by simp
  finally have "take s ls @ drop s ls = take s ls @ rule_block ls s e @ drop e ls"
    by (simp only: rule_block_def)
  then show ?thesis by simp
qed

lemma changed_map:
  assumes "s \<le> e" "e \<le> length ls" "\<And>l. f (new_line node to l) = f l"
  shows "map f (changed_lines ls s e node to) = map f ls"
proof -
  have "map f ls = map f (take s ls) @ map f (rule_block ls s e) @ map f (drop e ls)"
    using lines_split [OF assms(1,2)] by (metis map_append)
  then show ?thesis by (simp add: changed_lines_def comp_def assms(3))
qed

lemma changed_span:
  assumes "s \<le> e" "e \<le> length ls"
  shows "rule_span (changed_lines ls s e node to) n = rule_span ls n"
proof (rule rule_span_cong)
  show "map is_header (changed_lines ls s e node to) = map is_header ls"
    by (rule changed_map [OF assms]) (simp add: is_header_def new_line_same_prefix all_prefixes_def)
  show "map (\<lambda>l. l = value_line n) (changed_lines ls s e node to) = map (\<lambda>l. l = value_line n) ls"
    by (rule changed_map [OF assms]) (simp add: new_line_value)
qed

lemma changed_length: "s \<le> e \<Longrightarrow> e \<le> length ls \<Longrightarrow> length (changed_lines ls s e node to) = length ls"
  by (simp add: changed_lines_def rule_block_def)

lemma changed_block:
  assumes "s \<le> e" "e \<le> length ls"
  shows "rule_block (changed_lines ls s e node to) s e = map (new_line node to) (rule_block ls s e)"
  using assms by (simp add: changed_lines_def rule_block_def)

text \<open>The block of another rule is no part of it.\<close>

lemma other_block:
  assumes a: "rule_span ls node = Inr (s, e)" and b: "rule_span ls n = Inr (s', e')" and "s' \<noteq> s"
  shows "rule_block (changed_lines ls s e node to) s' e' = rule_block ls s' e'"
proof -
  note A = rule_span_shape [OF a] and B = rule_span_shape [OF b]
  have "e \<le> s' \<or> e' \<le> s"
    using A(1,3,4) B(1,3,4) assms(3) by (metis le_less_linear less_le_trans linorder_neqE_nat not_le)
  then have out: "i < s \<or> e \<le> i" if "s' \<le> i" "i < e'" for i using that by auto
  have nth: "changed_lines ls s e node to ! i = ls ! i" if "i < length ls" "i < s \<or> e \<le> i" for i
  proof -
    have "length (rule_block ls s e) = e - s" using A(1,2) by (simp add: rule_block_def)
    then show ?thesis
      using that A(1,2) by (auto simp: changed_lines_def nth_append min_def)
  qed
  show ?thesis
  proof (rule nth_equalityI)
    show "length (rule_block (changed_lines ls s e node to) s' e') = length (rule_block ls s' e')"
      using A(1,2) by (simp add: rule_block_def changed_length)
  next
    fix i
    assume i: "i < length (rule_block (changed_lines ls s e node to) s' e')"
    then have "s' + i < e'" "s' + i < length ls"
      using A(1,2) by (auto simp: rule_block_def changed_length)
    then show "rule_block (changed_lines ls s e node to) s' e' ! i = rule_block ls s' e' ! i"
      using nth [of "s' + i"] out [of "s' + i"] A(1,2)
      by (simp add: rule_block_def changed_length)
  qed
qed

text \<open>The labels after a change.\<close>

lemma label_value_changed:
  assumes "p \<in> set all_prefixes" "\<exists>l\<in>set block. has_prefix l p" "trimmed (new_value node to p)"
  shows "label_value (map (new_line node to) block) p = new_value node to p"
proof -
  obtain l where l: "find (\<lambda>l. has_prefix l p) (rev block) = Some l" "has_prefix l p"
    using assms(2) by (cases "find (\<lambda>l. has_prefix l p) (rev block)") (auto simp: find_None_iff find_Some_iff)
  have "find (\<lambda>l. has_prefix l p) (map (new_line node to) xs) = map_option (new_line node to) (find (\<lambda>l. has_prefix l p) xs)" for xs
    by (induction xs) (auto simp: new_line_same_prefix [OF assms(1)])
  then have "find (\<lambda>l. has_prefix l p) (rev (map (new_line node to) block)) = Some (new_line node to l)"
    using l(1) by (simp add: rev_map)
  moreover have "trim_space ('' '' @ new_value node to p) = new_value node to p"
    using trim_space_spaces [of 1 "new_value node to p"] assms(3) by (simp add: trim_space_trimmed)
  ultimately show ?thesis
    by (simp add: label_value_def new_line_prefix [OF assms(1) l(2)] trim_prefix_append)
qed

definition modes :: "mode set" where
  "modes = {pod_hami, pod_hami_dra, vm_passthrough}"

lemma mode_facts:
  assumes "to \<in> modes"
  shows "trimmed to" "trimmed (config_of to)" "NL \<notin> set to" "NL \<notin> set (config_of to)"
proof -
  have "\<forall>m\<in>set [pod_hami, pod_hami_dra, vm_passthrough]. trimmed m \<and> trimmed (config_of m) \<and>
      NL \<notin> set m \<and> NL \<notin> set (config_of m)" by code_simp
  then show "trimmed to" "trimmed (config_of to)" "NL \<notin> set to" "NL \<notin> set (config_of to)"
    using assms by (auto simp: modes_def)
qed

lemma block_mode_changed:
  assumes "\<forall>p\<in>set all_prefixes. \<exists>l\<in>set block. has_prefix l p" "to \<in> modes"
  shows "block_mode node (map (new_line node to) block) =
    (if to = pod_hami_dra then Inl (Label_drift node) else Inr to)"
proof -
  have v: "new_value node to mode_prefix = to" "new_value node to expected_prefix = to"
    "new_value node to config_prefix = config_of to"
    using all_prefixes_distinct by (auto simp: new_value_def all_prefixes_def)
  have "label_value (map (new_line node to) block) p = new_value node to p"
    if "p \<in> {mode_prefix, expected_prefix, config_prefix}" for p
    by (rule label_value_changed) (use that assms mode_facts [OF assms(2)] v in \<open>auto simp: all_prefixes_def\<close>)
  then show ?thesis
    using assms(2) v by (auto simp: block_mode_def Let_def modes_def)
qed

text \<open>A successful change, opened.\<close>

lemma change_rule_Inr:
  assumes "change_rule body node from to = Inr body'"
  obtains s e where "locate_node_rule body node = Inr (s, e, from)"
    "rule_span (split_on NL body) node = Inr (s, e)" "node_name_ok node"
    "\<forall>p\<in>set all_prefixes. \<exists>l\<in>set (rule_block (split_on NL body) s e). has_prefix l p"
    "body' = join [NL] (changed_lines (split_on NL body) s e node to)"
proof -
  obtain s e m where l: "locate_node_rule body node = Inr (s, e, m)"
    and c: "m = from" "\<forall>p\<in>set all_prefixes. \<exists>l\<in>set (rule_block (split_on NL body) s e). has_prefix l p"
      "body' = join [NL] (changed_lines (split_on NL body) s e node to)"
    using assms
    by (auto simp: change_rule_def and_then_Inr_iff Let_def changed_lines_def split: if_splits)
  moreover have "rule_span (split_on NL body) node = Inr (s, e)" "node_name_ok node"
    using l by (auto simp: locate_node_rule_def and_then_Inr_iff Let_def split: if_splits)
  ultimately show thesis by (intro that) auto
qed

lemma changed_lines_split:
  assumes "node_name_ok node" "to \<in> modes" "s < e" "e \<le> length ls" "\<forall>l\<in>set ls. NL \<notin> set l"
  shows "split_on NL (join [NL] (changed_lines ls s e node to)) = changed_lines ls s e node to"
proof -
  have "\<not> lower_digit NL \<and> NL \<noteq> CHR ''-'' \<and> NL \<noteq> CHR ''.''" by code_simp
  then have n: "NL \<notin> set node" using assms(1) unfolding node_name_ok_def by blast
  have p: "\<forall>p\<in>set all_prefixes. NL \<notin> set p" by code_simp
  have "NL \<notin> set (new_line node to l)" if "NL \<notin> set l" for l
  proof (cases "\<exists>p\<in>set all_prefixes. has_prefix l p")
    case True
    then obtain q where q: "q \<in> set all_prefixes" "has_prefix l q" by blast
    then show ?thesis
      using n p mode_facts(3,4) [OF assms(2)] by (simp add: new_line_prefix [OF q] new_value_def)
  next
    case False
    then show ?thesis using that new_line_other [of l] by simp
  qed
  then have "\<forall>l\<in>set (changed_lines ls s e node to). NL \<notin> set l"
    using assms(5)
    by (auto simp: changed_lines_def rule_block_def dest!: in_set_takeD in_set_dropD)
  moreover have "changed_lines ls s e node to \<noteq> []"
    using assms(3,4) changed_length [of s e ls node to] by auto
  ultimately show ?thesis by (simp add: split_join)
qed

lemma split_on_lines: "\<forall>l\<in>set (split_on NL body). NL \<notin> set l"
  using split_on_no_sep by blast

lemma change_rule_locate:
  assumes "change_rule body node from to = Inr body'" "to \<in> modes"
  obtains s e where "locate_node_rule body node = Inr (s, e, from)"
    "locate_node_rule body' node =
      (if to = pod_hami_dra then Inl (Label_drift node) else Inr (s, e, to))"
    "\<And>n s' e' m. locate_node_rule body n = Inr (s', e', m) \<Longrightarrow> s' \<noteq> s \<Longrightarrow>
      locate_node_rule body' n = Inr (s', e', m)"
    "take s (split_on NL body') = take s (split_on NL body)"
    "drop e (split_on NL body') = drop e (split_on NL body)"
proof -
  let ?ls = "split_on NL body"
  obtain s e where c: "locate_node_rule body node = Inr (s, e, from)"
    "rule_span ?ls node = Inr (s, e)" "node_name_ok node"
    "\<forall>p\<in>set all_prefixes. \<exists>l\<in>set (rule_block ?ls s e). has_prefix l p"
    "body' = join [NL] (changed_lines ?ls s e node to)"
    using assms(1) by (rule change_rule_Inr)
  note sh = rule_span_shape [OF c(2)]
  have le: "s \<le> e" "e \<le> length ?ls" using sh by auto
  have ls': "split_on NL body' = changed_lines ?ls s e node to"
    unfolding c(5) by (rule changed_lines_split [OF c(3) assms(2) sh(1,2) split_on_lines])
  have "locate_node_rule body' node =
      (if to = pod_hami_dra then Inl (Label_drift node) else Inr (s, e, to))"
    using c(2,3) block_mode_changed [OF c(4) assms(2)]
    by (simp add: locate_node_rule_def ls' Let_def changed_span [OF le] changed_block [OF le])
  moreover have "locate_node_rule body' n = Inr (s', e', m)"
    if n: "locate_node_rule body n = Inr (s', e', m)" "s' \<noteq> s" for n s' e' m
  proof -
    have "node_name_ok n" "rule_span ?ls n = Inr (s', e')" "block_mode n (rule_block ?ls s' e') = Inr m"
      using n(1) by (auto simp: locate_node_rule_def and_then_Inr_iff Let_def split: if_splits)
    then show ?thesis
      using other_block [OF c(2) _ n(2)]
      by (simp add: locate_node_rule_def ls' Let_def changed_span [OF le])
  qed
  moreover have "take s (split_on NL body') = take s ?ls" "drop e (split_on NL body') = drop e ?ls"
    using le by (auto simp: ls' changed_lines_def rule_block_def)
  ultimately show thesis using c(1) by (intro that [of s e]) auto
qed

section \<open>Properties\<close>

definition rule_example :: "mode \<Rightarrow> string" where
  "rule_example m = join [NL]
     [''rules:'', rule_header @ '' a-'' @ m, mode_prefix @ '' '' @ m, expected_prefix @ '' '' @ m,
      config_prefix @ '' '' @ config_of m, value_line ''a'',
      rule_header @ '' b-'' @ m, mode_prefix @ '' '' @ m, expected_prefix @ '' '' @ m,
      config_prefix @ '' '' @ config_of m, value_line ''b'']"

lemma rule_example_change:
  "change_rule (rule_example pod_hami) ''a'' pod_hami vm_passthrough =
    Inr (join [NL]
     [''rules:'', rule_header @ '' a-'' @ vm_passthrough, mode_prefix @ '' '' @ vm_passthrough,
      expected_prefix @ '' '' @ vm_passthrough, config_prefix @ '' '' @ vm_passthrough, value_line ''a'',
      rule_header @ '' b-'' @ pod_hami, mode_prefix @ '' '' @ pod_hami, expected_prefix @ '' '' @ pod_hami,
      config_prefix @ '' '' @ config_of pod_hami, value_line ''b''])"
  "locate_node_rule (rule_example pod_hami) ''b'' = Inr (6, 11, pod_hami)"
  by code_simp+

definition rule_disk :: fs where
  "rule_disk = [''r.yaml'' \<mapsto> \<lparr>f_content = rule_example pod_hami, f_mode = 420\<rparr>]"

definition no_fault :: io_plan where
  "no_fault = \<lparr>io_fault = NoFault, io_rnd = ''7'', io_remove_ok = True\<rparr>"

lemma rule_disk_fresh: "rule_tmp no_fault ''r.yaml'' \<notin> dom rule_disk"
  using rule_tmp_not_target [of no_fault "''r.yaml''"] by (auto simp: rule_disk_def)

text \<open>A successful write, down to the bytes.\<close>

lemma write_node_mode_None:
  assumes "write_node_mode plan path node from to d = (None, d')" "rule_tmp plan path \<notin> dom d"
  obtains f body' where "d path = Some f" "change_rule (f_content f) node from to = Inr body'"
    "d' = d(path \<mapsto> \<lparr>f_content = body', f_mode = 420\<rparr>)"
proof -
  obtain f body' where f: "d path = Some f" "change_rule (f_content f) node from to = Inr body'"
    "atomic_write plan path body' d = (None, d')"
    using assms(1) by (auto simp: write_node_mode_def split: option.splits sum.splits)
  with rule_writer.write_ok [OF assms(2) f(3)] show thesis by (intro that)
qed

text \<open>A change of a node's mode that reports success is what the next read sees: the file said the
  old mode before and says the new one after, for the two modes a read accepts; and every other
  node whose rule is another block keeps its mode.\<close>

theorem gpu_rule_write_read:
  assumes "write_node_mode plan path node from to d = (None, d')" "rule_tmp plan path \<notin> dom d"
    and "to = pod_hami \<or> to = vm_passthrough"
  shows "read_node_mode path node d = Inr from \<and> read_node_mode path node d' = Inr to \<and>
    (\<forall>f n s e m s' e' m'. d path = Some f \<longrightarrow> locate_node_rule (f_content f) node = Inr (s, e, m) \<longrightarrow>
       locate_node_rule (f_content f) n = Inr (s', e', m') \<longrightarrow> s' \<noteq> s \<longrightarrow>
       read_node_mode path n d' = Inr m' \<and> read_node_mode path n d = Inr m')"
proof -
  have m: "to \<in> modes" "to \<noteq> pod_hami_dra" using assms(3) by (auto simp: modes_def)
  obtain f body' where f: "d path = Some f" "change_rule (f_content f) node from to = Inr body'"
    "d' = d(path \<mapsto> \<lparr>f_content = body', f_mode = 420\<rparr>)"
    using assms(1,2) by (rule write_node_mode_None)
  show ?thesis
    by (rule change_rule_locate [OF f(2) m(1)]) (use f(1,3) m(2) in \<open>auto simp: read_node_mode_def\<close>)
qed

lemma gpu_rule_write_read_witness:
  "read_node_mode ''r.yaml'' ''a'' (snd (write_node_mode no_fault ''r.yaml'' ''a'' pod_hami vm_passthrough rule_disk))
     = Inr vm_passthrough"
proof -
  obtain d' where w: "write_node_mode no_fault ''r.yaml'' ''a'' pod_hami vm_passthrough rule_disk = (None, d')"
    by (auto simp: write_node_mode_def rule_disk_def rule_example_change atomic_write_def no_fault_def Let_def)
  show ?thesis using gpu_rule_write_read [OF w rule_disk_fresh] w by simp
qed

text \<open>Changing a rule is conservative: the lines outside the node's block are untouched, and the
  block keeps its length and every line of it that is not the name or one of the three ownership
  labels; a change that fails, for any reason, leaves the rule file as it was.\<close>

theorem gpu_rule_change_frame:
  assumes "write_node_mode plan path node from to d = (r, d')" "rule_tmp plan path \<notin> dom d" "to \<in> modes"
  shows "(r \<noteq> None \<longrightarrow> d' path = d path) \<and>
    (r = None \<longrightarrow> (\<exists>f f' s e. d path = Some f \<and> d' path = Some f' \<and> s < e \<and>
       take s (split_on NL (f_content f')) = take s (split_on NL (f_content f)) \<and>
       drop e (split_on NL (f_content f')) = drop e (split_on NL (f_content f)) \<and>
       length (split_on NL (f_content f')) = length (split_on NL (f_content f)) \<and>
       (\<forall>i<length (split_on NL (f_content f)). (\<forall>p\<in>set all_prefixes. \<not> has_prefix (split_on NL (f_content f) ! i) p) \<longrightarrow>
          split_on NL (f_content f') ! i = split_on NL (f_content f) ! i)))"
proof (cases r)
  case (Some e)
  have "d' path = d path"
    using assms(1) rule_writer.write_err [OF assms(2), of _ _ d' path] rule_tmp_not_target [of plan path]
    unfolding Some write_node_mode_def by (fastforce split: option.splits sum.splits)
  with Some show ?thesis by simp
next
  case None
  with assms(1) have w: "write_node_mode plan path node from to d = (None, d')" by simp
  obtain f body' where f: "d path = Some f" "change_rule (f_content f) node from to = Inr body'"
    "d' = d(path \<mapsto> \<lparr>f_content = body', f_mode = 420\<rparr>)"
    using w assms(2) by (rule write_node_mode_None)
  let ?ls = "split_on NL (f_content f)"
  obtain s e where c: "rule_span ?ls node = Inr (s, e)" "node_name_ok node"
    "body' = join [NL] (changed_lines ?ls s e node to)"
    using change_rule_Inr [OF f(2)] by metis
  note sh = rule_span_shape [OF c(1)]
  have ls': "split_on NL body' = changed_lines ?ls s e node to"
    unfolding c(3) by (rule changed_lines_split [OF c(2) assms(3) sh(1,2) split_on_lines])
  have len: "length (changed_lines ?ls s e node to) = length ?ls"
    using sh by (simp add: changed_length)
  have "changed_lines ?ls s e node to ! i = ?ls ! i"
    if "i < length ?ls" "\<forall>p\<in>set all_prefixes. \<not> has_prefix (?ls ! i) p" for i
    using that sh(1,2) new_line_other [OF that(2)]
    by (auto simp: changed_lines_def rule_block_def nth_append min_def)
  moreover have "take s (changed_lines ?ls s e node to) = take s ?ls"
    "drop e (changed_lines ?ls s e node to) = drop e ?ls"
    using sh by (auto simp: changed_lines_def rule_block_def)
  moreover have "d' path = Some \<lparr>f_content = body', f_mode = 420\<rparr>" using f(3) by simp
  ultimately have "\<exists>f' s e. d' path = Some f' \<and> s < e \<and>
       take s (split_on NL (f_content f')) = take s ?ls \<and> drop e (split_on NL (f_content f')) = drop e ?ls \<and>
       length (split_on NL (f_content f')) = length ?ls \<and>
       (\<forall>i<length ?ls. (\<forall>p\<in>set all_prefixes. \<not> has_prefix (?ls ! i) p) \<longrightarrow>
          split_on NL (f_content f') ! i = ?ls ! i)"
    using sh(1) len ls' by (metis disk_file.select_convs(1))
  with None f(1) show ?thesis by blast
qed

lemma gpu_rule_change_frame_witness:
  "snd (write_node_mode (no_fault\<lparr>io_fault := RenameFails\<rparr>) ''r.yaml'' ''a'' pod_hami vm_passthrough rule_disk) ''r.yaml''
     = rule_disk ''r.yaml''"
proof -
  let ?p = "no_fault\<lparr>io_fault := RenameFails\<rparr>"
  have fresh: "rule_tmp ?p ''r.yaml'' \<notin> dom rule_disk"
    using rule_tmp_not_target [of ?p "''r.yaml''"] by (auto simp: rule_disk_def)
  obtain r d' where w: "write_node_mode ?p ''r.yaml'' ''a'' pod_hami vm_passthrough rule_disk = (r, d')" "r \<noteq> None"
    by (auto simp: write_node_mode_def rule_disk_def rule_example_change atomic_write_def no_fault_def Let_def)
  have "vm_passthrough \<in> modes" by (simp add: modes_def)
  from gpu_rule_change_frame [OF w(1) fresh this] w show ?thesis by simp
qed

text \<open>The shared-GPU mode pod-hami-dra, which a change accepts as its target, is a dead end: after a
  successful change to it the node's rule reads as ownership label drift, so the mode cannot be
  read and every further change of the node is refused.\<close>

theorem gpu_rule_dra_dead_end:
  assumes "write_node_mode plan path node from pod_hami_dra d = (None, d')" "rule_tmp plan path \<notin> dom d"
  shows "read_node_mode path node d' = Inl (Label_drift node) \<and>
    write_node_mode plan' path node from' to' d' = (Some (Label_drift node), d')"
proof -
  have m: "pod_hami_dra \<in> modes" by (simp add: modes_def)
  obtain f body' where f: "d path = Some f" "change_rule (f_content f) node from pod_hami_dra = Inr body'"
    "d' = d(path \<mapsto> \<lparr>f_content = body', f_mode = 420\<rparr>)"
    using assms by (rule write_node_mode_None)
  have l: "locate_node_rule body' node = Inl (Label_drift node)"
    by (rule change_rule_locate [OF f(2) m]) simp
  then have "change_rule body' node from' to' = Inl (Label_drift node)" by (simp add: change_rule_def)
  with f(3) l show ?thesis by (simp add: read_node_mode_def write_node_mode_def)
qed

lemma gpu_rule_dra_dead_end_witness:
  "read_node_mode ''r.yaml'' ''a'' (snd (write_node_mode no_fault ''r.yaml'' ''a'' pod_hami pod_hami_dra rule_disk))
     = Inl (Label_drift ''a'')"
proof -
  have "is_ok (change_rule (rule_example pod_hami) ''a'' pod_hami pod_hami_dra)" by code_simp
  then obtain b where b: "change_rule (rule_example pod_hami) ''a'' pod_hami pod_hami_dra = Inr b"
    by (auto simp: is_ok_iff)
  obtain d' where w: "write_node_mode no_fault ''r.yaml'' ''a'' pod_hami pod_hami_dra rule_disk = (None, d')"
    by (auto simp: write_node_mode_def rule_disk_def b atomic_write_def no_fault_def Let_def)
  show ?thesis using gpu_rule_dra_dead_end [OF w rule_disk_fresh] w by simp
qed

end
