(* ===== verification/Gpu_Transition.thy ===== *)
theory Gpu_Transition
  imports Gpu_Node_Rule Effects "HOL-Library.List_Lexorder" "HOL-Library.Char_ord"
begin

text \<open>
  The change of a GPU node's workload mode: \<open>Run\<close> of
  \<open>src/cli/internal/bootstrap/gputransition/transition.go\<close> over the cluster client of
  \<open>ports/gpu.go\<close>, and the fleet transaction \<open>gpuTransitionFleet\<close> of
  \<open>cmd/kube-dc/bootstrap_gpu.go\<close> that commits the new mode through git.  \<open>Run\<close> knows the fleet
  only through its two operations: the contract it relies on is the locale \<open>fleet\<close>, its safety
  is proved there, and the locale is interpreted on the model of \<open>gpuTransitionFleet\<close>.
\<close>

section \<open>The state of a node\<close>

record plugin_owner =
  po_namespace :: string
  po_kind :: string
  po_name :: string

record gpu_holder =
  gh_namespace :: string
  gh_kind :: string
  gh_name :: string
  gh_resources :: "string list"

record node_state =
  ns_labels :: "string \<rightharpoonup> string"
  ns_owners :: "plugin_owner list"
  ns_holders :: "gpu_holder list"
  ns_ready :: bool
  ns_unschedulable :: bool

definition active_mode_label :: string where
  "active_mode_label = ''kube-dc.com/gpu.workload-mode''"
definition expected_mode_label :: string where
  "expected_mode_label = ''kube-dc.com/gpu.expected-workload-mode''"

definition state_label :: "node_state \<Rightarrow> string \<Rightarrow> string" where
  "state_label st k = (case ns_labels st k of None \<Rightarrow> [] | Some v \<Rightarrow> v)"

definition active_mode :: "node_state \<Rightarrow> mode" where
  "active_mode st = state_label st active_mode_label"
definition expected_mode :: "node_state \<Rightarrow> mode" where
  "expected_mode st = state_label st expected_mode_label"

text \<open>The names of the plugin owners the engine recognises.\<close>

definition recognized_owners :: "plugin_owner list \<Rightarrow> string list" where
  "recognized_owners os = map po_name (filter (\<lambda>o'. po_kind o' = ''DaemonSet'' \<and>
     (po_namespace o' = ''gpu-operator'' \<or> po_namespace o' = ''hami-system'')) os)"

definition target_ready :: "node_state \<Rightarrow> mode \<Rightarrow> bool" where
  "target_ready st target \<longleftrightarrow>
     (if \<not> ns_ready st \<or> \<not> ns_unschedulable st \<or> ns_holders st \<noteq> [] \<or>
         active_mode st \<noteq> target \<or> expected_mode st \<noteq> target then False
      else
        (let owns = (\<lambda>n. n \<in> set (recognized_owners (ns_owners st))) in
         if owns ''nvidia-device-plugin-daemonset'' then False
         else if target = pod_hami then
           owns ''hami-device-plugin'' \<and> \<not> owns ''hami-dra-driver-kubelet-plugin'' \<and>
           \<not> owns ''nvidia-sandbox-device-plugin-daemonset''
         else if target = pod_hami_dra then
           owns ''hami-dra-driver-kubelet-plugin'' \<and> \<not> owns ''hami-device-plugin'' \<and>
           \<not> owns ''nvidia-sandbox-device-plugin-daemonset''
         else if target = vm_passthrough then
           owns ''nvidia-sandbox-device-plugin-daemonset'' \<and> \<not> owns ''hami-device-plugin'' \<and>
           \<not> owns ''hami-dra-driver-kubelet-plugin''
         else False))"

definition format_holders :: "gpu_holder list \<Rightarrow> string" where
  "format_holders hs = join ''; '' (sort (map (\<lambda>g. gh_namespace g @ ''/'' @ gh_kind g @ ''/'' @ gh_name g @
     ''['' @ join '','' (gh_resources g) @ '']'') hs))"

definition format_owners :: "plugin_owner list \<Rightarrow> string" where
  "format_owners os = join '','' (sort (map (\<lambda>o'. po_namespace o' @ ''/'' @ po_kind o' @ ''/'' @ po_name o') os))"

definition transitional_mode :: "mode \<Rightarrow> mode \<Rightarrow> mode \<Rightarrow> bool" where
  "transitional_mode v from to \<longleftrightarrow> v = from \<or> v = to"

section \<open>Calls and their answers\<close>

datatype fleet_error =
    Git_failed string string | Dirty_tree nat | Not_prepared | Fleet_changed
  | Rule_failed rule_error | Rolled_back string | Rollback_failed string string

datatype gt_event =
    Observed string "string + node_state"
  | Scheduled string bool "string + unit"
  | Waited int "string + unit"
  | Git_head string "string + string"
  | Git_diff string "string + string list"
  | Rule_read string "rule_error + string"
  | Rule_written string string "rule_error + unit"
  | Committed string string string "string + string"
  | Git_reset string string "string + unit"

record gt_env =
  on_observe :: "gt_event list \<Rightarrow> string \<Rightarrow> string + node_state"
  on_schedule :: "gt_event list \<Rightarrow> string \<Rightarrow> bool \<Rightarrow> string + unit"
  on_wait :: "gt_event list \<Rightarrow> int \<Rightarrow> string + unit"
  on_head :: "gt_event list \<Rightarrow> string \<Rightarrow> string + string"
  on_diff :: "gt_event list \<Rightarrow> string \<Rightarrow> string + string list"
  on_read :: "gt_event list \<Rightarrow> string \<Rightarrow> rule_error + string"
  on_write :: "gt_event list \<Rightarrow> string \<Rightarrow> string \<Rightarrow> rule_error + unit"
  on_commit :: "gt_event list \<Rightarrow> string \<Rightarrow> string \<Rightarrow> string \<Rightarrow> string + string"
  on_reset :: "gt_event list \<Rightarrow> string \<Rightarrow> string \<Rightarrow> string + unit"
  gt_now :: "gt_event list \<Rightarrow> int"

type_synonym ('e, 'a) gt_prog = "(gt_event, 'e, 'a) prog"

definition observe_node :: "gt_env \<Rightarrow> string \<Rightarrow> ('e, string + node_state) gt_prog" where
  "observe_node env n = ask (\<lambda>h. on_observe env h n) (Observed n)"
definition set_schedulable :: "gt_env \<Rightarrow> string \<Rightarrow> bool \<Rightarrow> ('e, string + unit) gt_prog" where
  "set_schedulable env n b = ask (\<lambda>h. on_schedule env h n b) (Scheduled n b)"
definition wait_for :: "gt_env \<Rightarrow> int \<Rightarrow> ('e, string + unit) gt_prog" where
  "wait_for env d = ask (\<lambda>h. on_wait env h d) (Waited d)"
definition git_head :: "gt_env \<Rightarrow> string \<Rightarrow> ('e, string + string) gt_prog" where
  "git_head env repo = ask (\<lambda>h. on_head env h repo) (Git_head repo)"
definition git_diff :: "gt_env \<Rightarrow> string \<Rightarrow> ('e, string + string list) gt_prog" where
  "git_diff env repo = ask (\<lambda>h. on_diff env h repo) (Git_diff repo)"
definition rule_read :: "gt_env \<Rightarrow> string \<Rightarrow> ('e, rule_error + string) gt_prog" where
  "rule_read env path = ask (\<lambda>h. on_read env h path) (Rule_read path)"
definition rule_write :: "gt_env \<Rightarrow> string \<Rightarrow> string \<Rightarrow> ('e, rule_error + unit) gt_prog" where
  "rule_write env path body = ask (\<lambda>h. on_write env h path body) (Rule_written path body)"
definition git_commit :: "gt_env \<Rightarrow> string \<Rightarrow> string \<Rightarrow> string \<Rightarrow> ('e, string + string) gt_prog" where
  "git_commit env repo msg token = ask (\<lambda>h. on_commit env h repo msg token) (Committed repo msg token)"
definition git_reset :: "gt_env \<Rightarrow> string \<Rightarrow> string \<Rightarrow> ('e, string + unit) gt_prog" where
  "git_reset env repo sha = ask (\<lambda>h. on_reset env h repo sha) (Git_reset repo sha)"

lemmas gt_calls = observe_node_def set_schedulable_def wait_for_def git_head_def git_diff_def
  rule_read_def rule_write_def git_commit_def git_reset_def

section \<open>The fleet transaction\<close>

record gpu_fleet =
  repo_root :: string
  rule_path :: string
  fleet_token :: string
  pre_sha :: string

definition fleet_read_mode :: "gt_env \<Rightarrow> gpu_fleet \<Rightarrow> string \<Rightarrow> (fleet_error, mode) gt_prog" where
  "fleet_read_mode env f node =
     bind (rule_read env (rule_path f)) (\<lambda>r.
     bind (check_err Rule_failed r) (\<lambda>body.
     bind (check_err Rule_failed (locate_node_rule body node)) (\<lambda>(s, e, m). ret m)))"

definition fleet_write_mode ::
    "gt_env \<Rightarrow> gpu_fleet \<Rightarrow> string \<Rightarrow> mode \<Rightarrow> mode \<Rightarrow> (fleet_error, unit) gt_prog" where
  "fleet_write_mode env f node from to =
     bind (rule_read env (rule_path f)) (\<lambda>r.
     bind (check_err Rule_failed r) (\<lambda>body.
     bind (check_err Rule_failed (change_rule body node from to)) (\<lambda>body'.
     bind (rule_write env (rule_path f) body') (\<lambda>r. check_err Rule_failed r))))"

definition fleet_prepare :: "gt_env \<Rightarrow> gpu_fleet \<Rightarrow> string \<Rightarrow> (fleet_error, gpu_fleet \<times> mode) gt_prog" where
  "fleet_prepare env f node =
     bind (git_head env (repo_root f)) (\<lambda>r.
     bind (check_err (Git_failed ''read fleet HEAD'') r) (\<lambda>sha.
     bind (git_diff env (repo_root f)) (\<lambda>r.
     bind (check_err (Git_failed ''check fleet working tree'') r) (\<lambda>files.
     bind (guard (Dirty_tree (length files)) (files = [])) (\<lambda>_.
     bind (fleet_read_mode env f node) (\<lambda>m. ret (f\<lparr>pre_sha := sha\<rparr>, m)))))))"

definition commit_message :: "string \<Rightarrow> mode \<Rightarrow> string" where
  "commit_message node to = ''feat(gpu): transition '' @ node @ '' to '' @ to"

definition fleet_apply ::
    "gt_env \<Rightarrow> gpu_fleet \<Rightarrow> string \<Rightarrow> mode \<Rightarrow> mode \<Rightarrow> (fleet_error, string) gt_prog" where
  "fleet_apply env f node from to =
     bind (guard Not_prepared (pre_sha f \<noteq> [])) (\<lambda>_.
     bind (git_head env (repo_root f)) (\<lambda>r.
     bind (check_err (Git_failed ''recheck fleet HEAD'') r) (\<lambda>head.
     bind (git_diff env (repo_root f)) (\<lambda>r.
     bind (check_err (Git_failed ''recheck fleet working tree'') r) (\<lambda>files.
     bind (guard Fleet_changed (\<not> (head \<noteq> pre_sha f \<or> files \<noteq> []))) (\<lambda>_.
     bind (fleet_write_mode env f node from to) (\<lambda>_.
     bind (git_commit env (repo_root f) (commit_message node to) (fleet_token f)) (\<lambda>r.
     case r of
       Inr sha \<Rightarrow> ret sha
     | Inl e \<Rightarrow>
         bind (git_reset env (repo_root f) (pre_sha f)) (\<lambda>r.
         case r of Inl e' \<Rightarrow> fail (Rollback_failed e e') | Inr _ \<Rightarrow> fail (Rolled_back e))))))))))"

section \<open>The transition\<close>

record gt_options =
  gt_node :: string
  gt_from :: mode
  gt_to :: mode
  gt_dry_run :: bool
  resume_cordoned :: bool
  gt_timeout :: int
  gt_poll :: int

record gt_result =
  revision :: string
  resumed :: bool

datatype cordon_cause =
    Call_failed string | Still_schedulable | New_holders string | Fleet_failed fleet_error
  | Timed_out mode mode string bool

datatype gt_error =
    Bad_options | Observe_failed string | Prepare_failed fleet_error
  | Mode_drifted mode mode mode | Holders_present string | Already_cordoned
  | Cordon_failed string | Left_cordoned string cordon_cause

definition validate_options :: "gt_options \<Rightarrow> (gt_error, unit) gt_prog" where
  "validate_options opts =
     bind (guard Bad_options (\<not> blank (gt_node opts))) (\<lambda>_.
     guard Bad_options (gt_from opts \<in> set [pod_hami, pod_hami_dra, vm_passthrough] \<and>
       gt_to opts \<in> set [pod_hami, pod_hami_dra, vm_passthrough] \<and> gt_from opts \<noteq> gt_to opts))"

definition is_resumed :: "gt_options \<Rightarrow> node_state \<Rightarrow> mode \<Rightarrow> bool" where
  "is_resumed opts st fleet \<longleftrightarrow>
     (let active = active_mode st; expected = expected_mode st in
      fleet = gt_to opts \<and>
      ((active = gt_to opts \<and> expected = gt_to opts) \<or>
       (ns_unschedulable st \<and> resume_cordoned opts \<and>
        transitional_mode active (gt_from opts) (gt_to opts) \<and>
        transitional_mode expected (gt_from opts) (gt_to opts))))"

text \<open>One observation of the wait: the target state, or why it is not there yet.\<close>

definition target_answer :: "gt_options \<Rightarrow> string + node_state \<Rightarrow> cordon_cause + node_state" where
  "target_answer opts r =
     (case r of
        Inl e \<Rightarrow> Inl (Call_failed e)
      | Inr st \<Rightarrow>
          if target_ready st (gt_to opts) then Inr st
          else Inl (Timed_out (active_mode st) (expected_mode st) (format_owners (ns_owners st)) (ns_ready st)))"

fun await_target :: "gt_env \<Rightarrow> gt_options \<Rightarrow> int \<Rightarrow> nat \<Rightarrow> (gt_error, node_state) gt_prog" where
  "await_target env opts deadline 0 = out_of_fuel"
| "await_target env opts deadline (Suc n) =
     bind (observe_node env (gt_node opts)) (\<lambda>r.
     case target_answer opts r of
       Inr st \<Rightarrow> ret st
     | Inl cause \<Rightarrow>
         bind (observe (gt_now env)) (\<lambda>t.
         if t > deadline then fail (Left_cordoned ''wait for target runtime'' cause)
         else
           bind (wait_for env (gt_poll opts)) (\<lambda>w.
           bind (check_err (\<lambda>e. Left_cordoned ''wait for target runtime'' (Call_failed e)) w) (\<lambda>_.
           await_target env opts deadline n))))"

text \<open>What follows the preview, last part first: wait for the target and uncordon; recheck the
  cordoned node and commit; cordon.\<close>

definition finish_transition ::
    "gt_env \<Rightarrow> nat \<Rightarrow> gt_options \<Rightarrow> bool \<Rightarrow> string \<Rightarrow> (gt_error, gt_result) gt_prog" where
  "finish_transition env fuel opts resuming rev_sha =
     bind (observe (gt_now env)) (\<lambda>t.
     bind (await_target env opts (t + gt_timeout opts) fuel) (\<lambda>st.
     bind (guard (Left_cordoned ''final zero-holder gate'' (New_holders (format_holders (ns_holders st))))
            (ns_holders st = [])) (\<lambda>_.
     bind (set_schedulable env (gt_node opts) True) (\<lambda>r.
     bind (check_err (\<lambda>e. Left_cordoned ''uncordon node'' (Call_failed e)) r) (\<lambda>_.
     ret \<lparr>revision = rev_sha, resumed = resuming\<rparr>)))))"

definition commit_mode ::
    "('f \<Rightarrow> string \<Rightarrow> mode \<Rightarrow> mode \<Rightarrow> (fleet_error, string) gt_prog) \<Rightarrow> 'f \<Rightarrow> gt_options \<Rightarrow> bool \<Rightarrow>
     (gt_error, string) gt_prog" where
  "commit_mode apply f opts resuming =
     (if resuming then ret []
      else wrap_err (\<lambda>e. Left_cordoned ''GitOps mode change'' (Fleet_failed e))
        (apply f (gt_node opts) (gt_from opts) (gt_to opts)))"

definition recheck_and_commit ::
    "gt_env \<Rightarrow> nat \<Rightarrow> ('f \<Rightarrow> string \<Rightarrow> mode \<Rightarrow> mode \<Rightarrow> (fleet_error, string) gt_prog) \<Rightarrow> 'f \<Rightarrow>
     gt_options \<Rightarrow> bool \<Rightarrow> (gt_error, gt_result) gt_prog" where
  "recheck_and_commit env fuel apply f opts resuming =
     bind (observe_node env (gt_node opts)) (\<lambda>r.
     bind (check_err (\<lambda>e. Left_cordoned ''post-cordon observation'' (Call_failed e)) r) (\<lambda>st.
     bind (guard (Left_cordoned ''post-cordon verification'' Still_schedulable) (ns_unschedulable st)) (\<lambda>_.
     bind (guard (Left_cordoned ''post-cordon zero-holder gate'' (New_holders (format_holders (ns_holders st))))
            (ns_holders st = [])) (\<lambda>_.
     bind (commit_mode apply f opts resuming) (finish_transition env fuel opts resuming)))))"

definition carry_out ::
    "gt_env \<Rightarrow> nat \<Rightarrow> ('f \<Rightarrow> string \<Rightarrow> mode \<Rightarrow> mode \<Rightarrow> (fleet_error, string) gt_prog) \<Rightarrow> 'f \<Rightarrow>
     gt_options \<Rightarrow> node_state \<Rightarrow> bool \<Rightarrow> (gt_error, gt_result) gt_prog" where
  "carry_out env fuel apply f opts st resuming =
     bind (if ns_unschedulable st then ret ()
           else bind (set_schedulable env (gt_node opts) False) (check_err Cordon_failed)) (\<lambda>_.
     recheck_and_commit env fuel apply f opts resuming)"

definition gt_defaults :: "gt_options \<Rightarrow> gt_options" where
  "gt_defaults opts = opts\<lparr>
     gt_timeout := (if gt_timeout opts \<le> 0 then 900000000000 else gt_timeout opts),
     gt_poll := (if gt_poll opts \<le> 0 then 5000000000 else gt_poll opts)\<rparr>"

definition gt_run ::
    "gt_env \<Rightarrow> nat \<Rightarrow> ('f \<Rightarrow> string \<Rightarrow> (fleet_error, 'f \<times> mode) gt_prog) \<Rightarrow>
     ('f \<Rightarrow> string \<Rightarrow> mode \<Rightarrow> mode \<Rightarrow> (fleet_error, string) gt_prog) \<Rightarrow> 'f \<Rightarrow>
     gt_options \<Rightarrow> (gt_error, gt_result) gt_prog" where
  "gt_run env fuel prepare apply f opts0 =
     bind (validate_options opts0) (\<lambda>_.
     let opts = gt_defaults opts0 in
     bind (observe_node env (gt_node opts)) (\<lambda>r.
     bind (check_err Observe_failed r) (\<lambda>st.
     bind (wrap_err Prepare_failed (prepare f (gt_node opts))) (\<lambda>(f, fleet).
     let active = active_mode st; expected = expected_mode st; resuming = is_resumed opts st fleet in
     bind (guard (Mode_drifted active expected fleet)
            (\<not> (\<not> resuming \<and> (active \<noteq> gt_from opts \<or> expected \<noteq> gt_from opts \<or> fleet \<noteq> gt_from opts)))) (\<lambda>_.
     bind (guard (Holders_present (format_holders (ns_holders st))) (ns_holders st = [])) (\<lambda>_.
     bind (guard Already_cordoned (\<not> (ns_unschedulable st \<and> \<not> resume_cordoned opts))) (\<lambda>_.
     if active = gt_to opts \<and> expected = gt_to opts \<and> fleet = gt_to opts \<and> \<not> ns_unschedulable st \<and>
        target_ready (st\<lparr>ns_unschedulable := True\<rparr>) (gt_to opts)
     then ret \<lparr>revision = [], resumed = True\<rparr>
     else if gt_dry_run opts then ret \<lparr>revision = [], resumed = resuming\<rparr>
     else carry_out env fuel apply f opts st resuming)))))))"

section \<open>What is allowed when\<close>

text \<open>Calls of the fleet transaction, those that only read, and all calls that change something.\<close>

fun fleet_event :: "gt_event \<Rightarrow> bool" where
  "fleet_event (Observed n r) \<longleftrightarrow> False"
| "fleet_event (Scheduled n b r) \<longleftrightarrow> False"
| "fleet_event (Waited d r) \<longleftrightarrow> False"
| "fleet_event _ \<longleftrightarrow> True"

fun changes :: "gt_event \<Rightarrow> bool" where
  "changes (Scheduled n b r) \<longleftrightarrow> True"
| "changes (Rule_written p b r) \<longleftrightarrow> True"
| "changes (Committed repo m t r) \<longleftrightarrow> True"
| "changes (Git_reset repo s r) \<longleftrightarrow> True"
| "changes _ \<longleftrightarrow> False"

text \<open>The last observation, as long as no scheduling call has been made since.\<close>

definition last_obs :: "gt_event list \<Rightarrow> (string \<times> (string + node_state)) option" where
  "last_obs h = foldl (\<lambda>a e. case e of Observed n r \<Rightarrow> Some (n, r) | Scheduled n b r \<Rightarrow> None | _ \<Rightarrow> a) None h"

lemma last_obs_snoc [simp]:
  "last_obs (h @ [Observed n r]) = Some (n, r)" "last_obs (h @ [Scheduled n b r']) = None"
  "last_obs (h @ [Waited d r'']) = last_obs h"
  "fleet_event e \<Longrightarrow> last_obs (h @ [e]) = last_obs h"
  by (auto simp: last_obs_def split: gt_event.split)

lemma last_obs_fleet: "list_all fleet_event evs \<Longrightarrow> last_obs (h @ evs) = last_obs h"
  by (induction evs rule: rev_induct) (auto simp: last_obs_snoc(4) simp flip: append_assoc)

definition seen_empty :: "gt_options \<Rightarrow> gt_event list \<Rightarrow> bool" where
  "seen_empty opts h \<longleftrightarrow>
     (\<exists>st. last_obs h = Some (gt_node opts, Inr st) \<and> ns_unschedulable st \<and> ns_holders st = [])"

definition seen_ready :: "gt_options \<Rightarrow> gt_event list \<Rightarrow> bool" where
  "seen_ready opts h \<longleftrightarrow>
     (\<exists>st. last_obs h = Some (gt_node opts, Inr st) \<and> target_ready st (gt_to opts))"

definition seen_free :: "gt_options \<Rightarrow> gt_event list \<Rightarrow> bool" where
  "seen_free opts h \<longleftrightarrow>
     (\<exists>st. last_obs h = Some (gt_node opts, Inr st) \<and> \<not> ns_unschedulable st \<and> ns_holders st = []) \<and>
     (\<forall>e\<in>set h. \<not> changes e)"

fun gt_allowed :: "gt_options \<Rightarrow> gt_event list \<Rightarrow> gt_event \<Rightarrow> bool" where
  "gt_allowed opts h (Scheduled n b r) \<longleftrightarrow>
     n = gt_node opts \<and> \<not> gt_dry_run opts \<and> (if b then seen_ready opts h else seen_free opts h)"
| "gt_allowed opts h (Rule_written p c r) \<longleftrightarrow> seen_empty opts h \<and> \<not> gt_dry_run opts"
| "gt_allowed opts h (Committed repo m t r) \<longleftrightarrow> seen_empty opts h \<and> \<not> gt_dry_run opts"
| "gt_allowed opts h (Git_reset repo s r) \<longleftrightarrow> seen_empty opts h \<and> \<not> gt_dry_run opts"
| "gt_allowed opts h _ \<longleftrightarrow> True"

definition committed :: "string \<Rightarrow> gt_event list \<Rightarrow> bool" where
  "committed sha h \<longleftrightarrow> (\<exists>repo msg token. Committed repo msg token (Inr sha) \<in> set h)"

lemma committed_append [simp]: "committed sha (xs @ ys) \<longleftrightarrow> committed sha xs \<or> committed sha ys"
  by (auto simp: committed_def)

definition uncordoned :: "gt_event list \<Rightarrow> bool" where
  "uncordoned h \<longleftrightarrow> (\<exists>n. Scheduled n True (Inr ()) \<in> set h)"

lemma uncordoned_simps [simp]:
  "\<not> uncordoned []" "uncordoned (xs @ ys) \<longleftrightarrow> uncordoned xs \<or> uncordoned ys"
  "uncordoned [e] \<longleftrightarrow> (\<exists>n. e = Scheduled n True (Inr ()))"
  by (auto simp: uncordoned_def)

lemma fleet_not_uncordoned: "list_all fleet_event evs \<Longrightarrow> \<not> uncordoned evs"
  by (auto simp: uncordoned_def list_all_iff)

lemma await_target_grows:
  "wp (await_target env opts d n) (\<lambda>_ h'. \<exists>evs. h' = h @ evs) (\<lambda>_ _. True) h"
proof (induction n arbitrary: h)
  case (Suc n)
  have IH: "wp (await_target env opts d n) (\<lambda>_ h'. \<exists>evs. h' = h @ evs) (\<lambda>_ _. True) (h @ more)" for more
    by (rule wp_conseq [OF Suc.IH]) auto
  show ?case
    by (auto simp: wp gt_calls IH split: sum.split)
qed (simp add: wp)

section \<open>Returning\<close>

text \<open>The clock does not run back, and a wait that reports no error has taken its time.\<close>

definition gt_clock :: "gt_env \<Rightarrow> bool" where
  "gt_clock env \<longleftrightarrow> (\<forall>h e. gt_now env h \<le> gt_now env (h @ [e])) \<and>
     (\<forall>h d. gt_now env h + d \<le> gt_now env (h @ [Waited d (Inr ())]))"

definition gt_fuel :: "nat \<Rightarrow> gt_options \<Rightarrow> bool" where
  "gt_fuel fuel opts \<longleftrightarrow> 0 < fuel \<and>
     gt_timeout (gt_defaults opts) < (int fuel - 1) * gt_poll (gt_defaults opts)"

lemma await_target_returns:
  assumes "gt_clock env" "0 < gt_poll opts"
  shows "0 < n \<Longrightarrow> deadline < gt_now env h + (int n - 1) * gt_poll opts \<Longrightarrow>
    returns (await_target env opts deadline n) h"
proof (induction n arbitrary: h)
  case (Suc n)
  let ?p = "gt_poll opts"
  have IH: "returns (await_target env opts deadline n) (h @ [Observed k r, Waited ?p (Inr ())])"
    if "\<not> deadline < gt_now env (h @ [Observed k r])" for k r
  proof -
    have "gt_now env h \<le> gt_now env (h @ [Observed k r])"
      "gt_now env (h @ [Observed k r]) + ?p \<le> gt_now env ((h @ [Observed k r]) @ [Waited ?p (Inr ())])"
      using assms(1) unfolding gt_clock_def by blast+
    then have step: "gt_now env h + ?p \<le> gt_now env (h @ [Observed k r, Waited ?p (Inr ())])"
      and obs: "gt_now env h \<le> gt_now env (h @ [Observed k r])" by simp_all
    have "0 < n" using Suc.prems(2) that obs by (cases n) auto
    moreover have "deadline < gt_now env (h @ [Observed k r, Waited ?p (Inr ())]) + (int n - 1) * ?p"
      using Suc.prems(2) step by (simp add: algebra_simps)
    ultimately show ?thesis by (rule Suc.IH)
  qed
  show ?case
    by (auto simp: wp gt_calls intro!: returns_bind IH split: sum.split)
qed simp

lemma finish_returns:
  assumes "gt_clock env" "gt_fuel fuel opts0"
  shows "returns (finish_transition env fuel (gt_defaults opts0) resuming sha) h"
proof -
  have p: "0 < gt_poll (gt_defaults opts0)" by (simp add: gt_defaults_def)
  have "returns (await_target env (gt_defaults opts0) (gt_now env h + gt_timeout (gt_defaults opts0)) fuel) h"
    using assms(2) by (intro await_target_returns [OF assms(1) p]) (auto simp: gt_fuel_def)
  then show ?thesis
    unfolding finish_transition_def gt_calls
    by (intro returns_bind) (auto simp: wp_observe intro!: returns_bind wp_bound)
qed

section \<open>The contract of the fleet\<close>

text \<open>Preparing only reads, and a commit is the only thing an application reports success for;
  both do nothing but the fleet's own calls, and return.\<close>

locale fleet =
  fixes prepare :: "'f \<Rightarrow> string \<Rightarrow> (fleet_error, 'f \<times> mode) gt_prog"
    and commit :: "'f \<Rightarrow> string \<Rightarrow> mode \<Rightarrow> mode \<Rightarrow> (fleet_error, string) gt_prog"
  assumes prepare_reads: "wp (prepare f n)
      (\<lambda>_ h'. \<exists>evs. h' = h @ evs \<and> list_all fleet_event evs \<and> (\<forall>e\<in>set evs. \<not> changes e))
      (\<lambda>_ h'. \<exists>evs. h' = h @ evs \<and> list_all fleet_event evs \<and> (\<forall>e\<in>set evs. \<not> changes e)) h"
    and commit_commits: "wp (commit f n from to)
      (\<lambda>sha h'. \<exists>evs. h' = h @ evs \<and> list_all fleet_event evs \<and> committed sha evs)
      (\<lambda>_ h'. \<exists>evs. h' = h @ evs \<and> list_all fleet_event evs) h"
    and prepare_returns: "returns (prepare f n) h"
    and commit_returns: "returns (commit f n from to) h"
begin

text \<open>The state of a run between calls: everything so far was allowed, nothing was uncordoned.\<close>

definition sound :: "gt_options \<Rightarrow> gt_event list \<Rightarrow> bool" where
  "sound opts h \<longleftrightarrow> always (gt_allowed opts) h \<and> \<not> uncordoned h"

lemma sound_fleet:
  assumes "sound opts h" "list_all fleet_event evs"
    and "(\<forall>e\<in>set evs. \<not> changes e) \<or> (seen_empty opts h \<and> \<not> gt_dry_run opts)"
  shows "sound opts (h @ evs)"
proof -
  have "gt_allowed opts (h @ p) e" if "evs = p @ e # s" for p e s
  proof -
    have "list_all fleet_event p" "fleet_event e" using assms(2) that by auto
    then have "seen_empty opts h \<Longrightarrow> seen_empty opts (h @ p)"
      by (simp add: seen_empty_def last_obs_fleet)
    then show ?thesis using assms(3) that \<open>fleet_event e\<close> by (cases e) auto
  qed
  then have "always (gt_allowed opts) (h @ evs)"
    using assms(1) by (intro always_append) (auto simp: sound_def)
  then show ?thesis using assms(1,2) fleet_not_uncordoned by (simp add: sound_def)
qed

text \<open>The wait changes nothing and ends in a ready observation.\<close>

lemma await_target_sound:
  assumes "sound opts h"
  shows "wp (await_target env opts deadline n)
    (\<lambda>st h'. sound opts h' \<and> last_obs h' = Some (gt_node opts, Inr st) \<and> target_ready st (gt_to opts))
    (\<lambda>_. sound opts) h"
  using assms
proof (induction n arbitrary: h)
  case (Suc n)
  have obs: "sound opts (h @ [Observed k r])" "sound opts ((h @ [Observed k r]) @ [Waited d w])" for k r d w
    using Suc.prems by (simp_all add: sound_def del: append_assoc)
  have rd: "r = Inr st \<and> target_ready st (gt_to opts)" if "target_answer opts r = Inr st" for r st
    using that by (auto simp: target_answer_def split: sum.splits if_splits)
  show ?case
    by (auto simp: wp gt_calls obs simp del: append_assoc split: sum.split dest!: rd intro!: Suc.IH)
qed (simp add: wp)

text \<open>The part of the run after the commit.\<close>

text \<open>What a completed run leaves.\<close>

definition completed :: "gt_options \<Rightarrow> bool \<Rightarrow> gt_result \<Rightarrow> gt_event list \<Rightarrow> bool" where
  "completed opts resuming res h' \<longleftrightarrow>
     (\<exists>h1. h' = h1 @ [Scheduled (gt_node opts) True (Inr ())] \<and> sound opts h1 \<and> seen_ready opts h1 \<and>
       (\<not> resuming \<longrightarrow> committed (revision res) h1)) \<and>
     resumed res = resuming \<and> \<not> gt_dry_run opts"

lemma finish_sound:
  assumes "sound opts h" "\<not> gt_dry_run opts" "\<not> resuming \<longrightarrow> committed sha h"
  shows "wp (finish_transition env fuel opts resuming sha) (completed opts resuming) (\<lambda>_. sound opts) h"
proof -
  have grow: "wp (await_target env opts d fuel)
      (\<lambda>st h'. (sound opts h' \<and> last_obs h' = Some (gt_node opts, Inr st) \<and> target_ready st (gt_to opts)) \<and>
        (\<exists>evs. h' = h @ evs))
      (\<lambda>_. sound opts) h" for d
    by (rule wp_conj_grows [OF await_target_sound [OF assms(1)] await_target_grows])
  show ?thesis
    unfolding finish_transition_def wp_bind wp_observe
  proof (rule wp_conseq [OF grow], goal_cases)
    case (1 st h')
    then have s: "sound opts h'" "seen_ready opts h'" "\<not> resuming \<longrightarrow> committed sha h'"
      using assms(3) by (auto simp: seen_ready_def)
    have "sound opts (h' @ [Scheduled (gt_node opts) True (Inl e)])" for e
      using s assms(2) by (simp add: sound_def)
    with s show ?case
      using assms(2) by (auto simp: wp gt_calls completed_def split: sum.split)
  next
    case (2 e h')
    then show ?case .
  qed
qed

lemma commit_mode_sound:
  assumes "sound opts h" "seen_empty opts h" "\<not> gt_dry_run opts"
  shows "wp (commit_mode commit f opts resuming)
    (\<lambda>sha h'. sound opts h' \<and> (\<not> resuming \<longrightarrow> committed sha h')) (\<lambda>_. sound opts) h"
proof (cases resuming)
  case False
  show ?thesis
    unfolding commit_mode_def if_not_P [OF False]
    by (rule wp_wrap_errI, rule wp_conseq [OF commit_commits])
      (auto intro!: sound_fleet [OF assms(1)] simp: assms(2,3))
qed (simp add: commit_mode_def wp assms(1))

lemma recheck_and_commit_sound:
  assumes "sound opts h" "\<not> gt_dry_run opts"
  shows "wp (recheck_and_commit env fuel commit f opts resuming) (completed opts resuming) (\<lambda>_. sound opts) h"
proof -
  have fin: "wp (commit_mode commit f opts resuming)
      (\<lambda>sha. wp (finish_transition env fuel opts resuming sha) (completed opts resuming) (\<lambda>_. sound opts))
      (\<lambda>_. sound opts) h"
    if "sound opts h" "seen_empty opts h" for h
    by (rule wp_conseq [OF commit_mode_sound [OF that assms(2)]]) (auto simp: assms(2) intro!: finish_sound)
  show ?thesis
    using assms(1)
    by (auto simp: recheck_and_commit_def wp gt_calls split: sum.split intro!: fin)
      (auto simp: sound_def seen_empty_def)
qed

lemma carry_out_sound:
  assumes "sound opts h" "\<not> gt_dry_run opts"
    and "last_obs h = Some (gt_node opts, Inr st)" "ns_holders st = []" "\<forall>e\<in>set h. \<not> changes e"
  shows "wp (carry_out env fuel commit f opts st resuming) (completed opts resuming) (\<lambda>_. sound opts) h"
proof -
  have cordon: "wp (if ns_unschedulable st then ret ()
           else bind (set_schedulable env (gt_node opts) False) (check_err Cordon_failed))
      (\<lambda>_. sound opts) (\<lambda>_. sound opts) h"
    using assms by (auto simp: wp gt_calls sound_def seen_free_def split: sum.split)
  show ?thesis
    unfolding carry_out_def
    by (rule wp_bindI, rule wp_conseq [OF cordon]) (auto simp: assms(2) intro!: recheck_and_commit_sound)
qed

text \<open>The whole run: its events were all allowed; on an error nothing was uncordoned; on success it was
  completed, or it found nothing to do and changed nothing.\<close>

definition run_done :: "gt_options \<Rightarrow> gt_result \<Rightarrow> gt_event list \<Rightarrow> bool" where
  "run_done opts res h \<longleftrightarrow> completed opts (resumed res) res h \<or>
     (sound opts h \<and> (\<forall>e\<in>set h. \<not> changes e))"

lemma gt_run_sound:
  "wp (gt_run env fuel prepare commit f opts0)
    (run_done (gt_defaults opts0)) (\<lambda>_. sound (gt_defaults opts0)) []"
proof -
  let ?o = "gt_defaults opts0"
  let ?Q = "run_done ?o" and ?E = "\<lambda>_. sound ?o"
  have run: "wp (carry_out env fuel commit f ?o st r) ?Q ?E h"
    if "sound ?o h" "\<forall>e\<in>set h. \<not> changes e" "last_obs h = Some (gt_node ?o, Inr st)"
      "\<not> gt_dry_run ?o" "ns_holders st = []" for f st r h
    by (rule wp_conseq [OF carry_out_sound [OF that(1,4,3,5,2)]])
      (auto simp: run_done_def completed_def)
  have start: "sound ?o [Observed n r]" "sound ?o []" for n r
    by (simp_all add: sound_def)
  have prep: "wp (prepare f (gt_node ?o)) Q ?E [Observed (gt_node ?o) (Inr st)]"
    if "\<And>x h. sound ?o h \<Longrightarrow> \<forall>e\<in>set h. \<not> changes e \<Longrightarrow> last_obs h = Some (gt_node ?o, Inr st) \<Longrightarrow> Q x h"
    for f st Q
  proof (rule wp_conseq [OF prepare_reads])
    fix x :: "'f \<times> mode" and h'
    assume "\<exists>evs. h' = [Observed (gt_node ?o) (Inr st)] @ evs \<and> list_all fleet_event evs \<and> (\<forall>e\<in>set evs. \<not> changes e)"
    then obtain evs where e: "h' = [Observed (gt_node ?o) (Inr st)] @ evs" "list_all fleet_event evs"
        "\<forall>e\<in>set evs. \<not> changes e" by blast
    have "last_obs h' = Some (gt_node ?o, Inr st)"
      unfolding e(1) last_obs_fleet [OF e(2)] by (simp add: last_obs_def)
    then show "Q x h'"
      using sound_fleet [OF start(1) e(2)] e(1,3) by (intro that) auto
  next
    fix x h'
    assume "\<exists>evs. h' = [Observed (gt_node ?o) (Inr st)] @ evs \<and> list_all fleet_event evs \<and> (\<forall>e\<in>set evs. \<not> changes e)"
    then show "sound ?o h'" using sound_fleet [OF start(1)] by blast
  qed
  show ?thesis
    by (auto simp: gt_run_def validate_options_def wp gt_calls Let_def start run_done_def
        split: sum.split intro!: prep run)
qed

lemma gt_run_returns:
  assumes "gt_clock env" "gt_fuel fuel opts0"
  shows "returns (gt_run env fuel prepare commit f opts0) h"
  unfolding gt_run_def validate_options_def carry_out_def recheck_and_commit_def
    commit_mode_def Let_def gt_calls
  by (auto intro!: returns_seq prepare_returns commit_returns finish_returns [OF assms] split: prod.split)

end

section \<open>The fleet keeps the contract\<close>

lemma fleet_prepare_shape:
  "wp (fleet_prepare env f node)
    (\<lambda>(f', m) h'. \<exists>sha body s e. h' = h @ [Git_head (repo_root f) (Inr sha), Git_diff (repo_root f) (Inr []),
        Rule_read (rule_path f) (Inr body)] \<and> f' = f\<lparr>pre_sha := sha\<rparr> \<and>
        locate_node_rule body node = Inr (s, e, m))
    (\<lambda>_ h'. \<exists>evs. h' = h @ evs \<and> list_all fleet_event evs \<and> (\<forall>e\<in>set evs. \<not> changes e)) h"
  by (auto simp: fleet_prepare_def fleet_read_mode_def wp gt_calls split: sum.split)

text \<open>What an application has done, by its outcome.\<close>

definition fleet_written :: "gpu_fleet \<Rightarrow> string \<Rightarrow> mode \<Rightarrow> mode \<Rightarrow> gt_event list \<Rightarrow> bool" where
  "fleet_written f node from to evs \<longleftrightarrow>
     (\<exists>body body'. evs = [Git_head (repo_root f) (Inr (pre_sha f)), Git_diff (repo_root f) (Inr []),
        Rule_read (rule_path f) (Inr body), Rule_written (rule_path f) body' (Inr ())] \<and>
        change_rule body node from to = Inr body')"

definition fleet_commit :: "gpu_fleet \<Rightarrow> string \<Rightarrow> mode \<Rightarrow> string + string \<Rightarrow> gt_event" where
  "fleet_commit f node to r = Committed (repo_root f) (commit_message node to) (fleet_token f) r"

definition fleet_outcome :: "gpu_fleet \<Rightarrow> string \<Rightarrow> mode \<Rightarrow> mode \<Rightarrow> fleet_error + string \<Rightarrow> gt_event list \<Rightarrow> bool" where
  "fleet_outcome f node from to r evs \<longleftrightarrow>
     (case r of
        Inr sha \<Rightarrow> \<exists>w. fleet_written f node from to w \<and> evs = w @ [fleet_commit f node to (Inr sha)]
      | Inl (Rolled_back e) \<Rightarrow> \<exists>w. fleet_written f node from to w \<and>
          evs = w @ [fleet_commit f node to (Inl e), Git_reset (repo_root f) (pre_sha f) (Inr ())]
      | Inl (Rollback_failed e e') \<Rightarrow> \<exists>w. fleet_written f node from to w \<and>
          evs = w @ [fleet_commit f node to (Inl e), Git_reset (repo_root f) (pre_sha f) (Inl e')]
      | Inl _ \<Rightarrow> \<forall>e\<in>set evs. changes e \<longrightarrow> (\<exists>b x. e = Rule_written (rule_path f) b (Inl x)))"

lemma fleet_apply_outcome:
  "wp (fleet_apply env f node from to)
    (\<lambda>sha h'. \<exists>evs. h' = h @ evs \<and> list_all fleet_event evs \<and> fleet_outcome f node from to (Inr sha) evs)
    (\<lambda>e h'. \<exists>evs. h' = h @ evs \<and> list_all fleet_event evs \<and> fleet_outcome f node from to (Inl e) evs) h"
  by (auto simp: fleet_apply_def fleet_write_mode_def wp gt_calls fleet_outcome_def fleet_written_def
      fleet_commit_def split: sum.split)

lemma fleet_commit_committed: "committed sha [fleet_commit f node to (Inr sha)]"
  by (auto simp: committed_def fleet_commit_def)

interpretation gpu_fleet: fleet "fleet_prepare env" "fleet_apply env" for env
proof
  show "wp (fleet_prepare env f n)
      (\<lambda>_ h'. \<exists>evs. h' = h @ evs \<and> list_all fleet_event evs \<and> (\<forall>e\<in>set evs. \<not> changes e))
      (\<lambda>_ h'. \<exists>evs. h' = h @ evs \<and> list_all fleet_event evs \<and> (\<forall>e\<in>set evs. \<not> changes e)) h" for f n h
    by (rule wp_conseq [OF fleet_prepare_shape]) auto
  show "wp (fleet_apply env f n a b)
      (\<lambda>sha h'. \<exists>evs. h' = h @ evs \<and> list_all fleet_event evs \<and> committed sha evs)
      (\<lambda>_ h'. \<exists>evs. h' = h @ evs \<and> list_all fleet_event evs) h" for f n a b h
    by (rule wp_conseq [OF fleet_apply_outcome])
      (auto simp: fleet_outcome_def fleet_commit_committed)
  show "returns (fleet_prepare env f n) h" for f n h
    by (auto simp: fleet_prepare_def fleet_read_mode_def gt_calls intro!: returns_seq split: prod.split)
  show "returns (fleet_apply env f n a b) h" for f n a b h
    by (auto simp: fleet_apply_def fleet_write_mode_def gt_calls intro!: returns_seq split: sum.split)
qed

section \<open>An example transition\<close>

definition example_state :: "bool \<Rightarrow> mode \<Rightarrow> node_state" where
  "example_state cordoned m = \<lparr>
     ns_labels = [active_mode_label \<mapsto> m, expected_mode_label \<mapsto> m],
     ns_owners = [\<lparr>po_namespace = ''gpu-operator'', po_kind = ''DaemonSet'',
       po_name = (if m = pod_hami then ''hami-device-plugin'' else ''nvidia-sandbox-device-plugin-daemonset'')\<rparr>],
     ns_holders = [], ns_ready = True, ns_unschedulable = cordoned\<rparr>"

fun is_cordon :: "gt_event \<Rightarrow> bool" where
  "is_cordon (Scheduled n b r) \<longleftrightarrow> \<not> b"
| "is_cordon _ \<longleftrightarrow> False"

fun is_commit :: "gt_event \<Rightarrow> bool" where
  "is_commit (Committed repo m t r) \<longleftrightarrow> True"
| "is_commit _ \<longleftrightarrow> False"

fun wait_time :: "gt_event \<Rightarrow> int" where
  "wait_time (Waited d r) = max 0 d"
| "wait_time _ = 0"

definition gt_example_env :: gt_env where
  "gt_example_env = \<lparr>
     on_observe = (\<lambda>h n. Inr (example_state (list_ex is_cordon h) (if list_ex is_commit h then vm_passthrough else pod_hami))),
     on_schedule = (\<lambda>h n b. Inr ()), on_wait = (\<lambda>h d. Inr ()),
     on_head = (\<lambda>h repo. Inr ''abc''), on_diff = (\<lambda>h repo. Inr []),
     on_read = (\<lambda>h p. Inr (rule_example pod_hami)), on_write = (\<lambda>h p b. Inr ()),
     on_commit = (\<lambda>h repo m t. Inr ''def''), on_reset = (\<lambda>h repo s. Inr ()),
     gt_now = (\<lambda>h. sum_list (map wait_time h))\<rparr>"

definition gt_example_options :: "bool \<Rightarrow> gt_options" where
  "gt_example_options dry = \<lparr>gt_node = ''a'', gt_from = pod_hami, gt_to = vm_passthrough, gt_dry_run = dry,
     resume_cordoned = False, gt_timeout = 0, gt_poll = 0\<rparr>"

definition example_fleet :: gpu_fleet where
  "example_fleet = \<lparr>repo_root = ''/f'', rule_path = ''/f/r.yaml'', fleet_token = ''t'', pre_sha = []\<rparr>"

definition example_new_rule :: string where
  "example_new_rule = (case change_rule (rule_example pod_hami) ''a'' pod_hami vm_passthrough of Inr b \<Rightarrow> b | Inl _ \<Rightarrow> [])"

lemma gt_example_facts:
  "locate_node_rule (rule_example pod_hami) ''a'' = Inr (1, 6, pod_hami)"
  "change_rule (rule_example pod_hami) ''a'' pod_hami vm_passthrough = Inr example_new_rule"
  "target_ready (example_state True vm_passthrough) vm_passthrough"
  "\<not> target_ready (example_state True pod_hami) vm_passthrough"
  "active_mode (example_state c m) = m" "expected_mode (example_state c m) = m"
  "ns_holders (example_state c m) = []" "ns_unschedulable (example_state c m) = c"
  "\<not> blank ''a''"
proof -
  show "locate_node_rule (rule_example pod_hami) ''a'' = Inr (1, 6, pod_hami)" by code_simp
  show "change_rule (rule_example pod_hami) ''a'' pod_hami vm_passthrough = Inr example_new_rule"
    by (simp add: example_new_rule_def rule_example_change)
  show "\<not> blank ''a''" by code_simp
  have l: "active_mode_label \<noteq> expected_mode_label" by (simp add: active_mode_label_def expected_mode_label_def)
  then show "active_mode (example_state c m) = m" "expected_mode (example_state c m) = m"
    by (simp_all add: active_mode_def expected_mode_def state_label_def example_state_def)
  with l show "target_ready (example_state True vm_passthrough) vm_passthrough"
    "\<not> target_ready (example_state True pod_hami) vm_passthrough"
    by (simp_all add: target_ready_def recognized_owners_def example_state_def active_mode_def
        expected_mode_def state_label_def)
qed (simp_all add: example_state_def)

lemmas gt_example_simps = gt_run_def gt_defaults_def validate_options_def carry_out_def
  recheck_and_commit_def finish_transition_def commit_mode_def fleet_prepare_def fleet_apply_def
  fleet_read_mode_def fleet_write_mode_def is_resumed_def gt_calls check_err_def guard_def bind_def
  ret_def ask_def observe_def wrap_err_def gt_example_options_def example_fleet_def gt_example_facts
  target_answer_def gt_example_env_def Let_def numeral_2_eq_2 commit_message_def

lemma gt_example_run:
  "gt_run gt_example_env 2 (fleet_prepare gt_example_env) (fleet_apply gt_example_env) example_fleet
     (gt_example_options False) [] = Some (Inr \<lparr>revision = ''def'', resumed = False\<rparr>,
       ([Observed ''a'' (Inr (example_state False pod_hami)),
        Git_head ''/f'' (Inr ''abc''), Git_diff ''/f'' (Inr []),
        Rule_read ''/f/r.yaml'' (Inr (rule_example pod_hami)),
        Scheduled ''a'' False (Inr ()), Observed ''a'' (Inr (example_state True pod_hami)),
        Git_head ''/f'' (Inr ''abc''), Git_diff ''/f'' (Inr []),
        Rule_read ''/f/r.yaml'' (Inr (rule_example pod_hami))] @
        Rule_written ''/f/r.yaml'' example_new_rule (Inr ()) #
        [Committed ''/f'' (commit_message ''a'' vm_passthrough) ''t'' (Inr ''def''),
        Observed ''a'' (Inr (example_state True vm_passthrough))]) @
        Scheduled ''a'' True (Inr ()) # [])"
  by (simp add: gt_example_simps)

lemma gt_example_dry_run:
  "gt_run gt_example_env 2 (fleet_prepare gt_example_env) (fleet_apply gt_example_env) example_fleet
     (gt_example_options True) [] = Some (Inr \<lparr>revision = [], resumed = False\<rparr>,
       [Observed ''a'' (Inr (example_state False pod_hami)),
        Git_head ''/f'' (Inr ''abc''), Git_diff ''/f'' (Inr []),
        Rule_read ''/f/r.yaml'' (Inr (rule_example pod_hami))])"
  by (simp add: gt_example_simps)

section \<open>Properties\<close>

lemma gt_defaults_fields [simp]:
  "gt_node (gt_defaults opts) = gt_node opts" "gt_from (gt_defaults opts) = gt_from opts"
  "gt_to (gt_defaults opts) = gt_to opts" "gt_dry_run (gt_defaults opts) = gt_dry_run opts"
  by (simp_all add: gt_defaults_def)

lemma seen_defaults [simp]:
  "seen_empty (gt_defaults opts) h = seen_empty opts h" "seen_ready (gt_defaults opts) h = seen_ready opts h"
  "seen_free (gt_defaults opts) h = seen_free opts h"
  by (simp_all add: seen_empty_def seen_ready_def seen_free_def)

lemma gt_run_always:
  assumes "gt_run env fuel (fleet_prepare env) (fleet_apply env) f opts [] = Some (r, h)"
  shows "always (gt_allowed (gt_defaults opts)) h"
proof (cases r)
  case (Inl e)
  with wp_Inl [OF gpu_fleet.gt_run_sound] assms show ?thesis by (auto simp: gpu_fleet.sound_def)
next
  case (Inr res)
  with wp_Inr [OF gpu_fleet.gt_run_sound] assms have "gpu_fleet.run_done (gt_defaults opts) res h"
    by blast
  then show ?thesis
    by (auto simp: gpu_fleet.run_done_def gpu_fleet.completed_def gpu_fleet.sound_def)
qed

text \<open>C7. However the cluster, git and the disk answer, a transition changes nothing in a dry run, and
  otherwise every change has its gate before it, with no scheduling call between: the node is
  cordoned only after it was observed schedulable and without GPU holders and before any other
  change; the rule file is written, committed or reset only while the last observation shows the
  node cordoned and without holders; and the node is uncordoned only while the last observation
  shows it ready as the target, cordoned, without holders and with the target's plugin alone.\<close>

theorem gpu_transition_gated:
  assumes "gt_run env fuel (fleet_prepare env) (fleet_apply env) f opts [] = Some (r, h)"
    and "h = p @ e # s" "changes e"
  shows "\<not> gt_dry_run opts \<and>
    (case e of
       Scheduled n b a \<Rightarrow> n = gt_node opts \<and> (if b then seen_ready opts p else seen_free opts p)
     | _ \<Rightarrow> seen_empty opts p)"
  using alwaysD [of "gt_allowed (gt_defaults opts)" p e s] gt_run_always [OF assms(1)] assms(2,3)
  by (cases e) auto

lemma gpu_transition_gated_witness:
  "seen_empty (gt_example_options False)
      [Observed ''a'' (Inr (example_state False pod_hami)),
        Git_head ''/f'' (Inr ''abc''), Git_diff ''/f'' (Inr []),
        Rule_read ''/f/r.yaml'' (Inr (rule_example pod_hami)),
        Scheduled ''a'' False (Inr ()), Observed ''a'' (Inr (example_state True pod_hami)),
        Git_head ''/f'' (Inr ''abc''), Git_diff ''/f'' (Inr []),
        Rule_read ''/f/r.yaml'' (Inr (rule_example pod_hami))]"
  using gpu_transition_gated [OF gt_example_run, of "[Observed ''a'' (Inr (example_state False pod_hami)),
        Git_head ''/f'' (Inr ''abc''), Git_diff ''/f'' (Inr []),
        Rule_read ''/f/r.yaml'' (Inr (rule_example pod_hami)),
        Scheduled ''a'' False (Inr ()), Observed ''a'' (Inr (example_state True pod_hami)),
        Git_head ''/f'' (Inr ''abc''), Git_diff ''/f'' (Inr []),
        Rule_read ''/f/r.yaml'' (Inr (rule_example pod_hami))]" "Rule_written ''/f/r.yaml'' example_new_rule (Inr ())"]
  by simp

text \<open>A transition that fails leaves the node cordoned: no uncordoning has succeeded in it.  One that
  succeeds either changed nothing, because it was a preview or the node was already there, or
  its last call uncordoned the node, right after the node was seen ready as the target, and the
  revision it reports was committed unless it resumed an earlier one.\<close>

theorem gpu_failure_stays_cordoned:
  assumes "gt_run env fuel (fleet_prepare env) (fleet_apply env) f opts [] = Some (r, h)"
  shows "case r of
      Inl e \<Rightarrow> \<not> uncordoned h
    | Inr res \<Rightarrow> (\<forall>e\<in>set h. \<not> changes e) \<or>
        (\<exists>h1. h = h1 @ [Scheduled (gt_node opts) True (Inr ())] \<and> \<not> uncordoned h1 \<and> seen_ready opts h1 \<and>
          (resumed res \<or> committed (revision res) h1))"
proof (cases r)
  case (Inl e)
  with wp_Inl [OF gpu_fleet.gt_run_sound] assms show ?thesis by (auto simp: gpu_fleet.sound_def)
next
  case (Inr res)
  with wp_Inr [OF gpu_fleet.gt_run_sound] assms have "gpu_fleet.run_done (gt_defaults opts) res h"
    by blast
  then show ?thesis
    by (auto simp: Inr gpu_fleet.run_done_def gpu_fleet.completed_def gpu_fleet.sound_def)
qed

lemma gpu_failure_stays_cordoned_witness:
  "\<not> (Ex (\<lambda>h1. [Observed ''a'' (Inr (example_state False pod_hami)),
        Git_head ''/f'' (Inr ''abc''), Git_diff ''/f'' (Inr []),
        Rule_read ''/f/r.yaml'' (Inr (rule_example pod_hami))] = h1 @ [Scheduled ''a'' True (Inr ())]))"
  using gpu_failure_stays_cordoned [OF gt_example_dry_run] by (auto simp: gt_example_options_def)

text \<open>The fleet transaction touches git only as it was prepared: the rule is written only when HEAD is
  the one read before and the working tree is clean, and what is written is the file just read
  with the node's mode changed; success means this file was committed and pushed; a failed
  commit is followed by a reset to the prepared HEAD; any other failure has committed nothing
  and completed no write.\<close>

theorem gpu_fleet_transaction:
  assumes "fleet_prepare env f node h0 = Some (Inr (f', m), h1)"
    and "fleet_apply env f' node from to h = Some (r, h')"
  shows "(\<exists>sha body s e. h1 = h0 @ [Git_head (repo_root f) (Inr sha), Git_diff (repo_root f) (Inr []),
        Rule_read (rule_path f) (Inr body)] \<and> pre_sha f' = sha \<and> locate_node_rule body node = Inr (s, e, m)) \<and>
    (\<exists>evs. h' = h @ evs \<and> fleet_outcome f' node from to r evs)"
proof
  show "\<exists>sha body s e. h1 = h0 @ [Git_head (repo_root f) (Inr sha), Git_diff (repo_root f) (Inr []),
        Rule_read (rule_path f) (Inr body)] \<and> pre_sha f' = sha \<and> locate_node_rule body node = Inr (s, e, m)"
    using wp_Inr [OF fleet_prepare_shape assms(1)] by auto
  show "\<exists>evs. h' = h @ evs \<and> fleet_outcome f' node from to r evs"
    using wp_Inr [OF fleet_apply_outcome] wp_Inl [OF fleet_apply_outcome] assms(2)
    by (cases r) blast+
qed

lemma gpu_fleet_transaction_witness:
  "\<exists>evs. snd (the (fleet_apply gt_example_env (example_fleet\<lparr>pre_sha := ''abc''\<rparr>) ''a'' pod_hami vm_passthrough [])) = evs \<and>
     fleet_outcome (example_fleet\<lparr>pre_sha := ''abc''\<rparr>) ''a'' pod_hami vm_passthrough (Inr ''def'') evs"
proof -
  have p: "fleet_prepare gt_example_env example_fleet ''a'' [] =
      Some (Inr (example_fleet\<lparr>pre_sha := ''abc''\<rparr>, pod_hami),
        [Git_head ''/f'' (Inr ''abc''), Git_diff ''/f'' (Inr []), Rule_read ''/f/r.yaml'' (Inr (rule_example pod_hami))])"
    by (simp add: gt_example_simps)
  obtain h' where a: "fleet_apply gt_example_env (example_fleet\<lparr>pre_sha := ''abc''\<rparr>) ''a'' pod_hami vm_passthrough [] =
      Some (Inr ''def'', h')"
    by (simp add: gt_example_simps)
  show ?thesis using gpu_fleet_transaction [OF p a] a by simp
qed

text \<open>C28. A transition returns: with a clock that does not run back and waits that take their time, the
  fuel that covers the polls of the timeout is enough, whatever the cluster and git answer.\<close>

theorem gpu_transition_returns:
  assumes "gt_clock env" "gt_fuel fuel opts"
  shows "\<exists>r h'. gt_run env fuel (fleet_prepare env) (fleet_apply env) f opts h = Some (r, h')"
  using gpu_fleet.gt_run_returns [OF assms] by (auto simp: returns_def)

lemma gpu_transition_returns_witness:
  "\<exists>r h'. gt_run gt_example_env 182 (fleet_prepare gt_example_env) (fleet_apply gt_example_env) example_fleet
     (gt_example_options False) [] = Some (r, h')"
proof (rule gpu_transition_returns)
  have "0 \<le> wait_time e" for e by (cases e) auto
  then show "gt_clock gt_example_env" by (auto simp: gt_clock_def gt_example_env_def)
  show "gt_fuel 182 (gt_example_options False)"
    by (simp add: gt_fuel_def gt_defaults_def gt_example_options_def)
qed

end
