(* ===== verification/Node_Remove.thy ===== *)
theory Node_Remove
  imports Go_Strings Effects Oidc_Run
begin

text \<open>
  \<open>src/cli/internal/bootstrap/noderemove/remove.go\<close>: taking a node out of the cluster, etcd member
  first.  The cluster is reached through kubectl and the node over SSH; both answer from the
  history of calls, and the decoding of kubectl's JSON is a parameter of the environment.  The
  printed plan and progress are left out.
\<close>

section \<open>Options, nodes and calls\<close>

record nr_options =
  nr_has_ssh :: bool
  nr_host :: ssh_host
  nr_name :: string
  uninstall :: bool
  skip_drain :: bool
  drain_timeout :: string
  nr_force :: bool
  nr_dry_run :: bool

type_synonym labels = "string \<rightharpoonup> string"

definition is_etcd :: "labels \<Rightarrow> bool" where
  "is_etcd ls \<longleftrightarrow> ls ''node-role.kubernetes.io/etcd'' \<noteq> None \<or>
     ls ''node-role.kubernetes.io/control-plane'' \<noteq> None \<or>
     ls ''node-role.kubernetes.io/master'' \<noteq> None"

datatype nr_event =
    Kubectl "string list" "string + string"
  | Teardown ssh_host string "string + string"

record nr_env =
  on_kubectl :: "nr_event list \<Rightarrow> string list \<Rightarrow> string + string"
  on_ssh :: "nr_event list \<Rightarrow> ssh_host \<Rightarrow> string \<Rightarrow> string + string"
  parse_nodes :: "string \<Rightarrow> string + (string \<times> labels) list"
  parse_pods :: "string \<Rightarrow> string + (string \<times> string) list"

datatype nr_error =
    Missing_name | List_failed string | Node_not_found string | Last_control_plane string
  | Pods_failed string | No_etcd_peer | Members_failed string | Member_missing string
  | Member_remove_failed string string | Cordon_failed string | Drain_failed string | Delete_failed string

type_synonym ('e, 'a) nr_prog = "(nr_event, 'e, 'a) prog"

definition kubectl :: "nr_env \<Rightarrow> string list \<Rightarrow> ('e, string + string) nr_prog" where
  "kubectl env args = ask (\<lambda>h. on_kubectl env h args) (Kubectl args)"

definition ssh_run :: "nr_env \<Rightarrow> ssh_host \<Rightarrow> string \<Rightarrow> ('e, string + string) nr_prog" where
  "ssh_run env host cmd = ask (\<lambda>h. on_ssh env h host cmd) (Teardown host cmd)"

lemmas nr_calls = kubectl_def ssh_run_def

section \<open>Reading the cluster\<close>

definition nodes_args :: "string list" where
  "nodes_args = [''get'', ''nodes'', ''-o'', ''json'']"

definition pods_args :: "string list" where
  "pods_args = [''get'', ''pods'', ''-n'', ''kube-system'', ''-l'', ''component=etcd'', ''-o'', ''json'']"

definition etcd_ca :: string where
  "etcd_ca = ''/var/lib/rancher/rke2/server/tls/etcd/server-ca.crt''"
definition etcd_cert :: string where
  "etcd_cert = ''/var/lib/rancher/rke2/server/tls/etcd/server-client.crt''"
definition etcd_key :: string where
  "etcd_key = ''/var/lib/rancher/rke2/server/tls/etcd/server-client.key''"
definition etcd_ep :: string where
  "etcd_ep = ''https://127.0.0.1:2379''"

definition etcdctl_args :: "string \<Rightarrow> string list \<Rightarrow> string list" where
  "etcdctl_args peer args =
     [''exec'', ''-n'', ''kube-system'', peer, ''--'', ''etcdctl'', ''--cacert'', etcd_ca, ''--cert'', etcd_cert,
      ''--key'', etcd_key, ''--endpoints'', etcd_ep] @ args"

text \<open>The nodes by name; a name that comes twice keeps its last labels.\<close>

definition list_nodes :: "nr_env \<Rightarrow> (nr_error, (string \<times> labels) list) nr_prog" where
  "list_nodes env =
     bind (kubectl env nodes_args) (\<lambda>r.
     bind (check_err List_failed r) (\<lambda>raw.
     check_err List_failed (parse_nodes env raw)))"

definition etcd_count :: "(string \<times> labels) list \<Rightarrow> nat" where
  "etcd_count nodes = length (filter (\<lambda>n. is_etcd (the (last_of nodes n))) (remdups (map fst nodes)))"

definition find_etcd_peer_pod :: "nr_env \<Rightarrow> string \<Rightarrow> (nr_error, string) nr_prog" where
  "find_etcd_peer_pod env exclude =
     bind (kubectl env pods_args) (\<lambda>r.
     bind (check_err Pods_failed r) (\<lambda>raw.
     bind (check_err Pods_failed (parse_pods env raw)) (\<lambda>pods.
     case find (\<lambda>(pod, node). node \<noteq> exclude) pods of
       Some (pod, node) \<Rightarrow> ret pod
     | None \<Rightarrow> fail No_etcd_peer)))"

text \<open>A line of \<open>etcdctl member list\<close>: the member's id and name.\<close>

definition member_of_line :: "string \<Rightarrow> (string \<times> string) option" where
  "member_of_line line =
     (let fields = split_str '', '' line in
      if length fields < 3 then None
      else Some (trim_space (fields ! 0), trim_space (fields ! 2)))"

definition names_node :: "string \<Rightarrow> string \<Rightarrow> bool" where
  "names_node name node \<longleftrightarrow> name = node \<or> has_prefix name (node @ ''-'')"

fun find_member :: "string \<Rightarrow> string list \<Rightarrow> string option" where
  "find_member node [] = None"
| "find_member node (l # ls) =
     (case member_of_line l of
        None \<Rightarrow> find_member node ls
      | Some (mid, name) \<Rightarrow> if names_node name node then Some mid else find_member node ls)"

definition find_etcd_member_id :: "nr_env \<Rightarrow> string \<Rightarrow> string \<Rightarrow> (nr_error, string) nr_prog" where
  "find_etcd_member_id env peer node =
     bind (kubectl env (etcdctl_args peer [''-w'', ''simple'', ''member'', ''list''])) (\<lambda>r.
     bind (check_err Members_failed r) (\<lambda>out.
     case find_member node (split_on NL out) of
       Some mid \<Rightarrow> ret mid
     | None \<Rightarrow> fail (Member_missing node)))"

section \<open>Removing the node\<close>

definition remove_member :: "nr_env \<Rightarrow> (string \<times> string) option \<Rightarrow> (nr_error, unit) nr_prog" where
  "remove_member env member =
     (case member of
        None \<Rightarrow> ret ()
      | Some (peer, mid) \<Rightarrow>
          bind (kubectl env (etcdctl_args peer [''member'', ''remove'', mid])) (\<lambda>r.
          bind (check_err (Member_remove_failed mid) r) (\<lambda>_. ret ())))"

definition drain_args :: "nr_options \<Rightarrow> string list" where
  "drain_args o' = [''drain'', nr_name o', ''--ignore-daemonsets'', ''--delete-emptydir-data'', ''--timeout'',
     drain_timeout o'] @ (if nr_force o' then [''--force'', ''--disable-eviction''] else [])"

definition cordon_and_drain :: "nr_env \<Rightarrow> nr_options \<Rightarrow> (nr_error, unit) nr_prog" where
  "cordon_and_drain env o' =
     (if skip_drain o' then ret ()
      else
        bind (kubectl env [''cordon'', nr_name o']) (\<lambda>r.
        bind (check_err Cordon_failed r) (\<lambda>_.
        bind (kubectl env (drain_args o')) (\<lambda>r.
        case r of
          Inl e \<Rightarrow> if nr_force o' then ret () else fail (Drain_failed e)
        | Inr _ \<Rightarrow> ret ()))))"

definition delete_args :: "nr_options \<Rightarrow> string list" where
  "delete_args o' = [''delete'', ''node'', nr_name o', ''--ignore-not-found'']"

definition teardown_script :: "nr_options \<Rightarrow> string" where
  "teardown_script o' =
     (if uninstall o' then ''/usr/local/bin/rke2-uninstall.sh'' else ''/usr/local/bin/rke2-killall.sh'')"

definition teardown :: "nr_env \<Rightarrow> nr_options \<Rightarrow> (nr_error, unit) nr_prog" where
  "teardown env o' =
     (if nr_has_ssh o' \<and> (host_alias (nr_host o') \<noteq> [] \<or> hostname (nr_host o') \<noteq> []) then
        bind (ssh_run env (nr_host o') (''sudo -n '' @ teardown_script o')) (\<lambda>_. ret ())
      else ret ())"

definition resolve_member :: "nr_env \<Rightarrow> string \<Rightarrow> bool \<Rightarrow> (nr_error, (string \<times> string) option) nr_prog" where
  "resolve_member env name etcd =
     (if etcd then
        bind (find_etcd_peer_pod env name) (\<lambda>peer.
        bind (find_etcd_member_id env peer name) (\<lambda>mid. ret (Some (peer, mid))))
      else ret None)"

definition carry_out_removal :: "nr_env \<Rightarrow> nr_options \<Rightarrow> (string \<times> string) option \<Rightarrow> (nr_error, unit) nr_prog" where
  "carry_out_removal env o' member =
     bind (remove_member env member) (\<lambda>_.
     bind (cordon_and_drain env o') (\<lambda>_.
     bind (kubectl env (delete_args o')) (\<lambda>r.
     bind (check_err Delete_failed r) (\<lambda>_. teardown env o'))))"

definition nr_defaults :: "nr_options \<Rightarrow> nr_options" where
  "nr_defaults o' = (if drain_timeout o' = [] then o'\<lparr>drain_timeout := ''120s''\<rparr> else o')"

definition remove_node :: "nr_env \<Rightarrow> nr_options \<Rightarrow> (nr_error, unit) nr_prog" where
  "remove_node env o0 =
     bind (guard Missing_name (\<not> blank (nr_name o0))) (\<lambda>_.
     let o' = nr_defaults o0 in
     bind (list_nodes env) (\<lambda>nodes.
     case last_of nodes (nr_name o') of
       None \<Rightarrow> fail (Node_not_found (nr_name o'))
     | Some target \<Rightarrow>
         bind (guard (Last_control_plane (nr_name o')) (\<not> (is_etcd target \<and> etcd_count nodes \<le> 1))) (\<lambda>_.
         bind (resolve_member env (nr_name o') (is_etcd target)) (\<lambda>member.
         if nr_dry_run o' then ret () else carry_out_removal env o' member))))"

section \<open>What is allowed when\<close>

fun disruptive :: "nr_event \<Rightarrow> bool" where
  "disruptive (Kubectl args r) \<longleftrightarrow> hd args \<in> {''cordon'', ''drain'', ''delete''} \<or>
     take 2 (drop 14 args) = [''member'', ''remove'']"
| "disruptive (Teardown h c r) \<longleftrightarrow> True"

definition list_args :: "string \<Rightarrow> string list" where
  "list_args peer = etcdctl_args peer [''-w'', ''simple'', ''member'', ''list'']"

definition remove_args :: "string \<times> string \<Rightarrow> string list" where
  "remove_args m = etcdctl_args (fst m) [''member'', ''remove'', snd m]"

text \<open>What was read before any change: the node is known; if it is a control-plane node, another one
  is, and its member was looked up through the etcd pod of another node.\<close>

definition node_known :: "nr_env \<Rightarrow> string \<Rightarrow> labels \<Rightarrow> nr_event list \<Rightarrow> bool" where
  "node_known env name target h \<longleftrightarrow>
     (\<exists>raw nodes. Kubectl nodes_args (Inr raw) \<in> set h \<and> parse_nodes env raw = Inr nodes \<and>
        last_of nodes name = Some target \<and> (is_etcd target \<longrightarrow> 2 \<le> etcd_count nodes))"

definition peer_seen :: "nr_env \<Rightarrow> string \<Rightarrow> string \<Rightarrow> nr_event list \<Rightarrow> bool" where
  "peer_seen env name peer h \<longleftrightarrow>
     (\<exists>raw pods node. Kubectl pods_args (Inr raw) \<in> set h \<and> parse_pods env raw = Inr pods \<and>
        (peer, node) \<in> set pods \<and> node \<noteq> name)"

definition member_seen :: "string \<Rightarrow> string \<Rightarrow> string \<Rightarrow> nr_event list \<Rightarrow> bool" where
  "member_seen name peer mid h \<longleftrightarrow>
     (\<exists>out. Kubectl (list_args peer) (Inr out) \<in> set h \<and> find_member name (split_on NL out) = Some mid)"

definition prologue :: "nr_env \<Rightarrow> string \<Rightarrow> labels \<Rightarrow> (string \<times> string) option \<Rightarrow> nr_event list \<Rightarrow> bool" where
  "prologue env name target member h \<longleftrightarrow> node_known env name target h \<and>
     (case member of
        None \<Rightarrow> \<not> is_etcd target
      | Some (peer, mid) \<Rightarrow> is_etcd target \<and> peer_seen env name peer h \<and> member_seen name peer mid h)"

lemma seen_append:
  "node_known env name target h \<Longrightarrow> node_known env name target (h @ evs)"
  "peer_seen env name peer h \<Longrightarrow> peer_seen env name peer (h @ evs)"
  "member_seen name peer mid h \<Longrightarrow> member_seen name peer mid (h @ evs)"
  by (auto simp: node_known_def peer_seen_def member_seen_def)

definition done_ok :: "nr_event list \<Rightarrow> string list \<Rightarrow> bool" where
  "done_ok h args \<longleftrightarrow> (\<exists>out. Kubectl args (Inr out) \<in> set h)"

definition tried :: "nr_event list \<Rightarrow> string list \<Rightarrow> bool" where
  "tried h args \<longleftrightarrow> (\<exists>r. Kubectl args r \<in> set h)"

definition drained :: "nr_options \<Rightarrow> nr_event list \<Rightarrow> bool" where
  "drained o' h \<longleftrightarrow> skip_drain o' \<or>
     (done_ok h [''cordon'', nr_name o'] \<and>
      (if nr_force o' then tried h (drain_args o') else done_ok h (drain_args o')))"

definition nr_allowed :: "nr_env \<Rightarrow> nr_options \<Rightarrow> nr_event list \<Rightarrow> nr_event \<Rightarrow> bool" where
  "nr_allowed env o' h e \<longleftrightarrow> (disruptive e \<longrightarrow> \<not> nr_dry_run o' \<and>
     (\<exists>target member. prologue env (nr_name o') target member h \<and>
        (case member of
           None \<Rightarrow> True
         | Some m \<Rightarrow> (\<exists>r. e = Kubectl (remove_args m) r) \<or> done_ok h (remove_args m)) \<and>
        ((\<exists>r. e = Kubectl (delete_args o') r) \<longrightarrow> drained o' h) \<and>
        ((\<exists>x c r. e = Teardown x c r) \<longrightarrow> done_ok h (delete_args o'))))"

lemma prologue_mono: "prologue env n t m h \<Longrightarrow> prologue env n t m (h @ evs)"
  unfolding prologue_def by (auto split: option.splits intro: seen_append)

lemma done_ok_append [simp]:
  "done_ok (xs @ ys) a \<longleftrightarrow> done_ok xs a \<or> done_ok ys a" "tried (xs @ ys) a \<longleftrightarrow> tried xs a \<or> tried ys a"
  "done_ok [Kubectl a' r] a \<longleftrightarrow> a' = a \<and> is_ok r" "tried [Kubectl a' r] a \<longleftrightarrow> a' = a"
  by (auto simp: done_ok_def tried_def is_ok_iff)

text \<open>The arguments tell the steps apart.\<close>

lemma args_differ [simp]:
  "remove_args m \<noteq> delete_args o'" "remove_args m \<noteq> drain_args o'"
  "\<not> disruptive (Kubectl nodes_args r)" "\<not> disruptive (Kubectl pods_args r)"
  "drain_args o' \<noteq> delete_args o'" "[''cordon'', n] \<noteq> delete_args o'"
  "delete_args o' \<noteq> [''cordon'', n]"
  by (simp_all add: remove_args_def delete_args_def drain_args_def etcdctl_args_def nodes_args_def pods_args_def)

declare disruptive.simps(1) [simp del]

definition member_gone :: "(string \<times> string) option \<Rightarrow> nr_event list \<Rightarrow> bool" where
  "member_gone member h \<longleftrightarrow> (\<forall>m. member = Some m \<longrightarrow> done_ok h (remove_args m))"

lemma member_gone_append: "member_gone member h \<Longrightarrow> member_gone member (h @ evs)"
  by (auto simp: member_gone_def)

lemma nr_allowedI:
  assumes "\<not> nr_dry_run o'" "prologue env (nr_name o') target member h"
    and "member_gone member h \<or> (\<exists>m r. member = Some m \<and> e = Kubectl (remove_args m) r)"
    and "\<And>r. e = Kubectl (delete_args o') r \<Longrightarrow> drained o' h"
    and "\<And>x c r. e = Teardown x c r \<Longrightarrow> done_ok h (delete_args o')"
  shows "nr_allowed env o' h e"
  unfolding nr_allowed_def
  by (intro impI conjI exI [of _ target] exI [of _ member])
    (use assms in \<open>auto simp: member_gone_def split: option.split\<close>)

text \<open>The state of a removal under way.\<close>

definition going :: "nr_env \<Rightarrow> nr_options \<Rightarrow> labels \<Rightarrow> (string \<times> string) option \<Rightarrow> nr_event list \<Rightarrow> bool" where
  "going env o' target member h \<longleftrightarrow>
     always (nr_allowed env o') h \<and> prologue env (nr_name o') target member h \<and> \<not> nr_dry_run o'"

lemma going_step:
  assumes "going env o' target member h"
    and "member_gone member h \<or> (\<exists>m r. member = Some m \<and> e = Kubectl (remove_args m) r)"
    and "\<And>r. e = Kubectl (delete_args o') r \<Longrightarrow> drained o' h"
    and "\<And>x c r. e = Teardown x c r \<Longrightarrow> done_ok h (delete_args o')"
  shows "going env o' target member (h @ [e])"
  using assms nr_allowedI [of o' env target member h e] prologue_mono [of env "nr_name o'" target member h]
  by (auto simp: going_def)

lemma member_removed_wp:
  assumes "going env o' target member h"
  shows "wp (remove_member env member)
    (\<lambda>_ h'. going env o' target member h' \<and> member_gone member h')
    (\<lambda>_. going env o' target member) h"
proof (cases member)
  case None
  then show ?thesis using assms by (simp add: remove_member_def wp member_gone_def)
next
  case (Some m)
  have "going env o' target member (h @ [Kubectl (remove_args m) r])" for r
    by (rule going_step [OF assms]) (auto simp: Some)
  then show ?thesis
    by (cases m) (auto simp: Some remove_member_def wp nr_calls remove_args_def member_gone_def split: sum.split)
qed

lemma drained_wp:
  assumes "going env o' target member h" "member_gone member h"
  shows "wp (cordon_and_drain env o')
    (\<lambda>_ h'. going env o' target member h' \<and> member_gone member h' \<and> drained o' h')
    (\<lambda>_. going env o' target member) h"
proof -
  have step: "going env o' target member (h' @ [Kubectl a r]) \<and> member_gone member (h' @ [Kubectl a r])"
    if "going env o' target member h'" "member_gone member h'" "a \<noteq> delete_args o'" for a r h'
    using going_step [OF that(1), of "Kubectl a r"] member_gone_append [OF that(2)] that by auto
  note 1 = step [OF assms, of "[''cordon'', nr_name o']", simplified]
  note 2 = step [OF conjunct1 [OF 1] conjunct2 [OF 1], of "drain_args o'", simplified]
  show ?thesis
    using assms 1 2
    by (auto simp: cordon_and_drain_def wp nr_calls drained_def done_ok_def tried_def split: sum.split)
qed

lemma delete_wp:
  assumes "going env o' target member h" "member_gone member h" "drained o' h"
  shows "wp (bind (kubectl env (delete_args o')) (\<lambda>r.
       bind (check_err Delete_failed r) (\<lambda>_. teardown env o')))
    (\<lambda>_ h'. going env o' target member h' \<and> member_gone member h' \<and> done_ok h' (delete_args o'))
    (\<lambda>_. going env o' target member) h"
proof -
  have 1: "going env o' target member (h @ [Kubectl (delete_args o') r])" for r
    by (rule going_step [OF assms(1)]) (use assms in auto)
  have 2: "going env o' target member ((h @ [Kubectl (delete_args o') (Inr x)]) @ [Teardown hh c r])" for x hh c r
    by (rule going_step [OF 1]) (use assms member_gone_append in \<open>auto simp: delete_args_def\<close>)
  show ?thesis
    using 1 2 assms(2)
    by (auto simp: teardown_def wp nr_calls done_ok_def member_gone_def split: sum.split)
qed

lemma removal_wp:
  assumes "going env o' target member h"
  shows "wp (carry_out_removal env o' member)
    (\<lambda>_ h'. going env o' target member h' \<and> member_gone member h' \<and> done_ok h' (delete_args o'))
    (\<lambda>_. going env o' target member) h"
  unfolding carry_out_removal_def
proof (rule wp_bindI, rule wp_conseq [OF member_removed_wp [OF assms]], goal_cases)
  case (1 x h')
  then show ?case
    by (intro wp_bindI, intro wp_conseq [OF drained_wp]) (auto intro!: delete_wp)
next
  case (2 e h')
  then show ?case .
qed

text \<open>What comes before only reads.\<close>

definition harmless :: "nr_event list \<Rightarrow> bool" where
  "harmless h \<longleftrightarrow> (\<forall>e\<in>set h. \<not> disruptive e)"

lemma harmless_simps [simp]:
  "harmless []" "harmless (h @ [e]) \<longleftrightarrow> harmless h \<and> \<not> disruptive e" "harmless [e] \<longleftrightarrow> \<not> disruptive e"
  by (auto simp: harmless_def)

lemma always_harmless: "harmless h \<Longrightarrow> always (nr_allowed env o') h"
  by (auto simp: always_def nr_allowed_def harmless_def)

lemma find_peer_wp:
  assumes "harmless h"
  shows "wp (find_etcd_peer_pod env name)
    (\<lambda>peer h'. (\<exists>evs. h' = h @ evs) \<and> harmless h' \<and> peer_seen env name peer h') (\<lambda>_. harmless) h"
proof -
  have f: "(pod, node') \<in> set pods \<and> node' \<noteq> name"
    if "find (\<lambda>(pod, node). node \<noteq> name) pods = Some (pod, node')" for pods and pod node' :: string
    using that by (auto simp: find_Some_iff in_set_conv_nth)
  have "peer_seen env name pod (h @ [Kubectl pods_args (Inr raw)])"
    if "parse_pods env raw = Inr pods" "find (\<lambda>(pod, node). node \<noteq> name) pods = Some (pod, node')" for raw pods pod node'
    using f [OF that(2)] that(1) by (auto simp: peer_seen_def)
  then show ?thesis
    using assms by (auto simp: find_etcd_peer_pod_def wp nr_calls split: sum.split option.split)
qed

lemma find_id_wp:
  assumes "harmless h"
  shows "wp (find_etcd_member_id env peer name)
    (\<lambda>mid h'. (\<exists>evs. h' = h @ evs) \<and> harmless h' \<and> member_seen name peer mid h') (\<lambda>_. harmless) h"
proof -
  have "\<not> disruptive (Kubectl (list_args peer) r)" for r
    by (simp add: disruptive.simps list_args_def etcdctl_args_def)
  moreover have "member_seen name peer mid (h @ [Kubectl (list_args peer) (Inr out)])"
    if "find_member name (split_on NL out) = Some mid" for mid out
    using that by (auto simp: member_seen_def)
  ultimately show ?thesis
    using assms
    by (auto simp: find_etcd_member_id_def wp nr_calls list_args_def [symmetric] split: sum.split option.split)
qed

lemma resolve_wp:
  assumes "harmless h" "node_known env name target h"
  shows "wp (resolve_member env name (is_etcd target))
    (\<lambda>member h'. harmless h' \<and> prologue env name target member h') (\<lambda>_. harmless) h"
proof (cases "is_etcd target")
  case False
  then show ?thesis using assms by (auto simp: resolve_member_def wp prologue_def)
next
  case True
  have etcd: "wp (bind (find_etcd_member_id env peer name) (\<lambda>mid. ret (Some (peer, mid))))
      (\<lambda>member h'. harmless h' \<and> prologue env name target member h') (\<lambda>_. harmless) h2"
    if "harmless h2" "node_known env name target h2" "peer_seen env name peer h2" for peer h2
    by (rule wp_bindI, rule wp_conseq [OF find_id_wp [OF that(1)]])
      (use that True in \<open>auto simp: wp_ret prologue_def intro: seen_append\<close>)
  show ?thesis
    unfolding resolve_member_def if_P [OF True]
    by (rule wp_bindI, rule wp_conseq [OF find_peer_wp [OF assms(1)]])
      (use assms(2) in \<open>auto intro!: etcd seen_append\<close>)
qed

text \<open>A completed removal.\<close>

definition removed :: "nr_env \<Rightarrow> nr_options \<Rightarrow> nr_event list \<Rightarrow> bool" where
  "removed env o' h \<longleftrightarrow> done_ok h (delete_args o') \<and>
     (\<exists>target member. prologue env (nr_name o') target member h \<and> member_gone member h)"

lemma nr_defaults_fields [simp]:
  "nr_name (nr_defaults o0) = nr_name o0" "nr_dry_run (nr_defaults o0) = nr_dry_run o0"
  "skip_drain (nr_defaults o0) = skip_drain o0" "nr_force (nr_defaults o0) = nr_force o0"
  "delete_args (nr_defaults o0) = delete_args o0"
  by (simp_all add: nr_defaults_def delete_args_def)

lemma remove_node_wp:
  "wp (remove_node env o0)
    (\<lambda>_ h. always (nr_allowed env (nr_defaults o0)) h \<and> (nr_dry_run o0 \<or> removed env o0 h))
    (\<lambda>_. always (nr_allowed env (nr_defaults o0))) []"
proof -
  let ?o = "nr_defaults o0"
  let ?Q = "\<lambda>_ h. always (nr_allowed env ?o) h \<and> (nr_dry_run o0 \<or> removed env o0 h)"
  let ?E = "\<lambda>_. always (nr_allowed env ?o)"
  have carry: "wp (carry_out_removal env ?o member) (\<lambda>_ h. always (nr_allowed env ?o) h \<and> removed env o0 h) ?E h"
    if "always (nr_allowed env ?o) h" "prologue env (nr_name o0) target member h" "\<not> nr_dry_run o0" for member target h
  proof -
    have "going env ?o target member h" using that by (simp add: going_def)
    from removal_wp [OF this] show ?thesis
      by (rule wp_conseq) (auto simp: going_def removed_def)
  qed
  have rest: "wp (resolve_member env (nr_name o0) (is_etcd target))
      (\<lambda>member. wp (if nr_dry_run o0 then ret () else carry_out_removal env ?o member) ?Q ?E) ?E h"
    if "harmless h" "node_known env (nr_name o0) target h" for target h
    by (rule wp_conseq [OF resolve_wp [OF that]])
      (auto simp: wp_ret always_harmless intro: carry)
  have "node_known env (nr_name o0) target [Kubectl nodes_args (Inr raw)]"
    if "parse_nodes env raw = Inr nodes" "last_of nodes (nr_name o0) = Some target"
      "\<not> is_etcd target \<or> \<not> etcd_count nodes \<le> Suc 0" for raw nodes target
    using that by (auto simp: node_known_def)
  moreover have "nr_allowed env ?o h (Kubectl nodes_args r)" for h r by (simp add: nr_allowed_def)
  ultimately show ?thesis
    by (auto simp: remove_node_def list_nodes_def wp nr_calls Let_def
        split: sum.split option.split intro!: rest)
qed

section \<open>Which member is removed\<close>

text \<open>A line as etcdctl prints it.\<close>

definition member_line :: "string \<times> string \<times> string \<Rightarrow> string" where
  "member_line row = (case row of (mid, name, urls) \<Rightarrow> mid @ '', started, '' @ name @ '', '' @ urls)"

definition row_ok :: "string \<times> string \<times> string \<Rightarrow> bool" where
  "row_ok row = (case row of (mid, name, urls) \<Rightarrow>
     CHR '','' \<notin> set mid \<and> CHR '','' \<notin> set name \<and> trimmed mid \<and> trimmed name)"

lemma index_of_sep: "CHR '','' \<notin> set a \<Longrightarrow> index_of (a @ '', '' @ b) '', '' = Some (length a)"
  by (induction a) auto

lemma split_str_sep: "CHR '','' \<notin> set a \<Longrightarrow> split_str '', '' (a @ '', '' @ b) = a # split_str '', '' b"
  using index_of_sep [of a b] by (subst split_str.simps) simp

lemma split_str_not_Nil: "split_str sep s \<noteq> [] \<or> s = []"
  by (subst split_str.simps) (auto split: option.split)

lemma member_of_member_line:
  assumes "row_ok (mid, name, urls)"
  shows "member_of_line (member_line (mid, name, urls)) = Some (mid, name)"
proof -
  have "split_str '', '' (member_line (mid, name, urls)) =
      mid # ''started'' # name # split_str '', '' urls"
    using assms split_str_sep [of mid] split_str_sep [of "''started''"] split_str_sep [of name urls]
    by (simp add: member_line_def row_ok_def)
  moreover have "split_str '', '' urls \<noteq> []"
    by (subst split_str.simps) (auto split: option.split)
  ultimately show ?thesis
    using assms by (auto simp: member_of_line_def row_ok_def trim_space_trimmed)
qed

lemma find_member_rows:
  "\<forall>row\<in>set rows. row_ok row \<Longrightarrow>
    find_member node (map member_line rows) =
      map_option fst (find (\<lambda>(mid, name, urls). names_node name node) rows)"
proof (induction rows)
  case (Cons row rows)
  obtain mid name urls where "row = (mid, name, urls)" by (cases row)
  with Cons show ?case by (simp add: member_of_member_line)
qed simp

section \<open>An example cluster\<close>

definition example_members :: string where
  "example_members = join [NL] [member_line (''11'', ''a-x'', ''u''), member_line (''22'', ''b-y'', ''u'')]"

definition nr_example_env :: nr_env where
  "nr_example_env = \<lparr>
     on_kubectl = (\<lambda>h args. if args = list_args ''etcd-b''
        then Inr example_members else Inr []),
     on_ssh = (\<lambda>h host c. Inr []),
     parse_nodes = (\<lambda>s. Inr [(''a'', [''node-role.kubernetes.io/etcd'' \<mapsto> []]), (''b'', [''node-role.kubernetes.io/etcd'' \<mapsto> []])]),
     parse_pods = (\<lambda>s. Inr [(''etcd-a'', ''a''), (''etcd-b'', ''b'')])\<rparr>"

definition nr_example_options :: nr_options where
  "nr_example_options = \<lparr>nr_has_ssh = False, nr_host = example_host ''a'', nr_name = ''a'', uninstall = False,
     skip_drain = False, drain_timeout = [], nr_force = False, nr_dry_run = False\<rparr>"

lemma nr_example_facts:
  "\<not> blank ''a''" "nodes_args \<noteq> list_args p" "pods_args \<noteq> list_args p" "delete_args o' \<noteq> list_args p"
  "drain_args o' \<noteq> list_args p" "[''cordon'', n] \<noteq> list_args p"
  "etcdctl_args q [''member'', ''remove'', i] \<noteq> list_args p"
  "find_member ''a'' (split_on NL example_members) = Some ''11''"
proof -
  show "\<not> blank ''a''" by code_simp
  show "find_member ''a'' (split_on NL example_members) = Some ''11''"
    by code_simp
qed (simp_all add: list_args_def etcdctl_args_def nodes_args_def pods_args_def delete_args_def drain_args_def)

lemma nr_example_run:
  "remove_node nr_example_env nr_example_options [] = Some (Inr (),
     [Kubectl nodes_args (Inr []), Kubectl pods_args (Inr []),
      Kubectl (list_args ''etcd-b'') (Inr example_members),
      Kubectl (remove_args (''etcd-b'', ''11'')) (Inr [])] @
     Kubectl [''cordon'', ''a''] (Inr []) #
     [Kubectl (drain_args (nr_defaults nr_example_options)) (Inr []), Kubectl (delete_args nr_example_options) (Inr [])])"
  by (simp add: remove_node_def list_nodes_def nr_calls resolve_member_def find_etcd_peer_pod_def
      find_etcd_member_id_def carry_out_removal_def remove_member_def cordon_and_drain_def teardown_def
      bind_def guard_def check_err_def ret_def ask_def nr_example_env_def nr_example_options_def last_of_def
      is_etcd_def etcd_count_def nr_example_facts list_args_def [symmetric] remove_args_def nr_defaults_def Let_def)
    (simp add: delete_args_def)

section \<open>Properties\<close>

text \<open>C6. However the cluster answers, a removal disturbs nothing in a dry run, and otherwise disturbs
  it in the order that keeps etcd's quorum: before any disruptive step the node was seen among
  the nodes and, if it is a control-plane node, is not the last of them and its etcd member was
  looked up from another node's etcd pod; every disruptive step but the member's removal comes
  after that removal has succeeded; the node object is deleted only after cordon and drain have
  succeeded, unless these are skipped or forced; and the host is torn down only after the
  deletion has succeeded.\<close>

theorem remove_node_ordered:
  assumes "remove_node env opts [] = Some (r, h)" "h = xs @ e # ys" "disruptive e"
  shows "\<not> nr_dry_run opts \<and> (\<exists>target member. prologue env (nr_name opts) target member xs \<and>
     (\<forall>m. member = Some m \<longrightarrow> (\<exists>a. e = Kubectl (remove_args m) a) \<or> done_ok xs (remove_args m)) \<and>
     ((\<exists>a. e = Kubectl (delete_args opts) a) \<longrightarrow> drained (nr_defaults opts) xs) \<and>
     ((\<exists>x c a. e = Teardown x c a) \<longrightarrow> done_ok xs (delete_args opts)))"
proof -
  have "always (nr_allowed env (nr_defaults opts)) h"
    using wp_Inl [OF remove_node_wp] wp_Inr [OF remove_node_wp] assms(1) by (cases r) blast+
  from alwaysD [OF this [unfolded assms(2)]] have "nr_allowed env (nr_defaults opts) xs e" .
  then show ?thesis
    using assms(3) unfolding nr_allowed_def
    by (simp split: option.splits) (metis option.distinct(1) option.inject)
qed

lemma remove_node_ordered_witness:
  "done_ok [Kubectl nodes_args (Inr []), Kubectl pods_args (Inr []),
      Kubectl (list_args ''etcd-b'') (Inr example_members),
      Kubectl (remove_args (''etcd-b'', ''11'')) (Inr [])] (remove_args (''etcd-b'', ''11''))"
proof -
  have "disruptive (Kubectl [''cordon'', ''a''] (Inr []))" by (simp add: disruptive.simps)
  from remove_node_ordered [OF nr_example_run refl this] show ?thesis by (auto simp: done_ok_def)
qed

text \<open>A removal that reports success is complete: unless it was a dry run, the node object was
  deleted and, for a control-plane node, its member was removed from etcd.\<close>

theorem remove_node_complete:
  assumes "remove_node env opts [] = Some (Inr (), h)"
  shows "nr_dry_run opts \<or> (done_ok h (delete_args opts) \<and>
     (\<exists>target member. prologue env (nr_name opts) target member h \<and> member_gone member h))"
  using wp_Inr [OF remove_node_wp assms] by (auto simp: removed_def)

lemma remove_node_complete_witness:
  "\<exists>h. remove_node nr_example_env nr_example_options [] = Some (Inr (), h) \<and> done_ok h (delete_args nr_example_options)"
  using remove_node_complete [OF nr_example_run] nr_example_run by (auto simp: nr_example_options_def)

text \<open>The member looked up for a node is that of the first line whose member name is the node's name
  or starts with it and a dash.  So the member of a node whose name extends it by a dash, listed
  before the node's own, is taken for the node's: the removal of the one would take the other
  out of etcd.\<close>

theorem member_lookup_confuses_nodes:
  assumes "\<forall>row\<in>set rows. row_ok row" "row_ok (mid, other @ ''-'' @ hash, urls)"
    and "other = node @ ''-'' @ rest"
  shows "find_member node (map member_line rows) =
      map_option fst (find (\<lambda>(i, name, u). name = node \<or> has_prefix name (node @ ''-'')) rows) \<and>
    find_member node (map member_line ((mid, other @ ''-'' @ hash, urls) # rows)) = Some mid"
  using find_member_rows [OF assms(1)] find_member_rows [of "(mid, other @ ''-'' @ hash, urls) # rows"] assms
  by (simp add: names_node_def case_prod_unfold)

lemma member_lookup_confuses_nodes_witness:
  "find_member ''cp'' [member_line (''22'', ''cp-2-ab'', ''u''), member_line (''11'', ''cp-cd'', ''u'')] = Some ''22''"
proof -
  have ok: "\<forall>row\<in>set [(''11'', ''cp-cd'', ''u'')]. row_ok row"
    "row_ok (''22'', ''cp-2'' @ ''-'' @ ''ab'', ''u'')" by code_simp+
  have "''cp-2'' = ''cp'' @ ''-'' @ ''2''" by simp
  from member_lookup_confuses_nodes [OF ok this] show ?thesis by simp
qed

end
