(* ===== verification/Base64.thy ===== *)
theory Base64
  imports Go_Strings
begin

text \<open>
  \<open>encoding/base64\<close> as the CLI uses it: the standard and the URL alphabet, with padding and
  without.  Decoding is what the Go decoder does: it skips line breaks, rejects every other foreign
  character, a lone last digit, missing padding and anything after the padding, and ignores the
  spare bits of the last digit.
\<close>

definition std_digits :: string where
  "std_digits = ''ABCDEFGHIJKLMNOPQRSTUVWXYZabcdefghijklmnopqrstuvwxyz0123456789+/''"

definition url_digits :: string where
  "url_digits = ''ABCDEFGHIJKLMNOPQRSTUVWXYZabcdefghijklmnopqrstuvwxyz0123456789-_''"

abbreviation pad_char :: char where "pad_char \<equiv> CHR ''=''"

section \<open>Encoding\<close>

definition encode_quantum :: "string \<Rightarrow> nat \<Rightarrow> nat \<Rightarrow> string" where
  "encode_quantum ds n k =
     map (\<lambda>i. ds ! i) (take k [n div 262144 mod 64, n div 4096 mod 64, n div 64 mod 64, n mod 64])"

fun encode :: "string \<Rightarrow> bool \<Rightarrow> string \<Rightarrow> string" where
  "encode ds padded [] = []"
| "encode ds padded [a] = encode_quantum ds (of_char a * 65536) 2 @ (if padded then ''=='' else [])"
| "encode ds padded [a, b] =
     encode_quantum ds (of_char a * 65536 + of_char b * 256) 3 @ (if padded then ''='' else [])"
| "encode ds padded (a # b # c # s) =
     encode_quantum ds (of_char a * 65536 + of_char b * 256 + of_char c) 4 @ encode ds padded s"

section \<open>Decoding\<close>

definition digit_value :: "string \<Rightarrow> char \<Rightarrow> nat option" where
  "digit_value ds c = find_index (\<lambda>d. d = c) ds"

definition quantum_value :: "string \<Rightarrow> string \<Rightarrow> nat" where
  "quantum_value ds q = foldl (\<lambda>v c. v * 64 + the (digit_value ds c)) 0 q * 64 ^ (4 - length q)"

definition quantum_bytes :: "nat \<Rightarrow> string" where
  "quantum_bytes v = [char_of (v div 65536), char_of (v div 256 mod 256), char_of (v mod 256)]"

definition decode_quantum :: "string \<Rightarrow> string \<Rightarrow> nat \<Rightarrow> string option" where
  "decode_quantum ds q k =
     (if list_all (\<lambda>c. digit_value ds c \<noteq> None) q then Some (take k (quantum_bytes (quantum_value ds q)))
      else None)"

fun decode_clean :: "string \<Rightarrow> bool \<Rightarrow> string \<Rightarrow> string option" where
  "decode_clean ds padded [] = Some []"
| "decode_clean ds padded [a] = None"
| "decode_clean ds padded [a, b] = (if padded then None else decode_quantum ds [a, b] 1)"
| "decode_clean ds padded [a, b, c] = (if padded then None else decode_quantum ds [a, b, c] 2)"
| "decode_clean ds padded (a # b # c # d # s) =
     (if padded \<and> c = pad_char then (if d = pad_char \<and> s = [] then decode_quantum ds [a, b] 1 else None)
      else if padded \<and> d = pad_char then (if s = [] then decode_quantum ds [a, b, c] 2 else None)
      else (case decode_quantum ds [a, b, c, d] 3 of
              None \<Rightarrow> None
            | Some bs \<Rightarrow> map_option (\<lambda>r. bs @ r) (decode_clean ds padded s)))"

definition decode :: "string \<Rightarrow> bool \<Rightarrow> string \<Rightarrow> string option" where
  "decode ds padded s = decode_clean ds padded (filter (\<lambda>c. c \<noteq> CHR 0x0A \<and> c \<noteq> CHR 0x0D) s)"

section \<open>Alphabets\<close>

text \<open>Sixty-four different characters, none of them the padding or a line break.\<close>

definition alphabet :: "string \<Rightarrow> bool" where
  "alphabet ds \<longleftrightarrow> length ds = 64 \<and> distinct ds \<and> pad_char \<notin> set ds \<and>
     CHR 0x0A \<notin> set ds \<and> CHR 0x0D \<notin> set ds"

lemma std_alphabet [simp]: "alphabet std_digits"
  by (simp add: alphabet_def std_digits_def)

lemma url_alphabet [simp]: "alphabet url_digits"
  by (simp add: alphabet_def url_digits_def)

lemma digit_value_nth:
  assumes "alphabet ds" "n < 64"
  shows "digit_value ds (ds ! n) = Some n"
proof (cases "digit_value ds (ds ! n)")
  case None
  then show ?thesis using assms by (auto simp: digit_value_def find_index_None_iff alphabet_def)
next
  case (Some m)
  then have "m < length ds \<and> ds ! m = ds ! n" by (auto simp: digit_value_def dest: find_index_SomeD)
  then show ?thesis using assms Some by (auto simp: alphabet_def nth_eq_iff_index_eq)
qed

lemma digit_value_Some_in: "digit_value ds c = Some n \<Longrightarrow> c \<in> set ds"
  by (auto simp: digit_value_def dest!: find_index_SomeD)

lemma digit_value_in: "c \<in> set ds \<Longrightarrow> digit_value ds c \<noteq> None"
  by (auto simp: digit_value_def find_index_None_iff)

section \<open>Round trip\<close>

lemma digits_recompose:
  fixes n :: nat
  assumes "n < 16777216"
  shows "((n div 262144 mod 64 * 64 + n div 4096 mod 64) * 64 + n div 64 mod 64) * 64 + n mod 64 = n"
    "(n div 262144 mod 64 * 64 + n div 4096 mod 64) * 64 + n div 64 mod 64 = n div 64"
    "n div 262144 mod 64 * 64 + n div 4096 mod 64 = n div 4096"
proof -
  have "n div 262144 < 64" using assms by simp
  then have d: "n div 262144 mod 64 = n div 262144" by simp
  have "n div 262144 = n div 4096 div 64" "n div 4096 = n div 64 div 64" by (simp_all add: div_mult2_eq)
  then show 1: "n div 262144 mod 64 * 64 + n div 4096 mod 64 = n div 4096" unfolding d by simp
  show 2: "(n div 262144 mod 64 * 64 + n div 4096 mod 64) * 64 + n div 64 mod 64 = n div 64"
    unfolding 1 using \<open>n div 4096 = n div 64 div 64\<close> by simp
  show "((n div 262144 mod 64 * 64 + n div 4096 mod 64) * 64 + n div 64 mod 64) * 64 + n mod 64 = n"
    unfolding 2 by simp
qed

lemma low_byte: "z < 256 \<Longrightarrow> (m * 256 + z) div 256 = m \<and> (m * 256 + z) mod 256 = z" for m z :: nat
  by simp

lemma bytes_of_value:
  "quantum_bytes (of_char a * 65536 + of_char b * 256 + of_char c) = [a, b, c]"
proof -
  obtain x y z :: nat where v: "x = of_char a" "y = of_char b" "z = of_char c" by blast
  then have b: "x < 256" "y < 256" "z < 256" by simp_all
  obtain n where n: "n = x * 65536 + y * 256 + z" by blast
  have 0: "n = (x * 256 + y) * 256 + z" unfolding n by simp
  have 1: "n div 256 = x * 256 + y" "n mod 256 = z"
    unfolding 0 using low_byte [OF b(3)] by blast+
  have "n div 65536 = n div 256 div 256" by (simp add: div_mult2_eq [symmetric])
  then have "n div 65536 = x" "n div 256 mod 256 = y"
    unfolding 1 using low_byte [OF b(2)] by simp_all
  then have "quantum_bytes n = [a, b, c]" unfolding quantum_bytes_def 1 by (simp add: v)
  then show ?thesis unfolding n v .
qed

lemma bytes_bound: "of_char a * 65536 + of_char b * 256 + of_char c < (16777216 :: nat)"
  using nat_of_char_less_256 [of a] nat_of_char_less_256 [of b] nat_of_char_less_256 [of c] by linarith

lemma value_of_digits:
  assumes "alphabet ds" "list_all (\<lambda>k. k < 64) ks"
  shows "quantum_value ds (map (\<lambda>i. ds ! i) ks) = foldl (\<lambda>v k. v * 64 + k) 0 ks * 64 ^ (4 - length ks)"
proof -
  have "foldl (\<lambda>v c. v * 64 + the (digit_value ds c)) v (map (\<lambda>i. ds ! i) ks) = foldl (\<lambda>v k. v * 64 + k) v ks" for v
    using assms(2) by (induction ks arbitrary: v) (simp_all add: digit_value_nth [OF assms(1)])
  then show ?thesis by (simp add: quantum_value_def)
qed

lemma value_encode:
  assumes "alphabet ds" "n < 16777216"
  shows "quantum_value ds (encode_quantum ds n 4) = n"
    "quantum_value ds (encode_quantum ds n 3) = n div 64 * 64"
    "quantum_value ds (encode_quantum ds n 2) = n div 4096 * 4096"
proof -
  note v = digits_recompose [OF assms(2)]
  let ?f = "\<lambda>ks. foldl (\<lambda>v k. v * 64 + k) 0 ks * 64 ^ (4 - length ks)"
  have take: "take 4 [w, x, y, z] = [w, x, y, z]" "take 3 [w, x, y, z] = [w, x, y]" "take 2 [w, x, y, z] = [w, x]"
    for w x y z :: nat by (simp_all add: eval_nat_numeral)
  have f: "?f [w, x, y, z] = ((w * 64 + x) * 64 + y) * 64 + z" "?f [w, x, y] = ((w * 64 + x) * 64 + y) * 64"
    "?f [w, x] = (w * 64 + x) * 4096" for w x y z :: nat
    by simp_all
  show "quantum_value ds (encode_quantum ds n 4) = n"
    unfolding encode_quantum_def take by (subst value_of_digits [OF assms(1)]) (simp, simp only: f v(1))
  show "quantum_value ds (encode_quantum ds n 3) = n div 64 * 64"
    unfolding encode_quantum_def take by (subst value_of_digits [OF assms(1)]) (simp, simp only: f v(2))
  show "quantum_value ds (encode_quantum ds n 2) = n div 4096 * 4096"
    unfolding encode_quantum_def take by (subst value_of_digits [OF assms(1)]) (simp, simp only: f v(3))
qed

lemma encode_quantum_digits:
  "alphabet ds \<Longrightarrow> list_all (\<lambda>c. digit_value ds c \<noteq> None) (encode_quantum ds n k)"
  by (auto simp: encode_quantum_def list_all_iff digit_value_nth dest!: in_set_takeD
      simp del: not_None_eq)

lemma encode_quantum_set: "alphabet ds \<Longrightarrow> set (encode_quantum ds n k) \<subseteq> set ds"
  using encode_quantum_digits [of ds n k] by (auto simp: list_all_iff dest: digit_value_Some_in)

lemma decode_quantumI:
  "list_all (\<lambda>c. digit_value ds c \<noteq> None) q \<Longrightarrow> take k (quantum_bytes (quantum_value ds q)) = bs \<Longrightarrow>
   decode_quantum ds q k = Some bs"
  by (simp add: decode_quantum_def)

lemma char_zero: "of_char (CHR 0x00) = (0 :: nat)" "n + 0 = (n :: nat)" "0 * 256 = (0 :: nat)"
  by simp_all

lemma quantum_round_trip:
  assumes "alphabet ds"
  shows "decode_quantum ds (encode_quantum ds (of_char a * 65536 + of_char b * 256 + of_char c) 4) 3 = Some [a, b, c]"
    "decode_quantum ds (encode_quantum ds (of_char a * 65536 + of_char b * 256) 3) 2 = Some [a, b]"
    "decode_quantum ds (encode_quantum ds (of_char a * 65536) 2) 1 = Some [a]"
proof -
  have "(x * 65536 + y * 256) div 64 * 64 = x * 65536 + y * 256" for x y :: nat
  proof -
    have "x * 65536 + y * 256 = (x * 1024 + y * 4) * 64" by simp
    then show ?thesis by (simp only: nonzero_mult_div_cancel_right)
  qed
  moreover have "x * 65536 div 4096 * 4096 = x * 65536" for x :: nat
  proof -
    have "x * 65536 = (x * 16) * 4096" by simp
    then show ?thesis by (simp only: nonzero_mult_div_cancel_right)
  qed
  ultimately have 0: "(of_char a * 65536 + of_char b * 256) div 64 * 64 = (of_char a * 65536 + of_char b * 256 :: nat)"
    "of_char a * 65536 div 4096 * 4096 = (of_char a * 65536 :: nat)"
    by blast+
  show "decode_quantum ds (encode_quantum ds (of_char a * 65536 + of_char b * 256 + of_char c) 4) 3 = Some [a, b, c]"
    by (rule decode_quantumI) (simp_all only: assms encode_quantum_digits value_encode(1) bytes_bound bytes_of_value, simp)
  show "decode_quantum ds (encode_quantum ds (of_char a * 65536 + of_char b * 256) 3) 2 = Some [a, b]"
    using bytes_bound [of a b "CHR 0x00"] bytes_of_value [of a b "CHR 0x00"]
    by (intro decode_quantumI)
      (simp_all only: assms encode_quantum_digits value_encode(2) 0 char_zero, simp_all)
  show "decode_quantum ds (encode_quantum ds (of_char a * 65536) 2) 1 = Some [a]"
    using bytes_bound [of a "CHR 0x00" "CHR 0x00"] bytes_of_value [of a "CHR 0x00" "CHR 0x00"]
    by (intro decode_quantumI)
      (simp_all only: assms encode_quantum_digits value_encode(3) 0 char_zero, simp_all)
qed

lemma four_digits:
  assumes "alphabet ds"
  obtains w x y z where "encode_quantum ds n 4 = [w, x, y, z]" "set [w, x, y, z] \<subseteq> set ds" "pad_char \<notin> set [w, x, y, z]"
proof -
  have "length (encode_quantum ds n 4) = 4" by (simp add: encode_quantum_def)
  then obtain w x y z where q: "encode_quantum ds n 4 = [w, x, y, z]"
    by (auto simp: length_Suc_conv eval_nat_numeral)
  then show thesis using that encode_quantum_set [OF assms, of n 4] assms by (auto simp: alphabet_def)
qed

lemma three_digits:
  assumes "alphabet ds"
  obtains w x y where "encode_quantum ds n 3 = [w, x, y]" "set [w, x, y] \<subseteq> set ds" "pad_char \<notin> set [w, x, y]"
proof -
  have "length (encode_quantum ds n 3) = 3" by (simp add: encode_quantum_def)
  then obtain w x y where q: "encode_quantum ds n 3 = [w, x, y]"
    by (auto simp: length_Suc_conv eval_nat_numeral)
  then show thesis using that encode_quantum_set [OF assms, of n 3] assms by (auto simp: alphabet_def)
qed

lemma two_digits:
  assumes "alphabet ds"
  obtains w x where "encode_quantum ds n 2 = [w, x]" "set [w, x] \<subseteq> set ds" "pad_char \<notin> set [w, x]"
proof -
  have "length (encode_quantum ds n 2) = 2" by (simp add: encode_quantum_def)
  then obtain w x where q: "encode_quantum ds n 2 = [w, x]"
    by (auto simp: length_Suc_conv eval_nat_numeral)
  then show thesis using that encode_quantum_set [OF assms, of n 2] assms by (auto simp: alphabet_def)
qed

lemma encode_set: "alphabet ds \<Longrightarrow> set (encode ds padded s) \<subseteq> insert pad_char (set ds)"
proof (induction ds padded s rule: encode.induct)
  case (4 ds padded a b c s)
  then show ?case using encode_quantum_set [OF 4(2)] by auto
qed (auto dest: encode_quantum_set [THEN subsetD])

lemma decode_encode:
  assumes "alphabet ds"
  shows "decode ds padded (encode ds padded s) = Some s"
proof -
  have "decode_clean ds padded (encode ds padded s) = Some s"
    using assms
  proof (induction ds padded s rule: encode.induct)
    case (2 ds padded a)
    then obtain w x where "encode_quantum ds (of_char a * 65536) 2 = [w, x]" "pad_char \<notin> set [w, x]"
      using two_digits by metis
    then show ?case using quantum_round_trip(3) [OF 2, of a] by simp
  next
    case (3 ds padded a b)
    then obtain w x y where "encode_quantum ds (of_char a * 65536 + of_char b * 256) 3 = [w, x, y]"
        "pad_char \<notin> set [w, x, y]"
      using three_digits by metis
    then show ?case using quantum_round_trip(2) [OF 3, of a b] by auto
  next
    case (4 ds padded a b c s)
    then obtain w x y z where "encode_quantum ds (of_char a * 65536 + of_char b * 256 + of_char c) 4 = [w, x, y, z]"
        "pad_char \<notin> set [w, x, y, z]"
      using four_digits by metis
    then show ?case using quantum_round_trip(1) [OF 4(2), of a b c] 4 by auto
  qed simp
  moreover have "filter (\<lambda>c. c \<noteq> CHR 0x0A \<and> c \<noteq> CHR 0x0D) (encode ds padded s) = encode ds padded s"
    using encode_set [OF assms, of padded s] assms by (intro filter_True) (auto simp: alphabet_def)
  ultimately show ?thesis by (simp add: decode_def)
qed

text \<open>Padding: the padded form has a length divisible by four and is the other form with
  padding appended.\<close>

definition padding :: "nat \<Rightarrow> string" where
  "padding n = (if n mod 4 = 2 then ''=='' else if n mod 4 = 3 then ''='' else [])"

lemma encode_padded:
  "encode ds True s = encode ds False s @ padding (length (encode ds False s))"
  by (induction ds False s rule: encode.induct) (simp_all add: encode_quantum_def padding_def)

lemma encode_True_length: "length (encode ds True s) mod 4 = 0"
  by (induction ds True s rule: encode.induct) (simp_all add: encode_quantum_def)

section \<open>Reading one alphabet as the other\<close>

lemma decode_quantum_set: "decode_quantum ds q k = Some x \<Longrightarrow> set q \<subseteq> set ds"
  by (auto simp: decode_quantum_def list_all_iff split: if_splits dest: digit_value_Some_in)

lemma decode_clean_set: "decode_clean ds False s = Some x \<Longrightarrow> set s \<subseteq> set ds"
  by (induction ds False s arbitrary: x rule: decode_clean.induct)
    (auto split: option.splits dest: decode_quantum_set)

lemma decode_quantum_same:
  assumes "\<And>c. c \<in> set q \<Longrightarrow> digit_value ds c = digit_value ds' c"
  shows "decode_quantum ds q k = decode_quantum ds' q k"
proof -
  have "foldl (\<lambda>v c. v * 64 + the (digit_value ds c)) v q = foldl (\<lambda>v c. v * 64 + the (digit_value ds' c)) v q" for v
    using assms by (induction q arbitrary: v) auto
  moreover have "list_all (\<lambda>c. digit_value ds c \<noteq> None) q = list_all (\<lambda>c. digit_value ds' c \<noteq> None) q"
    using assms by (auto simp: list_all_iff)
  ultimately show ?thesis by (simp add: decode_quantum_def quantum_value_def)
qed

lemma decode_clean_same:
  "(\<And>c. c \<in> set s \<Longrightarrow> digit_value ds c = digit_value ds' c) \<Longrightarrow>
   decode_clean ds False s = decode_clean ds' False s"
proof (induction ds False s rule: decode_clean.induct)
  case (5 ds a b c d s)
  have "decode_quantum ds [a, b, c, d] 3 = decode_quantum ds' [a, b, c, d] 3"
    using 5(2) by (intro decode_quantum_same) auto
  then show ?case using 5 by (auto split: option.splits)
qed (auto intro: decode_quantum_same)

lemma common_digits:
  assumes "c \<in> set std_digits" "c \<in> set url_digits"
  shows "digit_value url_digits c = digit_value std_digits c"
proof -
  have "list_all (\<lambda>c. List.member url_digits c \<longrightarrow> digit_value url_digits c = digit_value std_digits c) std_digits"
    by code_simp
  then show ?thesis using assms by (auto simp: list_all_iff)
qed

text \<open>A decoder of the URL alphabet that accepts a text of the standard alphabet reads it right.\<close>

lemma decode_url_std:
  assumes "decode url_digits False (encode std_digits padded s) = Some x"
  shows "x = s"
proof -
  let ?t = "encode std_digits padded s"
  have filter: "filter (\<lambda>c. c \<noteq> CHR 0x0A \<and> c \<noteq> CHR 0x0D) ?t = ?t"
    using encode_set [OF std_alphabet, of padded s] std_alphabet by (intro filter_True) (auto simp: alphabet_def)
  then have clean: "decode_clean url_digits False ?t = Some x" using assms by (simp add: decode_def)
  then have url: "set ?t \<subseteq> set url_digits" by (rule decode_clean_set)
  then have "pad_char \<notin> set ?t" using url_alphabet by (auto simp: alphabet_def)
  then have std: "set ?t \<subseteq> set std_digits" and plain: "?t = encode std_digits False s"
    using encode_set [OF std_alphabet, of padded s] encode_padded [of std_digits s]
    by (auto simp: padding_def split: if_splits) (cases padded; auto split: if_splits)+
  have "decode_clean std_digits False ?t = Some x"
    using clean decode_clean_same [of ?t url_digits std_digits, OF common_digits] url std by (metis subsetD)
  then have "decode std_digits False ?t = Some x" using filter by (simp add: decode_def)
  then show "x = s" unfolding plain using decode_encode [OF std_alphabet, of False s] by simp
qed

end
