(* ===== verification/Kubeconfig.thy ===== *)
theory Kubeconfig
  imports Atomic_File Key_Value Base64
begin

text \<open>
  \<open>src/cli/internal/kubeconfig/manager.go\<close>: the kubeconfig file that logins write.  YAML is a
  parameter, the pair \<open>marshal\<close> and \<open>unmarshal\<close> of a codec; the operations are those of the
  manager: load the file, change the configuration, save it.
\<close>

section \<open>The file\<close>

record cluster =
  server :: string
  ca_data :: string
  skip_tls :: bool

record ctx =
  ctx_cluster :: string
  ctx_user :: string
  ctx_namespace :: string

record exec_config =
  api_version :: string
  command :: string
  exec_args :: "string list"
  interactive_mode :: string

type_synonym kube_user = "exec_config option"

text \<open>A named entry is a pair of its name and its value; \<open>'p\<close> is whatever the preferences hold.\<close>

record 'p kube_config =
  config_api_version :: string
  config_kind :: string
  current_context :: string
  clusters :: "(string \<times> cluster) list"
  contexts :: "(string \<times> ctx) list"
  users :: "(string \<times> kube_user) list"
  preferences :: 'p

datatype kube_error =
    Read_failed | Parse_failed string | Marshal_failed string | Write_failed
  | Context_not_found string | No_current_context

record 'p codec =
  marshal :: "'p kube_config \<Rightarrow> string + string"
  unmarshal :: "string \<Rightarrow> string + 'p kube_config"
  no_preferences :: 'p

definition empty_config :: "'p codec \<Rightarrow> 'p kube_config" where
  "empty_config c = \<lparr>config_api_version = ''v1'', config_kind = ''Config'', current_context = [],
     clusters = [], contexts = [], users = [], preferences = no_preferences c\<rparr>"

text \<open>What reading and writing the file may meet: an unreadable file, or a write that fails after
  it has truncated the file and written a part.\<close>

record kube_io =
  unreadable :: bool
  write_cut :: "string option"

definition load_config :: "'p codec \<Rightarrow> kube_io \<Rightarrow> string \<Rightarrow> fs \<Rightarrow> kube_error + 'p kube_config" where
  "load_config c io path d =
     (if unreadable io then Inl Read_failed
      else case d path of
        None \<Rightarrow> Inr (empty_config c)
      | Some f \<Rightarrow>
          (case unmarshal c (f_content f) of Inl e \<Rightarrow> Inl (Parse_failed e) | Inr cfg \<Rightarrow> Inr cfg))"

text \<open>\<open>os.WriteFile\<close> keeps the mode of a file that exists.\<close>

definition write_file :: "kube_io \<Rightarrow> string \<Rightarrow> string \<Rightarrow> fs \<Rightarrow> kube_error option \<times> fs" where
  "write_file io path content d =
     (let mode = (case d path of Some f \<Rightarrow> f_mode f | None \<Rightarrow> 384) in
      case write_cut io of
        Some part \<Rightarrow> (Some Write_failed, d(path \<mapsto> \<lparr>f_content = part, f_mode = mode\<rparr>))
      | None \<Rightarrow> (None, d(path \<mapsto> \<lparr>f_content = content, f_mode = mode\<rparr>)))"

definition save_config ::
    "'p codec \<Rightarrow> kube_io \<Rightarrow> string \<Rightarrow> 'p kube_config \<Rightarrow> fs \<Rightarrow> kube_error option \<times> fs" where
  "save_config c io path cfg d =
     (case marshal c cfg of
        Inl e \<Rightarrow> (Some (Marshal_failed e), d)
      | Inr s \<Rightarrow> write_file io path s d)"

section \<open>Adding a context\<close>

record context_params =
  p_server :: string
  p_cluster :: string
  p_user :: string
  p_context :: string
  p_namespace :: string
  p_ca_cert :: string
  p_insecure :: bool
  p_set_current :: bool
  p_realm :: string

definition exec_args_of :: "context_params \<Rightarrow> string list" where
  "exec_args_of p = [''credential'', ''--server'', p_server p] @
     (if p_realm p \<noteq> [] then [''--realm'', p_realm p] else [])"

text \<open>The parameters a tenant's login uses: one cluster and user entry per Organization, one
  context per Project.\<close>

definition tenant_context_params ::
    "string \<Rightarrow> string \<Rightarrow> string \<Rightarrow> string \<Rightarrow> string \<Rightarrow> bool \<Rightarrow> bool \<Rightarrow> context_params" where
  "tenant_context_params domain org srv namespace ca insecure set_current =
     \<lparr>p_server = srv,
      p_cluster = ''kube-dc-'' @ domain @ ''-'' @ org,
      p_user = ''kube-dc@'' @ domain @ ''/'' @ org,
      p_context = ''kube-dc/'' @ domain @ ''/'' @ org @ ''/'' @ trim_prefix namespace (org @ ''-''),
      p_namespace = namespace, p_ca_cert = ca, p_insecure = insecure,
      p_set_current = set_current, p_realm = org\<rparr>"

definition cluster_of :: "context_params \<Rightarrow> cluster" where
  "cluster_of p = \<lparr>server = p_server p,
     ca_data = (if p_ca_cert p \<noteq> [] \<and> \<not> p_insecure p then encode std_digits True (p_ca_cert p) else []),
     skip_tls = p_insecure p\<rparr>"

definition user_of :: "context_params \<Rightarrow> kube_user" where
  "user_of p = Some \<lparr>api_version = ''client.authentication.k8s.io/v1'', command = ''kube-dc'',
     exec_args = exec_args_of p, interactive_mode = ''IfAvailable''\<rparr>"

definition context_of :: "context_params \<Rightarrow> ctx" where
  "context_of p = \<lparr>ctx_cluster = p_cluster p, ctx_user = p_user p, ctx_namespace = p_namespace p\<rparr>"

definition add_context :: "context_params \<Rightarrow> 'p kube_config \<Rightarrow> 'p kube_config" where
  "add_context p cfg = cfg\<lparr>
     clusters := upsert (p_cluster p) (cluster_of p) (clusters cfg),
     users := upsert (p_user p) (user_of p) (users cfg),
     contexts := upsert (p_context p) (context_of p) (contexts cfg),
     current_context := (if p_set_current p then p_context p else current_context cfg)\<rparr>"

section \<open>Removing contexts\<close>

definition cluster_referenced :: "string \<Rightarrow> (string \<times> ctx) list \<Rightarrow> bool" where
  "cluster_referenced n cs \<longleftrightarrow> (\<exists>c\<in>set cs. ctx_cluster (snd c) = n)"

definition user_referenced :: "string \<Rightarrow> (string \<times> ctx) list \<Rightarrow> bool" where
  "user_referenced n cs \<longleftrightarrow> (\<exists>c\<in>set cs. ctx_user (snd c) = n)"

text \<open>The victim is the last context of the name; \<open>None\<close>: there is none, and nothing is written.\<close>

definition remove_context :: "string \<Rightarrow> 'p kube_config \<Rightarrow> 'p kube_config option" where
  "remove_context name cfg =
     (case last_of (contexts cfg) name of
        None \<Rightarrow> None
      | Some v \<Rightarrow>
          (let left = filter (\<lambda>c. fst c \<noteq> name) (contexts cfg) in
           Some (cfg\<lparr>
             contexts := left,
             clusters := (if ctx_cluster v \<noteq> [] \<and> \<not> cluster_referenced (ctx_cluster v) left
                then filter (\<lambda>c. fst c \<noteq> ctx_cluster v) (clusters cfg) else clusters cfg),
             users := (if ctx_user v \<noteq> [] \<and> \<not> user_referenced (ctx_user v) left
                then filter (\<lambda>u. fst u \<noteq> ctx_user v) (users cfg) else users cfg),
             current_context := (if current_context cfg = name then [] else current_context cfg)\<rparr>)))"

definition remove_kube_dc_contexts :: "string \<Rightarrow> 'p kube_config \<Rightarrow> 'p kube_config" where
  "remove_kube_dc_contexts srv cfg =
     (let left = filter (\<lambda>c. \<not> has_prefix (fst c) ''kube-dc/'') (contexts cfg) in
      cfg\<lparr>
        clusters := filter (\<lambda>c. \<not> (server (snd c) = srv \<and> has_prefix (fst c) ''kube-dc-'')) (clusters cfg),
        users := filter (\<lambda>u. \<not> has_prefix (fst u) ''kube-dc@'') (users cfg),
        contexts := left,
        current_context := (if has_prefix (current_context cfg) ''kube-dc/''
           then (case left of [] \<Rightarrow> [] | c # _ \<Rightarrow> fst c) else current_context cfg)\<rparr>)"

section \<open>The current context\<close>

definition set_current_context :: "string \<Rightarrow> 'p kube_config \<Rightarrow> kube_error + 'p kube_config" where
  "set_current_context name cfg =
     (if name \<in> fst ` set (contexts cfg) then Inr (cfg\<lparr>current_context := name\<rparr>)
      else Inl (Context_not_found name))"

fun set_first_namespace :: "string \<Rightarrow> string \<Rightarrow> (string \<times> ctx) list \<Rightarrow> (string \<times> ctx) list option" where
  "set_first_namespace cur ns [] = None"
| "set_first_namespace cur ns ((n, c) # cs) =
     (if n = cur then Some ((n, c\<lparr>ctx_namespace := ns\<rparr>) # cs)
      else map_option (Cons (n, c)) (set_first_namespace cur ns cs))"

definition set_namespace :: "string \<Rightarrow> 'p kube_config \<Rightarrow> kube_error + 'p kube_config" where
  "set_namespace ns cfg =
     (case set_first_namespace (current_context cfg) ns (contexts cfg) of
        None \<Rightarrow> Inl No_current_context
      | Some cs \<Rightarrow> Inr (cfg\<lparr>contexts := cs\<rparr>))"

definition list_kube_dc_contexts :: "'p kube_config \<Rightarrow> (string \<times> ctx) list" where
  "list_kube_dc_contexts cfg = filter (\<lambda>c. has_prefix (fst c) ''kube-dc/'') (contexts cfg)"

section \<open>The manager's operations on the file\<close>

text \<open>The requests, and what each makes of the configuration: an error, or nothing to save, or the
  configuration to save.\<close>

datatype kube_op =
    Add_context context_params | Remove_context string | Remove_kube_dc string
  | Set_current string | Set_namespace string

fun kube_step :: "kube_op \<Rightarrow> 'p kube_config \<Rightarrow> kube_error + 'p kube_config option" where
  "kube_step (Add_context p) cfg = Inr (Some (add_context p cfg))"
| "kube_step (Remove_context n) cfg = Inr (remove_context n cfg)"
| "kube_step (Remove_kube_dc s) cfg = Inr (Some (remove_kube_dc_contexts s cfg))"
| "kube_step (Set_current n) cfg = and_then (set_current_context n cfg) (\<lambda>c. Inr (Some c))"
| "kube_step (Set_namespace ns) cfg = and_then (set_namespace ns cfg) (\<lambda>c. Inr (Some c))"

definition kube_run :: "'p codec \<Rightarrow> kube_io \<Rightarrow> string \<Rightarrow> kube_op \<Rightarrow> fs \<Rightarrow> kube_error option \<times> fs" where
  "kube_run c io path op d =
     (case and_then (load_config c io path d) (kube_step op) of
        Inl e \<Rightarrow> (Some e, d)
      | Inr None \<Rightarrow> (None, d)
      | Inr (Some cfg) \<Rightarrow> save_config c io path cfg d)"


section \<open>References\<close>

text \<open>Every context names a cluster and a user that the file has.\<close>

definition linked :: "'p kube_config \<Rightarrow> bool" where
  "linked cfg \<longleftrightarrow> (\<forall>(n, c)\<in>set (contexts cfg).
     ctx_cluster c \<in> fst ` set (clusters cfg) \<and> ctx_user c \<in> fst ` set (users cfg))"

lemma linked_empty [wf_intro]: "linked (empty_config c)"
  by (simp add: linked_def empty_config_def)

lemma linked_add [wf_intro]: "linked cfg \<Longrightarrow> linked (add_context p cfg)"
  by (auto simp: linked_def add_context_def context_of_def dest!: upsert_set)

lemma names_kept: "x \<in> fst ` set es \<Longrightarrow> x \<noteq> y \<Longrightarrow> x \<in> fst ` {e \<in> set es. fst e \<noteq> y}"
  by force

lemma linked_remove [wf_intro]:
  assumes "linked cfg" "remove_context n cfg = Some cfg'"
  shows "linked cfg'"
proof -
  obtain v where v: "last_of (contexts cfg) n = Some v"
    using assms(2) by (auto simp: remove_context_def split: option.splits)
  let ?left = "filter (\<lambda>c. fst c \<noteq> n) (contexts cfg)"
  have eqs: "clusters cfg' = (if ctx_cluster v \<noteq> [] \<and> \<not> cluster_referenced (ctx_cluster v) ?left
        then filter (\<lambda>c. fst c \<noteq> ctx_cluster v) (clusters cfg) else clusters cfg)"
      "users cfg' = (if ctx_user v \<noteq> [] \<and> \<not> user_referenced (ctx_user v) ?left
        then filter (\<lambda>u. fst u \<noteq> ctx_user v) (users cfg) else users cfg)"
    using assms(2) v by (simp_all only: remove_context_def Let_def option.case option.inject)
      (erule subst, simp)+
  show ?thesis unfolding linked_def
  proof (clarify)
    fix m c
    assume "(m, c) \<in> set (contexts cfg')"
    then have c: "(m, c) \<in> set (contexts cfg)" "m \<noteq> n"
      using assms(2) v by (auto simp: remove_context_def Let_def)
    then have "cluster_referenced (ctx_cluster c) (filter (\<lambda>c. fst c \<noteq> n) (contexts cfg))"
      "user_referenced (ctx_user c) (filter (\<lambda>c. fst c \<noteq> n) (contexts cfg))"
      by (auto simp: cluster_referenced_def user_referenced_def)
    note left = this
    have "ctx_cluster c \<in> fst ` set (clusters cfg)" "ctx_user c \<in> fst ` set (users cfg)"
      using assms(1) c unfolding linked_def by blast+
    then show "ctx_cluster c \<in> fst ` set (clusters cfg') \<and> ctx_user c \<in> fst ` set (users cfg')"
      using assms(2) v left
      by (cases "ctx_cluster c = ctx_cluster v"; cases "ctx_user c = ctx_user v")
        (simp_all add: eqs names_kept)
  qed
qed

lemma set_first_namespace_same:
  "set_first_namespace cur ns cs = Some cs' \<Longrightarrow>
   map (\<lambda>c. (fst c, ctx_cluster (snd c), ctx_user (snd c))) cs' =
   map (\<lambda>c. (fst c, ctx_cluster (snd c), ctx_user (snd c))) cs"
  by (induction cur ns cs arbitrary: cs' rule: set_first_namespace.induct) (auto split: if_splits)

lemma linked_alt: "linked cfg \<longleftrightarrow>
   list_all (\<lambda>(n, cl, u). cl \<in> fst ` set (clusters cfg) \<and> u \<in> fst ` set (users cfg))
     (map (\<lambda>c. (fst c, ctx_cluster (snd c), ctx_user (snd c))) (contexts cfg))"
  by (simp add: linked_def list_all_iff case_prod_beta)

lemma linked_namespace [wf_intro]:
  "linked cfg \<Longrightarrow> set_namespace ns cfg = Inr cfg' \<Longrightarrow> linked cfg'"
  unfolding linked_alt set_namespace_def
  by (auto dest!: set_first_namespace_same split: option.splits)

lemma linked_current [wf_intro]:
  "linked cfg \<Longrightarrow> set_current_context n cfg = Inr cfg' \<Longrightarrow> linked cfg'"
  by (auto simp: linked_def set_current_context_def split: if_splits)

text \<open>The operations that name what they remove; \<open>Remove_kube_dc\<close> is the other one.\<close>

fun surgical :: "kube_op \<Rightarrow> bool" where
  "surgical (Remove_kube_dc _) = False"
| "surgical _ = True"

lemma linked_step:
  "linked cfg \<Longrightarrow> surgical op \<Longrightarrow> kube_step op cfg = Inr (Some cfg') \<Longrightarrow> linked cfg'"
  by (cases op) (auto simp: and_then_Inr_iff intro: wf_intro)

section \<open>Loads after saves\<close>

definition codec_ok :: "'p codec \<Rightarrow> bool" where
  "codec_ok c \<longleftrightarrow> (\<forall>cfg s. marshal c cfg = Inr s \<longrightarrow> unmarshal c s = Inr cfg)"

lemma load_save:
  assumes "codec_ok c" "save_config c io path cfg d = (None, d')" "\<not> unreadable io'"
  shows "load_config c io' path d' = Inr cfg"
  using assms
  by (auto simp: codec_ok_def save_config_def write_file_def load_config_def Let_def
      split: sum.splits option.splits)

lemma kube_save_frame: "p \<noteq> path \<Longrightarrow> snd (save_config c io path cfg d) p = d p"
  by (auto simp: save_config_def write_file_def Let_def split: sum.splits option.splits)

lemma run_frame: "p \<noteq> path \<Longrightarrow> snd (kube_run c io path op d) p = d p"
  by (auto simp: kube_run_def kube_save_frame split: sum.splits option.splits)

lemma load_readable:
  "load_config c io path d = Inr cfg \<Longrightarrow> \<not> unreadable io' \<Longrightarrow> load_config c io' path d = Inr cfg"
  by (auto simp: load_config_def split: if_splits)

text \<open>A run without a torn write saves the step's result or changes nothing.\<close>

lemma run_cases:
  assumes "write_cut io = None"
  obtains (kept) "snd (kube_run c io path op d) = d"
  | (saved) cfg cfg' where "load_config c io path d = Inr cfg" "kube_step op cfg = Inr (Some cfg')"
      "save_config c io path cfg' d = (None, snd (kube_run c io path op d))"
proof (cases "and_then (load_config c io path d) (kube_step op)")
  case (Inr r)
  note step = this
  then obtain cfg where cfg: "load_config c io path d = Inr cfg" "kube_step op cfg = Inr r"
    by (auto simp: and_then_Inr_iff)
  show ?thesis
  proof (cases r)
    case (Some cfg')
    show ?thesis
    proof (cases "marshal c cfg'")
      case Inl
      then show ?thesis using kept step Some by (simp add: kube_run_def save_config_def)
    next
      case (Inr s)
      then show ?thesis using saved [OF cfg(1)] cfg(2) step Some assms
        by (simp add: kube_run_def save_config_def write_file_def Let_def)
    qed
  qed (use kept step in \<open>simp add: kube_run_def\<close>)
qed (use kept in \<open>simp add: kube_run_def\<close>)

fun kube_session :: "'p codec \<Rightarrow> string \<Rightarrow> (kube_op \<times> kube_io) list \<Rightarrow> fs \<Rightarrow> fs" where
  "kube_session c path [] d = d"
| "kube_session c path ((op, io) # ops) d = kube_session c path ops (snd (kube_run c io path op d))"

definition sane :: kube_io where "sane = \<lparr>unreadable = False, write_cut = None\<rparr>"

lemma sane_simps [simp]: "\<not> unreadable sane" "write_cut sane = None"
  by (simp_all add: sane_def)

lemma run_linked:
  assumes "codec_ok c" "surgical op" "write_cut io = None"
    and "load_config c sane path d = Inr cfg" "linked cfg"
  shows "\<exists>cfg'. load_config c sane path (snd (kube_run c io path op d)) = Inr cfg' \<and> linked cfg'"
  using assms(3)
proof (cases rule: run_cases [of io c path op d])
  case (saved cfg1 cfg2)
  then have "load_config c sane path d = Inr cfg1" by (auto intro: load_readable)
  then have "cfg1 = cfg" using assms(4) by simp
  then show ?thesis
    using saved assms load_save [OF assms(1) saved(3), of sane] linked_step by auto
qed (use assms in simp)


section \<open>Properties\<close>

lemma add_context_entries:
  "map_of (clusters (add_context p cfg)) = (map_of (clusters cfg))(p_cluster p \<mapsto> cluster_of p) \<and>
   map_of (users (add_context p cfg)) = (map_of (users cfg))(p_user p \<mapsto> user_of p) \<and>
   map_of (contexts (add_context p cfg)) = (map_of (contexts cfg))(p_context p \<mapsto> context_of p) \<and>
   others (p_cluster p) (clusters (add_context p cfg)) = others (p_cluster p) (clusters cfg) \<and>
   others (p_user p) (users (add_context p cfg)) = others (p_user p) (users cfg) \<and>
   others (p_context p) (contexts (add_context p cfg)) = others (p_context p) (contexts cfg) \<and>
   current_context (add_context p cfg) = (if p_set_current p then p_context p else current_context cfg)"
  by (simp add: add_context_def map_of_upsert upsert_others)

lemma map_of_filter_out: "\<not> P k \<Longrightarrow> map_of (filter (\<lambda>e. P (fst e)) es) k = None"
  by (induction es) auto

lemma map_of_filter_in: "map_of es k = Some v \<Longrightarrow> P (k, v) \<Longrightarrow> map_of (filter P es) k = Some v"
  by (induction es) (auto split: if_splits)

text \<open>A login that succeeds (kube_run of Add_context reports no error) has added its
  context: with a YAML codec that reads back what it wrote, the next load of the file returns a
  configuration whose clusters, users and contexts hold the login's entries under the login's
  names and are otherwise what they were, in the same order; the current context changes
  exactly if the login asked for it; the cluster entry never carries both a CA and
  skip-TLS-verify, and skips verification exactly if the caller asked, and its CA data decodes to the CA given; no other file changes,
  and a file the login creates has mode 0600.\<close>

theorem login_adds_context:
  assumes codec: "\<And>cfg s. marshal c cfg = Inr s \<Longrightarrow> unmarshal c s = Inr cfg"
    and run: "kube_run c io path (Add_context p) d = (None, d')"
  shows "(\<exists>cfg cfg'. load_config c io path d = Inr cfg \<and> load_config c io path d' = Inr cfg' \<and>
     map_of (clusters cfg') = (map_of (clusters cfg))(p_cluster p \<mapsto> cluster_of p) \<and>
     map_of (users cfg') = (map_of (users cfg))(p_user p \<mapsto> user_of p) \<and>
     map_of (contexts cfg') = (map_of (contexts cfg))(p_context p \<mapsto> context_of p) \<and>
     others (p_cluster p) (clusters cfg') = others (p_cluster p) (clusters cfg) \<and>
     others (p_user p) (users cfg') = others (p_user p) (users cfg) \<and>
     others (p_context p) (contexts cfg') = others (p_context p) (contexts cfg) \<and>
     current_context cfg' = (if p_set_current p then p_context p else current_context cfg)) \<and>
   \<not> (skip_tls (cluster_of p) \<and> ca_data (cluster_of p) \<noteq> []) \<and>
   skip_tls (cluster_of p) = p_insecure p \<and>
   decode std_digits True (ca_data (cluster_of p)) = Some (if p_insecure p then [] else p_ca_cert p) \<and>
   d'(path := None) = d(path := None) \<and>
   (d path = None \<longrightarrow> map_option f_mode (d' path) = Some 384)"
proof -
  obtain cfg where cfg: "load_config c io path d = Inr cfg"
      "save_config c io path (add_context p cfg) d = (None, d')"
    using run by (auto simp: kube_run_def and_then_def split: sum.splits)
  have "\<not> unreadable io" using cfg(1) by (auto simp: load_config_def)
  then have "load_config c io path d' = Inr (add_context p cfg)"
    using load_save [of c, OF _ cfg(2)] codec by (simp add: codec_ok_def)
  moreover have "d'(path := None) = d(path := None)"
    using kube_save_frame [of _ path c io "add_context p cfg" d] cfg(2) by (auto simp: fun_eq_iff)
  moreover have "d path = None \<longrightarrow> map_option f_mode (d' path) = Some 384"
    using cfg(2) by (auto simp: save_config_def write_file_def Let_def split: sum.splits option.splits)
  moreover have "\<not> (skip_tls (cluster_of p) \<and> ca_data (cluster_of p) \<noteq> [])"
    "skip_tls (cluster_of p) = p_insecure p"
    by (simp_all add: cluster_of_def)
  moreover have "decode std_digits True (ca_data (cluster_of p)) = Some (if p_insecure p then [] else p_ca_cert p)"
    using decode_encode [of std_digits True "p_ca_cert p"] by (auto simp: cluster_of_def decode_def)
  ultimately show ?thesis
    using cfg(1) add_context_entries [of p cfg] by blast
qed

text \<open>A codec given by a finite table of configurations and their texts; it reads back what it
  writes when no text occurs twice.\<close>

definition table_codec :: "('p kube_config \<times> string) list \<Rightarrow> 'p \<Rightarrow> 'p codec" where
  "table_codec t prefs = \<lparr>marshal = (\<lambda>cfg. case map_of t cfg of Some s \<Rightarrow> Inr s | None \<Rightarrow> Inl []),
     unmarshal = (\<lambda>s. case find (\<lambda>e. snd e = s) t of Some e \<Rightarrow> Inr (fst e) | None \<Rightarrow> Inl []),
     no_preferences = prefs\<rparr>"

lemma find_snd: "distinct (map snd t) \<Longrightarrow> (x, s) \<in> set t \<Longrightarrow> find (\<lambda>e. snd e = s) t = Some (x, s)"
  by (induction t) force+

lemma table_codec_ok:
  assumes "distinct (map snd t)" "marshal (table_codec t prefs) cfg = Inr s"
  shows "unmarshal (table_codec t prefs) s = Inr cfg"
proof -
  have "(cfg, s) \<in> set t"
    using assms(2) by (auto simp: table_codec_def intro: map_of_SomeD split: option.splits)
  then show ?thesis using find_snd [OF assms(1)] by (simp add: table_codec_def)
qed

definition some_login :: context_params where
  "some_login = tenant_context_params ''cloud.test'' ''acme'' ''https://kube'' ''acme-dev'' [] False True"

definition no_login :: "unit kube_config" where
  "no_login = \<lparr>config_api_version = ''v1'', config_kind = ''Config'', current_context = [],
     clusters = [], contexts = [], users = [], preferences = ()\<rparr>"

definition one_login :: "unit kube_config" where
  "one_login = add_context some_login no_login"

definition small_codec :: "unit codec" where
  "small_codec = table_codec [(one_login, ''f''), (no_login, ''e'')] ()"

lemma small_codec_simps:
  "marshal small_codec one_login = Inr ''f''" "unmarshal small_codec ''f'' = Inr one_login"
  "marshal small_codec no_login = Inr ''e''" "unmarshal small_codec ''e'' = Inr no_login"
  "empty_config small_codec = no_login" "add_context some_login no_login = one_login"
  by (simp_all add: small_codec_def table_codec_def empty_config_def one_login_def no_login_def add_context_def)

lemma small_codec_ok: "marshal small_codec cfg = Inr s \<Longrightarrow> unmarshal small_codec s = Inr cfg"
  unfolding small_codec_def by (rule table_codec_ok) auto

lemma some_login_run:
  "kube_run small_codec sane ''kc'' (Add_context some_login) Map.empty =
     (None, [''kc'' \<mapsto> \<lparr>f_content = ''f'', f_mode = 384\<rparr>])"
  by (simp add: kube_run_def load_config_def save_config_def write_file_def small_codec_simps)

lemma login_adds_context_witness:
  "\<exists>cfg'. load_config small_codec sane ''kc'' [''kc'' \<mapsto> \<lparr>f_content = ''f'', f_mode = 384\<rparr>] = Inr cfg' \<and>
    current_context cfg' = ''kube-dc/cloud.test/acme/dev''"
  using login_adds_context [THEN conjunct1, OF small_codec_ok some_login_run]
  by (auto simp: some_login_def tenant_context_params_def trim_prefix_def)

text \<open>C14. References stay whole: whatever sequence of logins, removals of single contexts, context
  switches and namespace changes runs over the file, each with its own read and codec errors but
  none with a torn write, every context of the file names a cluster and a user that the file
  has, if that was so at the start.  So the removal's clean-up never takes a cluster or user that
  a remaining context uses.\<close>

theorem kube_links_kept:
  assumes codec: "\<And>cfg s. marshal c cfg = Inr s \<Longrightarrow> unmarshal c s = Inr cfg"
    and ops: "list_all (\<lambda>(op, io). surgical op \<and> write_cut io = None) ops"
    and start: "load_config c sane path d = Inr cfg" "linked cfg"
  shows "\<exists>cfg'. load_config c sane path (kube_session c path ops d) = Inr cfg' \<and> linked cfg'"
  using ops start
proof (induction ops arbitrary: d cfg)
  case (Cons step ops)
  obtain op io where step: "step = (op, io)" by (cases step)
  have "codec_ok c" using codec by (simp add: codec_ok_def)
  then obtain cfg' where "load_config c sane path (snd (kube_run c io path op d)) = Inr cfg'" "linked cfg'"
    using run_linked [of c op io path d cfg] Cons.prems step by auto
  then show ?case using Cons step by simp
qed auto

lemma kube_links_kept_witness:
  "\<exists>cfg'. load_config small_codec sane ''kc''
      (kube_session small_codec ''kc'' [(Add_context some_login, sane), (Set_namespace ''x'', sane),
         (Remove_context (p_context some_login), sane)] Map.empty) = Inr cfg' \<and> linked cfg'"
  by (rule kube_links_kept [OF small_codec_ok, where cfg = no_login])
    (simp_all add: load_config_def small_codec_simps, simp add: linked_def no_login_def)

text \<open>RemoveKubeDCContexts(server) removes more than its server's: after a tenant's login to a
  server, removing the contexts of any other server removes that login's context and user too,
  and leaves its cluster entry behind.\<close>

theorem logout_drops_other_servers:
  assumes "srv \<noteq> s"
  shows "let p = tenant_context_params domain org srv ns ca insecure current;
       cfg' = remove_kube_dc_contexts s (add_context p cfg) in
     map_of (contexts cfg') (p_context p) = None \<and> map_of (users cfg') (p_user p) = None \<and>
     map_of (clusters cfg') (p_cluster p) = Some (cluster_of p)"
proof -
  let ?p = "tenant_context_params domain org srv ns ca insecure current"
  let ?cfg = "remove_kube_dc_contexts s (add_context ?p cfg)"
  have "has_prefix (p_context ?p) ''kube-dc/''" "has_prefix (p_user ?p) ''kube-dc@''"
    "server (cluster_of ?p) \<noteq> s"
    using assms by (simp_all add: tenant_context_params_def cluster_of_def)
  then have "map_of (contexts ?cfg) (p_context ?p) = None \<and> map_of (users ?cfg) (p_user ?p) = None \<and>
      map_of (clusters ?cfg) (p_cluster ?p) = Some (cluster_of ?p)"
    using add_context_entries [of ?p cfg]
    by (simp add: remove_kube_dc_contexts_def Let_def map_of_filter_out [where P = "\<lambda>n. \<not> has_prefix n ''kube-dc/''"]
        map_of_filter_out [where P = "\<lambda>n. \<not> has_prefix n ''kube-dc@''"] map_of_filter_in)
  then show ?thesis by (simp only: Let_def)
qed

lemma logout_drops_other_servers_witness:
  "let p = tenant_context_params ''b.test'' ''acme'' ''https://b'' ''acme-dev'' [] False True;
       cfg' = remove_kube_dc_contexts ''https://a'' (add_context p no_login) in
     map_of (contexts cfg') (p_context p) = None \<and> map_of (users cfg') (p_user p) = None \<and>
     map_of (clusters cfg') (p_cluster p) = Some (cluster_of p)"
  by (rule logout_drops_other_servers) simp

end
