(* ===== verification/Jwt.thy ===== *)
theory Jwt
  imports Base64
begin

text \<open>
  \<open>src/cli/internal/jwt/claims.go\<close>: reading the claims of a token without verifying its
  signature.  The JSON decoder of the claims is a parameter.
\<close>

text \<open>A JSON value as far as the audience claim looks at it.\<close>

datatype json_any = J_string string | J_list "json_any list" | J_other

record claims =
  issuer :: string
  subject :: string
  audience :: json_any
  expires_at :: int
  issued_at :: int
  claim_email :: string
  claim_org :: string
  claim_groups :: "string list"
  claim_namespaces :: "string list"
  preferred_username :: string
  full_name :: string
  given_name :: string
  family_name :: string

datatype jwt_error = Bad_format | Bad_payload | Bad_claims

definition add_padding :: "string \<Rightarrow> string" where
  "add_padding s = (if length s mod 4 = 2 then s @ ''=='' else if length s mod 4 = 3 then s @ ''='' else s)"

definition parse_token :: "(string \<Rightarrow> claims option) \<Rightarrow> string \<Rightarrow> jwt_error + claims" where
  "parse_token dec token =
     (case split_on (CHR ''.'') token of
        [h, body, sig] \<Rightarrow>
          (let payload = (case decode url_digits False body of
                Some p \<Rightarrow> Some p
              | None \<Rightarrow> decode std_digits True (add_padding body)) in
           case payload of
             None \<Rightarrow> Inl Bad_payload
           | Some p \<Rightarrow> (case dec p of None \<Rightarrow> Inl Bad_claims | Some c \<Rightarrow> Inr c))
      | _ \<Rightarrow> Inl Bad_format)"

definition is_expired :: "int \<Rightarrow> claims \<Rightarrow> bool" where
  "is_expired now_unix c \<longleftrightarrow> now_unix \<ge> expires_at c"

text \<open>Times are nanoseconds since the zero time of Go, 1 January of year 1 UTC.\<close>

type_synonym time = int

definition unix_time :: "int \<Rightarrow> time" where
  "unix_time s = (s + 62135596800) * 1000000000"

definition expiry_time :: "claims \<Rightarrow> time" where
  "expiry_time c = unix_time (expires_at c)"

definition expires_in :: "time \<Rightarrow> claims \<Rightarrow> int" where
  "expires_in now c = expiry_time c - now"

fun get_audience :: "json_any \<Rightarrow> string list" where
  "get_audience (J_string s) = [s]"
| "get_audience (J_list vs) = concat (map (\<lambda>v. case v of J_string s \<Rightarrow> [s] | _ \<Rightarrow> []) vs)"
| "get_audience J_other = []"

section \<open>Reading what an issuer writes\<close>

lemma add_padding_eq: "add_padding s = s @ padding (length s)"
  by (simp add: add_padding_def padding_def)

lemma add_padding_raw: "add_padding (encode std_digits False p) = encode std_digits True p"
  by (simp add: add_padding_eq encode_padded)

lemma add_padding_padded: "add_padding (encode std_digits True p) = encode std_digits True p"
  using encode_True_length [of std_digits p] by (simp add: add_padding_def)

lemma payload_read:
  assumes "e \<in> {encode url_digits False p, encode std_digits True p, encode std_digits False p}"
  shows "(case decode url_digits False e of Some q \<Rightarrow> Some q | None \<Rightarrow> decode std_digits True (add_padding e)) = Some p"
proof (cases "decode url_digits False e")
  case None
  have "e \<noteq> encode url_digits False p"
    using None decode_encode [of url_digits False p] by auto
  then have "add_padding e = encode std_digits True p"
    using assms add_padding_raw add_padding_padded by auto
  then show ?thesis using None decode_encode [of std_digits True p] by simp
next
  case (Some q)
  then have "q = p"
    using assms decode_encode [of url_digits False p] decode_url_std [of _ p q] by auto
  then show ?thesis using Some by simp
qed

lemma no_dot: "CHR ''.'' \<notin> set (encode url_digits padded p)" "CHR ''.'' \<notin> set (encode std_digits padded p)"
  using encode_set [OF url_alphabet, of padded p] encode_set [OF std_alphabet, of padded p]
  by (auto simp: url_digits_def std_digits_def)

text \<open>ParseToken reads the payload of a token of three parts in each of the encodings issuers
  use, URL-safe without padding, standard with padding and standard without: the claims are the
  decoded JSON of the bytes the issuer encoded, and a payload that is no claims object is
  refused.\<close>

theorem token_payload_read:
  assumes "CHR ''.'' \<notin> set h" "CHR ''.'' \<notin> set sg"
    and "e \<in> {encode url_digits False p, encode std_digits True p, encode std_digits False p}"
  shows "parse_token dec (h @ ''.'' @ e @ ''.'' @ sg) =
     (case dec p of None \<Rightarrow> Inl Bad_claims | Some c \<Rightarrow> Inr c)"
proof -
  have "CHR ''.'' \<notin> set e" using assms(3) no_dot by auto
  then have "split_on (CHR ''.'') (h @ ''.'' @ e @ ''.'' @ sg) = [h, e, sg]"
    using assms(1,2) by (simp add: split_on_append split_on_id)
  then show ?thesis using payload_read [OF assms(3)] by (simp add: parse_token_def)
qed

lemma token_payload_read_witness:
  "\<exists>c. parse_token (\<lambda>p. if p = ''{}'' then Some \<lparr>issuer = [], subject = [], audience = J_other, expires_at = 0,
      issued_at = 0, claim_email = [], claim_org = [], claim_groups = [], claim_namespaces = [],
      preferred_username = [], full_name = [], given_name = [], family_name = []\<rparr> else None) ''aa.e30=.cc'' = Inr c"
proof -
  have "encode std_digits True ''{}'' = ''e30=''" by (simp add: encode_quantum_def std_digits_def)
  then show ?thesis using token_payload_read [of "''aa''" "''cc''" "''e30=''" "''{}''"] by simp
qed

end
