(* ===== verification/Credentials.thy ===== *)
theory Credentials
  imports Jwt Key_Value
begin

text \<open>
  The credential cache of the CLI and the exec plugin that serves kubectl from it:
  \<open>src/cli/internal/config/credentials.go\<close> and \<open>src/cli/pkg/credential/exec.go\<close>, with the token
  refresh of \<open>src/cli/internal/auth\<close>.  Parameters are SHA-256, the JSON codecs, the HTTP client,
  the clock and the faults of the file system.
\<close>

section \<open>The cache directory\<close>

record user_info =
  email :: string
  org :: string
  groups :: "string list"
  namespaces :: "string list"

record credentials =
  cred_server :: string
  keycloak_url :: string
  realm :: string
  client_id :: string
  access_token :: string
  refresh_token :: string
  id_token :: string
  access_token_expiry :: time
  refresh_token_expiry :: time
  user :: user_info
  ca_cert :: string
  insecure :: bool
  created_at :: time
  updated_at :: time

text \<open>A directory entry, by file name in the cache directory.\<close>

datatype node = Regular string | Inaccessible | Directory

type_synonym cred_dir = "(string \<times> node) list"

record cred_codec =
  enc_creds :: "credentials \<Rightarrow> string option"
  dec_creds :: "string \<Rightarrow> credentials option"
  sha256 :: "string \<Rightarrow> string"

datatype write_fault = Write_ok | Open_fails | Torn string

text \<open>The faults of one call: the directory cannot be listed, a file cannot be removed, the
  file cannot be opened for writing, or the write stops after a part.\<close>

record cred_io =
  list_fails :: bool
  remove_fails :: "string \<Rightarrow> bool"
  write_fault :: write_fault

datatype read_error = Not_exist | Read_error | Parse_error

datatype cred_error =
    No_credentials | Ambiguous nat | Broken read_error | Encode_error | Write_error
  | Remove_error string | List_error

section \<open>File names\<close>

definition hex_digits :: string where "hex_digits = ''0123456789abcdef''"

definition hex_encode :: "string \<Rightarrow> string" where
  "hex_encode s = concat (map (\<lambda>c. [hex_digits ! (of_char c div 16), hex_digits ! (of_char c mod 16)]) s)"

definition server_hash :: "cred_codec \<Rightarrow> string \<Rightarrow> string" where
  "server_hash cc s = hex_encode (take 8 (sha256 cc s))"

definition slug_char :: "char \<Rightarrow> bool" where
  "slug_char c \<longleftrightarrow> (let n = of_char c :: nat in
     (97 \<le> n \<and> n \<le> 122) \<or> (65 \<le> n \<and> n \<le> 90) \<or> (48 \<le> n \<and> n \<le> 57) \<or>
     c = CHR ''-'' \<or> c = CHR ''_'' \<or> c = CHR ''.'')"

definition slugify :: "string \<Rightarrow> string" where
  "slugify s = (let out = filter slug_char s in if out = [] then ''default'' else out)"

definition legacy_path :: "cred_codec \<Rightarrow> string \<Rightarrow> string" where
  "legacy_path cc s = server_hash cc s @ ''.json''"

definition realm_path :: "cred_codec \<Rightarrow> string \<Rightarrow> string \<Rightarrow> string" where
  "realm_path cc s r = server_hash cc s @ ''-'' @ slugify r @ ''.json''"

section \<open>Loading\<close>

definition read_credentials :: "cred_codec \<Rightarrow> cred_dir \<Rightarrow> string \<Rightarrow> read_error + credentials" where
  "read_credentials cc d name =
     (case map_of d name of
        None \<Rightarrow> Inl Not_exist
      | Some (Regular txt) \<Rightarrow> (case dec_creds cc txt of None \<Rightarrow> Inl Parse_error | Some c \<Rightarrow> Inr c)
      | Some _ \<Rightarrow> Inl Read_error)"

definition realm_matches :: "cred_codec \<Rightarrow> cred_io \<Rightarrow> cred_dir \<Rightarrow> string \<Rightarrow> cred_error + string list" where
  "realm_matches cc io d s =
     (if list_fails io then Inl List_error
      else let p = server_hash cc s @ ''-'' in
        Inr (map fst (filter (\<lambda>(name, n). n \<noteq> Directory \<and> suffix ''.json'' name \<and>
          length name > length p \<and> has_prefix name p) d)))"

definition load_creds :: "cred_codec \<Rightarrow> cred_io \<Rightarrow> cred_dir \<Rightarrow> string \<Rightarrow> cred_error + credentials" where
  "load_creds cc io d s =
     (case read_credentials cc d (legacy_path cc s) of
        Inr c \<Rightarrow> Inr c
      | Inl e \<Rightarrow>
          if e \<noteq> Not_exist then Inl (Broken e)
          else (case realm_matches cc io d s of
              Inl e \<Rightarrow> Inl e
            | Inr [] \<Rightarrow> Inl No_credentials
            | Inr [m] \<Rightarrow> (case read_credentials cc d m of Inl e \<Rightarrow> Inl (Broken e) | Inr c \<Rightarrow> Inr c)
            | Inr ms \<Rightarrow> Inl (Ambiguous (length ms))))"

definition load_for_realm ::
    "cred_codec \<Rightarrow> cred_io \<Rightarrow> cred_dir \<Rightarrow> string \<Rightarrow> string \<Rightarrow> cred_error + credentials" where
  "load_for_realm cc io d s r =
     (if r = [] then load_creds cc io d s
      else case read_credentials cc d (realm_path cc s r) of
        Inr c \<Rightarrow> Inr c
      | Inl e \<Rightarrow>
          if e \<noteq> Not_exist then Inl (Broken e)
          else (case read_credentials cc d (legacy_path cc s) of
              Inr c \<Rightarrow> if realm c = r then Inr c else Inl No_credentials
            | Inl _ \<Rightarrow> Inl No_credentials))"

section \<open>Saving and deleting\<close>

definition del_file :: "string \<Rightarrow> cred_dir \<Rightarrow> cred_dir" where
  "del_file name d = filter (\<lambda>f. fst f \<noteq> name) d"

text \<open>The times \<open>Save\<close> stamps.\<close>

definition stamp :: "time \<Rightarrow> credentials \<Rightarrow> credentials" where
  "stamp now c = c\<lparr>updated_at := now, created_at := (if created_at c = 0 then now else created_at c)\<rparr>"

definition file_of :: "cred_codec \<Rightarrow> credentials \<Rightarrow> string" where
  "file_of cc c = (if realm c \<noteq> [] then realm_path cc (cred_server c) (realm c) else legacy_path cc (cred_server c))"

definition save_creds ::
    "cred_codec \<Rightarrow> cred_io \<Rightarrow> time \<Rightarrow> credentials \<Rightarrow> cred_dir \<Rightarrow> cred_error option \<times> cred_dir" where
  "save_creds cc io now c d =
     (case enc_creds cc (stamp now c) of
        None \<Rightarrow> (Some Encode_error, d)
      | Some txt \<Rightarrow>
          if map_of d (file_of cc c) \<in> {Some Directory, Some Inaccessible} then (Some Write_error, d)
          else (case write_fault io of
              Open_fails \<Rightarrow> (Some Write_error, d)
            | Torn part \<Rightarrow> (Some Write_error, upsert (file_of cc c) (Regular part) d)
            | Write_ok \<Rightarrow> (None, upsert (file_of cc c) (Regular txt) d)))"

text \<open>\<open>os.Remove\<close>; removing what is not there is no error for its callers.\<close>

definition remove_one :: "cred_io \<Rightarrow> string \<Rightarrow> cred_dir \<Rightarrow> cred_error option \<times> cred_dir" where
  "remove_one io name d =
     (if name \<notin> fst ` set d then (None, d)
      else if remove_fails io name then (Some (Remove_error name), d)
      else (None, del_file name d))"

fun remove_each :: "cred_io \<Rightarrow> string list \<Rightarrow> cred_dir \<Rightarrow> cred_error option \<times> cred_dir" where
  "remove_each io [] d = (None, d)"
| "remove_each io (n # ns) d =
     (case remove_one io n d of (Some e, d') \<Rightarrow> (Some e, d') | (None, d') \<Rightarrow> remove_each io ns d')"

definition delete_creds :: "cred_codec \<Rightarrow> cred_io \<Rightarrow> string \<Rightarrow> cred_dir \<Rightarrow> cred_error option \<times> cred_dir" where
  "delete_creds cc io s d =
     (case remove_one io (legacy_path cc s) d of
        (Some e, d') \<Rightarrow> (Some e, d')
      | (None, d') \<Rightarrow>
          (case realm_matches cc io d' s of
             Inl e \<Rightarrow> (Some e, d')
           | Inr ms \<Rightarrow> remove_each io ms d'))"

definition delete_for_realm ::
    "cred_codec \<Rightarrow> cred_io \<Rightarrow> string \<Rightarrow> string \<Rightarrow> cred_dir \<Rightarrow> cred_error option \<times> cred_dir" where
  "delete_for_realm cc io s r d =
     remove_one io (if r = [] then legacy_path cc s else realm_path cc s r) d"

definition list_creds :: "cred_codec \<Rightarrow> cred_io \<Rightarrow> cred_dir \<Rightarrow> cred_error + credentials list" where
  "list_creds cc io d =
     (if list_fails io then Inl List_error
      else Inr (concat (map (\<lambda>(name, n). case n of
          Regular txt \<Rightarrow> if suffix ''.json'' name
             then (case dec_creds cc txt of Some c \<Rightarrow> [c] | None \<Rightarrow> []) else []
        | _ \<Rightarrow> []) d)))"

definition access_valid :: "time \<Rightarrow> credentials \<Rightarrow> bool" where
  "access_valid now c \<longleftrightarrow> now + 30 * 1000000000 < access_token_expiry c"

definition refresh_valid :: "time \<Rightarrow> credentials \<Rightarrow> bool" where
  "refresh_valid now c \<longleftrightarrow> now + 60 * 1000000000 < refresh_token_expiry c"

section \<open>Refreshing a token\<close>

record token_response =
  new_access :: string
  new_refresh :: string
  new_id :: string
  refresh_expires_in :: int

text \<open>The world of one plugin call: the CA and the skip-verify flag go to the HTTP client, which
  answers a POST with a status and a body, or not at all; two readings of the clock and the one of
  the save.\<close>

record plugin_env =
  http_post :: "string \<Rightarrow> (string \<times> string) list \<Rightarrow> string \<Rightarrow> bool \<Rightarrow> (nat \<times> string) option"
  dec_tokens :: "string \<Rightarrow> token_response option"
  dec_claims :: "string \<Rightarrow> claims option"
  now_check :: time
  now_refresh :: time
  now_save :: time
  in_cloud_shell :: bool
  rfc3339 :: "time \<Rightarrow> string"

definition refresh_request :: "plugin_env \<Rightarrow> credentials \<Rightarrow> token_response option" where
  "refresh_request env c =
     (case http_post env (keycloak_url c @ ''/realms/'' @ realm c @ ''/protocol/openid-connect/token'')
         [(''grant_type'', ''refresh_token''), (''client_id'', client_id c), (''refresh_token'', refresh_token c)]
         (ca_cert c) (insecure c) of
        None \<Rightarrow> None
      | Some (status, body) \<Rightarrow> if status \<noteq> 200 then None else dec_tokens env body)"

definition refreshed :: "time \<Rightarrow> token_response \<Rightarrow> claims \<Rightarrow> credentials \<Rightarrow> credentials" where
  "refreshed now t cl c = c\<lparr>
     access_token := new_access t,
     refresh_token := new_refresh t,
     access_token_expiry := expiry_time cl,
     refresh_token_expiry := now + (if refresh_expires_in t \<le> 0 then 30 * 24 * 3600 * 1000000000
        else int64 (refresh_expires_in t * 1000000000)),
     id_token := (if new_id t \<noteq> [] then new_id t else id_token c),
     user := \<lparr>email = claim_email cl, org = claim_org cl, groups = claim_groups cl, namespaces = claim_namespaces cl\<rparr>\<rparr>"

fun leftmost :: "(string \<Rightarrow> string option) \<Rightarrow> string \<Rightarrow> string option" where
  "leftmost m [] = m []"
| "leftmost m (c # s) = (case m (c # s) of Some h \<Rightarrow> Some h | None \<Rightarrow> leftmost m s)"

definition after_scheme :: "string \<Rightarrow> string option" where
  "after_scheme s = (if has_prefix s ''https://'' then Some (drop 8 s)
     else if has_prefix s ''http://'' then Some (drop 7 s) else None)"

definition host_at :: "string \<Rightarrow> string \<Rightarrow> string option" where
  "host_at lead s =
     (case after_scheme s of
        None \<Rightarrow> None
      | Some r \<Rightarrow>
          (let h = takeWhile (\<lambda>c. c \<noteq> CHR '':'' \<and> c \<noteq> CHR ''/'') (drop (length lead) r) in
           if has_prefix r lead \<and> h \<noteq> [] then Some h else None))"

definition extract_domain :: "string \<Rightarrow> string" where
  "extract_domain s =
     (case leftmost (host_at ''kube-api.'') s of
        Some h \<Rightarrow> h
      | None \<Rightarrow> (case leftmost (host_at []) s of Some h \<Rightarrow> h | None \<Rightarrow> s))"

definition relogin_cmd :: "plugin_env \<Rightarrow> string \<Rightarrow> string \<Rightarrow> string" where
  "relogin_cmd env s r =
     (if in_cloud_shell env then ''close this shell and open a new one from the console (the shell's credential is issued when it starts, and cannot be renewed from inside)''
      else if r = ''master'' then ''kube-dc login --domain '' @ extract_domain s @ '' --admin''
      else if r \<noteq> [] then ''kube-dc login --domain '' @ extract_domain s @ '' --org '' @ r
      else ''kube-dc login --domain '' @ extract_domain s @ '' --org <your-org>'')"

datatype plugin_error =
    Not_logged_in string | No_refresh_token string | Session_expired string | Bad_token jwt_error

record exec_credential =
  token :: string
  expiration :: string

definition build_exec_credential :: "plugin_env \<Rightarrow> string \<Rightarrow> time \<Rightarrow> exec_credential" where
  "build_exec_credential env tok expiry = \<lparr>token = tok, expiration = rfc3339 env expiry\<rparr>"

text \<open>The credentials a call works with and the directory it leaves; a failed save of refreshed
  credentials is a warning.\<close>

definition load_and_refresh ::
    "cred_codec \<Rightarrow> cred_io \<Rightarrow> plugin_env \<Rightarrow> string \<Rightarrow> string \<Rightarrow> cred_dir \<Rightarrow> (plugin_error + credentials) \<times> cred_dir" where
  "load_and_refresh cc io env s r d =
     (case load_for_realm cc io d s r of
        Inl _ \<Rightarrow> (Inl (Not_logged_in (relogin_cmd env s r)), d)
      | Inr c \<Rightarrow>
          if access_valid (now_check env) c then (Inr c, d)
          else if refresh_token c = [] then (Inl (No_refresh_token (relogin_cmd env s (realm c))), d)
          else (case refresh_request env c of
              None \<Rightarrow> (Inl (Session_expired (relogin_cmd env s (realm c))), d)
            | Some t \<Rightarrow>
                (case parse_token (dec_claims env) (new_access t) of
                   Inl e \<Rightarrow> (Inl (Bad_token e), d)
                 | Inr cl \<Rightarrow>
                     (let c' = refreshed (now_refresh env) t cl c in
                      (Inr (stamp (now_save env) c'), snd (save_creds cc io (now_save env) c' d))))))"

definition get_credential ::
    "cred_codec \<Rightarrow> cred_io \<Rightarrow> plugin_env \<Rightarrow> string \<Rightarrow> string \<Rightarrow> cred_dir \<Rightarrow> (plugin_error + exec_credential) \<times> cred_dir" where
  "get_credential cc io env s r d =
     (case load_and_refresh cc io env s r d of
        (Inl e, d') \<Rightarrow> (Inl e, d')
      | (Inr c, d') \<Rightarrow> (Inr (build_exec_credential env (access_token c) (access_token_expiry c)), d'))"


section \<open>File names tell identities apart\<close>

lemma hex_length: "length (hex_encode s) = 2 * length s"
  by (induction s) (simp_all add: hex_encode_def)

text \<open>SHA-256 yields 32 bytes.\<close>

definition sha_ok :: "cred_codec \<Rightarrow> bool" where
  "sha_ok cc \<longleftrightarrow> (\<forall>s. length (sha256 cc s) = 32)"

lemma hash_length: "sha_ok cc \<Longrightarrow> length (server_hash cc s) = 16"
  by (simp add: server_hash_def hex_length sha_ok_def)

lemma realm_path_eq:
  assumes "sha_ok cc" "realm_path cc s r = realm_path cc s' r'"
  shows "server_hash cc s = server_hash cc s'" "slugify r = slugify r'"
  using assms by (auto simp: realm_path_def hash_length append_eq_append_conv)

lemma realm_not_legacy: "sha_ok cc \<Longrightarrow> realm_path cc s r \<noteq> legacy_path cc s'"
  by (auto simp: realm_path_def legacy_path_def hash_length append_eq_append_conv)

lemma legacy_path_eq: "legacy_path cc s = legacy_path cc s' \<longleftrightarrow> server_hash cc s = server_hash cc s'"
  by (simp add: legacy_path_def)

lemmas path_facts = realm_not_legacy realm_not_legacy [THEN not_sym] legacy_path_eq

lemma slug_clean: "list_all slug_char r \<Longrightarrow> r \<noteq> [] \<Longrightarrow> slugify r = r"
  by (simp add: slugify_def Let_def list_all_iff filter_id_conv)

section \<open>The cache's invariant\<close>

text \<open>Every file that decodes has the name of the identity it holds, or the name all logins of its
  server had before names carried realms.\<close>

definition named_right :: "cred_codec \<Rightarrow> string \<times> node \<Rightarrow> bool" where
  "named_right cc f = (case f of
      (name, Regular txt) \<Rightarrow> (case dec_creds cc txt of
          None \<Rightarrow> True
        | Some c \<Rightarrow> name = file_of cc c \<or> name = legacy_path cc (cred_server c))
    | _ \<Rightarrow> True)"

definition own_names :: "cred_codec \<Rightarrow> cred_dir \<Rightarrow> bool" where
  "own_names cc d \<longleftrightarrow> list_all (named_right cc) d"

definition cred_codec_ok :: "cred_codec \<Rightarrow> bool" where
  "cred_codec_ok cc \<longleftrightarrow> (\<forall>c txt. enc_creds cc c = Some txt \<longrightarrow> dec_creds cc txt = Some c)"

text \<open>A torn write leaves no decodable file: a part of a JSON object is no JSON object.\<close>

fun fault_ok :: "cred_codec \<Rightarrow> write_fault \<Rightarrow> bool" where
  "fault_ok cc (Torn part) \<longleftrightarrow> dec_creds cc part = None"
| "fault_ok cc _ \<longleftrightarrow> True"

lemma file_of_stamp [simp]: "file_of cc (stamp now c) = file_of cc c"
  by (simp add: file_of_def stamp_def)

lemma own_names_upsert [wf_intro]:
  "own_names cc d \<Longrightarrow> named_right cc (n, x) \<Longrightarrow> own_names cc (upsert n x d)"
  unfolding own_names_def list_all_iff by (auto dest!: upsert_set)

lemma own_names_sub: "own_names cc d \<Longrightarrow> set d' \<subseteq> set d \<Longrightarrow> own_names cc d'"
  by (auto simp: own_names_def list_all_iff)

lemma own_names_save [wf_intro]:
  assumes "own_names cc d" "cred_codec_ok cc" "fault_ok cc (write_fault io)"
  shows "own_names cc (snd (save_creds cc io now c d))"
proof (cases "enc_creds cc (stamp now c)")
  case (Some js)
  then have "named_right cc (file_of cc c, Regular js)"
    using assms(2) by (simp add: named_right_def cred_codec_ok_def)
  moreover have "fault_ok cc (Torn part) \<Longrightarrow> named_right cc (file_of cc c, Regular part)" for part
    by (simp add: named_right_def)
  ultimately show ?thesis using assms Some
    by (cases "write_fault io") (auto simp: save_creds_def intro: wf_intro)
qed (use assms in \<open>simp add: save_creds_def\<close>)

lemma remove_one_sub: "set (snd (remove_one io n d)) \<subseteq> set d"
  by (auto simp: remove_one_def del_file_def)

lemma remove_each_sub: "set (snd (remove_each io ns d)) \<subseteq> set d"
proof (induction io ns d rule: remove_each.induct)
  case (2 io n ns d)
  then show ?case using remove_one_sub [of io n d] by (force split: prod.splits option.splits)
qed simp

lemma delete_creds_sub: "set (snd (delete_creds cc io s d)) \<subseteq> set d"
  using remove_one_sub [of io "legacy_path cc s" d] remove_each_sub [of io]
  by (force simp: delete_creds_def split: prod.splits option.splits sum.splits)

lemma delete_for_realm_sub: "set (snd (delete_for_realm cc io s r d)) \<subseteq> set d"
  by (simp add: delete_for_realm_def remove_one_sub)

text \<open>A plugin call changes the directory by a save or not at all.\<close>

lemma get_credential_dir: "snd (get_credential cc io env s r d) = snd (load_and_refresh cc io env s r d)"
  by (auto simp: get_credential_def split: prod.splits sum.splits)

lemma plugin_dir_cases:
  obtains (kept) "snd (load_and_refresh cc io env s r d) = d"
  | (saved) c t cl where "load_for_realm cc io d s r = Inr c" "\<not> access_valid (now_check env) c"
      "refresh_request env c = Some t" "parse_token (dec_claims env) (new_access t) = Inr cl"
      "load_and_refresh cc io env s r d =
        (Inr (stamp (now_save env) (refreshed (now_refresh env) t cl c)),
         snd (save_creds cc io (now_save env) (refreshed (now_refresh env) t cl c) d))"
proof (cases "load_for_realm cc io d s r")
  case (Inr c)
  show ?thesis
  proof (cases "access_valid (now_check env) c \<or> refresh_token c = [] \<or> refresh_request env c = None")
    case False
    then obtain t where t: "refresh_request env c = Some t" by auto
    show ?thesis
    proof (cases "parse_token (dec_claims env) (new_access t)")
      case (Inr cl)
      then show ?thesis using saved [OF \<open>load_for_realm cc io d s r = Inr c\<close> _ t Inr] False t
        by (simp add: load_and_refresh_def \<open>load_for_realm cc io d s r = Inr c\<close> Let_def)
    qed (use Inr False t kept in \<open>simp add: load_and_refresh_def\<close>)
  qed (use Inr kept in \<open>auto simp: load_and_refresh_def\<close>)
qed (use kept in \<open>simp add: load_and_refresh_def\<close>)

datatype cred_op =
    Op_save cred_io time credentials
  | Op_delete cred_io string
  | Op_delete_realm cred_io string string
  | Op_plugin cred_io plugin_env string string

fun op_io :: "cred_op \<Rightarrow> cred_io" where
  "op_io (Op_save io _ _) = io"
| "op_io (Op_delete io _) = io"
| "op_io (Op_delete_realm io _ _) = io"
| "op_io (Op_plugin io _ _ _) = io"

fun cred_step :: "cred_codec \<Rightarrow> cred_op \<Rightarrow> cred_dir \<Rightarrow> cred_dir" where
  "cred_step cc (Op_save io now c) d = snd (save_creds cc io now c d)"
| "cred_step cc (Op_delete io s) d = snd (delete_creds cc io s d)"
| "cred_step cc (Op_delete_realm io s r) d = snd (delete_for_realm cc io s r d)"
| "cred_step cc (Op_plugin io env s r) d = snd (get_credential cc io env s r d)"

lemma own_names_step [wf_intro]:
  assumes "own_names cc d" "cred_codec_ok cc" "fault_ok cc (write_fault (op_io op))"
  shows "own_names cc (cred_step cc op d)"
proof (cases op)
  case (Op_plugin io env s r)
  then show ?thesis using assms
    by (cases rule: plugin_dir_cases [of cc io env s r d]) (simp_all add: get_credential_dir own_names_save)
qed (use assms own_names_sub delete_creds_sub delete_for_realm_sub in \<open>auto intro: own_names_save\<close>)

definition cred_session :: "cred_codec \<Rightarrow> cred_op list \<Rightarrow> cred_dir \<Rightarrow> cred_dir" where
  "cred_session cc ops d = foldl (\<lambda>d op. cred_step cc op d) d ops"

lemma own_names_session:
  "own_names cc d \<Longrightarrow> cred_codec_ok cc \<Longrightarrow> list_all (\<lambda>op. fault_ok cc (write_fault (op_io op))) ops \<Longrightarrow>
   own_names cc (cred_session cc ops d)"
  unfolding cred_session_def by (induction ops arbitrary: d) (auto intro: wf_intro)

lemma read_named_right:
  assumes "own_names cc d" "read_credentials cc d name = Inr c"
  shows "name = file_of cc c \<or> name = legacy_path cc (cred_server c)"
proof -
  obtain js where "(name, Regular js) \<in> set d" "dec_creds cc js = Some c"
    using assms(2) by (auto simp: read_credentials_def dest!: map_of_SomeD split: option.splits node.splits)
  then show ?thesis using assms(1) by (auto simp: own_names_def list_all_iff named_right_def dest!: bspec)
qed

lemma load_for_realm_identity:
  assumes "sha_ok cc" "own_names cc d" "r \<noteq> []" "load_for_realm cc io d s r = Inr c"
  shows "slugify (realm c) = slugify r \<and> server_hash cc (cred_server c) = server_hash cc s"
proof (cases "read_credentials cc d (realm_path cc s r)")
  case (Inr c')
  then have "c' = c" using assms(3,4) by (simp add: load_for_realm_def)
  then have f: "realm_path cc s r = file_of cc c"
    using read_named_right [OF assms(2) Inr] realm_not_legacy [OF assms(1), of s r] by simp
  then have "realm c \<noteq> []"
    using realm_not_legacy [OF assms(1), of s r "cred_server c"] by (simp add: file_of_def split: if_splits)
  with f have "realm_path cc s r = realm_path cc (cred_server c) (realm c)" by (simp add: file_of_def)
  then show ?thesis using realm_path_eq [OF assms(1)] by metis
next
  case (Inl e)
  then have "read_credentials cc d (legacy_path cc s) = Inr c" "realm c = r"
    using assms(3,4) by (auto simp: load_for_realm_def split: if_splits sum.splits)
  then have "legacy_path cc s = legacy_path cc (cred_server c)"
    using read_named_right [OF assms(2), of "legacy_path cc s" c] assms(3)
      realm_not_legacy [OF assms(1), of "cred_server c" "realm c" s]
    by (auto simp: file_of_def)
  then show ?thesis using \<open>realm c = r\<close> by (simp add: legacy_path_eq)
qed


section \<open>Saves and later loads\<close>

lemma save_others: "others (file_of cc c) (snd (save_creds cc io now c d)) = others (file_of cc c) d"
  by (auto simp: save_creds_def upsert_others split: option.splits write_fault.splits)

lemma save_frame: "name \<noteq> file_of cc c \<Longrightarrow> map_of (snd (save_creds cc io now c d)) name = map_of d name"
  by (auto simp: save_creds_def map_of_upsert split: option.splits write_fault.splits)

lemma save_load:
  assumes "cred_codec_ok cc" "save_creds cc io now c d = (None, d')" "realm c \<noteq> []"
  shows "load_for_realm cc io' d' (cred_server c) (realm c) = Inr (stamp now c)"
proof -
  obtain js where "enc_creds cc (stamp now c) = Some js" "d' = upsert (file_of cc c) (Regular js) d"
    using assms(2) by (auto simp: save_creds_def split: option.splits write_fault.splits if_splits)
  then show ?thesis using assms(1,3)
    by (simp add: load_for_realm_def read_credentials_def map_of_upsert file_of_def cred_codec_ok_def)
qed

lemma refreshed_fields [simp]:
  "cred_server (refreshed now t cl c) = cred_server c" "realm (refreshed now t cl c) = realm c"
  "file_of cc (refreshed now t cl c) = file_of cc c"
  "access_token (stamp now' (refreshed now t cl c)) = new_access t"
  "access_token_expiry (stamp now' (refreshed now t cl c)) = expiry_time cl"
  by (simp_all add: refreshed_def file_of_def stamp_def)

lemma load_and_refresh_ok:
  assumes "load_and_refresh cc io env s r d = (Inr c', d')"
  shows "\<exists>c. load_for_realm cc io d s r = Inr c \<and>
    (access_valid (now_check env) c \<and> c' = c \<and> d' = d \<or> (\<not> access_valid (now_check env) c \<and>
      (\<exists>t cl. refresh_request env c = Some t \<and> parse_token (dec_claims env) (new_access t) = Inr cl \<and>
         c' = stamp (now_save env) (refreshed (now_refresh env) t cl c) \<and>
         d' = snd (save_creds cc io (now_save env) (refreshed (now_refresh env) t cl c) d))))"
  using assms by (auto simp: load_and_refresh_def Let_def split: sum.splits option.splits if_splits)

section \<open>Properties\<close>

text \<open>C15. Identities never mix: whatever sequence of saves, deletions and plugin calls runs over the
  credential cache, torn writes included, a lookup that names a realm returns credentials that were
  stored for that server (up to SHA-256) and for a realm with the same file name; between realms
  of plain characters that is the very realm.  The start may be an empty cache or one from before
  realms were part of the names.\<close>

theorem credentials_keep_identity:
  assumes sha: "\<And>s. length (sha256 cc s) = 32"
    and codec: "\<And>c t. enc_creds cc c = Some t \<Longrightarrow> dec_creds cc t = Some c"
    and ops: "list_all (\<lambda>op. fault_ok cc (write_fault (op_io op))) ops"
    and start: "own_names cc d"
    and load: "load_for_realm cc io (cred_session cc ops d) s r = Inr c" "r \<noteq> []"
  shows "server_hash cc (cred_server c) = server_hash cc s \<and> slugify (realm c) = slugify r \<and>
    (list_all slug_char r \<longrightarrow> realm c \<noteq> [] \<longrightarrow> list_all slug_char (realm c) \<longrightarrow> realm c = r)"
proof -
  have "sha_ok cc" using sha by (simp add: sha_ok_def)
  moreover have "cred_codec_ok cc" using codec by (simp add: cred_codec_ok_def)
  ultimately have "slugify (realm c) = slugify r \<and> server_hash cc (cred_server c) = server_hash cc s"
    using load_for_realm_identity own_names_session [OF start _ ops] load by blast
  then show ?thesis using slug_clean load(2) by metis
qed

text \<open>A cache for one record of credentials.\<close>

definition one_cred :: credentials where
  "one_cred = \<lparr>cred_server = ''https://api'', keycloak_url = ''https://kc'', realm = ''acme'', client_id = ''cli'',
     access_token = ''old'', refresh_token = ''rt'', id_token = [], access_token_expiry = 5, refresh_token_expiry = 9,
     user = \<lparr>email = [], org = [], groups = [], namespaces = []\<rparr>, ca_cert = [], insecure = False,
     created_at = 1, updated_at = 1\<rparr>"

definition one_codec :: cred_codec where
  "one_codec = \<lparr>enc_creds = (\<lambda>c. if c = one_cred then Some ''js'' else None),
     dec_creds = (\<lambda>t. if t = ''js'' then Some one_cred else None),
     sha256 = (\<lambda>s. replicate 32 (CHR ''a''))\<rparr>"

definition calm :: cred_io where
  "calm = \<lparr>list_fails = False, remove_fails = (\<lambda>_. False), write_fault = Write_ok\<rparr>"

lemma one_codec_simps:
  "enc_creds one_codec c = Some t \<Longrightarrow> dec_creds one_codec t = Some c"
  "length (sha256 one_codec s) = 32" "stamp 1 one_cred = one_cred" "realm one_cred = ''acme''"
  "cred_server one_cred = ''https://api''" "enc_creds one_codec one_cred = Some ''js''"
  "dec_creds one_codec ''js'' = Some one_cred"
  by (auto simp: one_codec_def stamp_def one_cred_def split: if_splits)

lemma credentials_keep_identity_witness:
  "\<exists>c. load_for_realm one_codec calm (cred_session one_codec [Op_save calm 1 one_cred] []) ''https://api'' ''acme'' = Inr c \<and>
     realm c = ''acme''"
proof -
  have load: "load_for_realm one_codec calm (cred_session one_codec [Op_save calm 1 one_cred] []) ''https://api'' ''acme'' =
      Inr one_cred"
    by (simp add: cred_session_def save_creds_def one_codec_simps calm_def file_of_def load_for_realm_def
        read_credentials_def)
  have "server_hash one_codec (cred_server one_cred) = server_hash one_codec ''https://api'' \<and>
      slugify (realm one_cred) = slugify ''acme'' \<and>
      (list_all slug_char ''acme'' \<longrightarrow> realm one_cred \<noteq> [] \<longrightarrow> list_all slug_char (realm one_cred) \<longrightarrow> realm one_cred = ''acme'')"
    by (rule credentials_keep_identity [OF one_codec_simps(2,1) _ _ load])
      (simp_all add: own_names_def calm_def)
  then show ?thesis using load by (auto simp: one_codec_simps slug_char_def)
qed

text \<open>What kubectl gets: a plugin call that fails leaves the cache as it was; one that succeeds
  hands out the cached token only while it is valid for another 30 seconds, and then leaves the
  cache as it was; otherwise it hands out the new token of the identity provider with the expiry its
  claims state, writes no file but the identity's own, and, when the write works, a later
  lookup of that identity finds the new token.\<close>

theorem kubectl_token:
  assumes codec: "\<And>c t. enc_creds cc c = Some t \<Longrightarrow> dec_creds cc t = Some c"
    and run: "get_credential cc io env s r d = (res, d')"
  shows "case res of
      Inl _ \<Rightarrow> d' = d
    | Inr ec \<Rightarrow> \<exists>c. load_for_realm cc io d s r = Inr c \<and>
        (access_valid (now_check env) c \<and> token ec = access_token c \<and> d' = d \<or>
         \<not> access_valid (now_check env) c \<and>
         (\<exists>t cl. refresh_request env c = Some t \<and> parse_token (dec_claims env) (new_access t) = Inr cl \<and>
            token ec = new_access t \<and> expiration ec = rfc3339 env (expiry_time cl) \<and>
            others (file_of cc c) d' = others (file_of cc c) d \<and>
            (realm c = [] \<or> fst (save_creds cc io (now_save env) (refreshed (now_refresh env) t cl c) d) \<noteq> None \<or>
             load_for_realm cc io d' (cred_server c) (realm c) =
               Inr (stamp (now_save env) (refreshed (now_refresh env) t cl c)))))"
proof (cases "load_and_refresh cc io env s r d")
  case (Pair r1 d1)
  then have d1: "d' = d1" and res: "res = (case r1 of Inl e \<Rightarrow> Inl e
      | Inr c \<Rightarrow> Inr (build_exec_credential env (access_token c) (access_token_expiry c)))"
    using run by (auto simp: get_credential_def split: sum.splits)
  show ?thesis
  proof (cases r1)
    case (Inl e)
    then have "d1 = d" using Pair
      by (auto simp: load_and_refresh_def Let_def split: sum.splits option.splits if_splits)
    then show ?thesis using res d1 Inl by simp
  next
    case (Inr c')
    from load_and_refresh_ok [OF Pair [unfolded Inr]] obtain c where
      c: "load_for_realm cc io d s r = Inr c"
      and alt: "access_valid (now_check env) c \<and> c' = c \<and> d1 = d \<or> (\<not> access_valid (now_check env) c \<and>
        (\<exists>t cl. refresh_request env c = Some t \<and> parse_token (dec_claims env) (new_access t) = Inr cl \<and>
           c' = stamp (now_save env) (refreshed (now_refresh env) t cl c) \<and>
           d1 = snd (save_creds cc io (now_save env) (refreshed (now_refresh env) t cl c) d)))" by blast
    have ec: "res = Inr (build_exec_credential env (access_token c') (access_token_expiry c'))"
      using res Inr by simp
    from alt show ?thesis
    proof
      assume "access_valid (now_check env) c \<and> c' = c \<and> d1 = d"
      then show ?thesis using ec c d1 by (auto simp: build_exec_credential_def)
    next
      assume "\<not> access_valid (now_check env) c \<and>
        (\<exists>t cl. refresh_request env c = Some t \<and> parse_token (dec_claims env) (new_access t) = Inr cl \<and>
           c' = stamp (now_save env) (refreshed (now_refresh env) t cl c) \<and>
           d1 = snd (save_creds cc io (now_save env) (refreshed (now_refresh env) t cl c) d))"
      then obtain t cl where t: "\<not> access_valid (now_check env) c" "refresh_request env c = Some t"
          "parse_token (dec_claims env) (new_access t) = Inr cl"
          "c' = stamp (now_save env) (refreshed (now_refresh env) t cl c)"
          "d1 = snd (save_creds cc io (now_save env) (refreshed (now_refresh env) t cl c) d)" by blast
      let ?n = "refreshed (now_refresh env) t cl c"
      have "others (file_of cc c) d1 = others (file_of cc c) d"
        using save_others [of cc ?n io "now_save env" d] t(5) by simp
      moreover have "realm c = [] \<or> fst (save_creds cc io (now_save env) ?n d) \<noteq> None \<or>
          load_for_realm cc io d1 (cred_server c) (realm c) = Inr (stamp (now_save env) ?n)"
        using save_load [of cc io "now_save env" ?n d d1] codec t(5)
        by (cases "save_creds cc io (now_save env) ?n d") (auto simp: cred_codec_ok_def)
      ultimately show ?thesis
        using ec c d1 t by (auto simp: build_exec_credential_def)
    qed
  qed
qed

lemma kubectl_token_witness:
  "case fst (get_credential one_codec calm \<lparr>http_post = (\<lambda>_ _ _ _. None), dec_tokens = (\<lambda>_. None), dec_claims = (\<lambda>_. None),
        now_check = - 30 * 1000000000, now_refresh = 1, now_save = 1, in_cloud_shell = False, rfc3339 = (\<lambda>_. [])\<rparr>
        ''https://api'' ''acme'' [(file_of one_codec one_cred, Regular ''js'')]) of
      Inl _ \<Rightarrow> False | Inr ec \<Rightarrow> token ec = ''old''"
proof -
  let ?env = "\<lparr>http_post = (\<lambda>_ _ _ _. None), dec_tokens = (\<lambda>_. None), dec_claims = (\<lambda>_. None),
        now_check = - 30 * 1000000000, now_refresh = 1, now_save = 1, in_cloud_shell = False, rfc3339 = (\<lambda>_. [])\<rparr>"
  let ?d = "[(file_of one_codec one_cred, Regular ''js'')]"
  have load: "load_for_realm one_codec calm ?d ''https://api'' ''acme'' = Inr one_cred"
    by (simp add: load_for_realm_def read_credentials_def file_of_def one_codec_simps)
  have valid: "access_valid (now_check ?env) one_cred"
    by (simp add: access_valid_def one_cred_def)
  have run: "get_credential one_codec calm ?env ''https://api'' ''acme'' ?d =
      (Inr \<lparr>token = ''old'', expiration = []\<rparr>, ?d)"
    using load valid by (simp add: get_credential_def load_and_refresh_def build_exec_credential_def)
      (simp add: one_cred_def)
  from kubectl_token [OF one_codec_simps(1) run] show ?thesis unfolding run by simp
qed

text \<open>A context without a realm over a login from before realms were part of the file names is
  never served from its own refreshes: whatever a plugin call for it does, the next one loads the
  same expired credentials and sends the same old refresh token again, because the save goes to the
  file of the realm.\<close>

theorem legacy_refresh_not_seen:
  assumes sha: "\<And>s. length (sha256 cc s) = 32"
    and legacy: "read_credentials cc d (legacy_path cc s) = Inr c" "realm c \<noteq> []"
  shows "load_for_realm cc io' (snd (get_credential cc io env s [] d)) s [] = Inr c \<and>
    (\<not> access_valid (now_check env) c \<longrightarrow>
       refresh_request env c = None \<or> refresh_token c = [] \<or>
       (\<exists>t. refresh_request env c = Some t \<and>
          (\<forall>tok. fst (get_credential cc io env s [] d) = Inr tok \<longrightarrow> token tok = new_access t)))"
proof -
  have load: "load_for_realm cc io d1 s [] = Inr c"
    if "map_of d1 (legacy_path cc s) = map_of d (legacy_path cc s)" for io d1
    using that legacy(1) by (simp add: load_for_realm_def load_creds_def read_credentials_def)
  have same: "map_of (snd (get_credential cc io env s [] d)) (legacy_path cc s) = map_of d (legacy_path cc s)"
    unfolding get_credential_dir
  proof (cases rule: plugin_dir_cases [of cc io env s "[]" d])
    case (saved c' t cl)
    then have "c' = c" using load [of d io] by simp
    then have "file_of cc (refreshed (now_refresh env) t cl c) \<noteq> legacy_path cc s"
      using legacy(2) realm_not_legacy [of cc] sha by (simp add: file_of_def sha_ok_def)
    then show "map_of (snd (load_and_refresh cc io env s [] d)) (legacy_path cc s) = map_of d (legacy_path cc s)"
      using saved(5) save_frame [of "legacy_path cc s"] \<open>c' = c\<close> by simp
  qed simp
  have "load_and_refresh cc io env s [] d = (Inr c', d') \<Longrightarrow> \<not> access_valid (now_check env) c \<Longrightarrow>
      \<exists>t. refresh_request env c = Some t \<and> access_token c' = new_access t" for c' d'
    using load_and_refresh_ok [of cc io env s "[]" d c' d'] load [of d io]
    by (auto simp: stamp_def refreshed_def)
  then show ?thesis
    using load [OF same]
    by (force simp: get_credential_def build_exec_credential_def split: prod.splits sum.splits)
qed

lemma legacy_refresh_not_seen_witness:
  "load_for_realm one_codec calm (snd (get_credential one_codec calm
      \<lparr>http_post = (\<lambda>_ _ _ _. Some (200, ''t'')), dec_tokens = (\<lambda>_. Some \<lparr>new_access = ''.e30.'', new_refresh = ''r2'', new_id = [], refresh_expires_in = 0\<rparr>),
        dec_claims = (\<lambda>_. None), now_check = 7, now_refresh = 7, now_save = 7, in_cloud_shell = False, rfc3339 = (\<lambda>_. [])\<rparr>
      ''https://api'' [] [(legacy_path one_codec ''https://api'', Regular ''js'')])) ''https://api'' [] = Inr one_cred"
proof -
  have "read_credentials one_codec [(legacy_path one_codec ''https://api'', Regular ''js'')] (legacy_path one_codec ''https://api'') = Inr one_cred"
    "realm one_cred \<noteq> []"
    by (simp_all add: read_credentials_def one_codec_simps)
  from legacy_refresh_not_seen [OF one_codec_simps(2) this] show ?thesis by blast
qed

end
