(* ===== verification/Redact.thy ===== *)
theory Redact
  imports Go_Strings
begin

text \<open>
  \<open>src/cli/internal/bootstrap/log/redact.go\<close>: what keeps secrets out of the logs.  The regular
  expressions are written out as matchers with Go's leftmost-first meaning; the structured layers
  are the handler that rewrites attributes on their way to the sink.
\<close>

section \<open>Matching\<close>

text \<open>A matcher gives the length of its match at the start of a text.  \<open>ReplaceAll\<close> replaces the
  leftmost matches, one after the other, without overlap, by a text that may depend on the length
  of the match and on the text it starts at; an empty match does not occur here.\<close>

type_synonym matcher = "string \<Rightarrow> nat option"

definition match_length :: "matcher \<Rightarrow> string \<Rightarrow> nat" where
  "match_length m s = (case m s of Some n \<Rightarrow> n | None \<Rightarrow> 0)"

function replace_matches :: "matcher \<Rightarrow> (nat \<Rightarrow> string \<Rightarrow> string) \<Rightarrow> string \<Rightarrow> string" where
  "replace_matches m f [] = []"
| "replace_matches m f (c # s) =
     (if match_length m (c # s) = 0 then c # replace_matches m f s
      else f (match_length m (c # s)) (c # s) @ replace_matches m f (drop (match_length m (c # s) - 1) s))"
  by pat_completeness auto
termination by (relation "measure (\<lambda>(m, f, s). length s)") auto

fun matches_somewhere :: "matcher \<Rightarrow> string \<Rightarrow> bool" where
  "matches_somewhere m [] \<longleftrightarrow> m [] \<noteq> None"
| "matches_somewhere m (c # s) \<longleftrightarrow> m (c # s) \<noteq> None \<or> matches_somewhere m s"

text \<open>Words under \<open>(?i)\<close>: letters fold, and so do the two characters outside ASCII that fold to
  one, the Kelvin sign and the long s.\<close>

definition lower :: "char \<Rightarrow> char" where
  "lower c = (let n = of_char c :: nat in if 65 \<le> n \<and> n \<le> 90 then char_of (n + 32) else c)"

definition kelvin :: string where "kelvin = [CHR 0xE2, CHR 0x84, CHR 0xAA]"
definition long_s :: string where "long_s = [CHR 0xC5, CHR 0xBF]"

fun fold_prefix :: "string \<Rightarrow> string \<Rightarrow> nat option" where
  "fold_prefix [] s = Some 0"
| "fold_prefix (w # ws) s =
     (if w = CHR ''k'' \<and> has_prefix s kelvin then map_option (\<lambda>n. n + 3) (fold_prefix ws (drop 3 s))
      else if w = CHR ''s'' \<and> has_prefix s long_s then map_option (\<lambda>n. n + 2) (fold_prefix ws (drop 2 s))
      else case s of [] \<Rightarrow> None | c # r \<Rightarrow> if lower c = w then map_option Suc (fold_prefix ws r) else None)"

definition folds :: "string \<Rightarrow> string \<Rightarrow> bool" where
  "folds w s = matches_somewhere (fold_prefix w) s"

text \<open>The name of a secret; \<open>share_[0-9]+\<close> is an instance of \<open>share\<close>.\<close>

definition ends_with_key :: "string \<Rightarrow> bool" where
  "ends_with_key s = matches_somewhere (\<lambda>t. case fold_prefix ''key'' t of
     Some n \<Rightarrow> if n = length t then Some n else None | None \<Rightarrow> None) s"

definition secret_name :: "string \<Rightarrow> bool" where
  "secret_name s \<longleftrightarrow> folds ''token'' s \<or> folds ''password'' s \<or> folds ''share'' s \<or> folds ''secret'' s \<or>
     ends_with_key s \<or> folds ''unseal'' s"

definition secret_context :: "string \<Rightarrow> bool" where
  "secret_context s \<longleftrightarrow> folds ''token'' s \<or> folds ''password'' s \<or> folds ''share'' s \<or> folds ''secret'' s \<or>
     folds ''unseal'' s \<or> folds ''key'' s"

definition marker :: string where "marker = ''[REDACTED]''"

section \<open>Lines of text\<close>

definition digit :: "char \<Rightarrow> bool" where
  "digit c \<longleftrightarrow> (let n = of_char c :: nat in 48 \<le> n \<and> n \<le> 57)"

definition upper_letter :: "char \<Rightarrow> bool" where
  "upper_letter c \<longleftrightarrow> (let n = of_char c :: nat in 65 \<le> n \<and> n \<le> 90)"

definition lower_letter :: "char \<Rightarrow> bool" where
  "lower_letter c \<longleftrightarrow> (let n = of_char c :: nat in 97 \<le> n \<and> n \<le> 122)"

definition base64_char :: "char \<Rightarrow> bool" where
  "base64_char c \<longleftrightarrow> upper_letter c \<or> lower_letter c \<or> digit c \<or> c = CHR ''+'' \<or> c = CHR ''/''"

text \<open>A literal followed by exactly 58 characters of a class.\<close>

definition key_match :: "string \<Rightarrow> (char \<Rightarrow> bool) \<Rightarrow> matcher" where
  "key_match lead P s =
     (let body = take 58 (drop (length lead) s) in
      if has_prefix s lead \<and> length body = 58 \<and> list_all P body then Some (length lead + 58) else None)"

definition age_secret_key :: matcher where
  "age_secret_key = key_match ''AGE-SECRET-KEY-1'' (\<lambda>c. upper_letter c \<or> digit c)"

definition age_recipient :: matcher where
  "age_recipient = key_match ''age1'' (\<lambda>c. lower_letter c \<or> digit c)"

text \<open>At least 25 characters, as many as there are, and up to two \<open>=\<close>.\<close>

definition long_base64 :: matcher where
  "long_base64 s =
     (let run = takeWhile base64_char s; eqs = takeWhile (\<lambda>c. c = CHR ''='') (drop (length run) s) in
      if length run \<ge> 25 then Some (length run + min 2 (length eqs)) else None)"

text \<open>The members of OpenBao's init answer: the member's name and the length of the match, which ends
  with the closing quote of a string or the closing bracket of an array.\<close>

fun string_end :: "string \<Rightarrow> nat option" where
  "string_end [] = None"
| "string_end (c # s) =
     (if c = DQ then Some 1
      else if c = CHR 0x5C then
        (case s of [] \<Rightarrow> None | d # r \<Rightarrow> if d = CHR 0x0A then None else map_option (\<lambda>n. n + 2) (string_end r))
      else map_option Suc (string_end s))"

definition value_end :: "string \<Rightarrow> nat option" where
  "value_end s =
     (case s of
        [] \<Rightarrow> None
      | c # r \<Rightarrow>
          if c = DQ then map_option Suc (string_end r)
          else if c = CHR ''['' then
            (let body = takeWhile (\<lambda>d. d \<noteq> CHR '']'') r in
             if length body < length r then Some (length body + 2) else None)
          else None)"

definition init_member_at :: "string \<Rightarrow> string \<Rightarrow> nat option" where
  "init_member_at name s =
     (let q = DQ # name @ [DQ];
          sp1 = takeWhile re_space (drop (length q) s);
          r1 = drop (length q + length sp1) s;
          sp2 = takeWhile re_space (drop 1 r1);
          r2 = drop (1 + length sp2) r1 in
      if has_prefix s q \<and> has_prefix r1 '':'' then
        map_option (\<lambda>n. length q + length sp1 + 1 + length sp2 + n) (value_end r2)
      else None)"

definition init_names :: "string list" where
  "init_names = [''unseal_keys_b64'', ''unseal_keys_hex'', ''root_token'', ''keys'', ''keys_base64'']"

definition init_member :: "string \<Rightarrow> (string \<times> nat) option" where
  "init_member s = (case filter (\<lambda>(n, r). r \<noteq> None) (map (\<lambda>n. (n, init_member_at n s)) init_names) of
     (n, Some k) # _ \<Rightarrow> Some (n, k) | _ \<Rightarrow> None)"

definition mask_init_member :: "nat \<Rightarrow> string \<Rightarrow> string" where
  "mask_init_member k s = (case init_member s of
     Some (n, _) \<Rightarrow> DQ # (n @ [DQ] @ '': '' @ [DQ] @ marker) @ [DQ] | None \<Rightarrow> take k s)"

definition redact_stream_line :: "string \<Rightarrow> string" where
  "redact_stream_line line =
     (let out = replace_matches age_secret_key (\<lambda>_ _. marker) line;
          out = replace_matches age_recipient (\<lambda>_ _. marker) out;
          out = replace_matches (\<lambda>s. map_option snd (init_member s)) mask_init_member out in
      if secret_context out
      then replace_matches long_base64 (\<lambda>n s. if take n s = ''REDACTED'' then take n s else marker) out
      else out)"

section \<open>Structured values\<close>

text \<open>The dynamic values the walker distinguishes: strings, the four composite types it walks, and
  everything else, which it leaves alone.\<close>

datatype any_val =
    Any_str string
  | Opaque string
  | Str_map "(string \<times> string) list"
  | Any_map "(string \<times> any_val) list"
  | Any_list "any_val list"
  | Map_list "(string \<times> any_val) list list"

datatype attr_value =
    Str string
  | Any any_val
  | Group "(string \<times> attr_value) list"
  | Other string

type_synonym attr = "string \<times> attr_value"

definition redact_env :: "(string \<times> string) list \<Rightarrow> (string \<times> string) list" where
  "redact_env env = map (\<lambda>(k, v). (k, if secret_name k then marker else v)) env"

fun redact_value :: "any_val \<Rightarrow> any_val" where
  "redact_value (Any_str s) = Any_str s"
| "redact_value (Opaque s) = Opaque s"
| "redact_value (Str_map m) = Str_map (redact_env m)"
| "redact_value (Any_map m) =
     Any_map (map (\<lambda>(k, v). (k, if secret_name k then Any_str marker else redact_value v)) m)"
| "redact_value (Any_list vs) = Any_list (map redact_value vs)"
| "redact_value (Map_list ms) =
     Map_list (map (map (\<lambda>(k, v). (k, if secret_name k then Any_str marker else redact_value v))) ms)"

fun redact_attr :: "attr \<Rightarrow> attr" where
  "redact_attr (name, v) =
     (if secret_name name then (name, Str marker)
      else case v of
          Any x \<Rightarrow> (name, Any (redact_value x))
        | Group as \<Rightarrow> (name, Group (map redact_attr as))
        | Str s \<Rightarrow> (name, v)
        | Other s \<Rightarrow> (name, v))"

section \<open>The handler\<close>

text \<open>The string value of the last \<open>key\<close> attribute that has one, and the index of the last
  \<open>value\<close> attribute.\<close>

fun scan_from :: "nat \<Rightarrow> attr list \<Rightarrow> string \<times> nat option \<Rightarrow> string \<times> nat option" where
  "scan_from i [] acc = acc"
| "scan_from i ((name, v) # as) (k, x) =
     scan_from (Suc i) as
       (if name = ''key'' then (case v of Str s \<Rightarrow> (s, x) | _ \<Rightarrow> (k, x))
        else if name = ''value'' then (k, Some i) else (k, x))"

definition scan_key_value :: "attr list \<Rightarrow> string \<times> nat option" where
  "scan_key_value as = scan_from 0 as ([], None)"

definition names_secret :: "attr list \<Rightarrow> bool" where
  "names_secret as \<longleftrightarrow> fst (scan_key_value as) \<noteq> [] \<and> secret_name (fst (scan_key_value as))"

text \<open>Layers one and two over one list of attributes; \<open>Handle\<close> and \<open>WithAttrs\<close> share it.\<close>

definition redact_attrs :: "string \<Rightarrow> attr list \<Rightarrow> attr list" where
  "redact_attrs ctx as =
     map (\<lambda>(i, a). if snd (scan_key_value as) = Some i \<and> (names_secret as \<or> ctx \<noteq> [])
            then (''value'', Str marker) else redact_attr a) (enumerate 0 as)"

text \<open>What the wrapped handler is given, and the redacting handler: what it has passed on, and the
  secret key named in its lineage.\<close>

datatype sink_call = Sink_attrs "attr list" | Sink_group string | Sink_record string "attr list"

record redacting_handler =
  delivered :: "sink_call list"
  secret_key_context :: string

definition new_redacting_handler :: redacting_handler where
  "new_redacting_handler = \<lparr>delivered = [], secret_key_context = []\<rparr>"

definition with_attrs :: "attr list \<Rightarrow> redacting_handler \<Rightarrow> redacting_handler" where
  "with_attrs as h = \<lparr>delivered = delivered h @ [Sink_attrs (redact_attrs (secret_key_context h) as)],
     secret_key_context = (if names_secret as then fst (scan_key_value as) else secret_key_context h)\<rparr>"

definition with_group :: "string \<Rightarrow> redacting_handler \<Rightarrow> redacting_handler" where
  "with_group name h = h\<lparr>delivered := delivered h @ [Sink_group name]\<rparr>"

definition handle_record :: "string \<Rightarrow> attr list \<Rightarrow> redacting_handler \<Rightarrow> sink_call list" where
  "handle_record msg as h =
     delivered h @ [Sink_record (redact_stream_line msg) (redact_attrs (secret_key_context h) as)]"

datatype with_call = With_attrs "attr list" | With_group string

fun with_step :: "with_call \<Rightarrow> redacting_handler \<Rightarrow> redacting_handler" where
  "with_step (With_attrs as) h = with_attrs as h"
| "with_step (With_group n) h = with_group n h"

definition derive_logger :: "with_call list \<Rightarrow> redacting_handler" where
  "derive_logger calls = fold with_step calls new_redacting_handler"


section \<open>Lines: what cannot occur after masking\<close>

text \<open>A word of the set occurs in the text.\<close>

definition occurs :: "string set \<Rightarrow> string \<Rightarrow> bool" where
  "occurs L s \<longleftrightarrow> (\<exists>a w b. s = a @ w @ b \<and> w \<in> L)"

definition words_over :: "(char \<Rightarrow> bool) \<Rightarrow> string set \<Rightarrow> bool" where
  "words_over C L \<longleftrightarrow> (\<forall>w\<in>L. w \<noteq> [] \<and> list_all C w)"

lemma occurs_mono: "occurs L s \<Longrightarrow> occurs L (a @ s @ b)"
  unfolding occurs_def by (metis append.assoc)

lemma occurs_short: "(\<And>w. w \<in> L \<Longrightarrow> n < length w) \<Longrightarrow> length s \<le> n \<Longrightarrow> \<not> occurs L s"
  by (fastforce simp: occurs_def)

text \<open>No word crosses a character that none of them has.\<close>

lemma occurs_sep:
  assumes "words_over C L" "\<not> C c" "occurs L (u @ c # v)"
  shows "occurs L u \<or> occurs L v"
proof -
  obtain a w b where w: "u @ c # v = a @ w @ b" "w \<in> L" using assms(3) by (auto simp: occurs_def)
  then have c: "c \<notin> set w" "w \<noteq> []" using assms(1,2) by (auto simp: words_over_def list_all_iff)
  show ?thesis
  proof (cases "length a \<le> length u")
    case True
    then obtain u' where u: "u = a @ u'" using w(1)
      by (metis append_eq_append_conv_if append_take_drop_id)
    then have "u' @ c # v = w @ b" using w(1) by simp
    then obtain z where "u' = w @ z"
      using c(1) by (auto simp: append_eq_append_conv2 Cons_eq_append_conv)
    then have "occurs L u" using u w(2) by (auto simp: occurs_def)
    then show ?thesis ..
  next
    case False
    then obtain a' where a: "a = u @ c # a'"
      using w(1) by (auto simp: append_eq_append_conv2 Cons_eq_append_conv)
    then have "v = a' @ w @ b" using w(1) by simp
    then have "occurs L v" using w(2) by (auto simp: occurs_def)
    then show ?thesis ..
  qed
qed

lemma occurs_around:
  assumes "words_over C L" "\<not> C x" "\<not> C y" "\<not> occurs L mid" "occurs L (u @ (x # mid @ [y]) @ v)"
  shows "occurs L u \<or> occurs L v"
  using occurs_sep [OF assms(1,2), of u "mid @ y # v"] occurs_sep [OF assms(1,3), of mid v] assms(4,5) by auto

text \<open>A replacement that is fenced off from the text around it and has no word inside.\<close>

definition fenced :: "(char \<Rightarrow> bool) \<Rightarrow> string set \<Rightarrow> string \<Rightarrow> bool" where
  "fenced C L r \<longleftrightarrow> (\<exists>x mid y. r = x # mid @ [y] \<and> \<not> C x \<and> \<not> C y \<and> \<not> occurs L mid)"

lemma fenced_occurs: "words_over C L \<Longrightarrow> fenced C L r \<Longrightarrow> occurs L (u @ r @ v) \<Longrightarrow> occurs L u \<or> occurs L v"
  unfolding fenced_def using occurs_around by blast

lemma drop_occurs: "\<not> occurs L (g @ s) \<Longrightarrow> \<not> occurs L (drop n s)"
  using occurs_mono [of L "drop n s" "g @ take n s" "[]"] by auto

text \<open>Masking does not make a word appear.\<close>

lemma replace_keeps_absent:
  assumes "words_over C L" "\<And>s. match_length m s > 0 \<Longrightarrow> fenced C L (f (match_length m s) s)" "\<not> occurs L (g @ s)"
  shows "\<not> occurs L (g @ replace_matches m f s)"
  using assms(2,3)
proof (induction m f s arbitrary: g rule: replace_matches.induct)
  case (2 m f c s)
  show ?case
  proof (cases "match_length m (c # s) = 0")
    case True
    then have "\<not> occurs L ((g @ [c]) @ replace_matches m f s)"
      using 2(1) [OF True, of "g @ [c]"] 2(3,4) by simp
    then show ?thesis using True by simp
  next
    case False
    let ?n = "match_length m (c # s)"
    have "\<not> occurs L (drop ?n (c # s))" using drop_occurs 2(4) by blast
    then have "\<not> occurs L ([] @ replace_matches m f (drop (?n - 1) s))"
      using False 2(2) [OF False, of "[]"] 2(3) by (simp add: drop_Cons')
    moreover have "\<not> occurs L g" using 2(4) occurs_mono [of L g "[]" "c # s"] by auto
    ultimately show ?thesis
      using fenced_occurs [OF assms(1) 2(3)] False by auto
  qed
qed simp

text \<open>Masking removes every word its matcher knows.\<close>

lemma replace_removes:
  assumes "words_over C L" "\<And>s. match_length m s > 0 \<Longrightarrow> fenced C L (f (match_length m s) s)"
    and "\<And>w b. w \<in> L \<Longrightarrow> match_length m (w @ b) > 0"
    and "\<And>a w b. g @ s = a @ w @ b \<Longrightarrow> w \<in> L \<Longrightarrow> length g \<le> length a"
  shows "\<not> occurs L (g @ replace_matches m f s)"
  using assms(2-4)
proof (induction m f s arbitrary: g rule: replace_matches.induct)
  case (1 m f)
  then show ?case using assms(1) by (fastforce simp: occurs_def words_over_def)
next
  case (2 m f c s)
  show ?case
  proof (cases "match_length m (c # s) = 0")
    case True
    have "length (g @ [c]) \<le> length a" if "(g @ [c]) @ s = a @ w @ b" "w \<in> L" for a w b
    proof -
      have "length g \<le> length a" using 2(5) [of a w b] that by simp
      moreover have "length a \<noteq> length g"
      proof
        assume "length a = length g"
        then have "c # s = w @ b" using that(1) by simp
        then show False using 2(4) [OF that(2), of b] True by simp
      qed
      ultimately show ?thesis by simp
    qed
    then have "\<not> occurs L ((g @ [c]) @ replace_matches m f s)"
      using 2(1) [OF True, of "g @ [c]"] 2(3,4) by simp
    then show ?thesis using True by simp
  next
    case False
    let ?n = "match_length m (c # s)"
    have "\<not> occurs L ([] @ replace_matches m f (drop (?n - 1) s))"
      using 2(2) [OF False, of "[]"] 2(3,4) by simp
    moreover have "\<not> occurs L g"
    proof
      assume "occurs L g"
      then obtain a w b where w: "g = a @ w @ b" "w \<in> L" by (auto simp: occurs_def)
      then have "length g \<le> length a" using 2(5) [of a w "b @ c # s"] by simp
      then show False using w assms(1) by (auto simp: words_over_def)
    qed
    ultimately show ?thesis
      using fenced_occurs [OF assms(1) 2(3)] False by auto
  qed
qed


section \<open>The words of the matchers\<close>

definition words_of :: "matcher \<Rightarrow> string set \<Rightarrow> bool" where
  "words_of m L \<longleftrightarrow> [] \<notin> L \<and> (\<forall>s. m s \<noteq> None \<longleftrightarrow> (\<exists>w b. s = w @ b \<and> w \<in> L))"

lemma occurs_Cons: "occurs L (c # s) \<longleftrightarrow> (\<exists>w b. c # s = w @ b \<and> w \<in> L) \<or> occurs L s"
proof
  assume "occurs L (c # s)"
  then obtain a w b where w: "c # s = a @ w @ b" "w \<in> L" by (auto simp: occurs_def)
  then show "(\<exists>w b. c # s = w @ b \<and> w \<in> L) \<or> occurs L s"
    by (cases a) (auto simp: occurs_def)
next
  assume "(\<exists>w b. c # s = w @ b \<and> w \<in> L) \<or> occurs L s"
  then show "occurs L (c # s)"
    using occurs_mono [of L s "[c]" "[]"] by (auto simp: occurs_def intro: exI [of _ "[]"])
      (metis append_Nil)
qed

lemma matches_somewhere_iff: "words_of m L \<Longrightarrow> matches_somewhere m s \<longleftrightarrow> occurs L s"
proof (induction s)
  case Nil
  then show ?case by (auto simp: words_of_def occurs_def)
next
  case (Cons c s)
  then show ?case by (simp add: occurs_Cons words_of_def)
qed

definition key_words :: "string \<Rightarrow> (char \<Rightarrow> bool) \<Rightarrow> string set" where
  "key_words lead P = {lead @ body | body. length body = 58 \<and> list_all P body}"

definition long_words :: "string set" where
  "long_words = {w. length w = 25 \<and> list_all base64_char w}"

lemma key_match_words: "words_of (key_match lead P) (key_words lead P)"
  unfolding words_of_def
proof (intro conjI allI iffI)
  show "[] \<notin> key_words lead P" by (auto simp: key_words_def)
next
  fix s assume "key_match lead P s \<noteq> None"
  then have m: "has_prefix s lead" "length (take 58 (drop (length lead) s)) = 58"
      "list_all P (take 58 (drop (length lead) s))"
    by (auto simp: key_match_def Let_def split: if_splits)
  then have "s = (lead @ take 58 (drop (length lead) s)) @ drop 58 (drop (length lead) s)"
    by (auto simp: prefix_def simp del: drop_drop)
  then show "\<exists>w b. s = w @ b \<and> w \<in> key_words lead P" using m(2,3) unfolding key_words_def by blast
next
  fix s assume "\<exists>w b. s = w @ b \<and> w \<in> key_words lead P"
  then show "key_match lead P s \<noteq> None" by (auto simp: key_words_def key_match_def)
qed

lemma long_base64_words: "words_of long_base64 long_words"
  unfolding words_of_def
proof (intro conjI allI iffI)
  show "[] \<notin> long_words" by (simp add: long_words_def)
next
  fix s assume "long_base64 s \<noteq> None"
  then have run: "length (takeWhile base64_char s) \<ge> 25"
    by (auto simp: long_base64_def Let_def split: if_splits)
  have "list_all base64_char (take 25 (takeWhile base64_char s))"
    using set_takeWhileD in_set_takeD by (fastforce simp: list_all_iff)
  moreover have "take 25 (takeWhile base64_char s) = take 25 s"
    using run by (subst (2) takeWhile_dropWhile_id [of base64_char s, symmetric]) (simp del: takeWhile_dropWhile_id)
  ultimately have "take 25 s \<in> long_words" using run length_takeWhile_le [of base64_char s]
    by (simp add: long_words_def)
  then show "\<exists>w b. s = w @ b \<and> w \<in> long_words" by (metis append_take_drop_id)
next
  fix s assume "\<exists>w b. s = w @ b \<and> w \<in> long_words"
  then obtain w b where w: "s = w @ b" "length w = 25" "list_all base64_char w"
    by (auto simp: long_words_def)
  then have "takeWhile base64_char s = w @ takeWhile base64_char b"
    by (simp add: takeWhile_append2 list_all_iff)
  then show "long_base64 s \<noteq> None" using w by (simp add: long_base64_def)
qed

lemma match_length_pos:
  "words_of m L \<Longrightarrow> (\<And>s. m s \<noteq> Some 0) \<Longrightarrow> w \<in> L \<Longrightarrow> match_length m (w @ b) > 0"
  by (fastforce simp: words_of_def match_length_def split: option.splits)

text \<open>Masking with a fenced text removes every match of the matcher.\<close>

lemma masked_absent:
  assumes "words_of m L" "words_over C L" "\<And>s. m s \<noteq> Some 0"
    and "\<And>s. match_length m s > 0 \<Longrightarrow> fenced C L (f (match_length m s) s)"
  shows "\<not> matches_somewhere m (replace_matches m f s)"
proof -
  have "\<not> occurs L ([] @ replace_matches m f s)"
    using assms match_length_pos by (intro replace_removes) auto
  then show ?thesis using matches_somewhere_iff [OF assms(1)] by simp
qed

lemma stays_absent:
  assumes "words_of m L" "words_over C L" "\<not> matches_somewhere m s"
    and "\<And>s. match_length k s > 0 \<Longrightarrow> fenced C L (f (match_length k s) s)"
  shows "\<not> matches_somewhere m (replace_matches k f s)"
proof -
  have "\<not> occurs L ([] @ replace_matches k f s)"
    using assms matches_somewhere_iff [OF assms(1)] by (intro replace_keeps_absent) auto
  then show ?thesis using matches_somewhere_iff [OF assms(1)] by simp
qed

definition age_secret_char :: "char \<Rightarrow> bool" where
  "age_secret_char c \<longleftrightarrow> upper_letter c \<or> digit c \<or> c = CHR ''-''"

definition age_recipient_char :: "char \<Rightarrow> bool" where
  "age_recipient_char c \<longleftrightarrow> lower_letter c \<or> digit c"

lemmas char_classes = upper_letter_def lower_letter_def digit_def base64_char_def
  age_secret_char_def age_recipient_char_def

abbreviation age_secret_words :: "string set" where
  "age_secret_words \<equiv> key_words ''AGE-SECRET-KEY-1'' (\<lambda>c. upper_letter c \<or> digit c)"

abbreviation age_recipient_words :: "string set" where
  "age_recipient_words \<equiv> key_words ''age1'' (\<lambda>c. lower_letter c \<or> digit c)"

lemma classes:
  "words_of age_secret_key age_secret_words" "words_of age_recipient age_recipient_words"
  "words_over age_secret_char age_secret_words" "words_over age_recipient_char age_recipient_words"
  "words_over base64_char long_words"
  by (simp_all add: age_secret_key_def age_recipient_def key_match_words)
    (auto simp: words_over_def key_words_def long_words_def list_all_iff char_classes)

lemma never_empty: "age_secret_key s \<noteq> Some 0" "age_recipient s \<noteq> Some 0" "long_base64 s \<noteq> Some 0"
  by (auto simp: age_secret_key_def age_recipient_def key_match_def long_base64_def Let_def)

lemma fenced_intro:
  "r = x # mid @ [y] \<Longrightarrow> \<not> C x \<Longrightarrow> \<not> C y \<Longrightarrow> (\<And>w. w \<in> L \<Longrightarrow> n < length w) \<Longrightarrow> length mid \<le> n \<Longrightarrow>
   fenced C L r"
  using occurs_short [of L n mid] by (auto simp: fenced_def)

lemma word_lengths:
  "w \<in> age_secret_words \<Longrightarrow> 50 < length w" "w \<in> age_recipient_words \<Longrightarrow> 50 < length w"
  "w \<in> long_words \<Longrightarrow> 20 < length w"
  by (auto simp: key_words_def long_words_def)

lemma marker_fenced:
  "fenced age_secret_char age_secret_words marker" "fenced age_recipient_char age_recipient_words marker"
  "fenced base64_char long_words marker"
  by (rule fenced_intro [where x = "CHR ''[''" and mid = "''REDACTED''" and y = "CHR '']''"];
      fastforce simp: marker_def char_classes dest: word_lengths)+

lemma init_member_name: "init_member s = Some (n, k) \<Longrightarrow> n \<in> set init_names"
  by (auto simp: init_member_def filter_eq_Cons_iff map_eq_append_conv in_set_conv_decomp
      simp del: in_set_conv_decomp split: list.splits option.splits) (metis in_set_conv_decomp)

lemma mask_init_fenced:
  assumes "match_length (\<lambda>s. map_option snd (init_member s)) s > 0"
  shows "fenced age_secret_char age_secret_words (mask_init_member k s)"
    "fenced age_recipient_char age_recipient_words (mask_init_member k s)"
proof -
  obtain n j where n: "init_member s = Some (n, j)"
    using assms by (auto simp: match_length_def split: option.splits)
  then have len: "length n \<le> 15" using init_member_name by (fastforce simp: init_names_def)
  have DQ: "\<not> age_secret_char DQ" "\<not> age_recipient_char DQ" by (simp_all add: char_classes)
  let ?mid = "n @ [DQ] @ '': '' @ [DQ] @ marker"
  have "mask_init_member k s = DQ # ?mid @ [DQ]" "length ?mid \<le> 50"
    using n len by (simp_all add: mask_init_member_def marker_def)
  then show "fenced age_secret_char age_secret_words (mask_init_member k s)"
    "fenced age_recipient_char age_recipient_words (mask_init_member k s)"
    using DQ word_lengths by (blast intro: fenced_intro)+
qed

lemma long_mask: "match_length long_base64 s > 0 \<Longrightarrow>
  (if take (match_length long_base64 s) s = ''REDACTED'' then take (match_length long_base64 s) s else marker) = marker"
proof -
  assume "match_length long_base64 s > 0"
  then have "long_base64 s \<noteq> None" by (auto simp: match_length_def split: option.splits)
  then have run: "length (takeWhile base64_char s) \<ge> 25" "match_length long_base64 s \<ge> 25"
    by (auto simp: match_length_def long_base64_def Let_def split: if_splits)
  then have "length (take (match_length long_base64 s) s) \<ge> 25"
    using length_takeWhile_le [of base64_char s] by simp
  then have "take (match_length long_base64 s) s \<noteq> ''REDACTED''" by force
  then show ?thesis by simp
qed

text \<open>A line that went through RedactStreamLine holds no age secret key and no age recipient,
  and, if it still mentions a word of secret context, no run of 25 base64 characters; the marks
  left by one pattern never join with the text around them to form what an earlier pattern removed.\<close>

theorem stream_line_redacted:
  "\<not> matches_somewhere age_secret_key (redact_stream_line line) \<and>
   \<not> matches_somewhere age_recipient (redact_stream_line line) \<and>
   \<not> (secret_context (redact_stream_line line) \<and> matches_somewhere long_base64 (redact_stream_line line))"
proof -
  define out1 where "out1 = replace_matches age_secret_key (\<lambda>_ _. marker) line"
  define out2 where "out2 = replace_matches age_recipient (\<lambda>_ _. marker) out1"
  define out3 where "out3 = replace_matches (\<lambda>s. map_option snd (init_member s)) mask_init_member out2"
  define f where "f = (\<lambda>n s. if take n s = ''REDACTED'' then take n s else marker)"
  define out4 where "out4 = replace_matches long_base64 f out3"
  have f: "match_length long_base64 s > 0 \<Longrightarrow> f (match_length long_base64 s) s = marker" for s
    unfolding f_def by (rule long_mask)
  have "\<not> matches_somewhere age_secret_key out1"
    unfolding out1_def using classes(1,3) never_empty(1) marker_fenced(1) by (rule masked_absent)
  then have 2: "\<not> matches_somewhere age_secret_key out2"
    unfolding out2_def using marker_fenced(1)
    by (rule stays_absent [OF classes(1,3)])
  have "\<not> matches_somewhere age_recipient out2"
    unfolding out2_def using classes(2,4) never_empty(2) marker_fenced(2) by (rule masked_absent)
  then have 3: "\<not> matches_somewhere age_secret_key out3" "\<not> matches_somewhere age_recipient out3"
    unfolding out3_def
    using stays_absent [OF classes(1,3) 2, of _ mask_init_member] mask_init_fenced(1)
      stays_absent [OF classes(2,4) \<open>\<not> matches_somewhere age_recipient out2\<close>, of _ mask_init_member] mask_init_fenced(2)
    by blast+
  then have 4: "\<not> matches_somewhere age_secret_key out4" "\<not> matches_somewhere age_recipient out4"
    unfolding out4_def
    using stays_absent [OF classes(1,3) 3(1), of long_base64 f] stays_absent [OF classes(2,4) 3(2), of long_base64 f]
      f marker_fenced(1,2) by simp_all
  have "\<not> matches_somewhere long_base64 out4"
    unfolding out4_def using f marker_fenced(3)
    by (intro masked_absent [OF long_base64_words classes(5) never_empty(3)]) simp
  moreover have "redact_stream_line line = (if secret_context out3 then out4 else out3)"
    by (simp add: redact_stream_line_def Let_def out1_def out2_def out3_def out4_def f_def)
  ultimately show ?thesis using 3 4 by simp
qed


section \<open>Structured values: nothing under a secret's name\<close>

text \<open>Every entry below the value that has a secret's name holds the marker.\<close>

fun clean_value :: "any_val \<Rightarrow> bool" where
  "clean_value (Any_str s) \<longleftrightarrow> True"
| "clean_value (Opaque s) \<longleftrightarrow> True"
| "clean_value (Str_map m) \<longleftrightarrow> list_all (\<lambda>(k, v). secret_name k \<longrightarrow> v = marker) m"
| "clean_value (Any_map m) \<longleftrightarrow>
     list_all (\<lambda>(k, v). if secret_name k then v = Any_str marker else clean_value v) m"
| "clean_value (Any_list vs) \<longleftrightarrow> list_all clean_value vs"
| "clean_value (Map_list ms) \<longleftrightarrow>
     list_all (list_all (\<lambda>(k, v). if secret_name k then v = Any_str marker else clean_value v)) ms"

fun clean_attr :: "attr \<Rightarrow> bool" where
  "clean_attr (name, v) \<longleftrightarrow>
     (if secret_name name then v = Str marker
      else case v of Any x \<Rightarrow> clean_value x | Group as \<Rightarrow> list_all clean_attr as | _ \<Rightarrow> True)"

fun clean_call :: "sink_call \<Rightarrow> bool" where
  "clean_call (Sink_attrs as) \<longleftrightarrow> list_all clean_attr as"
| "clean_call (Sink_group n) \<longleftrightarrow> True"
| "clean_call (Sink_record msg as) \<longleftrightarrow> list_all clean_attr as"

lemma redact_value_clean: "clean_value (redact_value v)"
  by (induction v rule: redact_value.induct) (auto simp: redact_env_def list_all_iff)

lemma redact_attr_clean: "clean_attr (redact_attr a)"
  by (induction a rule: redact_attr.induct) (auto simp: redact_value_clean list_all_iff split: attr_value.splits)

lemma not_secret_value: "\<not> secret_name ''value''"
  by (simp add: secret_name_def folds_def ends_with_key_def lower_def kelvin_def long_s_def)

lemma redact_attrs_clean: "list_all clean_attr (redact_attrs ctx as)"
  using redact_attr_clean not_secret_value by (auto simp: redact_attrs_def list_all_iff simp del: redact_attr.simps)

section \<open>A value next to a secret's key\<close>

lemma redact_attr_name [simp]: "fst (redact_attr a) = fst a"
  by (cases a) (auto split: attr_value.splits)

lemma scan_from_append: "scan_from i (as @ bs) acc = scan_from (i + length as) bs (scan_from i as acc)"
  by (induction i as acc rule: scan_from.induct) auto

lemma scan_snoc: "snd (scan_key_value (as @ [a])) =
    (if fst a = ''value'' then Some (length as) else snd (scan_key_value as))"
  by (cases a; cases "scan_from 0 as ([], None)")
    (auto simp: scan_key_value_def scan_from_append split: attr_value.splits)

lemma scan_bound: "snd (scan_key_value as) = Some i \<Longrightarrow> i < length as"
proof (induction as rule: rev_induct)
  case Nil
  then show ?case by (simp add: scan_key_value_def)
next
  case (snoc a as)
  then show ?case by (auto simp: scan_snoc split: if_splits)
qed

lemma value_at_scan: "snd (scan_key_value as) = Some i \<Longrightarrow> fst (as ! i) = ''value''"
proof (induction as rule: rev_induct)
  case Nil
  then show ?case by (simp add: scan_key_value_def)
next
  case (snoc a as)
  then show ?case using scan_bound [of as i] by (auto simp: scan_snoc nth_append split: if_splits)
qed

text \<open>The scan's index is that of the last \<open>value\<close> attribute, the one a sink keeps.\<close>

lemma masked_at_last:
  "x = snd (scan_key_value as) \<Longrightarrow>
   last_of (map (\<lambda>(i, a). if x = Some i then (''value'', Str marker) else redact_attr a) (enumerate 0 as)) ''value''
     \<in> {None, Some (Str marker)}"
proof (induction as arbitrary: x rule: rev_induct)
  case (snoc a as)
  let ?m = "\<lambda>x. map (\<lambda>(i, a). if x = Some i then (''value'', Str marker) else redact_attr a) (enumerate 0 as)"
  show ?case
  proof (cases "fst a = ''value''")
    case True
    then show ?thesis using snoc.prems by (simp add: enumerate_append_eq scan_snoc)
  next
    case False
    then have x: "x = snd (scan_key_value as)" "x \<noteq> Some (length as)"
      using snoc.prems scan_bound [of as "length as"] by (auto simp: scan_snoc)
    obtain n v where n: "redact_attr a = (n, v)" "n \<noteq> ''value''"
      using False redact_attr_name [of a] by (cases "redact_attr a") auto
    then show ?thesis using snoc.IH [OF x(1)] x by (simp add: enumerate_append_eq)
  qed
qed simp

lemma last_value_masked:
  assumes "names_secret as \<or> ctx \<noteq> []"
  shows "last_of (redact_attrs ctx as) ''value'' \<in> {None, Some (Str marker)}"
proof -
  have "redact_attrs ctx as = map (\<lambda>(i, a). if snd (scan_key_value as) = Some i then (''value'', Str marker)
      else redact_attr a) (enumerate 0 as)"
    using assms by (auto simp: redact_attrs_def)
  then show ?thesis using masked_at_last [of _ as] by simp
qed

section \<open>Loggers derived from loggers\<close>

lemma delivered_step: "\<exists>new. delivered (with_step c h) = delivered h @ new \<and> list_all clean_call new"
  by (cases c) (auto simp: with_attrs_def with_group_def redact_attrs_clean)

lemma delivered_fold: "\<exists>new. delivered (fold with_step cs h) = delivered h @ new \<and> list_all clean_call new"
proof (induction cs arbitrary: h)
  case (Cons c cs)
  obtain new where new: "delivered (with_step c h) = delivered h @ new" "list_all clean_call new"
    using delivered_step by blast
  obtain new' where "delivered (fold with_step cs (with_step c h)) = delivered (with_step c h) @ new'" "list_all clean_call new'"
    using Cons.IH by blast
  then show ?case using new by (intro exI [of _ "new @ new'"]) simp
qed simp

text \<open>Nothing under a secret's name reaches the sink: whatever chain of With and WithGroup calls a
  logger comes from and whatever record it logs, in everything the wrapped handler is given every
  attribute whose name marks a secret, at any depth of groups, maps and lists the walker knows,
  holds the marker and nothing else; and the record's message is the masked line.\<close>

theorem sink_sees_no_named_secret:
  "list_all clean_call (handle_record msg as (derive_logger calls)) \<and>
   (\<exists>as'. last (handle_record msg as (derive_logger calls)) = Sink_record (redact_stream_line msg) as' \<and>
      map fst as' = map fst as)"
proof -
  have "list_all clean_call (delivered (derive_logger calls))"
    using delivered_fold [of calls new_redacting_handler]
    by (auto simp: derive_logger_def new_redacting_handler_def)
  moreover have "map fst (redact_attrs ctx as) = map fst as" for ctx
    by (rule nth_equalityI) (auto simp: redact_attrs_def nth_enumerate_eq value_at_scan dest: value_at_scan)
  ultimately show ?thesis by (simp add: handle_record_def redact_attrs_clean)
qed

text \<open>The last \<open>value\<close> attribute of a call, if it has one, is masked; so when there is one only, no
  attribute of the call passes a value on.\<close>

definition values_masked :: "attr list \<Rightarrow> bool" where
  "values_masked as \<longleftrightarrow> last_of as ''value'' \<in> {None, Some (Str marker)}
     \<and> (length (filter (\<lambda>a. fst a = ''value'') as) \<le> 1 \<longrightarrow> (\<forall>v. (''value'', v) \<in> set as \<longrightarrow> v = Str marker))"

fun masked_call :: "sink_call \<Rightarrow> bool" where
  "masked_call (Sink_attrs as) \<longleftrightarrow> values_masked as"
| "masked_call (Sink_group n) \<longleftrightarrow> True"
| "masked_call (Sink_record msg as) \<longleftrightarrow> values_masked as"

lemma last_of_only:
  "last_of as x = Some m \<or> last_of as x = None \<Longrightarrow> length (filter (\<lambda>a. fst a = x) as) \<le> 1 \<Longrightarrow> (x, v) \<in> set as \<Longrightarrow> v = m"
proof (induction as rule: rev_induct)
  case (snoc a as)
  show ?case
  proof (cases "fst a = x")
    case True
    then have "filter (\<lambda>a. fst a = x) as = []" using snoc.prems(2) by simp
    then have "(x, v) \<notin> set as" by (auto simp: filter_empty_conv)
    then show ?thesis using snoc.prems(1,3) True by (cases a) auto
  next
    case False
    then show ?thesis using snoc by (cases a) auto
  qed
qed simp

lemma values_masked_last: "last_of as ''value'' \<in> {None, Some (Str marker)} \<Longrightarrow> values_masked as"
  unfolding values_masked_def using last_of_only [of as "''value''" "Str marker"] by auto

lemma tainted_step:
  "secret_key_context h \<noteq> [] \<Longrightarrow>
   secret_key_context (with_step c h) \<noteq> [] \<and>
   (\<exists>new. delivered (with_step c h) = delivered h @ new \<and> list_all masked_call new)"
  using values_masked_last [OF last_value_masked]
  by (cases c) (auto simp: with_attrs_def with_group_def names_secret_def)

lemma tainted_fold:
  "secret_key_context h \<noteq> [] \<Longrightarrow>
   secret_key_context (fold with_step cs h) \<noteq> [] \<and>
   (\<exists>new. delivered (fold with_step cs h) = delivered h @ new \<and> list_all masked_call new)"
proof (induction cs arbitrary: h)
  case (Cons c cs)
  obtain new where new: "delivered (with_step c h) = delivered h @ new" "list_all masked_call new"
      "secret_key_context (with_step c h) \<noteq> []"
    using tainted_step [OF Cons.prems] by blast
  obtain new' where "delivered (fold with_step cs (with_step c h)) = delivered (with_step c h) @ new'"
      "list_all masked_call new'" "secret_key_context (fold with_step cs (with_step c h)) \<noteq> []"
    using Cons.IH [OF new(3)] by blast
  then show ?case using new by (intro conjI exI [of _ "new @ new'"]) simp_all
qed simp



text \<open>Of two value attributes the first reaches the sink as it is.\<close>

lemma earlier_value_leaks:
  "redact_attrs [] [(''key'', Str ''TOKEN''), (''value'', Str ''s3cret''), (''value'', Str ''x'')] =
   [(''key'', Str marker), (''value'', Str ''s3cret''), (''value'', Str marker)]"
proof -
  have names: "secret_name ''TOKEN''" "secret_name ''key''"
    by code_simp+
  have "names_secret [(''key'', Str ''TOKEN''), (''value'', Str ''s3cret''), (''value'', Str ''x'')]"
    using names by (simp add: names_secret_def scan_key_value_def)
  then show ?thesis using names not_secret_value by (simp add: redact_attrs_def scan_key_value_def)
qed

text \<open>The pairing is not looked for inside a group: a key and a value there reach the sink.\<close>

lemma grouped_value_leaks:
  "redact_attrs [] [(''pair'', Group [(''key'', Str ''TOKEN''), (''value'', Str ''s3cret'')])] =
   [(''pair'', Group [(''key'', Str marker), (''value'', Str ''s3cret'')])]"
proof -
  have names: "\<not> secret_name ''pair''" "secret_name ''key''"
    by (simp_all add: secret_name_def folds_def ends_with_key_def lower_def kelvin_def long_s_def)
  have "\<not> names_secret [(''pair'', Group [(''key'', Str ''TOKEN''), (''value'', Str ''s3cret'')])]"
    by (simp add: names_secret_def scan_key_value_def)
  then show ?thesis using names not_secret_value by (simp add: redact_attrs_def scan_key_value_def)
qed

end
