(* ===== verification/Openbao_Shares.thy ===== *)
theory Openbao_Shares
  imports Go_Strings
begin

text \<open>
  The unseal shares in a decrypted secrets file, \<open>extractThresholdShares\<close> of
  \<open>src/cli/internal/bootstrap/openbao/unseal.go\<close>: the entries are found with a regular expression,
  written out here with the meaning Go gives it, and the shares one to three are returned.
\<close>

section \<open>The entries\<close>

definition share_char :: "char \<Rightarrow> bool" where
  "share_char c \<longleftrightarrow> (let n = of_char c :: nat in
     (65 \<le> n \<and> n \<le> 90) \<or> (97 \<le> n \<and> n \<le> 122) \<or> (48 \<le> n \<and> n \<le> 57)) \<or>
     c \<in> {CHR ''+'', CHR ''/'', CHR ''='', CHR ''_'', CHR ''-''}"

definition key_lead :: string where "key_lead = ''OPENBAO_UNSEAL_KEY_''"

text \<open>Where \<open>\s*$\<close> ends in a text that follows a value: at the end of the text, or before the last
  line break of the space; \<open>None\<close> if there is neither.\<close>

definition trailing_space :: "string \<Rightarrow> nat option" where
  "trailing_space s =
     (let sp = takeWhile re_space s in
      if length sp = length s then Some (length s)
      else if NL \<in> set sp then Some (length sp - Suc (length (takeWhile (\<lambda>c. c \<noteq> NL) (rev sp))))
      else None)"

text \<open>The match at the start of a line: number, value and length.\<close>

definition share_entry :: "string \<Rightarrow> (string \<times> string \<times> nat) option" where
  "share_entry s =
     (let sp1 = takeWhile re_space s; r1 = drop (length sp1) s;
          r2 = drop (length key_lead) r1;
          ds = takeWhile re_digit r2; r3 = drop (length ds) r2;
          sp2 = takeWhile re_space (drop 1 r3); r4 = drop (1 + length sp2) r3;
          v = takeWhile share_char r4; r5 = drop (length v) r4 in
      if has_prefix r1 key_lead \<and> ds \<noteq> [] \<and> has_prefix r3 '':'' \<and> v \<noteq> [] then
        map_option (\<lambda>n. (ds, v, length s - length r5 + n)) (trailing_space r5)
      else None)"

text \<open>All matches, leftmost first and without overlap; the flag says whether the text starts a
  line.\<close>

function share_entries :: "bool \<Rightarrow> string \<Rightarrow> (string \<times> string) list" where
  "share_entries bol [] = []"
| "share_entries bol (c # s) =
     (case (if bol then share_entry (c # s) else None) of
        Some (n, v, Suc len) \<Rightarrow> (n, v) # share_entries False (drop len s)
      | _ \<Rightarrow> share_entries (c = NL) s)"
  by pat_completeness auto
termination by (relation "measure (\<lambda>(b, s). length s)") auto

section \<open>The shares\<close>

text \<open>\<open>n = n*10 + int(c-'0')\<close>, at the width of an \<open>int\<close>.\<close>

definition share_number :: "string \<Rightarrow> int" where
  "share_number ds = foldl (\<lambda>n c. int64 (n * 10 + (of_char c - 48))) 0 ds"

definition found_shares :: "string \<Rightarrow> int \<Rightarrow> string option" where
  "found_shares text =
     last_of (filter (\<lambda>(n, v). 1 \<le> n \<and> n \<le> 5) (map (\<lambda>(ds, v). (share_number ds, v)) (share_entries True text)))"

definition missing_shares :: "(int \<Rightarrow> string option) \<Rightarrow> int list" where
  "missing_shares found = filter (\<lambda>i. found i \<in> {None, Some []}) [1, 2, 3]"

text \<open>An error names the missing shares.\<close>

definition extract_threshold_shares :: "string \<Rightarrow> int list + string list" where
  "extract_threshold_shares text =
     (let found = found_shares text in
      if missing_shares found \<noteq> [] then Inl (missing_shares found)
      else Inr (map (\<lambda>i. the (found i)) [1, 2, 3]))"

text \<open>\<open>extractAllShares\<close> of \<open>reveal.go\<close>: the same reading, and all five shares.\<close>

definition missing_of_all :: "(int \<Rightarrow> string option) \<Rightarrow> int list" where
  "missing_of_all found = filter (\<lambda>i. found i \<in> {None, Some []}) [1, 2, 3, 4, 5]"

definition extract_all_shares :: "string \<Rightarrow> int list + string list" where
  "extract_all_shares text =
     (let found = found_shares text in
      if missing_of_all found \<noteq> [] then Inl (missing_of_all found)
      else Inr (map (\<lambda>i. the (found i)) [1, 2, 3, 4, 5]))"

text \<open>What \<open>RevealShares\<close> prints, write by write.\<close>

definition em_dash :: string where "em_dash = [CHR 0xE2, CHR 0x80, CHR 0x94]"

definition reveal_header :: string where
  "reveal_header = ''# BEGIN OpenBao shares '' @ em_dash @ '' 3 of 5 required to unseal or generate-root'' @ [NL]"

definition reveal_footer :: string where
  "reveal_footer = ''# END OpenBao shares '' @ em_dash @ '' scrub your terminal (clear + scrollback) after use'' @ [NL]"

definition share_line :: "nat \<Rightarrow> string \<Rightarrow> string" where
  "share_line i share = key_lead @ [char_of (48 + i)] @ '': '' @ share @ [NL]"

definition share_lines :: "string list \<Rightarrow> string list" where
  "share_lines shares = map (\<lambda>(i, s). share_line (i + 1) s) (enumerate 0 shares)"

definition reveal_block :: "string list \<Rightarrow> string" where
  "reveal_block shares = reveal_header @ concat (share_lines shares) @ reveal_footer"

section \<open>Reading lines\<close>

lemma share_entry_skip: "\<not> re_space c \<Longrightarrow> c \<noteq> CHR ''O'' \<Longrightarrow> share_entry (c # s) = None"
  by (simp add: share_entry_def key_lead_def Let_def)

lemma entries_in_line: "NL \<notin> set a \<Longrightarrow> share_entries False (a @ NL # s) = share_entries True s"
  by (induction a) auto

lemma entries_other_line:
  "\<not> re_space c \<Longrightarrow> c \<noteq> CHR ''O'' \<Longrightarrow> NL \<notin> set (c # a) \<Longrightarrow>
   share_entries True (c # a @ NL # s) = share_entries True s"
  using entries_in_line [of a s] by (cases "c = NL") (auto simp: share_entry_skip)

definition good_share :: "string \<Rightarrow> bool" where
  "good_share v \<longleftrightarrow> v \<noteq> [] \<and> list_all share_char v"

lemma share_char_not_space: "share_char c \<Longrightarrow> \<not> re_space c"
  by (auto simp: share_char_def re_space_def)

lemma share_entry_line:
  assumes "re_digit d" "good_share v" "\<not> re_space c"
  shows "share_entry (key_lead @ [d] @ '': '' @ v @ NL # c # s) = Some ([d], v, length key_lead + 3 + length v)"
proof -
  have v: "takeWhile share_char (v @ NL # c # s) = v"
    using assms(2) by (subst takeWhile_append2) (auto simp: good_share_def list_all_iff share_char_def)
  obtain x v' where x: "v = x # v'" "share_char x" using assms(2) by (cases v) (auto simp: good_share_def)
  then have sp: "takeWhile re_space ('' '' @ v @ NL # c # s) = '' ''"
    using share_char_not_space [of x] by (simp add: re_space_def)
  have "trailing_space (NL # c # s) = Some 0"
    using assms(3) by (simp add: trailing_space_def re_space_def)
  moreover have "takeWhile re_space (key_lead @ r) = []" for r by (simp add: key_lead_def re_space_def)
  moreover have "takeWhile re_digit (d # CHR '':'' # r) = [d]" for r using assms(1) by (simp add: re_digit_def)
  ultimately show ?thesis
    using v sp assms(2) by (simp add: share_entry_def Let_def good_share_def)
qed

lemma entries_share_line:
  assumes "re_digit d" "good_share v" "\<not> re_space c"
  shows "share_entries True (key_lead @ [d] @ '': '' @ v @ NL # c # s) = ([d], v) # share_entries True (c # s)"
proof -
  let ?t = "key_lead @ [d] @ '': '' @ v @ NL # c # s"
  obtain k where k: "?t = CHR ''O'' # k" by (simp add: key_lead_def)
  have e: "share_entry ?t = Some ([d], v, Suc (length key_lead + 2 + length v))"
    using share_entry_line [OF assms] by simp
  have "drop (length key_lead + 2 + length v) k = drop (Suc (length key_lead + 2 + length v)) ?t" unfolding k by simp
  also have "\<dots> = NL # c # s" by (simp add: eval_nat_numeral)
  finally show ?thesis
    using e unfolding k by (simp add: entries_in_line [of "[]", simplified])
qed

text \<open>What a share's line starts and a comment line starts.\<close>

lemma block_starts: "\<exists>t. share_line i v @ r = CHR ''O'' # t" "\<exists>t. reveal_footer @ r = CHR ''#'' # t"
  by (simp_all add: share_line_def key_lead_def reveal_footer_def)

lemma entries_line_then:
  assumes "good_share v" "1 \<le> i" "i \<le> 9" "r = c # t" "\<not> re_space c"
  shows "share_entries True (share_line i v @ r) = ([char_of (48 + i)], v) # share_entries True r"
proof -
  have "re_digit (char_of (48 + i))" using assms(2,3) by (simp add: re_digit_def)
  then show ?thesis
    using entries_share_line [OF _ assms(1,5), of _ t] assms(4) by (simp add: share_line_def)
qed

lemma entries_lines:
  assumes "list_all good_share vs" "r = c # t" "\<not> re_space c" "1 \<le> k" "k + length vs \<le> 10"
  shows "share_entries True (concat (map (\<lambda>(i, v). share_line (i + 1) v) (enumerate (k - 1) vs)) @ r) =
    map (\<lambda>(i, v). ([char_of (48 + (i + 1))], v)) (enumerate (k - 1) vs) @ share_entries True r"
  using assms(1,4,5)
proof (induction vs arbitrary: k)
  case (Cons v vs)
  let ?rest = "concat (map (\<lambda>(i, v). share_line (i + 1) v) (enumerate (Suc k - 1) vs)) @ r"
  have IH: "share_entries True ?rest = map (\<lambda>(i, v). ([char_of (48 + (i + 1))], v)) (enumerate (Suc k - 1) vs) @ share_entries True r"
    using Cons.prems by (intro Cons.IH) auto
  obtain c' t' where start: "?rest = c' # t'" "\<not> re_space c'"
  proof (cases vs)
    case Nil
    then show ?thesis using that assms(2,3) by simp
  next
    case (Cons w ws)
    then show ?thesis using that [of "CHR ''O''"] block_starts(1) [of "Suc k" w]
      by (fastforce simp: re_space_def)
  qed
  have "share_entries True (share_line k v @ ?rest) = ([char_of (48 + k)], v) # share_entries True ?rest"
    using Cons.prems start by (intro entries_line_then) auto
  then show ?case using IH Cons.prems by simp
qed simp

lemma entries_of_block:
  assumes "list_all good_share vs" "length vs \<le> 9"
  shows "share_entries True (reveal_block vs) =
    map (\<lambda>(i, v). ([char_of (48 + (i + 1))], v)) (enumerate 0 vs)"
proof -
  obtain h t where head: "reveal_header = CHR ''#'' # h @ NL # t" "t = []" "NL \<notin> set h"
    by (rule that [of "butlast (tl reveal_header)" "[]"]) (simp_all add: reveal_header_def em_dash_def)
  obtain f t' where foot: "reveal_footer = CHR ''#'' # f @ NL # t'" "t' = []" "NL \<notin> set f"
    by (rule that [of "butlast (tl reveal_footer)" "[]"]) (simp_all add: reveal_footer_def em_dash_def)
  have hash: "\<not> re_space (CHR ''#'')" by (simp add: re_space_def)
  have "share_entries True (reveal_header @ s) = share_entries True s" for s
  proof -
    have "reveal_header @ s = CHR ''#'' # h @ NL # s" unfolding head(1,2) by simp
    then have "share_entries True (reveal_header @ s) = share_entries True (CHR ''#'' # h @ NL # s)"
      by (rule arg_cong)
    also have "\<dots> = share_entries True s"
      by (rule entries_other_line [OF hash]) (use head(3) in simp_all)
    finally show ?thesis .
  qed
  moreover have "share_entries True reveal_footer = []"
    using entries_other_line [OF hash, of f "[]"] foot by (simp del: share_entries.simps(2))
  moreover have "share_entries True (concat (share_lines vs) @ reveal_footer) =
      map (\<lambda>(i, v). ([char_of (48 + (i + 1))], v)) (enumerate 0 vs) @ share_entries True reveal_footer"
    using entries_lines [OF assms(1) foot(1) hash, of 1] assms(2) foot(2) by (simp add: share_lines_def)
  ultimately show ?thesis by (simp add: reveal_block_def)
qed

text \<open>A number of twenty digits wraps around and can pass for a share's number.\<close>

lemma share_number_wraps: "share_number ''18446744073709551617'' = 1"
  by (simp add: share_number_def int64_def)

lemma revealed_block_read:
  assumes "length shares = 5" "list_all good_share shares"
  shows "extract_all_shares (reveal_block shares) = Inr shares \<and>
    extract_threshold_shares (reveal_block shares) = Inr (take 3 shares)"
proof -
  obtain a b c d e where s: "shares = [a, b, c, d, e]"
    using assms(1) by (auto simp: length_Suc_conv eval_nat_numeral)
  have good: "a \<noteq> []" "b \<noteq> []" "c \<noteq> []" "d \<noteq> []" "e \<noteq> []"
    using assms(2) s by (simp_all add: good_share_def)
  have n: "share_number ''1'' = 1" "share_number ''2'' = 2" "share_number ''3'' = 3"
    "share_number ''4'' = 4" "share_number ''5'' = 5"
    by (simp_all add: share_number_def int64_id)
  have "share_entries True (reveal_block shares) = [(''1'', a), (''2'', b), (''3'', c), (''4'', d), (''5'', e)]"
    using entries_of_block [OF assms(2)] s by (simp add: char_of_def bit_0)
  then have "found_shares (reveal_block shares) = map_of [(5, e), (4, d), (3, c), (2, b), (1, a)]"
    by (simp add: found_shares_def n last_of_def fun_eq_iff del: map_of_Cons_code)
  then show ?thesis
    using good by (simp add: extract_all_shares_def extract_threshold_shares_def missing_of_all_def
        missing_shares_def Let_def s)
qed

text \<open>C27. What reveal-shares prints, unseal reads back: from the printed block of five shares of the
  share alphabet the recovery reading returns all five in order, and the unseal reading the first
  three.\<close>

theorem revealed_shares_read_back:
  assumes "length shares = 5" "list_all good_share shares"
  shows "extract_all_shares (reveal_block shares) = Inr shares \<and>
    extract_threshold_shares (reveal_block shares) = Inr (take 3 shares)"
  using assms by (rule revealed_block_read)

lemma revealed_shares_read_back_witness:
  "extract_threshold_shares (reveal_block [''a+'', ''b/'', ''c='', ''d-'', ''e_'']) = Inr [''a+'', ''b/'', ''c='']"
  using revealed_shares_read_back [of "[''a+'', ''b/'', ''c='', ''d-'', ''e_'']"]
  by (simp add: good_share_def share_char_def)

end
