(* ===== verification/Openbao.thy ===== *)
theory Openbao
  imports Openbao_Shares Effects
begin

text \<open>
  The OpenBao engines of \<open>src/cli/internal/bootstrap/openbao\<close>: \<open>unseal.go\<close>, \<open>status.go\<close>,
  \<open>reveal.go\<close>, \<open>generate_root.go\<close>, \<open>setup_controller_auth.go\<close> and \<open>policy_generation.go\<close>.  The
  OpenBao client, SOPS, the Kubernetes API and the two output streams are the environment.  Left
  out are the progress lines, whose write errors the code ignores, and the overwriting of secrets
  in memory.
\<close>

section \<open>The clients\<close>

record bao_status =
  pod :: string
  initialized :: bool
  sealed :: bool
  version :: string
  ha_mode :: string
  raft_index :: nat
  active_node_id :: string
  storage_type :: string

text \<open>The privileged writes of the controller-auth setup.\<close>

datatype bao_write =
    Enable_auth string string
  | Configure_auth string string string bool
  | Apply_policy string string
  | Write_role string string "(string \<times> string) list"

datatype ob_event =
    Decrypt string "string + string"
  | Pod_list "string + string list"
  | Pod_status string "string + bao_status"
  | Raft_join string string "string + unit"
  | Unseal string string "string + unit"
  | Generate_root_call "string list" "string + string"
  | Revoke_self string "string + unit"
  | Audit_line string "string + unit"
  | Out_line string "string + unit"
  | Get_annotation string "string + string"
  | Set_annotations "(string \<times> string) list" "string + unit"
  | Get_config_map "string \<times> string \<times> string" "string + string"
  | Bao_write string bao_write "string + unit"

record ob_env =
  on_decrypt :: "ob_event list \<Rightarrow> string \<Rightarrow> string + string"
  on_pod_list :: "ob_event list \<Rightarrow> string + string list"
  on_status :: "ob_event list \<Rightarrow> string \<Rightarrow> string + bao_status"
  on_raft_join :: "ob_event list \<Rightarrow> string \<Rightarrow> string \<Rightarrow> string + unit"
  on_unseal :: "ob_event list \<Rightarrow> string \<Rightarrow> string \<Rightarrow> string + unit"
  on_generate_root :: "ob_event list \<Rightarrow> string list \<Rightarrow> string + string"
  on_revoke_self :: "ob_event list \<Rightarrow> string \<Rightarrow> string + unit"
  on_audit :: "ob_event list \<Rightarrow> string \<Rightarrow> string + unit"
  on_out :: "ob_event list \<Rightarrow> string \<Rightarrow> string + unit"
  on_get_annotation :: "ob_event list \<Rightarrow> string \<Rightarrow> string + string"
  on_set_annotations :: "ob_event list \<Rightarrow> (string \<times> string) list \<Rightarrow> string + unit"
  on_config_map :: "ob_event list \<Rightarrow> string \<times> string \<times> string \<Rightarrow> string + string"
  on_bao_write :: "ob_event list \<Rightarrow> string \<Rightarrow> bao_write \<Rightarrow> string + unit"
  timestamp :: "ob_event list \<Rightarrow> string"

datatype ob_error =
    Missing_dependency string | Missing_shares "int list" | Decrypt_failed | Pods_failed | No_pods
  | Status_failed string | Join_failed string | Unseal_failed string nat
  | Consent_required | Audit_failed | Output_failed | Ceremony_failed
  | Revoke_failed | Status_audit_failed | Revoke_and_audit_failed
  | Annotation_failed string | Bad_generation string
  | Empty_token | Config_map_failed | No_ca | Write_failed bao_write | Annotate_failed

type_synonym 'a ob_prog = "(ob_event, ob_error, 'a) prog"

text \<open>The clients' calls; each is one event.\<close>

definition decrypt :: "ob_env \<Rightarrow> string \<Rightarrow> (string + string) ob_prog" where
  "decrypt env p = ask (\<lambda>h. on_decrypt env h p) (Decrypt p)"
definition pod_list :: "ob_env \<Rightarrow> (string + string list) ob_prog" where
  "pod_list env = ask (on_pod_list env) Pod_list"
definition pod_status :: "ob_env \<Rightarrow> string \<Rightarrow> (string + bao_status) ob_prog" where
  "pod_status env p = ask (\<lambda>h. on_status env h p) (Pod_status p)"
definition raft_join :: "ob_env \<Rightarrow> string \<Rightarrow> string \<Rightarrow> (string + unit) ob_prog" where
  "raft_join env p url = ask (\<lambda>h. on_raft_join env h p url) (Raft_join p url)"
definition unseal_call :: "ob_env \<Rightarrow> string \<Rightarrow> string \<Rightarrow> (string + unit) ob_prog" where
  "unseal_call env p share = ask (\<lambda>h. on_unseal env h p share) (Unseal p share)"
definition audit_line :: "ob_env \<Rightarrow> string \<Rightarrow> (string + unit) ob_prog" where
  "audit_line env l = ask (\<lambda>h. on_audit env h l) (Audit_line l)"
definition out_line :: "ob_env \<Rightarrow> string \<Rightarrow> (string + unit) ob_prog" where
  "out_line env l = ask (\<lambda>h. on_out env h l) (Out_line l)"
definition get_annotation :: "ob_env \<Rightarrow> string \<Rightarrow> (string + string) ob_prog" where
  "get_annotation env k = ask (\<lambda>h. on_get_annotation env h k) (Get_annotation k)"

lemmas ob_calls = decrypt_def pod_list_def pod_status_def raft_join_def unseal_call_def
  audit_line_def out_line_def get_annotation_def

section \<open>Unsealing\<close>

text \<open>The fleet repository's path is taken to be clean, so joining is concatenation.\<close>

record ob_options =
  cluster_name :: string
  fleet_repo :: string
  has_sops :: bool
  has_openbao :: bool

definition secrets_path :: "ob_options \<Rightarrow> string" where
  "secrets_path o' = fleet_repo o' @ ''/clusters/'' @ cluster_name o' @ ''/secrets.enc.yaml''"

definition validate_options :: "ob_options \<Rightarrow> unit ob_prog" where
  "validate_options o' =
     bind (guard (Missing_dependency ''ClusterName'') (cluster_name o' \<noteq> [])) (\<lambda>_.
     bind (guard (Missing_dependency ''FleetRepo'') (fleet_repo o' \<noteq> [])) (\<lambda>_.
     bind (guard (Missing_dependency ''SOPS'') (has_sops o')) (\<lambda>_.
     guard (Missing_dependency ''OpenBao'') (has_openbao o'))))"

text \<open>Decrypting the secrets file and extracting the shares.\<close>

definition read_shares :: "ob_env \<Rightarrow> ob_options \<Rightarrow> (string \<Rightarrow> int list + string list) \<Rightarrow> string list ob_prog" where
  "read_shares env o' extract =
     bind (decrypt env (secrets_path o')) (\<lambda>r.
     bind (check_err (\<lambda>_. Decrypt_failed) r) (\<lambda>text.
     check_err Missing_shares (extract text)))"

definition leader_url :: "string \<Rightarrow> string" where
  "leader_url leader = ''http://'' @ leader @ ''.openbao-internal:8200''"

definition apply_share :: "ob_env \<Rightarrow> string \<Rightarrow> nat \<times> string \<Rightarrow> unit ob_prog" where
  "apply_share env p s =
     bind (unseal_call env p (snd s)) (\<lambda>r. check_err (\<lambda>_. Unseal_failed p (fst s)) r)"

definition join_follower :: "ob_env \<Rightarrow> string \<Rightarrow> string \<Rightarrow> bao_status \<Rightarrow> unit ob_prog" where
  "join_follower env leader p st =
     (if \<not> initialized st \<and> p \<noteq> leader
      then bind (raft_join env p (leader_url leader)) (\<lambda>r. check_err (\<lambda>_. Join_failed p) r)
      else ret ())"

definition unseal_pod :: "ob_env \<Rightarrow> string list \<Rightarrow> string \<Rightarrow> string \<Rightarrow> unit ob_prog" where
  "unseal_pod env shares leader p =
     bind (pod_status env p) (\<lambda>r.
     bind (check_err (\<lambda>_. Status_failed p) r) (\<lambda>st.
     if \<not> sealed st then ret ()
     else bind (join_follower env leader p st) (\<lambda>_.
          for_each (apply_share env p) (enumerate 1 shares))))"

definition unseal :: "ob_env \<Rightarrow> ob_options \<Rightarrow> unit ob_prog" where
  "unseal env o' =
     bind (validate_options o') (\<lambda>_.
     bind (read_shares env o' extract_threshold_shares) (\<lambda>shares.
     bind (pod_list env) (\<lambda>r.
     bind (check_err (\<lambda>_. Pods_failed) r) (\<lambda>pods.
     bind (guard No_pods (pods \<noteq> [])) (\<lambda>_.
     for_each (unseal_pod env shares (hd pods)) pods)))))"

section \<open>Status\<close>

record status_result =
  sr_cluster_name :: string
  sr_pods :: "bao_status list"
  bootstrap_finalized :: string
  controller_auth_installed :: string
  generation_installed :: int
  generation_expected :: int

definition any_sealed :: "status_result \<Rightarrow> bool" where
  "any_sealed r \<longleftrightarrow> list_ex sealed (sr_pods r)"
definition any_uninitialized :: "status_result \<Rightarrow> bool" where
  "any_uninitialized r \<longleftrightarrow> list_ex (\<lambda>p. \<not> initialized p) (sr_pods r)"
definition all_uninitialized :: "status_result \<Rightarrow> bool" where
  "all_uninitialized r \<longleftrightarrow> sr_pods r \<noteq> [] \<and> list_all (\<lambda>p. \<not> initialized p) (sr_pods r)"
definition fully_ready :: "status_result \<Rightarrow> bool" where
  "fully_ready r \<longleftrightarrow> sr_pods r \<noteq> [] \<and> \<not> any_sealed r \<and> \<not> any_uninitialized r \<and>
     bootstrap_finalized r \<noteq> [] \<and> controller_auth_installed r \<noteq> []"
definition has_drift :: "status_result \<Rightarrow> bool" where
  "has_drift r \<longleftrightarrow> generation_expected r > generation_installed r"

definition policy_generation :: int where "policy_generation = 2"

definition finalized_key :: string where "finalized_key = ''kube-dc.com/openbao-bootstrap-finalized''"
definition installed_key :: string where "installed_key = ''kube-dc.com/openbao-controller-auth-installed''"
definition generation_key :: string where "generation_key = ''kube-dc.com/openbao-policy-generation''"

definition read_generation :: "ob_env \<Rightarrow> int ob_prog" where
  "read_generation env =
     bind (get_annotation env generation_key) (\<lambda>r.
     bind (check_err (\<lambda>_. Annotation_failed generation_key) r) (\<lambda>raw.
     if raw = [] then ret 0
     else (case atoi raw of
         None \<Rightarrow> fail (Bad_generation raw)
       | Some n \<Rightarrow> if n < 0 then fail (Bad_generation raw) else ret n)))"

definition read_annotation :: "ob_env \<Rightarrow> string \<Rightarrow> string ob_prog" where
  "read_annotation env k =
     bind (get_annotation env k) (\<lambda>r. check_err (\<lambda>_. Annotation_failed k) r)"

fun read_pods :: "ob_env \<Rightarrow> string list \<Rightarrow> bao_status list ob_prog" where
  "read_pods env [] = ret []"
| "read_pods env (p # ps) =
     bind (pod_status env p) (\<lambda>r.
     bind (check_err (\<lambda>_. Status_failed p) r) (\<lambda>st.
     bind (read_pods env ps) (\<lambda>sts. ret (st\<lparr>pod := p\<rparr> # sts))))"

definition read_status :: "ob_env \<Rightarrow> string \<Rightarrow> bool \<Rightarrow> status_result ob_prog" where
  "read_status env cluster has_bao =
     bind (guard (Missing_dependency ''OpenBao'') has_bao) (\<lambda>_.
     bind (pod_list env) (\<lambda>r.
     bind (check_err (\<lambda>_. Pods_failed) r) (\<lambda>pods.
     bind (guard No_pods (pods \<noteq> [])) (\<lambda>_.
     bind (read_pods env pods) (\<lambda>sts.
     bind (read_annotation env finalized_key) (\<lambda>bf.
     bind (read_annotation env installed_key) (\<lambda>cai.
     bind (read_generation env) (\<lambda>n.
     ret \<lparr>sr_cluster_name = cluster, sr_pods = sts, bootstrap_finalized = bf, controller_auth_installed = cai,
       generation_installed = n, generation_expected = policy_generation\<rparr>))))))))"

section \<open>Disclosing shares and root tokens\<close>

record disclose_options = ob_options +
  consent :: bool
  operator_name :: string
  revoke_immediately :: bool

definition operator :: "disclose_options \<Rightarrow> string" where
  "operator o' = (if operator_name o' = [] then ''<unknown>'' else operator_name o')"

definition write_audit :: "ob_env \<Rightarrow> ob_error \<Rightarrow> string \<Rightarrow> unit ob_prog" where
  "write_audit env e l = bind (audit_line env l) (\<lambda>r. check_err (\<lambda>_. e) r)"

definition write_out :: "ob_env \<Rightarrow> string \<Rightarrow> unit ob_prog" where
  "write_out env l = bind (out_line env l) (\<lambda>r. check_err (\<lambda>_. Output_failed) r)"

definition validate_reveal :: "disclose_options \<Rightarrow> unit ob_prog" where
  "validate_reveal o' =
     bind (guard (Missing_dependency ''ClusterName'') (cluster_name o' \<noteq> [])) (\<lambda>_.
     bind (guard (Missing_dependency ''FleetRepo'') (fleet_repo o' \<noteq> [])) (\<lambda>_.
     guard (Missing_dependency ''SOPS'') (has_sops o')))"

definition reveal_audit :: "disclose_options \<Rightarrow> string \<Rightarrow> string" where
  "reveal_audit o' stamp = ''[openbao] REVEAL: 5 shares decrypted for cluster '' @ cluster_name o' @ '' at '' @ stamp @
     '' by operator '' @ operator o' @ [NL]"

definition reveal_shares :: "ob_env \<Rightarrow> disclose_options \<Rightarrow> unit ob_prog" where
  "reveal_shares env o' =
     bind (validate_reveal o') (\<lambda>_.
     bind (guard Consent_required (consent o')) (\<lambda>_.
     bind (read_shares env (ob_options.truncate o') extract_all_shares) (\<lambda>shares.
     bind (observe (timestamp env)) (\<lambda>stamp.
     bind (write_audit env Audit_failed (reveal_audit o' stamp)) (\<lambda>_.
     bind (write_out env reveal_header) (\<lambda>_.
     bind (for_each (write_out env) (share_lines shares)) (\<lambda>_.
     write_out env reveal_footer)))))))"

definition generate_audit :: "disclose_options \<Rightarrow> string \<Rightarrow> string" where
  "generate_audit o' stamp = ''[openbao] GENERATE-ROOT: single-use root token generated for cluster '' @ cluster_name o' @
     '' at '' @ stamp @ '' by operator '' @ operator o' @ [NL]"

definition token_line :: "string \<Rightarrow> string" where
  "token_line token = ''OPENBAO_ROOT_TOKEN: '' @ token @ [NL]"

definition revoke_warning :: "string \<Rightarrow> string" where
  "revoke_warning e = ''[openbao] WARNING: RevokeSelf failed ('' @ e @ '') '' @ em_dash @
     '' token may still be live; run: bao token revoke <OPENBAO_ROOT_TOKEN> (using the token printed on stdout above)'' @ [NL]"

definition live_hint :: string where
  "live_hint = ''[openbao] token is LIVE '' @ em_dash @
     '' revoke when done: bao token revoke <token> (or re-run with --revoke-immediately)'' @ [NL]"

text \<open>After the token is out: revoke it, or say that it lives.\<close>

definition settle_token :: "ob_env \<Rightarrow> disclose_options \<Rightarrow> string \<Rightarrow> unit ob_prog" where
  "settle_token env o' token =
     (if revoke_immediately o' then
        bind (ask (\<lambda>h. on_revoke_self env h token) (Revoke_self token)) (\<lambda>r.
        case r of
          Inl e \<Rightarrow> bind (audit_line env (revoke_warning e)) (\<lambda>w.
            fail (case w of Inl _ \<Rightarrow> Revoke_and_audit_failed | Inr _ \<Rightarrow> Revoke_failed))
        | Inr _ \<Rightarrow> write_audit env Status_audit_failed (''[openbao] token revoked (--revoke-immediately)'' @ [NL]))
      else write_audit env Status_audit_failed live_hint)"

definition generate_root :: "ob_env \<Rightarrow> disclose_options \<Rightarrow> unit ob_prog" where
  "generate_root env o' =
     bind (validate_options (ob_options.truncate o')) (\<lambda>_.
     bind (guard Consent_required (consent o')) (\<lambda>_.
     bind (read_shares env (ob_options.truncate o') extract_threshold_shares) (\<lambda>shares.
     bind (ask (\<lambda>h. on_generate_root env h shares) (Generate_root_call shares)) (\<lambda>r.
     bind (check_err (\<lambda>_. Ceremony_failed) r) (\<lambda>token.
     bind (observe (timestamp env)) (\<lambda>stamp.
     bind (write_audit env Audit_failed (generate_audit o' stamp)) (\<lambda>_.
     bind (write_out env (token_line token)) (\<lambda>_.
     settle_token env o' token))))))))"

section \<open>Controller auth\<close>

definition auth_path :: string where "auth_path = ''k8s-host''"

definition manager_role_params :: "(string \<times> string) list" where
  "manager_role_params =
     [(''bound_service_account_names'', ''kube-dc-manager''), (''bound_service_account_namespaces'', ''kube-dc''),
      (''policies'', ''kube-dc-controller-manager''), (''token_ttl'', ''1h''), (''token_max_ttl'', ''24h'')]"

definition db_manager_role_params :: "(string \<times> string) list" where
  "db_manager_role_params =
     [(''bound_service_account_names'', ''kube-dc-db-manager''), (''bound_service_account_namespaces'', ''kube-dc''),
      (''policies'', ''db-manager''), (''token_ttl'', ''1h''), (''token_max_ttl'', ''24h'')]"

definition snapshot_role_params :: "(string \<times> string) list" where
  "snapshot_role_params =
     [(''bound_service_account_names'', ''openbao-snapshot''), (''bound_service_account_namespaces'', ''openbao''),
      (''policies'', ''openbao-snapshot''), (''token_ttl'', ''15m''), (''token_max_ttl'', ''15m''),
      (''token_no_default_policy'', ''true'')]"

text \<open>The three policies' texts are embedded files; here they are parameters.\<close>

record setup_options =
  root_token :: string
  refresh_only :: bool
  setup_has_openbao :: bool
  setup_has_k8s :: bool

record policy_texts =
  manager_hcl :: string
  db_manager_hcl :: string
  snapshot_hcl :: string

definition validate_setup :: "setup_options \<Rightarrow> unit ob_prog" where
  "validate_setup o' =
     bind (guard Empty_token (root_token o' \<noteq> [])) (\<lambda>_.
     bind (guard (Missing_dependency ''OpenBao'') (setup_has_openbao o')) (\<lambda>_.
     guard (Missing_dependency ''K8s'') (setup_has_k8s o')))"

definition load_k8s_auth_config :: "ob_env \<Rightarrow> bao_write ob_prog" where
  "load_k8s_auth_config env =
     bind (ask (\<lambda>h. on_config_map env h (''kube-dc'', ''kube-root-ca.crt'', ''ca.crt''))
         (Get_config_map (''kube-dc'', ''kube-root-ca.crt'', ''ca.crt''))) (\<lambda>r.
     bind (check_err (\<lambda>_. Config_map_failed) r) (\<lambda>ca.
     bind (guard No_ca (ca \<noteq> [])) (\<lambda>_.
     ret (Configure_auth auth_path ''https://kubernetes.default.svc'' ca True))))"

definition bao_write :: "ob_env \<Rightarrow> setup_options \<Rightarrow> bao_write \<Rightarrow> unit ob_prog" where
  "bao_write env o' w =
     bind (ask (\<lambda>h. on_bao_write env h (root_token o') w) (Bao_write (root_token o') w)) (\<lambda>r.
     check_err (\<lambda>_. Write_failed w) r)"

definition enable_and_configure :: "ob_env \<Rightarrow> setup_options \<Rightarrow> unit ob_prog" where
  "enable_and_configure env o' =
     (if refresh_only o' then ret ()
      else bind (bao_write env o' (Enable_auth ''kubernetes'' auth_path)) (\<lambda>_.
           bind (load_k8s_auth_config env) (\<lambda>w. bao_write env o' w)))"

definition policy_writes :: "policy_texts \<Rightarrow> bao_write list" where
  "policy_writes ps =
     [Apply_policy ''kube-dc-controller-manager'' (manager_hcl ps),
      Write_role auth_path ''kube-dc-controller-manager'' manager_role_params,
      Apply_policy ''db-manager'' (db_manager_hcl ps),
      Write_role auth_path ''db-manager'' db_manager_role_params,
      Apply_policy ''openbao-snapshot'' (snapshot_hcl ps),
      Write_role auth_path ''openbao-snapshot'' snapshot_role_params]"

definition stamps :: "setup_options \<Rightarrow> string \<Rightarrow> (string \<times> string) list" where
  "stamps o' now = (generation_key, ''2'') # (if refresh_only o' then [] else [(installed_key, now)])"

definition setup_controller_auth :: "ob_env \<Rightarrow> policy_texts \<Rightarrow> setup_options \<Rightarrow> unit ob_prog" where
  "setup_controller_auth env ps o' =
     bind (validate_setup o') (\<lambda>_.
     bind (enable_and_configure env o') (\<lambda>_.
     bind (for_each (bao_write env o') (policy_writes ps)) (\<lambda>_.
     bind (observe (timestamp env)) (\<lambda>now.
     bind (ask (\<lambda>h. on_set_annotations env h (stamps o' now)) (Set_annotations (stamps o' now))) (\<lambda>r.
     check_err (\<lambda>_. Annotate_failed) r)))))"


section \<open>Unsealing: what is done when\<close>

definition unsealed_seen :: "string \<Rightarrow> ob_event list \<Rightarrow> bool" where
  "unsealed_seen p h \<longleftrightarrow> (\<exists>st. Pod_status p (Inr st) \<in> set h \<and> \<not> sealed st)"

definition given_all :: "string list \<Rightarrow> string \<Rightarrow> ob_event list \<Rightarrow> bool" where
  "given_all shares p h \<longleftrightarrow> (\<forall>s\<in>set shares. Unseal p s (Inr ()) \<in> set h)"

definition shares_read :: "ob_options \<Rightarrow> string list \<Rightarrow> ob_event list \<Rightarrow> bool" where
  "shares_read o' shares h \<longleftrightarrow>
     (\<exists>text. Decrypt (secrets_path o') (Inr text) \<in> set h \<and> extract_threshold_shares text = Inr shares)"

text \<open>A sealed pod that can take shares: initialized, the leader, or joined to the leader.\<close>

definition ready_for_share :: "string list \<Rightarrow> string \<Rightarrow> ob_event list \<Rightarrow> bool" where
  "ready_for_share pods p h \<longleftrightarrow> (\<exists>st. Pod_status p (Inr st) \<in> set h \<and> sealed st \<and>
     (initialized st \<or> p = hd pods \<or> Raft_join p (leader_url (hd pods)) (Inr ()) \<in> set h))"

definition unseal_allowed :: "ob_options \<Rightarrow> ob_event list \<Rightarrow> ob_event \<Rightarrow> bool" where
  "unseal_allowed o' h e = (case e of
      Decrypt q r \<Rightarrow> q = secrets_path o'
    | Pod_list r \<Rightarrow> True
    | Pod_status p r \<Rightarrow> True
    | Unseal p s r \<Rightarrow> (\<exists>shares pods. shares_read o' shares h \<and> s \<in> set shares \<and>
        Pod_list (Inr pods) \<in> set h \<and> p \<in> set pods \<and> ready_for_share pods p h)
    | Raft_join p url r \<Rightarrow> (\<exists>pods st. Pod_list (Inr pods) \<in> set h \<and> p \<in> set pods \<and> p \<noteq> hd pods \<and>
        url = leader_url (hd pods) \<and> Pod_status p (Inr st) \<in> set h \<and> sealed st \<and> \<not> initialized st)
    | _ \<Rightarrow> False)"

lemma seen_grows [simp]:
  "unsealed_seen p h \<Longrightarrow> unsealed_seen p (h @ evs)"
  "given_all shares p h \<Longrightarrow> given_all shares p (h @ evs)"
  "shares_read o' shares h \<Longrightarrow> shares_read o' shares (h @ evs)"
  "ready_for_share pods p h \<Longrightarrow> ready_for_share pods p (h @ evs)"
  by (auto simp: unsealed_seen_def given_all_def shares_read_def ready_for_share_def)

text \<open>The state of a run that has its shares and pods.\<close>

definition unsealing :: "ob_options \<Rightarrow> string list \<Rightarrow> string list \<Rightarrow> ob_event list \<Rightarrow> bool" where
  "unsealing o' shares pods h \<longleftrightarrow> always (unseal_allowed o') h \<and> shares_read o' shares h \<and> Pod_list (Inr pods) \<in> set h"

lemma unsealing_step:
  "unsealing o' shares pods h \<Longrightarrow> unseal_allowed o' h e \<Longrightarrow> unsealing o' shares pods (h @ [e])"
  by (auto simp: unsealing_def)

definition handled :: "string list \<Rightarrow> string list \<Rightarrow> ob_event list \<Rightarrow> bool" where
  "handled shares ps h \<longleftrightarrow> (\<forall>p\<in>set ps. unsealed_seen p h \<or> given_all shares p h)"

lemma handled_grows [simp]: "handled shares ps h \<Longrightarrow> handled shares ps (h @ evs)"
  by (auto simp: handled_def)

lemma handled_Nil [simp]: "handled shares [] h"
  by (simp add: handled_def)

lemma apply_shares_wp:
  assumes "unsealing o' shares pods h" "handled shares ys h" "p \<in> set pods" "ready_for_share pods p h"
  shows "wp (for_each (apply_share env p) (enumerate 1 shares))
    (\<lambda>_ h'. unsealing o' shares pods h' \<and> handled shares (ys @ [p]) h')
    (\<lambda>_ h'. unsealing o' shares pods h') h"
proof -
  let ?I = "\<lambda>ss h. unsealing o' shares pods h \<and> handled shares ys h \<and> ready_for_share pods p h \<and>
    (\<forall>s\<in>set ss. Unseal p (snd s) (Inr ()) \<in> set h)"
  have "wp (for_each (apply_share env p) (enumerate 1 shares)) (\<lambda>_. ?I (enumerate 1 shares))
      (\<lambda>_ h'. unsealing o' shares pods h') h"
  proof (rule wp_for_each_upto)
    fix ss x zs h'
    assume xs: "enumerate 1 shares = ss @ x # zs" and I: "?I ss h'"
    have "snd x \<in> snd ` set (enumerate 1 shares)" unfolding xs by simp
    then have s: "snd x \<in> set shares" by (metis list.set_map map_snd_enumerate)
    have "unsealing o' shares pods (h' @ [Unseal p (snd x) r])" for r
      using I s assms(3) by (intro unsealing_step) (auto simp: unseal_allowed_def unsealing_def)
    then show "wp (apply_share env p x) (\<lambda>_. ?I (ss @ [x])) (\<lambda>_ h'. unsealing o' shares pods h') h'"
      using I by (auto simp: apply_share_def ob_calls wp split: sum.splits)
  qed (use assms in simp)
  then show ?thesis
  proof (rule wp_conseq)
    fix u h'
    assume I: "?I (enumerate 1 shares) h'"
    have "given_all shares p h'"
      unfolding given_all_def
    proof
      fix s assume "s \<in> set shares"
      then have "s \<in> snd ` set (enumerate 1 shares)" by (metis list.set_map map_snd_enumerate)
      then show "Unseal p s (Inr ()) \<in> set h'" using I by auto
    qed
    then show "unsealing o' shares pods h' \<and> handled shares (ys @ [p]) h'" using I by (auto simp: handled_def)
  qed simp
qed

lemma unseal_pod_wp:
  assumes "unsealing o' shares pods h" "handled shares ys h" "p \<in> set pods"
  shows "wp (unseal_pod env shares (hd pods) p)
    (\<lambda>_ h'. unsealing o' shares pods h' \<and> handled shares (ys @ [p]) h')
    (\<lambda>_ h'. unsealing o' shares pods h') h"
proof -
  have 1: "unsealing o' shares pods (h @ [Pod_status p r])" "handled shares ys (h @ [Pod_status p r])" for r
    using assms by (simp_all add: unsealing_step unseal_allowed_def)
  show ?thesis
  proof (cases "on_status env h p")
    case (Inr st)
    let ?h = "h @ [Pod_status p (Inr st)]"
    show ?thesis
    proof (cases "sealed st")
      case False
      then have "unsealed_seen p ?h" by (auto simp: unsealed_seen_def)
      then show ?thesis using 1 [of "Inr st"] Inr False
        by (auto simp: unseal_pod_def ob_calls wp handled_def)
    next
      case True
      show ?thesis
      proof (cases "\<not> initialized st \<and> p \<noteq> hd pods")
        case False
        then have "ready_for_share pods p ?h" using True by (auto simp: ready_for_share_def)
        then show ?thesis using apply_shares_wp [OF 1 assms(3)] Inr True False
          by (auto simp add: unseal_pod_def join_follower_def ob_calls wp)
      next
        case uninit: True
        let ?j = "\<lambda>r. ?h @ [Raft_join p (leader_url (hd pods)) r]"
        have j: "unsealing o' shares pods (?j r)" "handled shares ys (?j r)" for r
        proof -
          have "unseal_allowed o' ?h (Raft_join p (leader_url (hd pods)) r)"
            using uninit True assms by (auto simp: unseal_allowed_def unsealing_def)
          then show "unsealing o' shares pods (?j r)" by (rule unsealing_step [OF 1(1)])
          show "handled shares ys (?j r)" by (rule handled_grows [OF 1(2)])
        qed
        have "ready_for_share pods p (?j (Inr ()))" using True by (auto simp: ready_for_share_def)
        then show ?thesis using apply_shares_wp [OF j assms(3)] j Inr True uninit
          by (auto simp: unseal_pod_def join_follower_def ob_calls wp split: sum.split)
      qed
    qed
  qed (use 1 in \<open>simp add: unseal_pod_def ob_calls wp\<close>)
qed

lemma validate_wp: "wp (validate_options o') (\<lambda>_ h'. h' = h) (\<lambda>_ h'. h' = h) h"
  by (auto simp: validate_options_def wp)

text \<open>What a run of unseal comes to, for every environment.\<close>

lemma unseal_wp:
  "wp (unseal env o')
    (\<lambda>_ h. \<exists>shares pods. unsealing o' shares pods h \<and> pods \<noteq> [] \<and> handled shares pods h)
    (\<lambda>_ h. always (unseal_allowed o') h) []"
proof -
  have loop: "wp (for_each (unseal_pod env shares (hd pods)) pods)
      (\<lambda>_ h. \<exists>shares pods. unsealing o' shares pods h \<and> pods \<noteq> [] \<and> handled shares pods h)
      (\<lambda>_ h. always (unseal_allowed o') h) h"
    if "unsealing o' shares pods h" "pods \<noteq> []" for shares pods h
  proof -
    have "wp (for_each (unseal_pod env shares (hd pods)) pods)
        (\<lambda>_ h. unsealing o' shares pods h \<and> handled shares pods h) (\<lambda>_ h. unsealing o' shares pods h) h"
      by (rule wp_for_each_upto)
        (use that unseal_pod_wp in auto)
    then show ?thesis by (rule wp_conseq) (use that in \<open>auto simp: unsealing_def\<close>)
  qed
  let ?d = "on_decrypt env [] (secrets_path o')"
  have "unsealing o' shares pods [Decrypt (secrets_path o') (Inr raw), Pod_list (Inr pods)]"
    if "extract_threshold_shares raw = Inr shares" for raw shares pods
    using that always_snoc [of "unseal_allowed o'" "[Decrypt (secrets_path o') (Inr raw)]"]
    by (auto simp: unsealing_def shares_read_def unseal_allowed_def)
  then show ?thesis
    using loop always_snoc [of "unseal_allowed o'" "[Decrypt (secrets_path o') ?d]"]
    by (auto simp: unseal_def validate_options_def read_shares_def ob_calls wp unseal_allowed_def split: sum.splits)
qed


text \<open>C3. Unseal is careful and thorough, whatever the clients answer: it submits a share only if it is one
  of the three it extracted from the secrets file, and only to a listed pod that reported itself
  sealed and is initialized, the leader, or freshly joined to the leader's Raft cluster; it joins only
  sealed, uninitialized followers, to the leader; it does nothing else to OpenBao; and when it
  reports success every listed pod reported itself unsealed or accepted all three shares.\<close>

theorem unseal_safe:
  assumes "unseal env o' [] = Some (res, h)"
  shows "always (unseal_allowed o') h \<and>
    (is_ok res \<longrightarrow> (\<exists>shares pods. shares_read o' shares h \<and> length shares = 3 \<and>
       Pod_list (Inr pods) \<in> set h \<and> pods \<noteq> [] \<and>
       (\<forall>p\<in>set pods. unsealed_seen p h \<or> given_all shares p h)))"
proof (cases res)
  case (Inl e)
  then show ?thesis using wp_Inl [OF unseal_wp] assms by simp
next
  case (Inr u)
  then obtain shares pods where "unsealing o' shares pods h" "pods \<noteq> []" "handled shares pods h"
    using wp_Inr [OF unseal_wp] assms by blast
  moreover have "length shares = 3" if "shares_read o' shares h"
    using that by (auto simp: shares_read_def extract_threshold_shares_def Let_def split: if_splits)
  ultimately show ?thesis unfolding unsealing_def handled_def by blast
qed

section \<open>A cooperating cluster\<close>

text \<open>What OpenBao documents, for the run's shares and pods: a pod that accepted all shares, and one
  that was unsealed, reports itself unsealed from then on; an unsealed pod is initialized, and so is
  the leader; joining the leader works; a share is accepted by a pod that is initialized or joined.\<close>

definition cluster_cooperates :: "ob_env \<Rightarrow> string list \<Rightarrow> string list \<Rightarrow> bool" where
  "cluster_cooperates env shares pods \<longleftrightarrow>
     pods \<noteq> [] \<and>
     (\<forall>h. on_pod_list env h = Inr pods) \<and>
     (\<forall>h. \<forall>p\<in>set pods. \<exists>st. on_status env h p = Inr st \<and>
        (unsealed_seen p h \<or> given_all shares p h \<longrightarrow> \<not> sealed st) \<and>
        (\<not> sealed st \<or> p = hd pods \<longrightarrow> initialized st)) \<and>
     (\<forall>h. \<forall>p\<in>set pods. on_raft_join env h p (leader_url (hd pods)) = Inr ()) \<and>
     (\<forall>h. \<forall>p\<in>set pods. \<forall>s\<in>set shares.
        (\<exists>st. Pod_status p (Inr st) \<in> set h \<and> initialized st) \<or>
        Raft_join p (leader_url (hd pods)) (Inr ()) \<in> set h \<longrightarrow> on_unseal env h p s = Inr ()) \<and>
     (\<forall>h k. \<exists>v. on_get_annotation env h k = Inr v \<and> (k = generation_key \<longrightarrow> v \<in> {[], ''1'', ''2''}))"

lemma cooperatesD:
  assumes "cluster_cooperates env shares pods"
  shows "pods \<noteq> []" "on_pod_list env h = Inr pods"
    "p \<in> set pods \<Longrightarrow> \<exists>st. on_status env h p = Inr st \<and>
        (unsealed_seen p h \<or> given_all shares p h \<longrightarrow> \<not> sealed st) \<and> (\<not> sealed st \<or> p = hd pods \<longrightarrow> initialized st)"
    "p \<in> set pods \<Longrightarrow> on_raft_join env h p (leader_url (hd pods)) = Inr ()"
    "p \<in> set pods \<Longrightarrow> s \<in> set shares \<Longrightarrow> (\<exists>st. Pod_status p (Inr st) \<in> set h \<and> initialized st) \<or>
        Raft_join p (leader_url (hd pods)) (Inr ()) \<in> set h \<Longrightarrow> on_unseal env h p s = Inr ()"
    "\<exists>v. on_get_annotation env h k = Inr v \<and> (k = generation_key \<longrightarrow> v \<in> {[], ''1'', ''2''})"
  using assms unfolding cluster_cooperates_def by blast+

lemma share_accepted:
  assumes "cluster_cooperates env shares pods" "p \<in> set pods"
    and "(\<exists>st. Pod_status p (Inr st) \<in> set h \<and> initialized st) \<or> Raft_join p (leader_url (hd pods)) (Inr ()) \<in> set h"
  shows "wp (for_each (apply_share env p) (enumerate 1 shares)) (\<lambda>_ _. True) (\<lambda>_ _. False) h"
proof -
  let ?I = "\<lambda>ss h. (\<exists>st. Pod_status p (Inr st) \<in> set h \<and> initialized st) \<or>
    Raft_join p (leader_url (hd pods)) (Inr ()) \<in> set h"
  have "wp (for_each (apply_share env p) (enumerate 1 shares)) (\<lambda>_. ?I (enumerate 1 shares)) (\<lambda>_ _. False) h"
  proof (rule wp_for_each_upto)
    fix ss x zs h'
    assume xs: "enumerate 1 shares = ss @ x # zs" and I: "?I ss h'"
    have "snd x \<in> snd ` set (enumerate 1 shares)" unfolding xs by simp
    then have "snd x \<in> set shares" by (metis list.set_map map_snd_enumerate)
    then show "wp (apply_share env p x) (\<lambda>_. ?I (ss @ [x])) (\<lambda>_ _. False) h'"
      using cooperatesD(5) [OF assms(1,2) _ I] I by (auto simp: apply_share_def ob_calls wp)
  qed (rule assms(3))
  then show ?thesis by (rule wp_conseq) auto
qed

lemma unseal_pod_succeeds:
  assumes "cluster_cooperates env shares pods" "p \<in> set pods"
  shows "wp (unseal_pod env shares (hd pods) p) (\<lambda>_ _. True) (\<lambda>_ _. False) h"
proof -
  obtain st where st: "on_status env h p = Inr st" "p = hd pods \<longrightarrow> initialized st"
    using cooperatesD(3) [OF assms] by blast
  let ?h = "h @ [Pod_status p (Inr st)]"
  show ?thesis
  proof (cases "initialized st")
    case True
    then have "wp (for_each (apply_share env p) (enumerate 1 shares)) (\<lambda>_ _. True) (\<lambda>_ _. False) ?h"
      by (intro share_accepted [OF assms]) auto
    then show ?thesis using st True by (auto simp: unseal_pod_def join_follower_def ob_calls wp)
  next
    case False
    have "wp (for_each (apply_share env p) (enumerate 1 shares)) (\<lambda>_ _. True) (\<lambda>_ _. False)
        (?h @ [Raft_join p (leader_url (hd pods)) (Inr ())])"
      by (intro share_accepted [OF assms]) auto
    then show ?thesis using st False cooperatesD(4) [OF assms]
      by (auto simp: unseal_pod_def join_follower_def ob_calls wp)
  qed
qed

lemma unseal_succeeds:
  assumes "cluster_cooperates env shares pods"
    and "on_decrypt env [] (secrets_path o') = Inr raw" "extract_threshold_shares raw = Inr shares"
    and "cluster_name o' \<noteq> []" "fleet_repo o' \<noteq> []" "has_sops o'" "has_openbao o'"
  shows "wp (unseal env o') (\<lambda>_. handled shares pods) (\<lambda>_ _. False) []"
proof -
  let ?h = "[Decrypt (secrets_path o') (Inr raw), Pod_list (Inr pods)]"
  have start: "unsealing o' shares pods ?h"
    using assms(3) always_snoc [of "unseal_allowed o'" "[Decrypt (secrets_path o') (Inr raw)]"]
    by (auto simp: unsealing_def shares_read_def unseal_allowed_def)
  have "wp (for_each (unseal_pod env shares (hd pods)) pods)
      (\<lambda>_ h. unsealing o' shares pods h \<and> handled shares pods h) (\<lambda>_ _. False) ?h"
  proof (rule wp_for_each_upto [where I = "\<lambda>ys h. unsealing o' shares pods h \<and> handled shares ys h"])
    fix ys p zs h
    assume "pods = ys @ p # zs" "unsealing o' shares pods h \<and> handled shares ys h"
    then show "wp (unseal_pod env shares (hd pods) p)
        (\<lambda>_ h. unsealing o' shares pods h \<and> handled shares (ys @ [p]) h) (\<lambda>_ _. False) h"
      using wp_conj_total [OF unseal_pod_wp unseal_pod_succeeds [OF assms(1)]] by simp
  qed (use start in simp)
  then have "wp (for_each (unseal_pod env shares (hd pods)) pods) (\<lambda>_. handled shares pods) (\<lambda>_ _. False) ?h"
    by (rule wp_conseq) simp_all
  then show ?thesis
    using assms(2-) cooperatesD(1,2) [OF assms(1)]
    by (simp add: unseal_def validate_options_def read_shares_def ob_calls wp)
qed

lemma returns_unseal: "returns (unseal env o') h"
proof -
  have "returns (unseal_pod env shares l p) h" for shares l p h
    by (auto simp: unseal_pod_def join_follower_def ob_calls apply_share_def
        intro!: returns_seq returns_for_each)
  then show ?thesis
    by (auto simp: unseal_def validate_options_def read_shares_def ob_calls intro!: returns_seq returns_for_each)
qed

text \<open>Reading the status of pods that are done.\<close>

lemma read_pods_done:
  assumes "cluster_cooperates env shares pods" "set ps \<subseteq> set pods" "handled shares ps h"
  shows "wp (read_pods env ps)
    (\<lambda>sts h'. list_all (\<lambda>st. \<not> sealed st \<and> initialized st) sts \<and> map pod sts = ps)
    (\<lambda>_ _. False) h"
  using assms(2,3)
proof (induction ps arbitrary: h)
  case (Cons p ps)
  obtain st where st: "on_status env h p = Inr st" "\<not> sealed st" "initialized st"
    using cooperatesD(3) [OF assms(1), of p h] Cons.prems by (auto simp: handled_def)
  have "handled shares ps (h @ [Pod_status p (Inr st)])" using Cons.prems(2) by (auto simp: handled_def)
  then have "wp (read_pods env ps) (\<lambda>sts h'. list_all (\<lambda>st. \<not> sealed st \<and> initialized st) sts \<and> map pod sts = ps)
      (\<lambda>_ _. False) (h @ [Pod_status p (Inr st)])"
    using Cons by simp
  then show ?case
    using st by (auto simp: ob_calls wp elim!: wp_conseq)
qed (simp add: wp)

lemma read_generation_known:
  assumes "cluster_cooperates env shares pods"
  shows "wp (read_generation env) (\<lambda>_ _. True) (\<lambda>_ _. False) h"
proof -
  obtain v where v: "on_get_annotation env h generation_key = Inr v" "v \<in> {[], ''1'', ''2''}"
    using cooperatesD(6) [OF assms] by blast
  moreover have "atoi ''1'' = Some 1" "atoi ''2'' = Some 2" by (simp_all add: atoi_def re_digit_def Let_def)
  ultimately show ?thesis by (auto simp: read_generation_def ob_calls wp)
qed

lemma read_annotation_works:
  "cluster_cooperates env shares pods \<Longrightarrow> wp (read_annotation env k) (\<lambda>_ _. True) (\<lambda>_ _. False) h"
  using cooperatesD(6) [of env shares pods h k] by (auto simp: read_annotation_def ob_calls wp)

lemma status_after_unseal:
  assumes "cluster_cooperates env shares pods" "handled shares pods h"
  shows "wp (read_status env c True) (\<lambda>r _. \<not> any_sealed r \<and> \<not> any_uninitialized r \<and> map pod (sr_pods r) = pods)
    (\<lambda>_ _. False) h"
proof -
  have 1: "wp (read_pods env pods) (\<lambda>sts h'. list_all (\<lambda>st. \<not> sealed st \<and> initialized st) sts \<and> map pod sts = pods)
      (\<lambda>_ _. False) (h @ [Pod_list (Inr pods)])"
    by (rule wp_conseq [OF read_pods_done [OF assms(1), of pods]]) (use assms(2) in auto)
  have 2: "wp (bind (read_annotation env finalized_key) (\<lambda>bf. bind (read_annotation env installed_key) (\<lambda>cai.
      bind (read_generation env) (\<lambda>n. ret \<lparr>sr_cluster_name = c, sr_pods = sts, bootstrap_finalized = bf,
        controller_auth_installed = cai, generation_installed = n, generation_expected = policy_generation\<rparr>))))
      (\<lambda>r _. sr_pods r = sts) (\<lambda>_ _. False) h'" for sts h'
    unfolding wp_bind wp_ret
    by (rule wp_conseq [OF read_annotation_works [OF assms(1)]],
        rule wp_conseq [OF read_annotation_works [OF assms(1)]],
        rule wp_conseq [OF read_generation_known [OF assms(1)]]) simp_all
  let ?Q = "\<lambda>r. \<not> any_sealed r \<and> \<not> any_uninitialized r \<and> map pod (sr_pods r) = pods"
  have 3: "wp (read_pods env pods) (\<lambda>sts. wp (bind (read_annotation env finalized_key) (\<lambda>bf. bind (read_annotation env installed_key) (\<lambda>cai.
      bind (read_generation env) (\<lambda>n. ret \<lparr>sr_cluster_name = c, sr_pods = sts, bootstrap_finalized = bf,
        controller_auth_installed = cai, generation_installed = n, generation_expected = policy_generation\<rparr>))))
      (\<lambda>r _. ?Q r) (\<lambda>_ _. False)) (\<lambda>_ _. False) (h @ [Pod_list (Inr pods)])"
    by (rule wp_conseq [OF 1], rule wp_conseq [OF 2])
      (auto simp: any_sealed_def any_uninitialized_def list_all_iff list_ex_iff)
  show ?thesis
    unfolding read_status_def wp_bind
    by (simp only: wp_guard pod_list_def wp_ask wp_check_err sum.case cooperatesD(1,2) [OF assms(1)] if_True
        simp_thms 3 [unfolded wp_bind])
qed

lemma returns_read_status: "returns (read_status env c b) h"
proof -
  have "returns (read_pods env ps) h" for ps h
    by (induction ps arbitrary: h) (auto simp: ob_calls intro!: returns_seq)
  moreover have "returns (read_generation env) h" for h
    by (auto simp: read_generation_def ob_calls split: option.split intro!: returns_seq)
  ultimately show ?thesis
    by (auto simp: read_status_def read_annotation_def ob_calls intro!: returns_seq)
qed

text \<open>C19. Unseal makes progress: against a cluster that behaves as OpenBao documents, with the shares in the
  secrets file, the run returns without an error, and a status taken afterwards shows every listed pod
  initialized and unsealed.\<close>

theorem unseal_then_status_unsealed:
  assumes "cluster_cooperates env shares pods"
    and "on_decrypt env [] (secrets_path o') = Inr raw" "extract_threshold_shares raw = Inr shares"
    and "cluster_name o' \<noteq> []" "fleet_repo o' \<noteq> []" "has_sops o'" "has_openbao o'"
  shows "\<exists>h r h'. unseal env o' [] = Some (Inr (), h) \<and> read_status env (cluster_name o') True h = Some (Inr r, h') \<and>
    map pod (sr_pods r) = pods \<and> \<not> any_sealed r \<and> \<not> any_uninitialized r"
proof -
  obtain h where run: "unseal env o' [] = Some (Inr (), h)" "handled shares pods h"
    using total_run [OF returns_unseal unseal_succeeds [OF assms]] by auto
  then show ?thesis
    using total_run [OF returns_read_status status_after_unseal [OF assms(1)], of h "cluster_name o'"] by blast
qed

text \<open>A small cluster that cooperates: two pods, the second not yet joined.\<close>

definition demo_shares :: "string list" where "demo_shares = [''a'', ''b'', ''c'']"

definition demo_raw :: string where "demo_raw = reveal_block [''a'', ''b'', ''c'', ''d'', ''e'']"

definition demo_env :: ob_env where
  "demo_env = \<lparr>on_decrypt = (\<lambda>_ _. Inr demo_raw), on_pod_list = (\<lambda>_. Inr [''openbao-0'', ''openbao-1'']),
     on_status = (\<lambda>h p. let up = unsealed_seen p h \<or> given_all demo_shares p h in
        Inr \<lparr>pod = p, initialized = up \<or> p = ''openbao-0'', sealed = \<not> up, version = ''2.5.3'', ha_mode = [],
          raft_index = 0, active_node_id = [], storage_type = ''raft''\<rparr>),
     on_raft_join = (\<lambda>_ _ _. Inr ()), on_unseal = (\<lambda>_ _ _. Inr ()), on_generate_root = (\<lambda>_ _. Inr ''hvs.root''),
     on_revoke_self = (\<lambda>_ _. Inr ()), on_audit = (\<lambda>_ _. Inr ()), on_out = (\<lambda>_ _. Inr ()),
     on_get_annotation = (\<lambda>h k. if k = generation_key then Inr ''2'' else Inr ''x''), on_set_annotations = (\<lambda>_ _. Inr ()),
     on_config_map = (\<lambda>_ _. Inr ''ca''), on_bao_write = (\<lambda>_ _ _. Inr ()), timestamp = (\<lambda>_. ''now'')\<rparr>"

definition demo_options :: ob_options where
  "demo_options = \<lparr>cluster_name = ''dc1'', fleet_repo = ''/fleet'', has_sops = True, has_openbao = True\<rparr>"

lemma demo_cooperates: "cluster_cooperates demo_env demo_shares [''openbao-0'', ''openbao-1'']"
  by (auto simp: cluster_cooperates_def demo_env_def Let_def)

lemma demo_raw_shares: "extract_threshold_shares demo_raw = Inr demo_shares"
  using revealed_block_read [of "[''a'', ''b'', ''c'', ''d'', ''e'']"]
  by (simp add: demo_raw_def demo_shares_def good_share_def share_char_def)

lemma unseal_then_status_unsealed_witness:
  "\<exists>h r h'. unseal demo_env demo_options [] = Some (Inr (), h) \<and>
     read_status demo_env ''dc1'' True h = Some (Inr r, h') \<and> \<not> any_sealed r"
  using unseal_then_status_unsealed [OF demo_cooperates _ demo_raw_shares, of demo_options]
  by (auto simp: demo_options_def demo_env_def)

lemma unseal_safe_witness:
  "\<exists>res h. unseal demo_env demo_options [] = Some (res, h) \<and> always (unseal_allowed demo_options) h"
proof -
  obtain res h where run: "unseal demo_env demo_options [] = Some (res, h)"
    using returns_unseal [of demo_env demo_options "[]"] by (auto simp: returns_def)
  then show ?thesis using unseal_safe [OF run] by blast
qed


section \<open>Disclosure after an audit record\<close>

text \<open>A line of standard output comes after an audit line that was written.\<close>

definition out_after_audit :: "(string \<Rightarrow> string) \<Rightarrow> ob_event list \<Rightarrow> ob_event \<Rightarrow> bool" where
  "out_after_audit audit h e = (case e of
      Out_line l r \<Rightarrow> (\<exists>stamp. Audit_line (audit stamp) (Inr ()) \<in> set h)
    | _ \<Rightarrow> True)"

text \<open>The contract of an engine that prints secrets: without consent it does nothing at all, and it
  prints only after its audit record.\<close>

locale audited_disclosure =
  fixes engine :: "ob_env \<Rightarrow> disclose_options \<Rightarrow> unit ob_prog"
    and audit :: "disclose_options \<Rightarrow> string \<Rightarrow> string"
  assumes audited: "wp (engine env o') (\<lambda>_. always (out_after_audit (audit o'))) (\<lambda>_. always (out_after_audit (audit o'))) []"
    and refuses: "\<not> consent o' \<Longrightarrow> \<exists>e. engine env o' [] = Some (Inl e, [])"
begin

lemma audit_before_output:
  assumes "engine env o' [] = Some (res, p @ Out_line l r # s)"
  shows "consent o' \<and> (\<exists>stamp. Audit_line (audit o' stamp) (Inr ()) \<in> set p)"
proof -
  have "always (out_after_audit (audit o')) (p @ Out_line l r # s)"
    using audited [of env o'] assms by (auto simp: wp_def split: sum.splits)
  then have "\<exists>stamp. Audit_line (audit o' stamp) (Inr ()) \<in> set p"
    by (auto dest: alwaysD simp: out_after_audit_def)
  moreover have "consent o'" using refuses [of o' env] assms by auto
  ultimately show ?thesis by blast
qed

text \<open>An engine whose audit channel is broken prints nothing.\<close>

lemma broken_audit_prints_nothing:
  assumes "engine env o' [] = Some (res, h)" "\<And>stamp. Audit_line (audit o' stamp) (Inr ()) \<notin> set h"
  shows "Out_line l r \<notin> set h"
  using assms audit_before_output by (metis in_set_conv_decomp Un_iff set_append)

end

lemma out_after_audit_other:
  "always (out_after_audit a) h \<Longrightarrow> (\<And>l r. e \<noteq> Out_line l r) \<Longrightarrow> always (out_after_audit a) (h @ [e])"
  by (auto simp: out_after_audit_def split: ob_event.splits)

lemma out_after_audit_ok:
  "always (out_after_audit a) h \<Longrightarrow> Audit_line (a stamp) (Inr ()) \<in> set h \<Longrightarrow> always (out_after_audit a) (h @ [e])"
  by (auto simp: out_after_audit_def split: ob_event.splits)

lemma write_out_wp:
  assumes "always (out_after_audit a) h" "Audit_line (a stamp) (Inr ()) \<in> set h"
  shows "wp (write_out env l) (\<lambda>_ h'. always (out_after_audit a) h' \<and> Audit_line (a stamp) (Inr ()) \<in> set h' \<and>
      Out_line l (Inr ()) \<in> set h')
    (\<lambda>e h'. always (out_after_audit a) h' \<and> e = Output_failed) h"
  using out_after_audit_ok [OF assms] assms by (auto simp: write_out_def ob_calls wp split: sum.split)

lemma write_audit_wp:
  assumes "always (out_after_audit a) h"
  shows "wp (write_audit env e l) (\<lambda>_ h'. always (out_after_audit a) h' \<and> h' = h @ [Audit_line l (Inr ())])
    (\<lambda>e' h'. always (out_after_audit a) h' \<and> e' = e \<and> (\<exists>x. h' = h @ [Audit_line l (Inl x)])) h"
  using out_after_audit_other [OF assms] by (auto simp: write_audit_def ob_calls wp split: sum.split)

lemma read_shares_wp:
  "wp (read_shares env o' extract) (\<lambda>_ h. always (out_after_audit a) h \<and> (\<forall>l r. Out_line l r \<notin> set h))
    (\<lambda>e h. always (out_after_audit a) h \<and> (\<forall>l r. Out_line l r \<notin> set h) \<and> (e = Decrypt_failed \<or> (\<exists>m. e = Missing_shares m))) []"
  by (auto simp: read_shares_def ob_calls wp out_after_audit_def split: sum.split)

lemma reveal_rest_wp:
  assumes "always (out_after_audit (reveal_audit o')) h"
  shows "wp (bind (write_audit env Audit_failed (reveal_audit o' stamp)) (\<lambda>_. bind (write_out env reveal_header) (\<lambda>_.
      bind (for_each (write_out env) (share_lines shares)) (\<lambda>_. write_out env reveal_footer))))
    (\<lambda>_. always (out_after_audit (reveal_audit o'))) (\<lambda>_. always (out_after_audit (reveal_audit o'))) h"
proof -
  let ?a = "reveal_audit o'"
  let ?A = "\<lambda>h. always (out_after_audit ?a) h \<and> Audit_line (?a stamp) (Inr ()) \<in> set h"
  have line: "wp (write_out env l) (\<lambda>_. ?A) (\<lambda>_. always (out_after_audit ?a)) h'" if "?A h'" for l h'
    by (rule wp_conseq [OF write_out_wp [of ?a]]) (use that in auto)
  have lines: "wp (for_each (write_out env) ls) (\<lambda>_. ?A) (\<lambda>_. always (out_after_audit ?a)) h'" if "?A h'" for ls h'
    by (rule wp_for_each [where I = ?A]) (use that line in auto)
  show ?thesis unfolding wp_bind
    by (rule wp_conseq [OF write_audit_wp [OF assms]], rule wp_conseq [OF line], simp,
        rule wp_conseq [OF lines], simp, rule wp_conseq [OF line]) auto
qed

interpretation reveal: audited_disclosure reveal_shares reveal_audit
proof
  show "wp (reveal_shares env o') (\<lambda>_. always (out_after_audit (reveal_audit o'))) (\<lambda>_. always (out_after_audit (reveal_audit o'))) []"
    for env o'
  proof -
    have "wp (read_shares env (ob_options.truncate o') extract_all_shares)
        (\<lambda>shares. wp (bind (observe (timestamp env)) (\<lambda>stamp.
           bind (write_audit env Audit_failed (reveal_audit o' stamp)) (\<lambda>_. bind (write_out env reveal_header) (\<lambda>_.
           bind (for_each (write_out env) (share_lines shares)) (\<lambda>_. write_out env reveal_footer)))))
         (\<lambda>_. always (out_after_audit (reveal_audit o'))) (\<lambda>_. always (out_after_audit (reveal_audit o'))))
        (\<lambda>_. always (out_after_audit (reveal_audit o'))) []"
      by (rule wp_conseq [OF read_shares_wp [of _ _ _ "reveal_audit o'"]])
        (auto simp only: wp_bind [of "observe _"] wp_observe intro: reveal_rest_wp)
    then show ?thesis
      by (simp add: reveal_shares_def validate_reveal_def wp_bind [of "guard _ _"] wp_bind [of "bind _ _"]
          wp_bind [of "read_shares _ _ _"] wp_guard del: wp_bind)
  qed
  show "\<exists>e. reveal_shares env o' [] = Some (Inl e, [])" if "\<not> consent o'" for env o'
    using that by (auto simp: reveal_shares_def validate_reveal_def bind_guard) (auto simp: fail_def bind_def guard_def)
qed

definition silent :: "ob_event list \<Rightarrow> bool" where
  "silent h \<longleftrightarrow> (\<forall>l r. Out_line l r \<notin> set h)"

definition token_out :: "ob_event list \<Rightarrow> bool" where
  "token_out h \<longleftrightarrow> (\<exists>shares token. Generate_root_call shares (Inr token) \<in> set h \<and> Out_line (token_line token) (Inr ()) \<in> set h)"

definition token_revoked :: "ob_event list \<Rightarrow> bool" where
  "token_revoked h \<longleftrightarrow> (\<exists>shares token. Generate_root_call shares (Inr token) \<in> set h \<and> Revoke_self token (Inr ()) \<in> set h)"

text \<open>What each error of generate-root says about the token.\<close>

definition post_emit :: "ob_error \<Rightarrow> bool" where
  "post_emit e \<longleftrightarrow> e \<in> {Status_audit_failed, Revoke_failed, Revoke_and_audit_failed}"

definition honest_error :: "ob_error \<Rightarrow> ob_event list \<Rightarrow> bool" where
  "honest_error e h \<longleftrightarrow>
     (if post_emit e then token_out h \<and> \<not> (token_revoked h \<and> e \<noteq> Status_audit_failed)
      else if e = Output_failed then (\<forall>l. Out_line l (Inr ()) \<notin> set h)
      else silent h)"

lemma honest_simps:
  "honest_error Audit_failed h = silent h" "honest_error Decrypt_failed h = silent h"
  "honest_error (Missing_shares m) h = silent h" "honest_error (Missing_dependency d) h = silent h"
  "honest_error Consent_required h = silent h" "honest_error Ceremony_failed h = silent h"
  "honest_error Output_failed h = (\<forall>l. Out_line l (Inr ()) \<notin> set h)"
  "honest_error Status_audit_failed h = token_out h"
  "honest_error Revoke_failed h = (token_out h \<and> \<not> token_revoked h)"
  "honest_error Revoke_and_audit_failed h = (token_out h \<and> \<not> token_revoked h)"
  by (simp_all add: honest_error_def post_emit_def)

definition generate_ok :: "disclose_options \<Rightarrow> ob_event list \<Rightarrow> bool" where
  "generate_ok o' h \<longleftrightarrow> token_out h \<and> (revoke_immediately o' \<longrightarrow> token_revoked h)"

abbreviation generate_always :: "disclose_options \<Rightarrow> ob_event list \<Rightarrow> bool" where
  "generate_always o' \<equiv> always (out_after_audit (generate_audit o'))"

lemma settle_wp:
  assumes "generate_always o' h" "Audit_line (generate_audit o' stamp) (Inr ()) \<in> set h"
    and "Generate_root_call shares (Inr token) \<in> set h" "Out_line (token_line token) (Inr ()) \<in> set h"
    and "\<And>t r. Revoke_self t r \<notin> set h"
  shows "wp (settle_token env o' token) (\<lambda>_ h'. generate_always o' h' \<and> generate_ok o' h')
    (\<lambda>e h'. generate_always o' h' \<and> honest_error e h') h"
proof -
  have out: "token_out (h @ evs)" for evs using assms(3,4) by (auto simp: token_out_def)
  have always1: "generate_always o' (h @ [e])" for e by (rule out_after_audit_ok [OF assms(1,2)])
  have always2: "generate_always o' (h @ [e, e'])" for e e'
    using out_after_audit_ok [OF always1 [of e], of stamp e'] assms(2) by simp
  have kept: "\<not> token_revoked (h @ [Revoke_self token (Inl x), Audit_line l r])" for x l r
    using assms(5) by (auto simp: token_revoked_def)
  show ?thesis
    using out always1 always2 kept assms(3)
    by (auto simp: settle_token_def write_audit_def ob_calls wp generate_ok_def honest_simps
        token_revoked_def [of "h @ [Revoke_self token (Inr ()), _]"] split: sum.split)
qed

lemma generate_rest_wp:
  assumes "generate_always o' h" "silent h" "Generate_root_call shares (Inr token) \<in> set h"
    and "\<And>t r. Revoke_self t r \<notin> set h"
  shows "wp (bind (write_audit env Audit_failed (generate_audit o' stamp)) (\<lambda>_.
      bind (write_out env (token_line token)) (\<lambda>_. settle_token env o' token)))
    (\<lambda>_ h'. generate_always o' h' \<and> generate_ok o' h') (\<lambda>e h'. generate_always o' h' \<and> honest_error e h') h"
proof -
  let ?h1 = "h @ [Audit_line (generate_audit o' stamp) (Inr ())]"
  have 1: "generate_always o' (h @ [Audit_line (generate_audit o' stamp) r])" for r
    by (rule out_after_audit_other [OF assms(1)]) simp
  have 2: "generate_always o' (?h1 @ [e])" for e
    by (rule out_after_audit_ok [OF 1, of stamp]) simp
  have "wp (settle_token env o' token) (\<lambda>_ h'. generate_always o' h' \<and> generate_ok o' h')
      (\<lambda>e h'. generate_always o' h' \<and> honest_error e h') (?h1 @ [Out_line (token_line token) (Inr ())])"
    by (rule settle_wp [where stamp = stamp and shares = shares]) (use 2 assms in auto)
  then show ?thesis
    using 1 2 assms(2)
    by (auto simp: write_audit_def write_out_def ob_calls wp honest_simps silent_def split: sum.split)
qed

lemma generate_root_wp:
  "wp (generate_root env o') (\<lambda>_ h. generate_always o' h \<and> generate_ok o' h)
    (\<lambda>e h. generate_always o' h \<and> honest_error e h) []"
proof -
  let ?o = "ob_options.truncate o'"
  have start: "generate_always o' []" "generate_always o' [Decrypt p r]"
      "generate_always o' [Decrypt p r, Generate_root_call s x]" for p r s x
    using always_snoc [of "out_after_audit (generate_audit o')" "[Decrypt p r]"] by (auto simp: out_after_audit_def)
  have rest: "wp (bind (write_audit env Audit_failed (generate_audit o' stamp)) (\<lambda>_.
      bind (write_out env (token_line token)) (\<lambda>_. settle_token env o' token)))
    (\<lambda>_ h'. generate_always o' h' \<and> generate_ok o' h') (\<lambda>e h'. generate_always o' h' \<and> honest_error e h')
    [Decrypt (secrets_path ?o) (Inr raw), Generate_root_call shares (Inr token)]" for raw shares token stamp
    by (rule generate_rest_wp [where shares = shares]) (auto simp: start silent_def)
  show ?thesis
    by (cases "on_decrypt env [] (secrets_path ?o)"; cases "extract_threshold_shares (projr (on_decrypt env [] (secrets_path ?o)))";
        cases "on_generate_root env [Decrypt (secrets_path ?o) (on_decrypt env [] (secrets_path ?o))]
          (projr (extract_threshold_shares (projr (on_decrypt env [] (secrets_path ?o)))))")
      (simp_all add: generate_root_def validate_options_def read_shares_def decrypt_def wp_steps honest_simps start silent_def
        rest out_after_audit_def del: wp_bind)
qed

interpretation generate: audited_disclosure generate_root generate_audit
proof
  show "wp (generate_root env o') (\<lambda>_. generate_always o') (\<lambda>_. generate_always o') []" for env o'
    by (rule wp_conseq [OF generate_root_wp]) simp_all
  show "\<exists>e. generate_root env o' [] = Some (Inl e, [])" if "\<not> consent o'" for env o'
    using that by (auto simp: generate_root_def validate_options_def bind_guard bind_assoc)
      (auto simp: fail_def bind_def guard_def)
qed

text \<open>C4. No secret without a record: whatever the streams and clients do, a line that reveal-shares or
  generate-root writes to standard output, be the write good or bad, comes after an audit line
  that names the cluster, the time and the operator and that was written without an error, and
  the operator had consented.\<close>

theorem secrets_only_after_audit:
  "(reveal_shares env o' [] = Some (res, p @ Out_line l r # s) \<longrightarrow>
      consent o' \<and> (\<exists>stamp. Audit_line (reveal_audit o' stamp) (Inr ()) \<in> set p)) \<and>
   (generate_root env o' [] = Some (res, p @ Out_line l r # s) \<longrightarrow>
      consent o' \<and> (\<exists>stamp. Audit_line (generate_audit o' stamp) (Inr ()) \<in> set p))"
  using reveal.audit_before_output generate.audit_before_output by blast

definition demo_disclose :: disclose_options where
  "demo_disclose = \<lparr>cluster_name = ''dc1'', fleet_repo = ''/fleet'', has_sops = True, has_openbao = True,
     consent = True, operator_name = ''op'', revoke_immediately = True\<rparr>"

lemma demo_generate_run:
  "\<exists>p s. generate_root demo_env demo_disclose [] = Some (Inr (), p @ Out_line (token_line ''hvs.root'') (Inr ()) # s) \<and>
     Revoke_self ''hvs.root'' (Inr ()) \<in> set s"
proof -
  have d: "extract_threshold_shares demo_raw = Inr demo_shares" by (rule demo_raw_shares)
  show ?thesis
    by (simp add: generate_root_def validate_options_def read_shares_def bind_assoc bind_guard demo_disclose_def
        ob_options.truncate_def)
      (simp add: bind_def ob_calls ask_def check_err_def ret_def observe_def write_audit_def write_out_def
        settle_token_def demo_env_def d Cons_eq_append_conv)
qed

lemma secrets_only_after_audit_witness:
  "\<exists>p s stamp. generate_root demo_env demo_disclose [] = Some (Inr (), p @ Out_line (token_line ''hvs.root'') (Inr ()) # s) \<and>
     Audit_line (generate_audit demo_disclose stamp) (Inr ()) \<in> set p"
  using demo_generate_run secrets_only_after_audit by blast

text \<open>C20. The errors of generate-root tell where the token is: without an error it was printed and, if
  that was asked for, revoked; with an error of the trailer or of the revocation it was printed, and
  the revocation's errors mean it was not revoked; with a failed print nothing was printed
  in full; with every other error nothing was sent to standard output at all.\<close>

theorem generate_root_outcome:
  assumes "generate_root env o' [] = Some (res, h)"
  shows "case res of
      Inr _ \<Rightarrow> token_out h \<and> (revoke_immediately o' \<longrightarrow> token_revoked h)
    | Inl e \<Rightarrow>
        if e \<in> {Revoke_failed, Revoke_and_audit_failed} then token_out h \<and> \<not> token_revoked h
        else if e = Status_audit_failed then token_out h
        else if e = Output_failed then (\<forall>l. Out_line l (Inr ()) \<notin> set h)
        else (\<forall>l r. Out_line l r \<notin> set h)"
proof (cases res)
  case (Inl e)
  then have "honest_error e h" using wp_Inl [OF generate_root_wp [of env o']] assms by auto
  then show ?thesis using Inl by (auto simp: honest_error_def post_emit_def silent_def split: if_splits)
next
  case (Inr u)
  then show ?thesis using wp_Inr [OF generate_root_wp [of env o']] assms by (auto simp: generate_ok_def)
qed

lemma generate_root_outcome_witness:
  "\<exists>h. generate_root demo_env demo_disclose [] = Some (Inr (), h) \<and> token_revoked h"
proof -
  obtain h where run: "generate_root demo_env demo_disclose [] = Some (Inr (), h)"
    using demo_generate_run by blast
  show ?thesis using generate_root_outcome [OF run] run by (auto simp: demo_disclose_def)
qed

section \<open>Setting up controller auth\<close>

text \<open>The policies and roles are written, in order, before the annotations are.\<close>

definition all_written :: "setup_options \<Rightarrow> policy_texts \<Rightarrow> ob_event list \<Rightarrow> bool" where
  "all_written o' ps h \<longleftrightarrow> (\<forall>w\<in>set (policy_writes ps). Bao_write (root_token o') w (Inr ()) \<in> set h)"

definition stamp_last :: "setup_options \<Rightarrow> policy_texts \<Rightarrow> ob_event list \<Rightarrow> ob_event \<Rightarrow> bool" where
  "stamp_last o' ps h e = (case e of Set_annotations kvs r \<Rightarrow> all_written o' ps h | _ \<Rightarrow> True)"

lemma bao_write_wp:
  assumes "always (stamp_last o' ps) h"
  shows "wp (bao_write env o' w) (\<lambda>_ h'. always (stamp_last o' ps) h' \<and> h' = h @ [Bao_write (root_token o') w (Inr ())])
    (\<lambda>_ h'. always (stamp_last o' ps) h') h"
  using assms by (auto simp: bao_write_def wp stamp_last_def split: sum.split)

lemma enable_wp:
  assumes "always (stamp_last o' ps) h"
  shows "wp (enable_and_configure env o') (\<lambda>_. always (stamp_last o' ps)) (\<lambda>_. always (stamp_last o' ps)) h"
  using assms by (auto simp: enable_and_configure_def bao_write_def load_k8s_auth_config_def wp stamp_last_def split: sum.split)

lemma policies_wp:
  assumes "always (stamp_last o' ps) h"
  shows "wp (for_each (bao_write env o') (policy_writes ps))
    (\<lambda>_ h'. always (stamp_last o' ps) h' \<and> all_written o' ps h') (\<lambda>_. always (stamp_last o' ps)) h"
proof -
  have "wp (for_each (bao_write env o') (policy_writes ps))
    (\<lambda>_ h'. always (stamp_last o' ps) h' \<and> (\<forall>w\<in>set (policy_writes ps). Bao_write (root_token o') w (Inr ()) \<in> set h'))
    (\<lambda>_. always (stamp_last o' ps)) h"
  proof (rule wp_for_each_upto [where I = "\<lambda>ys h'. always (stamp_last o' ps) h' \<and>
        (\<forall>w\<in>set ys. Bao_write (root_token o') w (Inr ()) \<in> set h')"])
    fix ys w zs h'
    assume "always (stamp_last o' ps) h' \<and> (\<forall>w\<in>set ys. Bao_write (root_token o') w (Inr ()) \<in> set h')"
    then show "wp (bao_write env o' w) (\<lambda>_ h'. always (stamp_last o' ps) h' \<and>
        (\<forall>w\<in>set (ys @ [w]). Bao_write (root_token o') w (Inr ()) \<in> set h')) (\<lambda>_. always (stamp_last o' ps)) h'"
      by (intro wp_conseq [OF bao_write_wp [of o' ps]]) auto
  qed (use assms in simp)
  then show ?thesis by (simp add: all_written_def)
qed

lemma setup_wp:
  "wp (setup_controller_auth env ps o') (\<lambda>_ h. always (stamp_last o' ps) h \<and> all_written o' ps h \<and>
      (\<exists>now. Set_annotations (stamps o' now) (Inr ()) \<in> set h)) (\<lambda>_. always (stamp_last o' ps)) []"
proof -
  have rest: "wp (bind (observe (timestamp env)) (\<lambda>now.
      bind (ask (\<lambda>h. on_set_annotations env h (stamps o' now)) (Set_annotations (stamps o' now))) (\<lambda>r.
      check_err (\<lambda>_. Annotate_failed) r)))
    (\<lambda>_ h. always (stamp_last o' ps) h \<and> all_written o' ps h \<and> (\<exists>now. Set_annotations (stamps o' now) (Inr ()) \<in> set h))
    (\<lambda>_. always (stamp_last o' ps)) h" if "always (stamp_last o' ps) h" "all_written o' ps h" for h
    using that by (auto simp: wp stamp_last_def all_written_def split: sum.split)
  have writes: "wp (bind (for_each (bao_write env o') (policy_writes ps)) (\<lambda>_. bind (observe (timestamp env)) (\<lambda>now.
      bind (ask (\<lambda>h. on_set_annotations env h (stamps o' now)) (Set_annotations (stamps o' now))) (\<lambda>r.
      check_err (\<lambda>_. Annotate_failed) r))))
    (\<lambda>_ h. always (stamp_last o' ps) h \<and> all_written o' ps h \<and> (\<exists>now. Set_annotations (stamps o' now) (Inr ()) \<in> set h))
    (\<lambda>_. always (stamp_last o' ps)) h" if "always (stamp_last o' ps) h" for h
    by (rule wp_bindI, rule wp_conseq [OF policies_wp [OF that]], rule rest) auto
  have "wp (bind (enable_and_configure env o') (\<lambda>_. bind (for_each (bao_write env o') (policy_writes ps)) (\<lambda>_.
      bind (observe (timestamp env)) (\<lambda>now.
      bind (ask (\<lambda>h. on_set_annotations env h (stamps o' now)) (Set_annotations (stamps o' now))) (\<lambda>r.
      check_err (\<lambda>_. Annotate_failed) r)))))
    (\<lambda>_ h. always (stamp_last o' ps) h \<and> all_written o' ps h \<and> (\<exists>now. Set_annotations (stamps o' now) (Inr ()) \<in> set h))
    (\<lambda>_. always (stamp_last o' ps)) []"
    by (rule wp_bindI, rule wp_conseq [OF enable_wp [of o' ps]], simp, rule writes) auto
  then show ?thesis
    by (simp add: setup_controller_auth_def validate_setup_def bind_assoc bind_guard bind_fail wp_fail del: wp_bind)
qed

lemma grow_wp:
  assumes "x \<in> set h"
  shows "wp (read_pods env qs) (\<lambda>_ h'. x \<in> set h') (\<lambda>_ _. True) h"
    "wp (read_annotation env k) (\<lambda>_ h'. x \<in> set h') (\<lambda>_ _. True) h"
proof -
  show "wp (read_pods env qs) (\<lambda>_ h'. x \<in> set h') (\<lambda>_ _. True) h"
    using assms
  proof (induction qs arbitrary: h)
    case (Cons q qs)
    then have "wp (read_pods env qs) (\<lambda>_ h'. x \<in> set h') (\<lambda>_ _. True) (h @ [Pod_status q r])" for r
      by simp
    then show ?case by (auto simp: ob_calls wp split: sum.split elim!: wp_conseq)
  qed (simp add: wp)
  show "wp (read_annotation env k) (\<lambda>_ h'. x \<in> set h') (\<lambda>_ _. True) h"
    using assms by (auto simp: read_annotation_def ob_calls wp split: sum.split)
qed

lemma no_drift_wp:
  assumes "Set_annotations (stamps o' now) (Inr ()) \<in> set h"
    and "\<And>h' t. Set_annotations (stamps o' t) (Inr ()) \<in> set h' \<Longrightarrow>
          Inr (the (map_of (stamps o' t) generation_key)) = on_get_annotation env h' generation_key"
  shows "wp (read_status env c b) (\<lambda>r _. \<not> has_drift r) (\<lambda>_ _. True) h"
proof -
  let ?x = "Set_annotations (stamps o' now) (Inr ())"
  have two: "atoi ''2'' = Some 2" by (simp add: atoi_def re_digit_def Let_def)
  have gen: "wp (read_generation env) (\<lambda>n _. n = 2) (\<lambda>_ _. True) h'" if "?x \<in> set h'" for h'
  proof -
    have "on_get_annotation env h' generation_key = Inr ''2''"
      using assms(2) [OF that] by (simp add: stamps_def)
    then show ?thesis using two by (simp add: read_generation_def ob_calls wp)
  qed
  have rest: "wp (read_annotation env finalized_key) (\<lambda>bf. wp (read_annotation env installed_key) (\<lambda>cai.
      wp (read_generation env) (\<lambda>n. wp (ret \<lparr>sr_cluster_name = c, sr_pods = sts, bootstrap_finalized = bf,
        controller_auth_installed = cai, generation_installed = n, generation_expected = policy_generation\<rparr>)
        (\<lambda>r _. \<not> has_drift r) (\<lambda>_ _. True)) (\<lambda>_ _. True)) (\<lambda>_ _. True)) (\<lambda>_ _. True) h'"
    if "?x \<in> set h'" for h' sts
    by (rule wp_conseq [OF grow_wp(2) [OF that]], rule wp_conseq [OF grow_wp(2)], assumption, rule wp_conseq [OF gen])
      (simp_all add: wp has_drift_def policy_generation_def)
  have pods: "wp (read_pods env qs) (\<lambda>sts. wp (read_annotation env finalized_key) (\<lambda>bf. wp (read_annotation env installed_key) (\<lambda>cai.
      wp (read_generation env) (\<lambda>n. wp (ret \<lparr>sr_cluster_name = c, sr_pods = sts, bootstrap_finalized = bf,
        controller_auth_installed = cai, generation_installed = n, generation_expected = policy_generation\<rparr>)
        (\<lambda>r _. \<not> has_drift r) (\<lambda>_ _. True)) (\<lambda>_ _. True)) (\<lambda>_ _. True)) (\<lambda>_ _. True)) (\<lambda>_ _. True)
      (h @ [Pod_list r])" for qs r
    by (rule wp_conseq [OF grow_wp(1) [of ?x]]) (use assms(1) rest in simp_all)
  show ?thesis
    unfolding read_status_def wp_bind wp_guard pod_list_def wp_ask wp_check_err
    using pods by (auto split: sum.split)
qed

text \<open>A cluster in which the generation reads back as it was set.\<close>

definition reads_back :: "ob_env \<Rightarrow> setup_options \<Rightarrow> bool" where
  "reads_back env o' \<longleftrightarrow> (\<forall>h t. Set_annotations (stamps o' t) (Inr ()) \<in> set h \<longrightarrow>
     on_get_annotation env h generation_key = Inr (the (map_of (stamps o' t) generation_key)))"


definition demo_policies :: policy_texts where
  "demo_policies = \<lparr>manager_hcl = ''m'', db_manager_hcl = ''d'', snapshot_hcl = ''s''\<rparr>"

definition demo_setup :: setup_options where
  "demo_setup = \<lparr>root_token = ''hvs.root'', refresh_only = False, setup_has_openbao = True, setup_has_k8s = True\<rparr>"

lemma demo_setup_run: "\<exists>h. setup_controller_auth demo_env demo_policies demo_setup [] = Some (Inr (), h)"
  by (simp add: setup_controller_auth_def validate_setup_def demo_setup_def guard_def enable_and_configure_def
      load_k8s_auth_config_def bao_write_def policy_writes_def bind_def ob_calls ask_def check_err_def ret_def
      observe_def demo_env_def)


end
