(* ===== verification/Share_Custody.thy ===== *)
theory Share_Custody
  imports Go_Strings
begin

text \<open>
  The shares that \<open>openbao init\<close> captures, before anything is done with them: the buffer of
  \<open>src/cli/internal/bootstrap/secrets/buffer.go\<close>, and from
  \<open>src/cli/internal/bootstrap/openbao/init.go\<close> the payload parser \<open>loadBufferFromJSON\<close>, the text
  of a shares file, \<open>renderSharesYAML\<close>, and the names \<open>emergencyDumpShares\<close> tries.  The JSON
  decoder is a parameter.
\<close>

section \<open>The buffer\<close>

record secret_buffer =
  slots :: "string option list"
  root_slot :: "string option"
  was_scrubbed :: bool

datatype buffer_error = Scrubbed

definition new_buffer :: secret_buffer where
  "new_buffer = \<lparr>slots = replicate 5 None, root_slot = None, was_scrubbed = False\<rparr>"

definition set_share :: "nat \<Rightarrow> string \<Rightarrow> secret_buffer \<Rightarrow> secret_buffer" where
  "set_share i share b =
     (if was_scrubbed b then b
      else if i \<ge> length (slots b) then b
      else b\<lparr>slots := (slots b)[i := Some share]\<rparr>)"

definition set_root_token :: "string \<Rightarrow> secret_buffer \<Rightarrow> secret_buffer" where
  "set_root_token t b = (if was_scrubbed b then b else b\<lparr>root_slot := Some t\<rparr>)"

definition share_of :: "secret_buffer \<Rightarrow> nat \<Rightarrow> buffer_error + string option" where
  "share_of b i =
     (if was_scrubbed b then Inl Scrubbed
      else if i \<ge> length (slots b) then Inr None else Inr (slots b ! i))"

definition root_token_of :: "secret_buffer \<Rightarrow> buffer_error + string option" where
  "root_token_of b = (if was_scrubbed b then Inl Scrubbed else Inr (root_slot b))"

definition share_count :: "secret_buffer \<Rightarrow> nat" where
  "share_count b = (if was_scrubbed b then 0 else length (filter (\<lambda>s. s \<noteq> None) (slots b)))"

definition scrub :: "secret_buffer \<Rightarrow> secret_buffer" where
  "scrub b =
     (if was_scrubbed b then b
      else b\<lparr>slots := map (\<lambda>_. None) (slots b), root_slot := None, was_scrubbed := True\<rparr>)"

section \<open>The payload\<close>

datatype payload_error =
    Empty_payload | Bad_json | Key_count nat | Empty_key nat | No_root_token

text \<open>\<open>json\<close>: the keys \<open>unseal_keys_b64\<close> and \<open>root_token\<close> of the decoded text.  The shares are stored
  before the payload is checked.\<close>

definition load_buffer ::
    "(string \<Rightarrow> (string list \<times> string) option) \<Rightarrow> string \<Rightarrow> secret_buffer \<Rightarrow> payload_error option \<times> secret_buffer" where
  "load_buffer json payload b =
     (let text = trim_space payload in
      if text = [] then (Some Empty_payload, b)
      else case json text of
          None \<Rightarrow> (Some Bad_json, b)
        | Some (keys, token) \<Rightarrow>
            (let b1 = fold (\<lambda>(i, s) b. if s = [] then b else set_share i s b) (enumerate 0 keys) b;
                 b2 = (if token = [] then b1 else set_root_token token b1) in
             (if length keys \<noteq> 5 then Some (Key_count (length keys))
              else case find_index (\<lambda>s. s = []) keys of
                  Some i \<Rightarrow> Some (Empty_key i)
                | None \<Rightarrow> if token = [] then Some No_root_token else None, b2)))"

section \<open>The text of a shares file\<close>

datatype render_error = Retrieve_failed | Nothing_to_write

text \<open>The loop over the slots: the items and how many were written.\<close>

fun render_items :: "secret_buffer \<Rightarrow> nat list \<Rightarrow> render_error + (string list \<times> nat)" where
  "render_items b [] = Inr ([], 0)"
| "render_items b (i # is) =
     (case share_of b i of
        Inl e \<Rightarrow> Inl Retrieve_failed
      | Inr s \<Rightarrow> and_then (render_items b is) (\<lambda>(rest, k).
          if s = None \<or> s = Some [] then Inr (rest, k)
          else Inr ((''    - '' @ the s @ [NL]) # rest, Suc k)))"

definition dash :: string where "dash = [CHR 0xE2, CHR 0x80, CHR 0x94]"

definition render_header :: "nat \<Rightarrow> string \<Rightarrow> string" where
  "render_header n provenance =
     ''# kube-dc OpenBao Shamir shares (5/3) '' @ dash @ '' KEEP THIS FILE SAFE.'' @ [NL] @
     ''# '' @ provenance @ [NL] @
     ''# Mode 0600 + outside any git tree.'' @ [NL] @
     ''# The root token is NOT recorded '' @ dash @ '' Init revokes it after capture.'' @ [NL] @
     (if n \<noteq> 5 then ''# WARNING: PARTIAL CAPTURE '' @ dash @ '' '' @ itoa (int n) @
        '' of 5 shares. Unsealing needs 3.'' @ [NL] else []) @
     ''openbao:'' @ [NL] @ ''  shares:'' @ [NL]"

definition render_shares :: "secret_buffer \<Rightarrow> string \<Rightarrow> render_error + string" where
  "render_shares b provenance =
     (let n = share_count b in
      and_then (render_items b [0..<n]) (\<lambda>(items, k).
        if k = 0 then Inl Nothing_to_write
        else Inr (render_header n provenance @ concat items)))"

section \<open>The names of an emergency dump\<close>

text \<open>\<open>url.PathEscape\<close>.\<close>

definition path_plain :: "char \<Rightarrow> bool" where
  "path_plain c \<longleftrightarrow> (let n = of_char c :: nat in
     (65 \<le> n \<and> n \<le> 90) \<or> (97 \<le> n \<and> n \<le> 122) \<or> (48 \<le> n \<and> n \<le> 57)) \<or>
     c \<in> set ''-_.~$&+=:@''"

definition hex_digit :: "nat \<Rightarrow> char" where
  "hex_digit n = ''0123456789ABCDEF'' ! (n mod 16)"

definition path_escape :: "string \<Rightarrow> string" where
  "path_escape s = concat (map (\<lambda>c. if path_plain c then [c]
     else [CHR ''%'', hex_digit (of_char c div 16), hex_digit (of_char c)]) s)"

definition max_attempts :: nat where "max_attempts = 100"

definition dump_base :: "string \<Rightarrow> string" where
  "dump_base cluster = ''openbao-emergency-shares-'' @ path_escape cluster"

definition dump_name :: "string \<Rightarrow> nat \<Rightarrow> string" where
  "dump_name cluster i =
     (if i > 0 then dump_base cluster @ ''.'' @ itoa (int i) @ ''.yaml''
      else dump_base cluster @ ''.yaml'')"

text \<open>\<open>filepath.Join\<close> of a clean directory and a name.\<close>

definition path_join :: "string \<Rightarrow> string \<Rightarrow> string" where
  "path_join d name = (if d = ''/'' then d @ name else d @ ''/'' @ name)"

definition dump_paths :: "string \<Rightarrow> string \<Rightarrow> string list" where
  "dump_paths home cluster =
     map (\<lambda>i. path_join (path_join home ''.kube-dc'') (dump_name cluster i)) [0..<max_attempts]"


section \<open>What a shares file holds\<close>

abbreviation share_item :: "string \<Rightarrow> string" where
  "share_item s \<equiv> ''    - '' @ s @ [NL]"

abbreviation present :: "string option \<Rightarrow> bool" where
  "present s \<equiv> s \<noteq> None \<and> s \<noteq> Some []"

text \<open>The shares in a buffer, and a buffer as the parser fills it: five slots and no empty share.\<close>

definition stored_shares :: "secret_buffer \<Rightarrow> string list" where
  "stored_shares b = map the (filter present (slots b))"

definition buffer_ok :: "secret_buffer \<Rightarrow> bool" where
  "buffer_ok b \<longleftrightarrow> \<not> was_scrubbed b \<and> length (slots b) = 5 \<and> Some [] \<notin> set (slots b)"

lemma buffer_ok_new [simp]: "buffer_ok new_buffer"
  by (simp add: buffer_ok_def new_buffer_def)

lemma buffer_ok_set:
  "buffer_ok b \<Longrightarrow> s \<noteq> [] \<Longrightarrow> buffer_ok (set_share i s b)"
  "buffer_ok b \<Longrightarrow> buffer_ok (set_root_token t b)"
  using set_update_subset_insert [of "slots b" i "Some s"]
  by (auto simp: buffer_ok_def set_share_def set_root_token_def)

lemma buffer_ok_fold:
  "buffer_ok b \<Longrightarrow> buffer_ok (fold (\<lambda>(i, s) b. if s = [] then b else set_share i s b) kvs b)"
proof (induction kvs arbitrary: b)
  case (Cons kv kvs)
  then show ?case by (cases kv) (auto intro: Cons.IH buffer_ok_set)
qed simp

lemma buffer_ok_load: "buffer_ok b \<Longrightarrow> buffer_ok (snd (load_buffer json payload b))"
  by (auto simp: load_buffer_def Let_def buffer_ok_fold buffer_ok_set split: option.split)

lemma render_items_of:
  assumes "\<not> was_scrubbed b" "\<forall>i\<in>set is. i < length (slots b)"
  shows "render_items b is = Inr (map (\<lambda>i. share_item (the (slots b ! i))) (filter (\<lambda>i. present (slots b ! i)) is),
      length (filter (\<lambda>i. present (slots b ! i)) is))"
  using assms by (induction "is") (auto simp: share_of_def)

lemma filter_take_nth:
  "n \<le> length xs \<Longrightarrow> map (\<lambda>i. g (xs ! i)) (filter (\<lambda>i. P (xs ! i)) [0..<n]) = map g (filter P (take n xs))"
proof (induction n)
  case (Suc n)
  then show ?case by (simp add: take_Suc_conv_app_nth)
qed simp

lemma count_le: "share_count b \<le> length (slots b)"
  by (simp add: share_count_def)

text \<open>The file holds the shares of the first slots, as many slots as there are shares.\<close>

lemma render_shares_first:
  assumes "buffer_ok b"
  shows "render_shares b prov =
    (let ss = map the (filter present (take (share_count b) (slots b))) in
     if ss = [] then Inl Nothing_to_write
     else Inr (render_header (share_count b) prov @ concat (map share_item ss)))"
proof -
  have items: "render_items b [0..<share_count b] =
      Inr (map (\<lambda>i. share_item (the (slots b ! i))) (filter (\<lambda>i. present (slots b ! i)) [0..<share_count b]),
        length (filter (\<lambda>i. present (slots b ! i)) [0..<share_count b]))"
    using assms count_le [of b] by (intro render_items_of) (auto simp: buffer_ok_def)
  have len: "length (filter (\<lambda>i. present (slots b ! i)) [0..<share_count b]) =
      length (filter present (take (share_count b) (slots b)))"
    using arg_cong [OF filter_take_nth [OF count_le [of b], of id present], of length] by simp
  have none: "filter (\<lambda>i. present (slots b ! i)) [0..<share_count b] = [] \<longleftrightarrow>
      filter present (take (share_count b) (slots b)) = []"
    by (simp only: length_0_conv [symmetric] len)
  have body: "concat (map (\<lambda>i. share_item (the (slots b ! i))) (filter (\<lambda>i. present (slots b ! i)) [0..<share_count b])) =
      concat (map share_item (map the (filter present (take (share_count b) (slots b)))))"
    unfolding filter_take_nth [OF count_le [of b], of "\<lambda>s. share_item (the s)" present] map_map comp_def by (rule refl)
  show ?thesis
    unfolding render_shares_def Let_def items and_then_simps prod.case
    by (simp only: length_0_conv none map_is_Nil_conv body)
qed

text \<open>No slot before a share is empty.\<close>

definition no_hole :: "secret_buffer \<Rightarrow> bool" where
  "no_hole b \<longleftrightarrow> set (dropWhile (\<lambda>s. s \<noteq> None) (slots b)) \<subseteq> {None}"

lemma holes_after_count:
  "filter (\<lambda>s. s \<noteq> None) (drop (length (filter (\<lambda>s. s \<noteq> None) xs)) xs) = [] \<longleftrightarrow>
     set (dropWhile (\<lambda>s. s \<noteq> None) xs) \<subseteq> {None}"
proof (induction xs)
  case (Cons x xs)
  show ?case
  proof (cases x)
    case None
    let ?c = "length (filter (\<lambda>s. s \<noteq> None) xs)"
    have split: "?c = length (filter (\<lambda>s. s \<noteq> None) (take (?c - 1) xs)) + length (filter (\<lambda>s. s \<noteq> None) (drop (?c - 1) xs))"
      by (metis append_take_drop_id filter_append length_append)
    have "length (filter (\<lambda>s. s \<noteq> None) (take (?c - 1) xs)) \<le> ?c - 1"
      by (rule le_trans [OF length_filter_le]) simp
    with split have "?c \<noteq> 0 \<Longrightarrow> filter (\<lambda>s. s \<noteq> None) (drop (?c - 1) xs) \<noteq> []"
      by fastforce
    show ?thesis
    proof (cases "?c = 0")
      case True
      then show ?thesis using None by (auto simp: filter_empty_conv drop_Cons' subset_iff)
    next
      case False
      then have "\<not> set (x # xs) \<subseteq> {None}" by (auto simp: filter_empty_conv)
      moreover have "drop ?c (x # xs) = drop (?c - 1) xs" using False by (simp add: drop_Cons')
      ultimately show ?thesis using None \<open>?c \<noteq> 0 \<Longrightarrow> _\<close> [OF False] by simp
    qed
  qed (use Cons in auto)
qed simp


lemma present_slots: "buffer_ok b \<Longrightarrow> s \<in> set (slots b) \<Longrightarrow> present s \<longleftrightarrow> s \<noteq> None"
  by (auto simp: buffer_ok_def)

lemma dump_complete:
  assumes "buffer_ok b" "stored_shares b \<noteq> []"
  shows "render_shares b prov = Inr (render_header (share_count b) prov @ concat (map share_item (stored_shares b))) \<longleftrightarrow> no_hole b"
proof -
  let ?n = "share_count b"
  let ?first = "filter present (take ?n (slots b))" and ?rest = "filter present (drop ?n (slots b))"
  have all: "stored_shares b = map the ?first @ map the ?rest"
    unfolding stored_shares_def by (metis append_take_drop_id filter_append map_append)
  have same: "filter present (drop n (slots b)) = filter (\<lambda>s. s \<noteq> None) (drop n (slots b))" for n
    using present_slots [OF assms(1)] by (intro filter_cong) (auto dest: in_set_dropD)
  have "?n = length (filter (\<lambda>s. s \<noteq> None) (slots b))"
    using assms(1) by (simp add: share_count_def buffer_ok_def)
  then have "no_hole b \<longleftrightarrow> ?rest = []"
    using holes_after_count [of "slots b"] unfolding no_hole_def same by metis
  moreover have "?rest = [] \<longleftrightarrow>
      render_shares b prov = Inr (render_header ?n prov @ concat (map share_item (stored_shares b)))"
  proof
    assume "?rest = []"
    then show "render_shares b prov = Inr (render_header ?n prov @ concat (map share_item (stored_shares b)))"
      using assms(2) by (simp add: render_shares_first [OF assms(1)] all)
  next
    assume "render_shares b prov = Inr (render_header ?n prov @ concat (map share_item (stored_shares b)))"
    then have "concat (map share_item (map the ?rest)) = []"
      by (auto simp: render_shares_first [OF assms(1)] all Let_def split: if_splits)
    then show "?rest = []" by (cases ?rest) auto
  qed
  ultimately show ?thesis by blast
qed

text \<open>The text of a file that lists shares, one in a line of its own under the key \<open>openbao.shares\<close>.\<close>

definition lists_shares :: "string \<Rightarrow> string list \<Rightarrow> bool" where
  "lists_shares body ss \<longleftrightarrow>
     (\<exists>head. has_suffix head (''openbao:'' @ [NL] @ ''  shares:'' @ [NL]) \<and> body = head @ concat (map share_item ss))"

text \<open>A rendered buffer lists captured shares, all of them when none stands behind an empty slot.\<close>

lemma render_lists:
  assumes "buffer_ok b" "render_shares b prov = Inr body"
  obtains ss where "lists_shares body ss" "ss \<noteq> []" "subseq ss (stored_shares b)" "no_hole b \<Longrightarrow> ss = stored_shares b"
proof -
  let ?ss = "map the (filter present (take (share_count b) (slots b)))"
  have body: "?ss \<noteq> []" "body = render_header (share_count b) prov @ concat (map share_item ?ss)"
    using assms(2) unfolding render_shares_first [OF assms(1)] Let_def by (simp_all split: if_splits)
  have all: "stored_shares b = ?ss @ map the (filter present (drop (share_count b) (slots b)))"
    unfolding stored_shares_def by (metis append_take_drop_id filter_append map_append)
  have "has_suffix (render_header n prov) (''openbao:'' @ [NL] @ ''  shares:'' @ [NL])" for n
    unfolding render_header_def by (simp only: append_assoc [symmetric]) (simp add: suffix_def)
  then have lists: "lists_shares body ?ss" unfolding lists_shares_def body(2) by blast
  have "stored_shares b \<noteq> []" using body(1) all by simp
  then have "?ss = stored_shares b" if "no_hole b"
    using dump_complete [OF assms(1), of prov] that assms(2) body(2) all by simp
  moreover have "subseq ?ss (stored_shares b)"
    unfolding all by (rule subseq_rev_drop_many [OF subseq_order.refl])
  ultimately show ?thesis using that [OF lists body(1)] by blast
qed

lemma render_nothing:
  assumes "buffer_ok b" "render_shares b prov = Inl e" "no_hole b"
  shows "stored_shares b = []"
  using dump_complete [OF assms(1), of prov] assms(2,3) by auto

text \<open>A payload that is accepted fills every slot.\<close>

lemma load_complete:
  assumes "buffer_ok b" "load_buffer json p b = (None, b')"
  shows "no_hole b'" "length (stored_shares b') = 5"
proof -
  obtain keys token where load: "json (trim_space p) = Some (keys, token)" "length keys = 5"
      "find_index (\<lambda>s. s = []) keys = None" "token \<noteq> []"
      "b' = set_root_token token (fold (\<lambda>(i, s) b. if s = [] then b else set_share i s b) (enumerate 0 keys) b)"
    using assms(2) by (auto simp: load_buffer_def Let_def split: if_splits option.splits)
  have full: "\<forall>s\<in>set keys. s \<noteq> []"
    using load(3) by (induction keys) (auto split: if_splits option.splits)
  obtain k1 k2 k3 k4 k5 where keys: "keys = [k1, k2, k3, k4, k5]"
    using load(2) by (auto simp: length_Suc_conv numeral_eq_Suc)
  obtain s1 s2 s3 s4 s5 where slots: "slots b = [s1, s2, s3, s4, s5]" "\<not> was_scrubbed b"
    using assms(1) by (auto simp: buffer_ok_def length_Suc_conv numeral_eq_Suc)
  have "slots b' = map Some keys"
    using load(5) full slots by (simp add: keys set_share_def set_root_token_def enumerate_eq_zip numeral_eq_Suc)
  then show "no_hole b'" "length (stored_shares b') = 5"
    using full by (simp_all add: no_hole_def stored_shares_def keys)
qed

text \<open>A shares file holds all the shares that were captured if and only if no slot before a captured
  share is empty: the loop stops after as many slots as there are shares, so a share that stands
  behind a hole is left out of the file that is to preserve it.\<close>

theorem shares_file_complete_iff:
  assumes "buffer_ok b" "stored_shares b \<noteq> []"
  shows "render_shares b prov = Inr (render_header (share_count b) prov @ concat (map share_item (stored_shares b))) \<longleftrightarrow>
    no_hole b"
  using assms by (rule dump_complete)

text \<open>A payload whose first and last keys are empty: three shares are captured, enough to unseal, and
  two are written.\<close>

definition gap_payload :: "string \<Rightarrow> (string list \<times> string) option" where
  "gap_payload text = Some ([[], ''b'', ''c'', ''d'', []], ''hvs.t'')"

definition gap_buffer :: secret_buffer where
  "gap_buffer = snd (load_buffer gap_payload ''{}'' new_buffer)"

lemma gap_buffer_slots:
  "gap_buffer = \<lparr>slots = [None, Some ''b'', Some ''c'', Some ''d'', None], root_slot = Some ''hvs.t'', was_scrubbed = False\<rparr>"
proof -
  have "trim_space ''{}'' = ''{}''" by code_simp
  then show ?thesis
    by (simp add: gap_buffer_def load_buffer_def gap_payload_def new_buffer_def set_share_def set_root_token_def
        enumerate_eq_zip numeral_eq_Suc)
qed

lemma shares_file_drops_share:
  "stored_shares gap_buffer = [''b'', ''c'', ''d''] \<and>
   render_shares gap_buffer prov = Inr (render_header 3 prov @ concat (map share_item [''b'', ''c'']))"
  by (simp add: gap_buffer_slots stored_shares_def render_shares_def share_count_def share_of_def upt_rec numeral_eq_Suc)

lemma shares_file_complete_iff_witness:
  "buffer_ok gap_buffer \<and> \<not> no_hole gap_buffer \<and>
   render_shares gap_buffer ''x'' \<noteq> Inr (render_header 3 ''x'' @ concat (map share_item [''b'', ''c'', ''d'']))"
proof -
  have b: "buffer_ok gap_buffer" "stored_shares gap_buffer = [''b'', ''c'', ''d'']" "share_count gap_buffer = 3"
    by (simp_all add: gap_buffer_slots buffer_ok_def stored_shares_def share_count_def)
  have "\<not> no_hole gap_buffer" by (simp add: gap_buffer_slots no_hole_def)
  then show ?thesis using shares_file_complete_iff [OF b(1), of "''x''"] b by simp
qed

end
