(* ===== verification/Script_Stream.thy ===== *)
theory Script_Stream
  imports Go_Strings Effects
begin

text \<open>
  The output stream of the installer's scripts: \<open>Drain\<close> and \<open>ParseExitCode\<close> of
  \<open>src/cli/internal/bootstrap/ports/drain.go\<close>, and what the runner of
  \<open>src/cli/internal/bootstrap/adapters/script/runner.go\<close> makes of a script's standard output
  when a payload stands between markers.  A line's time is left out.
\<close>

section \<open>Draining a stream\<close>

datatype stream = Stdout | Stderr | Exit_status

type_synonym line = "stream \<times> string"

datatype stream_error = Truncated | Duplicate_exit | Output_after_exit | Bad_exit_code

definition parse_exit_code :: "string \<Rightarrow> stream_error + int" where
  "parse_exit_code s =
     (let t = trim_space s in
      if t = [] then Inl Bad_exit_code
      else case atoi t of None \<Rightarrow> Inl Bad_exit_code | Some n \<Rightarrow> Inr n)"

text \<open>The loop: the exit code, whether it was seen, the lines handed to the caller, and the result.\<close>

fun drain_from :: "int \<Rightarrow> bool \<Rightarrow> line list \<Rightarrow> line list \<times> (stream_error + int)" where
  "drain_from code saw [] = ([], if saw then Inr code else Inl Truncated)"
| "drain_from code saw ((st, t) # ls) =
     (if st = Exit_status then
        if saw then ([], Inl Duplicate_exit)
        else (case parse_exit_code t of
            Inl e \<Rightarrow> ([], Inl e)
          | Inr n \<Rightarrow> drain_from n True ls)
      else if saw then ([], Inl Output_after_exit)
      else map_prod ((#) (st, t)) id (drain_from code saw ls))"

definition drain :: "line list \<Rightarrow> line list \<times> (stream_error + int)" where
  "drain ls = drain_from 0 False ls"

lemma drain_from_seen: "drain_from code True ls = (body, Inr n) \<longleftrightarrow> ls = [] \<and> body = [] \<and> n = code"
  by (cases ls; cases "hd ls") auto

lemma drain_from_accepts:
  "drain_from code False ls = (body, Inr n) \<longleftrightarrow>
     (\<exists>t. ls = body @ [(Exit_status, t)] \<and> Exit_status \<notin> fst ` set body \<and> parse_exit_code t = Inr n)"
proof (induction ls arbitrary: body)
  case (Cons l ls)
  obtain st t where l: "l = (st, t)" by force
  show ?case
  proof (cases "st = Exit_status")
    case True
    then show ?thesis
      by (auto simp: l drain_from_seen Cons_eq_append_conv append_eq_Cons_conv split: sum.split)
  next
    case False
    have "drain_from code False (l # ls) = (body, Inr n) \<longleftrightarrow>
        (\<exists>b. body = l # b \<and> drain_from code False ls = (b, Inr n))"
      using False by (cases "drain_from code False ls") (auto simp: l)
    then show ?thesis
      using False by (auto simp: Cons.IH l Cons_eq_append_conv append_eq_Cons_conv)
  qed
qed simp

text \<open>A run counts as ended only if its stream is as the contract wants it: Drain returns an exit
  code, having shown exactly the lines before it, if and only if the stream is those lines, none of
  them an exit record, and then one exit record, its text a decimal integer, and nothing after it.
  A killed script, a second record, output after the record and a malformed code are errors.\<close>

theorem drain_accepts_only_ended:
  "drain ls = (body, Inr n) \<longleftrightarrow>
     (\<exists>t. ls = body @ [(Exit_status, t)] \<and> Exit_status \<notin> fst ` set body \<and> parse_exit_code t = Inr n)"
  unfolding drain_def by (rule drain_from_accepts)

section \<open>A payload between markers\<close>

datatype capture_failure = Callback_failed | Reader_failed | Unterminated

text \<open>The callback as a workflow that may change a state: \<open>None\<close> when none is set.  The result: the
  lines sent on, the failure if there is one, and the state.  \<open>broken\<close>: the scan of standard output
  ended with an error.\<close>

type_synonym ('ev, 'e, 's) callback = "(string \<Rightarrow> 's \<Rightarrow> ('ev, 'e, 's \<times> bool) prog) option"

definition placeholder :: "string \<Rightarrow> string \<Rightarrow> line" where
  "placeholder name payload =
     (Stdout, ''['' @ name @ '' payload captured '' @ [CHR 0xE2, CHR 0x80, CHR 0x94] @ '' '' @
        itoa (int (length payload)) @ '' bytes]'')"

definition call_back :: "('ev, 'e, 's) callback \<Rightarrow> string \<Rightarrow> 's \<Rightarrow> ('ev, 'e, 's \<times> bool) prog" where
  "call_back cb payload s = (case cb of None \<Rightarrow> ret (s, True) | Some f \<Rightarrow> f payload s)"

fun drain_sentinel :: "string \<Rightarrow> string \<Rightarrow> string \<Rightarrow> ('ev, 'e, 's) callback \<Rightarrow> bool \<Rightarrow>
    bool \<Rightarrow> string \<Rightarrow> 's \<Rightarrow> string list \<Rightarrow> ('ev, 'e, line list \<times> capture_failure option \<times> 's) prog" where
  "drain_sentinel name b e cb broken inside payload s [] =
     ret ([], if broken then Some Reader_failed else if inside then Some Unterminated else None, s)"
| "drain_sentinel name b e cb broken inside payload s (l # ls) =
     (if \<not> inside \<and> contains l b then drain_sentinel name b e cb broken True [] s ls
      else if inside \<and> contains l e then
        bind (call_back cb payload s) (\<lambda>(s', good).
        if \<not> good then ret ([], Some Callback_failed, s')
        else bind (drain_sentinel name b e cb broken False [] s' ls) (\<lambda>(out, r).
          ret (placeholder name payload # out, r)))
      else if inside then drain_sentinel name b e cb broken True (payload @ l @ [NL]) s ls
      else bind (drain_sentinel name b e cb broken False payload s ls) (\<lambda>(out, r).
          ret ((Stdout, l) # out, r)))"

text \<open>The end of \<open>supervise\<close>: after both readers are done, the failure's line and the exit record.\<close>

definition exit_code_of :: "capture_failure option \<Rightarrow> int \<Rightarrow> bool \<Rightarrow> int" where
  "exit_code_of failed waited cancelled =
     (if failed \<noteq> None then 1 else if cancelled then 130 else waited)"

definition end_lines :: "(capture_failure \<Rightarrow> string) \<Rightarrow> capture_failure option \<Rightarrow> int \<Rightarrow> bool \<Rightarrow> line list" where
  "end_lines err_text failed waited cancelled =
     (case failed of None \<Rightarrow> [] | Some f \<Rightarrow> [(Stderr, ''script: sentinel capture failed: '' @ err_text f)]) @
     [(Exit_status, itoa (exit_code_of failed waited cancelled))]"


section \<open>The payload and the stream\<close>

declare bind_ret [simp]

lemma sentinel_outside:
  "list_all (\<lambda>l. \<not> contains l b) pre \<Longrightarrow>
   drain_sentinel name b e cb broken False p s (pre @ ls) =
     bind (drain_sentinel name b e cb broken False p s ls) (\<lambda>(out, r). ret (map (Pair Stdout) pre @ out, r))"
proof (induction pre)
  case Nil
  have "(\<lambda>(out, r). ret (out, r)) = ret" by auto
  then show ?case by (auto simp: bind_def ret_def split: option.splits sum.splits)
next
  case (Cons l pre)
  then show ?case by (simp add: bind_assoc) (simp add: bind_def ret_def fun_eq_iff split: option.split sum.split prod.split)
qed

lemma sentinel_inside:
  "list_all (\<lambda>l. \<not> contains l e) body \<Longrightarrow>
   drain_sentinel name b e cb broken True p s (body @ ls) =
     drain_sentinel name b e cb broken True (p @ concat (map (\<lambda>l. l @ [NL]) body)) s ls"
  by (induction body arbitrary: p) auto

text \<open>What \<open>drain_sentinel\<close> makes of an output with one block: the callback's result decides.\<close>

definition one_block :: "string \<Rightarrow> bool \<Rightarrow> string list \<Rightarrow> string \<Rightarrow> string list \<Rightarrow>
    's \<times> bool \<Rightarrow> line list \<times> capture_failure option \<times> 's" where
  "one_block name broken pre payload post r =
     (if snd r then (map (Pair Stdout) pre @ placeholder name payload # map (Pair Stdout) post,
        if broken then Some Reader_failed else None, fst r)
      else (map (Pair Stdout) pre, Some Callback_failed, fst r))"

text \<open>The payload between the markers goes to the callback and nowhere else: for an output with one
  block, the callback is called once, with exactly the lines between the markers, each with its
  line break; the stream gets the lines before and after the block and, in the place of the block,
  the line that says how long it was; and when the callback fails the stream ends with the lines
  before the block and the failure is reported.\<close>

theorem payload_off_stream:
  assumes "list_all (\<lambda>l. \<not> contains l b) (pre @ post)" "contains bl b"
    and "list_all (\<lambda>l. \<not> contains l e) body" "contains el e"
  shows "drain_sentinel name b e (Some f) broken False p s (pre @ bl # body @ el # post) =
    bind (f (concat (map (\<lambda>l. l @ [NL]) body)) s)
      (\<lambda>r. ret (one_block name broken pre (concat (map (\<lambda>l. l @ [NL]) body)) post r))"
proof -
  have end_of: "drain_sentinel name b e (Some f) broken False q s' [] =
      ret ([], if broken then Some Reader_failed else None, s')" for q s'
    by simp
  have "drain_sentinel name b e (Some f) broken False q s' post =
      ret (map (Pair Stdout) post, if broken then Some Reader_failed else None, s')" for q s'
    using sentinel_outside [of b post name e "Some f" broken q s' "[]"] assms(1) by (simp add: end_of)
  then show ?thesis
    using assms
    by (simp add: sentinel_outside [of b pre] sentinel_inside call_back_def bind_assoc)
      (auto simp: bind_def ret_def one_block_def fun_eq_iff split: option.split sum.split)
qed

lemma payload_off_stream_witness:
  "drain_sentinel ''x.sh'' ''BEGIN'' ''END'' (Some (\<lambda>p s. ret (p # s, True))) False False [] []
     [''hello'', ''BEGIN'', ''secret'', ''END'', ''bye''] ([] :: unit list) =
   Some (Inr ([(Stdout, ''hello''), placeholder ''x.sh'' (''secret'' @ [NL]), (Stdout, ''bye'')], None, [''secret'' @ [NL]]), [])"
  using payload_off_stream [of "''BEGIN''" "[''hello'']" "[''bye'']" "''BEGIN''" "''END''" "[''secret'']" "''END''" "''x.sh''"
      "\<lambda>p s. ret (p # s, True)" False "[]" "[]", THEN fun_cong [of _ _ "[]"]]
  by (simp add: contains_Cons one_block_def bind_def ret_def)

text \<open>A capture that failed never reads as a clean run, and every run that ended is read with its
  code: Drain accepts what the runner sends, lines without an exit record and the runner's end, and
  returns one when the capture failed, 130 when the run was cancelled and the script's code
  otherwise.\<close>

theorem runner_stream_accepted:
  assumes "Exit_status \<notin> fst ` set out" "- (2 ^ 63) \<le> waited" "waited < 2 ^ 63"
  shows "drain (out @ end_lines err_text failed waited cancelled) =
    (out @ butlast (end_lines err_text failed waited cancelled), Inr (exit_code_of failed waited cancelled))"
proof -
  have "atoi (itoa (exit_code_of failed waited cancelled)) = Some (exit_code_of failed waited cancelled)"
    using assms(2,3) by (intro atoi_itoa) (auto simp: exit_code_of_def)
  then have "parse_exit_code (itoa (exit_code_of failed waited cancelled)) = Inr (exit_code_of failed waited cancelled)"
    by (simp add: parse_exit_code_def itoa_trimmed itoa_not_Nil Let_def)
  then show ?thesis
    unfolding drain_def drain_from_accepts using assms(1)
    by (auto simp: end_lines_def split: option.split)
qed

lemma runner_stream_accepted_witness:
  "snd (drain ([(Stdout, ''a'')] @ end_lines (\<lambda>_. ''no end'') (Some Unterminated) 0 False)) = Inr 1"
  using runner_stream_accepted [of "[(Stdout, ''a'')]" 0 "\<lambda>_. ''no end''" "Some Unterminated" False]
  by (simp add: exit_code_of_def)

end
