(* ===== verification/Openbao_Init.thy ===== *)
theory Openbao_Init
  imports Openbao Share_Custody Script_Stream Atomic_File
begin

text \<open>
  \<open>Init\<close> of \<open>src/cli/internal/bootstrap/openbao/init.go\<close>: the ceremony that initializes the vault, keeps
  the shares and sets up the controller.  The script runner, the file system, SOPS, git, the
  OpenBao client and the Kubernetes API are the environment; the runner may deliver any number of
  payloads and then any stream.  The controller-auth setup is the workflow of \<open>Openbao\<close>,
  run on a history of its own.  Left out are the progress lines, whose write errors the code ignores,
  and the overwriting of secrets in memory; paths are taken to be clean.
\<close>

section \<open>The calls\<close>

datatype io_error = Already_exists | Io string

datatype file_call =
    Mkdir_all string | Write_temp string string | Chmod string nat | Fsync string | Close string
  | Link string string | Rename string string | Remove string | Sync_dir string

datatype in_event =
    Stat string "string + unit"
  | Abs_path string "string + string"
  | Git_dir string bool
  | Git_diff "string + string list"
  | Git_head "string + string"
  | Script_run "string + string list"
  | Script_lines "line list"
  | Home_dir "string + string"
  | Create_temp string string "io_error + string"
  | File file_call "io_error + unit"
  | Set_secret string string string "string + unit"
  | Decrypt_file string "string + string"
  | Commit bool string "string \<times> string option"
  | Bao ob_event

record in_env =
  json :: "string \<Rightarrow> (string list \<times> string) option"
  on_stat :: "in_event list \<Rightarrow> string \<Rightarrow> string + unit"
  on_abs :: "in_event list \<Rightarrow> string \<Rightarrow> string + string"
  on_git_dir :: "in_event list \<Rightarrow> string \<Rightarrow> bool"
  on_diff :: "in_event list \<Rightarrow> string + string list"
  on_head :: "in_event list \<Rightarrow> string + string"
  on_script :: "in_event list \<Rightarrow> string + string list"
  on_lines :: "in_event list \<Rightarrow> line list"
  on_home :: "in_event list \<Rightarrow> string + string"
  on_create :: "in_event list \<Rightarrow> string \<Rightarrow> string \<Rightarrow> io_error + string"
  on_file :: "in_event list \<Rightarrow> file_call \<Rightarrow> io_error + unit"
  on_set_secret :: "in_event list \<Rightarrow> string \<Rightarrow> string \<Rightarrow> string \<Rightarrow> string + unit"
  on_decrypt_file :: "in_event list \<Rightarrow> string \<Rightarrow> string + string"
  on_commit :: "in_event list \<Rightarrow> bool \<Rightarrow> string \<Rightarrow> string \<times> string option"
  bao :: "in_event list \<Rightarrow> ob_env"

record init_options = ob_options +
  has_runner :: bool
  has_git :: bool
  has_k8s :: bool
  skip_controller_auth :: bool
  no_push :: bool
  shares_out :: string

datatype write_error = Fs io_error | Abs_failed | Inside_git string

datatype dump_error = No_home | Render render_error | Write write_error | Names_taken

datatype cause =
    Parse payload_error | Drain stream_error | Exit_code int | Share_missing nat | No_token
  | Buffer_failed nat | Empty_share nat | Set_failed string | Verify_failed | Mismatch string
  | Commit_failed string

datatype late_cause =
    Unseal_step ob_error | No_root | Setup_step ob_error | No_k8s | Annotate_step

datatype init_error =
    Missing string | No_secrets_file | Path_refused write_error | Diff_failed | Dirty_tree "string list"
  | Already_initialised string | Head_failed | Start_failed | Drain_failed stream_error | Exit_nonzero int
  | Capture_missing | Preserved string cause | Lost cause | Irreversible late_cause | Client_failed

type_synonym ('e, 'a) in_prog = "(in_event, 'e, 'a) prog"

definition file_op :: "in_env \<Rightarrow> file_call \<Rightarrow> ('e, io_error + unit) in_prog" where
  "file_op env c = ask (\<lambda>h. on_file env h c) (File c)"

definition ignored :: "in_env \<Rightarrow> file_call \<Rightarrow> ('e, unit) in_prog" where
  "ignored env c = bind (file_op env c) (\<lambda>_. ret ())"

text \<open>A file operation; when it fails the clean-up runs and the error is returned.\<close>

definition file_or :: "in_env \<Rightarrow> file_call list \<Rightarrow> file_call \<Rightarrow> (write_error, unit) in_prog" where
  "file_or env cleanup c =
     bind (file_op env c) (\<lambda>r.
     case r of
       Inl e \<Rightarrow> bind (for_each (ignored env) cleanup) (\<lambda>_. fail (Fs e))
     | Inr _ \<Rightarrow> ret ())"

text \<open>A call to the OpenBao client.\<close>

definition bao_call :: "in_env \<Rightarrow> 'e \<Rightarrow> (ob_env \<Rightarrow> 'a ob_prog) \<Rightarrow> ('e, 'a) in_prog" where
  "bao_call env e m = wrap_err (\<lambda>_. e) (embed Bao (\<lambda>h. m (bao env h)))"

section \<open>Writing a file of shares\<close>

text \<open>The directories from one up to the root, as the loop of \<open>assertNotInsideAnyGitTree\<close> walks them.\<close>

function parents :: "string \<Rightarrow> string list" where
  "parents d = (if dir_of d = d then [d] else d # parents (dir_of d))"
  by pat_completeness auto

lemma last_slash_at: "last_slash p = Some i \<Longrightarrow> i < length p \<and> p ! i = CHR ''/''"
  by (auto simp: last_slash_def rev_nth dest!: find_index_SomeD)

termination parents
proof (relation "measure (\<lambda>d. if d = ''.'' then 0 else Suc (length d))")
  fix d :: string
  assume moved: "dir_of d \<noteq> d"
  show "(dir_of d, d) \<in> measure (\<lambda>d. if d = ''.'' then 0 else Suc (length d))"
  proof (cases "last_slash d")
    case None
    then show ?thesis using moved by (auto simp: dir_of_def)
  next
    case (Some i)
    then have "i < length d \<and> d ! i = CHR ''/''" by (rule last_slash_at)
    then show ?thesis using moved Some
      by (cases d) (auto simp: dir_of_def split: if_splits)
  qed
qed simp

declare parents.simps [simp del]

definition git_check :: "in_env \<Rightarrow> string \<Rightarrow> (write_error, unit) in_prog" where
  "git_check env d =
     bind (ask (\<lambda>h. on_git_dir env h d) (Git_dir d)) (\<lambda>inside. guard (Inside_git d) (\<not> inside))"

definition assert_not_in_git :: "in_env \<Rightarrow> string \<Rightarrow> (write_error, unit) in_prog" where
  "assert_not_in_git env path =
     bind (ask (\<lambda>h. on_abs env h path) (Abs_path path)) (\<lambda>r.
     bind (check_err (\<lambda>_. Abs_failed) r) (\<lambda>abs.
     for_each (git_check env) (parents (dir_of abs))))"

definition publish :: "in_env \<Rightarrow> string \<Rightarrow> string \<Rightarrow> bool \<Rightarrow> (write_error, unit) in_prog" where
  "publish env tmp path no_clobber =
     (if no_clobber
      then bind (file_or env [Remove tmp] (Link tmp path)) (\<lambda>_. ignored env (Remove tmp))
      else file_or env [Remove tmp] (Rename tmp path))"

definition write_shares_file :: "in_env \<Rightarrow> string \<Rightarrow> string \<Rightarrow> bool \<Rightarrow> (write_error, unit) in_prog" where
  "write_shares_file env path body no_clobber =
     bind (assert_not_in_git env path) (\<lambda>_.
     bind (file_or env [] (Mkdir_all (dir_of path))) (\<lambda>_.
     bind (ask (\<lambda>h. on_create env h (dir_of path) (filepath_base path @ ''.*.tmp''))
         (Create_temp (dir_of path) (filepath_base path @ ''.*.tmp''))) (\<lambda>r.
     bind (check_err Fs r) (\<lambda>tmp.
     bind (file_or env [Close tmp, Remove tmp] (Write_temp tmp body)) (\<lambda>_.
     bind (file_or env [Close tmp, Remove tmp] (Chmod tmp 384)) (\<lambda>_.
     bind (file_or env [Close tmp, Remove tmp] (Fsync tmp)) (\<lambda>_.
     bind (file_or env [Remove tmp] (Close tmp)) (\<lambda>_.
     bind (publish env tmp path no_clobber) (\<lambda>_.
     ignored env (Sync_dir (dir_of path)))))))))))"

text \<open>The emergency dump: the first free name.\<close>

definition provenance :: "init_options \<Rightarrow> string" where
  "provenance o' = ''EMERGENCY dump from `kube-dc bootstrap openbao init '' @ cluster_name o' @ ''` '' @ dash @
     '' the ceremony did not complete.''"

fun try_names :: "in_env \<Rightarrow> string \<Rightarrow> string list \<Rightarrow> (dump_error, string) in_prog" where
  "try_names env body [] = fail Names_taken"
| "try_names env body (p # ps) =
     bind (attempt (write_shares_file env p body True)) (\<lambda>r.
     case r of
       Inr _ \<Rightarrow> ret p
     | Inl e \<Rightarrow> if e = Fs Already_exists then try_names env body ps else fail (Write e))"

definition emergency_dump :: "in_env \<Rightarrow> init_options \<Rightarrow> secret_buffer \<Rightarrow> (dump_error, string) in_prog" where
  "emergency_dump env o' b =
     bind (ask (on_home env) Home_dir) (\<lambda>r.
     bind (check_err (\<lambda>_. No_home) r) (\<lambda>home.
     bind (check_err Render (render_shares b (provenance o'))) (\<lambda>body.
     try_names env body (dump_paths home (cluster_name o')))))"


section \<open>Phase A: checks and capture\<close>

definition validate_init :: "init_options \<Rightarrow> (init_error, unit) in_prog" where
  "validate_init o' =
     bind (guard (Missing ''ClusterName'') (cluster_name o' \<noteq> [])) (\<lambda>_.
     bind (guard (Missing ''FleetRepo'') (fleet_repo o' \<noteq> [])) (\<lambda>_.
     bind (guard (Missing ''Runner'') (has_runner o')) (\<lambda>_.
     bind (guard (Missing ''SOPS'') (has_sops o')) (\<lambda>_.
     bind (guard (Missing ''Git'') (has_git o')) (\<lambda>_.
     guard (Missing ''OpenBao'') (has_openbao o'))))))"

definition init_path :: "init_options \<Rightarrow> string" where
  "init_path o' = secrets_path (ob_options.truncate o')"

text \<open>An annotation that cannot be read counts as not set.\<close>

definition not_finalized :: "in_env \<Rightarrow> (init_error, unit) in_prog" where
  "not_finalized env =
     bind (bao_call env Client_failed (\<lambda>b. get_annotation b finalized_key)) (\<lambda>r.
     case r of
       Inl _ \<Rightarrow> ret ()
     | Inr v \<Rightarrow> guard (Already_initialised v) (v = []))"

definition pre_flight :: "in_env \<Rightarrow> init_options \<Rightarrow> (init_error, unit) in_prog" where
  "pre_flight env o' =
     bind (validate_init o') (\<lambda>_.
     bind (ask (\<lambda>h. on_stat env h (init_path o')) (Stat (init_path o'))) (\<lambda>r.
     bind (check_err (\<lambda>_. No_secrets_file) r) (\<lambda>_.
     bind (if shares_out o' \<noteq> [] then wrap_err Path_refused (assert_not_in_git env (shares_out o')) else ret ()) (\<lambda>_.
     bind (ask (on_diff env) Git_diff) (\<lambda>r.
     bind (check_err (\<lambda>_. Diff_failed) r) (\<lambda>dirty.
     bind (guard (Dirty_tree dirty) (dirty = [])) (\<lambda>_.
     bind (not_finalized env) (\<lambda>_.
     bind (ask (on_head env) Git_head) (\<lambda>r.
     bind (check_err (\<lambda>_. Head_failed) r) (\<lambda>_. ret ()))))))))))"

text \<open>What the callback leaves behind.\<close>

record capture =
  cap_buf :: secret_buffer
  cap_err :: "payload_error option"
  captured :: bool
  wah_path :: string
  wah_err :: "dump_error option"

definition no_capture :: capture where
  "no_capture = \<lparr>cap_buf = new_buffer, cap_err = None, captured = False, wah_path = [], wah_err = None\<rparr>"

definition capture_payload :: "in_env \<Rightarrow> init_options \<Rightarrow> capture \<Rightarrow> string \<Rightarrow> (init_error, capture) in_prog" where
  "capture_payload env o' cap payload =
     (let (perr, b) = load_buffer (json env) payload (cap_buf cap) in
      bind (attempt (emergency_dump env o' b)) (\<lambda>r.
      ret \<lparr>cap_buf = b, cap_err = (if perr \<noteq> None then perr else cap_err cap), captured = True,
        wah_path = (case r of Inr p \<Rightarrow> p | Inl _ \<Rightarrow> []),
        wah_err = (case r of Inr _ \<Rightarrow> None | Inl e \<Rightarrow> Some e)\<rparr>))"

fun capture_all :: "in_env \<Rightarrow> init_options \<Rightarrow> capture \<Rightarrow> string list \<Rightarrow> (init_error, capture) in_prog" where
  "capture_all env o' cap [] = ret cap"
| "capture_all env o' cap (p # ps) =
     bind (capture_payload env o' cap p) (\<lambda>cap'. capture_all env o' cap' ps)"

definition run_init_script :: "in_env \<Rightarrow> init_options \<Rightarrow> (init_error, capture \<times> (stream_error + int)) in_prog" where
  "run_init_script env o' =
     bind (ask (on_script env) Script_run) (\<lambda>r.
     bind (check_err (\<lambda>_. Start_failed) r) (\<lambda>payloads.
     bind (capture_all env o' no_capture payloads) (\<lambda>cap.
     bind (ask (on_lines env) Script_lines) (\<lambda>ls. ret (cap, snd (drain ls))))))"

text \<open>The error of every return after a capture says where the shares are.\<close>

definition custody :: "capture \<Rightarrow> cause \<Rightarrow> init_error" where
  "custody cap c = (if wah_err cap \<noteq> None then Lost c else Preserved (wah_path cap) c)"

definition check_capture :: "capture \<Rightarrow> stream_error + int \<Rightarrow> (init_error, string) in_prog" where
  "check_capture cap ended =
     (case cap_err cap of
        Some e \<Rightarrow> fail (custody cap (Parse e))
      | None \<Rightarrow>
        (case ended of
           Inl e \<Rightarrow> fail (if captured cap then custody cap (Drain e) else Drain_failed e)
         | Inr code \<Rightarrow>
             if code \<noteq> 0 then fail (if captured cap then custody cap (Exit_code code) else Exit_nonzero code)
             else if \<not> captured cap then fail Capture_missing
             else if share_count (cap_buf cap) \<noteq> 5 then fail (custody cap (Share_missing (share_count (cap_buf cap))))
             else (case root_token_of (cap_buf cap) of
                 Inr (Some (c # cs)) \<Rightarrow> ret (c # cs)
               | _ \<Rightarrow> fail (custody cap No_token))))"

section \<open>Phase B: custody\<close>

definition share_key :: "nat \<Rightarrow> string" where
  "share_key i = ''OPENBAO_UNSEAL_KEY_'' @ itoa (int (i + 1))"

definition some_share :: "secret_buffer \<Rightarrow> nat \<Rightarrow> (cause, string) in_prog" where
  "some_share b i =
     (case share_of b i of
        Inl _ \<Rightarrow> fail (Buffer_failed i)
      | Inr None \<Rightarrow> fail (Empty_share i)
      | Inr (Some s) \<Rightarrow> if s = [] then fail (Empty_share i) else ret s)"

definition write_and_verify :: "in_env \<Rightarrow> string \<Rightarrow> secret_buffer \<Rightarrow> nat \<Rightarrow> (cause, unit) in_prog" where
  "write_and_verify env path b i =
     bind (some_share b i) (\<lambda>share.
     bind (ask (\<lambda>h. on_set_secret env h path (share_key i) share) (Set_secret path (share_key i) share)) (\<lambda>r.
     bind (check_err (\<lambda>_. Set_failed (share_key i)) r) (\<lambda>_.
     bind (ask (\<lambda>h. on_decrypt_file env h path) (Decrypt_file path)) (\<lambda>r.
     bind (check_err (\<lambda>_. Verify_failed) r) (\<lambda>text.
     guard (Mismatch (share_key i)) (contains text share))))))"

definition out_provenance :: string where
  "out_provenance = ''Generated by `kube-dc bootstrap openbao init --openbao-shares-out`.''"

definition write_shares_out :: "in_env \<Rightarrow> string \<Rightarrow> secret_buffer \<Rightarrow> (dump_error, unit) in_prog" where
  "write_shares_out env path b =
     bind (check_err Render (render_shares b out_provenance)) (\<lambda>body.
     wrap_err Write (write_shares_file env path body False))"

definition commit_message :: "init_options \<Rightarrow> string" where
  "commit_message o' = ''feat('' @ cluster_name o' @ ''): encrypt OpenBao Shamir shares into secrets.enc.yaml''"

definition commit_shares :: "in_env \<Rightarrow> init_options \<Rightarrow> (cause, unit) in_prog" where
  "commit_shares env o' =
     bind (ask (\<lambda>h. on_commit env h (\<not> no_push o') (commit_message o')) (Commit (\<not> no_push o') (commit_message o'))) (\<lambda>(sha, err).
     guard (Commit_failed sha) (err = None))"

definition phase_b :: "in_env \<Rightarrow> init_options \<Rightarrow> capture \<Rightarrow> (init_error, unit) in_prog" where
  "phase_b env o' cap =
     bind (wrap_err (custody cap) (for_each (write_and_verify env (init_path o') (cap_buf cap)) [0..<5])) (\<lambda>_.
     bind (if shares_out o' \<noteq> []
           then bind (attempt (write_shares_out env (shares_out o') (cap_buf cap))) (\<lambda>_. ret ())
           else ret ()) (\<lambda>_.
     bind (wrap_err (custody cap) (commit_shares env o')) (\<lambda>_.
     if wah_path cap \<noteq> [] then ignored env (Remove (wah_path cap)) else ret ())))"

section \<open>Phase C: what cannot be undone\<close>

definition unseal_with :: "in_env \<Rightarrow> secret_buffer \<Rightarrow> string \<Rightarrow> nat \<Rightarrow> (late_cause, unit) in_prog" where
  "unseal_with env b pod' i =
     bind (wrap_err (\<lambda>_. Unseal_step (Unseal_failed pod' (i + 1))) (some_share b i)) (\<lambda>share.
     bind (bao_call env (Unseal_step Decrypt_failed) (\<lambda>e. unseal_call e pod' share)) (\<lambda>r.
     check_err (\<lambda>_. Unseal_step (Unseal_failed pod' (i + 1))) r))"

definition post_init_unseal :: "in_env \<Rightarrow> secret_buffer \<Rightarrow> (late_cause, unit) in_prog" where
  "post_init_unseal env b =
     bind (bao_call env (Unseal_step Pods_failed) pod_list) (\<lambda>r.
     bind (check_err (\<lambda>_. Unseal_step Pods_failed) r) (\<lambda>pods.
     bind (guard (Unseal_step No_pods) (pods \<noteq> [])) (\<lambda>_.
     for_each (unseal_with env b (hd pods)) [0..<3])))"

definition full_setup :: "string \<Rightarrow> setup_options" where
  "full_setup token = \<lparr>root_token = token, refresh_only = False, setup_has_openbao = True, setup_has_k8s = True\<rparr>"

definition post_init_setup :: "in_env \<Rightarrow> policy_texts \<Rightarrow> init_options \<Rightarrow> string \<Rightarrow> (late_cause, unit) in_prog" where
  "post_init_setup env ps o' token =
     (if skip_controller_auth o' then ret ()
      else if \<not> has_k8s o' then fail No_k8s
      else wrap_err Setup_step (embed Bao (\<lambda>h. setup_controller_auth (bao env h) ps (full_setup token))))"

definition final_stamps :: "init_options \<Rightarrow> string \<Rightarrow> (string \<times> string) list" where
  "final_stamps o' now =
     (finalized_key, now) # (if skip_controller_auth o' then [] else [(installed_key, now)])"

definition set_annotations :: "ob_env \<Rightarrow> (string \<times> string) list \<Rightarrow> (string + unit) ob_prog" where
  "set_annotations env kvs = ask (\<lambda>h. on_set_annotations env h kvs) (Set_annotations kvs)"

definition post_init_annotate :: "in_env \<Rightarrow> init_options \<Rightarrow> (late_cause, unit) in_prog" where
  "post_init_annotate env o' =
     bind (observe (\<lambda>h. timestamp (bao env h) [])) (\<lambda>now.
     bind (bao_call env Annotate_step (\<lambda>b. set_annotations b (final_stamps o' now))) (\<lambda>r.
     check_err (\<lambda>_. Annotate_step) r))"

definition revoke_self :: "ob_env \<Rightarrow> string \<Rightarrow> (string + unit) ob_prog" where
  "revoke_self env token = ask (\<lambda>h. on_revoke_self env h token) (Revoke_self token)"

text \<open>The token is taken after the unsealing; its revocation is deferred from there on.\<close>

definition take_token :: "secret_buffer \<Rightarrow> (late_cause, string) in_prog" where
  "take_token b =
     (case root_token_of b of
        Inr (Some (c # cs)) \<Rightarrow> ret (c # cs)
      | _ \<Rightarrow> fail No_root)"

definition phase_c :: "in_env \<Rightarrow> policy_texts \<Rightarrow> init_options \<Rightarrow> secret_buffer \<Rightarrow> (late_cause, unit) in_prog" where
  "phase_c env ps o' b =
     bind (post_init_unseal env b) (\<lambda>_.
     bind (take_token b) (\<lambda>token.
     finally_do
       (bind (post_init_setup env ps o' token) (\<lambda>_. post_init_annotate env o'))
       (bao_call env () (\<lambda>e. revoke_self e token))))"

definition init_vault :: "in_env \<Rightarrow> policy_texts \<Rightarrow> init_options \<Rightarrow> (init_error, unit) in_prog" where
  "init_vault env ps o' =
     bind (pre_flight env o') (\<lambda>_.
     bind (run_init_script env o') (\<lambda>(cap, ended).
     bind (check_capture cap ended) (\<lambda>_.
     bind (phase_b env o' cap) (\<lambda>_.
     wrap_err Irreversible (phase_c env ps o' (cap_buf cap))))))"


section \<open>What a run may do, and when\<close>

declare always_append_Cons [simp del]

definition captured_buffer :: "in_env \<Rightarrow> in_event list \<Rightarrow> secret_buffer \<Rightarrow> bool" where
  "captured_buffer env h b \<longleftrightarrow> (\<exists>pls. Script_run (Inr pls) \<in> set h \<and>
     b = foldl (\<lambda>b p. snd (load_buffer (json env) p b)) new_buffer pls)"

text \<open>Share \<open>i\<close> was encrypted and read back.\<close>

definition encrypted :: "init_options \<Rightarrow> secret_buffer \<Rightarrow> nat \<Rightarrow> in_event list \<Rightarrow> bool" where
  "encrypted o' b i h \<longleftrightarrow> (\<exists>s text. share_of b i = Inr (Some s) \<and> s \<noteq> [] \<and> contains text s \<and>
     subseq [Set_secret (init_path o') (share_key i) s (Inr ()), Decrypt_file (init_path o') (Inr text)] h)"

definition all_encrypted :: "in_env \<Rightarrow> init_options \<Rightarrow> in_event list \<Rightarrow> bool" where
  "all_encrypted env o' h \<longleftrightarrow> (\<exists>b. captured_buffer env h b \<and> (\<forall>i<5. encrypted o' b i h))"

definition committed :: "init_options \<Rightarrow> in_event list \<Rightarrow> bool" where
  "committed o' h \<longleftrightarrow> (\<exists>sha. Commit (\<not> no_push o') (commit_message o') (sha, None) \<in> set h)"

text \<open>The file \<open>p\<close> was linked to a temporary file that holds the text, has the mode 0600 and was flushed.\<close>

definition published :: "string \<Rightarrow> string \<Rightarrow> in_event list \<Rightarrow> bool" where
  "published p body h \<longleftrightarrow> (\<exists>tmp. subseq [File (Write_temp tmp body) (Inr ()), File (Chmod tmp 384) (Inr ()),
     File (Fsync tmp) (Inr ()), File (Link tmp p) (Inr ())] h)"

definition kept :: "string \<Rightarrow> string \<Rightarrow> in_event list \<Rightarrow> bool" where
  "kept p body h \<longleftrightarrow> published p body h \<and> (\<forall>r. File (Remove p) r \<notin> set h)"

text \<open>The first pod was given three of the captured shares.\<close>

definition first_pod_unsealed :: "in_env \<Rightarrow> in_event list \<Rightarrow> bool" where
  "first_pod_unsealed env h \<longleftrightarrow> (\<exists>b pods. captured_buffer env h b \<and> Bao (Pod_list (Inr pods)) \<in> set h \<and>
     (\<forall>i<3. \<exists>s. share_of b i = Inr (Some s) \<and> Bao (Unseal (hd pods) s (Inr ())) \<in> set h))"

definition may_start :: "in_event list \<Rightarrow> bool" where
  "may_start h \<longleftrightarrow> Git_diff (Inr []) \<in> set h \<and> (\<exists>sha. Git_head (Inr sha) \<in> set h) \<and>
     (\<forall>v. Bao (Get_annotation finalized_key (Inr v)) \<in> set h \<longrightarrow> v = [])"

definition init_allowed :: "in_env \<Rightarrow> init_options \<Rightarrow> in_event list \<Rightarrow> in_event \<Rightarrow> bool" where
  "init_allowed env o' h e = (case e of
      Script_run r \<Rightarrow> may_start h
    | File c r \<Rightarrow> (case c of Remove q \<Rightarrow> has_suffix q ''.tmp'' \<or> committed o' h | _ \<Rightarrow> True)
    | Commit push msg r \<Rightarrow> all_encrypted env o' h
    | Bao b \<Rightarrow> (case b of
          Get_annotation k r \<Rightarrow> True
        | Pod_list r \<Rightarrow> committed o' h
        | Unseal p s r \<Rightarrow> committed o' h
        | _ \<Rightarrow> committed o' h \<and> first_pod_unsealed env h)
    | _ \<Rightarrow> True)"

text \<open>\<open>os.CreateTemp\<close> puts its random part where the pattern has the asterisk, so the name keeps the
  pattern's ending.\<close>

definition temp_names :: "in_env \<Rightarrow> bool" where
  "temp_names env \<longleftrightarrow> (\<forall>h d pat t. on_create env h d (pat @ ''.*.tmp'') = Inr t \<longrightarrow> has_suffix t ''.tmp'')"

text \<open>A call that was refused while a file of shares was written, after the script had been started.\<close>

definition write_failed :: "in_event \<Rightarrow> bool" where
  "write_failed e = (case e of
      Home_dir (Inl _) \<Rightarrow> True | Abs_path p (Inl _) \<Rightarrow> True | Git_dir d inside \<Rightarrow> inside
    | Create_temp d pat (Inl _) \<Rightarrow> True | File c (Inl _) \<Rightarrow> True | _ \<Rightarrow> False)"

definition dump_failed :: "in_event list \<Rightarrow> bool" where
  "dump_failed h \<longleftrightarrow> (\<exists>r e. write_failed e \<and> subseq [Script_run r, e] h)"

lemma dump_failed_grows [simp]: "dump_failed h \<Longrightarrow> dump_failed (h @ evs)"
  unfolding dump_failed_def by (meson subseq_rev_drop_many)

lemma facts_grow [simp]:
  "captured_buffer env h b \<Longrightarrow> captured_buffer env (h @ evs) b"
  "encrypted o' b i h \<Longrightarrow> encrypted o' b i (h @ evs)"
  "all_encrypted env o' h \<Longrightarrow> all_encrypted env o' (h @ evs)"
  "committed o' h \<Longrightarrow> committed o' (h @ evs)"
  "published p body h \<Longrightarrow> published p body (h @ evs)"
  "first_pod_unsealed env h \<Longrightarrow> first_pod_unsealed env (h @ evs)"
proof -
  show c: "captured_buffer env h b \<Longrightarrow> captured_buffer env (h @ evs) b" for b by (auto simp: captured_buffer_def)
  show e: "encrypted o' b i h \<Longrightarrow> encrypted o' b i (h @ evs)" for i b
    unfolding encrypted_def by (meson subseq_rev_drop_many)
  show "all_encrypted env o' h \<Longrightarrow> all_encrypted env o' (h @ evs)"
    unfolding all_encrypted_def using c e by blast
  show "committed o' h \<Longrightarrow> committed o' (h @ evs)" by (auto simp: committed_def)
  show "published p body h \<Longrightarrow> published p body (h @ evs)"
    unfolding published_def by (meson subseq_rev_drop_many)
  show "first_pod_unsealed env h \<Longrightarrow> first_pod_unsealed env (h @ evs)"
    unfolding first_pod_unsealed_def using c by auto blast
qed

lemma always_grow:
  assumes "always A h" "list_all P evs" "\<And>p e. P e \<Longrightarrow> A (h @ p) e"
  shows "always A (h @ evs)"
  using assms(1)
proof (rule always_append)
  fix p e s
  assume "evs = p @ e # s"
  then show "A (h @ p) e" using assms(2) by (intro assms(3)) simp
qed

section \<open>Files\<close>

definition tmp_ok :: "file_call \<Rightarrow> bool" where
  "tmp_ok c = (case c of Remove q \<Rightarrow> has_suffix q ''.tmp'' | _ \<Rightarrow> True)"

lemma allowed_file: "tmp_ok c \<Longrightarrow> init_allowed env o' h (File c r)"
  by (cases c) (auto simp: tmp_ok_def init_allowed_def)

lemma ignored_wp:
  "tmp_ok c \<Longrightarrow> always (init_allowed env o') h \<Longrightarrow>
   wp (ignored env c) (\<lambda>_ h'. \<exists>r. h' = h @ [File c r] \<and> always (init_allowed env o') h') (\<lambda>_ _. False) h"
  by (auto simp: ignored_def file_op_def wp allowed_file)

lemma file_orI:
  assumes "tmp_ok c" "list_all tmp_ok cl" "always (init_allowed env o') h"
    and "always (init_allowed env o') (h @ [File c (Inr ())]) \<Longrightarrow> Q () (h @ [File c (Inr ())])"
  shows "wp (file_or env cl c) Q (\<lambda>_. always (init_allowed env o')) h"
proof -
  have step: "always (init_allowed env o') (h @ [File c r])" for r
    using assms(1,3) by (simp add: allowed_file)
  have clean: "wp (for_each (ignored env) cl) (\<lambda>_. always (init_allowed env o')) (\<lambda>_. always (init_allowed env o')) (h @ [File c r])" for r
  proof (rule wp_for_each [where I = "always (init_allowed env o')"])
    show "wp (ignored env c') (\<lambda>_. always (init_allowed env o')) (\<lambda>_. always (init_allowed env o')) k"
      if "c' \<in> set cl" "always (init_allowed env o') k" for c' k
      using that assms(2) by (intro wp_conseq [OF ignored_wp]) (auto simp: list_all_iff)
  qed (use step in simp_all)
  show ?thesis
    unfolding file_or_def file_op_def wp_bind wp_ask
    using clean [of "on_file env h c"] assms(4) [OF step]
    by (auto simp: wp split: sum.split)
qed


text \<open>The events of everything that happens before the commit, and the ones that are allowed anywhere.\<close>

definition free_event :: "in_event \<Rightarrow> bool" where
  "free_event e = (case e of
      Script_run r \<Rightarrow> False | Commit b m r \<Rightarrow> False | File c r \<Rightarrow> tmp_ok c
    | Bao b \<Rightarrow> (case b of Get_annotation k r \<Rightarrow> True | _ \<Rightarrow> False) | _ \<Rightarrow> True)"

lemma free_allowed: "free_event e \<Longrightarrow> init_allowed env o' h e"
  by (auto simp: free_event_def init_allowed_def tmp_ok_def split: in_event.splits ob_event.splits file_call.splits)

lemma free_always: "always (init_allowed env o') h \<Longrightarrow> list_all free_event evs \<Longrightarrow> always (init_allowed env o') (h @ evs)"
  by (rule always_grow [where P = free_event]) (simp_all add: free_allowed)

lemma emits_git_check [emits_rule]: "emits free_event (git_check env d)"
  unfolding git_check_def by (auto intro!: emits_rule simp: free_event_def)

lemma emits_assert_not_in_git [emits_rule]: "emits free_event (assert_not_in_git env path)"
  unfolding assert_not_in_git_def by (auto intro!: emits_rule simp: free_event_def)

lemma assert_wp:
  "always (init_allowed env o') h \<Longrightarrow>
   wp (assert_not_in_git env path) (\<lambda>_. always (init_allowed env o')) (\<lambda>_. always (init_allowed env o')) h"
  by (rule wp_conseq [OF emits_any [OF emits_assert_not_in_git]]) (auto intro: free_always)

lemma write_shares_file_wp:
  assumes "temp_names env" "always (init_allowed env o') h"
  shows "wp (write_shares_file env p body no_clobber)
    (\<lambda>_ h'. always (init_allowed env o') h' \<and> (no_clobber \<longrightarrow> published p body h'))
    (\<lambda>_. always (init_allowed env o')) h"
proof -
  let ?A = "always (init_allowed env o')"
  have main: "wp (bind (file_or env [Close tmp, Remove tmp] (Write_temp tmp body)) (\<lambda>_.
     bind (file_or env [Close tmp, Remove tmp] (Chmod tmp 384)) (\<lambda>_.
     bind (file_or env [Close tmp, Remove tmp] (Fsync tmp)) (\<lambda>_.
     bind (file_or env [Remove tmp] (Close tmp)) (\<lambda>_.
     bind (publish env tmp p no_clobber) (\<lambda>_. ignored env (Sync_dir (dir_of p))))))))
     (\<lambda>_ h'. ?A h' \<and> (no_clobber \<longrightarrow> published p body h')) (\<lambda>_. ?A) k"
    if t: "has_suffix tmp ''.tmp''" and k: "?A k" for tmp k
  proof -
    have ok: "tmp_ok (Remove tmp)" "tmp_ok (Write_temp tmp body)" "tmp_ok (Chmod tmp 384)" "tmp_ok (Fsync tmp)"
        "tmp_ok (Close tmp)" "tmp_ok (Link tmp p)" "tmp_ok (Rename tmp p)" "tmp_ok (Sync_dir (dir_of p))"
      using t by (simp_all add: tmp_ok_def)
    have sync: "wp (ignored env (Sync_dir (dir_of p))) (\<lambda>_ h'. ?A h' \<and> (no_clobber \<longrightarrow> published p body h')) (\<lambda>_. ?A) h'"
      if "?A h'" "no_clobber \<longrightarrow> published p body h'" for h'
      using that by (intro wp_conseq [OF ignored_wp [OF ok(8)]]) auto
    let ?k = "k @ [File (Write_temp tmp body) (Inr ()), File (Chmod tmp 384) (Inr ()), File (Fsync tmp) (Inr ()),
        File (Close tmp) (Inr ())]"
    have sub: "published p body (?k @ [File (Link tmp p) (Inr ())])"
      unfolding published_def by (intro exI [of _ tmp]) (simp add: subseq_drop_many)
    have linked: "wp (ignored env (Remove tmp)) (\<lambda>_. wp (ignored env (Sync_dir (dir_of p)))
        (\<lambda>_ h'. ?A h' \<and> (no_clobber \<longrightarrow> published p body h')) (\<lambda>_. ?A)) (\<lambda>_. ?A) (?k @ [File (Link tmp p) (Inr ())])"
      if "?A (?k @ [File (Link tmp p) (Inr ())])"
      by (rule wp_conseq [OF ignored_wp [OF ok(1) that]], rule sync) (use facts_grow(5) [OF sub] in auto)
    have publish: "wp (publish env tmp p no_clobber) (\<lambda>_. wp (ignored env (Sync_dir (dir_of p)))
        (\<lambda>_ h'. ?A h' \<and> (no_clobber \<longrightarrow> published p body h')) (\<lambda>_. ?A)) (\<lambda>_. ?A) ?k" if "?A ?k"
    proof (cases no_clobber)
      case True
      then show ?thesis unfolding publish_def if_P [OF True] wp_bind
        by (intro file_orI [OF ok(6) _ that]) (use linked ok in simp_all)
    next
      case False
      then show ?thesis unfolding publish_def if_not_P [OF False]
        by (intro file_orI [OF ok(7) _ that]) (use sync ok in simp_all)
    qed
    show ?thesis
      unfolding wp_bind
      by (rule file_orI [OF ok(2) _ k], simp add: ok, rule file_orI [OF ok(3)], simp add: ok, assumption,
          rule file_orI [OF ok(4)], simp add: ok, assumption, rule file_orI [OF ok(5)], simp add: ok, assumption)
        (use publish in simp)
  qed
  have made: "wp (bind (ask (\<lambda>h. on_create env h (dir_of p) (filepath_base p @ ''.*.tmp''))
         (Create_temp (dir_of p) (filepath_base p @ ''.*.tmp''))) (\<lambda>r.
     bind (check_err Fs r) (\<lambda>tmp.
     bind (file_or env [Close tmp, Remove tmp] (Write_temp tmp body)) (\<lambda>_.
     bind (file_or env [Close tmp, Remove tmp] (Chmod tmp 384)) (\<lambda>_.
     bind (file_or env [Close tmp, Remove tmp] (Fsync tmp)) (\<lambda>_.
     bind (file_or env [Remove tmp] (Close tmp)) (\<lambda>_.
     bind (publish env tmp p no_clobber) (\<lambda>_. ignored env (Sync_dir (dir_of p))))))))))
     (\<lambda>_ h'. ?A h' \<and> (no_clobber \<longrightarrow> published p body h')) (\<lambda>_. ?A) k" if k: "?A k" for k
  proof -
    have new: "?A (k @ [Create_temp d pat r])" for d pat r
      using k by (simp add: init_allowed_def)
    have "has_suffix t ''.tmp''" if "on_create env k (dir_of p) (filepath_base p @ ''.*.tmp'') = Inr t" for t
      using assms(1) that unfolding temp_names_def by blast
    then show ?thesis
      unfolding wp_bind_ask using main [OF _ new] new
      by (cases "on_create env k (dir_of p) (filepath_base p @ ''.*.tmp'')") (simp_all only: bind_check_err wp_fail)
  qed
  show ?thesis
    unfolding write_shares_file_def wp_bind [of "assert_not_in_git _ _"] wp_bind [of "file_or _ _ (Mkdir_all _)"]
    by (rule wp_conseq [OF assert_wp [OF assms(2)]], rule file_orI, simp add: tmp_ok_def, simp, assumption)
      (use made in simp_all)
qed


section \<open>The capture\<close>

text \<open>The events besides starting the script, committing and using the OpenBao client.\<close>

definition quiet :: "in_event \<Rightarrow> bool" where
  "quiet e = (case e of Script_run r \<Rightarrow> False | Commit b m r \<Rightarrow> False | Bao b \<Rightarrow> False | _ \<Rightarrow> True)"

lemma quiet_simps [simp]:
  "quiet (File c r)" "quiet (Create_temp d pat t)" "quiet (Abs_path p s)" "quiet (Git_dir d b)" "quiet (Home_dir s)"
  "quiet (Script_lines ls)" "quiet (Set_secret p k v u)" "quiet (Decrypt_file p s)" "quiet (Stat p u)" "quiet (Git_diff ds)"
  "quiet (Git_head s)" "\<not> quiet (Script_run sr)" "\<not> quiet (Commit push m cr)" "\<not> quiet (Bao e)"
  by (simp_all add: quiet_def)

lemma emits_quiet [emits_rule]:
  "emits quiet (ignored env c)" "emits quiet (file_or env cl c)" "emits quiet (assert_not_in_git env path)"
  "emits quiet (publish env tmp path nc)" "emits quiet (write_shares_file env path body nc)"
proof -
  show i: "emits quiet (ignored env c)" for c unfolding ignored_def file_op_def by (intro emits_rule) simp
  show f: "emits quiet (file_or env cl c)" for cl c
    unfolding file_or_def file_op_def by (intro emits_bind emits_ask) (auto intro!: emits_rule i split: sum.split)
  show a: "emits quiet (assert_not_in_git env path)"
    unfolding assert_not_in_git_def git_check_def by (intro emits_rule) simp_all
  show p: "emits quiet (publish env tmp path nc)" for tmp
    unfolding publish_def by (auto intro!: emits_rule i f)
  show "emits quiet (write_shares_file env path body nc)"
    unfolding write_shares_file_def by (intro emits_rule i f a p) simp
qed

lemma emits_dump [emits_rule]: "emits quiet (emergency_dump env o' b)"
proof -
  have "emits quiet (try_names env body ps)" for body ps
    by (induction ps) (auto intro!: emits_rule split: sum.split)
  then show ?thesis unfolding emergency_dump_def by (intro emits_rule) simp_all
qed

text \<open>A write that ends with an error has met a call that was refused.\<close>

definition failed_after :: "in_event list \<Rightarrow> in_event list \<Rightarrow> bool" where
  "failed_after h h' \<longleftrightarrow> (\<exists>evs. h' = h @ evs \<and> (\<exists>e\<in>set evs. write_failed e))"

lemma failed_after_intros:
  "write_failed e \<Longrightarrow> failed_after h (h @ [e])"
  "failed_after h h1 \<Longrightarrow> failed_after h (h1 @ evs)"
  "failed_after h1 h2 \<Longrightarrow> h1 = h @ evs \<Longrightarrow> failed_after h h2"
  by (force simp: failed_after_def)+

definition loud :: "('e, 'a) in_prog \<Rightarrow> bool" where
  "loud m \<longleftrightarrow> (\<forall>h. wp m (\<lambda>_ h'. \<exists>evs. h' = h @ evs) (\<lambda>_. failed_after h) h)"

lemma loud_bind:
  assumes "loud m" "\<And>x. loud (k x)"
  shows "loud (bind m k)"
  unfolding loud_def
proof
  fix h
  show "wp (bind m k) (\<lambda>_ h'. \<exists>evs. h' = h @ evs) (\<lambda>_. failed_after h) h"
  proof (rule wp_bindI, rule wp_conseq)
    show "wp m (\<lambda>_ h'. \<exists>evs. h' = h @ evs) (\<lambda>_. failed_after h) h" using assms(1) unfolding loud_def by blast
    fix x h1
    assume "\<exists>evs. h1 = h @ evs"
    then obtain evs where h1: "h1 = h @ evs" by blast
    show "wp (k x) (\<lambda>_ h'. \<exists>evs. h' = h @ evs) (\<lambda>_. failed_after h) h1"
    proof (rule wp_conseq)
      show "wp (k x) (\<lambda>_ h'. \<exists>es. h' = h1 @ es) (\<lambda>_. failed_after h1) h1" using assms(2) unfolding loud_def by blast
    qed (use h1 in \<open>auto intro: failed_after_intros(3)\<close>)
  qed
qed

lemma loud_ret: "loud (ret x)"
  by (simp add: loud_def wp)

lemma loud_ignored: "loud (ignored env c)"
  by (simp add: loud_def ignored_def file_op_def wp)

lemma loud_call:
  assumes "\<And>e. write_failed (ev (Inl e))" "\<And>x. loud (k x)"
  shows "loud (bind (ask f ev) (\<lambda>r. bind (check_err w r) k))"
  unfolding loud_def
proof
  fix h
  have later: "wp (k x) (\<lambda>_ h'. \<exists>evs. h' = h @ evs) (\<lambda>_. failed_after h) (h @ [e])" for x e
  proof (rule wp_conseq)
    show "wp (k x) (\<lambda>_ h'. \<exists>es. h' = (h @ [e]) @ es) (\<lambda>_. failed_after (h @ [e])) (h @ [e])"
      using assms(2) unfolding loud_def by blast
  qed (auto intro: failed_after_intros(3))
  show "wp (bind (ask f ev) (\<lambda>r. bind (check_err w r) k)) (\<lambda>_ h'. \<exists>evs. h' = h @ evs) (\<lambda>_. failed_after h) h"
  proof (cases "f h")
    case (Inl e)
    show ?thesis unfolding wp_bind_ask Inl by (simp add: bind_check_err wp_fail failed_after_intros(1) assms(1))
  next
    case (Inr x)
    show ?thesis unfolding wp_bind_ask Inr by (simp add: bind_check_err later)
  qed
qed

lemma loud_for_each: "(\<And>x. loud (body x)) \<Longrightarrow> loud (for_each body xs)"
  by (induction xs) (simp_all add: loud_ret loud_bind)

lemma loud_file_or: "loud (file_or env cleanup c)"
  unfolding loud_def
proof
  fix h
  have "emits quiet (for_each (ignored env) cleanup)" by (intro emits_rule)
  then have clean: "wp (for_each (ignored env) cleanup) (\<lambda>_. failed_after h) (\<lambda>_. failed_after h) (h @ [File c (Inl e)])" for e
  proof (rule wp_conseq [OF emits_any])
    have "failed_after h (h @ [File c (Inl e)])" by (rule failed_after_intros(1)) (simp add: write_failed_def)
    then show "\<exists>evs. h' = (h @ [File c (Inl e)]) @ evs \<and> list_all quiet evs \<Longrightarrow> failed_after h h'" for h'
      using failed_after_intros(2) by blast
    then show "\<exists>evs. h' = (h @ [File c (Inl e)]) @ evs \<and> list_all quiet evs \<Longrightarrow> failed_after h h'" for h' .
  qed
  show "wp (file_or env cleanup c) (\<lambda>_ h'. \<exists>evs. h' = h @ evs) (\<lambda>_. failed_after h) h"
  proof (cases "on_file env h c")
    case (Inl e)
    show ?thesis
      unfolding file_or_def file_op_def wp_bind wp_ask Inl by (simp add: wp clean)
  next
    case (Inr x)
    then show ?thesis
      unfolding file_or_def file_op_def wp_bind wp_ask Inr by (simp add: wp_ret)
  qed
qed

lemma loud_assert: "loud (assert_not_in_git env path)"
proof -
  have "loud (git_check env d)" for d
    by (auto simp: loud_def git_check_def wp failed_after_def write_failed_def)
  then show ?thesis
    unfolding assert_not_in_git_def by (intro loud_call loud_for_each) (simp_all add: write_failed_def)
qed

lemma loud_write_shares_file: "loud (write_shares_file env path body no_clobber)"
proof -
  have "loud (publish env tmp path no_clobber)" for tmp
    by (simp add: publish_def loud_bind loud_file_or loud_ignored)
  then show ?thesis
    unfolding write_shares_file_def
    by (intro loud_bind [OF loud_assert] loud_bind [OF loud_file_or] loud_call) (simp_all add: write_failed_def loud_bind loud_ignored)
qed

lemma loud_try_names: "loud (try_names env body (p # ps))"
proof -
  have late: "wp (try_names env body ps) (\<lambda>_ h'. \<exists>evs. h' = h @ evs) (\<lambda>_. failed_after h) h1" if "failed_after h h1" for h h1
  proof (rule wp_conseq [OF emits_any])
    show "emits quiet (try_names env body ps)" by (induction ps) (auto intro!: emits_rule split: sum.split)
    show "\<exists>evs. h' = h1 @ evs \<and> list_all quiet evs \<Longrightarrow> failed_after h h'" for h'
      using failed_after_intros(2) [OF that] by blast
    then show "\<exists>evs. h' = h1 @ evs \<and> list_all quiet evs \<Longrightarrow> \<exists>evs. h' = h @ evs" for h'
      unfolding failed_after_def by blast
  qed
  show ?thesis
    unfolding loud_def try_names.simps wp_bind wp_attempt
  proof (rule allI, rule wp_conseq)
    fix h
    show "wp (write_shares_file env p body True) (\<lambda>_ h'. \<exists>evs. h' = h @ evs) (\<lambda>_. failed_after h) h"
      using loud_write_shares_file unfolding loud_def by blast
  qed (simp_all add: wp_ret wp_fail late)
qed

lemma emits_capture_payload [emits_rule]: "emits quiet (capture_payload env o' cap p)"
  unfolding capture_payload_def by (auto simp: Let_def split: prod.split intro!: emits_rule)

lemma emits_capture_all [emits_rule]: "emits quiet (capture_all env o' cap ps)"
  by (induction ps arbitrary: cap) (auto intro: emits_rule)

lemma try_names_wp:
  assumes "temp_names env" "always (init_allowed env o') h"
  shows "wp (try_names env body ps) (\<lambda>p h'. always (init_allowed env o') h' \<and> published p body h' \<and> p \<in> set ps)
    (\<lambda>_. always (init_allowed env o')) h"
  using assms(2)
proof (induction ps arbitrary: h)
  case (Cons p ps)
  show ?case
    unfolding try_names.simps wp_bind wp_attempt
    by (rule wp_conseq [OF write_shares_file_wp [OF assms(1) Cons.prems]])
      (auto simp: wp intro: wp_conseq [OF Cons.IH])
qed (simp add: wp)

lemma dump_paths_yaml:
  assumes "p \<in> set (dump_paths home cluster)"
  shows "p \<noteq> []" "\<not> has_suffix p ''.tmp''"
proof -
  obtain q where "p = q @ ''.yaml''"
    using assms by (auto simp: dump_paths_def path_join_def dump_name_def split: if_splits)
  then show "p \<noteq> []" "\<not> has_suffix p ''.tmp''" by (auto simp: suffix_def append_eq_append_conv2 append_eq_Cons_conv Cons_eq_append_conv)
qed

lemma loud_dump:
  assumes "render_shares b (provenance o') = Inr body"
  shows "loud (emergency_dump env o' b)"
proof -
  have "loud (try_names env body (dump_paths d c))" for d c
  proof -
    have "dump_paths d c \<noteq> []" by (simp add: dump_paths_def max_attempts_def)
    then show ?thesis by (cases "dump_paths d c") (simp_all del: try_names.simps add: loud_try_names)
  qed
  then show ?thesis
    unfolding emergency_dump_def assms by (intro loud_call) (simp_all add: write_failed_def bind_check_err)
qed

lemma dump_wp:
  assumes "temp_names env" "always (init_allowed env o') h"
  shows "wp (emergency_dump env o' b)
    (\<lambda>p h'. always (init_allowed env o') h' \<and> p \<noteq> [] \<and> \<not> has_suffix p ''.tmp'' \<and>
      (\<exists>body. render_shares b (provenance o') = Inr body \<and> published p body h'))
    (\<lambda>_. always (init_allowed env o')) h"
proof -
  have home: "always (init_allowed env o') (h @ [Home_dir r])" for r
    using assms(2) by (simp add: init_allowed_def)
  have "wp (try_names env body (dump_paths d (cluster_name o')))
      (\<lambda>p h'. always (init_allowed env o') h' \<and> p \<noteq> [] \<and> \<not> has_suffix p ''.tmp'' \<and>
      (\<exists>body. render_shares b (provenance o') = Inr body \<and> published p body h')) (\<lambda>_. always (init_allowed env o'))
      (h @ [Home_dir r])" if "render_shares b (provenance o') = Inr body" for d r body
    by (rule wp_conseq [OF try_names_wp [OF assms(1) home]]) (use that dump_paths_yaml in auto)
  then show ?thesis
    unfolding emergency_dump_def wp_bind wp_ask wp_check_err
    using home by (auto split: sum.split)
qed


text \<open>What the payloads so far have left: the shares they held and, unless the dump failed, a file with
  the shares.\<close>

definition capture_of :: "in_env \<Rightarrow> init_options \<Rightarrow> string list \<Rightarrow> capture \<Rightarrow> in_event list \<Rightarrow> bool" where
  "capture_of env o' pls cap h \<longleftrightarrow>
     cap_buf cap = foldl (\<lambda>b p. snd (load_buffer (json env) p b)) new_buffer pls \<and>
     captured cap = (pls \<noteq> []) \<and> (pls = [] \<longrightarrow> cap = no_capture) \<and>
     (wah_err cap \<noteq> None \<longrightarrow> wah_path cap = []) \<and>
     (pls \<noteq> [] \<and> cap_err cap = None \<longrightarrow> no_hole (cap_buf cap) \<and> length (stored_shares (cap_buf cap)) = 5) \<and>
     (wah_err cap \<noteq> None \<longrightarrow> (\<exists>e. render_shares (cap_buf cap) (provenance o') = Inl e) \<or> dump_failed h) \<and>
     (pls \<noteq> [] \<and> wah_err cap = None \<longrightarrow> wah_path cap \<noteq> [] \<and> \<not> has_suffix (wah_path cap) ''.tmp'' \<and>
        (\<exists>body. render_shares (cap_buf cap) (provenance o') = Inr body \<and> published (wah_path cap) body h))"

lemma capture_of_grows [simp]: "capture_of env o' pls cap h \<Longrightarrow> capture_of env o' pls cap (h @ evs)"
  unfolding capture_of_def using facts_grow(5) dump_failed_grows by blast

lemma buffer_ok_captured: "buffer_ok (foldl (\<lambda>b p. snd (load_buffer js p b)) new_buffer pls)"
  by (induction pls rule: rev_induct) (simp_all add: buffer_ok_load)

lemma capture_payload_wp:
  assumes "temp_names env" "always (init_allowed env o') h" "capture_of env o' pls cap h" "Script_run r \<in> set h"
  shows "wp (capture_payload env o' cap p)
    (\<lambda>cap' h'. always (init_allowed env o') h' \<and> capture_of env o' (pls @ [p]) cap' h') (\<lambda>_ _. False) h"
proof -
  obtain perr b where load: "load_buffer (json env) p (cap_buf cap) = (perr, b)" by force
  have b: "b = foldl (\<lambda>b p. snd (load_buffer (json env) p b)) new_buffer (pls @ [p])"
    using assms(3) load by (simp add: capture_of_def)
  have full: "perr = None \<Longrightarrow> no_hole b \<and> length (stored_shares b) = 5"
    using load_complete load buffer_ok_captured [of "json env" pls] assms(3) by (auto simp: capture_of_def)
  have lost: "dump_failed h'" if f: "failed_after h h'" for h'
  proof -
    obtain evs e where h': "h' = h @ evs" "e \<in> set evs" "write_failed e" using f by (auto simp: failed_after_def)
    then have "subseq ([Script_run r] @ [e]) (h @ evs)"
      using assms(4) by (intro list_emb_append_mono) (simp_all add: subseq_singleton_left)
    then show ?thesis using h' unfolding dump_failed_def by auto
  qed
  have "wp (emergency_dump env o' b)
      (\<lambda>p h'. (always (init_allowed env o') h' \<and> p \<noteq> [] \<and> \<not> has_suffix p ''.tmp'' \<and>
        (\<exists>body. render_shares b (provenance o') = Inr body \<and> published p body h')))
      (\<lambda>_ h'. always (init_allowed env o') h' \<and> ((\<exists>e. render_shares b (provenance o') = Inl e) \<or> dump_failed h')) h"
  proof (cases "render_shares b (provenance o')")
    case (Inl e)
    then show ?thesis by (intro wp_conseq [OF dump_wp [OF assms(1,2)]]) auto
  next
    case (Inr body)
    show ?thesis
      by (rule wp_conseq [OF wp_conj_both [OF dump_wp [OF assms(1,2)] loud_dump [OF Inr, unfolded loud_def, rule_format]]])
        (auto simp: lost)
  qed
  then show ?thesis
    unfolding capture_payload_def load Let_def prod.case wp_bind wp_attempt
    by (rule wp_conseq) (use full assms(3) in \<open>auto simp: wp capture_of_def b\<close>)
qed

lemma capture_all_wp:
  assumes "temp_names env" "always (init_allowed env o') h" "capture_of env o' pls cap h" "Script_run r \<in> set h"
  shows "wp (capture_all env o' cap ps)
    (\<lambda>cap' h'. always (init_allowed env o') h' \<and> capture_of env o' (pls @ ps) cap' h') (\<lambda>_ _. False) h"
  using assms(2-4)
proof (induction ps arbitrary: cap pls h)
  case (Cons p ps)
  show ?case
    unfolding capture_all.simps wp_bind
    by (rule wp_conseq [OF emits_wp [OF emits_capture_payload capture_payload_wp [OF assms(1) Cons.prems]]])
      (use Cons.IH [of _ "pls @ [p]"] Cons.prems(3) in auto)
qed (simp add: wp)

text \<open>Before the script: the run may start, and nothing was captured or committed.\<close>

definition unstarted :: "in_event list \<Rightarrow> bool" where
  "unstarted h \<longleftrightarrow> (\<forall>r. Script_run r \<notin> set h) \<and> (\<forall>b m r. Commit b m r \<notin> set h) \<and>
     (\<forall>e. Bao e \<in> set h \<longrightarrow> (\<exists>r. e = Get_annotation finalized_key r))"

lemma unstarted_Nil [simp]: "unstarted []"
  by (simp add: unstarted_def)

lemma quiet_no_bao: "list_all quiet evs \<Longrightarrow> Bao e \<notin> set evs"
  by (auto simp: list_all_iff)

lemma unstarted_quiet: "unstarted h \<Longrightarrow> list_all quiet evs \<Longrightarrow> unstarted (h @ evs)"
  by (auto simp: unstarted_def list_all_iff)

definition ready :: "in_env \<Rightarrow> init_options \<Rightarrow> in_event list \<Rightarrow> bool" where
  "ready env o' h \<longleftrightarrow> always (init_allowed env o') h \<and> unstarted h"

lemma ready_snoc: "ready env o' h \<Longrightarrow> quiet e \<Longrightarrow> init_allowed env o' h e \<Longrightarrow> ready env o' (h @ [e])"
  using unstarted_quiet [of h "[e]"] by (simp add: ready_def)

lemma bind_validate:
  "wp (k ()) Q E h \<Longrightarrow> (\<And>s. E (Missing s) h) \<Longrightarrow> wp (bind (validate_init o') k) Q E h"
  by (auto simp: validate_init_def bind_guard bind_assoc wp_fail) (auto simp: guard_def bind_ret bind_fail wp_fail)

lemma pre_flight_wp:
  "wp (pre_flight env o') (\<lambda>_ h. ready env o' h \<and> may_start h) (\<lambda>e h. ready env o' h \<and> (\<forall>p c. e \<noteq> Preserved p c) \<and>
     (\<forall>c. e \<noteq> Lost c) \<and> (\<forall>c. e \<noteq> Irreversible c)) []"
proof -
  let ?E = "\<lambda>e h. ready env o' h \<and> (\<forall>p c. e \<noteq> Preserved p c) \<and> (\<forall>c. e \<noteq> Lost c) \<and> (\<forall>c. e \<noteq> Irreversible c)"
  have path: "wp (if shares_out o' \<noteq> [] then wrap_err Path_refused (assert_not_in_git env (shares_out o')) else ret ())
      (\<lambda>_ h. ready env o' h \<and> (\<forall>e. Bao e \<notin> set h)) ?E k" if "ready env o' k" "\<forall>e. Bao e \<notin> set k" for k
  proof -
    have "wp (assert_not_in_git env (shares_out o')) (\<lambda>_ h. ready env o' h \<and> (\<forall>e. Bao e \<notin> set h)) (\<lambda>_. ready env o') k"
    proof (rule wp_conseq [OF emits_wp [OF emits_quiet(3) assert_wp [of env o' k]]])
      show "always (init_allowed env o') k" using that by (simp add: ready_def)
    qed (use that in \<open>auto simp: ready_def unstarted_quiet quiet_no_bao\<close>)
    then show ?thesis using that by (auto simp: wp elim!: wp_conseq)
  qed
  have rest: "wp (bind (ask (on_diff env) Git_diff) (\<lambda>r.
     bind (check_err (\<lambda>_. Diff_failed) r) (\<lambda>dirty.
     bind (guard (Dirty_tree dirty) (dirty = [])) (\<lambda>_.
     bind (not_finalized env) (\<lambda>_.
     bind (ask (on_head env) Git_head) (\<lambda>r.
     bind (check_err (\<lambda>_. Head_failed) r) (\<lambda>_. ret ()))))))) (\<lambda>_ h. ready env o' h \<and> may_start h) ?E k"
    if "ready env o' k" "\<forall>e. Bao e \<notin> set k" for k
    using that
    by (auto simp: wp not_finalized_def bao_call_def get_annotation_def ready_def unstarted_def may_start_def
        init_allowed_def always_append_Cons split: sum.split)
  have both: "wp (bind (if shares_out o' \<noteq> [] then wrap_err Path_refused (assert_not_in_git env (shares_out o')) else ret ()) (\<lambda>_.
     bind (ask (on_diff env) Git_diff) (\<lambda>r.
     bind (check_err (\<lambda>_. Diff_failed) r) (\<lambda>dirty.
     bind (guard (Dirty_tree dirty) (dirty = [])) (\<lambda>_.
     bind (not_finalized env) (\<lambda>_.
     bind (ask (on_head env) Git_head) (\<lambda>r.
     bind (check_err (\<lambda>_. Head_failed) r) (\<lambda>_. ret ())))))))) (\<lambda>_ h. ready env o' h \<and> may_start h) ?E k"
    if "ready env o' k" "\<forall>e. Bao e \<notin> set k" for k
    by (rule wp_bindI, rule wp_conseq [OF path [OF that]], rule rest) auto
  have start: "ready env o' []" "ready env o' [Stat (init_path o') r]" for r
    using ready_snoc [of env o' "[]" "Stat (init_path o') r"] by (auto simp: ready_def init_allowed_def)
  show ?thesis
    unfolding pre_flight_def
  proof (rule bind_validate)
    show "wp (bind (ask (\<lambda>h. on_stat env h (init_path o')) (Stat (init_path o'))) (\<lambda>r.
     bind (check_err (\<lambda>_. No_secrets_file) r) (\<lambda>_.
     bind (if shares_out o' \<noteq> [] then wrap_err Path_refused (assert_not_in_git env (shares_out o')) else ret ()) (\<lambda>_.
     bind (ask (on_diff env) Git_diff) (\<lambda>r.
     bind (check_err (\<lambda>_. Diff_failed) r) (\<lambda>dirty.
     bind (guard (Dirty_tree dirty) (dirty = [])) (\<lambda>_.
     bind (not_finalized env) (\<lambda>_.
     bind (ask (on_head env) Git_head) (\<lambda>r.
     bind (check_err (\<lambda>_. Head_failed) r) (\<lambda>_. ret ())))))))))) (\<lambda>_ h. ready env o' h \<and> may_start h) ?E []"
      unfolding wp_bind_ask append_Nil
      by (cases "on_stat env [] (init_path o')")
        (simp_all only: bind_check_err wp_fail, simp add: start, rule both, simp_all add: start)
  qed (simp add: start)
qed


section \<open>The outcome of a run\<close>

text \<open>Where the shares are when the run ends with an error.\<close>

definition init_honest :: "in_env \<Rightarrow> init_options \<Rightarrow> init_error \<Rightarrow> in_event list \<Rightarrow> bool" where
  "init_honest env o' e h = (case e of
      Irreversible c \<Rightarrow> all_encrypted env o' h \<and> committed o' h
    | Preserved p c \<Rightarrow> (\<exists>b body ss. captured_buffer env h b \<and> kept p body h \<and> lists_shares body ss \<and> ss \<noteq> [] \<and>
        subseq ss (stored_shares b) \<and> (no_hole b \<longrightarrow> ss = stored_shares b) \<and>
        ((\<forall>e. c \<noteq> Parse e) \<longrightarrow> ss = stored_shares b \<and> length ss = 5))
    | Lost c \<Rightarrow> (\<exists>pls. Script_run (Inr pls) \<in> set h \<and> pls \<noteq> []) \<and>
        (\<exists>b. captured_buffer env h b \<and> (dump_failed h \<or> \<not> no_hole b \<or> stored_shares b = [])) \<and>
        ((\<forall>e. c \<noteq> Parse e) \<longrightarrow> dump_failed h)
    | _ \<Rightarrow> (\<forall>pls. Script_run (Inr pls) \<in> set h \<longrightarrow> pls = []))"

text \<open>After the script and before the commit.\<close>

definition script_done :: "in_env \<Rightarrow> init_options \<Rightarrow> string list \<Rightarrow> capture \<Rightarrow> in_event list \<Rightarrow> bool" where
  "script_done env o' pls cap h \<longleftrightarrow> always (init_allowed env o') h \<and> \<not> committed o' h \<and>
     Script_run (Inr pls) \<in> set h \<and> (\<forall>pls'. Script_run (Inr pls') \<in> set h \<longrightarrow> pls' = pls) \<and>
     (\<forall>e. Bao e \<in> set h \<longrightarrow> (\<exists>r. e = Get_annotation finalized_key r)) \<and>
     capture_of env o' pls cap h"

lemma not_committed_quiet: "\<not> committed o' h \<Longrightarrow> list_all quiet evs \<Longrightarrow> \<not> committed o' (h @ evs)"
  by (auto simp: committed_def list_all_iff)

lemma script_done_grows:
  "script_done env o' pls cap h \<Longrightarrow> list_all quiet evs \<Longrightarrow> always (init_allowed env o') (h @ evs) \<Longrightarrow>
   script_done env o' pls cap (h @ evs)"
proof -
  assume a: "script_done env o' pls cap h" "list_all quiet evs" "always (init_allowed env o') (h @ evs)"
  have "\<And>r. Script_run r \<notin> set evs" "\<And>e. Bao e \<notin> set evs" using a(2) by (auto simp: list_all_iff)
  then show "script_done env o' pls cap (h @ evs)"
    using a(1,3) not_committed_quiet [OF _ a(2), of o' h] capture_of_grows [of env o' pls cap h evs]
    unfolding script_done_def set_append Un_iff by blast
qed

lemma script_done_snoc:
  "script_done env o' pls cap h \<Longrightarrow> quiet e \<Longrightarrow> init_allowed env o' h e \<Longrightarrow> script_done env o' pls cap (h @ [e])"
  by (rule script_done_grows) (auto simp: script_done_def)

lemma not_removed:
  assumes "always (init_allowed env o') h" "\<not> committed o' h" "\<not> has_suffix p ''.tmp''"
  shows "File (Remove p) r \<notin> set h"
proof
  assume "File (Remove p) r \<in> set h"
  then obtain a s where h: "h = a @ File (Remove p) r # s" by (auto dest: split_list)
  then have "init_allowed env o' a (File (Remove p) r)" using assms(1) by (auto dest: alwaysD)
  then have "committed o' a" using assms(3) by (simp add: init_allowed_def)
  then show False using assms(2) facts_grow(4) [of o' a] by (simp add: h)
qed

lemma custody_honest:
  assumes "script_done env o' pls cap h" "pls \<noteq> []" "(\<forall>e. c \<noteq> Parse e) \<longrightarrow> cap_err cap = None"
  shows "init_honest env o' (custody cap c) h"
proof -
  have b: "cap_buf cap = foldl (\<lambda>b p. snd (load_buffer (json env) p b)) new_buffer pls" "Script_run (Inr pls) \<in> set h"
    using assms(1) unfolding script_done_def capture_of_def by blast+
  have "captured_buffer env h (cap_buf cap)" using b unfolding captured_buffer_def by blast
  moreover have "buffer_ok (cap_buf cap)" unfolding b(1) by (rule buffer_ok_captured)
  ultimately have cap: "captured_buffer env h (cap_buf cap)" "buffer_ok (cap_buf cap)" .
  have full: "(\<forall>e. c \<noteq> Parse e) \<longrightarrow> no_hole (cap_buf cap) \<and> length (stored_shares (cap_buf cap)) = 5"
    using assms unfolding script_done_def capture_of_def by blast
  show ?thesis
  proof (cases "wah_err cap")
    case None
    then obtain body where body: "render_shares (cap_buf cap) (provenance o') = Inr body" "published (wah_path cap) body h"
        "\<not> has_suffix (wah_path cap) ''.tmp''"
      using assms unfolding script_done_def capture_of_def by blast
    obtain ss where ss: "lists_shares body ss" "ss \<noteq> []" "subseq ss (stored_shares (cap_buf cap))"
        "no_hole (cap_buf cap) \<Longrightarrow> ss = stored_shares (cap_buf cap)"
      using render_lists [OF cap(2) body(1)] by blast
    have "File (Remove (wah_path cap)) r \<notin> set h" for r
      using assms(1) body(3) unfolding script_done_def by (intro not_removed) blast+
    then have "kept (wah_path cap) body h" using body(2) by (simp add: kept_def)
    then have "\<exists>b body ss. captured_buffer env h b \<and> kept (wah_path cap) body h \<and> lists_shares body ss \<and> ss \<noteq> [] \<and>
        subseq ss (stored_shares b) \<and> (no_hole b \<longrightarrow> ss = stored_shares b) \<and>
        ((\<forall>e. c \<noteq> Parse e) \<longrightarrow> ss = stored_shares b \<and> length ss = 5)"
      using cap(1) ss full by metis
    then show ?thesis by (simp add: custody_def init_honest_def None)
  next
    case (Some e)
    then have why: "(\<exists>e. render_shares (cap_buf cap) (provenance o') = Inl e) \<or> dump_failed h"
      using assms(1) unfolding script_done_def capture_of_def by blast
    then have "dump_failed h \<or> \<not> no_hole (cap_buf cap) \<or> stored_shares (cap_buf cap) = []"
      using render_nothing [OF cap(2)] by blast
    moreover have "(\<forall>e. c \<noteq> Parse e) \<longrightarrow> dump_failed h"
      using why full render_nothing [OF cap(2)] by fastforce
    moreover have "\<exists>pls. Script_run (Inr pls) \<in> set h \<and> pls \<noteq> []"
      using assms unfolding script_done_def by blast
    ultimately show ?thesis using cap(1) by (auto simp: custody_def init_honest_def Some)
  qed
qed

text \<open>An error before the commit: it says where the shares are, and the token was not used.\<close>

definition token_unused :: "in_event list \<Rightarrow> bool" where
  "token_unused h \<longleftrightarrow> (\<forall>t w r. Bao (Bao_write t w r) \<notin> set h) \<and> (\<forall>t r. Bao (Revoke_self t r) \<notin> set h)"

definition early :: "in_env \<Rightarrow> init_options \<Rightarrow> init_error \<Rightarrow> in_event list \<Rightarrow> bool" where
  "early env o' e h \<longleftrightarrow> always (init_allowed env o') h \<and> init_honest env o' e h \<and> token_unused h \<and> (\<forall>c. e \<noteq> Irreversible c)"

lemma custody_early: "script_done env o' pls cap h \<Longrightarrow> pls \<noteq> [] \<Longrightarrow> (\<forall>e. c \<noteq> Parse e) \<longrightarrow> cap_err cap = None \<Longrightarrow>
  early env o' (custody cap c) h"
  unfolding early_def
proof (intro conjI allI)
  assume a: "script_done env o' pls cap h" "pls \<noteq> []" "(\<forall>e. c \<noteq> Parse e) \<longrightarrow> cap_err cap = None"
  show "always (init_allowed env o') h" using a(1) unfolding script_done_def by blast
  show "init_honest env o' (custody cap c) h" using a by (rule custody_honest)
  show "token_unused h" using a(1) unfolding script_done_def token_unused_def by blast
  show "custody cap c \<noteq> Irreversible d" for d by (simp add: custody_def)
qed

lemma other_early:
  assumes "always (init_allowed env o') h" "\<forall>e. Bao e \<in> set h \<longrightarrow> (\<exists>r. e = Get_annotation finalized_key r)"
    and "\<forall>pls. Script_run (Inr pls) \<in> set h \<longrightarrow> pls = []"
    and "\<forall>p c. e \<noteq> Preserved p c" "\<forall>c. e \<noteq> Lost c" "\<forall>c. e \<noteq> Irreversible c"
  shows "early env o' e h"
  using assms by (cases e) (auto simp: early_def token_unused_def init_honest_def)

lemma capture_of_none [simp]: "capture_of env o' [] no_capture h"
  by (simp add: capture_of_def no_capture_def)

lemma run_init_script_wp:
  assumes "temp_names env" "ready env o' h" "may_start h"
  shows "wp (run_init_script env o') (\<lambda>(cap, ended) h'. \<exists>pls. script_done env o' pls cap h')
    (early env o') h"
proof -
  have started: "always (init_allowed env o') (h @ [Script_run r])" for r
    using assms(2,3) by (simp add: ready_def init_allowed_def)
  have none: "Script_run r \<notin> set h" "Commit b m x \<notin> set h" "Bao e \<in> set h \<Longrightarrow> \<exists>r. e = Get_annotation finalized_key r" for r b m x e
    using assms(2) unfolding ready_def unstarted_def by blast+
  have "wp (capture_all env o' no_capture pls) (\<lambda>cap h'. script_done env o' pls cap h') (\<lambda>_ _. False) (h @ [Script_run (Inr pls)])" for pls
  proof (rule wp_conseq [OF emits_wp [OF emits_capture_all capture_all_wp [OF assms(1) started, where pls = "[]" and cap = no_capture and r = "Inr pls"]]])
    fix cap h'
    assume a: "(always (init_allowed env o') h' \<and> capture_of env o' ([] @ pls) cap h') \<and>
        (\<exists>evs. h' = (h @ [Script_run (Inr pls)]) @ evs \<and> list_all quiet evs)"
    then obtain evs where evs: "h' = (h @ [Script_run (Inr pls)]) @ evs" "list_all quiet evs" by blast
    show "script_done env o' pls cap h'"
      using a evs none not_committed_quiet [OF _ evs(2), of o' "h @ [Script_run (Inr pls)]"]
      by (auto simp: script_done_def committed_def list_all_iff)
  qed simp_all
  then have "wp (bind (capture_all env o' no_capture pls) (\<lambda>cap.
      bind (ask (on_lines env) Script_lines) (\<lambda>ls. ret (cap, snd (drain ls)))))
      (\<lambda>(cap, ended) h'. \<exists>pls. script_done env o' pls cap h') (\<lambda>_ _. False) (h @ [Script_run (Inr pls)])" for pls
    unfolding wp_bind [of "capture_all _ _ _ _"]
    by (rule wp_conseq) (auto simp: wp intro!: exI script_done_snoc, simp add: init_allowed_def)
  then have body: "wp (bind (capture_all env o' no_capture pls) (\<lambda>cap.
      bind (ask (on_lines env) Script_lines) (\<lambda>ls. ret (cap, snd (drain ls)))))
      (\<lambda>(cap, ended) h'. \<exists>pls. script_done env o' pls cap h')
      (early env o')
      (h @ [Script_run (Inr pls)])" for pls
    by (rule wp_conseq) auto
  show ?thesis
    unfolding run_init_script_def wp_bind_ask
    by (cases "on_script env h") (simp_all only: bind_check_err wp_fail body, rule other_early, use started none in auto)
qed

lemma check_capture_wp:
  assumes "script_done env o' pls cap h"
  shows "wp (check_capture cap ended) (\<lambda>_ h'. h' = h \<and> pls \<noteq> [] \<and> cap_err cap = None) (early env o') h"
proof (cases "pls = []")
  case True
  then have cap: "cap = no_capture" using assms by (simp add: script_done_def capture_of_def)
  have "early env o' e h" if "\<forall>p c. e \<noteq> Preserved p c" "\<forall>c. e \<noteq> Lost c" "\<forall>c. e \<noteq> Irreversible c" for e
    using assms True that unfolding script_done_def by (intro other_early) blast+
  then show ?thesis
    by (auto simp: cap no_capture_def check_capture_def wp split: sum.split)
next
  case False
  then have "captured cap" using assms by (simp add: script_done_def capture_of_def)
  then show ?thesis
    using custody_early [OF assms False] False
    by (auto simp: check_capture_def wp split: option.split sum.split list.split)
qed

section \<open>The commit and after\<close>

lemma some_share_wp:
  "wp (some_share b i) (\<lambda>s h'. h' = h \<and> share_of b i = Inr (Some s) \<and> s \<noteq> []) (\<lambda>_ h'. h' = h) h"
  by (auto simp: some_share_def wp split: sum.split option.split)

lemma write_and_verify_wp:
  assumes "script_done env o' pls cap h"
  shows "wp (write_and_verify env (init_path o') b i)
    (\<lambda>_ h'. script_done env o' pls cap h' \<and> encrypted o' b i h' \<and> (\<exists>evs. h' = h @ evs))
    (\<lambda>_. script_done env o' pls cap) h"
proof -
  have set1: "script_done env o' pls cap (h @ [Set_secret p k s r])" for p k s r
    using assms by (rule script_done_snoc) (simp_all add: init_allowed_def)
  have set2: "script_done env o' pls cap (h @ [Set_secret p k s r, Decrypt_file p t])" for p k s r t
    using script_done_snoc [OF set1, of "Decrypt_file p t"] by (simp add: init_allowed_def)
  have enc: "encrypted o' b i (h @ [Set_secret (init_path o') (share_key i) s (Inr ()), Decrypt_file (init_path o') (Inr c)])"
    if "share_of b i = Inr (Some s)" "s \<noteq> []" "contains c s" for s c
    unfolding encrypted_def using that by (intro exI [of _ s] exI [of _ c]) (simp add: subseq_drop_many)
  show ?thesis
    unfolding write_and_verify_def wp_bind [of "some_share _ _"]
    by (rule wp_conseq [OF some_share_wp]) (auto simp: wp set1 set2 enc assms split: sum.split)
qed

lemma write_all_wp:
  assumes "script_done env o' pls cap h"
  shows "wp (for_each (write_and_verify env (init_path o') b) [0..<5])
    (\<lambda>_ h'. script_done env o' pls cap h' \<and> (\<forall>i<5. encrypted o' b i h')) (\<lambda>_. script_done env o' pls cap) h"
proof -
  have "wp (for_each (write_and_verify env (init_path o') b) [0..<5])
    (\<lambda>_ h'. script_done env o' pls cap h' \<and> (\<forall>i\<in>set [0..<5]. encrypted o' b i h')) (\<lambda>_. script_done env o' pls cap) h"
  proof (rule wp_for_each_upto [where I = "\<lambda>ys h'. script_done env o' pls cap h' \<and> (\<forall>i\<in>set ys. encrypted o' b i h')"])
    fix ys i zs h'
    assume "script_done env o' pls cap h' \<and> (\<forall>i\<in>set ys. encrypted o' b i h')"
    then show "wp (write_and_verify env (init_path o') b i)
        (\<lambda>_ h'. script_done env o' pls cap h' \<and> (\<forall>i\<in>set (ys @ [i]). encrypted o' b i h')) (\<lambda>_. script_done env o' pls cap) h'"
      by (intro wp_conseq [OF write_and_verify_wp]) auto
  qed (use assms in simp)
  then show ?thesis by (rule wp_conseq) auto
qed

text \<open>After the commit.\<close>

definition durable :: "in_env \<Rightarrow> init_options \<Rightarrow> secret_buffer \<Rightarrow> in_event list \<Rightarrow> bool" where
  "durable env o' b h \<longleftrightarrow> always (init_allowed env o') h \<and> captured_buffer env h b \<and> all_encrypted env o' h \<and> committed o' h"

lemma durable_snoc: "durable env o' b h \<Longrightarrow> init_allowed env o' h e \<Longrightarrow> durable env o' b (h @ [e])"
  by (simp add: durable_def)

lemma shares_out_wp:
  assumes "temp_names env" "script_done env o' pls cap h" "\<forall>i<5. encrypted o' b i h"
  shows "wp (if shares_out o' \<noteq> [] then bind (attempt (write_shares_out env (shares_out o') b')) (\<lambda>_. ret ()) else ret ())
    (\<lambda>_ h'. script_done env o' pls cap h' \<and> (\<forall>i<5. encrypted o' b i h')) (\<lambda>_ _. False) h"
proof -
  let ?A = "always (init_allowed env o')"
  have "emits quiet (write_shares_out env p b')" for p
    unfolding write_shares_out_def by (intro emits_rule)
  moreover have "wp (write_shares_out env p b') (\<lambda>_. ?A) (\<lambda>_. ?A) h" for p
    using assms(2) unfolding write_shares_out_def wp_bind wp_check_err wp_wrap_err
    by (auto simp: script_done_def intro!: wp_conseq [OF write_shares_file_wp [OF assms(1)]] split: sum.split)
  ultimately have "wp (write_shares_out env p b') (\<lambda>_ h'. ?A h' \<and> (\<exists>evs. h' = h @ evs \<and> list_all quiet evs))
      (\<lambda>_ h'. ?A h' \<and> (\<exists>evs. h' = h @ evs \<and> list_all quiet evs)) h" for p
    by (rule emits_wp)
  then have "wp (write_shares_out env p b') (\<lambda>_ h'. script_done env o' pls cap h' \<and> (\<forall>i<5. encrypted o' b i h'))
      (\<lambda>_ h'. script_done env o' pls cap h' \<and> (\<forall>i<5. encrypted o' b i h')) h" for p
    by (rule wp_conseq) (use assms(3) script_done_grows [OF assms(2)] in auto)
  then show ?thesis using assms(2,3) by (auto simp: wp)
qed

lemma commit_wp:
  assumes "script_done env o' pls cap h" "\<forall>i<5. encrypted o' (cap_buf cap) i h" "pls \<noteq> []" "cap_err cap = None"
  shows "wp (wrap_err (custody cap) (commit_shares env o')) (\<lambda>_ h'. durable env o' (cap_buf cap) h' \<and> token_unused h')
    (early env o') h"
proof -
  have b: "captured_buffer env h (cap_buf cap)"
    using assms(1) unfolding script_done_def capture_of_def captured_buffer_def by blast
  then have all: "all_encrypted env o' h" using assms(2) unfolding all_encrypted_def by blast
  let ?e = "\<lambda>r. Commit (\<not> no_push o') (commit_message o') r"
  have step: "always (init_allowed env o') (h @ [?e r])" for r
    using assms(1) all by (simp add: script_done_def init_allowed_def)
  have bad: "script_done env o' pls cap (h @ [?e (sha, Some x)])" for sha x
    using assms(1) step [of "(sha, Some x)"] capture_of_grows [of env o' pls cap h "[?e (sha, Some x)]"]
    by (auto simp: script_done_def committed_def)
  have good: "durable env o' (cap_buf cap) (h @ [?e (sha, None)]) \<and> token_unused (h @ [?e (sha, None)])" for sha
    using step [of "(sha, None)"] b all assms(1)
    by (auto simp: durable_def committed_def token_unused_def script_done_def)
  show ?thesis
    using custody_early [OF bad assms(3)] good assms(4)
    by (auto simp: commit_shares_def wp split: prod.split)
qed

lemma phase_b_wp:
  assumes "temp_names env" "script_done env o' pls cap h" "pls \<noteq> []" "cap_err cap = None"
  shows "wp (phase_b env o' cap) (\<lambda>_ h'. durable env o' (cap_buf cap) h' \<and> token_unused h') (early env o') h"
proof -
  have remove: "wp (if wah_path cap \<noteq> [] then ignored env (Remove (wah_path cap)) else ret ())
      (\<lambda>_ h'. durable env o' (cap_buf cap) h' \<and> token_unused h') (early env o') k"
    if "durable env o' (cap_buf cap) k \<and> token_unused k" for k
    using that by (auto simp: wp ignored_def file_op_def init_allowed_def token_unused_def durable_def)
  have commit: "wp (bind (wrap_err (custody cap) (commit_shares env o')) (\<lambda>_.
      if wah_path cap \<noteq> [] then ignored env (Remove (wah_path cap)) else ret ()))
      (\<lambda>_ h'. durable env o' (cap_buf cap) h' \<and> token_unused h') (early env o') k"
    if "script_done env o' pls cap k \<and> (\<forall>i<5. encrypted o' (cap_buf cap) i k)" for k
    by (rule wp_bindI, rule wp_conseq [OF commit_wp]) (use that assms(3,4) remove in auto)
  have out: "wp (bind (if shares_out o' \<noteq> [] then bind (attempt (write_shares_out env (shares_out o') (cap_buf cap))) (\<lambda>_. ret ()) else ret ()) (\<lambda>_.
      bind (wrap_err (custody cap) (commit_shares env o')) (\<lambda>_.
      if wah_path cap \<noteq> [] then ignored env (Remove (wah_path cap)) else ret ())))
      (\<lambda>_ h'. durable env o' (cap_buf cap) h' \<and> token_unused h') (early env o') k"
    if "script_done env o' pls cap k \<and> (\<forall>i<5. encrypted o' (cap_buf cap) i k)" for k
    by (rule wp_bindI, rule wp_conseq [OF shares_out_wp [OF assms(1)]]) (use that commit in auto)
  show ?thesis
    unfolding phase_b_def
    by (rule wp_bindI, rule wp_wrap_errI, rule wp_conseq [OF write_all_wp [OF assms(2)]])
      (use out custody_early assms(3,4) in auto)
qed


section \<open>Unsealing, setting up and revoking\<close>

text \<open>The root token that was captured, and its revocation as the last event.\<close>

definition captured_root :: "in_env \<Rightarrow> in_event list \<Rightarrow> string \<Rightarrow> bool" where
  "captured_root env h t \<longleftrightarrow> (\<exists>b. captured_buffer env h b \<and> root_token_of b = Inr (Some t) \<and> t \<noteq> [])"

lemma captured_root_grows [simp]: "captured_root env h t \<Longrightarrow> captured_root env (h @ evs) t"
  unfolding captured_root_def using facts_grow(1) by blast

definition revoked_last :: "in_env \<Rightarrow> in_event list \<Rightarrow> bool" where
  "revoked_last env h \<longleftrightarrow> h \<noteq> [] \<and> (\<exists>t r. captured_root env h t \<and> last h = Bao (Revoke_self t r))"

text \<open>What a run that succeeds has set up.\<close>

definition installed :: "in_env \<Rightarrow> policy_texts \<Rightarrow> init_options \<Rightarrow> in_event list \<Rightarrow> bool" where
  "installed env ps o' h \<longleftrightarrow>
     (skip_controller_auth o' \<or> (\<exists>t. captured_root env h t \<and> (\<forall>w\<in>set (policy_writes ps). Bao (Bao_write t w (Inr ())) \<in> set h))) \<and>
     (\<exists>now. Bao (Set_annotations (final_stamps o' now) (Inr ())) \<in> set h)"

lemma unseal_with_wp:
  assumes "durable env o' b h \<and> token_unused h"
  shows "wp (unseal_with env b p i)
    (\<lambda>_ h'. durable env o' b h' \<and> token_unused h' \<and> (\<exists>evs. h' = h @ evs) \<and>
      (\<exists>s. share_of b i = Inr (Some s) \<and> Bao (Unseal p s (Inr ())) \<in> set h'))
    (\<lambda>e h'. durable env o' b h' \<and> token_unused h' \<and> (\<exists>x. e = Unseal_step x)) h"
proof -
  have "durable env o' b (h @ [Bao (Unseal p s r)]) \<and> token_unused (h @ [Bao (Unseal p s r)])" for s r
    using assms by (auto simp: durable_def token_unused_def init_allowed_def)
  then show ?thesis
    unfolding unseal_with_def wp_bind [of "wrap_err _ _"] wp_wrap_err
    by (intro wp_conseq [OF some_share_wp]) (use assms in \<open>auto simp: bao_call_def unseal_call_def wp split: sum.split\<close>)
qed

lemma post_init_unseal_wp:
  assumes "durable env o' b h \<and> token_unused h"
  shows "wp (post_init_unseal env b)
    (\<lambda>_ h'. durable env o' b h' \<and> token_unused h' \<and> first_pod_unsealed env h')
    (\<lambda>e h'. durable env o' b h' \<and> token_unused h' \<and> (\<exists>x. e = Unseal_step x)) h"
proof -
  have list: "durable env o' b (h @ [Bao (Pod_list r)]) \<and> token_unused (h @ [Bao (Pod_list r)])" for r
    using assms by (auto simp: durable_def token_unused_def init_allowed_def)
  have loop: "wp (for_each (unseal_with env b (hd pods)) [0..<3])
      (\<lambda>_ h'. durable env o' b h' \<and> token_unused h' \<and> first_pod_unsealed env h')
      (\<lambda>e h'. durable env o' b h' \<and> token_unused h' \<and> (\<exists>x. e = Unseal_step x)) (h @ [Bao (Pod_list (Inr pods))])" for pods
  proof (rule wp_conseq [OF wp_for_each_upto [where I = "\<lambda>ys h'. durable env o' b h' \<and> token_unused h' \<and>
        Bao (Pod_list (Inr pods)) \<in> set h' \<and>
        (\<forall>i\<in>set ys. \<exists>s. share_of b i = Inr (Some s) \<and> Bao (Unseal (hd pods) s (Inr ())) \<in> set h')"
        and E = "\<lambda>e h'. durable env o' b h' \<and> token_unused h' \<and> (\<exists>x. e = Unseal_step x)"]])
    fix ys i zs h'
    assume I: "durable env o' b h' \<and> token_unused h' \<and> Bao (Pod_list (Inr pods)) \<in> set h' \<and>
        (\<forall>i\<in>set ys. \<exists>s. share_of b i = Inr (Some s) \<and> Bao (Unseal (hd pods) s (Inr ())) \<in> set h')"
    then have "durable env o' b h' \<and> token_unused h'" by blast
    then show "wp (unseal_with env b (hd pods) i) (\<lambda>_ h'. durable env o' b h' \<and> token_unused h' \<and>
        Bao (Pod_list (Inr pods)) \<in> set h' \<and>
        (\<forall>i\<in>set (ys @ [i]). \<exists>s. share_of b i = Inr (Some s) \<and> Bao (Unseal (hd pods) s (Inr ())) \<in> set h'))
        (\<lambda>e h'. durable env o' b h' \<and> token_unused h' \<and> (\<exists>x. e = Unseal_step x)) h'"
      by (rule wp_conseq [OF unseal_with_wp]) (use I in fastforce)+
  next
    fix x h'
    assume "durable env o' b h' \<and> token_unused h' \<and> Bao (Pod_list (Inr pods)) \<in> set h' \<and>
        (\<forall>i\<in>set [0..<3]. \<exists>s. share_of b i = Inr (Some s) \<and> Bao (Unseal (hd pods) s (Inr ())) \<in> set h')"
    then show "durable env o' b h' \<and> token_unused h' \<and> first_pod_unsealed env h'"
      unfolding first_pod_unsealed_def durable_def by (auto intro!: exI [of _ b] exI [of _ pods])
  qed (use list in auto)
  show ?thesis
    unfolding post_init_unseal_def bao_call_def pod_list_def
    using loop list by (auto simp: wp split: sum.split)
qed

lemma bao_always:
  assumes "durable env o' b h" "first_pod_unsealed env h"
  shows "durable env o' b (h @ map Bao evs)"
proof -
  have "always (init_allowed env o') (h @ map Bao evs)"
  proof (rule always_grow [where P = "\<lambda>e. \<exists>x. e = Bao x"])
    show "init_allowed env o' (h @ p) e" if "\<exists>x. e = Bao x" for p e
      using that assms by (auto simp: durable_def init_allowed_def split: ob_event.split)
  qed (use assms in \<open>simp_all add: durable_def list_all_iff\<close>)
  then show ?thesis using assms by (simp add: durable_def)
qed

lemma post_init_setup_wp:
  assumes "durable env o' b h" "first_pod_unsealed env h"
  shows "wp (post_init_setup env ps o' t)
    (\<lambda>_ h'. durable env o' b h' \<and> first_pod_unsealed env h' \<and>
      (skip_controller_auth o' \<or> (\<forall>w\<in>set (policy_writes ps). Bao (Bao_write t w (Inr ())) \<in> set h')))
    (\<lambda>e h'. durable env o' b h' \<and> first_pod_unsealed env h' \<and> (\<forall>x. e \<noteq> Unseal_step x) \<and> e \<noteq> No_root) h"
proof -
  have "wp (setup_controller_auth (bao env h) ps (full_setup t))
      (\<lambda>_ evs. \<forall>w\<in>set (policy_writes ps). Bao_write t w (Inr ()) \<in> set evs) (\<lambda>_ _. True) []"
    by (rule wp_conseq [OF setup_wp]) (auto simp: all_written_def full_setup_def)
  then have "wp (setup_controller_auth (bao env h) ps (full_setup t))
      (\<lambda>_ evs. durable env o' b (h @ map Bao evs) \<and> first_pod_unsealed env (h @ map Bao evs) \<and>
        (\<forall>w\<in>set (policy_writes ps). Bao (Bao_write t w (Inr ())) \<in> set (h @ map Bao evs)))
      (\<lambda>_ evs. durable env o' b (h @ map Bao evs) \<and> first_pod_unsealed env (h @ map Bao evs)) []"
    by (rule wp_conseq) (use bao_always [OF assms] assms(2) in auto)
  then have "wp (wrap_err Setup_step (embed Bao (\<lambda>h. setup_controller_auth (bao env h) ps (full_setup t))))
      (\<lambda>_ h'. durable env o' b h' \<and> first_pod_unsealed env h' \<and>
        (\<forall>w\<in>set (policy_writes ps). Bao (Bao_write t w (Inr ())) \<in> set h'))
      (\<lambda>e h'. durable env o' b h' \<and> first_pod_unsealed env h' \<and> (\<forall>x. e \<noteq> Unseal_step x) \<and> e \<noteq> No_root) h"
    unfolding wp_wrap_err wp_embed by (rule wp_conseq) auto
  then show ?thesis
    unfolding post_init_setup_def using assms by (auto simp: wp elim: wp_conseq)
qed

lemma durable_root: "durable env o' b h \<Longrightarrow> root_token_of b = Inr (Some t) \<Longrightarrow> t \<noteq> [] \<Longrightarrow> captured_root env h t"
  by (auto simp: durable_def captured_root_def)

lemma use_token_wp:
  assumes "durable env o' b h" "first_pod_unsealed env h" "root_token_of b = Inr (Some t)" "t \<noteq> []"
  shows "wp (bind (post_init_setup env ps o' t) (\<lambda>_. post_init_annotate env o'))
    (\<lambda>_ h'. durable env o' b h' \<and> first_pod_unsealed env h' \<and> installed env ps o' h')
    (\<lambda>e h'. durable env o' b h' \<and> first_pod_unsealed env h' \<and> (\<forall>x. e \<noteq> Unseal_step x) \<and> e \<noteq> No_root) h"
proof (rule wp_bindI, rule wp_conseq [OF post_init_setup_wp [OF assms(1,2)]])
  fix u h'
  assume a: "durable env o' b h' \<and> first_pod_unsealed env h' \<and>
      (skip_controller_auth o' \<or> (\<forall>w\<in>set (policy_writes ps). Bao (Bao_write t w (Inr ())) \<in> set h'))"
  then have b: "durable env o' b (h' @ [Bao x])" "captured_root env (h' @ [Bao x]) t" for x
    using bao_always [of env o' b h' "[x]"] durable_root [of env o' b h', OF _ assms(3,4)] by simp_all
  show "wp (post_init_annotate env o')
      (\<lambda>_ h'. durable env o' b h' \<and> first_pod_unsealed env h' \<and> installed env ps o' h')
      (\<lambda>e h'. durable env o' b h' \<and> first_pod_unsealed env h' \<and> (\<forall>x. e \<noteq> Unseal_step x) \<and> e \<noteq> No_root) h'"
    using a b by (auto simp: post_init_annotate_def bao_call_def set_annotations_def wp installed_def split: sum.split)
qed

lemma installed_grows [simp]: "installed env ps o' h \<Longrightarrow> installed env ps o' (h @ evs)"
  unfolding installed_def using captured_root_grows by fastforce

lemma phase_c_wp:
  assumes "durable env o' b h \<and> token_unused h"
  shows "wp (phase_c env ps o' b)
    (\<lambda>_ h'. durable env o' b h' \<and> revoked_last env h' \<and> installed env ps o' h')
    (\<lambda>e h'. durable env o' b h' \<and> (if (\<exists>x. e = Unseal_step x) \<or> e = No_root then token_unused h' else revoked_last env h')) h"
proof -
  have revoke: "wp (finally_do (bind (post_init_setup env ps o' t) (\<lambda>_. post_init_annotate env o'))
      (bao_call env () (\<lambda>e. revoke_self e t)))
      (\<lambda>_ h'. durable env o' b h' \<and> revoked_last env h' \<and> installed env ps o' h')
      (\<lambda>e h'. durable env o' b h' \<and> (if (\<exists>x. e = Unseal_step x) \<or> e = No_root then token_unused h' else revoked_last env h')) k"
    if "durable env o' b k" "first_pod_unsealed env k" "root_token_of b = Inr (Some t)" "t \<noteq> []" for t k
  proof -
    have last: "durable env o' b (h' @ [Bao x])" if "durable env o' b h'" "first_pod_unsealed env h'" for h' x
      using bao_always [OF that, of "[x]"] by simp
    have r: "wp (bao_call env () (\<lambda>e. revoke_self e t)) Q E h' = (\<exists>r. r = on_revoke_self (bao env h') [] t \<and>
        Q r (h' @ [Bao (Revoke_self t r)]))" for Q E h'
      by (simp add: bao_call_def revoke_self_def wp)
    show ?thesis
      unfolding wp_finally_do
      by (rule wp_conseq [OF use_token_wp [OF that]])
        (use durable_root [OF _ that(3,4)] last in \<open>auto simp: r revoked_last_def\<close>)
  qed
  have token: "wp (bind (take_token b) (\<lambda>token.
    finally_do
       (bind (post_init_setup env ps o' token) (\<lambda>_. post_init_annotate env o'))
       (bao_call env () (\<lambda>e. revoke_self e token))))
    (\<lambda>_ h'. durable env o' b h' \<and> revoked_last env h' \<and> installed env ps o' h')
    (\<lambda>e h'. durable env o' b h' \<and> (if (\<exists>x. e = Unseal_step x) \<or> e = No_root then token_unused h' else revoked_last env h')) k"
    if "durable env o' b k \<and> token_unused k \<and> first_pod_unsealed env k" for k
    using that revoke
    by (auto simp: take_token_def bind_fail wp_fail split: sum.split option.split list.split split del: if_split)
  show ?thesis
    unfolding phase_c_def
    by (rule wp_bindI, rule wp_conseq [OF post_init_unseal_wp [OF assms]]) (use token in auto)
qed

section \<open>The ceremony\<close>

text \<open>An error at any point; after the commit the token is revoked last, unless it was never taken.\<close>

definition ended_with :: "in_env \<Rightarrow> init_options \<Rightarrow> init_error \<Rightarrow> in_event list \<Rightarrow> bool" where
  "ended_with env o' e h \<longleftrightarrow> always (init_allowed env o') h \<and> init_honest env o' e h \<and>
     (if (\<forall>c. e \<noteq> Irreversible c) \<or> (\<exists>x. e = Irreversible (Unseal_step x)) \<or> e = Irreversible No_root
      then token_unused h else revoked_last env h)"

lemma init_vault_wp:
  assumes "temp_names env"
  shows "wp (init_vault env ps o')
    (\<lambda>_ h. always (init_allowed env o') h \<and> all_encrypted env o' h \<and> committed o' h \<and> revoked_last env h \<and> installed env ps o' h)
    (ended_with env o') []"
proof -
  let ?Q = "\<lambda>_ h. always (init_allowed env o') h \<and> all_encrypted env o' h \<and> committed o' h \<and> revoked_last env h \<and> installed env ps o' h"
  let ?E = "ended_with env o'"
  have late: "wp (wrap_err Irreversible (phase_c env ps o' b)) ?Q ?E h"
    if "durable env o' b h \<and> token_unused h" for b h
    by (rule wp_wrap_errI, rule wp_conseq [OF phase_c_wp [OF that]]) (auto simp: durable_def init_honest_def ended_with_def split: if_splits)
  have early: "early env o' e h \<Longrightarrow> ?E e h" for e h by (auto simp: early_def ended_with_def)
  have b: "wp (bind (phase_b env o' cap) (\<lambda>_. wrap_err Irreversible (phase_c env ps o' (cap_buf cap)))) ?Q ?E h"
    if "script_done env o' pls cap h" "pls \<noteq> []" "cap_err cap = None" for pls cap h
    by (rule wp_bindI, rule wp_conseq [OF phase_b_wp [OF assms that]]) (use late early in auto)
  have check: "wp (bind (check_capture cap ended) (\<lambda>_. bind (phase_b env o' cap) (\<lambda>_.
      wrap_err Irreversible (phase_c env ps o' (cap_buf cap))))) ?Q ?E h"
    if "script_done env o' pls cap h" for pls cap ended h
    by (rule wp_bindI, rule wp_conseq [OF check_capture_wp [OF that]]) (use b that early in auto)
  have script: "wp (bind (run_init_script env o') (\<lambda>(cap, ended). bind (check_capture cap ended) (\<lambda>_. bind (phase_b env o' cap) (\<lambda>_.
      wrap_err Irreversible (phase_c env ps o' (cap_buf cap)))))) ?Q ?E h"
    if "ready env o' h \<and> may_start h" for h
    by (rule wp_bindI, rule wp_conseq [OF run_init_script_wp [OF assms]]) (use that check early in auto)
  have other: "?E e h" if "ready env o' h \<and> (\<forall>p c. e \<noteq> Preserved p c) \<and> (\<forall>c. e \<noteq> Lost c) \<and> (\<forall>c. e \<noteq> Irreversible c)" for e h
    by (rule early, rule other_early) (use that in \<open>auto simp: ready_def unstarted_def\<close>)
  show ?thesis
    unfolding init_vault_def
    by (rule wp_bindI, rule wp_conseq [OF pre_flight_wp]) (use script other in auto)
qed

text \<open>C1. The shares of an initialized vault are not lost without the error saying so: whatever the
  script, the file system, SOPS, git and the cluster answer, a run that ends without an error, or with an
  error after the commit, has encrypted each of the five captured shares, read it back, and committed
  the file (pushed it, unless that was declined).  A run that ends with the error that names a file has
  written a list of captured shares to that file, flushed and with mode 0600, before the file got its
  name, and has not removed it; the list holds every captured share unless one stands behind an
  empty slot, and it holds all five whenever the cause is not a payload that was refused.  A run that
  ends with the error that says the shares are lost has seen a payload and met a refused call while it
  wrote the file, or has captured no share or one behind an empty slot, and the latter only when the
  payload was refused.  A run that ends with any other error has seen no payload.\<close>

theorem init_keeps_shares:
  assumes "init_vault env ps o' [] = Some (res, h)" "temp_names env"
  shows "case res of
      Inr _ \<Rightarrow> all_encrypted env o' h \<and> committed o' h
    | Inl (Irreversible c) \<Rightarrow> all_encrypted env o' h \<and> committed o' h
    | Inl (Preserved p c) \<Rightarrow> (\<exists>b body ss. captured_buffer env h b \<and> kept p body h \<and> lists_shares body ss \<and> ss \<noteq> [] \<and>
        subseq ss (stored_shares b) \<and> (no_hole b \<longrightarrow> ss = stored_shares b) \<and>
        ((\<forall>e. c \<noteq> Parse e) \<longrightarrow> ss = stored_shares b \<and> length ss = 5))
    | Inl (Lost c) \<Rightarrow> (\<exists>pls. Script_run (Inr pls) \<in> set h \<and> pls \<noteq> []) \<and>
        (\<exists>b. captured_buffer env h b \<and> (dump_failed h \<or> \<not> no_hole b \<or> stored_shares b = [])) \<and>
        ((\<forall>e. c \<noteq> Parse e) \<longrightarrow> dump_failed h)
    | Inl e \<Rightarrow> (\<forall>pls. Script_run (Inr pls) \<in> set h \<longrightarrow> pls = [])"
proof (cases res)
  case (Inl e)
  then have "init_honest env o' e h"
    using wp_Inl [OF init_vault_wp [OF assms(2)]] assms(1) by (auto simp: ended_with_def)
  then show ?thesis unfolding Inl sum.case init_honest_def by (cases e) (simp_all only: init_error.case, blast)
next
  case (Inr u)
  then show ?thesis using wp_Inr [OF init_vault_wp [OF assms(2)]] assms(1) by auto
qed


section \<open>A run\<close>

definition demo_init_env :: in_env where
  "demo_init_env = \<lparr>json = (\<lambda>_. Some ([''a'', ''b'', ''c'', ''d'', ''e''], ''hvs.t'')), on_stat = (\<lambda>_ _. Inr ()),
     on_abs = (\<lambda>_ p. Inr p), on_git_dir = (\<lambda>_ _. False), on_diff = (\<lambda>_. Inr []), on_head = (\<lambda>_. Inr ''abc''),
     on_script = (\<lambda>_. Inr [''{}'']), on_lines = (\<lambda>_. [(Exit_status, ''0'')]), on_home = (\<lambda>_. Inr ''/r''),
     on_create = (\<lambda>_ d pat. Inr (path_join d pat)), on_file = (\<lambda>_ _. Inr ()),
     on_set_secret = (\<lambda>_ _ _ _. Inr ()), on_decrypt_file = (\<lambda>_ _. Inr ''abcde''),
     on_commit = (\<lambda>_ _ _. (''f00'', Some ''rejected'')), bao = (\<lambda>_. demo_env\<lparr>on_get_annotation := \<lambda>_ _. Inr []\<rparr>)\<rparr>"

definition demo_init_options :: init_options where
  "demo_init_options = \<lparr>cluster_name = ''dc1'', fleet_repo = ''/fleet'', has_sops = True, has_openbao = True,
     has_runner = True, has_git = True, has_k8s = True, skip_controller_auth = False, no_push = False, shares_out = []\<rparr>"

lemma demo_temp_names: "temp_names demo_init_env"
  by (auto simp: temp_names_def demo_init_env_def path_join_def suffix_def)

lemma demo_file_or: "succeeds (file_or demo_init_env cl c)"
  unfolding file_or_def file_op_def
  by (rule succeeds_bind_const [where a = "Inr ()"]) (simp_all add: demo_init_env_def succeeds_basic)

lemma demo_write: "succeeds (write_shares_file demo_init_env p body True)"
proof -
  have g: "succeeds (git_check demo_init_env d)" for d
    unfolding git_check_def guard_def by (rule succeeds_bind_const [where a = False]) (simp_all add: demo_init_env_def succeeds_basic)
  have a: "succeeds (assert_not_in_git demo_init_env p)"
    unfolding assert_not_in_git_def
    by (rule succeeds_bind_const [where a = "Inr p"])
      (simp add: demo_init_env_def, unfold bind_check_err, intro succeeds_for_each g)
  have i: "succeeds (ignored demo_init_env c)" for c
    unfolding ignored_def file_op_def by (intro succeeds_rule)
  show ?thesis
    unfolding write_shares_file_def publish_def if_True
    by (rule succeeds_bind, rule a, rule succeeds_bind, rule demo_file_or,
        rule succeeds_bind_const [where a = "Inr (path_join (dir_of p) (filepath_base p @ ''.*.tmp''))"])
      (simp add: demo_init_env_def, unfold bind_check_err, intro succeeds_bind demo_file_or i)
qed


definition demo_dump :: string where "demo_dump = ''/r/.kube-dc/openbao-emergency-shares-dc1.yaml''"

lemma demo_dump_first: "\<exists>ps. dump_paths ''/r'' ''dc1'' = demo_dump # ps"
proof -
  have "dump_base ''dc1'' = ''openbao-emergency-shares-dc1''"
    by (simp add: dump_base_def path_escape_def path_plain_def Let_def)
  then show ?thesis
    by (simp add: dump_paths_def max_attempts_def upt_conv_Cons demo_dump_def dump_name_def path_join_def)
qed

definition demo_buffer :: secret_buffer where
  "demo_buffer = \<lparr>slots = map Some [''a'', ''b'', ''c'', ''d'', ''e''], root_slot = Some ''hvs.t'', was_scrubbed = False\<rparr>"

lemma demo_load: "load_buffer (json demo_init_env) ''{}'' new_buffer = (None, demo_buffer)"
proof -
  have "trim_space ''{}'' = ''{}''" by code_simp
  then show ?thesis
    by (simp add: load_buffer_def demo_init_env_def new_buffer_def set_share_def set_root_token_def demo_buffer_def
        enumerate_eq_zip numeral_eq_Suc)
qed

lemma demo_dump_run: "\<exists>h'. emergency_dump demo_init_env demo_init_options demo_buffer h = Some (Inr demo_dump, h')"
proof -
  obtain body where body: "render_shares demo_buffer (provenance demo_init_options) = Inr body"
    by (simp add: render_shares_def demo_buffer_def share_count_def share_of_def upt_rec numeral_eq_Suc)
  obtain ps where ps: "dump_paths ''/r'' ''dc1'' = demo_dump # ps" using demo_dump_first by blast
  obtain u h' where "write_shares_file demo_init_env demo_dump body True (h @ [Home_dir (Inr ''/r'')]) = Some (Inr u, h')"
    using demo_write [of demo_dump body] unfolding succeeds_def by blast
  then have "try_names demo_init_env body (demo_dump # ps) (h @ [Home_dir (Inr ''/r'')]) = Some (Inr demo_dump, h')"
    by (simp add: bind_def attempt_def ret_def)
  then show ?thesis
    unfolding emergency_dump_def body
    by (simp add: bind_def ask_def check_err_def ret_def demo_init_env_def demo_init_options_def ps [unfolded demo_init_env_def])
qed

definition demo_capture :: capture where
  "demo_capture = \<lparr>cap_buf = demo_buffer, cap_err = None, captured = True, wah_path = demo_dump, wah_err = None\<rparr>"

lemma demo_script: "\<exists>h'. run_init_script demo_init_env demo_init_options h = Some (Inr (demo_capture, Inr 0), h')"
proof -
  obtain h' where d: "emergency_dump demo_init_env demo_init_options demo_buffer (h @ [Script_run (Inr [''{}''])]) = Some (Inr demo_dump, h')"
    using demo_dump_run by blast
  have c: "capture_all demo_init_env demo_init_options no_capture [''{}''] (h @ [Script_run (Inr [''{}''])]) = Some (Inr demo_capture, h')"
    using d demo_load
    by (simp add: capture_payload_def no_capture_def bind_def attempt_def ret_def demo_capture_def)
  have "drain [(Exit_status, ''0'')] = ([], Inr 0)"
  proof -
    have "trim_space ''0'' = ''0''" by code_simp
    then show ?thesis by (simp add: drain_def parse_exit_code_def atoi_def re_digit_def Let_def)
  qed
  then show ?thesis
    using c unfolding run_init_script_def
    by (simp add: bind_def ask_def check_err_def ret_def demo_init_env_def)
qed


lemma demo_pre_flight: "\<exists>h'. pre_flight demo_init_env demo_init_options [] = Some (Inr (), h')"
  by (simp add: pre_flight_def validate_init_def not_finalized_def bao_call_def get_annotation_def bind_def ask_def
      check_err_def ret_def guard_def wrap_err_def embed_def demo_init_env_def demo_init_options_def)

lemma demo_verify:
  assumes "i \<in> set [0..<5]"
  shows "succeeds (write_and_verify demo_init_env path demo_buffer i)"
proof -
  obtain s where s: "share_of demo_buffer i = Inr (Some s)" "s \<noteq> []" "contains ''abcde'' s"
    using assms by (auto simp: share_of_def demo_buffer_def upt_rec numeral_eq_Suc contains_Cons)
  then show ?thesis
    by (simp add: succeeds_def write_and_verify_def some_share_def bind_def ask_def check_err_def ret_def guard_def
        demo_init_env_def)
qed

lemma demo_phase_b:
  "\<exists>h'. phase_b demo_init_env demo_init_options demo_capture h = Some (Inl (Preserved demo_dump (Commit_failed ''f00'')), h')"
proof -
  have all: "\<forall>i\<in>set is. i \<in> set [0..<5] \<Longrightarrow>
      \<exists>h'. for_each (write_and_verify demo_init_env path demo_buffer) is k = Some (Inr (), h')" for "is" path k
  proof (induction "is" arbitrary: k)
    case (Cons i "is")
    obtain k' where "write_and_verify demo_init_env path demo_buffer i k = Some (Inr (), k')"
      using demo_verify [of i path] Cons.prems unfolding succeeds_def by (metis (full_types) list.set_intros(1) old.unit.exhaust)
    then show ?case using Cons by (simp add: bind_def)
  qed (simp add: ret_def)
  obtain h' where "for_each (write_and_verify demo_init_env (init_path demo_init_options) demo_buffer) [0..<5] h = Some (Inr (), h')"
    using all [of "[0..<5]"] by blast
  then show ?thesis
    unfolding phase_b_def commit_shares_def demo_capture_def
    by (simp add: wrap_err_def bind_def ask_def ret_def guard_def fail_def custody_def demo_init_env_def demo_init_options_def)
qed

lemma demo_init_run:
  "\<exists>h. init_vault demo_init_env ps demo_init_options [] = Some (Inl (Preserved demo_dump (Commit_failed ''f00'')), h)"
proof -
  obtain h1 where 1: "pre_flight demo_init_env demo_init_options [] = Some (Inr (), h1)"
    using demo_pre_flight by blast
  obtain h2 where 2: "run_init_script demo_init_env demo_init_options h1 = Some (Inr (demo_capture, Inr 0), h2)"
    using demo_script by blast
  obtain h3 where 3: "phase_b demo_init_env demo_init_options demo_capture h2 = Some (Inl (Preserved demo_dump (Commit_failed ''f00'')), h3)"
    using demo_phase_b by blast
  have "check_capture demo_capture (Inr 0) h2 = Some (Inr ''hvs.t'', h2)"
    by (simp add: check_capture_def demo_capture_def demo_buffer_def share_count_def root_token_of_def ret_def)
  with 1 2 3 show ?thesis by (simp add: init_vault_def bind_def)
qed

lemma init_keeps_shares_witness:
  "\<exists>h b body ss. init_vault demo_init_env demo_policies demo_init_options [] = Some (Inl (Preserved demo_dump (Commit_failed ''f00'')), h) \<and>
     captured_buffer demo_init_env h b \<and> kept demo_dump body h \<and> lists_shares body ss \<and> ss = stored_shares b \<and> length ss = 5"
proof -
  obtain h where run: "init_vault demo_init_env demo_policies demo_init_options [] = Some (Inl (Preserved demo_dump (Commit_failed ''f00'')), h)"
    using demo_init_run by blast
  show ?thesis using init_keeps_shares [OF run demo_temp_names] run by auto
qed


end
