(* ===== verification/Net_Addr.thy ===== *)
theory Net_Addr
  imports Go_Strings "HOL-Library.Word"
begin

text \<open>
  What the validators use of Go's \<open>net\<close> package: \<open>net.ParseIP\<close>, \<open>net.ParseCIDR\<close>,
  \<open>IP.To4\<close>, \<open>IP.String\<close> on IPv4, \<open>IPNet.Contains\<close> and \<open>IPMask.Size\<close>, together with the
  address arithmetic of \<open>clusterinit/publicanchor.go\<close> (\<open>ipAdd\<close>, \<open>isUsableHostIP\<close>,
  \<open>ipInRanges\<close>).  An address is its 16 byte form, a \<open>128 word\<close>, as \<open>ParseIP\<close> returns it;
  an IPv4 address stands in its last 32 bits behind \<open>0xffff\<close>, and \<open>to4\<close> reads it back.
\<close>

unbundle bit_operations_syntax

type_synonym ip4 = "32 word"
type_synonym ip = "128 word"

section \<open>Parsing\<close>

definition dec_value :: "string \<Rightarrow> int" where
  "dec_value ds = foldl (\<lambda>n c. n * 10 + (of_char c - 48)) 0 ds"

text \<open>One field of a dotted address: decimal, no leading zero, at most 255.\<close>

definition octet :: "string \<Rightarrow> int option" where
  "octet f =
     (if f \<noteq> [] \<and> list_all re_digit f \<and> (hd f = CHR ''0'' \<longrightarrow> tl f = []) \<and> dec_value f \<le> 255
      then Some (dec_value f) else None)"

definition ip4_of :: "int \<Rightarrow> int \<Rightarrow> int \<Rightarrow> int \<Rightarrow> ip4" where
  "ip4_of a b c d = of_int (((a * 256 + b) * 256 + c) * 256 + d)"

definition parse_ipv4 :: "string \<Rightarrow> ip4 option" where
  "parse_ipv4 s = (case map octet (split_on (CHR ''.'') s) of
     [Some a, Some b, Some c, Some d] \<Rightarrow> Some (ip4_of a b c d)
   | _ \<Rightarrow> None)"

definition hex_digit :: "char \<Rightarrow> bool" where
  "hex_digit c \<longleftrightarrow> (let n = of_char c :: nat in
     48 \<le> n \<and> n \<le> 57 \<or> 97 \<le> n \<and> n \<le> 102 \<or> 65 \<le> n \<and> n \<le> 70)"

definition hex_value :: "string \<Rightarrow> int" where
  "hex_value ds = foldl (\<lambda>n c. n * 16 + (let m = of_char c in
     if m \<le> 57 then m - 48 else if m \<le> 70 then m - 55 else m - 87)) 0 ds"

text \<open>
  The loop of Go's IPv6 parser: groups of hex digits separated by colons, at most one \<open>::\<close>
  (kept as the number of groups before it), and possibly a dotted IPv4 address in the last
  two groups.
\<close>

function v6_groups :: "string \<Rightarrow> int list \<Rightarrow> nat option \<Rightarrow> (int list \<times> nat option) option" where
  "v6_groups s gs gap =
     (if 8 \<le> length gs then (if s = [] then Some (gs, gap) else None)
      else let ds = takeWhile hex_digit s; r = dropWhile hex_digit s; gs' = gs @ [hex_value ds] in
        if ds = [] \<or> 4 < length ds then None
        else if r = [] then Some (gs', gap)
        else if hd r = CHR ''.'' then
          (if gap = None \<and> length gs \<noteq> 6 \<or> 6 < length gs then None
           else map_option (\<lambda>v. (gs @ [uint v div 65536, uint v mod 65536], gap)) (parse_ipv4 s))
        else if hd r \<noteq> CHR '':'' \<or> tl r = [] then None
        else if hd (tl r) = CHR '':'' then
          (if gap \<noteq> None then None
           else if tl (tl r) = [] then Some (gs', Some (length gs'))
           else v6_groups (tl (tl r)) gs' (Some (length gs')))
        else v6_groups (tl r) gs' gap)"
  by pat_completeness auto
termination
  by (relation "measure (\<lambda>(s, gs, gap). 8 - length gs)") auto

declare v6_groups.simps [simp del]

definition v6_expand :: "int list \<times> nat option \<Rightarrow> int list option" where
  "v6_expand r = (case r of (gs, gap) \<Rightarrow>
     if length gs < 8
     then map_option (\<lambda>e. take e gs @ replicate (8 - length gs) 0 @ drop e gs) gap
     else if gap \<noteq> None then None else Some gs)"

definition ip_of_groups :: "int list \<Rightarrow> ip" where
  "ip_of_groups gs = of_int (foldl (\<lambda>n g. n * 65536 + g) 0 gs)"

definition parse_ipv6 :: "string \<Rightarrow> ip option" where
  "parse_ipv6 s =
     (if CHR ''%'' \<in> set s then None
      else if has_prefix s ''::'' then
        (if drop 2 s = [] then Some 0
         else map_option ip_of_groups (Option.bind (v6_groups (drop 2 s) [] (Some 0)) v6_expand))
      else map_option ip_of_groups (Option.bind (v6_groups s [] None) v6_expand))"

text \<open>\<open>netip.ParseAddr\<close> decides the family at the first of dot, colon and percent.  A zone
  makes \<open>ParseIP\<close> and \<open>ParseCIDR\<close> refuse, so it is refused here.\<close>

datatype addr = V4 ip4 | V6 ip

definition parse_addr :: "string \<Rightarrow> addr option" where
  "parse_addr s = (case find (\<lambda>c. c = CHR ''.'' \<or> c = CHR '':'' \<or> c = CHR ''%'') s of
     None \<Rightarrow> None
   | Some c \<Rightarrow>
       if c = CHR ''.'' then map_option V4 (parse_ipv4 s)
       else if c = CHR '':'' then map_option V6 (parse_ipv6 s) else None)"

definition ip_of4 :: "ip4 \<Rightarrow> ip" where
  "ip_of4 a = push_bit 32 0xffff OR ucast a"

fun as16 :: "addr \<Rightarrow> ip" where
  "as16 (V4 a) = ip_of4 a"
| "as16 (V6 a) = a"

definition parse_ip :: "string \<Rightarrow> ip option" where
  "parse_ip s = map_option as16 (parse_addr s)"

definition to4 :: "ip \<Rightarrow> ip4 option" where
  "to4 x = (if drop_bit 32 x = 0xffff then Some (ucast x) else None)"

text \<open>\<open>net.ParseIP(s).To4()\<close>; the method gives nil on nil.\<close>

definition parse_ip4 :: "string \<Rightarrow> ip4 option" where
  "parse_ip4 s = Option.bind (parse_ip s) to4"

text \<open>\<open>IP.String\<close> of an IPv4 address.\<close>

definition dotted :: "ip4 \<Rightarrow> string" where
  "dotted a = join ''.'' (map (\<lambda>i. digits_of (nat (uint a div 256 ^ i mod 256))) [3, 2, 1, 0])"

section \<open>Networks\<close>

text \<open>
  An \<open>*net.IPNet\<close> as \<open>ParseCIDR\<close> makes it: the masked address and the prefix length, in four
  bytes when the text was dotted and in sixteen otherwise.
\<close>

datatype ip_net = Net4 ip4 nat | Net6 ip nat

definition mask4 :: "nat \<Rightarrow> ip4" where
  "mask4 k = NOT (mask (32 - k))"

definition mask6 :: "nat \<Rightarrow> ip" where
  "mask6 k = NOT (mask (128 - k))"

text \<open>Go's \<open>dtoi\<close>: decimal digits only, below \<open>0xffffff\<close>.\<close>

definition prefix_len :: "string \<Rightarrow> int option" where
  "prefix_len s = (if s \<noteq> [] \<and> list_all re_digit s \<and> dec_value s < 0xffffff
     then Some (dec_value s) else None)"

definition parse_cidr :: "string \<Rightarrow> (ip \<times> ip_net) option" where
  "parse_cidr s = (case cut (CHR ''/'') s of
     None \<Rightarrow> None
   | Some (a, m) \<Rightarrow> (case (parse_addr a, prefix_len m) of
       (Some (V4 x), Some n) \<Rightarrow> if n \<le> 32 then Some (ip_of4 x, Net4 (x AND mask4 (nat n)) (nat n)) else None
     | (Some (V6 x), Some n) \<Rightarrow> if n \<le> 128 then Some (x, Net6 (x AND mask6 (nat n)) (nat n)) else None
     | _ \<Rightarrow> None))"

text \<open>\<open>cidr.IP.To4()\<close> and the first result of \<open>cidr.Mask.Size()\<close>.\<close>

fun net_to4 :: "ip_net \<Rightarrow> ip4 option" where
  "net_to4 (Net4 n k) = Some n"
| "net_to4 (Net6 n k) = to4 n"

fun net_ones :: "ip_net \<Rightarrow> nat" where
  "net_ones (Net4 n k) = k"
| "net_ones (Net6 n k) = k"

text \<open>
  \<open>IPNet.Contains\<close>.  A network that is written in sixteen bytes but lies in the IPv4 range
  is compared in four bytes, with the last four bytes of its mask.
\<close>

fun net_contains :: "ip_net \<Rightarrow> ip \<Rightarrow> bool" where
  "net_contains (Net4 n k) x = (case to4 x of
     None \<Rightarrow> False | Some a \<Rightarrow> n AND mask4 k = a AND mask4 k)"
| "net_contains (Net6 n k) x = (case (to4 n, to4 x) of
     (Some m, Some a) \<Rightarrow> m AND ucast (mask6 k) = a AND ucast (mask6 k)
   | (None, None) \<Rightarrow> n AND mask6 k = x AND mask6 k
   | _ \<Rightarrow> False)"

section \<open>Address arithmetic\<close>

text \<open>\<open>isUsableHostIP\<close>: in the network and, where the network has them, neither its network nor
  its broadcast address.\<close>

fun usable_host :: "ip \<Rightarrow> ip_net \<Rightarrow> bool" where
  "usable_host x (Net4 n k) =
     (net_contains (Net4 n k) x \<and>
      (k < 31 \<longrightarrow> to4 x \<noteq> Some n \<and> to4 x \<noteq> Some (n OR mask (32 - k))))"
| "usable_host x (Net6 n k) = net_contains (Net6 n k) x"

definition ip_in_ranges :: "ip \<Rightarrow> (ip4 \<times> ip4) list \<Rightarrow> bool" where
  "ip_in_ranges x rs = (case to4 x of
     None \<Rightarrow> False
   | Some a \<Rightarrow> list_ex (\<lambda>(lo, hi). lo \<le> a \<and> a \<le> hi) rs)"

section \<open>Facts\<close>

lemma ip_of4_parts:
  "drop_bit 32 (push_bit 32 y OR ucast a :: ip) = take_bit 96 y"
  "ucast (push_bit 32 y OR ucast a :: ip) = (a :: ip4)"
  by (rule bit_word_eqI, auto simp: bit_simps dest: bit_imp_le_length)+

lemma to4_ip_of4 [simp]: "to4 (ip_of4 a) = Some a"
  unfolding to4_def ip_of4_def ip_of4_parts by simp

lemma ip_of4_inject [simp]: "ip_of4 a = ip_of4 b \<longleftrightarrow> a = b"
  by (metis option.inject to4_ip_of4)


text \<open>Addresses compare as their values: \<open>ipToU32\<close> order on the parsed form.\<close>

lemma to4_SomeD: "to4 x = Some a \<Longrightarrow> x = ip_of4 a"
proof -
  assume "to4 x = Some a"
  then have d: "drop_bit 32 x = 0xffff" and u: "a = ucast x"
    by (auto simp: to4_def split: if_splits)
  have "x = push_bit 32 (drop_bit 32 x) OR take_bit 32 x"
    by (rule bit_word_eqI) (auto simp: bit_simps)
  also have "take_bit 32 x = ucast a"
    unfolding u by (rule bit_word_eqI) (auto simp: bit_simps)
  finally show ?thesis by (simp add: ip_of4_def d)
qed

lemma to4_eq_iff: "to4 x = Some a \<longleftrightarrow> x = ip_of4 a"
  using to4_SomeD by auto

text \<open>A masked IPv4 network holds exactly the addresses from its network to its broadcast
  address.\<close>

lemma masked_unat: "unat (x AND NOT (mask m) :: ip4) = unat x div 2 ^ m * 2 ^ m"
proof -
  have x: "x AND NOT (mask m) = drop_bit m x * of_nat (2 ^ m)"
    by (simp add: push_bit_eq_mult [symmetric]) (rule bit_word_eqI, auto simp: bit_simps)
  have lt: "unat x < 2 ^ 32" using unsigned_less [of x] by simp
  then have "unat x div 2 ^ m * 2 ^ m < 2 ^ 32"
    by (metis div_times_less_eq_dividend le_less_trans)
  moreover have dx: "unat (drop_bit m x) = unat x div 2 ^ m"
    unfolding unat_drop_bit_eq by (rule drop_bit_eq_div)
  ultimately have "unat (drop_bit m x) * 2 ^ m < 2 ^ 32" by (simp only: dx)
  then have "unat (drop_bit m x * of_nat (2 ^ m)) = unat (drop_bit m x) * 2 ^ m"
    by (simp add: unat_word_ariths unsigned_of_nat take_bit_eq_mod mod_mult_right_eq del: of_nat_power)
  then show ?thesis unfolding x dx .
qed

lemma or_mask_unat:
  assumes "m \<le> 32"
  shows "unat ((x AND NOT (mask m)) OR mask m :: ip4) = unat x div 2 ^ m * 2 ^ m + (2 ^ m - 1)"
proof -
  have "(x AND NOT (mask m)) OR mask m = (x AND NOT (mask m)) + mask m"
    by (rule disjunctive_add [symmetric]) (auto simp: bit_simps)
  moreover have "unat (mask m :: ip4) = 2 ^ m - 1"
  proof -
    have "(2 :: nat) ^ m \<le> 2 ^ 32" using assms by (intro power_increasing) auto
    then have "(2 :: nat) ^ m - 1 < 2 ^ 32" by simp
    moreover have "(mask m :: ip4) = of_nat (2 ^ m - 1)"
      by (simp add: mask_eq_exp_minus_1 of_nat_diff)
    ultimately show ?thesis by (simp add: unsigned_of_nat take_bit_eq_mod del: of_nat_diff)
  qed
  moreover have "unat x div 2 ^ m * 2 ^ m + (2 ^ m - 1) < 2 ^ 32"
  proof -
    have e: "(2 :: nat) ^ 32 = 2 ^ (32 - m) * 2 ^ m"
      using assms by (simp flip: power_add)
    have "unat x < 2 ^ (32 - m) * 2 ^ m" unfolding e [symmetric] using unsigned_less [of x] by simp
    then have "unat x div 2 ^ m < 2 ^ (32 - m)" by (simp add: less_mult_imp_div_less)
    then have "Suc (unat x div 2 ^ m) * 2 ^ m \<le> 2 ^ 32" unfolding e by (intro mult_right_mono) auto
    then show ?thesis by simp
  qed
  ultimately show ?thesis by (simp add: unat_word_ariths masked_unat)
qed

text \<open>
  A masked IPv4 network holds exactly the addresses from its network to its broadcast address.
\<close>

lemma same_block: "(x :: nat) div d = y div d \<longleftrightarrow> x div d * d \<le> y \<and> y \<le> x div d * d + (d - 1)" if "0 < d"
proof -
  have "x div d = y div d \<longleftrightarrow> x div d * d \<le> y \<and> y < Suc (x div d) * d"
    using that by (metis div_nat_eqI div_times_less_eq_dividend dividend_less_div_times less_Suc_eq_le mult.commute mult_Suc not_less)
  then show ?thesis using that by auto
qed

lemma contains4_iff:
  assumes "k \<le> 32" "n AND mask4 k = n"
  shows "net_contains (Net4 n k) (ip_of4 a) \<longleftrightarrow> n \<le> a \<and> a \<le> n OR mask (32 - k)"
proof -
  define d :: nat where "d = 2 ^ (32 - k)"
  have d: "0 < d" by (simp add: d_def)
  have n: "unat n div d * d = unat n"
    using arg_cong [OF assms(2), of unat] by (simp add: mask4_def masked_unat d_def)
  have b: "unat (n OR mask (32 - k)) = unat n div d * d + (d - 1)"
    using or_mask_unat [of "32 - k" n] assms(2) by (simp add: mask4_def d_def)
  have "net_contains (Net4 n k) (ip_of4 a) \<longleftrightarrow> unat n div d * d = unat a div d * d"
    unfolding net_contains.simps by (simp add: mask4_def word_unat_eq_iff masked_unat d_def)
  also have "\<dots> \<longleftrightarrow> unat n div d = unat a div d" using d by simp
  also have "\<dots> \<longleftrightarrow> n \<le> a \<and> a \<le> n OR mask (32 - k)"
    using same_block [OF d, of "unat n" "unat a"] unfolding word_le_nat_alt b n by simp
  finally show ?thesis .
qed

lemma contains_to4: "net_contains (Net4 n k) x \<Longrightarrow> \<exists>a. x = ip_of4 a"
  by (auto split: option.splits simp: to4_eq_iff)

section \<open>Dotted text read back\<close>

lemma dec_value_digits: "dec_value (digits_of n) = int n"
  unfolding dec_value_def by (rule foldl_digits)

lemma digits_of_zero: "hd (digits_of n) = CHR ''0'' \<Longrightarrow> n = 0"
proof (induction n rule: digits_of.induct)
  case (1 n)
  show ?case
  proof (cases "n < 10")
    case True
    then have "(of_char (hd (digits_of n)) :: nat) = 48 + n"
      by (simp add: digits_of.simps [of n] of_char_digit)
    with 1(2) show ?thesis by simp
  next
    case False
    then have "hd (digits_of n) = hd (digits_of (n div 10))"
      using digits_of_ok [of "n div 10"] by (simp add: digits_of.simps [of n] hd_append)
    with 1 False have "n div 10 = 0" by simp
    with False show ?thesis by simp
  qed
qed

lemma octet_digits: "n \<le> 255 \<Longrightarrow> octet (digits_of n) = Some (int n)"
  using digits_of_ok [of n] digits_of_zero [of n]
  by (auto simp: octet_def dec_value_digits digits_of.simps [of 0])

lemma dotted_split: "split_on (CHR ''.'') (dotted a) =
    map (\<lambda>i. digits_of (nat (uint a div 256 ^ i mod 256))) [3, 2, 1, 0]"
proof -
  have "CHR ''.'' \<notin> set (digits_of n)" for n
    using digits_of_ok [of n] by (auto simp: list_all_iff re_digit_def)
  then show ?thesis unfolding dotted_def by (intro split_join) auto
qed

lemma base256:
  fixes n :: int
  assumes "0 \<le> n" "n < 256 ^ 4"
  shows "((n div 256 ^ 3 mod 256 * 256 + n div 256 ^ 2 mod 256) * 256 + n div 256 mod 256) * 256
    + n mod 256 = n"
proof -
  have "n div 256 ^ 3 mod 256 = n div 256 ^ 3" using assms by simp
  moreover have "n div 256 ^ 3 = n div 256 ^ 2 div 256" "n div 256 ^ 2 = n div 256 div 256"
    by (simp_all flip: zdiv_zmult2_eq)
  ultimately show ?thesis by (simp only: div_mult_mod_eq)
qed

lemma parse_dotted [simp]: "parse_ipv4 (dotted a) = Some a"
proof -
  have octets: "octet (digits_of (nat (m mod 256))) = Some (m mod 256)" for m
    using octet_digits [of "nat (m mod 256)"] by simp
  have "0 \<le> uint a" "uint a < 256 ^ 4" using uint_lt2p [of a] by simp_all
  then have "ip4_of (uint a div 256 ^ 3 mod 256) (uint a div 256 ^ 2 mod 256)
      (uint a div 256 ^ 1 mod 256) (uint a div 256 ^ 0 mod 256) = a"
    unfolding ip4_of_def by (simp only: base256 power_one_right power_0 div_by_1) simp
  with octets show ?thesis
    unfolding parse_ipv4_def dotted_split by (simp del: power_numeral)
qed

lemma parse_ip4_dotted [simp]: "parse_ip (dotted a) = Some (ip_of4 a)" "parse_ip4 (dotted a) = Some a"
proof -
  have digits: "\<forall>c\<in>set (digits_of n). \<not> (c = CHR ''.'' \<or> c = CHR '':'' \<or> c = CHR ''%'')" for n
    using digits_of_ok [of n] by (auto simp: list_all_iff re_digit_def)
  have skip: "\<forall>c\<in>set u. \<not> P c \<Longrightarrow> find P (u @ v) = find P v" for P :: "char \<Rightarrow> bool" and u v
    by (induction u) auto
  have "find (\<lambda>c. c = CHR ''.'' \<or> c = CHR '':'' \<or> c = CHR ''%'') (digits_of n @ CHR ''.'' # s)
      = Some (CHR ''.'')" for n s
    by (subst skip [OF digits]) simp
  then have "parse_addr (dotted a) = Some (V4 a)"
    unfolding parse_addr_def using parse_dotted [of a] by (simp add: dotted_def)
  then show "parse_ip (dotted a) = Some (ip_of4 a)" by (simp add: parse_ip_def)
  then show "parse_ip4 (dotted a) = Some a" by (simp add: parse_ip4_def)
qed

end
