(* ===== verification/Preset.thy ===== *)
theory Preset
  imports Net_Addr
begin

text \<open>
  The preset tables of \<open>clusterinit/preset.go\<close> and the environment map that \<open>bootstrap init\<close>
  builds from them: \<open>SpecFor\<close>, \<open>resolveAddressLayer\<close>, \<open>addressLayerEnv\<close>, \<open>EnvMapFor\<close>,
  \<open>ResolvedEnvFor\<close>, and from \<open>publicanchor.go\<close> the derivation of the public anchors
  (\<open>derivePublicAnchorEnv\<close>).  An environment is a finite map from keys to values, as the Go
  code has it; the tables are transcribed key by key.
\<close>

type_synonym env_map = "string \<rightharpoonup> string"

text \<open>\<open>m[k]\<close>, which is empty for an absent key, and \<open>strings.TrimSpace(m[k])\<close>.\<close>

definition env_at :: "env_map \<Rightarrow> string \<Rightarrow> string" where
  "env_at m k = (case m k of None \<Rightarrow> [] | Some v \<Rightarrow> v)"

definition env_text :: "env_map \<Rightarrow> string \<Rightarrow> string" where
  "env_text m k = trim_space (env_at m k)"

text \<open>\<open>splitNonEmpty\<close>: the trimmed non-empty fields of a comma separated value.\<close>

definition split_non_empty :: "string \<Rightarrow> string list" where
  "split_non_empty csv = filter (\<lambda>s. s \<noteq> []) (map trim_space (split_on (CHR '','') csv))"

section \<open>Options\<close>

datatype preset = Internal_Only | Cloud_VLAN | Cloud_Public_VLAN | Custom_Preset | Other_Preset string

text \<open>The fields of \<open>InitOptions\<close> that decide the environment and the front door.  The map of
  \<open>--set\<close> values is an association list, its keys the Go map's keys.\<close>

record front_options =
  fo_preset :: preset
  fo_sets :: "(string \<times> string) list"
  fo_control_plane_nodes :: "string list"
  fo_ingress_layer :: string
  fo_ingress_nodes :: "string list"

section \<open>Preset tables\<close>

record preset_spec =
  sp_defaults :: env_map
  sp_required :: "string list"
  sp_kustomizations :: "string list"

definition network_defaults :: env_map where
  "network_defaults = map_of
    [(''POD_CIDR'', ''10.100.0.0/16''), (''POD_GATEWAY'', ''10.100.0.1''),
     (''SVC_CIDR'', ''10.101.0.0/16''), (''K8S_SERVICE_IP'', ''10.101.0.1''),
     (''CLUSTER_DNS'', ''10.101.0.11''), (''JOIN_CIDR'', ''172.30.0.0/22''),
     (''INFRA_ATTACHMENT_SUBNET'', ''infra-net''), (''INFRA_ATTACHMENT_CIDR'', ''100.66.0.0/16''),
     (''INFRA_ATTACHMENT_GATEWAY'', ''100.66.0.1''),
     (''INFRA_ATTACHMENT_SECURITY_GROUP'', ''infra-lock-{namespace}'')]"

definition monitoring_defaults :: env_map where
  "monitoring_defaults = map_of
    [(''PROM_STORAGE'', ''20Gi''), (''PROM_RETENTION'', ''365d''), (''PROM_RETENTION_SIZE'', ''17GiB'')]"

definition platform_endpoint_defaults :: env_map where
  "platform_endpoint_defaults = map_of
    [(''MANAGEMENT_API_MODE'', ''auto''), (''KUBE_API_INTERNAL_VIP'', []),
     (''PLATFORM_ENDPOINT_KUBE_API_ENABLED'', ''false'')]"

definition anchor_defaults :: env_map where
  "anchor_defaults = map_of
    [(''EXT_NET_ANCHOR_IPS'', []), (''EXT_NET_ANCHOR_INTERFACE'', ''br-ext-cloud''),
     (''EXT_NET_ANCHOR_REQUIRED'', ''false''), (''EXT_NET_NODE_EGRESS_ENABLED'', ''false''),
     (''EXT_NET_ANCHOR_VLAN'', []), (''EXT_NET_ANCHOR_SSH_HOSTS'', [])]"

definition public_anchor_defaults :: env_map where
  "public_anchor_defaults = map_of
    [(''EXT_NET_PUBLIC_ANCHOR_INTERFACE'', ''ext-pub-anchor''),
     (''EXT_NET_PUBLIC_ANCHOR_VLAN'', []), (''EXT_NET_PUBLIC_ANCHOR_IPS'', [])]"

definition ingress_defaults :: env_map where
  "ingress_defaults = map_of
    [(''METALLB_MODE'', ''l2''), (''ENVOY_SERVICE_TYPE'', ''ClusterIP''),
     (''ENVOY_LB_CLASS'', ''null''), (''ENVOY_TRAFFIC_POLICY'', ''null''),
     (''INGRESS_NODE_LABEL'', ''kube-dc.com/ingress'')]"

definition universal_defaults :: env_map where
  "universal_defaults = network_defaults ++ monitoring_defaults ++ platform_endpoint_defaults
     ++ anchor_defaults ++ public_anchor_defaults ++ ingress_defaults"

text \<open>The three tables differ in the network the tenants' addresses come from.\<close>

definition cloud_defaults :: "string \<Rightarrow> env_map" where
  "cloud_defaults tenant = map_of
    [(''EXT_NET_NAME'', ''ext-cloud''), (''EXT_NET_TYPE'', ''cloud''),
     (''EXT_NET_CIDR'', ''100.65.0.0/16''), (''EXT_NET_GATEWAY'', ''100.65.0.1''),
     (''EXT_NET_MTU'', ''1400''), (''DEFAULT_GW_NETWORK_TYPE'', ''cloud''),
     (''DEFAULT_EIP_NETWORK_TYPE'', tenant), (''DEFAULT_FIP_NETWORK_TYPE'', tenant),
     (''DEFAULT_SVC_LB_NETWORK_TYPE'', tenant)] ++ universal_defaults"

definition internal_only_preset :: preset_spec where
  "internal_only_preset = \<lparr> sp_defaults = cloud_defaults ''cloud'',
     sp_required = [''EXT_NET_VLAN_ID'', ''EXT_NET_INTERFACE''],
     sp_kustomizations = [''infra-cni'', ''infra-core'', ''infra-object-storage'', ''platform'', ''addons''] \<rparr>"

definition cloud_vlan_preset :: preset_spec where
  "cloud_vlan_preset = \<lparr> sp_defaults = cloud_defaults ''cloud'',
     sp_required = [''EXT_NET_VLAN_ID'', ''EXT_NET_INTERFACE''],
     sp_kustomizations = [''infra-cni'', ''infra-core'', ''infra-object-storage'', ''platform'', ''addons''] \<rparr>"

definition cloud_public_vlan_preset :: preset_spec where
  "cloud_public_vlan_preset = \<lparr> sp_defaults = cloud_defaults ''public'',
     sp_required = [''EXT_NET_VLAN_ID'', ''EXT_NET_INTERFACE'', ''EXT_PUBLIC_VLAN_ID'',
       ''EXT_PUBLIC_CIDR'', ''EXT_PUBLIC_GATEWAY''],
     sp_kustomizations = [''infra-cni'', ''infra-core'', ''infra-public-network'',
       ''infra-object-storage'', ''platform'', ''addons''] \<rparr>"

definition custom_preset :: preset_spec where
  "custom_preset = \<lparr> sp_defaults = Map.empty, sp_required = [],
     sp_kustomizations = [''infra-cni'', ''infra-core'', ''infra-public-network'',
       ''infra-object-storage'', ''platform'', ''addons''] \<rparr>"

fun spec_for :: "preset \<Rightarrow> preset_spec option" where
  "spec_for Internal_Only = Some internal_only_preset"
| "spec_for Cloud_VLAN = Some cloud_vlan_preset"
| "spec_for Cloud_Public_VLAN = Some cloud_public_vlan_preset"
| "spec_for Custom_Preset = Some custom_preset"
| "spec_for (Other_Preset _) = None"

section \<open>The address layer\<close>

abbreviation layer_none :: string where "layer_none \<equiv> ''none''"
abbreviation layer_l2 :: string where "layer_l2 \<equiv> ''metallb-l2''"
abbreviation layer_bgp :: string where "layer_bgp \<equiv> ''metallb-bgp''"

definition placeholder :: "string \<Rightarrow> bool" where
  "placeholder v \<longleftrightarrow> has_prefix v ''CHANGEME''"

text \<open>The layer the operator expressed, and whether the input is ambiguous: an address without
  a layer.  The third argument of the Go function is not read.\<close>

definition resolve_address_layer :: "string \<Rightarrow> string \<Rightarrow> string \<times> bool" where
  "resolve_address_layer explicit floating =
     (let l = trim_space explicit; vip = trim_space floating in
      if l \<noteq> [] then (l, False)
      else (layer_none, vip \<noteq> [] \<and> \<not> placeholder vip))"

definition layer_requires_vip :: "string \<Rightarrow> bool" where
  "layer_requires_vip layer \<longleftrightarrow> trim_space layer \<in> {layer_l2, layer_bgp}"

definition address_layer_env :: "string \<Rightarrow> env_map" where
  "address_layer_env layer =
     (if layer = layer_l2 then map_of
        [(''ENVOY_SERVICE_TYPE'', ''LoadBalancer''), (''ENVOY_LB_CLASS'', ''metallb''),
         (''ENVOY_TRAFFIC_POLICY'', ''Local''), (''METALLB_MODE'', ''l2'')]
      else if layer = layer_bgp then map_of
        [(''ENVOY_SERVICE_TYPE'', ''LoadBalancer''), (''ENVOY_LB_CLASS'', ''metallb''),
         (''ENVOY_TRAFFIC_POLICY'', ''Local''), (''METALLB_MODE'', ''bgp'')]
      else map_of
        [(''ENVOY_SERVICE_TYPE'', ''ClusterIP''), (''ENVOY_LB_CLASS'', ''null''),
         (''ENVOY_TRAFFIC_POLICY'', ''null''), (''METALLB_MODE'', ''l2'')])"

section \<open>Public anchors\<close>

text \<open>The public VIP and network, and whether the VIP lies in it.\<close>

definition public_vip_network :: "env_map \<Rightarrow> ip4 option \<times> ip_net option \<times> bool" where
  "public_vip_network env = (case parse_cidr (env_text env ''EXT_PUBLIC_CIDR'') of
     None \<Rightarrow> (None, None, False)
   | Some (_, cidr) \<Rightarrow>
       if net_to4 cidr = None then (None, None, False)
       else (case parse_ip4 (env_text env ''METALLB_FLOATING_IP'') of
          None \<Rightarrow> (None, Some cidr, False)
        | Some vip \<Rightarrow> (Some vip, Some cidr, net_contains cidr (ip_of4 vip))))"

definition public_l2_vip :: "env_map \<Rightarrow> bool" where
  "public_l2_vip env \<longleftrightarrow> env_text env ''METALLB_MODE'' \<noteq> ''bgp'' \<and>
     snd (snd (public_vip_network env)) \<and> env_text env ''EXT_PUBLIC_VLAN_ID'' \<noteq> []"

text \<open>One address per gateway node, from the VIP upwards, past the gateway; no map at all when
  the network has no room for every node.\<close>

fun anchor_run :: "ip4 option \<Rightarrow> ip_net \<Rightarrow> ip4 \<Rightarrow> string list \<Rightarrow> (string \<times> ip4) list option" where
  "anchor_run gw cidr from [] = Some []"
| "anchor_run gw cidr from (node # nodes) =
     (let a = (if gw = Some from then from + 1 else from) in
      if usable_host (ip_of4 a) cidr
      then map_option (Cons (node, a)) (anchor_run gw cidr (a + 1) nodes)
      else None)"

definition anchor_pair :: "nat \<Rightarrow> string \<times> ip4 \<Rightarrow> string" where
  "anchor_pair ones p = fst p @ ''='' @ dotted (snd p) @ ''/'' @ digits_of ones"

definition set_if_blank :: "string \<Rightarrow> string \<Rightarrow> env_map \<Rightarrow> env_map" where
  "set_if_blank k v env = (if env_text env k = [] then env(k \<mapsto> v) else env)"

text \<open>The L2 part: the VLAN, the interface and the anchor map, with the last anchor given out,
  if any.\<close>

definition derive_interface :: "env_map \<Rightarrow> env_map" where
  "derive_interface env =
     (let iface = env_text env ''EXT_NET_PUBLIC_ANCHOR_INTERFACE'';
          v = env_text env ''METALLB_INTERFACE'' in
      if (v = [] \<or> v = ''CHANGEME'') \<and> iface \<noteq> [] then env(''METALLB_INTERFACE'' \<mapsto> iface) else env)"

definition derive_anchor_ips :: "ip4 \<Rightarrow> ip_net \<Rightarrow> ip4 option \<Rightarrow> env_map \<Rightarrow> env_map \<times> ip4 option" where
  "derive_anchor_ips vip cidr gw env =
     (if env_text env ''EXT_NET_PUBLIC_ANCHOR_IPS'' \<noteq> [] then (env, None)
      else (case anchor_run gw cidr (vip + 1) (split_non_empty (env_at env ''KUBE_OVN_GW_NODES'')) of
          Some (p # ps) \<Rightarrow>
            (env(''EXT_NET_PUBLIC_ANCHOR_IPS'' \<mapsto> join '','' (map (anchor_pair (net_ones cidr)) (p # ps))),
             Some (snd (last (p # ps))))
        | _ \<Rightarrow> (env, None)))"

definition derive_l2_anchors :: "ip4 \<Rightarrow> ip_net \<Rightarrow> ip4 option \<Rightarrow> env_map \<Rightarrow> env_map \<times> ip4 option" where
  "derive_l2_anchors vip cidr gw env =
     derive_anchor_ips vip cidr gw (derive_interface
       (set_if_blank ''EXT_NET_PUBLIC_ANCHOR_VLAN'' (env_text env ''EXT_PUBLIC_VLAN_ID'') env))"

text \<open>What tenant IPAM must not give out: the VIP with the anchors just derived, and the gateway.\<close>

definition derive_reserved :: "ip4 \<Rightarrow> ip4 option \<Rightarrow> ip4 option \<Rightarrow> env_map \<Rightarrow> env_map" where
  "derive_reserved vip gw final env =
     (let env1 = set_if_blank ''EXT_PUBLIC_EXCLUDE_IPS_1''
            (case final of Some a \<Rightarrow> dotted vip @ ''..'' @ dotted a | None \<Rightarrow> dotted vip) env in
      case gw of None \<Rightarrow> env1
      | Some g \<Rightarrow> set_if_blank ''EXT_PUBLIC_EXCLUDE_IPS_2'' (dotted g) env1)"

definition derive_cloud_vlan :: "env_map \<Rightarrow> env_map" where
  "derive_cloud_vlan env =
     (let vlan = env_text env ''EXT_NET_VLAN_ID'' in
      if vlan \<noteq> [] \<and> vlan \<noteq> ''0'' then set_if_blank ''EXT_NET_ANCHOR_VLAN'' vlan env else env)"

definition derive_public_anchor_env :: "env_map \<Rightarrow> env_map" where
  "derive_public_anchor_env env0 =
     (let env = derive_cloud_vlan env0 in
      if env_text env ''EXT_PUBLIC_VLAN_ID'' = [] then env
      else (case public_vip_network env of
          (Some vip, Some cidr, True) \<Rightarrow>
            (let gw = parse_ip4 (env_text env ''EXT_PUBLIC_GATEWAY'');
                 mode = env_text env ''METALLB_MODE'';
                 r = (if mode = [] \<or> mode = ''l2'' then derive_l2_anchors vip cidr gw env else (env, None)) in
             derive_reserved vip gw (snd r) (fst r))
        | _ \<Rightarrow> env))"

section \<open>The environment of an installation\<close>

datatype env_error = Unknown_Preset | Missing_Required "string list"

text \<open>The scalars that follow from the layer: they are filled in where the operator set none,
  and the announcement mode follows the layer in any case.\<close>

definition with_layer :: "env_map \<Rightarrow> env_map \<Rightarrow> env_map" where
  "with_layer sets out =
     (let layer = fst (resolve_address_layer (env_at out ''INGRESS_ADDRESS_LAYER'')
            (env_at out ''METALLB_FLOATING_IP''));
          out1 = out(''INGRESS_ADDRESS_LAYER'' \<mapsto> layer);
          out2 = (if layer = layer_l2 then out1(''METALLB_MODE'' \<mapsto> ''l2'')
                  else if layer = layer_bgp then out1(''METALLB_MODE'' \<mapsto> ''bgp'') else out1) in
      out2 ++ (\<lambda>k. if sets k \<noteq> None then None else address_layer_env layer k))"

definition env_map_for :: "preset \<Rightarrow> env_map \<Rightarrow> env_error + env_map" where
  "env_map_for p sets = (case spec_for p of
     None \<Rightarrow> Inl Unknown_Preset
   | Some spec \<Rightarrow>
       (let out = sp_defaults spec ++ sets;
            missing = filter (\<lambda>k. out k = None) (sp_required spec) in
        if missing \<noteq> [] then Inl (Missing_Required (sort missing))
        else if p = Custom_Preset then Inr out
        else Inr (derive_public_anchor_env (with_layer sets out))))"

definition resolved_env_for :: "'a front_options_scheme \<Rightarrow> env_error + env_map" where
  "resolved_env_for o' =
     (let l = trim_space (fo_ingress_layer o') in
      env_map_for (fo_preset o')
        (if l \<noteq> [] then (map_of (fo_sets o'))(''INGRESS_ADDRESS_LAYER'' \<mapsto> l) else map_of (fo_sets o')))"


section \<open>What the derivations write\<close>

lemma env_text_cong: "m k = m' k \<Longrightarrow> env_text m k = env_text m' k"
  by (simp add: env_text_def env_at_def)

lemma env_text_upd [simp]: "env_text (m(k \<mapsto> v)) k = trim_space v"
  "k \<noteq> k' \<Longrightarrow> env_text (m(k' \<mapsto> v)) k = env_text m k"
  by (simp_all add: env_text_def env_at_def)

text \<open>\<open>fills k f\<close>: \<open>f\<close> writes no key but \<open>k\<close>, and that one only when it is blank or holds the
  placeholder of an interface.\<close>

definition open_value :: "env_map \<Rightarrow> string \<Rightarrow> bool" where
  "open_value env k \<longleftrightarrow> env_text env k = [] \<or> k = ''METALLB_INTERFACE'' \<and> env_text env k = ''CHANGEME''"

definition fills :: "string set \<Rightarrow> env_map \<Rightarrow> env_map \<Rightarrow> bool" where
  "fills ks env env' \<longleftrightarrow> (\<forall>k. k \<notin> ks \<or> \<not> open_value env k \<longrightarrow> env' k = env k)"

lemma open_value_cong: "env' k = env k \<Longrightarrow> open_value env' k = open_value env k"
  by (simp add: open_value_def env_text_def env_at_def)

lemma fills_refl [simp]: "fills ks env env"
  by (simp add: fills_def)

lemma fills_trans: "fills ks env env' \<Longrightarrow> fills ls env' env'' \<Longrightarrow> fills (ks \<union> ls) env env''"
  unfolding fills_def by (metis Un_iff open_value_cong)

lemma fills_upd: "k \<in> ks \<Longrightarrow> open_value env k \<Longrightarrow> fills ks env (env(k \<mapsto> v))"
  by (auto simp: fills_def)

lemma fills_blank: "fills {k} env (set_if_blank k v env)"
  by (simp add: set_if_blank_def fills_upd open_value_def)

lemma fills_interface: "fills {''METALLB_INTERFACE''} env (derive_interface env)"
  by (simp add: derive_interface_def fills_upd open_value_def Let_def)

lemma fills_anchor_ips: "fills {''EXT_NET_PUBLIC_ANCHOR_IPS''} env (fst (derive_anchor_ips vip cidr gw env))"
  by (simp add: derive_anchor_ips_def fills_upd open_value_def split: option.split list.split)

definition reserved_keys :: "string set" where
  "reserved_keys = {''EXT_PUBLIC_EXCLUDE_IPS_1''} \<union> {''EXT_PUBLIC_EXCLUDE_IPS_2''}"

lemma fills_reserved: "fills reserved_keys env (derive_reserved vip gw final env)"
  unfolding derive_reserved_def reserved_keys_def Let_def
  by (cases gw; cases final; simp only: option.case)
    (rule fills_trans [OF fills_blank]; rule fills_refl fills_blank)+

definition l2_keys :: "string set" where
  "l2_keys = {''EXT_NET_PUBLIC_ANCHOR_VLAN''} \<union> {''METALLB_INTERFACE''} \<union> {''EXT_NET_PUBLIC_ANCHOR_IPS''}"

definition derived_keys :: "string set" where
  "derived_keys = {''EXT_NET_ANCHOR_VLAN''} \<union> (l2_keys \<union> reserved_keys)"

lemma fills_l2: "fills l2_keys env (fst (derive_l2_anchors vip cidr gw env))"
  unfolding derive_l2_anchors_def l2_keys_def
  by (rule fills_trans [OF fills_trans [OF fills_blank fills_interface] fills_anchor_ips])

lemma fills_derived: "fills derived_keys env (derive_public_anchor_env env)"
proof -
  have cloud: "fills {''EXT_NET_ANCHOR_VLAN''} env (derive_cloud_vlan env)"
    by (simp add: derive_cloud_vlan_def fills_blank Let_def)
  have public: "fills (l2_keys \<union> reserved_keys) m
      (derive_reserved vip gw (snd r) (fst r))" if "fills l2_keys m (fst r)" for m vip gw r
    using that by (rule fills_trans) (rule fills_reserved)
  show ?thesis
  proof (cases "public_vip_network (derive_cloud_vlan env)")
    case (fields vip cidr inside)
    show ?thesis
      unfolding derive_public_anchor_env_def derived_keys_def Let_def
      by (rule fills_trans [OF cloud])
        (cases vip; cases cidr; cases inside; simp add: fields public fills_l2)
  qed
qed

lemma derive_other: "k \<notin> derived_keys \<Longrightarrow> derive_public_anchor_env env k = env k"
  using fills_derived [of env] by (simp add: fills_def)

end
