(* ===== verification/Preset_Checks.thy ===== *)
theory Preset_Checks
  imports Preset
begin

text \<open>
  The validators of \<open>clusterinit/preset.go\<close> and \<open>publicanchor.go\<close>: every one reads the
  environment map and appends to a list of problems.  A problem names the key its message
  starts with and what is wrong; the wording of the messages is left out.  The list is kept in
  the order of the code's checks (the code sorts the rendered text before it joins it).
\<close>

section \<open>Problems\<close>

datatype fault =
    Empty_Value | Not_A_Number | Vlan_Range | Nic_Empty | Nic_Char | Nic_Length
  | Not_A_Cidr | Not_An_Ip | Outside_Cidr | Too_Many_Parts | Range_Order
  | Required_But_Empty | No_Gateway_Nodes | Missing_Equals | Empty_Host | Duplicate_Host
  | Not_A_Gateway | Duplicate_Address | Prefix_Mismatch | Uncovered "string list"
  | Not_A_Boolean | Needs_Anchors | Bad_Host | Bad_Endpoint | Bad_Port
  | Not_A_Mode | Not_A_Layer | Not_A_Label | No_Vip | Contradicts_Layer | Unclaimed_Vip
  | Not_Ipv4 | Asn_Range | Asn_Reserved | Asn_Trans
  | Hold_Syntax | Hold_Fraction | Hold_Short | Hold_Long
  | Stale_Anchors | Not_A_Host_Address | Is_Gateway | Is_Vip | Differs_From string
  | Not_Reserved | No_Placeholder | Retired_Mode | Needs_Attachment | Not_Canonical | Covers_Service

datatype problem = Problem (problem_key: string) (problem_fault: fault)

abbreviation flag :: "string \<Rightarrow> fault \<Rightarrow> bool \<Rightarrow> problem list" where
  "flag k f b \<equiv> (if b then [Problem k f] else [])"

section \<open>Single values\<close>

definition vlan_fault :: "string \<Rightarrow> fault option" where
  "vlan_fault v = (case atoi (trim_space v) of
     None \<Rightarrow> Some Not_A_Number
   | Some n \<Rightarrow> if n < 0 \<or> 4094 < n then Some Vlan_Range else None)"

definition alnum :: "char \<Rightarrow> bool" where
  "alnum c \<longleftrightarrow> (let n = of_char c :: nat in
     97 \<le> n \<and> n \<le> 122 \<or> 65 \<le> n \<and> n \<le> 90 \<or> 48 \<le> n \<and> n \<le> 57)"

definition nic_fault :: "string \<Rightarrow> fault option" where
  "nic_fault v0 =
     (let v = trim_space v0 in
      if v = [] then Some Nic_Empty
      else if \<not> list_all (\<lambda>c. alnum c \<or> c \<in> set ''-_.:'') v then Some Nic_Char
      else if 15 < length v then Some Nic_Length else None)"

text \<open>\<open>strconv.ParseUint(s, 10, 64)\<close>.\<close>

definition parse_uint :: "string \<Rightarrow> int option" where
  "parse_uint s = (if s \<noteq> [] \<and> list_all re_digit s \<and> dec_value s < 2 ^ 64
     then Some (dec_value s) else None)"

definition asn_fault :: "string \<Rightarrow> fault option" where
  "asn_fault v = (case parse_uint (trim_space v) of
     None \<Rightarrow> Some Not_A_Number
   | Some n \<Rightarrow>
       if n < 1 \<or> 4294967294 < n then Some Asn_Range
       else if n = 65535 then Some Asn_Reserved
       else if n = 23456 then Some Asn_Trans else None)"

definition opt_problem :: "string \<Rightarrow> fault option \<Rightarrow> problem list" where
  "opt_problem k f = (case f of None \<Rightarrow> [] | Some x \<Rightarrow> [Problem k x])"

text \<open>A check that runs only on a present value that is not blank.\<close>

definition when_set :: "env_map \<Rightarrow> string \<Rightarrow> (string \<Rightarrow> fault option) \<Rightarrow> problem list" where
  "when_set env k check = (if env_text env k = [] then [] else opt_problem k (check (env_at env k)))"

definition label_chars_ok :: "string \<Rightarrow> bool" where
  "label_chars_ok name \<longleftrightarrow> name \<noteq> [] \<and> length name \<le> 63
     \<and> list_all (\<lambda>c. alnum c \<or> c \<in> set ''-_.'') name \<and> alnum (hd name) \<and> alnum (last name)"

definition is_label_key :: "string \<Rightarrow> bool" where
  "is_label_key s = (case cut (CHR ''/'') s of
     None \<Rightarrow> label_chars_ok s
   | Some (p, rest) \<Rightarrow> p \<noteq> [] \<and> rest \<noteq> [] \<and> length p \<le> 253 \<and> CHR ''/'' \<notin> set rest
       \<and> label_chars_ok rest)"

definition to_lower :: "char \<Rightarrow> char" where
  "to_lower c = (let n = of_char c :: nat in if 65 \<le> n \<and> n \<le> 90 then char_of (n + 32) else c)"

text \<open>\<open>strings.EqualFold\<close> where one side is one of the ASCII mode names, which have no letter
  with a fold outside ASCII.\<close>

definition equal_fold :: "string \<Rightarrow> string \<Rightarrow> bool" where
  "equal_fold s t \<longleftrightarrow> map to_lower s = map to_lower t"

section \<open>Addresses and networks\<close>

definition cidr_if_present :: "env_map \<Rightarrow> string \<Rightarrow> ip_net option \<times> problem list" where
  "cidr_if_present env k =
     (if env_text env k = [] then (None, [])
      else (case parse_cidr (env_text env k) of
          None \<Rightarrow> (None, [Problem k Not_A_Cidr])
        | Some (_, n) \<Rightarrow> (Some n, [])))"

definition gateway_in_cidr :: "env_map \<Rightarrow> string \<Rightarrow> ip_net option \<Rightarrow> problem list" where
  "gateway_in_cidr env k cidr =
     (if env_text env k = [] then []
      else (case parse_ip (env_text env k) of
          None \<Rightarrow> [Problem k Not_An_Ip]
        | Some x \<Rightarrow> (case cidr of None \<Rightarrow> [] | Some n \<Rightarrow> flag k Outside_Cidr (\<not> net_contains n x))))"

fun exclude_parts :: "string \<Rightarrow> ip_net option \<Rightarrow> string list \<Rightarrow> problem list \<times> ip list \<times> bool" where
  "exclude_parts k cidr [] = ([], [], True)"
| "exclude_parts k cidr (p # ps) = (case parse_ip (trim_space p) of
     None \<Rightarrow> ([Problem k Not_An_Ip], [], False)
   | Some x \<Rightarrow>
       (let outside = (case cidr of None \<Rightarrow> False | Some n \<Rightarrow> \<not> net_contains n x);
            (es, xs, ok) = exclude_parts k cidr ps in
        (flag k Outside_Cidr outside @ es, x # xs, ok \<and> \<not> outside)))"

definition exclude_range :: "env_map \<Rightarrow> ip_net option \<Rightarrow> string \<Rightarrow> problem list" where
  "exclude_range env cidr k =
     (let raw = env_text env k; parts = split_str ''..'' raw in
      if raw = [] \<or> placeholder raw then []
      else if 2 < length parts then [Problem k Too_Many_Parts]
      else (let (es, xs, ok) = exclude_parts k cidr parts in
            es @ flag k Range_Order (ok \<and> length xs = 2 \<and> xs ! 1 < xs ! 0)))"

definition exclude_ip_ranges :: "env_map \<Rightarrow> ip_net option \<Rightarrow> problem list" where
  "exclude_ip_ranges env cidr =
     concat (map (exclude_range env cidr) [''EXT_PUBLIC_EXCLUDE_IPS_1'', ''EXT_PUBLIC_EXCLUDE_IPS_2''])"

definition master_nodes :: "env_map \<Rightarrow> problem list" where
  "master_nodes env =
     (let raw = env_text env ''KUBE_OVN_MASTER_NODES'' in
      if raw = [] \<or> placeholder raw then []
      else concat (map (\<lambda>v. flag ''KUBE_OVN_MASTER_NODES'' Not_An_Ip
             (trim_space v = [] \<or> parse_ip4 (trim_space v) = None)) (split_on (CHR '','') raw)))"

section \<open>Node anchors\<close>

text \<open>The state of a scan over \<open>host=CIDR\<close> pairs: hosts and addresses seen, problems found.\<close>

record anchor_scan =
  as_hosts :: "string list"
  as_addrs :: "ip list"
  as_found :: "problem list"

definition found :: "problem list \<Rightarrow> anchor_scan \<Rightarrow> anchor_scan" where
  "found es st = st\<lparr> as_found := as_found st @ es \<rparr>"

text \<open>The loop body that \<open>validateAnchorIPs\<close> and \<open>validatePublicAnchor\<close> have in common; they
  differ in what they ask of a host and of an address.\<close>

definition pair_step ::
  "string \<Rightarrow> (string \<Rightarrow> problem list) \<Rightarrow> (ip \<Rightarrow> ip_net \<Rightarrow> problem list) \<Rightarrow> anchor_scan \<Rightarrow> string \<Rightarrow> anchor_scan" where
  "pair_step k host_faults addr_faults st pair0 =
     (let pair = trim_space pair0 in
      if pair = [] then st
      else (case cut (CHR ''='') pair of
          None \<Rightarrow> found [Problem k Missing_Equals] st
        | Some (h, c) \<Rightarrow>
            (let host = trim_space h in
             if host = [] then found [Problem k Empty_Host] st
             else if host \<in> set (as_hosts st) then found [Problem k Duplicate_Host] st
             else (let st1 = found (host_faults host) (st\<lparr> as_hosts := host # as_hosts st \<rparr>) in
               case parse_cidr (trim_space c) of
                 None \<Rightarrow> found [Problem k Not_A_Cidr] st1
               | Some (x, net) \<Rightarrow>
                   found (flag k Duplicate_Address (x \<in> set (as_addrs st)) @ addr_faults x net)
                     (st1\<lparr> as_addrs := x # as_addrs st \<rparr>)))))"

abbreviation no_scan :: anchor_scan where
  "no_scan \<equiv> \<lparr> as_hosts = [], as_addrs = [], as_found = [] \<rparr>"

definition anchor_host_faults :: "string list \<Rightarrow> string \<Rightarrow> problem list" where
  "anchor_host_faults gws host = flag ''EXT_NET_ANCHOR_IPS'' Not_A_Gateway (host \<notin> set gws)"

definition anchor_addr_faults :: "ip_net option \<Rightarrow> ip \<Rightarrow> ip_net \<Rightarrow> problem list" where
  "anchor_addr_faults ext x net = (case ext of None \<Rightarrow> [] | Some n \<Rightarrow>
     flag ''EXT_NET_ANCHOR_IPS'' Outside_Cidr (\<not> net_contains n x)
     @ flag ''EXT_NET_ANCHOR_IPS'' Prefix_Mismatch (net_ones net \<noteq> net_ones n))"

definition scan_anchors :: "string list \<Rightarrow> ip_net option \<Rightarrow> string \<Rightarrow> anchor_scan" where
  "scan_anchors gws ext raw =
     foldl (pair_step ''EXT_NET_ANCHOR_IPS'' (anchor_host_faults gws) (anchor_addr_faults ext)) no_scan
       (split_on (CHR '','') raw)"

definition validate_anchor_ips :: "env_map \<Rightarrow> ip_net option \<Rightarrow> problem list" where
  "validate_anchor_ips env ext =
     (let k = ''EXT_NET_ANCHOR_IPS'';
          raw = env_text env k;
          required = (env_at env ''EXT_NET_ANCHOR_REQUIRED'' = ''true'');
          gws = split_non_empty (env_text env ''KUBE_OVN_GW_NODES'') in
      if raw = [] then flag k Required_But_Empty required
      else if gws = [] then [Problem k No_Gateway_Nodes]
      else (let st = scan_anchors gws ext raw;
                missing = filter (\<lambda>g. g \<notin> set (as_hosts st)) (remdups gws) in
            as_found st @ flag k (Uncovered (sort missing)) (required \<and> missing \<noteq> [])))"

definition validate_node_egress :: "env_map \<Rightarrow> problem list" where
  "validate_node_egress env =
     (let k = ''EXT_NET_NODE_EGRESS_ENABLED''; v = env_text env k in
      if v = [] then []
      else if v \<noteq> ''true'' \<and> v \<noteq> ''false'' then [Problem k Not_A_Boolean]
      else flag k Needs_Anchors (v = ''true'' \<and> env_text env ''EXT_NET_ANCHOR_REQUIRED'' \<noteq> ''true''))"

text \<open>The SSH host map: nodes seen and problems.\<close>

definition ssh_step :: "string list \<Rightarrow> string list \<times> problem list \<Rightarrow> string \<Rightarrow> string list \<times> problem list" where
  "ssh_step gws st pair0 =
     (let k = ''EXT_NET_ANCHOR_SSH_HOSTS''; (seen, es) = st; pair = trim_space pair0 in
      if pair = [] then st
      else (case cut (CHR ''='') pair of
          None \<Rightarrow> (seen, es @ [Problem k Missing_Equals])
        | Some (n, h) \<Rightarrow>
            (let node = trim_space n; host = trim_space h in
             if node = [] then (seen, es @ [Problem k Empty_Host])
             else if host = [] then (seen, es @ [Problem k Empty_Value])
             else if list_ex (\<lambda>c. c \<in> {CHR '' '', CHR 0x09, CHR ''=''}) host then (seen, es @ [Problem k Bad_Host])
             else if node \<in> set seen then (seen, es @ [Problem k Duplicate_Host])
             else (node # seen, es @ flag k Not_A_Gateway (gws \<noteq> [] \<and> node \<notin> set gws)))))"

definition validate_anchor_ssh_hosts :: "env_map \<Rightarrow> problem list" where
  "validate_anchor_ssh_hosts env =
     (let raw = env_text env ''EXT_NET_ANCHOR_SSH_HOSTS'' in
      if raw = [] then []
      else snd (foldl (ssh_step (split_non_empty (env_text env ''KUBE_OVN_GW_NODES''))) ([], [])
             (split_on (CHR '','') raw)))"

definition validate_anchor_config :: "env_map \<Rightarrow> problem list" where
  "validate_anchor_config env =
     (let (ext, es) = cidr_if_present env ''EXT_NET_CIDR'' in
      when_set env ''EXT_NET_ANCHOR_INTERFACE'' nic_fault @ es @ validate_anchor_ips env ext
      @ validate_anchor_ssh_hosts env @ validate_node_egress env)"

section \<open>Public anchors\<close>

definition last_cut :: "char \<Rightarrow> string \<Rightarrow> (string \<times> string) option" where
  "last_cut c s = map_option (\<lambda>(b, a). (rev a, rev b)) (cut c (rev s))"

text \<open>\<open>parsePublicExcludeRanges\<close>: the ranges of the two keys that parse, and the problems.\<close>

definition exclude_entry :: "env_map \<Rightarrow> string \<Rightarrow> (ip4 \<times> ip4) list \<times> problem list" where
  "exclude_entry env k =
     (let v = env_text env k;
          (start, final) = (case split_str ''..'' v of
             a # b # rest \<Rightarrow> (a, join ''..'' (b # rest)) | _ \<Rightarrow> (v, v)) in
      if v = [] then ([], [])
      else (case (parse_ip4 (trim_space start), parse_ip4 (trim_space final)) of
          (None, _) \<Rightarrow> ([], [Problem k Not_An_Ip])
        | (Some s, None) \<Rightarrow> ([], [Problem k Not_An_Ip])
        | (Some s, Some e) \<Rightarrow> if e < s then ([], [Problem k Range_Order]) else ([(s, e)], [])))"

definition public_exclude_ranges :: "env_map \<Rightarrow> (ip4 \<times> ip4) list \<times> problem list" where
  "public_exclude_ranges env =
     (let (r1, e1) = exclude_entry env ''EXT_PUBLIC_EXCLUDE_IPS_1'';
          (r2, e2) = exclude_entry env ''EXT_PUBLIC_EXCLUDE_IPS_2'' in (r1 @ r2, e1 @ e2))"

definition public_host_faults :: "string list \<Rightarrow> string \<Rightarrow> problem list" where
  "public_host_faults gws host =
     flag ''EXT_NET_PUBLIC_ANCHOR_IPS'' Not_A_Gateway (gws \<noteq> [] \<and> host \<notin> set gws)"

definition public_addr_faults ::
  "ip4 option \<Rightarrow> ip4 option \<Rightarrow> ip_net option \<Rightarrow> ip \<Rightarrow> ip_net \<Rightarrow> problem list" where
  "public_addr_faults gw vip cidr x net =
     (let k = ''EXT_NET_PUBLIC_ANCHOR_IPS'' in
      flag k Is_Gateway (map_option ip_of4 gw = Some x)
      @ flag k Is_Vip (map_option ip_of4 vip = Some x)
      @ (case cidr of None \<Rightarrow> [] | Some n \<Rightarrow>
           (if \<not> net_contains n x then [Problem k Outside_Cidr]
            else flag k Not_A_Host_Address (\<not> usable_host x n))
           @ flag k Prefix_Mismatch (net_ones net \<noteq> net_ones n)))"

definition scan_public ::
  "string list \<Rightarrow> ip4 option \<Rightarrow> ip4 option \<Rightarrow> ip_net option \<Rightarrow> string \<Rightarrow> anchor_scan" where
  "scan_public gws gw vip cidr raw =
     foldl (pair_step ''EXT_NET_PUBLIC_ANCHOR_IPS'' (public_host_faults gws) (public_addr_faults gw vip cidr))
       no_scan (split_on (CHR '','') raw)"

text \<open>The scalars of a public L2 VIP.\<close>

definition public_l2_scalars :: "env_map \<Rightarrow> problem list" where
  "public_l2_scalars env =
     (let iface = env_text env ''EXT_NET_PUBLIC_ANCHOR_INTERFACE'';
          vlan = env_text env ''EXT_NET_PUBLIC_ANCHOR_VLAN'';
          pv = env_text env ''EXT_PUBLIC_VLAN_ID'' in
      flag ''EXT_NET_ANCHOR_INTERFACE'' Empty_Value (env_text env ''EXT_NET_ANCHOR_INTERFACE'' = [])
      @ flag ''EXT_NET_PUBLIC_ANCHOR_IPS'' Empty_Value (env_text env ''EXT_NET_PUBLIC_ANCHOR_IPS'' = [])
      @ (if iface = [] then [Problem ''EXT_NET_PUBLIC_ANCHOR_INTERFACE'' Empty_Value]
         else flag ''METALLB_INTERFACE'' (Differs_From iface) (env_text env ''METALLB_INTERFACE'' \<noteq> iface))
      @ (if vlan = [] then [Problem ''EXT_NET_PUBLIC_ANCHOR_VLAN'' Empty_Value]
         else flag ''EXT_NET_PUBLIC_ANCHOR_VLAN'' (Differs_From pv) (vlan \<noteq> pv)))"

text \<open>VIP and gateway against the public network.\<close>

definition public_addresses :: "ip4 option \<Rightarrow> ip4 option \<Rightarrow> ip_net option \<Rightarrow> bool \<Rightarrow> problem list" where
  "public_addresses vip gw cidr inside =
     (case (vip, cidr) of (Some v, Some n) \<Rightarrow>
          flag ''METALLB_FLOATING_IP'' Not_A_Host_Address (inside \<and> \<not> usable_host (ip_of4 v) n)
        | _ \<Rightarrow> [])
     @ (case (gw, cidr) of (Some g, Some n) \<Rightarrow>
          flag ''EXT_PUBLIC_GATEWAY'' Not_A_Host_Address
            (net_contains n (ip_of4 g) \<and> \<not> usable_host (ip_of4 g) n)
        | _ \<Rightarrow> [])
     @ flag ''METALLB_FLOATING_IP'' Is_Gateway (inside \<and> gw \<noteq> None \<and> vip = gw)"

text \<open>Whether an address that must not reach the tenants' pool is outside every reserved range.\<close>

definition public_uncovered ::
  "ip4 option \<Rightarrow> ip4 option \<Rightarrow> ip_net option \<Rightarrow> (ip4 \<times> ip4) list \<Rightarrow> ip list \<Rightarrow> bool" where
  "public_uncovered vip gw cidr ranges addrs \<longleftrightarrow>
     list_ex (\<lambda>x. \<not> ip_in_ranges x ranges) addrs
     \<or> (case vip of None \<Rightarrow> True | Some v \<Rightarrow> \<not> ip_in_ranges (ip_of4 v) ranges)
     \<or> (case (gw, cidr) of (Some g, Some n) \<Rightarrow> net_contains n (ip_of4 g) \<and> \<not> ip_in_ranges (ip_of4 g) ranges
          | _ \<Rightarrow> False)"

definition validate_public_anchor :: "env_map \<Rightarrow> problem list" where
  "validate_public_anchor env =
     (let k = ''EXT_NET_PUBLIC_ANCHOR_IPS'';
          raw = env_text env k;
          (vip, cidr, inside) = public_vip_network env;
          l2 = public_l2_vip env;
          gw = parse_ip4 (env_text env ''EXT_PUBLIC_GATEWAY'');
          gws = split_non_empty (env_at env ''KUBE_OVN_GW_NODES'');
          (ranges, range_faults) = public_exclude_ranges env;
          st = scan_public gws gw vip cidr raw;
          missing = filter (\<lambda>g. g \<notin> set (as_hosts st)) gws in
      when_set env ''EXT_NET_PUBLIC_ANCHOR_INTERFACE'' nic_fault
      @ when_set env ''EXT_NET_PUBLIC_ANCHOR_VLAN'' vlan_fault
      @ flag k Stale_Anchors (\<not> l2 \<and> (raw \<noteq> [] \<or> env_text env ''EXT_NET_PUBLIC_ANCHOR_VLAN'' \<noteq> []))
      @ public_addresses vip gw cidr inside
      @ (if l2 then public_l2_scalars env else [])
      @ flag k No_Gateway_Nodes (raw \<noteq> [] \<and> gws = [])
      @ range_faults
      @ as_found st
      @ (if l2 \<and> raw \<noteq> [] then
           (if gws = [] then [Problem ''KUBE_OVN_GW_NODES'' Empty_Value]
            else flag k (Uncovered (sort missing)) (missing \<noteq> []))
         else [])
      @ flag ''EXT_PUBLIC_EXCLUDE_IPS_*'' Not_Reserved
          (inside \<and> ranges \<noteq> [] \<and> public_uncovered vip gw cidr ranges (as_addrs st)))"

section \<open>OVN endpoints\<close>

text \<open>Go's \<open>net.SplitHostPort\<close>.\<close>

definition split_host_port :: "string \<Rightarrow> (string \<times> string) option" where
  "split_host_port hp = (case last_cut (CHR '':'') hp of
     None \<Rightarrow> None
   | Some (pre, port) \<Rightarrow>
       (if hd hp = CHR ''['' then
          (case cut (CHR '']'') hp of
             None \<Rightarrow> None
           | Some (a, _) \<Rightarrow>
               if length a + 1 = length pre \<and> CHR ''['' \<notin> set (tl hp)
                  \<and> CHR '']'' \<notin> set (drop (length a + 1) hp)
               then Some (tl a, port) else None)
        else if CHR '':'' \<in> set pre \<or> CHR ''['' \<in> set hp \<or> CHR '']'' \<in> set hp then None
        else Some (pre, port)))"

text \<open>\<open>strings.Trim(s, "[]")\<close>.\<close>

definition trim_brackets :: "string \<Rightarrow> string" where
  "trim_brackets s = (let b = (\<lambda>c. c = CHR ''['' \<or> c = CHR '']'') in
     rev (dropWhile b (rev (dropWhile b s))))"

definition port_ok :: "string \<Rightarrow> bool" where
  "port_ok p = (case atoi p of None \<Rightarrow> False | Some n \<Rightarrow> 1 \<le> n \<and> n \<le> 65535)"

definition endpoint_faults :: "string \<Rightarrow> problem list" where
  "endpoint_faults ep0 =
     (let k = ''OVN_DB_IPS''; ep = trim_space ep0 in
      if ep = [] then []
      else if \<not> has_prefix ep ''tcp:'' \<and> \<not> has_prefix ep ''ssl:'' then [Problem k Bad_Endpoint]
      else (case split_host_port (drop 4 ep) of
          None \<Rightarrow> [Problem k Bad_Endpoint]
        | Some (a, p) \<Rightarrow>
            if parse_ip (trim_brackets a) = None then [Problem k Bad_Endpoint]
            else flag k Bad_Port (\<not> port_ok p)))"

definition validate_ovn_db_ips :: "env_map \<Rightarrow> problem list" where
  "validate_ovn_db_ips env =
     (let raw = env_text env ''OVN_DB_IPS'' in
      if raw = [] \<or> placeholder raw then []
      else concat (map endpoint_faults (split_on (CHR '','') raw)))"

section \<open>Front door\<close>

definition front_door_layer :: "env_map \<Rightarrow> string" where
  "front_door_layer env =
     (let l = env_text env ''INGRESS_ADDRESS_LAYER'' in if l = [] then layer_none else l)"

definition vip_declared :: "env_map \<Rightarrow> bool" where
  "vip_declared env = (let v = env_text env ''METALLB_FLOATING_IP'' in v \<noteq> [] \<and> \<not> placeholder v)"

definition metallb_mode :: "env_map \<Rightarrow> string" where
  "metallb_mode env = (let m = env_text env ''METALLB_MODE'' in if m = [] then ''l2'' else m)"

definition mode_contradicts :: "env_map \<Rightarrow> string \<Rightarrow> bool" where
  "mode_contradicts env want =
     (let got = env_text env ''METALLB_MODE'' in got \<noteq> [] \<and> \<not> equal_fold got want)"

definition ipv4_only :: "string \<Rightarrow> string \<Rightarrow> problem list" where
  "ipv4_only k v = (case parse_ip v of
     None \<Rightarrow> [Problem k Not_An_Ip] | Some x \<Rightarrow> flag k Not_Ipv4 (to4 x = None))"

text \<open>The parser of Go durations is a parameter (it computes in floating point); its result is
  in nanoseconds.\<close>

type_synonym durations = "string \<Rightarrow> int option"

definition hold_fault :: "durations \<Rightarrow> string \<Rightarrow> fault option" where
  "hold_fault dur v = (case dur v of
     None \<Rightarrow> Some Hold_Syntax
   | Some d \<Rightarrow>
       if d mod 1000000000 \<noteq> 0 then Some Hold_Fraction
       else if d \<noteq> 0 \<and> d < 3 * 1000000000 then Some Hold_Short
       else if 65535 * 1000000000 < d then Some Hold_Long else None)"

definition bgp_session :: "durations \<Rightarrow> env_map \<Rightarrow> problem list" where
  "bgp_session dur env =
     concat (map (\<lambda>k. let v = env_text env k in
        if v = [] then [Problem k Empty_Value] else opt_problem k (asn_fault v))
        [''METALLB_BGP_LOCAL_ASN'', ''METALLB_BGP_PEER_ASN''])
     @ (let k = ''METALLB_BGP_PEER_ADDRESS''; v = env_text env k in
        if v = [] then [Problem k Empty_Value] else ipv4_only k v)
     @ (let k = ''METALLB_BGP_PEER_PORT''; v = env_text env k in flag k Bad_Port (v \<noteq> [] \<and> \<not> port_ok v))
     @ (let k = ''METALLB_BGP_HOLD_TIME''; v = env_text env k in
        if v = [] then [] else opt_problem k (hold_fault dur v))"

definition envoy_keys :: "string list" where
  "envoy_keys = [''ENVOY_SERVICE_TYPE'', ''ENVOY_LB_CLASS'', ''ENVOY_TRAFFIC_POLICY'']"

definition validate_ingress_and_metallb :: "durations \<Rightarrow> env_map \<Rightarrow> problem list" where
  "validate_ingress_and_metallb dur env =
     (let layer = front_door_layer env;
          label = env_text env ''INGRESS_NODE_LABEL'';
          want = (if layer = layer_bgp then ''bgp'' else ''l2'');
          mode = metallb_mode env;
          iface = env_text env ''METALLB_INTERFACE'' in
      flag ''INGRESS_MODE'' Not_A_Mode (env_text env ''INGRESS_MODE'' \<notin> {[], ''metallb-lb'', ''hostnetwork''})
      @ flag ''INGRESS_ADDRESS_LAYER'' Not_A_Layer (layer \<notin> {layer_none, layer_l2, layer_bgp})
      @ (if label = [] then [Problem ''INGRESS_NODE_LABEL'' Empty_Value]
         else flag ''INGRESS_NODE_LABEL'' Not_A_Label (\<not> is_label_key label))
      @ (if layer = layer_l2 \<or> layer = layer_bgp
         then flag ''METALLB_FLOATING_IP'' No_Vip (\<not> vip_declared env)
           @ flag ''METALLB_MODE'' Contradicts_Layer (mode_contradicts env want)
         else flag ''METALLB_FLOATING_IP'' Unclaimed_Vip (vip_declared env))
      @ flag ''METALLB_MODE'' Contradicts_Layer
          (layer_requires_vip layer \<and> mode_contradicts env (env_at (address_layer_env layer) ''METALLB_MODE''))
      @ concat (map (\<lambda>k. let got = env_text env k in
          flag k Contradicts_Layer (got \<noteq> [] \<and> got \<noteq> env_at (address_layer_env layer) k)) envoy_keys)
      @ flag ''METALLB_MODE'' Not_A_Mode (mode \<noteq> ''l2'' \<and> mode \<noteq> ''bgp'')
      @ (if mode = ''l2'' \<and> iface \<noteq> [] \<and> \<not> placeholder iface
         then opt_problem ''METALLB_INTERFACE'' (nic_fault iface) else [])
      @ (if vip_declared env then ipv4_only ''METALLB_FLOATING_IP'' (env_text env ''METALLB_FLOATING_IP'') else [])
      @ (if mode = ''bgp'' then bgp_session dur env else []))"

section \<open>Tenant networking\<close>

definition service_mode :: "env_map \<Rightarrow> problem list" where
  "service_mode env =
     flag ''MANAGEMENT_API_MODE'' Needs_Attachment (env_at env ''INFRA_ATTACHMENT_ENABLED'' \<noteq> ''true'')
     @ (let txt' = env_text env ''K8S_SERVICE_IP'' in case parse_ip4 txt' of
          None \<Rightarrow> [Problem ''MANAGEMENT_API_MODE'' Not_Canonical]
        | Some a \<Rightarrow>
            if dotted a \<noteq> txt' then [Problem ''MANAGEMENT_API_MODE'' Not_Canonical]
            else (case parse_cidr (env_text env ''SVC_CIDR'') of
                None \<Rightarrow> [Problem ''MANAGEMENT_API_MODE'' Not_A_Cidr]
              | Some (_, n) \<Rightarrow>
                  if net_to4 n = None then [Problem ''MANAGEMENT_API_MODE'' Not_A_Cidr]
                  else flag ''K8S_SERVICE_IP'' Outside_Cidr (\<not> net_contains n (ip_of4 a)))
              @ concat (map (\<lambda>r. case parse_cidr (trim_space r) of
                   None \<Rightarrow> []
                 | Some (_, n) \<Rightarrow> flag ''INFRA_ATTACHMENT_ROUTES'' Covers_Service (net_contains n (ip_of4 a)))
                 (split_on (CHR '','') (env_at env ''INFRA_ATTACHMENT_ROUTES''))))"

definition validate_management_api :: "env_map \<Rightarrow> problem list" where
  "validate_management_api env =
     (let m = env_text env ''MANAGEMENT_API_MODE'' in
      if m \<in> {[], ''auto'', ''external''} then []
      else if m = ''platformVIP'' then [Problem ''MANAGEMENT_API_MODE'' Retired_Mode]
      else if m = ''service'' then service_mode env
      else [Problem ''MANAGEMENT_API_MODE'' Not_A_Mode])"

definition validate_infra_attachment :: "env_map \<Rightarrow> problem list" where
  "validate_infra_attachment env =
     (let enabled = env_text env ''INFRA_ATTACHMENT_ENABLED'';
          routes = env_text env ''INFRA_ATTACHMENT_ROUTES'';
          sg = env_text env ''INFRA_ATTACHMENT_SECURITY_GROUP'';
          (cidr, es) = cidr_if_present env ''INFRA_ATTACHMENT_CIDR'' in
      flag ''INFRA_ATTACHMENT_ENABLED'' Not_A_Boolean (enabled \<notin> {[], ''true'', ''false''})
      @ flag ''INFRA_ATTACHMENT_ROUTES'' Empty_Value (enabled = ''true'' \<and> routes = [])
      @ concat (map (\<lambda>r0. let r = trim_space r0 in
          flag ''INFRA_ATTACHMENT_ROUTES'' Not_A_Cidr (r \<noteq> [] \<and> parse_cidr r = None))
          (split_on (CHR '','') routes))
      @ flag ''INFRA_ATTACHMENT_SECURITY_GROUP'' No_Placeholder (sg \<noteq> [] \<and> \<not> contains sg ''{namespace}'')
      @ es @ gateway_in_cidr env ''INFRA_ATTACHMENT_GATEWAY'' cidr)"

section \<open>The whole gate\<close>

definition preset_value_problems :: "durations \<Rightarrow> preset_spec \<Rightarrow> env_map \<Rightarrow> problem list" where
  "preset_value_problems dur spec env =
     (let (public, e1) = cidr_if_present env ''EXT_PUBLIC_CIDR'';
          (ext, e2) = cidr_if_present env ''EXT_NET_CIDR'' in
      concat (map (\<lambda>k. flag k Empty_Value (env_text env k = [])) (sp_required spec))
      @ when_set env ''EXT_NET_VLAN_ID'' vlan_fault
      @ when_set env ''EXT_PUBLIC_VLAN_ID'' vlan_fault
      @ when_set env ''EXT_NET_INTERFACE'' nic_fault
      @ when_set env ''EXT_NET_ANCHOR_INTERFACE'' nic_fault
      @ e1 @ gateway_in_cidr env ''EXT_PUBLIC_GATEWAY'' public
      @ exclude_ip_ranges env public
      @ e2 @ gateway_in_cidr env ''EXT_NET_GATEWAY'' ext
      @ master_nodes env
      @ validate_anchor_ips env ext
      @ validate_anchor_ssh_hosts env
      @ validate_node_egress env
      @ validate_public_anchor env
      @ validate_ingress_and_metallb dur env
      @ validate_infra_attachment env
      @ validate_management_api env
      @ validate_ovn_db_ips env)"

definition validate_preset_values :: "durations \<Rightarrow> preset \<Rightarrow> env_map \<Rightarrow> problem list" where
  "validate_preset_values dur p env =
     (case spec_for p of None \<Rightarrow> [] | Some spec \<Rightarrow> preset_value_problems dur spec env)"

datatype preset_error =
    Env_Error env_error | Invalid_Values "problem list"
  | Mode_Overridden string | Never_Announced | Not_Announcers "string list"
  | Mixed_Placement "string list" "string list"

text \<open>\<open>canonicalIngressNodes\<close>: trimmed, without repetition, sorted.\<close>

definition canonical_nodes :: "string list \<Rightarrow> string list" where
  "canonical_nodes ns = sort (remdups (filter (\<lambda>n. n \<noteq> []) (map trim_space ns)))"

definition gateway_nodes :: "env_map \<Rightarrow> string list" where
  "gateway_nodes env = canonical_nodes (split_on (CHR '','') (env_at env ''KUBE_OVN_GW_NODES''))"

definition metallb_mode_request :: "'a front_options_scheme \<Rightarrow> env_map \<Rightarrow> preset_error option" where
  "metallb_mode_request o' env = (case map_of (fo_sets o') ''METALLB_MODE'' of
     None \<Rightarrow> None
   | Some v \<Rightarrow> (let raw = trim_space v in
       if raw = [] \<or> raw = env_text env ''METALLB_MODE'' then None else Some (Mode_Overridden raw)))"

definition announcer_colocation :: "'a front_options_scheme \<Rightarrow> env_map \<Rightarrow> preset_error option" where
  "announcer_colocation o' env =
     (let layer = fst (resolve_address_layer (fo_ingress_layer o') (env_at env ''METALLB_FLOATING_IP''));
          ingress = canonical_nodes (fo_ingress_nodes o');
          gw = gateway_nodes env;
          outside = filter (\<lambda>n. n \<notin> set gw) ingress in
      if \<not> layer_requires_vip layer \<or> ingress = [] \<or> gw = [] then None
      else if filter (\<lambda>n. n \<in> set gw) ingress = [] then Some Never_Announced
      else if outside \<noteq> [] then Some (Not_Announcers outside) else None)"

definition resolve_ingress_nodes :: "'a front_options_scheme \<Rightarrow> env_map \<Rightarrow> string list \<times> bool" where
  "resolve_ingress_nodes o' env =
     (let declared = canonical_nodes (fo_ingress_nodes o') in
      if declared \<noteq> [] then (declared, False) else (gateway_nodes env, True))"

text \<open>\<open>ClassifyIngressPlacement\<close>: \<open>None\<close> when the control plane is unknown.\<close>

definition classify_placement :: "string list \<Rightarrow> string list \<Rightarrow> (string list \<times> string list) option" where
  "classify_placement ingress control =
     (let cp = filter (\<lambda>n. n \<noteq> []) (map trim_space control);
          ns = filter (\<lambda>n. n \<noteq> []) (map trim_space ingress) in
      if ingress = [] \<or> control = [] \<or> cp = [] then None
      else Some (sort (filter (\<lambda>n. n \<in> set cp) ns), sort (filter (\<lambda>n. n \<notin> set cp) ns)))"

definition placement_not_mixed :: "'a front_options_scheme \<Rightarrow> env_map \<Rightarrow> preset_error option" where
  "placement_not_mixed o' env =
     (case classify_placement (fst (resolve_ingress_nodes o' env)) (fo_control_plane_nodes o') of
        None \<Rightarrow> None
      | Some (on, off) \<Rightarrow> if on = [] \<or> off = [] then None else Some (Mixed_Placement on off))"

definition unset_value :: "env_map \<Rightarrow> string \<Rightarrow> bool" where
  "unset_value env k \<longleftrightarrow> env_text env k = [] \<or> placeholder (env_text env k)"

definition complete_installer_values :: "preset \<Rightarrow> env_map \<Rightarrow> preset_error option" where
  "complete_installer_values p env =
     (let vip = layer_requires_vip (env_text env ''INGRESS_ADDRESS_LAYER'');
          mode = env_text env ''METALLB_MODE'';
          required = [''KUBE_OVN_MASTER_NODES'']
            @ (if p = Cloud_Public_VLAN then [''EXT_PUBLIC_EXCLUDE_IPS_1'', ''EXT_PUBLIC_EXCLUDE_IPS_2''] else [])
            @ (if vip then [''METALLB_FLOATING_IP'']
                 @ (if mode = [] \<or> mode = ''l2'' then [''METALLB_INTERFACE''] else [])
                 @ (if p = Cloud_Public_VLAN \<and> public_l2_vip env then [''KUBE_OVN_GW_NODES''] else [])
               else []);
          missing = filter (unset_value env) required in
      if p = Custom_Preset \<or> missing = [] then None else Some (Env_Error (Missing_Required (sort missing))))"

definition first_error :: "'e option list \<Rightarrow> 'e option" where
  "first_error es = (case find (\<lambda>e. e \<noteq> None) es of None \<Rightarrow> None | Some e \<Rightarrow> e)"

definition validate_preset_required_keys :: "durations \<Rightarrow> 'a front_options_scheme \<Rightarrow> preset_error option" where
  "validate_preset_required_keys dur o' = (case resolved_env_for o' of
     Inl e \<Rightarrow> Some (Env_Error e)
   | Inr env \<Rightarrow>
       (let ps = validate_preset_values dur (fo_preset o') env in
        first_error [if ps = [] then None else Some (Invalid_Values ps),
          metallb_mode_request o' env, announcer_colocation o' env,
          placement_not_mixed o' env, complete_installer_values (fo_preset o') env]))"

section \<open>What a clean scan means\<close>

text \<open>One pair read as host, address and network; \<open>None\<close> when it is malformed.\<close>

definition read_pair :: "string \<Rightarrow> (string \<times> ip \<times> ip_net) option" where
  "read_pair p = (case cut (CHR ''='') (trim_space p) of
     None \<Rightarrow> None
   | Some (h, c) \<Rightarrow> if trim_space h = [] then None
       else map_option (Pair (trim_space h)) (parse_cidr (trim_space c)))"

definition pairs_of :: "string \<Rightarrow> (string \<times> ip \<times> ip_net) option list" where
  "pairs_of raw = map read_pair (filter (\<lambda>p. trim_space p \<noteq> []) (split_on (CHR '','') raw))"

text \<open>A table of anchors: distinct hosts, distinct addresses, each acceptable.\<close>

definition anchor_table ::
  "(string \<Rightarrow> problem list) \<Rightarrow> (ip \<Rightarrow> ip_net \<Rightarrow> problem list) \<Rightarrow> (string \<times> ip \<times> ip_net) list \<Rightarrow> bool" where
  "anchor_table host_faults addr_faults es \<longleftrightarrow>
     distinct (map fst es) \<and> distinct (map (fst \<circ> snd) es)
     \<and> (\<forall>(h, x, n)\<in>set es. host_faults h = [] \<and> addr_faults x n = [])"

lemma found_simps [simp]:
  "as_hosts (found es st) = as_hosts st" "as_addrs (found es st) = as_addrs st"
  "as_found (found es st) = as_found st @ es"
  by (simp_all add: found_def)

text \<open>A scan finds nothing exactly when every pair reads and the pairs form a table; it has then
  seen their hosts and addresses.\<close>

definition clean_pairs ::
  "(string \<Rightarrow> problem list) \<Rightarrow> (ip \<Rightarrow> ip_net \<Rightarrow> problem list) \<Rightarrow> (string \<times> ip \<times> ip_net) option list \<Rightarrow> bool" where
  "clean_pairs host_faults addr_faults es \<longleftrightarrow>
     None \<notin> set es \<and> anchor_table host_faults addr_faults (map the es)"

lemma clean_pairs_snoc:
  "clean_pairs hf af (es @ [Some (h, x, n)]) \<longleftrightarrow> clean_pairs hf af es
     \<and> h \<notin> set (map (fst \<circ> the) es) \<and> x \<notin> set (map (fst \<circ> snd \<circ> the) es) \<and> hf h = [] \<and> af x n = []"
  by (auto simp: clean_pairs_def anchor_table_def comp_assoc)

lemma scan_clean:
  "(as_found (foldl (pair_step k hf af) no_scan ps) = [] \<longleftrightarrow>
     clean_pairs hf af (map read_pair (filter (\<lambda>p. trim_space p \<noteq> []) ps)))
   \<and> (as_found (foldl (pair_step k hf af) no_scan ps) = [] \<longrightarrow>
     as_hosts (foldl (pair_step k hf af) no_scan ps) =
       rev (map (fst \<circ> the) (map read_pair (filter (\<lambda>p. trim_space p \<noteq> []) ps)))
     \<and> as_addrs (foldl (pair_step k hf af) no_scan ps) =
       rev (map (fst \<circ> snd \<circ> the) (map read_pair (filter (\<lambda>p. trim_space p \<noteq> []) ps))))"
proof (induction ps rule: rev_induct)
  case Nil
  then show ?case by (simp add: clean_pairs_def anchor_table_def)
next
  case (snoc p ps)
  define st where "st = foldl (pair_step k hf af) no_scan ps"
  define es where "es = map read_pair (filter (\<lambda>p. trim_space p \<noteq> []) ps)"
  note IH = snoc [folded st_def es_def]
  show ?case
  proof (cases "trim_space p = []")
    case True
    then have "pair_step k hf af st p = st" by (simp add: pair_step_def)
    with IH True show ?thesis by (simp add: st_def es_def)
  next
    case False
    show ?thesis
    proof (cases "read_pair p")
      case None
      then have "as_found (pair_step k hf af st p) \<noteq> []"
        using False by (auto simp: pair_step_def read_pair_def Let_def split: option.splits if_splits)
      with None False show ?thesis by (simp add: st_def clean_pairs_def)
    next
      case (Some e)
      obtain h x n where e: "e = (h, x, n)" by (cases e) auto
      have "as_found (pair_step k hf af st p) = [] \<longleftrightarrow> as_found st = [] \<and> h \<notin> set (as_hosts st)
          \<and> x \<notin> set (as_addrs st) \<and> hf h = [] \<and> af x n = []"
        "h \<notin> set (as_hosts st) \<Longrightarrow> as_hosts (pair_step k hf af st p) = h # as_hosts st
          \<and> as_addrs (pair_step k hf af st p) = x # as_addrs st"
        using False Some unfolding e
        by (auto simp: pair_step_def read_pair_def Let_def split: option.splits if_splits)
      with IH Some e False show ?thesis
        by (auto simp: clean_pairs_snoc st_def [symmetric] es_def [symmetric])
    qed
  qed
qed

lemmas scan_clean_iff = scan_clean [THEN conjunct1]
lemmas scan_clean_seen = scan_clean [THEN conjunct2, rule_format]

section \<open>What acceptance means\<close>

lemma first_error_None: "first_error es = None \<longleftrightarrow> (\<forall>e\<in>set es. e = None)"
  by (induction es) (auto simp: first_error_def)

text \<open>The values, the mode, the announcers, the placement and the completeness, of one accepted run.\<close>

lemma accepted_iff:
  "validate_preset_required_keys dur o' = None \<longleftrightarrow> (\<exists>env. resolved_env_for o' = Inr env
     \<and> validate_preset_values dur (fo_preset o') env = [] \<and> metallb_mode_request o' env = None
     \<and> announcer_colocation o' env = None \<and> placement_not_mixed o' env = None
     \<and> complete_installer_values (fo_preset o') env = None)"
  by (cases "resolved_env_for o'")
    (auto simp: validate_preset_required_keys_def first_error_None Let_def)

lemma accepted_spec:
  "resolved_env_for o' = Inr env \<Longrightarrow> \<exists>spec. spec_for (fo_preset o') = Some spec"
  by (auto simp: resolved_env_for_def env_map_for_def Let_def split: option.splits)

lemma accepted_values:
  assumes "validate_preset_required_keys dur o' = None" "resolved_env_for o' = Inr env"
  obtains spec where "spec_for (fo_preset o') = Some spec" "preset_value_problems dur spec env = []"
  using assms accepted_spec [OF assms(2)] by (auto simp: accepted_iff validate_preset_values_def)

lemma value_problems_Nil:
  assumes "preset_value_problems dur spec env = []"
  shows "validate_ingress_and_metallb dur env = []" "validate_public_anchor env = []"
    "validate_anchor_ips env (fst (cidr_if_present env ''EXT_NET_CIDR'')) = []"
    "validate_node_egress env = []" "snd (cidr_if_present env ''EXT_NET_CIDR'') = []"
    "master_nodes env = []" "validate_ovn_db_ips env = []"
  using assms by (auto simp: preset_value_problems_def Let_def split: prod.splits)

section \<open>The environment the checks see\<close>

definition layer_keys :: "string set" where
  "layer_keys = {''INGRESS_ADDRESS_LAYER'', ''METALLB_MODE'', ''ENVOY_SERVICE_TYPE'',
     ''ENVOY_LB_CLASS'', ''ENVOY_TRAFFIC_POLICY''}"

lemma layer_env_dom: "address_layer_env l k = None" if "k \<notin> layer_keys \<or> k = ''INGRESS_ADDRESS_LAYER''"
  using that by (auto simp: address_layer_env_def layer_keys_def)

lemma with_layer_other:
  assumes "k \<notin> {''INGRESS_ADDRESS_LAYER'', ''METALLB_MODE''}" "k \<in> dom sets \<or> k \<notin> layer_keys"
  shows "with_layer sets out k = out k"
  using assms layer_env_dom [of k] by (auto simp: with_layer_def Let_def map_add_def)

definition wanted_mode :: "string \<Rightarrow> string" where
  "wanted_mode layer = (if layer = layer_bgp then ''bgp'' else ''l2'')"

lemma with_layer_layer:
  "with_layer sets out ''INGRESS_ADDRESS_LAYER'' =
     Some (fst (resolve_address_layer (env_at out ''INGRESS_ADDRESS_LAYER'') (env_at out ''METALLB_FLOATING_IP'')))"
  using layer_env_dom [of "''INGRESS_ADDRESS_LAYER''"] by (auto simp: with_layer_def Let_def map_add_def)

lemma layer_env_mode: "address_layer_env layer ''METALLB_MODE'' = Some (wanted_mode layer)"
  by (simp add: address_layer_env_def wanted_mode_def)

lemma with_layer_mode:
  assumes "with_layer sets out ''INGRESS_ADDRESS_LAYER'' = Some layer" "layer = layer_l2 \<or> layer = layer_bgp"
  shows "with_layer sets out ''METALLB_MODE'' = Some (wanted_mode layer)"
  using assms unfolding with_layer_layer
  by (auto simp: with_layer_def Let_def map_add_def layer_env_mode wanted_mode_def)

lemma not_derived:
  "''INGRESS_ADDRESS_LAYER'' \<notin> derived_keys" "''METALLB_MODE'' \<notin> derived_keys"
  "''METALLB_FLOATING_IP'' \<notin> derived_keys" "''KUBE_OVN_GW_NODES'' \<notin> derived_keys"
  "''EXT_PUBLIC_CIDR'' \<notin> derived_keys" "''EXT_PUBLIC_GATEWAY'' \<notin> derived_keys"
  "''EXT_PUBLIC_VLAN_ID'' \<notin> derived_keys" "''EXT_NET_PUBLIC_ANCHOR_INTERFACE'' \<notin> derived_keys"
  "''EXT_NET_ANCHOR_INTERFACE'' \<notin> derived_keys"
  by code_simp+

lemma env_map_for_Inr:
  assumes "env_map_for p sets = Inr env"
  obtains spec where "spec_for p = Some spec" "\<forall>k\<in>set (sp_required spec). k \<in> dom (sp_defaults spec ++ sets)"
    "env = (if p = Custom_Preset then sp_defaults spec ++ sets
       else derive_public_anchor_env (with_layer sets (sp_defaults spec ++ sets)))"
  using assms by (auto simp: env_map_for_def Let_def filter_empty_conv dom_def split: option.splits if_splits)

lemma required_plain:
  assumes "spec_for p = Some spec" "k \<in> set (sp_required spec)"
  shows "k \<notin> layer_keys \<union> derived_keys"
proof -
  have plain: "list_all (\<lambda>k. k \<notin> layer_keys \<union> derived_keys) (sp_required internal_only_preset)"
    "list_all (\<lambda>k. k \<notin> layer_keys \<union> derived_keys) (sp_required cloud_vlan_preset)"
    "list_all (\<lambda>k. k \<notin> layer_keys \<union> derived_keys) (sp_required cloud_public_vlan_preset)"
    "list_all (\<lambda>k. k \<notin> layer_keys \<union> derived_keys) (sp_required custom_preset)"
    by code_simp+
  then have "list_all (\<lambda>k. k \<notin> layer_keys \<union> derived_keys) (sp_required spec)"
    using assms(1) by (cases p) (simp_all only: spec_for.simps option.inject option.distinct)
  then show ?thesis unfolding list_all_iff using assms(2) by blast
qed

lemma env_decided:
  assumes "env_map_for p sets = Inr env" "spec_for p = Some spec"
  shows "sets k = Some v \<Longrightarrow> k \<notin> {''INGRESS_ADDRESS_LAYER'', ''METALLB_MODE''} \<Longrightarrow>
      k \<notin> derived_keys \<or> \<not> open_value sets k \<Longrightarrow> env k = Some v"
    and "sets k = None \<Longrightarrow> k \<notin> layer_keys \<union> derived_keys \<Longrightarrow> env k = sp_defaults spec k"
    and "k \<in> set (sp_required spec) \<Longrightarrow> env k \<noteq> None"
proof -
  define out where "out = sp_defaults spec ++ sets"
  obtain req: "\<forall>k\<in>set (sp_required spec). k \<in> dom out"
    and env: "env = (if p = Custom_Preset then out else derive_public_anchor_env (with_layer sets out))"
    using assms unfolding out_def by (elim env_map_for_Inr) simp
  have layer: "with_layer sets out k = out k"
    if "k \<notin> {''INGRESS_ADDRESS_LAYER'', ''METALLB_MODE''}" "k \<in> dom sets \<or> k \<notin> layer_keys" for k
    using that by (rule with_layer_other)
  have kept: "derive_public_anchor_env m k = m k" if "k \<notin> derived_keys \<or> \<not> open_value m k" for m k
    using fills_derived [of m] that by (simp add: fills_def)
  show "env k = Some v" if "sets k = Some v" "k \<notin> {''INGRESS_ADDRESS_LAYER'', ''METALLB_MODE''}"
    "k \<notin> derived_keys \<or> \<not> open_value sets k"
  proof -
    have o: "out k = sets k" using that(1) by (simp add: out_def)
    then have "with_layer sets out k = sets k" using layer [of k] that(1,2) by auto
    then have "derive_public_anchor_env (with_layer sets out) k = sets k"
      using kept that(3) by (metis open_value_cong)
    then show ?thesis using o that(1) by (simp add: env)
  qed
  show "env k = sp_defaults spec k" if "sets k = None" "k \<notin> layer_keys \<union> derived_keys"
    using that layer [of k] kept [of k] by (auto simp: env out_def map_add_def layer_keys_def)
  show "env k \<noteq> None" if "k \<in> set (sp_required spec)"
  proof -
    have "k \<notin> layer_keys \<union> derived_keys" using assms(2) that by (rule required_plain)
    then have "env k = out k" using layer [of k] kept [of k] by (auto simp: env layer_keys_def)
    with req that show ?thesis by auto
  qed
qed

end
