(* ===== verification/Front_Door.thy ===== *)
theory Front_Door
  imports Preset_Checks
begin

text \<open>
  What \<open>ValidatePresetRequiredKeys\<close> guarantees of the installation it lets through: a front door
  that can be applied and announced, anchors on every gateway node, and anchors derived by
  \<open>derivePublicAnchorEnv\<close> that its own validator accepts.  It also records where the gate lets
  through what it means to stop.
\<close>

section \<open>A coherent front door\<close>

lemma opt_problem_Nil [simp]: "opt_problem k f = [] \<longleftrightarrow> f = None"
  by (auto simp: opt_problem_def split: option.splits)

lemma ipv4_only_Nil [simp]: "ipv4_only k v = [] \<longleftrightarrow> parse_ip4 v \<noteq> None"
  by (auto simp: ipv4_only_def parse_ip4_def split: option.splits)

lemma equal_fold_refl [simp]: "equal_fold s s"
  by (simp add: equal_fold_def)

text \<open>What the ingress validator has checked when it found nothing.\<close>

lemma ingress_clean:
  assumes "validate_ingress_and_metallb dur env = []"
  defines "layer \<equiv> front_door_layer env"
  shows "layer = layer_none \<or> layer = layer_l2 \<or> layer = layer_bgp"
    "is_label_key (env_text env ''INGRESS_NODE_LABEL'')"
    "layer = layer_l2 \<or> layer = layer_bgp \<Longrightarrow> vip_declared env"
    "vip_declared env \<Longrightarrow> parse_ip4 (env_text env ''METALLB_FLOATING_IP'') \<noteq> None"
    "layer = layer_none \<Longrightarrow> \<not> vip_declared env"
    "k \<in> set envoy_keys \<Longrightarrow> env_text env k = [] \<or> env_text env k = env_at (address_layer_env layer) k"
    "metallb_mode env = ''l2'' \<or> metallb_mode env = ''bgp''"
    "layer = layer_l2 \<or> layer = layer_bgp \<Longrightarrow> \<not> mode_contradicts env (wanted_mode layer)"
    "metallb_mode env = ''bgp'' \<Longrightarrow> bgp_session dur env = []"
proof -
  have *: "flag ''INGRESS_ADDRESS_LAYER'' Not_A_Layer (layer \<notin> {layer_none, layer_l2, layer_bgp}) = []"
    "(if env_text env ''INGRESS_NODE_LABEL'' = [] then [Problem ''INGRESS_NODE_LABEL'' Empty_Value]
      else flag ''INGRESS_NODE_LABEL'' Not_A_Label (\<not> is_label_key (env_text env ''INGRESS_NODE_LABEL''))) = []"
    "(if layer = layer_l2 \<or> layer = layer_bgp
      then flag ''METALLB_FLOATING_IP'' No_Vip (\<not> vip_declared env)
        @ flag ''METALLB_MODE'' Contradicts_Layer (mode_contradicts env (wanted_mode layer))
      else flag ''METALLB_FLOATING_IP'' Unclaimed_Vip (vip_declared env)) = []"
    "concat (map (\<lambda>k. flag k Contradicts_Layer (env_text env k \<noteq> []
      \<and> env_text env k \<noteq> env_at (address_layer_env layer) k)) envoy_keys) = []"
    "flag ''METALLB_MODE'' Not_A_Mode (metallb_mode env \<noteq> ''l2'' \<and> metallb_mode env \<noteq> ''bgp'') = []"
    "(if vip_declared env then ipv4_only ''METALLB_FLOATING_IP'' (env_text env ''METALLB_FLOATING_IP'') else []) = []"
    "(if metallb_mode env = ''bgp'' then bgp_session dur env else []) = []"
    using assms(1) unfolding validate_ingress_and_metallb_def Let_def layer_def wanted_mode_def
    by (simp_all only: append_is_Nil_conv)
  show "layer = layer_none \<or> layer = layer_l2 \<or> layer = layer_bgp" using *(1) by (simp split: if_splits)
  show "is_label_key (env_text env ''INGRESS_NODE_LABEL'')" using *(2) by (simp split: if_splits)
  show "layer = layer_l2 \<or> layer = layer_bgp \<Longrightarrow> vip_declared env"
    "layer = layer_l2 \<or> layer = layer_bgp \<Longrightarrow> \<not> mode_contradicts env (wanted_mode layer)"
    using *(3) by (simp_all split: if_splits)
  show "vip_declared env \<Longrightarrow> parse_ip4 (env_text env ''METALLB_FLOATING_IP'') \<noteq> None"
    using *(6) by (simp split: if_splits)
  show "layer = layer_none \<Longrightarrow> \<not> vip_declared env" using *(3) by (simp split: if_splits)
  show "k \<in> set envoy_keys \<Longrightarrow> env_text env k = [] \<or> env_text env k = env_at (address_layer_env layer) k"
    using *(4) by (auto split: if_splits)
  show "metallb_mode env = ''l2'' \<or> metallb_mode env = ''bgp''" using *(5) by (simp split: if_splits)
  show "metallb_mode env = ''bgp'' \<Longrightarrow> bgp_session dur env = []" using *(7) by (simp split: if_splits)
qed


text \<open>Outside the custom preset the announcement mode is the layer's, letter by letter.\<close>

lemma layer_of_env:
  assumes "env_map_for p sets = Inr env" "p \<noteq> Custom_Preset"
    "front_door_layer env = layer_l2 \<or> front_door_layer env = layer_bgp"
  shows "env_at env ''METALLB_MODE'' = wanted_mode (front_door_layer env)"
proof -
  obtain out where env: "env = derive_public_anchor_env (with_layer sets out)"
    using assms(1,2) by (auto elim: env_map_for_Inr)
  then have keys: "env ''INGRESS_ADDRESS_LAYER'' = with_layer sets out ''INGRESS_ADDRESS_LAYER''"
    "env ''METALLB_MODE'' = with_layer sets out ''METALLB_MODE''"
    by (simp_all only: derive_other [OF not_derived(1)] derive_other [OF not_derived(2)])
  define layer where "layer = fst (resolve_address_layer (env_at out ''INGRESS_ADDRESS_LAYER'')
    (env_at out ''METALLB_FLOATING_IP''))"
  have l: "env ''INGRESS_ADDRESS_LAYER'' = Some layer"
    unfolding keys layer_def by (rule with_layer_layer)
  have "trim_space layer = layer"
    by (auto simp: layer_def resolve_address_layer_def Let_def printable_def
        intro!: trim_space_trimmed trimmed_printable)
  then have "front_door_layer env = (if layer = [] then layer_none else layer)"
    by (simp add: front_door_layer_def env_text_def env_at_def l)
  with assms(3) have f: "front_door_layer env = layer" by (auto split: if_splits)
  then have "with_layer sets out ''METALLB_MODE'' = Some (wanted_mode layer)"
    using assms(3) l keys(1) by (intro with_layer_mode) simp_all
  then show ?thesis by (simp add: env_at_def keys(2) f)
qed

text \<open>A label key: a name of at most 63 characters, alphanumeric at both ends, after an optional prefix of at
  most 253 characters and a slash.\<close>

definition label_key_shape :: "string \<Rightarrow> bool" where
  "label_key_shape s \<longleftrightarrow> (\<exists>lead name. s = lead @ name
     \<and> (lead = [] \<or> (\<exists>p. lead = p @ ''/'' \<and> p \<noteq> [] \<and> length p \<le> 253 \<and> CHR ''/'' \<notin> set p))
     \<and> name \<noteq> [] \<and> length name \<le> 63 \<and> alnum (hd name) \<and> alnum (last name)
     \<and> (\<forall>c\<in>set name. alnum c \<or> c = CHR ''-'' \<or> c = CHR ''_'' \<or> c = CHR ''.''))"

lemma label_key_checked: "is_label_key s \<Longrightarrow> label_key_shape s"
proof (cases "cut (CHR ''/'') s")
  case None
  assume "is_label_key s"
  then show ?thesis
    unfolding label_key_shape_def using None
    by (intro exI [of _ "[]"] exI [of _ s]) (auto simp: is_label_key_def label_chars_ok_def list_all_iff)
next
  case (Some pr)
  assume label: "is_label_key s"
  obtain p rest where pr: "pr = (p, rest)" by (cases pr)
  have "s = (p @ ''/'') @ rest" "CHR ''/'' \<notin> set p" using cut_SomeD [of "CHR ''/''" s p rest] Some by (simp_all add: pr)
  then show ?thesis
    unfolding label_key_shape_def using label Some pr
    by (intro exI [of _ "p @ ''/''"] exI [of _ rest]) (auto simp: is_label_key_def label_chars_ok_def list_all_iff)
qed

text \<open>The prefix is not looked at, so a key that Kubernetes refuses is accepted.\<close>

lemma label_prefix_unchecked: "is_label_key ''a b/x''"
  by code_simp


section \<open>Ingress nodes and announcers\<close>

text \<open>When the layer came by its flag, every node that will carry the front door is a gateway node, and
  no accepted set of ingress nodes is mixed.\<close>

lemma ingress_nodes_announced:
  assumes "validate_preset_required_keys dur o' = None" "resolved_env_for o' = Inr env"
  shows "(layer_requires_vip (fo_ingress_layer o') \<and> gateway_nodes env \<noteq> [] \<longrightarrow>
      set (fst (resolve_ingress_nodes o' env)) \<subseteq> set (gateway_nodes env))
    \<and> (\<forall>on off. classify_placement (fst (resolve_ingress_nodes o' env)) (fo_control_plane_nodes o')
        = Some (on, off) \<longrightarrow> on = [] \<or> off = [])"
proof (intro conjI impI allI)
  have ok: "announcer_colocation o' env = None" "placement_not_mixed o' env = None"
    using assms by (auto simp: accepted_iff)
  show "set (fst (resolve_ingress_nodes o' env)) \<subseteq> set (gateway_nodes env)"
    if "layer_requires_vip (fo_ingress_layer o') \<and> gateway_nodes env \<noteq> []"
  proof -
    have "layer_requires_vip (fst (resolve_address_layer (fo_ingress_layer o') v))" for v
      using that by (auto simp: resolve_address_layer_def layer_requires_vip_def Let_def)
    with ok(1) that show ?thesis
      by (auto simp: announcer_colocation_def resolve_ingress_nodes_def Let_def filter_empty_conv split: if_splits)
  qed
  show "on = [] \<or> off = []"
    if "classify_placement (fst (resolve_ingress_nodes o' env)) (fo_control_plane_nodes o') = Some (on, off)"
    for on off
    using ok(2) that by (simp add: placement_not_mixed_def split: if_splits)
qed

text \<open>An accepted installation that the witnesses below share: an L2 address, one gateway with its
  anchor, and the gateway as the only ingress node.\<close>

definition demo_options :: front_options where
  "demo_options = \<lparr> fo_preset = Cloud_VLAN,
     fo_sets =
       [(''EXT_NET_VLAN_ID'', ''100''), (''EXT_NET_INTERFACE'', ''bond0''),
        (''KUBE_OVN_MASTER_NODES'', ''10.0.0.11''), (''KUBE_OVN_GW_NODES'', ''gw1''),
        (''EXT_NET_ANCHOR_IPS'', ''gw1=100.65.0.11/16''), (''EXT_NET_ANCHOR_REQUIRED'', ''true''),
        (''METALLB_FLOATING_IP'', ''203.0.113.50''), (''METALLB_INTERFACE'', ''bond0'')],
     fo_control_plane_nodes = [''m1''], fo_ingress_layer = ''metallb-l2'', fo_ingress_nodes = [''gw1''] \<rparr>"

lemma demo_accepted: "validate_preset_required_keys (\<lambda>_. None) demo_options = None"
  by code_simp

definition demo_env :: env_map where
  "demo_env = projr (resolved_env_for demo_options)"

lemma demo_resolved: "resolved_env_for demo_options = Inr demo_env"
  using demo_accepted unfolding demo_env_def accepted_iff by auto

lemma demo_values:
  "front_door_layer demo_env = layer_l2" "gateway_nodes demo_env = [''gw1'']"
  "env_text demo_env ''EXT_NET_ANCHOR_IPS'' = ''gw1=100.65.0.11/16''"
  "env_at demo_env ''EXT_NET_ANCHOR_REQUIRED'' = ''true''"
  by code_simp+

text \<open>What the operator sets is what is written.  In the environment built from a preset and the
operator's values, every value the operator gave stands unchanged, except the announcement mode (it
follows the address layer), the layer itself (trimmed) and a derived key left blank or at the
placeholder; every key the operator did not give and that is neither derived nor decided by the
layer has the preset's default; and no key the preset requires is missing.\<close>

theorem operator_values_kept:
  assumes "env_map_for p sets = Inr env" "spec_for p = Some spec"
  shows "(\<forall>k v. sets k = Some v \<and> k \<notin> {''INGRESS_ADDRESS_LAYER'', ''METALLB_MODE''}
        \<and> (k \<notin> derived_keys \<or> \<not> open_value sets k) \<longrightarrow> env k = Some v)
    \<and> (\<forall>k. sets k = None \<and> k \<notin> layer_keys \<union> derived_keys \<longrightarrow> env k = sp_defaults spec k)
    \<and> (\<forall>k\<in>set (sp_required spec). env k \<noteq> None)"
  using env_decided [OF assms] by blast

theorem operator_values_kept_witness:
  "demo_env ''EXT_NET_VLAN_ID'' = Some ''100'' \<and> demo_env ''EXT_NET_INTERFACE'' \<noteq> None"
proof -
  have "env_map_for Cloud_VLAN ((map_of (fo_sets demo_options))(''INGRESS_ADDRESS_LAYER'' \<mapsto> layer_l2)) = Inr demo_env"
    using demo_resolved by (simp add: resolved_env_for_def demo_options_def trim_space_code printable_def)
  note kept = operator_values_kept [OF this spec_for.simps(2)]
  have "map_of (fo_sets demo_options) ''EXT_NET_VLAN_ID'' = Some ''100''" by (simp add: demo_options_def)
  moreover have "''EXT_NET_VLAN_ID'' \<notin> derived_keys" by code_simp
  ultimately show ?thesis using kept by (simp add: cloud_vlan_preset_def)
qed


text \<open>The gate needs \<open>Validate\<close> before it: with the layer chosen through \<open>--set\<close>, which
  \<open>Validate\<close> refuses, the environment has the VIP layer while the announcer check reads only the flag,
  and a front door that no gateway node can announce is let through.\<close>

definition dark_options :: front_options where
  "dark_options = \<lparr> fo_preset = Cloud_VLAN,
     fo_sets =
       [(''EXT_NET_VLAN_ID'', ''100''), (''EXT_NET_INTERFACE'', ''bond0''),
        (''KUBE_OVN_MASTER_NODES'', ''10.0.0.11''), (''KUBE_OVN_GW_NODES'', ''gw1''),
        (''METALLB_FLOATING_IP'', ''203.0.113.50''), (''METALLB_INTERFACE'', ''bond0''),
        (''INGRESS_ADDRESS_LAYER'', ''metallb-l2'')],
     fo_control_plane_nodes = [], fo_ingress_layer = [], fo_ingress_nodes = [''worker1''] \<rparr>"

lemma set_layer_skips_announcers:
  "validate_preset_required_keys (\<lambda>_. None) dark_options = None
   \<and> (let env = projr (resolved_env_for dark_options) in
      front_door_layer env = layer_l2 \<and> vip_declared env
      \<and> set (fst (resolve_ingress_nodes dark_options env)) \<inter> set (gateway_nodes env) = {})"
  by code_simp

section \<open>Anchors on every gateway node\<close>

lemma anchor_ips_clean:
  assumes "validate_anchor_ips env ext = []"
  defines "raw \<equiv> env_text env ''EXT_NET_ANCHOR_IPS''"
    and "gws \<equiv> split_non_empty (env_text env ''KUBE_OVN_GW_NODES'')"
  shows "raw \<noteq> [] \<Longrightarrow> clean_pairs (anchor_host_faults gws) (anchor_addr_faults ext) (pairs_of raw)"
    "env_at env ''EXT_NET_ANCHOR_REQUIRED'' = ''true'' \<Longrightarrow>
      raw \<noteq> [] \<and> set gws \<subseteq> set (map (fst \<circ> the) (pairs_of raw))"
proof -
  define st where "st = scan_anchors gws ext raw"
  have *: "raw \<noteq> [] \<Longrightarrow> as_found st = [] \<and>
      (env_at env ''EXT_NET_ANCHOR_REQUIRED'' = ''true'' \<longrightarrow> set gws \<subseteq> set (as_hosts st))"
    using assms(1) unfolding validate_anchor_ips_def raw_def gws_def st_def
    by (auto simp: Let_def filter_empty_conv split: if_splits)
  then show clean: "raw \<noteq> [] \<Longrightarrow> clean_pairs (anchor_host_faults gws) (anchor_addr_faults ext) (pairs_of raw)"
    by (simp add: st_def scan_anchors_def scan_clean_iff pairs_of_def)
  show "raw \<noteq> [] \<and> set gws \<subseteq> set (map (fst \<circ> the) (pairs_of raw))"
    if "env_at env ''EXT_NET_ANCHOR_REQUIRED'' = ''true''"
  proof -
    have "raw \<noteq> []" using assms(1) that by (auto simp: validate_anchor_ips_def raw_def Let_def)
    with * that have "as_found st = []" "set gws \<subseteq> set (as_hosts st)" by auto
    with \<open>raw \<noteq> []\<close> show ?thesis
      by (simp add: st_def scan_anchors_def scan_clean_seen pairs_of_def)
  qed
qed

text \<open>Declared anchors are usable, and required ones are complete.  In an accepted installation every
entry of EXT_NET_ANCHOR_IPS reads as a host and an address, hosts and addresses are each distinct,
every host is a gateway node, every address lies in the external network with that network's prefix
length; and when anchors are required, every gateway node has one.\<close>

theorem required_anchors_cover:
  assumes "validate_preset_required_keys dur o' = None" "resolved_env_for o' = Inr env"
  defines "raw \<equiv> env_text env ''EXT_NET_ANCHOR_IPS''"
    and "gws \<equiv> split_non_empty (env_text env ''KUBE_OVN_GW_NODES'')"
    and "ext \<equiv> fst (cidr_if_present env ''EXT_NET_CIDR'')"
    and "es \<equiv> map the (pairs_of (env_text env ''EXT_NET_ANCHOR_IPS''))"
  shows "(raw \<noteq> [] \<longrightarrow> None \<notin> set (pairs_of raw) \<and> distinct (map fst es) \<and> distinct (map (fst \<circ> snd) es)
      \<and> (\<forall>(h, x, net)\<in>set es. h \<in> set gws
          \<and> (\<forall>n. ext = Some n \<longrightarrow> net_contains n x \<and> net_ones net = net_ones n)))
    \<and> (env_at env ''EXT_NET_ANCHOR_REQUIRED'' = ''true'' \<longrightarrow> raw \<noteq> [] \<and> set gws \<subseteq> fst ` set es)"
proof -
  obtain spec where "preset_value_problems dur spec env = []"
    using assms(1,2) by (rule accepted_values)
  note clean = anchor_ips_clean [OF value_problems_Nil(3) [OF this], folded raw_def gws_def ext_def]
  have es: "es = map the (pairs_of raw)" by (simp add: es_def raw_def)
  have "None \<notin> set (pairs_of raw) \<and> distinct (map fst es) \<and> distinct (map (fst \<circ> snd) es)
      \<and> (\<forall>(h, x, net)\<in>set es. h \<in> set gws
          \<and> (\<forall>n. ext = Some n \<longrightarrow> net_contains n x \<and> net_ones net = net_ones n))" if "raw \<noteq> []"
    using clean(1) [OF that] unfolding clean_pairs_def anchor_table_def es [symmetric]
    by (force simp: anchor_host_faults_def anchor_addr_faults_def split: if_splits)
  moreover have "raw \<noteq> [] \<and> set gws \<subseteq> fst ` set es"
    if "env_at env ''EXT_NET_ANCHOR_REQUIRED'' = ''true''"
    using clean(2) [OF that] by (simp add: es image_image)
  ultimately show ?thesis by blast
qed

theorem required_anchors_cover_witness:
  "set (split_non_empty (env_text demo_env ''KUBE_OVN_GW_NODES''))
     \<subseteq> fst ` set (map the (pairs_of ''gw1=100.65.0.11/16''))"
  using required_anchors_cover [OF demo_accepted demo_resolved] by (simp add: demo_values)

section \<open>Values of the right type\<close>

lemma when_set_clean: "when_set env k check = [] \<longleftrightarrow> (env_text env k \<noteq> [] \<longrightarrow> check (env_at env k) = None)"
  by (simp add: when_set_def)

lemma vlan_ok: "vlan_fault v = None \<longleftrightarrow> (\<exists>n. atoi (trim_space v) = Some n \<and> 0 \<le> n \<and> n \<le> 4094)"
  by (auto simp: vlan_fault_def split: option.splits if_splits)

lemma nic_ok: "nic_fault v = None \<longleftrightarrow> trim_space v \<noteq> [] \<and> length (trim_space v) \<le> 15
    \<and> list_all (\<lambda>c. alnum c \<or> c \<in> set ''-_.:'') (trim_space v)"
  by (auto simp: nic_fault_def Let_def split: if_splits)

lemma asn_ok: "asn_fault v = None \<longleftrightarrow> (\<exists>n. parse_uint (trim_space v) = Some n \<and> 1 \<le> n \<and> n \<le> 4294967294
    \<and> n \<noteq> 65535 \<and> n \<noteq> 23456)"
  by (auto simp: asn_fault_def split: option.splits if_splits)

lemma cidr_clean: "snd (cidr_if_present env k) = [] \<longleftrightarrow> (env_text env k \<noteq> [] \<longrightarrow> parse_cidr (env_text env k) \<noteq> None)"
  by (auto simp: cidr_if_present_def split: option.splits)

lemma gateway_clean: "gateway_in_cidr env k cidr = [] \<longleftrightarrow> (env_text env k \<noteq> [] \<longrightarrow>
    (\<exists>x. parse_ip (env_text env k) = Some x \<and> (\<forall>n. cidr = Some n \<longrightarrow> net_contains n x)))"
  by (auto simp: gateway_in_cidr_def split: option.splits if_splits)

lemma hold_ok: "hold_fault dur v = None \<longleftrightarrow> (\<exists>s. dur v = Some (s * 1000000000) \<and> (s = 0 \<or> 3 \<le> s \<and> s \<le> 65535))"
proof
  assume "hold_fault dur v = None"
  then obtain d where d: "dur v = Some d" "d mod 1000000000 = 0" "d = 0 \<or> 3 * 1000000000 \<le> d"
    "d \<le> 65535 * 1000000000"
    by (auto simp: hold_fault_def split: option.splits if_splits)
  then obtain s where "d = s * 1000000000" by (metis dvd_div_mult_self mod_0_imp_dvd)
  with d show "\<exists>s. dur v = Some (s * 1000000000) \<and> (s = 0 \<or> 3 \<le> s \<and> s \<le> 65535)" by auto
qed (auto simp: hold_fault_def)

lemma port_ok_iff: "port_ok p \<longleftrightarrow> (\<exists>n. atoi p = Some n \<and> 1 \<le> n \<and> n \<le> 65535)"
  by (auto simp: port_ok_def split: option.splits)

lemma bgp_clean:
  assumes "bgp_session dur env = []"
  shows "k \<in> {''METALLB_BGP_LOCAL_ASN'', ''METALLB_BGP_PEER_ASN''} \<Longrightarrow> asn_fault (env_text env k) = None"
    "parse_ip4 (env_text env ''METALLB_BGP_PEER_ADDRESS'') \<noteq> None"
    "env_text env ''METALLB_BGP_PEER_PORT'' \<noteq> [] \<Longrightarrow> port_ok (env_text env ''METALLB_BGP_PEER_PORT'')"
    "env_text env ''METALLB_BGP_HOLD_TIME'' \<noteq> [] \<Longrightarrow> hold_fault dur (env_text env ''METALLB_BGP_HOLD_TIME'') = None"
  using assms by (auto simp: bgp_session_def Let_def split: if_splits)

lemma value_problems_typed:
  assumes "preset_value_problems dur spec env = []"
  shows "k \<in> {''EXT_NET_VLAN_ID'', ''EXT_PUBLIC_VLAN_ID''} \<Longrightarrow> when_set env k vlan_fault = []"
    "k \<in> {''EXT_NET_INTERFACE'', ''EXT_NET_ANCHOR_INTERFACE''} \<Longrightarrow> when_set env k nic_fault = []"
    "k \<in> {''EXT_NET_CIDR'', ''EXT_PUBLIC_CIDR''} \<Longrightarrow> snd (cidr_if_present env k) = []"
    "gateway_in_cidr env ''EXT_NET_GATEWAY'' (fst (cidr_if_present env ''EXT_NET_CIDR'')) = []"
    "gateway_in_cidr env ''EXT_PUBLIC_GATEWAY'' (fst (cidr_if_present env ''EXT_PUBLIC_CIDR'')) = []"
    "metallb_mode env = ''bgp'' \<Longrightarrow> bgp_session dur env = []"
proof -
  obtain public e1 where p: "cidr_if_present env ''EXT_PUBLIC_CIDR'' = (public, e1)" by fastforce
  obtain ext e2 where e: "cidr_if_present env ''EXT_NET_CIDR'' = (ext, e2)" by fastforce
  note * = assms [unfolded preset_value_problems_def Let_def p e prod.case append_is_Nil_conv]
  have vlan: "when_set env ''EXT_NET_VLAN_ID'' vlan_fault = []" "when_set env ''EXT_PUBLIC_VLAN_ID'' vlan_fault = []"
    and nic: "when_set env ''EXT_NET_INTERFACE'' nic_fault = []" "when_set env ''EXT_NET_ANCHOR_INTERFACE'' nic_fault = []"
    and net: "e1 = []" "e2 = []"
    and gateway: "gateway_in_cidr env ''EXT_PUBLIC_GATEWAY'' public = []" "gateway_in_cidr env ''EXT_NET_GATEWAY'' ext = []"
    and ingress: "validate_ingress_and_metallb dur env = []"
    using * by blast+
  show "when_set env k vlan_fault = []" if "k \<in> {''EXT_NET_VLAN_ID'', ''EXT_PUBLIC_VLAN_ID''}"
    using that vlan by (elim insertE emptyE) simp_all
  show "when_set env k nic_fault = []" if "k \<in> {''EXT_NET_INTERFACE'', ''EXT_NET_ANCHOR_INTERFACE''}"
    using that nic by (elim insertE emptyE) simp_all
  show "snd (cidr_if_present env k) = []" if "k \<in> {''EXT_NET_CIDR'', ''EXT_PUBLIC_CIDR''}"
    using that net p e by (elim insertE emptyE) simp_all
  show "gateway_in_cidr env ''EXT_NET_GATEWAY'' (fst (cidr_if_present env ''EXT_NET_CIDR'')) = []"
    "gateway_in_cidr env ''EXT_PUBLIC_GATEWAY'' (fst (cidr_if_present env ''EXT_PUBLIC_CIDR'')) = []"
    using gateway by (simp_all only: p e fst_conv)
  show "metallb_mode env = ''bgp'' \<Longrightarrow> bgp_session dur env = []"
    using ingress by (rule ingress_clean(9))
qed



end
