(* ===== verification/Public_Anchor.thy ===== *)
theory Public_Anchor
  imports Preset_Checks
begin

text \<open>
  The two halves of \<open>publicanchor.go\<close> fit: the anchor map and the reserved ranges that
  \<open>derivePublicAnchorEnv\<close> writes are read back and accepted by \<open>validatePublicAnchor\<close>.
\<close>

section \<open>The written texts read back\<close>

lemma dotted_parts: "dotted a = digits_of (nat (uint a div 256 ^ 3 mod 256)) @ CHR ''.'' #
    digits_of (nat (uint a div 256 ^ 2 mod 256)) @ CHR ''.'' #
    digits_of (nat (uint a div 256 mod 256)) @ CHR ''.'' # digits_of (nat (uint a mod 256))"
  by (simp add: dotted_def)

lemma re_digit_facts: "re_digit c \<Longrightarrow> printable c \<and> c \<noteq> CHR ''.'' \<and> c \<noteq> CHR '','' \<and> c \<noteq> CHR ''/'' \<and> c \<noteq> CHR ''=''"
  by (auto simp: re_digit_def printable_def Let_def)

lemma digits_chars: "c \<in> set (digits_of n) \<Longrightarrow> re_digit c"
  using digits_of_ok [of n] by (auto simp: list_all_iff)

lemma dotted_chars: "c \<in> set (dotted a) \<Longrightarrow> re_digit c \<or> c = CHR ''.''"
  by (auto simp: dotted_parts dest: digits_chars)

lemma not_digit: "\<not> re_digit c \<Longrightarrow> c \<notin> set (digits_of n)"
  using digits_chars by blast

lemma no_separator [simp]: "CHR ''.'' \<notin> set (digits_of n)" "CHR '':'' \<notin> set (digits_of n)"
  "CHR ''%'' \<notin> set (digits_of n)" "CHR '','' \<notin> set (digits_of n)" "CHR ''/'' \<notin> set (digits_of n)"
  by (rule not_digit, simp add: re_digit_def)+

lemma dotted_no_separator [simp]: "CHR '','' \<notin> set (dotted a)" "CHR ''/'' \<notin> set (dotted a)"
  by (simp_all add: dotted_parts)

lemma digits_ends: "printable (hd (digits_of n))" "printable (last (digits_of n))" "digits_of n \<noteq> []"
  using digits_of_ok [of n] re_digit_facts by (auto simp: list_all_iff)

lemma dotted_ends [simp]: "printable (hd (dotted a))" "printable (last (dotted a))" "dotted a \<noteq> []"
  by (simp_all add: dotted_parts digits_ends)

lemma parse_cidr_dotted:
  assumes "k \<le> 32"
  shows "parse_cidr (dotted a @ CHR ''/'' # digits_of k) = Some (ip_of4 a, Net4 (a AND mask4 k) k)"
proof -
  have "prefix_len (digits_of k) = Some (int k)"
    using assms digits_of_ok [of k] by (simp add: prefix_len_def dec_value_digits)
  moreover have "parse_addr (dotted a) = Some (V4 a)"
  proof -
    have "parse_ip (dotted a) = Some (ip_of4 a)" by simp
    then obtain x where x: "parse_addr (dotted a) = Some x" by (auto simp: parse_ip_def)
    have "find (\<lambda>c. c = CHR ''.'' \<or> c = CHR '':'' \<or> c = CHR ''%'') (dotted a) = Some (CHR ''.'')"
    proof -
      have skip: "\<forall>c\<in>set u. \<not> P c \<Longrightarrow> find P (u @ v) = find P v" for P :: "char \<Rightarrow> bool" and u v
        by (induction u) auto
      have "\<forall>c\<in>set (digits_of n). \<not> (c = CHR ''.'' \<or> c = CHR '':'' \<or> c = CHR ''%'')" for n
        by (metis no_separator(1-3))
      then show ?thesis unfolding dotted_parts by (subst skip) simp_all
    qed
    then show ?thesis by (simp add: parse_addr_def)
  qed
  ultimately show ?thesis using assms by (simp add: parse_cidr_def cut_append)
qed

lemma index_of_skip:
  assumes "c \<notin> set d"
  shows "index_of (d @ s) (c # cs) = map_option ((+) (length d)) (index_of s (c # cs))"
  using assms by (cases "index_of s (c # cs)"; induction d) auto

lemma index_dotted: "index_of (dotted a @ s) ''..'' = map_option ((+) (length (dotted a))) (index_of s ''..'')"
proof -
  have one: "index_of (CHR ''.'' # digits_of n @ s) ''..'' =
      map_option (\<lambda>i. Suc (length (digits_of n) + i)) (index_of s ''..'')" for n s
  proof -
    obtain x xs where x: "digits_of n = x # xs" "x \<noteq> CHR ''.''"
      using digits_of_ok [of n] no_separator(1) [of n] by (cases "digits_of n") auto
    have "index_of (digits_of n @ s) ''..'' = map_option ((+) (length (digits_of n))) (index_of s ''..'')"
      by (rule index_of_skip) simp
    then show ?thesis using x by (simp add: option.map_comp comp_def)
  qed
  show ?thesis
    unfolding dotted_parts
    by (simp only: append_assoc append_Cons index_of_skip [OF no_separator(1)] one option.map_comp)
      (cases "index_of s ''..''"; simp)
qed

lemma split_single: "split_str ''..'' (dotted a) = [dotted a]"
proof -
  have "index_of (dotted a) ''..'' = None" using index_dotted [of a "[]"] by simp
  then show ?thesis by (subst split_str.simps) simp
qed

lemma split_range: "split_str ''..'' (dotted a @ ''..'' @ dotted b) = [dotted a, dotted b]"
proof -
  have "index_of (''..'' @ s) ''..'' = Some 0" for s by simp
  then have "index_of (dotted a @ ''..'' @ dotted b) ''..'' = Some (length (dotted a))"
    unfolding index_dotted by simp
  then show ?thesis by (subst split_str.simps) (simp add: split_single)
qed

section \<open>The anchors handed out\<close>

lemma usable_range:
  assumes "k < 31" "n AND mask4 k = n" "usable_host (ip_of4 a) (Net4 n k)"
  shows "n < a" "a < n OR mask (32 - k)"
  using assms contains4_iff [of k n a] by (auto simp: order.order_iff_strict)

lemma next_greater: "a < (b :: ip4) \<Longrightarrow> a < a + 1"
  by unat_arith

text \<open>The run goes strictly upwards from where it starts and gives every node a usable address other
  than the gateway's.\<close>

lemma anchor_run_facts:
  assumes "k < 31" "n AND mask4 k = n" "\<forall>g. gw = Some g \<longrightarrow> usable_host (ip_of4 g) (Net4 n k)"
    "anchor_run gw (Net4 n k) from nodes = Some ps"
  shows "map fst ps = nodes \<and> sorted_wrt (<) (map snd ps)
    \<and> (\<forall>a\<in>set (map snd ps). from \<le> a \<and> gw \<noteq> Some a \<and> usable_host (ip_of4 a) (Net4 n k))"
  using assms(4)
proof (induction nodes arbitrary: "from" ps)
  case (Cons node nodes)
  define a where "a = (if gw = Some from then from + 1 else from)"
  from Cons.prems obtain ps' where u: "usable_host (ip_of4 a) (Net4 n k)"
    and run: "anchor_run gw (Net4 n k) (a + 1) nodes = Some ps'" and ps: "ps = (node, a) # ps'"
    by (auto simp: a_def Let_def split: if_splits)
  have up: "a < a + 1" using usable_range(2) [OF assms(1,2) u] by (rule next_greater)
  have "from \<le> a \<and> gw \<noteq> Some a"
  proof (cases "gw = Some from")
    case True
    then have "from < from + 1"
      using assms(3) usable_range(2) [OF assms(1,2)] next_greater by blast
    with True show ?thesis by (auto simp: a_def)
  qed (simp add: a_def)
  with Cons.IH [OF run] u up show ?case by (fastforce simp: ps)
qed simp

section \<open>The anchor map reads back\<close>

definition node_name :: "string \<Rightarrow> bool" where
  "node_name n \<longleftrightarrow> n \<noteq> [] \<and> trimmed n \<and> CHR '','' \<notin> set n"

lemma split_non_empty_names: "list_all node_name (split_non_empty csv)"
proof -
  have "node_name (trim_space f)" if "f \<in> set (split_on (CHR '','') csv)" "trim_space f \<noteq> []" for f
    using split_on_no_sep [OF that(1)] set_trim_space [of f] that(2) by (auto simp: node_name_def)
  then show ?thesis by (auto simp: split_non_empty_def list_all_iff)
qed

lemma separators: "\<forall>t\<in>set space_tokens. CHR ''='' \<notin> set t" "\<forall>t\<in>set space_tokens. CHR '','' \<notin> set t"
  "\<forall>t\<in>set space_tokens. CHR ''/'' \<notin> set t" "\<forall>t\<in>set space_tokens. CHR ''.'' \<notin> set t"
  by code_simp+

lemma trimmed_dotted [simp]: "trimmed (dotted a)"
  by (simp add: trimmed_printable)

lemma trimmed_digits [simp]: "trimmed (digits_of n)"
  by (simp add: trimmed_printable digits_ends del: digits_of.simps)

lemma trimmed_cidr [simp]: "trimmed (dotted a @ CHR ''/'' # digits_of k)"
  by (rule trimmed_around) (simp_all add: separators del: digits_of.simps)

lemma trimmed_range [simp]: "trimmed (dotted a @ ''..'' @ dotted b)"
proof -
  have "trimmed (CHR ''.'' # dotted b)" using trimmed_around [of "[]" "dotted b"] separators(4) by simp
  then show ?thesis using trimmed_around [of "dotted a" "CHR ''.'' # dotted b"] separators(4) by simp
qed

lemma trimmed_pair: "node_name (fst p) \<Longrightarrow> trimmed (anchor_pair k p)"
  unfolding anchor_pair_def node_name_def
  using trimmed_around [OF _ trimmed_cidr separators(1)] by simp

lemma trimmed_join: "\<forall>x\<in>set xs. trimmed x \<Longrightarrow> trimmed (join '','' xs)"
proof (induction xs)
  case (Cons x xs)
  then show ?case using trimmed_around [OF _ _ separators(2), of x "join '','' xs"]
    by (cases xs) auto
qed simp

lemma read_anchor_pair:
  assumes "node_name (fst p)" "CHR ''='' \<notin> set (fst p)" "k \<le> 32"
  shows "read_pair (anchor_pair k p) = Some (fst p, ip_of4 (snd p), Net4 (snd p AND mask4 k) k)"
proof -
  have "trim_space (anchor_pair k p) = anchor_pair k p"
    using trimmed_pair [OF assms(1)] by (simp add: trim_space_trimmed)
  moreover have "cut (CHR ''='') (anchor_pair k p) = Some (fst p, dotted (snd p) @ CHR ''/'' # digits_of k)"
    using assms(2) by (simp add: anchor_pair_def cut_append del: digits_of.simps)
  ultimately show ?thesis
    using assms parse_cidr_dotted [OF assms(3), of "snd p"] trimmed_cidr [of "snd p" k]
    by (simp add: read_pair_def node_name_def trim_space_trimmed del: digits_of.simps)
qed

lemma pairs_of_anchors:
  assumes "ps \<noteq> []" "\<forall>p\<in>set ps. node_name (fst p) \<and> CHR ''='' \<notin> set (fst p)" "k \<le> 32"
  defines "raw \<equiv> join '','' (map (anchor_pair k) ps)"
  shows "trimmed raw" "raw \<noteq> []"
    "pairs_of raw = map (\<lambda>p. Some (fst p, ip_of4 (snd p), Net4 (snd p AND mask4 k) k)) ps"
proof -
  have pair: "trim_space (anchor_pair k p) = anchor_pair k p" "anchor_pair k p \<noteq> []"
    "CHR '','' \<notin> set (anchor_pair k p)" if "p \<in> set ps" for p
    using trimmed_pair [of p k] assms(2) that
    by (auto simp: trim_space_trimmed anchor_pair_def node_name_def simp del: digits_of.simps)
  have split: "split_on (CHR '','') raw = map (anchor_pair k) ps"
    unfolding raw_def using assms(1) pair by (intro split_join) auto
  show "trimmed raw" unfolding raw_def using pair(1) by (intro trimmed_join) (auto simp: trimmed_def)
  show "raw \<noteq> []"
  proof
    assume "raw = []"
    then have "map (anchor_pair k) ps = [[]]" using split by simp
    then show False using pair(2) assms(1) by (cases ps) auto
  qed
  have "filter (\<lambda>p. trim_space p \<noteq> []) (map (anchor_pair k) ps) = map (anchor_pair k) ps"
    using pair by (auto simp: filter_id_conv)
  then show "pairs_of raw = map (\<lambda>p. Some (fst p, ip_of4 (snd p), Net4 (snd p AND mask4 k) k)) ps"
    using assms(2,3) by (simp add: pairs_of_def split read_anchor_pair)
qed

section \<open>What is derived for a bare L2 VIP\<close>

text \<open>The keys the derivation fills are all open.\<close>

definition underived :: "env_map \<Rightarrow> bool" where
  "underived env \<longleftrightarrow> env_text env ''EXT_NET_PUBLIC_ANCHOR_VLAN'' = []
     \<and> env_text env ''EXT_NET_PUBLIC_ANCHOR_IPS'' = []
     \<and> env_text env ''EXT_PUBLIC_EXCLUDE_IPS_1'' = [] \<and> env_text env ''EXT_PUBLIC_EXCLUDE_IPS_2'' = []
     \<and> (env_text env ''METALLB_INTERFACE'' = [] \<or> env_text env ''METALLB_INTERFACE'' = ''CHANGEME'')"

lemma cloud_vlan_other: "k \<noteq> ''EXT_NET_ANCHOR_VLAN'' \<Longrightarrow> derive_cloud_vlan env k = env k"
  by (simp add: derive_cloud_vlan_def set_if_blank_def Let_def)

lemma cloud_vlan_text [simp]:
  "k \<noteq> ''EXT_NET_ANCHOR_VLAN'' \<Longrightarrow> env_text (derive_cloud_vlan env) k = env_text env k"
  "k \<noteq> ''EXT_NET_ANCHOR_VLAN'' \<Longrightarrow> env_at (derive_cloud_vlan env) k = env_at env k"
  by (simp_all add: env_text_def env_at_def cloud_vlan_other)

lemma public_vip_network_cong:
  "env_text env' ''EXT_PUBLIC_CIDR'' = env_text env ''EXT_PUBLIC_CIDR'' \<Longrightarrow>
    env_text env' ''METALLB_FLOATING_IP'' = env_text env ''METALLB_FLOATING_IP'' \<Longrightarrow>
    public_vip_network env' = public_vip_network env"
  unfolding public_vip_network_def by simp (simp split: option.split)

lemma env_at_upd [simp]: "env_at (m(k \<mapsto> v)) k = v" "k \<noteq> k' \<Longrightarrow> env_at (m(k' \<mapsto> v)) k = env_at m k"
  by (simp_all add: env_at_def)

lemma public_network_masked:
  assumes "public_vip_network env = (v, Some (Net4 n k), b)"
  shows "n AND mask4 k = n"
  using assms
  by (auto simp: public_vip_network_def parse_cidr_def and.assoc split: option.splits if_splits addr.splits)

lemma derive_bare:
  assumes "public_vip_network env = (Some vip, Some cidr, True)"
    "parse_ip4 (env_text env ''EXT_PUBLIC_GATEWAY'') = Some g"
    "env_text env ''EXT_PUBLIC_VLAN_ID'' \<noteq> []" "env_text env ''METALLB_MODE'' \<in> {[], ''l2''}"
    "env_text env ''EXT_NET_PUBLIC_ANCHOR_INTERFACE'' \<noteq> []" "underived env"
    "anchor_run (Some g) cidr (vip + 1) (split_non_empty (env_at env ''KUBE_OVN_GW_NODES'')) = Some ps" "ps \<noteq> []"
  shows "derive_public_anchor_env env = (derive_cloud_vlan env)
     (''EXT_NET_PUBLIC_ANCHOR_VLAN'' \<mapsto> env_text env ''EXT_PUBLIC_VLAN_ID'',
      ''METALLB_INTERFACE'' \<mapsto> env_text env ''EXT_NET_PUBLIC_ANCHOR_INTERFACE'',
      ''EXT_NET_PUBLIC_ANCHOR_IPS'' \<mapsto> join '','' (map (anchor_pair (net_ones cidr)) ps),
      ''EXT_PUBLIC_EXCLUDE_IPS_1'' \<mapsto> dotted vip @ ''..'' @ dotted (snd (last ps)),
      ''EXT_PUBLIC_EXCLUDE_IPS_2'' \<mapsto> dotted g)"
proof -
  define m where "m = derive_cloud_vlan env"
  have m: "env_text m k = env_text env k" "env_at m k = env_at env k" if "k \<noteq> ''EXT_NET_ANCHOR_VLAN''" for k
    using that by (simp_all add: m_def)
  have network: "public_vip_network m = (Some vip, Some cidr, True)"
    using assms(1) public_vip_network_cong [of m env] by (simp add: m)
  define m1 where "m1 = m(''EXT_NET_PUBLIC_ANCHOR_VLAN'' \<mapsto> env_text env ''EXT_PUBLIC_VLAN_ID'')"
  have m1: "set_if_blank ''EXT_NET_PUBLIC_ANCHOR_VLAN'' (env_text m ''EXT_PUBLIC_VLAN_ID'') m = m1"
    using assms(6) by (simp add: set_if_blank_def m underived_def m1_def)
  define m2 where "m2 = m1(''METALLB_INTERFACE'' \<mapsto> env_text env ''EXT_NET_PUBLIC_ANCHOR_INTERFACE'')"
  have m2: "derive_interface m1 = m2"
    using assms(5,6) by (auto simp: derive_interface_def m1_def m2_def m underived_def)
  define raw where "raw = join '','' (map (anchor_pair (net_ones cidr)) ps)"
  define m3 where "m3 = m2(''EXT_NET_PUBLIC_ANCHOR_IPS'' \<mapsto> raw)"
  have at2: "env_at m2 ''KUBE_OVN_GW_NODES'' = env_at env ''KUBE_OVN_GW_NODES''"
    by (simp add: m1_def m2_def m)
  have m3: "derive_anchor_ips vip cidr (Some g) m2 = (m3, Some (snd (last ps)))"
  proof -
    have "env_text m2 ''EXT_NET_PUBLIC_ANCHOR_IPS'' = []"
      using assms(6) by (simp add: m1_def m2_def m underived_def)
    moreover obtain q qs where "ps = q # qs" using assms(8) by (cases ps) auto
    ultimately show ?thesis by (simp add: derive_anchor_ips_def at2 m3_def raw_def assms(7))
  qed
  have "derive_l2_anchors vip cidr (Some g) m = (m3, Some (snd (last ps)))"
    by (simp add: derive_l2_anchors_def m1 m2 m3)
  then have "derive_public_anchor_env env = derive_reserved vip (Some g) (Some (snd (last ps))) m3"
    using assms(2-4) network
    by (auto simp: derive_public_anchor_env_def m_def [symmetric] m Let_def)
  also have "\<dots> = m3(''EXT_PUBLIC_EXCLUDE_IPS_1'' \<mapsto> dotted vip @ ''..'' @ dotted (snd (last ps)),
      ''EXT_PUBLIC_EXCLUDE_IPS_2'' \<mapsto> dotted g)"
    using assms(6) by (simp add: derive_reserved_def set_if_blank_def m3_def m2_def m1_def m underived_def)
  finally show ?thesis by (simp add: m3_def m2_def m1_def m_def raw_def)
qed

section \<open>What the validator finds in it\<close>

lemma ip_in_ranges4: "ip_in_ranges (ip_of4 a) rs \<longleftrightarrow> (\<exists>(s, e)\<in>set rs. s \<le> a \<and> a \<le> e)"
  by (auto simp: ip_in_ranges_def list_ex_iff)

lemma exclude_entry_range:
  assumes "env_text env k = dotted a @ ''..'' @ dotted b" "a \<le> b"
  shows "exclude_entry env k = ([(a, b)], [])"
  using assms by (simp add: exclude_entry_def split_range trim_space_trimmed Let_def del: append.simps(2))

lemma exclude_entry_single:
  assumes "env_text env k = dotted a"
  shows "exclude_entry env k = ([(a, a)], [])"
  using assms by (simp add: exclude_entry_def split_single trim_space_trimmed Let_def)

lemma usable_contained: "usable_host x n \<Longrightarrow> net_contains n x"
  by (cases n) auto

lemma sorted_last_le:
  assumes "sorted_wrt (<) (map snd ps)" "(p :: string \<times> ip4) \<in> set ps"
  shows "snd p \<le> snd (last ps)"
  using assms
proof (induction ps)
  case (Cons q ps)
  show ?case
  proof (cases "ps = []")
    case False
    then have "snd q < snd (last ps)" using Cons.prems(1) by simp
    then have "snd q \<le> snd (last ps)" by (rule less_imp_le)
    with Cons False show ?thesis by auto
  qed (use Cons.prems in simp)
qed simp

text \<open>The scan of the anchors handed out finds nothing and sees every node and address.\<close>

lemma scan_derived:
  assumes "k < 31" "n AND mask4 k = n" "usable_host (ip_of4 g) (Net4 n k)" "vip < from"
    "list_all node_name nodes" "\<forall>x\<in>set nodes. CHR ''='' \<notin> set x" "distinct nodes"
    "anchor_run (Some g) (Net4 n k) from nodes = Some ps" "ps \<noteq> []"
  defines "st \<equiv> scan_public nodes (Some g) (Some vip) (Some (Net4 n k)) (join '','' (map (anchor_pair k) ps))"
  shows "as_found st = []" "as_hosts st = rev nodes" "as_addrs st = rev (map (ip_of4 \<circ> snd) ps)"
proof -
  note run = anchor_run_facts [OF assms(1,2) _ assms(8)]
  have names: "map fst ps = nodes" "sorted_wrt (<) (map snd ps)" using run assms(3) by auto
  have each: "from \<le> snd p" "snd p \<noteq> g" "usable_host (ip_of4 (snd p)) (Net4 n k)" if "p \<in> set ps" for p
    using run assms(3) that by auto
  define es where "es = map (\<lambda>p. (fst p, ip_of4 (snd p), Net4 (snd p AND mask4 k) k)) ps"
  have pairs: "pairs_of (join '','' (map (anchor_pair k) ps)) = map Some es"
  proof (subst pairs_of_anchors)
    show "\<forall>p\<in>set ps. node_name (fst p) \<and> CHR ''='' \<notin> set (fst p)"
      using assms(5,6) by (auto simp: names(1) [symmetric] list_all_iff)
  qed (use assms(1,9) in \<open>simp_all add: es_def comp_def\<close>)
  have "distinct (map snd ps)" using names(2) by (simp add: strict_sorted_iff)
  moreover have "map (fst \<circ> snd) es = map ip_of4 (map snd ps)" by (simp add: es_def comp_def)
  ultimately have addrs: "distinct (map (fst \<circ> snd) es)"
    by (simp add: distinct_map inj_on_def)
  have "map fst es = nodes" using names(1) by (simp add: es_def comp_def)
  moreover have "public_host_faults nodes (fst p) = []
      \<and> public_addr_faults (Some g) (Some vip) (Some (Net4 n k)) (ip_of4 (snd p)) (Net4 m k) = []"
    if "p \<in> set ps" for p m
    using each [OF that] usable_contained [OF each(3) [OF that]] assms(4) names(1) that
    by (force simp: public_host_faults_def public_addr_faults_def simp del: net_contains.simps usable_host.simps)
  ultimately have "clean_pairs (public_host_faults nodes) (public_addr_faults (Some g) (Some vip) (Some (Net4 n k))) (map Some es)"
    using addrs assms(7) by (auto simp: clean_pairs_def anchor_table_def es_def comp_def)
  then show found: "as_found st = []"
    unfolding st_def scan_public_def scan_clean_iff pairs [unfolded pairs_of_def] .
  then show "as_hosts st = rev nodes" "as_addrs st = rev (map (ip_of4 \<circ> snd) ps)"
    unfolding st_def scan_public_def using names(1)
    by (simp_all add: scan_clean_seen pairs [unfolded pairs_of_def] es_def comp_def)
qed

text \<open>The scalars the derivation leaves alone and the ones it writes.\<close>

definition l2_request :: "env_map \<Rightarrow> bool" where
  "l2_request env \<longleftrightarrow> underived env \<and> env_text env ''METALLB_MODE'' \<in> {[], ''l2''}
     \<and> env_text env ''EXT_NET_ANCHOR_INTERFACE'' \<noteq> []
     \<and> env_text env ''EXT_PUBLIC_VLAN_ID'' \<noteq> [] \<and> vlan_fault (env_text env ''EXT_PUBLIC_VLAN_ID'') = None
     \<and> env_text env ''EXT_NET_PUBLIC_ANCHOR_INTERFACE'' \<noteq> []
     \<and> nic_fault (env_at env ''EXT_NET_PUBLIC_ANCHOR_INTERFACE'') = None"

definition gateway_list :: "env_map \<Rightarrow> string list" where
  "gateway_list env = split_non_empty (env_at env ''KUBE_OVN_GW_NODES'')"

lemma clean_anchor_env:
  assumes network: "public_vip_network env = (Some vip, Some (Net4 n k), True)"
    and l2: "public_l2_vip env" and gw: "parse_ip4 (env_text env ''EXT_PUBLIC_GATEWAY'') = Some g" "vip \<noteq> g"
    "usable_host (ip_of4 vip) (Net4 n k)" "usable_host (ip_of4 g) (Net4 n k)"
    and nic: "when_set env ''EXT_NET_PUBLIC_ANCHOR_INTERFACE'' nic_fault = []"
    and vlan: "when_set env ''EXT_NET_PUBLIC_ANCHOR_VLAN'' vlan_fault = []"
    and scalars: "public_l2_scalars env = []" and nodes: "gateway_list env \<noteq> []"
    and ranges: "public_exclude_ranges env = (rs, [])" "ip_in_ranges (ip_of4 vip) rs" "ip_in_ranges (ip_of4 g) rs"
    and scan: "as_found st = []" "set (gateway_list env) \<subseteq> set (as_hosts st)"
      "\<forall>x\<in>set (as_addrs st). ip_in_ranges x rs"
    and st: "st = scan_public (gateway_list env) (Some g) (Some vip) (Some (Net4 n k))
      (env_text env ''EXT_NET_PUBLIC_ANCHOR_IPS'')"
  shows "validate_public_anchor env = []"
proof -
  have "public_addresses (Some vip) (Some g) (Some (Net4 n k)) True = []"
    using gw by (auto simp: public_addresses_def simp del: usable_host.simps net_contains.simps)
  moreover have "\<not> public_uncovered (Some vip) (Some g) (Some (Net4 n k)) rs (as_addrs st)"
    using ranges scan(3) by (auto simp: public_uncovered_def list_ex_iff simp del: net_contains.simps)
  moreover have "filter (\<lambda>g. g \<notin> set (as_hosts st)) (gateway_list env) = []"
    using scan(2) by (auto simp: filter_empty_conv)
  ultimately show ?thesis
    unfolding validate_public_anchor_def Let_def gateway_list_def [symmetric] network gw(1) ranges(1)
      prod.case st [symmetric]
    using l2 nic vlan scalars nodes scan(1) by simp
qed

text \<open>What the validator reads in the derived environment.\<close>

lemma derived_texts:
  assumes "l2_request env" "public_vip_network env = (Some vip, Some (Net4 n k), True)" "k < 31"
    "parse_ip4 (env_text env ''EXT_PUBLIC_GATEWAY'') = Some g"
    "anchor_run (Some g) (Net4 n k) (vip + 1) (gateway_list env) = Some ps" "ps \<noteq> []"
    "\<forall>p\<in>set ps. node_name (fst p) \<and> CHR ''='' \<notin> set (fst p)"
  defines "env' \<equiv> derive_public_anchor_env env"
  shows "env_at env' ''EXT_NET_PUBLIC_ANCHOR_VLAN'' = env_text env ''EXT_PUBLIC_VLAN_ID''"
    "env_text env' ''METALLB_INTERFACE'' = env_text env ''EXT_NET_PUBLIC_ANCHOR_INTERFACE''"
    "env_text env' ''EXT_NET_PUBLIC_ANCHOR_IPS'' = join '','' (map (anchor_pair k) ps)"
    "env_text env' ''EXT_PUBLIC_EXCLUDE_IPS_1'' = dotted vip @ ''..'' @ dotted (snd (last ps))"
    "env_text env' ''EXT_PUBLIC_EXCLUDE_IPS_2'' = dotted g"
    "join '','' (map (anchor_pair k) ps) \<noteq> []"
proof -
  have raw: "trim_space (join '','' (map (anchor_pair k) ps)) = join '','' (map (anchor_pair k) ps)"
    using pairs_of_anchors(1) [OF assms(6,7), of k] assms(3) by (simp add: trim_space_trimmed)
  show "join '','' (map (anchor_pair k) ps) \<noteq> []"
    using pairs_of_anchors(2) [OF assms(6,7), of k] assms(3) by simp
  have env': "env' = (derive_cloud_vlan env)
     (''EXT_NET_PUBLIC_ANCHOR_VLAN'' \<mapsto> env_text env ''EXT_PUBLIC_VLAN_ID'',
      ''METALLB_INTERFACE'' \<mapsto> env_text env ''EXT_NET_PUBLIC_ANCHOR_INTERFACE'',
      ''EXT_NET_PUBLIC_ANCHOR_IPS'' \<mapsto> join '','' (map (anchor_pair k) ps),
      ''EXT_PUBLIC_EXCLUDE_IPS_1'' \<mapsto> dotted vip @ ''..'' @ dotted (snd (last ps)),
      ''EXT_PUBLIC_EXCLUDE_IPS_2'' \<mapsto> dotted g)"
    using derive_bare [OF assms(2,4)] assms(1,5,6)
    by (simp add: env'_def l2_request_def gateway_list_def)
  show "env_at env' ''EXT_NET_PUBLIC_ANCHOR_VLAN'' = env_text env ''EXT_PUBLIC_VLAN_ID''"
    "env_text env' ''METALLB_INTERFACE'' = env_text env ''EXT_NET_PUBLIC_ANCHOR_INTERFACE''"
    "env_text env' ''EXT_NET_PUBLIC_ANCHOR_IPS'' = join '','' (map (anchor_pair k) ps)"
    "env_text env' ''EXT_PUBLIC_EXCLUDE_IPS_1'' = dotted vip @ ''..'' @ dotted (snd (last ps))"
    "env_text env' ''EXT_PUBLIC_EXCLUDE_IPS_2'' = dotted g"
    using trimmed_range [of vip "snd (last ps)"] trim_space_trimmed [OF trimmed_dotted, of g]
    by (simp_all only: env' env_text_upd env_at_upd raw trim_space_trimmed trim_space_idem env_text_def list.inject char.inject simp_thms)
qed

lemma underived_kept:
  assumes "k \<notin> derived_keys"
  shows "env_text (derive_public_anchor_env env) k = env_text env k"
    "env_at (derive_public_anchor_env env) k = env_at env k"
  using derive_other [OF assms] by (simp_all add: env_text_def env_at_def)

lemmas inputs_kept = not_derived [THEN underived_kept(1)] not_derived [THEN underived_kept(2)]

text \<open>C30. The anchors the installer derives are anchors its own validator accepts.  For a public L2 VIP whose
anchor keys were left open, with a VIP and a gateway that are distinct host addresses of the public
network and gateway nodes that have distinct names, whenever the derivation finds room for every node,
validatePublicAnchor reports nothing about the environment it wrote: the written map and ranges
read back, every node has one address, and all of them are reserved from tenant allocation.\<close>

theorem derived_anchors_accepted:
  assumes "l2_request env" "public_vip_network env = (Some vip, Some (Net4 n k), True)" "k < 31"
    "parse_ip4 (env_text env ''EXT_PUBLIC_GATEWAY'') = Some g" "vip \<noteq> g"
    "usable_host (ip_of4 vip) (Net4 n k)" "usable_host (ip_of4 g) (Net4 n k)"
    "gateway_list env \<noteq> []" "distinct (gateway_list env)"
    "\<forall>x\<in>set (gateway_list env). CHR ''='' \<notin> set x"
    "anchor_run (Some g) (Net4 n k) (vip + 1) (gateway_list env) \<noteq> None"
  shows "validate_public_anchor (derive_public_anchor_env env) = []"
proof -
  define env' where "env' = derive_public_anchor_env env"
  obtain ps where run: "anchor_run (Some g) (Net4 n k) (vip + 1) (gateway_list env) = Some ps"
    using assms(11) by auto
  have masked: "n AND mask4 k = n" using assms(2) by (rule public_network_masked)
  have up: "vip < vip + 1" using usable_range(2) [OF assms(3) masked assms(6)] by (rule next_greater)
  note facts = anchor_run_facts [OF assms(3) masked _ run]
  have names: "map fst ps = gateway_list env" "sorted_wrt (<) (map snd ps)"
    and above: "\<forall>p\<in>set ps. vip < snd p" using facts assms(7) up by auto
  have ne: "ps \<noteq> []" using names(1) assms(8) by auto
  have names_ok: "list_all node_name (gateway_list env)"
    by (simp add: gateway_list_def split_non_empty_names)
  then have "\<forall>p\<in>set ps. node_name (fst p) \<and> CHR ''='' \<notin> set (fst p)"
    using assms(10) by (auto simp: names(1) [symmetric] list_all_iff)
  note texts = derived_texts [OF assms(1-4) run ne this, folded env'_def]
  note kept = inputs_kept [of env, folded env'_def]
  let ?rs = "[(vip, snd (last ps)), (g, g)]"
  have covered: "\<forall>p\<in>set ps. vip \<le> snd p \<and> snd p \<le> snd (last ps)"
    using above sorted_last_le [OF names(2)] by (auto simp: less_imp_le)
  then have last: "vip \<le> snd (last ps)" using ne by simp
  have nodes: "gateway_list env' = gateway_list env" by (simp only: gateway_list_def kept)
  note scan = scan_derived [OF assms(3) masked assms(7) up names_ok assms(10,9) run ne]
  have request: "env_text env ''METALLB_MODE'' \<noteq> ''bgp''" "env_text env ''EXT_NET_ANCHOR_INTERFACE'' \<noteq> []"
    "env_text env ''EXT_PUBLIC_VLAN_ID'' \<noteq> []" "vlan_fault (env_text env ''EXT_PUBLIC_VLAN_ID'') = None"
    "env_text env ''EXT_NET_PUBLIC_ANCHOR_INTERFACE'' \<noteq> []"
    "nic_fault (env_at env ''EXT_NET_PUBLIC_ANCHOR_INTERFACE'') = None"
    using assms(1) by (auto simp: l2_request_def)
  have network: "public_vip_network env' = (Some vip, Some (Net4 n k), True)"
    using assms(2) public_vip_network_cong [of env' env] by (simp only: kept)
  have vlan: "env_text env' ''EXT_NET_PUBLIC_ANCHOR_VLAN'' = env_text env ''EXT_PUBLIC_VLAN_ID''"
    using texts(1) by (simp only: env_text_def trim_space_idem)
  show ?thesis
    unfolding env'_def [symmetric]
  proof (rule clean_anchor_env [OF network])
    show "public_l2_vip env'" using request by (simp only: public_l2_vip_def network kept snd_conv simp_thms)
    show "public_exclude_ranges env' = (?rs, [])"
      using exclude_entry_range [OF texts(4) last] exclude_entry_single [OF texts(5)]
      by (simp add: public_exclude_ranges_def)
    show "public_l2_scalars env' = []"
      using request texts(6) by (simp add: public_l2_scalars_def texts kept vlan)
    show "\<forall>x\<in>set (as_addrs (scan_public (gateway_list env') (Some g) (Some vip) (Some (Net4 n k))
        (env_text env' ''EXT_NET_PUBLIC_ANCHOR_IPS''))). ip_in_ranges x ?rs"
      using covered by (auto simp: nodes texts(3) scan(3) ip_in_ranges4)
  qed (use assms request last in \<open>simp_all add: nodes texts kept vlan scan ip_in_ranges4 when_set_def
        opt_problem_def del: usable_host.simps\<close>)
qed

definition public_request :: env_map where
  "public_request = map_of
    [(''EXT_PUBLIC_CIDR'', ''203.0.113.0/24''), (''EXT_PUBLIC_GATEWAY'', ''203.0.113.12''),
     (''EXT_PUBLIC_VLAN_ID'', ''200''), (''METALLB_FLOATING_IP'', ''203.0.113.10''),
     (''METALLB_MODE'', ''l2''), (''METALLB_INTERFACE'', ''CHANGEME''),
     (''EXT_NET_ANCHOR_INTERFACE'', ''br-ext-cloud''),
     (''EXT_NET_PUBLIC_ANCHOR_INTERFACE'', ''ext-pub-anchor''),
     (''KUBE_OVN_GW_NODES'', ''gw1, gw2,gw3'')]"

lemma public_request_facts:
  "l2_request public_request"
  "public_vip_network public_request = (Some 0xCB00710A, Some (Net4 0xCB007100 24), True)"
  "parse_ip4 (env_text public_request ''EXT_PUBLIC_GATEWAY'') = Some 0xCB00710C"
  "usable_host (ip_of4 0xCB00710A) (Net4 0xCB007100 24)"
  "usable_host (ip_of4 0xCB00710C) (Net4 0xCB007100 24)"
  "gateway_list public_request = [''gw1'', ''gw2'', ''gw3'']"
  "anchor_run (Some 0xCB00710C) (Net4 0xCB007100 24) (0xCB00710A + 1)
     (gateway_list public_request) \<noteq> None"
  by code_simp+

theorem derived_anchors_accepted_witness:
  "validate_public_anchor (derive_public_anchor_env public_request) = []"
  by (rule derived_anchors_accepted [OF public_request_facts(1,2) _ public_request_facts(3) _
        public_request_facts(4,5) _ _ _ public_request_facts(7)])
    (simp_all add: public_request_facts(6))

text \<open>C33. The anchor addresses stay inside the public network without wrapping around.  Counting upwards
from the address after the VIP, the derivation gives every gateway node, in order, one address; the
addresses strictly increase, none is the gateway or the VIP, and each lies strictly between the network
and the broadcast address, so the 32-bit counter never wraps.\<close>

theorem derived_anchors_bounded:
  assumes "anchor_run (Some g) (Net4 n k) (vip + 1) nodes = Some ps" "k < 31" "n AND mask4 k = n"
    "usable_host (ip_of4 vip) (Net4 n k)" "usable_host (ip_of4 g) (Net4 n k)"
  shows "map fst ps = nodes \<and> sorted_wrt (<) (map snd ps)
    \<and> (\<forall>a\<in>set (map snd ps). n < a \<and> a < n OR mask (32 - k) \<and> vip < a \<and> a \<noteq> g)"
proof -
  have up: "vip < vip + 1" using usable_range(2) [OF assms(2,3,4)] by (rule next_greater)
  have "\<forall>g'. Some g = Some g' \<longrightarrow> usable_host (ip_of4 g') (Net4 n k)" using assms(5) by blast
  note facts = anchor_run_facts [OF assms(2,3) this assms(1)]
  have "n < a \<and> a < n OR mask (32 - k) \<and> vip < a \<and> a \<noteq> g" if "a \<in> set (map snd ps)" for a
  proof -
    have a: "vip + 1 \<le> a" "Some g \<noteq> Some a" "usable_host (ip_of4 a) (Net4 n k)" using facts that by blast+
    then show ?thesis using usable_range [OF assms(2,3) a(3)] order.strict_trans2 [OF up a(1)] by blast
  qed
  then show ?thesis using facts by blast
qed

theorem derived_anchors_bounded_witness:
  "(0xCB007100 :: ip4) < 0xCB00710B \<and> (0xCB007100 :: ip4) < 0xCB00710D"
proof -
  have "anchor_run (Some 0xCB00710C) (Net4 0xCB007100 24) (0xCB00710A + 1) [''gw1'', ''gw2''] =
      Some [(''gw1'', 0xCB00710B), (''gw2'', 0xCB00710D)]" "0xCB007100 AND mask4 24 = 0xCB007100"
    by code_simp+
  moreover have "(24 :: nat) < 31" by simp
  ultimately show ?thesis using derived_anchors_bounded [OF _ _ _ public_request_facts(4,5)] by fastforce
qed

end
