(* ===== verification/Init_Options.thy ===== *)
theory Init_Options
  imports Preset_Checks
begin

text \<open>
  The options of \<open>bootstrap init\<close> (\<open>clusterinit/options.go\<close>) and every check of
  \<open>InitOptions.Validate\<close>: names and addresses, object storage, virtual machine storage, the
  accelerator configuration of \<open>gpu.go\<close>, the TLS mode, the repeatable flags, and the checks
  across flags.  The regular expressions of the code are bool-valued functions.  The parser of mail
  addresses (\<open>net/mail\<close>) is a parameter; only whether it accepts is used.
\<close>

section \<open>Regular expressions\<close>

definition lower_alnum :: "char \<Rightarrow> bool" where
  "lower_alnum c \<longleftrightarrow> (let n = of_char c :: nat in 97 \<le> n \<and> n \<le> 122 \<or> 48 \<le> n \<and> n \<le> 57)"

text \<open>\<open>[a-z0-9](?:[a-z0-9X]*[a-z0-9])?\<close> for a class \<open>X\<close> of further characters.\<close>

definition slug :: "char set \<Rightarrow> string \<Rightarrow> bool" where
  "slug X s \<longleftrightarrow> s \<noteq> [] \<and> list_all (\<lambda>c. lower_alnum c \<or> c \<in> X) s \<and> lower_alnum (hd s) \<and> lower_alnum (last s)"

definition cluster_name_regex :: "string \<Rightarrow> bool" where
  "cluster_name_regex s \<longleftrightarrow> list_all (slug {CHR ''-''}) (split_on (CHR ''/'') s)"

definition domain_regex :: "string \<Rightarrow> bool" where
  "domain_regex s \<longleftrightarrow> (let ls = split_on (CHR ''.'') s in
     2 \<le> length ls \<and> list_all (slug {CHR ''-''}) (butlast ls)
     \<and> 2 \<le> length (last ls) \<and> list_all (\<lambda>c. lower_alnum c \<and> \<not> re_digit c) (last ls))"

definition k8s_node_name_regex :: "string \<Rightarrow> bool" where
  "k8s_node_name_regex s \<longleftrightarrow> slug {CHR ''.'', CHR ''-''} s \<and> length s \<le> 253"

definition device_name_regex :: "string \<Rightarrow> bool" where
  "device_name_regex s \<longleftrightarrow> s \<noteq> [] \<and> alnum (hd s) \<and> list_all (\<lambda>c. alnum c \<or> c \<in> set ''/_.-'') s"

definition gpu_version_regex :: "string \<Rightarrow> bool" where
  "gpu_version_regex s \<longleftrightarrow> s \<noteq> [] \<and> alnum (hd s) \<and> list_all (\<lambda>c. alnum c \<or> c \<in> set ''._+-'') s"

text \<open>\<open>vmGoldenNameRegex\<close> and \<open>gpuProfileRegex\<close>.\<close>

definition profile_regex :: "string \<Rightarrow> bool" where
  "profile_regex s \<longleftrightarrow> slug {CHR ''.'', CHR ''-''} s"

text \<open>\<open>strings.ToLower\<close> as far as a match against lower case ASCII can tell: of the letters
  outside ASCII only the Kelvin sign and the capital I with a dot have an ASCII lower case; every
  other one stays outside ASCII, so leaving its bytes alone does not change the answer.\<close>

definition lower_text :: "string \<Rightarrow> string" where
  "lower_text s = map to_lower
     (replace_all (replace_all s [CHR 0xE2, CHR 0x84, CHR 0xAA] ''k'') [CHR 0xC4, CHR 0xB0] ''i'')"

section \<open>Options\<close>

text \<open>The further fields of \<open>InitOptions\<close> that \<open>Validate\<close> and the writers of the
  configuration read.  Enumerations are strings in the code and are kept so, since any text may
  arrive; maps are association lists over the map's keys.\<close>

record init_options = front_options +
  io_name :: string
  io_domain :: string
  io_node_external_ip :: string
  io_email :: string
  io_mode :: string
  io_fleet_mode :: string
  io_repo :: string
  io_provider :: string
  io_github_owner :: string
  io_github_repo :: string
  io_node_nics :: "(string \<times> string) list"
  io_rook_mode :: string
  io_rook_osd_node :: string
  io_rook_osd_size_gb :: int
  io_rook_osd_device :: string
  io_ceph_nodes :: "(string \<times> string) list"
  io_ceph_storage_class :: string
  io_ceph_osd_count :: int
  io_ceph_osd_volume_size_gb :: int
  io_s3_hostname :: string
  io_no_s3_exposure :: bool
  io_vm_storage_mode :: string
  io_vm_goldens :: "string list"
  io_vm_goldens_block :: "string list"
  io_tls_mode :: string
  io_tls_cert :: string
  io_tls_key :: string
  io_zone_id :: string
  io_region :: string
  io_access_key_id :: string
  io_secret_key_file :: string
  io_gpu_platform :: string
  io_gpu_driver_source :: string
  io_gpu_operator_version :: string
  io_nvidia_driver_version :: string
  io_nvidia_toolkit_version :: string
  io_hami_enabled :: bool
  io_gpu_shared_allocator :: string
  io_hami_version :: string
  io_hami_scheduler_version :: string
  io_gpu_node_modes :: "(string \<times> string) list"
  io_gpu_profiles :: "string list"
  io_allow_unassigned_gpus :: bool
  io_vgpu_secret_ready :: bool
  io_addons :: "string list"
  io_dry_run :: bool
  io_plan_file :: string
  io_apply_plan :: string
  io_no_push :: bool
  io_no_tty :: bool
  io_yes :: bool

text \<open>What is wrong with a flag; the wording of the messages is left out.\<close>

datatype opt_fault =
    Missing_Flag string | Bad_Flag string string | Repeated_Flag string string
  | Needs_Flag string string | Clash string string

abbreviation fault_if :: "opt_fault \<Rightarrow> bool \<Rightarrow> opt_fault list" where
  "fault_if f b \<equiv> (if b then [f] else [])"

section \<open>Single flags\<close>

definition validate_name :: "string \<Rightarrow> opt_fault list" where
  "validate_name s = (if s = [] then [Missing_Flag ''--name'']
     else fault_if (Bad_Flag ''--name'' s) (\<not> cluster_name_regex s))"

definition validate_domain :: "string \<Rightarrow> opt_fault list" where
  "validate_domain s = (if s = [] then [Missing_Flag ''--domain'']
     else fault_if (Bad_Flag ''--domain'' s) (\<not> domain_regex (lower_text s)))"

definition validate_node_ip :: "string \<Rightarrow> opt_fault list" where
  "validate_node_ip s = (if s = [] then [Missing_Flag ''--node-external-ip'']
     else fault_if (Bad_Flag ''--node-external-ip'' s) (parse_ip s = None))"

definition validate_email :: "(string \<Rightarrow> bool) \<Rightarrow> string \<Rightarrow> opt_fault list" where
  "validate_email mail_ok s = (if s = [] then [Missing_Flag ''--email'']
     else fault_if (Bad_Flag ''--email'' s) (\<not> mail_ok s))"

definition validate_preset :: "preset \<Rightarrow> opt_fault list" where
  "validate_preset p = (case p of
     Other_Preset s \<Rightarrow> [if s = [] then Missing_Flag ''--preset'' else Bad_Flag ''--preset'' s] | _ \<Rightarrow> [])"

definition one_of :: "string \<Rightarrow> string list \<Rightarrow> string \<Rightarrow> opt_fault list" where
  "one_of f ok s = (if s = [] then [Missing_Flag f] else fault_if (Bad_Flag f s) (s \<notin> set ok))"

definition all_modes :: "string list" where
  "all_modes = [''adopt'', ''auto'', ''install'', ''resume'']"

definition all_fleet_modes :: "string list" where
  "all_fleet_modes = [''existing-fleet'', ''existing-repo'', ''new-repo'']"

definition all_rook_modes :: "string list" where
  "all_rook_modes = [''rook-ceph-local'', ''rook-ceph-multi-node'', ''rook-ceph-pvc'', ''disabled'',
     ''external-ceph'', ''external-s3'']"

definition validate_mode :: "string \<Rightarrow> opt_fault list" where
  "validate_mode = one_of ''--mode'' all_modes"

definition validate_fleet_mode :: "string \<Rightarrow> opt_fault list" where
  "validate_fleet_mode = one_of ''--fleet-mode'' all_fleet_modes"

section \<open>Storage\<close>

definition strip_dev :: "string \<Rightarrow> string" where
  "strip_dev d = trim_prefix d ''/dev/''"

text \<open>\<open>validateObjectStorage\<close> rewrites the devices in place before it checks them.\<close>

definition canonical_devices :: "'a init_options_scheme \<Rightarrow> 'a init_options_scheme" where
  "canonical_devices o' =
     (if io_rook_mode o' = ''rook-ceph-local'' then o'\<lparr>io_rook_osd_device := strip_dev (io_rook_osd_device o')\<rparr>
      else if io_rook_mode o' = ''rook-ceph-multi-node''
      then o'\<lparr>io_ceph_nodes := map (apsnd strip_dev) (io_ceph_nodes o')\<rparr> else o')"

definition ceph_local_faults :: "'a init_options_scheme \<Rightarrow> opt_fault list" where
  "ceph_local_faults o' =
     (if io_rook_osd_node o' = [] then [Needs_Flag ''rook-ceph-local'' ''--rook-osd-node'']
      else fault_if (Bad_Flag ''--rook-osd-node'' (io_rook_osd_node o'))
        (\<not> k8s_node_name_regex (io_rook_osd_node o')))
     @ fault_if (Needs_Flag ''rook-ceph-local'' ''--rook-osd-size-gb'') (io_rook_osd_size_gb o' \<le> 0)
     @ fault_if (Bad_Flag ''--rook-osd-device'' (io_rook_osd_device o'))
        (io_rook_osd_device o' \<noteq> [] \<and> \<not> device_name_regex (io_rook_osd_device o'))"

definition ceph_nodes_faults :: "'a init_options_scheme \<Rightarrow> opt_fault list" where
  "ceph_nodes_faults o' =
     fault_if (Needs_Flag ''rook-ceph-multi-node'' ''--ceph-node'') (length (io_ceph_nodes o') \<noteq> 3)
     @ concat (map (\<lambda>n. let d = (case map_of (io_ceph_nodes o') n of None \<Rightarrow> [] | Some d \<Rightarrow> d) in
         fault_if (Bad_Flag ''--ceph-node'' n) (\<not> k8s_node_name_regex n)
         @ fault_if (Bad_Flag ''--ceph-node device'' d) (\<not> device_name_regex d))
         (sort (map fst (io_ceph_nodes o'))))"

definition ceph_pvc_faults :: "'a init_options_scheme \<Rightarrow> opt_fault list" where
  "ceph_pvc_faults o' =
     (if io_ceph_storage_class o' = [] then [Needs_Flag ''rook-ceph-pvc'' ''--ceph-storage-class'']
      else fault_if (Bad_Flag ''--ceph-storage-class'' (io_ceph_storage_class o'))
        (\<not> k8s_node_name_regex (io_ceph_storage_class o')))
     @ fault_if (Bad_Flag ''--ceph-osd-count'' []) (io_ceph_osd_count o' < 0)
     @ fault_if (Bad_Flag ''--ceph-osd-volume-size-gb'' []) (io_ceph_osd_volume_size_gb o' < 0)"

definition validate_object_storage :: "'a init_options_scheme \<Rightarrow> opt_fault list" where
  "validate_object_storage o' =
     (let m = io_rook_mode o' in
      if m = [] then []
      else if m \<notin> set all_rook_modes then [Bad_Flag ''--object-storage-mode'' m]
      else fault_if (Bad_Flag ''--s3-hostname'' (io_s3_hostname o'))
          (io_s3_hostname o' \<noteq> [] \<and> \<not> domain_regex (io_s3_hostname o'))
        @ (if m = ''rook-ceph-local'' then ceph_local_faults (canonical_devices o')
           else if m = ''rook-ceph-multi-node'' then ceph_nodes_faults (canonical_devices o')
           else if m = ''rook-ceph-pvc'' then ceph_pvc_faults o' else []))"

definition scaffolds_object_storage :: "string \<Rightarrow> bool" where
  "scaffolds_object_storage m \<longleftrightarrow> m \<in> set [''rook-ceph-local'', ''rook-ceph-multi-node'', ''rook-ceph-pvc'']"

definition all_vm_storage_modes :: "string list" where
  "all_vm_storage_modes = [''local'', ''shared-rbd'', ''shared-rbd-live-migration'']"

definition scaffolds_vm_storage :: "string \<Rightarrow> bool" where
  "scaffolds_vm_storage m \<longleftrightarrow> m \<in> set [''shared-rbd'', ''shared-rbd-live-migration'']"

definition validate_vm_storage :: "'a init_options_scheme \<Rightarrow> opt_fault list" where
  "validate_vm_storage o' =
     (let m = io_vm_storage_mode o' in
      if m \<noteq> [] \<and> m \<notin> set all_vm_storage_modes then [Bad_Flag ''--vm-storage-mode'' m]
      else concat (map (\<lambda>g. fault_if (Bad_Flag ''--vm-golden'' g) (\<not> profile_regex g)) (io_vm_goldens o'))
        @ concat (map (\<lambda>g. fault_if (Bad_Flag ''--vm-golden-block'' g) (\<not> profile_regex g)) (io_vm_goldens_block o'))
        @ fault_if (Needs_Flag ''--vm-golden'' ''--vm-storage-mode'')
            (io_vm_goldens o' \<noteq> [] \<and> \<not> scaffolds_vm_storage m)
        @ fault_if (Needs_Flag ''--vm-golden-block'' ''--vm-storage-mode'')
            (io_vm_goldens_block o' \<noteq> [] \<and> m \<noteq> ''shared-rbd-live-migration''))"

section \<open>Accelerators\<close>

definition canonical_gpu_profiles :: "string list \<Rightarrow> string list" where
  "canonical_gpu_profiles ps = sort (remdups (concat (map split_non_empty ps)))"

text \<open>\<open>effectiveGPUSharedAllocator\<close>.\<close>

definition effective_allocator :: "'a init_options_scheme \<Rightarrow> string" where
  "effective_allocator o' =
     (if io_gpu_shared_allocator o' = [] then ''hami-device-plugin'' else io_gpu_shared_allocator o')"

definition has_mode :: "'a init_options_scheme \<Rightarrow> string \<Rightarrow> bool" where
  "has_mode o' m \<longleftrightarrow> m \<in> set (map snd (io_gpu_node_modes o'))"

definition shared_node :: "'a init_options_scheme \<Rightarrow> bool" where
  "shared_node o' \<longleftrightarrow> has_mode o' ''pod-hami'' \<or> has_mode o' ''pod-hami-dra''"

definition all_gpu_node_modes :: "string list" where
  "all_gpu_node_modes = [''disabled'', ''pod-hami'', ''pod-hami-dra'', ''vm-passthrough'', ''vm-vgpu'']"

definition gpu_platform_faults :: "'a init_options_scheme \<Rightarrow> opt_fault list" where
  "gpu_platform_faults o' =
     (let enabled = (io_gpu_platform o' = ''enabled''); detect = (io_gpu_platform o' = ''detect-only'') in
      fault_if (Bad_Flag ''--gpu-driver-source'' (io_gpu_driver_source o'))
        (io_gpu_driver_source o' \<noteq> ''gpu-operator'' \<and> io_gpu_driver_source o' \<noteq> ''preinstalled'')
      @ fault_if (Needs_Flag ''--gpu-platform'' ''--gpu-node-mode'') (enabled \<and> io_gpu_node_modes o' = [])
      @ fault_if (Clash ''--gpu-platform'' ''--gpu-node-mode'') (detect \<and> io_gpu_node_modes o' \<noteq> [])
      @ fault_if (Clash ''--gpu-platform'' ''--gpu-profile'')
          (detect \<and> (canonical_gpu_profiles (io_gpu_profiles o') \<noteq> [] \<or> io_hami_enabled o' \<or> io_vgpu_secret_ready o'))
      @ fault_if (Needs_Flag ''--gpu-platform'' ''--allow-unassigned-gpus'')
          (detect \<and> \<not> io_allow_unassigned_gpus o')
      @ concat (map (\<lambda>(n, m). fault_if (Bad_Flag ''--gpu-node-mode'' n) (\<not> k8s_node_name_regex n)
          @ fault_if (Bad_Flag ''--gpu-node-mode'' m) (m \<notin> set all_gpu_node_modes)) (io_gpu_node_modes o'))
      @ fault_if (Needs_Flag ''--gpu-platform'' ''an active node'')
          (enabled \<and> \<not> shared_node o' \<and> \<not> has_mode o' ''vm-passthrough'' \<and> \<not> has_mode o' ''vm-vgpu''))"

definition gpu_allocator_faults :: "'a init_options_scheme \<Rightarrow> opt_fault list" where
  "gpu_allocator_faults o' =
     (let a = effective_allocator o'; legacy = (a = ''hami-device-plugin''); dra = (a = ''dra'' \<or> a = ''auto'') in
      fault_if (Needs_Flag ''pod-hami'' ''--hami-enabled'') (shared_node o' \<and> \<not> io_hami_enabled o')
      @ fault_if (Needs_Flag ''--hami-enabled'' ''a pod-hami node'') (io_hami_enabled o' \<and> \<not> shared_node o')
      @ fault_if (Bad_Flag ''--gpu-shared-allocator'' (io_gpu_shared_allocator o'))
          (io_gpu_shared_allocator o' \<notin> {[], ''auto'', ''dra'', ''hami-device-plugin''})
      @ fault_if (Needs_Flag ''hami-device-plugin'' ''a pod-hami node'')
          (io_hami_enabled o' \<and> legacy \<and> \<not> has_mode o' ''pod-hami'')
      @ fault_if (Needs_Flag a ''a pod-hami-dra node'') (io_hami_enabled o' \<and> dra \<and> \<not> has_mode o' ''pod-hami-dra'')
      @ fault_if (Clash ''pod-hami'' a) (has_mode o' ''pod-hami'' \<and> \<not> legacy)
      @ fault_if (Clash ''pod-hami-dra'' a) (has_mode o' ''pod-hami-dra'' \<and> legacy)
      @ fault_if (Needs_Flag ''vm-vgpu'' ''--vgpu-secret-ready'') (has_mode o' ''vm-vgpu'' \<and> \<not> io_vgpu_secret_ready o'))"

text \<open>The released compatibility tuple.\<close>

definition default_versions :: "(string \<times> string) list" where
  "default_versions =
     [(''--gpu-operator-version'', ''v26.3.3''), (''--nvidia-driver-version'', ''580.126.20''),
      (''--nvidia-toolkit-version'', ''v1.19.1''), (''--hami-version'', ''2.9.0''),
      (''--hami-scheduler-version'', ''v1.35.3'')]"

definition version_fields :: "'a init_options_scheme \<Rightarrow> (string \<times> string) list" where
  "version_fields o' =
     [(''--gpu-operator-version'', io_gpu_operator_version o'),
      (''--nvidia-driver-version'', io_nvidia_driver_version o'),
      (''--nvidia-toolkit-version'', io_nvidia_toolkit_version o'),
      (''--hami-version'', io_hami_version o'), (''--hami-scheduler-version'', io_hami_scheduler_version o')]"

definition gpu_version_faults :: "'a init_options_scheme \<Rightarrow> opt_fault list" where
  "gpu_version_faults o' =
     (let operator = (io_gpu_driver_source o' = ''gpu-operator'') in
      fault_if (Needs_Flag ''gpu-operator'' ''--gpu-operator-version'')
        (operator \<and> trim_space (io_gpu_operator_version o') = [])
      @ concat (map (\<lambda>(f, v). fault_if (Bad_Flag f v) (v \<noteq> [] \<and> \<not> gpu_version_regex v)) (version_fields o'))
      @ (if io_gpu_platform o' = ''enabled'' \<and> operator
         then concat (map (\<lambda>((f, v), (_, want)). fault_if (Bad_Flag f v) (v \<noteq> want))
           (take (if io_hami_enabled o' then 5 else 3) (zip (version_fields o') default_versions)))
         else [])
      @ fault_if (Needs_Flag ''pod-hami'' ''--hami-version'')
          (has_mode o' ''pod-hami'' \<and> (trim_space (io_hami_version o') = [] \<or> trim_space (io_hami_scheduler_version o') = [])))"

definition gpu_profile_faults :: "'a init_options_scheme \<Rightarrow> string \<Rightarrow> opt_fault list" where
  "gpu_profile_faults o' p =
     (if \<not> profile_regex p then [Bad_Flag ''--gpu-profile'' p]
      else if has_suffix p ''-hami'' \<and> \<not> shared_node o' then [Needs_Flag p ''pod-hami'']
      else if has_suffix p ''-passthrough'' \<and> \<not> has_mode o' ''vm-passthrough'' then [Needs_Flag p ''vm-passthrough'']
      else if has_suffix p ''-vgpu'' \<and> \<not> has_mode o' ''vm-vgpu'' then [Needs_Flag p ''vm-vgpu''] else [])"

definition validate_gpu :: "'a init_options_scheme \<Rightarrow> opt_fault list" where
  "validate_gpu o' =
     (let p = io_gpu_platform o'; profiles = canonical_gpu_profiles (io_gpu_profiles o') in
      if p \<notin> {[], ''disabled'', ''enabled'', ''detect-only''} then [Bad_Flag ''--gpu-platform'' p]
      else if p = [] \<or> p = ''disabled''
      then fault_if (Clash ''--gpu-platform'' ''disabled'')
        (io_gpu_node_modes o' \<noteq> [] \<or> profiles \<noteq> [] \<or> io_hami_enabled o' \<or> io_allow_unassigned_gpus o' \<or> io_vgpu_secret_ready o')
      else gpu_platform_faults o' @ gpu_allocator_faults o' @ gpu_version_faults o'
        @ concat (map (gpu_profile_faults o') profiles))"

text \<open>\<open>ParseGPUNodeModes\<close> on the comma separated fields of all values; the error names a node that is
  declared twice or a field that is no assignment.\<close>

fun parse_modes :: "string list \<Rightarrow> (string \<times> string) list \<Rightarrow> opt_fault + (string \<times> string) list" where
  "parse_modes [] out = Inr out"
| "parse_modes (p0 # ps) out =
     (let p = trim_space p0 in
      if p = [] then parse_modes ps out
      else (case cut (CHR ''='') p of
          None \<Rightarrow> Inl (Bad_Flag ''--gpu-node-mode'' p)
        | Some (n, m) \<Rightarrow>
            if trim_space n = [] \<or> trim_space m = [] then Inl (Bad_Flag ''--gpu-node-mode'' p)
            else if trim_space n \<in> set (map fst out) then Inl (Repeated_Flag ''--gpu-node-mode'' (trim_space n))
            else parse_modes ps (out @ [(trim_space n, trim_space m)])))"

definition parse_gpu_node_modes :: "string list \<Rightarrow> opt_fault + (string \<times> string) list" where
  "parse_gpu_node_modes values = parse_modes (concat (map (split_on (CHR '','')) values)) []"

section \<open>Repeatable flags\<close>

definition allowed_addons :: "string list" where
  "allowed_addons = [''metallb'', ''sso-google'', ''stripe-billing'', ''velero'']"

definition addon_step :: "string list \<times> opt_fault list \<Rightarrow> string \<Rightarrow> string list \<times> opt_fault list" where
  "addon_step st a = (let (seen, es) = st in
     if a \<notin> set allowed_addons then (seen, es @ [Bad_Flag ''--addon'' a])
     else if a \<in> set seen then (seen, es @ [Repeated_Flag ''--addon'' a])
     else (a # seen, es))"

definition validate_addons :: "string list \<Rightarrow> opt_fault list" where
  "validate_addons as = snd (foldl addon_step ([], []) as)"

definition ingress_node_step :: "string list \<times> opt_fault list \<Rightarrow> string \<Rightarrow> string list \<times> opt_fault list" where
  "ingress_node_step st n0 = (let (seen, es) = st; n = trim_space n0 in
     if n = [] then (seen, es @ [Missing_Flag ''--ingress-node''])
     else (n # seen, es @ fault_if (Repeated_Flag ''--ingress-node'' n) (n \<in> set seen)))"

definition validate_ingress_nodes :: "'a init_options_scheme \<Rightarrow> opt_fault list" where
  "validate_ingress_nodes o' =
     snd (foldl ingress_node_step ([], []) (fo_ingress_nodes o'))
     @ fault_if (Bad_Flag ''--ingress-address-layer'' (fo_ingress_layer o'))
         (fo_ingress_layer o' \<noteq> [] \<and> fo_ingress_layer o' \<notin> {layer_none, layer_l2, layer_bgp})"

definition validate_node_nics :: "(string \<times> string) list \<Rightarrow> opt_fault list" where
  "validate_node_nics nics = concat (map (\<lambda>n.
     let i = (case map_of nics n of None \<Rightarrow> [] | Some i \<Rightarrow> i) in
     if n = [] then [Missing_Flag ''--node-nic'']
     else if i = [] then [Bad_Flag ''--node-nic'' n]
     else fault_if (Bad_Flag n i) (nic_fault i \<noteq> None)) (sort (map fst nics)))"

text \<open>\<open>isUpperKey\<close>.\<close>

definition upper :: "char \<Rightarrow> bool" where
  "upper c \<longleftrightarrow> (let n = of_char c :: nat in 65 \<le> n \<and> n \<le> 90)"

definition is_upper_key :: "string \<Rightarrow> bool" where
  "is_upper_key k \<longleftrightarrow> k \<noteq> [] \<and> list_all (\<lambda>c. upper c \<or> re_digit c \<or> c = CHR ''_'') k \<and> upper (hd k)"

definition validate_sets :: "(string \<times> string) list \<Rightarrow> opt_fault list" where
  "validate_sets sets = concat (map (\<lambda>k.
     if k = [] then [Missing_Flag ''--set''] else fault_if (Bad_Flag ''--set'' k) (\<not> is_upper_key k))
     (sort (map fst sets)))"

text \<open>\<open>ParseSetPairs\<close>: \<open>None\<close> at the first malformed, empty or repeated key.\<close>

fun parse_pairs :: "string list \<Rightarrow> (string \<times> string) list \<Rightarrow> (string \<times> string) list option" where
  "parse_pairs [] out = Some out"
| "parse_pairs (p # ps) out = (case cut (CHR ''='') p of
     None \<Rightarrow> None
   | Some (k, v) \<Rightarrow>
       if trim_space k = [] \<or> trim_space k \<in> set (map fst out) then None
       else parse_pairs ps (out @ [(trim_space k, trim_space v)]))"

definition parse_set_pairs :: "string list \<Rightarrow> (string \<times> string) list option" where
  "parse_set_pairs ps = parse_pairs ps []"

section \<open>Certificates\<close>

definition validate_tls_mode :: "string \<Rightarrow> string \<Rightarrow> string \<Rightarrow> opt_fault option" where
  "validate_tls_mode mode cert key =
     (if mode \<in> {[], ''acme'', ''acme-dns01-route53''}
      then if cert \<noteq> [] \<or> key \<noteq> [] then Some (Clash ''--tls-cert'' ''--tls-mode'') else None
      else if mode = ''byo-wildcard''
      then if cert = [] \<or> key = [] then Some (Needs_Flag ''--tls-mode'' ''--tls-cert'') else None
      else Some (Bad_Flag ''--tls-mode'' mode))"

definition canonical_tls_mode :: "string \<Rightarrow> string" where
  "canonical_tls_mode mode = (if mode = ''acme'' then [] else mode)"

definition promoted_keys :: "string list" where
  "promoted_keys = [''TLS_MODE'', ''DNS01_ROUTE53_ZONE_ID'', ''DNS01_ROUTE53_REGION'',
     ''DNS01_ROUTE53_ACCESS_KEY_ID'', ''INGRESS_ADDRESS_LAYER'']"

definition validate_dns01 :: "'a init_options_scheme \<Rightarrow> opt_fault option" where
  "validate_dns01 o' =
     (case find (\<lambda>k. map_of (fo_sets o') k \<noteq> None) promoted_keys of
        Some k \<Rightarrow> Some (Clash ''--set'' k)
      | None \<Rightarrow>
          if canonical_tls_mode (io_tls_mode o') \<noteq> ''acme-dns01-route53''
          then if io_zone_id o' \<noteq> [] \<or> io_region o' \<noteq> [] \<or> io_access_key_id o' \<noteq> [] \<or> io_secret_key_file o' \<noteq> []
            then Some (Clash ''--dns01-route53'' ''--tls-mode'') else None
          else if io_zone_id o' = [] \<or> io_access_key_id o' = [] then Some (Needs_Flag ''--tls-mode'' ''--dns01-route53-zone-id'')
          else None)"

section \<open>The whole check\<close>

definition opt_list :: "'e option \<Rightarrow> 'e list" where
  "opt_list e = (case e of None \<Rightarrow> [] | Some x \<Rightarrow> [x])"

definition structural_faults :: "(string \<Rightarrow> bool) \<Rightarrow> 'a init_options_scheme \<Rightarrow> opt_fault list" where
  "structural_faults mail_ok o' =
     validate_name (io_name o') @ validate_domain (io_domain o') @ validate_node_ip (io_node_external_ip o')
     @ validate_email mail_ok (io_email o') @ validate_preset (fo_preset o') @ validate_mode (io_mode o')
     @ validate_fleet_mode (io_fleet_mode o') @ validate_object_storage o'
     @ validate_vm_storage o' @ validate_gpu o' @ validate_addons (io_addons o')
     @ validate_node_nics (io_node_nics o') @ validate_sets (fo_sets o')
     @ opt_list (validate_tls_mode (io_tls_mode o') (io_tls_cert o') (io_tls_key o'))
     @ opt_list (validate_dns01 o') @ validate_ingress_nodes o'"

datatype validate_error =
    Validation "opt_fault list" | Mode_Auto_Unresolved | Addons_Not_Wired
  | Storage_Mode_Required | Storage_Mode_Stub | Needs_Rbd_Pool | Live_Migration_Deferred
  | Owner_Or_Repo_Missing "string list" | Unknown_Provider | Existing_Fleet_Needs_Repo
  | Dry_Run_And_Apply | Plan_File_Conflict | Apply_Gate

definition owner_repo_missing :: "'a init_options_scheme \<Rightarrow> string list" where
  "owner_repo_missing o' = (if io_github_owner o' = [] then [''--github-owner''] else [])
     @ (if io_github_repo o' = [] then [''--github-repo''] else [])"

text \<open>The checks across flags, in the order of the code; the first that fails decides.\<close>

definition cross_flag_error :: "'a init_options_scheme \<Rightarrow> validate_error option" where
  "cross_flag_error o' =
     (let rook = io_rook_mode o'; vm = io_vm_storage_mode o' in
      if io_mode o' = ''auto'' then Some Mode_Auto_Unresolved
      else if io_addons o' \<noteq> [] then Some Addons_Not_Wired
      else if rook = [] then Some Storage_Mode_Required
      else if rook = ''external-ceph'' \<or> rook = ''external-s3'' then Some Storage_Mode_Stub
      else if scaffolds_vm_storage vm \<and> \<not> scaffolds_object_storage rook then Some Needs_Rbd_Pool
      else if vm = ''shared-rbd-live-migration'' then Some Live_Migration_Deferred
      else if io_fleet_mode o' \<in> set all_fleet_modes \<and> \<not> io_no_push o' \<and> owner_repo_missing o' \<noteq> []
      then Some (Owner_Or_Repo_Missing (owner_repo_missing o'))
      else if io_provider o' \<notin> {[], ''github'', ''gitlab''} then Some Unknown_Provider
      else if io_fleet_mode o' = ''existing-fleet'' \<and> io_repo o' = [] then Some Existing_Fleet_Needs_Repo
      else if io_dry_run o' \<and> io_apply_plan o' \<noteq> [] then Some Dry_Run_And_Apply
      else if io_apply_plan o' \<noteq> [] \<and> io_plan_file o' \<noteq> [] \<and> io_plan_file o' \<noteq> io_apply_plan o'
      then Some Plan_File_Conflict
      else if io_no_tty o' \<and> \<not> io_yes o' \<and> io_apply_plan o' = [] \<and> \<not> io_dry_run o' then Some Apply_Gate
      else None)"

text \<open>\<open>Validate\<close>: the verdict and the options, whose devices are now canonical.\<close>

definition validate :: "(string \<Rightarrow> bool) \<Rightarrow> 'a init_options_scheme \<Rightarrow> validate_error option \<times> 'a init_options_scheme" where
  "validate mail_ok o' =
     (let es = structural_faults mail_ok o' in
      (if es \<noteq> [] then Some (Validation es) else cross_flag_error o', canonical_devices o'))"

end
