(* ===== verification/Option_Gates.thy ===== *)
theory Option_Gates
  imports Init_Options Front_Door
begin

text \<open>
  What \<open>InitOptions.Validate\<close> guarantees of the options it accepts: alone (a coherent request,
  values that are safe to write, one owner per accelerator node), and together with the preset gate
  that runs after it (a front door that its ingress nodes announce).
\<close>

section \<open>Acceptance, check by check\<close>

lemma validate_None_iff:
  "fst (validate mail_ok o') = None \<longleftrightarrow> structural_faults mail_ok o' = [] \<and> cross_flag_error o' = None"
  by (simp add: validate_def Let_def)

lemma opt_list_Nil [simp]: "opt_list e = [] \<longleftrightarrow> e = None"
  by (auto simp: opt_list_def split: option.splits)

lemma structural_clean:
  assumes "structural_faults mail_ok o' = []"
  shows "validate_name (io_name o') = []" "validate_domain (io_domain o') = []"
    "validate_preset (fo_preset o') = []"
    "validate_mode (io_mode o') = []" "validate_fleet_mode (io_fleet_mode o') = []"
    "validate_object_storage o' = []" "validate_vm_storage o' = []" "validate_gpu o' = []"
    "validate_sets (fo_sets o') = []" "validate_node_nics (io_node_nics o') = []"
    "validate_dns01 o' = None" "validate_ingress_nodes o' = []"
    "validate_tls_mode (io_tls_mode o') (io_tls_cert o') (io_tls_key o') = None"
  using assms unfolding structural_faults_def append_is_Nil_conv opt_list_Nil by blast+

section \<open>The address layer comes from its flag alone\<close>

lemma promoted_absent:
  assumes "validate_dns01 o' = None" "k \<in> set promoted_keys"
  shows "map_of (fo_sets o') k = None"
  using assms by (auto simp: validate_dns01_def find_None_iff split: option.splits if_splits)

lemma no_default_layer: "spec_for p = Some spec \<Longrightarrow> sp_defaults spec ''INGRESS_ADDRESS_LAYER'' = None"
proof -
  have "list_all (\<lambda>s. sp_defaults s ''INGRESS_ADDRESS_LAYER'' = None)
    [internal_only_preset, cloud_vlan_preset, cloud_public_vlan_preset, custom_preset]"
    by code_simp
  then show "spec_for p = Some spec \<Longrightarrow> sp_defaults spec ''INGRESS_ADDRESS_LAYER'' = None"
    by (cases p) auto
qed

lemma flag_layer_plain:
  assumes "validate_ingress_nodes o' = []"
  shows "fo_ingress_layer o' \<in> {[], layer_none, layer_l2, layer_bgp}"
    "trim_space (fo_ingress_layer o') = fo_ingress_layer o'"
proof -
  show flag: "fo_ingress_layer o' \<in> {[], layer_none, layer_l2, layer_bgp}"
    using assms by (auto simp: validate_ingress_nodes_def split: if_splits)
  show "trim_space (fo_ingress_layer o') = fo_ingress_layer o'"
    using flag by (elim insertE emptyE) (simp_all add: trim_space_code printable_def)
qed

lemma layer_from_flag:
  assumes "structural_faults mail_ok o' = []" "resolved_env_for o' = Inr env"
  shows "front_door_layer env = (if fo_ingress_layer o' = [] then layer_none else fo_ingress_layer o')"
proof -
  define flag where "flag = fo_ingress_layer o'"
  note plain = flag_layer_plain [OF structural_clean(12) [OF assms(1)], folded flag_def]
  define sets where "sets = (if flag \<noteq> [] then (map_of (fo_sets o'))(''INGRESS_ADDRESS_LAYER'' \<mapsto> flag)
    else map_of (fo_sets o'))"
  have "''INGRESS_ADDRESS_LAYER'' \<in> set promoted_keys" by code_simp
  then have set: "sets ''INGRESS_ADDRESS_LAYER'' = (if flag = [] then None else Some flag)"
    using promoted_absent [OF structural_clean(11) [OF assms(1)]] by (simp add: sets_def)
  have "env_map_for (fo_preset o') sets = Inr env"
    using assms(2) unfolding resolved_env_for_def Let_def flag_def [symmetric] plain(2) sets_def by simp
  then obtain spec where spec: "spec_for (fo_preset o') = Some spec"
    and env: "env = (if fo_preset o' = Custom_Preset then sp_defaults spec ++ sets
       else derive_public_anchor_env (with_layer sets (sp_defaults spec ++ sets)))"
    by (elim env_map_for_Inr)
  define out where "out = sp_defaults spec ++ sets"
  have out: "env_at out ''INGRESS_ADDRESS_LAYER'' = flag"
    using no_default_layer [OF spec] set by (simp add: out_def env_at_def map_add_def)
  show ?thesis
  proof (cases "fo_preset o' = Custom_Preset")
    case True
    then have "env_text env ''INGRESS_ADDRESS_LAYER'' = trim_space flag"
      using out by (simp only: env out_def [symmetric] env_text_def if_True simp_thms)
    then show ?thesis by (simp only: front_door_layer_def Let_def plain(2) flag_def [symmetric])
  next
    case False
    then have "env ''INGRESS_ADDRESS_LAYER'' = with_layer sets out ''INGRESS_ADDRESS_LAYER''"
      by (simp only: env out_def [symmetric] derive_other [OF not_derived(1)] if_False)
    then have "env_text env ''INGRESS_ADDRESS_LAYER'' =
        trim_space (fst (resolve_address_layer flag (env_at out ''METALLB_FLOATING_IP'')))"
      by (simp only: env_text_def env_at_def [of env] with_layer_layer out option.case)
    also have "\<dots> = trim_space (if flag = [] then layer_none else flag)"
      unfolding resolve_address_layer_def Let_def plain(2) by simp
    also have "\<dots> = (if flag = [] then layer_none else flag)"
      using plain(2) by (cases "flag = []") (simp_all add: trim_space_code [of layer_none] printable_def)
    finally show ?thesis by (simp add: front_door_layer_def flag_def)
  qed
qed

text \<open>C11. A virtual address that both gates let through has announcers.  When the options pass Validate and
then the preset gate, the layer in the environment is the one the flag asked for, and that of no address
when the flag is empty; if it is a VIP layer and gateway nodes are declared, some node will carry the front door and every such node is a gateway
node, so it can announce the address; and no accepted set of ingress nodes has both control-plane and
worker nodes when the control plane is known.\<close>

theorem front_door_announced:
  assumes "fst (validate mail_ok o') = None" "validate_preset_required_keys dur o' = None"
    "resolved_env_for o' = Inr env"
  shows "front_door_layer env = (if fo_ingress_layer o' = [] then layer_none else fo_ingress_layer o')
    \<and> (front_door_layer env \<noteq> layer_none \<and> gateway_nodes env \<noteq> [] \<longrightarrow>
      fst (resolve_ingress_nodes o' env) \<noteq> []
      \<and> set (fst (resolve_ingress_nodes o' env)) \<subseteq> set (gateway_nodes env))
    \<and> (\<forall>on off. classify_placement (fst (resolve_ingress_nodes o' env)) (fo_control_plane_nodes o')
        = Some (on, off) \<longrightarrow> on = [] \<or> off = [])"
proof -
  have clean: "structural_faults mail_ok o' = []" using assms(1) by (simp add: validate_None_iff)
  have "front_door_layer env \<noteq> layer_none \<Longrightarrow> layer_requires_vip (fo_ingress_layer o')"
    using layer_from_flag [OF clean assms(3)] flag_layer_plain [OF structural_clean(12) [OF clean]]
    by (auto simp: layer_requires_vip_def split: if_splits)
  moreover have "gateway_nodes env \<noteq> [] \<Longrightarrow> fst (resolve_ingress_nodes o' env) \<noteq> []"
    by (simp add: resolve_ingress_nodes_def Let_def)
  ultimately show ?thesis using ingress_nodes_announced [OF assms(2,3)] layer_from_flag [OF clean assms(3)] by blast
qed


text \<open>An installation with a virtual address and one exact accelerator node per kind of use.\<close>

definition demo_init :: init_options where
  "demo_init = front_options.extend demo_options
     (init_options.fields ''eu/dc1'' ''cloud.example.com'' ''203.0.113.10'' ''ops@example.com'' ''install'' ''new-repo''
       [] [] ''acme'' ''fleet'' [(''m1'', ''eno1'')] ''rook-ceph-local'' ''m1'' 100 ''/dev/sdb'' [] [] 0 0 [] False
       ''local'' [] [] ''acme'' [] [] [] [] [] [] ''enabled'' ''gpu-operator'' ''v26.3.3'' ''580.126.20'' ''v1.19.1''
       True [] ''2.9.0'' ''v1.35.3'' [(''g1'', ''pod-hami''), (''g2'', ''vm-passthrough'')]
       [''a100-hami, a100-passthrough''] False False [] False [] [] False False True)"

lemma demo_init_valid: "fst (validate (\<lambda>_. True) demo_init) = None"
  by code_simp

lemma demo_init_accepted:
  "validate_preset_required_keys (\<lambda>_. None) demo_init = None" "resolved_env_for demo_init = Inr demo_env"
proof -
  show "validate_preset_required_keys (\<lambda>_. None) demo_init = None" by code_simp
  have "fo_preset demo_init = fo_preset demo_options" "fo_sets demo_init = fo_sets demo_options"
    "fo_ingress_layer demo_init = fo_ingress_layer demo_options"
    by (simp_all add: demo_init_def front_options.extend_def)
  then have "resolved_env_for demo_init = resolved_env_for demo_options"
    by (simp only: resolved_env_for_def)
  then show "resolved_env_for demo_init = Inr demo_env" by (simp only: demo_resolved)
qed

lemma demo_init_nodes: "fst (resolve_ingress_nodes demo_init demo_env) = [''gw1'']"
  by code_simp

theorem front_door_announced_witness: "set (fst (resolve_ingress_nodes demo_init demo_env)) \<subseteq> set (gateway_nodes demo_env)
    \<and> fst (resolve_ingress_nodes demo_init demo_env) \<noteq> []"
proof -
  have "front_door_layer demo_env \<noteq> layer_none \<and> gateway_nodes demo_env \<noteq> []" by (simp only: demo_values) code_simp
  then show ?thesis using front_door_announced [OF demo_init_valid demo_init_accepted] by blast
qed


section \<open>Options once validated stay valid\<close>

lemma strip_dev_clean: "device_name_regex (strip_dev d) \<Longrightarrow> strip_dev (strip_dev d) = strip_dev d"
proof -
  assume "device_name_regex (strip_dev d)"
  then have "strip_dev d \<noteq> [] \<and> hd (strip_dev d) \<noteq> CHR ''/''"
    by (auto simp: device_name_regex_def alnum_def)
  then have "\<not> has_prefix (strip_dev d) ''/dev/''" by (cases "strip_dev d") auto
  then show ?thesis by (simp add: strip_dev_def trim_prefix_def)
qed

lemma canonical_devices_other [simp]:
  "io_rook_mode (canonical_devices o') = io_rook_mode o'" "io_rook_osd_node (canonical_devices o') = io_rook_osd_node o'"
  by (simp_all add: canonical_devices_def)

lemma local_devices_settle:
  assumes "io_rook_mode o' = ''rook-ceph-local''" "ceph_local_faults (canonical_devices o') = []"
  shows "canonical_devices (canonical_devices o') = canonical_devices o'"
proof -
  have "strip_dev (io_rook_osd_device o') = [] \<or> device_name_regex (strip_dev (io_rook_osd_device o'))"
    using assms by (auto simp: ceph_local_faults_def canonical_devices_def split: if_splits)
  moreover have "strip_dev [] = []" by (simp add: strip_dev_def trim_prefix_def)
  ultimately have "strip_dev (strip_dev (io_rook_osd_device o')) = strip_dev (io_rook_osd_device o')"
    using strip_dev_clean by fastforce
  with assms(1) show ?thesis by (simp add: canonical_devices_def)
qed

lemma nodes_devices_settle:
  assumes "io_rook_mode o' = ''rook-ceph-multi-node''" "ceph_nodes_faults (canonical_devices o') = []"
    and keys: "distinct (map fst (io_ceph_nodes o'))"
  shows "canonical_devices (canonical_devices o') = canonical_devices o'"
proof -
  define nodes where "nodes = map (apsnd strip_dev) (io_ceph_nodes o')"
  have c: "io_ceph_nodes (canonical_devices o') = nodes"
    using assms(1) by (simp add: canonical_devices_def nodes_def)
  have d: "distinct (map fst nodes)" using keys by (simp add: nodes_def comp_def)
  have "device_name_regex v" if "(n, v) \<in> set nodes" for n v
  proof -
    have "map_of nodes n = Some v" using d that by (rule map_of_is_SomeI)
    moreover have "n \<in> fst ` set nodes" using that by force
    ultimately show ?thesis
      using assms(2) by (auto simp: ceph_nodes_faults_def c Let_def split: if_splits dest!: bspec [of _ _ n])
  qed
  then have "\<forall>e\<in>set (io_ceph_nodes o'). strip_dev (strip_dev (snd e)) = strip_dev (snd e)"
    by (force simp: nodes_def intro: strip_dev_clean)
  then have "map (apsnd strip_dev) nodes = nodes" by (auto simp: nodes_def)
  with assms(1) show ?thesis by (simp add: canonical_devices_def nodes_def [symmetric])
qed


lemma validate_storage_parts:
  assumes "validate_object_storage o' = []"
  shows "io_rook_mode o' = ''rook-ceph-local'' \<Longrightarrow> ceph_local_faults (canonical_devices o') = []"
    "io_rook_mode o' = ''rook-ceph-multi-node'' \<Longrightarrow> ceph_nodes_faults (canonical_devices o') = []"
  using assms by (auto simp: validate_object_storage_def all_rook_modes_def Let_def split: if_splits)

lemma devices_settle:
  assumes "validate_object_storage o' = []" "distinct (map fst (io_ceph_nodes o'))"
  shows "canonical_devices (canonical_devices o') = canonical_devices o'"
proof -
  note parts = validate_storage_parts [OF assms(1)]
  have other: "canonical_devices o' = o'"
    if "io_rook_mode o' \<noteq> ''rook-ceph-local''" "io_rook_mode o' \<noteq> ''rook-ceph-multi-node''"
    unfolding canonical_devices_def if_not_P [OF that(1)] if_not_P [OF that(2)] ..
  show ?thesis
  proof (cases "io_rook_mode o' = ''rook-ceph-local''")
    case True
    show ?thesis using True parts(1) [OF True] by (rule local_devices_settle)
  next
    case local: False
    show ?thesis
    proof (cases "io_rook_mode o' = ''rook-ceph-multi-node''")
      case True
      show ?thesis using True parts(2) [OF True] assms(2) by (rule nodes_devices_settle)
    next
      case False
      show ?thesis by (simp only: other [OF local False])
    qed
  qed
qed

lemma validate_canonical_storage:
  assumes "canonical_devices (canonical_devices o') = canonical_devices o'"
  shows "validate_object_storage (canonical_devices o') = validate_object_storage o'"
proof -
  have "io_s3_hostname (canonical_devices o') = io_s3_hostname o'"
    "ceph_pvc_faults (canonical_devices o') = ceph_pvc_faults o'"
    by (simp_all add: canonical_devices_def ceph_pvc_faults_def)
  then show ?thesis by (simp only: validate_object_storage_def canonical_devices_other assms)
qed

lemma canonical_devices_fields:
  "io_mode (canonical_devices o') = io_mode o'" "io_addons (canonical_devices o') = io_addons o'"
  "io_vm_storage_mode (canonical_devices o') = io_vm_storage_mode o'"
  "io_fleet_mode (canonical_devices o') = io_fleet_mode o'" "io_no_push (canonical_devices o') = io_no_push o'"
  "io_github_owner (canonical_devices o') = io_github_owner o'" "io_github_repo (canonical_devices o') = io_github_repo o'"
  "io_provider (canonical_devices o') = io_provider o'" "io_repo (canonical_devices o') = io_repo o'"
  "io_dry_run (canonical_devices o') = io_dry_run o'" "io_apply_plan (canonical_devices o') = io_apply_plan o'"
  "io_plan_file (canonical_devices o') = io_plan_file o'" "io_no_tty (canonical_devices o') = io_no_tty o'"
  "io_yes (canonical_devices o') = io_yes o'"
  "io_name (canonical_devices o') = io_name o'"
  "io_domain (canonical_devices o') = io_domain o'"
  "io_node_external_ip (canonical_devices o') = io_node_external_ip o'"
  "io_email (canonical_devices o') = io_email o'"
  "fo_preset (canonical_devices o') = fo_preset o'"
  "fo_sets (canonical_devices o') = fo_sets o'"
  "fo_ingress_nodes (canonical_devices o') = fo_ingress_nodes o'"
  "fo_ingress_layer (canonical_devices o') = fo_ingress_layer o'"
  "io_vm_goldens (canonical_devices o') = io_vm_goldens o'"
  "io_vm_goldens_block (canonical_devices o') = io_vm_goldens_block o'"
  "io_node_nics (canonical_devices o') = io_node_nics o'"
  "io_tls_mode (canonical_devices o') = io_tls_mode o'"
  "io_tls_cert (canonical_devices o') = io_tls_cert o'"
  "io_tls_key (canonical_devices o') = io_tls_key o'"
  "io_zone_id (canonical_devices o') = io_zone_id o'"
  "io_region (canonical_devices o') = io_region o'"
  "io_access_key_id (canonical_devices o') = io_access_key_id o'"
  "io_secret_key_file (canonical_devices o') = io_secret_key_file o'"
  by (simp_all add: canonical_devices_def)

lemma gpu_same_fields:
  fixes o' p :: "'a init_options_scheme"
  assumes "io_gpu_platform p = io_gpu_platform o'" "io_gpu_driver_source p = io_gpu_driver_source o'"
    "version_fields p = version_fields o'" "io_hami_enabled p = io_hami_enabled o'"
    "io_gpu_shared_allocator p = io_gpu_shared_allocator o'" "io_gpu_node_modes p = io_gpu_node_modes o'"
    "io_gpu_profiles p = io_gpu_profiles o'" "io_allow_unassigned_gpus p = io_allow_unassigned_gpus o'"
    "io_vgpu_secret_ready p = io_vgpu_secret_ready o'"
  shows "validate_gpu p = validate_gpu o'"
proof -
  have modes: "has_mode p = has_mode o'" by (rule ext) (simp only: has_mode_def assms)
  have "io_gpu_operator_version p = io_gpu_operator_version o'" "io_hami_version p = io_hami_version o'"
    "io_hami_scheduler_version p = io_hami_scheduler_version o'"
    using assms(3) by (simp_all add: version_fields_def)
  note fields = assms this modes
  have shared: "shared_node p = shared_node o'" by (simp only: shared_node_def fields)
  have profiles: "gpu_profile_faults p = gpu_profile_faults o'"
    by (rule ext) (simp only: gpu_profile_faults_def fields shared)
  have "effective_allocator p = effective_allocator o'" by (simp only: effective_allocator_def fields)
  then show ?thesis
    by (simp only: validate_gpu_def gpu_platform_faults_def gpu_allocator_faults_def gpu_version_faults_def
        fields shared profiles)
qed

lemma validate_gpu_canonical: "validate_gpu (canonical_devices o') = validate_gpu o'"
  by (rule gpu_same_fields) (simp_all add: canonical_devices_def version_fields_def)

lemma validate_other_checks:
  assumes "validate_object_storage (canonical_devices o') = validate_object_storage o'"
  shows "structural_faults mail_ok (canonical_devices o') = structural_faults mail_ok o'"
    "cross_flag_error (canonical_devices o') = cross_flag_error o'"
proof -
  show "structural_faults mail_ok (canonical_devices o') = structural_faults mail_ok o'"
    by (simp only: structural_faults_def assms validate_gpu_canonical validate_vm_storage_def validate_dns01_def
        validate_ingress_nodes_def canonical_devices_fields)
  show "cross_flag_error (canonical_devices o') = cross_flag_error o'"
    by (simp only: cross_flag_error_def owner_repo_missing_def canonical_devices_other canonical_devices_fields)
qed

text \<open>Validation settles.  The options that Validate accepts, with the devices it has rewritten, are
accepted again and come out unchanged, so a plan that is validated at review and again at apply is the
same plan.\<close>

theorem validation_settles:
  assumes "validate mail_ok o' = (None, o'')" "distinct (map fst (io_ceph_nodes o'))"
  shows "validate mail_ok o'' = (None, o'')"
proof -
  have ok: "structural_faults mail_ok o' = []" "cross_flag_error o' = None" and o: "o'' = canonical_devices o'"
    using assms(1) by (auto simp: validate_def Let_def split: if_splits)
  have c: "canonical_devices o'' = o''"
    unfolding o using structural_clean(6) [OF ok(1)] assms(2) by (rule devices_settle)
  have "structural_faults mail_ok o'' = []" "cross_flag_error o'' = None"
    using validate_other_checks [OF validate_canonical_storage [of o']] c ok by (simp_all add: o)
  then show ?thesis by (simp add: validate_def c)
qed

theorem validation_settles_witness:
  "validate (\<lambda>_. True) (snd (validate (\<lambda>_. True) demo_init)) = (None, snd (validate (\<lambda>_. True) demo_init))
    \<and> io_rook_osd_device (snd (validate (\<lambda>_. True) demo_init)) = ''sdb''"
proof
  have "validate (\<lambda>_. True) demo_init = (None, snd (validate (\<lambda>_. True) demo_init))"
    using demo_init_valid by (metis prod.collapse)
  moreover have "distinct (map fst (io_ceph_nodes demo_init))" by code_simp
  ultimately show "validate (\<lambda>_. True) (snd (validate (\<lambda>_. True) demo_init))
      = (None, snd (validate (\<lambda>_. True) demo_init))"
    by (rule validation_settles)
qed code_simp


section \<open>One owner for every accelerator\<close>

lemma gpu_enabled_clean:
  assumes "validate_gpu o' = []" "io_gpu_platform o' = ''enabled''"
  shows "gpu_platform_faults o' = []" "gpu_allocator_faults o' = []" "gpu_version_faults o' = []"
    "p \<in> set (canonical_gpu_profiles (io_gpu_profiles o')) \<Longrightarrow> gpu_profile_faults o' p = []"
  using assms by (auto simp: validate_gpu_def Let_def)

lemma fault_if_Nil: "fault_if f b = [] \<longleftrightarrow> \<not> b"
  by simp

lemma concat_map_Nil: "concat (map f xs) = [] \<longleftrightarrow> (\<forall>x\<in>set xs. f x = [])"
  by simp

lemmas fault_lists = Let_def append_is_Nil_conv fault_if_Nil concat_map_Nil

lemma gpu_node_assigned:
  assumes "gpu_platform_faults o' = []" "(n, m) \<in> set (io_gpu_node_modes o')"
  shows "k8s_node_name_regex n \<and> m \<in> set all_gpu_node_modes"
proof -
  have "\<forall>x\<in>set (io_gpu_node_modes o'). (case x of (n, m) \<Rightarrow>
      fault_if (Bad_Flag ''--gpu-node-mode'' n) (\<not> k8s_node_name_regex n)
      @ fault_if (Bad_Flag ''--gpu-node-mode'' m) (m \<notin> set all_gpu_node_modes)) = []"
    using assms(1) unfolding gpu_platform_faults_def Let_def append_is_Nil_conv concat_map_Nil by blast
  from bspec [OF this assms(2)] show ?thesis unfolding prod.case append_is_Nil_conv fault_if_Nil by blast
qed

lemma gpu_some_active:
  assumes "gpu_platform_faults o' = []" "io_gpu_platform o' = ''enabled''"
  shows "shared_node o' \<or> has_mode o' ''vm-passthrough'' \<or> has_mode o' ''vm-vgpu''"
  using assms(1) [unfolded gpu_platform_faults_def Let_def append_is_Nil_conv fault_if_Nil] assms(2) by blast

lemma gpu_allocator_clean:
  assumes "gpu_allocator_faults o' = []"
  shows "io_hami_enabled o' \<longleftrightarrow> shared_node o'"
    "has_mode o' ''pod-hami'' \<longrightarrow> effective_allocator o' = ''hami-device-plugin''"
    "has_mode o' ''pod-hami-dra'' \<longrightarrow> effective_allocator o' \<noteq> ''hami-device-plugin''"
    "has_mode o' ''vm-vgpu'' \<longrightarrow> io_vgpu_secret_ready o'"
  using assms [unfolded gpu_allocator_faults_def Let_def append_is_Nil_conv fault_if_Nil] by blast+

lemma all_equal_zip:
  "length xs = length ys \<Longrightarrow> map fst xs = map fst ys \<Longrightarrow>
    (\<And>f v w. ((f, v), (f, w)) \<in> set (take n (zip xs ys)) \<Longrightarrow> v = w) \<Longrightarrow> take n xs = take n ys"
proof (induction xs ys arbitrary: n rule: list_induct2)
  case (Cons x xs y ys)
  show ?case
  proof (cases n)
    case (Suc m)
    have "x = y" using Cons.prems(1) Cons.prems(2) [of "fst x" "snd x" "snd y"] Suc by (cases x; cases y) auto
    moreover have "take m xs = take m ys"
      using Cons.prems(1) by (intro Cons.IH) (auto intro: Cons.prems(2) simp: Suc)
    ultimately show ?thesis using Suc by simp
  qed simp
qed simp

lemma gpu_versions_qualified:
  assumes "gpu_version_faults o' = []" "io_gpu_platform o' = ''enabled''" "io_gpu_driver_source o' = ''gpu-operator''"
  shows "take (if io_hami_enabled o' then 5 else 3) (version_fields o')
    = take (if io_hami_enabled o' then 5 else 3) default_versions"
proof (rule all_equal_zip)
  fix f v w
  assume "((f, v), (f, w)) \<in> set (take (if io_hami_enabled o' then 5 else 3) (zip (version_fields o') default_versions))"
  moreover have "\<forall>x\<in>set (take (if io_hami_enabled o' then 5 else 3) (zip (version_fields o') default_versions)).
      fault_if (Bad_Flag (fst (fst x)) (snd (fst x))) (snd (fst x) \<noteq> snd (snd x)) = []"
    using assms(1) [unfolded gpu_version_faults_def Let_def append_is_Nil_conv] assms(2,3)
    by (simp only: simp_thms if_True concat_map_Nil split_beta) blast
  ultimately show "v = w" unfolding fault_if_Nil by fastforce
qed (simp_all add: version_fields_def default_versions_def)

lemma parse_modes_distinct:
  "parse_modes ps out = Inr ms \<Longrightarrow> distinct (map fst out) \<Longrightarrow> distinct (map fst ms)"
  by (induction ps out rule: parse_modes.induct) (auto simp: Let_def split: if_splits option.splits)

lemma suffix_last: "has_suffix p s \<Longrightarrow> s \<noteq> [] \<Longrightarrow> last p = last s"
  by (auto simp: suffix_def)

lemma gpu_profile_clean:
  assumes "gpu_profile_faults o' p = []"
  shows "has_suffix p ''-hami'' \<Longrightarrow> shared_node o'" "has_suffix p ''-passthrough'' \<Longrightarrow> has_mode o' ''vm-passthrough''"
    "has_suffix p ''-vgpu'' \<Longrightarrow> has_mode o' ''vm-vgpu''" "profile_regex p"
proof -
  have "\<not> (has_suffix p a \<and> has_suffix p b)" if "a \<noteq> []" "b \<noteq> []" "last a \<noteq> last b" for a b
    using suffix_last that by metis
  note one = this [of "''-hami''" "''-passthrough''"] this [of "''-hami''" "''-vgpu''"] this [of "''-passthrough''" "''-vgpu''"]
  show "has_suffix p ''-hami'' \<Longrightarrow> shared_node o'" "profile_regex p"
    using assms by (auto simp: gpu_profile_faults_def split: if_splits)
  show "has_suffix p ''-passthrough'' \<Longrightarrow> has_mode o' ''vm-passthrough''"
    using assms one(1) by (simp add: gpu_profile_faults_def split: if_splits)
  show "has_suffix p ''-vgpu'' \<Longrightarrow> has_mode o' ''vm-vgpu''"
    using assms one(2,3) by (simp add: gpu_profile_faults_def split: if_splits)
qed

text \<open>C31. An accepted accelerator request is coherent.  When the platform is enabled, each assigned node
is a valid node with a known mode, with one mode only when the assignments were parsed from the flags, and some
node is active; the shared allocator is enabled exactly when a node shares its devices, and device-plugin
nodes and DRA nodes never occur together; a virtual device needs the secret that was declared ready; with the
operator-managed driver the versions are the released tuple; and a profile for shared, passed-through or
virtual devices is accepted only when a node serves that kind.\<close>

theorem gpu_request_coherent:
  assumes "fst (validate mail_ok o') = None" "io_gpu_platform o' = ''enabled''"
  shows "(\<forall>(n, m)\<in>set (io_gpu_node_modes o'). k8s_node_name_regex n \<and> m \<in> set all_gpu_node_modes)
    \<and> (\<forall>vs. parse_gpu_node_modes vs = Inr (io_gpu_node_modes o') \<longrightarrow> distinct (map fst (io_gpu_node_modes o')))
    \<and> (\<exists>m\<in>{''pod-hami'', ''pod-hami-dra'', ''vm-passthrough'', ''vm-vgpu''}. has_mode o' m)
    \<and> (io_hami_enabled o' \<longleftrightarrow> has_mode o' ''pod-hami'' \<or> has_mode o' ''pod-hami-dra'')
    \<and> \<not> (has_mode o' ''pod-hami'' \<and> has_mode o' ''pod-hami-dra'')
    \<and> (has_mode o' ''vm-vgpu'' \<longrightarrow> io_vgpu_secret_ready o')
    \<and> (io_gpu_driver_source o' = ''gpu-operator'' \<longrightarrow>
        take (if io_hami_enabled o' then 5 else 3) (version_fields o')
          = take (if io_hami_enabled o' then 5 else 3) default_versions)
    \<and> (\<forall>p\<in>set (canonical_gpu_profiles (io_gpu_profiles o')).
        (has_suffix p ''-hami'' \<longrightarrow> has_mode o' ''pod-hami'' \<or> has_mode o' ''pod-hami-dra'')
        \<and> (has_suffix p ''-passthrough'' \<longrightarrow> has_mode o' ''vm-passthrough'')
        \<and> (has_suffix p ''-vgpu'' \<longrightarrow> has_mode o' ''vm-vgpu''))"
    (is "?nodes \<and> ?parsed \<and> ?active \<and> ?hami \<and> ?one \<and> ?vgpu \<and> ?tuple \<and> ?profiles")
proof -
  have "validate_gpu o' = []" using assms(1) unfolding validate_None_iff by (blast intro: structural_clean(8))
  note clean = gpu_enabled_clean [OF this assms(2)]
  note alloc = gpu_allocator_clean [OF clean(2)]
  have ?nodes using gpu_node_assigned [OF clean(1)] by auto
  moreover have ?parsed
    unfolding parse_gpu_node_modes_def using parse_modes_distinct by fastforce
  moreover have ?active
    using gpu_some_active [OF clean(1) assms(2)] unfolding shared_node_def by blast
  moreover have ?hami using alloc(1) by (simp only: shared_node_def)
  moreover have ?one using alloc(2,3) by auto
  moreover have ?vgpu using alloc(4) .
  moreover have ?tuple
    using gpu_versions_qualified [OF clean(3) assms(2)] by blast
  moreover have ?profiles
    using gpu_profile_clean [OF clean(4)] unfolding shared_node_def by blast
  ultimately show ?thesis by blast
qed

theorem gpu_request_coherent_witness:
  "io_hami_enabled demo_init \<and> \<not> has_mode demo_init ''pod-hami-dra'' \<and> version_fields demo_init = default_versions"
proof -
  have "io_gpu_platform demo_init = ''enabled''" "has_mode demo_init ''pod-hami''"
    "io_gpu_driver_source demo_init = ''gpu-operator''"
    "length (version_fields demo_init) = 5" "length default_versions = 5"
    by code_simp+
  then show ?thesis using gpu_request_coherent [OF demo_init_valid] by (auto split: if_splits)
qed

end
