(* ===== verification/Fleet_Patch.thy ===== *)
theory Fleet_Patch
  imports Go_Strings
begin

text \<open>
  The line patches by which \<open>bootstrap init\<close> edits the generated fleet files
  (\<open>patchFileLines\<close> and its transforms in \<open>clusterinit/objectstorage.go\<close>,
  \<open>vmstorage.go\<close>, \<open>gpu_scaffold.go\<close>, \<open>imageaccel.go\<close>, \<open>addons.go\<close>,
  \<open>registry_listener.go\<close>, \<open>wildcardtls.go\<close>, \<open>dns01.go\<close> and \<open>kubeapi_offenvoy.go\<close>).  A
  transform takes the lines of a file and returns the new lines and whether they changed, or an error.
  The interfaces \<open>line_patch\<close> (a second run changes nothing) and \<open>wiring\<close> (an entry is
  established, no line of the file is lost, and no later patch takes the entry away) state what the
  scaffold relies on; each transform interprets one of them.
\<close>

datatype patch_error =
    No_Depends_On | Empty_Depends_On | No_Anchor string | No_Resources
  | Hand_Edited | Misplaced_Block | No_Value

type_synonym line_list = "string list"
type_synonym patcher = "line_list \<Rightarrow> patch_error + line_list \<times> bool"

section \<open>Lines\<close>

definition has_line :: "string \<Rightarrow> line_list \<Rightarrow> bool" where
  "has_line x ls \<longleftrightarrow> list_ex (\<lambda>l. trim_space l = x) ls"

definition mentions :: "string \<Rightarrow> line_list \<Rightarrow> bool" where
  "mentions m ls \<longleftrightarrow> list_ex (\<lambda>l. contains l m) ls"

text \<open>\<open>l[:len(l)-len(strings.TrimLeft(l, " "))]\<close>.\<close>

definition indent_of :: "string \<Rightarrow> string" where
  "indent_of l = takeWhile (\<lambda>c. c = CHR '' '') l"

definition nonblank :: "string \<Rightarrow> bool" where
  "nonblank l \<longleftrightarrow> trim_space l \<noteq> []"

definition drop_blank_tail :: "line_list \<Rightarrow> line_list" where
  "drop_blank_tail ls = rev (dropWhile (\<lambda>l. trim_space l = []) (rev ls))"

definition insert_lines :: "nat \<Rightarrow> line_list \<Rightarrow> line_list \<Rightarrow> line_list" where
  "insert_lines i new ls = take i ls @ new @ drop i ls"

section \<open>Entries of a list\<close>

text \<open>An entry is put after an anchor entry, with the anchor's indentation: the common body of
  \<open>patchKustomizationResources\<close>, \<open>patchKustomizationRBDVM\<close> and
  \<open>patchKustomizationGPU\<close>.\<close>

definition insert_after :: "string \<Rightarrow> string \<Rightarrow> patcher" where
  "insert_after anchor entry ls =
     (if has_line entry ls then Inr (ls, False)
      else (case find_index (\<lambda>l. trim_space l = anchor) ls of
          None \<Rightarrow> Inl (No_Anchor anchor)
        | Some i \<Rightarrow> Inr (insert_lines (Suc i) [indent_of (ls ! i) @ entry] ls, True)))"

definition patch_kustomization_resources :: patcher where
  "patch_kustomization_resources = insert_after ''- infrastructure.yaml'' ''- infra-object-storage.yaml''"

definition patch_kustomization_rbd_vm :: patcher where
  "patch_kustomization_rbd_vm = insert_after ''- platform.yaml'' ''- rbd-vm.yaml''"

definition patch_kustomization_gpu :: patcher where
  "patch_kustomization_gpu = insert_after ''- platform.yaml'' ''- gpu.yaml''"

text \<open>The items that follow \<open>dependsOn:\<close>; a comment counts only after an item.  The result is
  how many lines they are and the indentation of the last item.\<close>

fun items_run :: "bool \<Rightarrow> string \<Rightarrow> line_list \<Rightarrow> nat \<times> string" where
  "items_run seen ind [] = (0, ind)"
| "items_run seen ind (l # ls) =
     (let t = trim_space l; item = has_prefix t ''- name:'' in
      if item \<or> has_prefix t ''#'' \<and> seen
      then apfst Suc (items_run True (if item then indent_of l else ind) ls)
      else (0, ind))"

definition patch_platform_depends_on :: patcher where
  "patch_platform_depends_on ls =
     (if has_line ''- name: infra-object-storage'' ls then Inr (ls, False)
      else (case find_index (\<lambda>l. trim_space l = ''dependsOn:'') ls of
          None \<Rightarrow> Inl No_Depends_On
        | Some i \<Rightarrow>
            (let (n, ind) = items_run False ''    '' (drop (Suc i) ls) in
             if n = 0 then Inl Empty_Depends_On
             else Inr (insert_lines (Suc i + n) [ind @ ''- name: infra-object-storage''] ls, True))))"

text \<open>\<open>patchKustomizationResource\<close>: after the last entry of the resources, with the
  indentation of the first.\<close>

definition resources_at :: "line_list \<Rightarrow> nat option" where
  "resources_at ls = find_index (\<lambda>l. trim_space l = ''resources:'' \<or> has_prefix (trim_space l) ''resources: #'') ls"

definition patch_kustomization_resource :: "string \<Rightarrow> patcher" where
  "patch_kustomization_resource r ls =
     (if has_line (''- '' @ r) ls then Inr (ls, False)
      else (case resources_at ls of
          None \<Rightarrow> Inl No_Resources
        | Some i \<Rightarrow>
            (let rest = drop (Suc i) ls;
                 ind = (case rest of
                     l # _ \<Rightarrow> if has_prefix (drop (length (indent_of l)) l) ''- '' then indent_of l else ''  ''
                   | [] \<Rightarrow> ''  '');
                 n = length (takeWhile (\<lambda>l. has_prefix l (ind @ ''- '')) rest) in
             Inr (insert_lines (Suc i + n) [ind @ ''- '' @ r] ls, True))))"

text \<open>\<open>hasResourceEntry\<close> and \<open>appendResourceEntry\<close>, on the lines of the file.\<close>

definition has_resource_entry :: "string \<Rightarrow> line_list \<Rightarrow> bool" where
  "has_resource_entry name ls \<longleftrightarrow> has_line (''- '' @ name) ls \<or> has_line (''- ./'' @ name) ls"

fun entries_run :: "string \<Rightarrow> line_list \<Rightarrow> (nat \<times> string) option" where
  "entries_run ind [] = None"
| "entries_run ind (l # ls) =
     (let t = trim_space l in
      if has_prefix t ''- ''
      then (case entries_run ind ls of
          Some (n, i) \<Rightarrow> Some (Suc n, i) | None \<Rightarrow> Some (1, indent_of l))
      else if t = [] \<or> has_prefix t ''#'' then map_option (apfst Suc) (entries_run ind ls)
      else None)"

definition top_resources_at :: "line_list \<Rightarrow> nat option" where
  "top_resources_at ls = find_index (\<lambda>l. trim_space l = ''resources:'' \<and> \<not> has_prefix l '' '') ls"

definition append_resource_entry :: "string \<Rightarrow> line_list \<Rightarrow> patch_error + line_list" where
  "append_resource_entry name ls =
     (case top_resources_at ls of
        None \<Rightarrow> Inl No_Resources
      | Some i \<Rightarrow>
          (let (n, ind) = (case entries_run ''  '' (drop (Suc i) ls) of None \<Rightarrow> (0, ''  '') | Some r \<Rightarrow> r) in
           Inr (insert_lines (Suc i + n) [ind @ ''- '' @ name] ls)))"

text \<open>How \<open>WriteAddons\<close> uses the two.\<close>

definition patch_addons_entry :: "string \<Rightarrow> patcher" where
  "patch_addons_entry name ls =
     (if has_resource_entry name ls then Inr (ls, False)
      else (case append_resource_entry name ls of Inl e \<Rightarrow> Inl e | Inr ls' \<Rightarrow> Inr (ls', True)))"

section \<open>Texts\<close>

definition em_dash :: string where
  "em_dash = [CHR 0xE2, CHR 0x80, CHR 0x94]"

text \<open>\<open>disabledPlatformPatchesMarker\<close> and \<open>disabledPlatformPatches\<close>, by lines.\<close>

definition disabled_marker :: string where
  "disabled_marker = ''# OS-4 object-storage-disabled patches (do not duplicate this block)''"

definition disabled_patches :: line_list where
  "disabled_patches =
     ((''  '' @ disabled_marker) #
     [''  # (kube-dc installer-object-storage-scaffold PRD section 6): this'',
      ''  # cluster runs --object-storage-mode=disabled. Remove grafana-pg'' @ [SQ] @ ''s'',
      ''  # backup path so WAL archiving + daily backups don'' @ [SQ] @ ''t fail forever'',
      ''  # against a Pending bucket claim '' @ em_dash @ '' the Grafana DB runs UNPROTECTED.'',
      ''  # Mimir + Loki are suspended separately via OBJECT_STORAGE_DISABLED'',
      ''  # in cluster-config.env. Fresh-scaffold only: flipping an ENABLED'',
      ''  # cluster to disabled needs manual cleanup (prune:false).'',
      ''  patches:'',
      ''    - patch: |'',
      ''        - op: remove'',
      ''          path: /spec/backup'',
      ''      target:'',
      ''        group: postgresql.cnpg.io'',
      ''        kind: Cluster'',
      ''        name: grafana-pg'',
      ''    - patch: |'',
      ''        apiVersion: objectbucket.io/v1alpha1'',
      ''        kind: ObjectBucketClaim'',
      ''        metadata:'',
      ''          name: grafana-pg-backups'',
      ''          namespace: monitoring'',
      ''        $patch: delete'',
      ''      target:'',
      ''        kind: ObjectBucketClaim'',
      ''        name: grafana-pg-backups'',
      ''    - patch: |'',
      ''        apiVersion: postgresql.cnpg.io/v1'',
      ''        kind: ScheduledBackup'',
      ''        metadata:'',
      ''          name: grafana-pg-daily'',
      ''          namespace: monitoring'',
      ''        $patch: delete'',
      ''      target:'',
      ''        kind: ScheduledBackup'',
      ''        name: grafana-pg-daily''])"

definition registry_marker :: string where
  "registry_marker = ''# image-accel: registry-depot Gateway listener (do not duplicate)''"

definition registry_entry :: line_list where
  "registry_entry =
     ((''    '' @ registry_marker) #
     [''    - target:'',
      ''        kind: Gateway'',
      ''        name: eg'',
      ''        namespace: envoy-gateway-system'',
      ''      patch: |'',
      ''        - op: add'',
      ''          path: /spec/listeners/-'',
      ''          value:'',
      ''            name: https-registry'',
      ''            protocol: HTTPS'',
      ''            port: 443'',
      ''            hostname: '' @ [DQ] @ ''${REGISTRY_HOSTNAME:=registry.${DOMAIN}}'' @ [DQ],
      ''            tls:'',
      ''              mode: Terminate'',
      ''              certificateRefs:'',
      ''                - kind: Secret'',
      ''                  name: registry-server-tls'',
      ''                  namespace: kube-dc'',
      ''            allowedRoutes:'',
      ''              namespaces:'',
      ''                from: All''])"

section \<open>Blocks at the end of the file\<close>

text \<open>\<open>patchPlatformDisabledObjectStorage\<close>.\<close>

definition patch_platform_disabled :: patcher where
  "patch_platform_disabled ls =
     (if has_line disabled_marker ls then Inr (ls, False)
      else if has_line ''patches:'' ls then Inl Hand_Edited
      else Inr (drop_blank_tail ls @ disabled_patches @ [[]], True))"

text \<open>\<open>patchPlatformRegistryListener\<close>: before the next key of the spec after the patches, which
  has exactly two spaces, or at the end of the file.\<close>

definition spec_sibling :: "string \<Rightarrow> bool" where
  "spec_sibling l \<longleftrightarrow> trim_space l \<noteq> [] \<and> \<not> has_prefix (trim_space l) ''#''
     \<and> has_prefix l ''  '' \<and> \<not> has_prefix l ''    ''"

definition patch_platform_registry :: patcher where
  "patch_platform_registry ls =
     (if has_line registry_marker ls then Inr (ls, False)
      else (case find_index (\<lambda>l. l = ''  patches:'') ls of
          Some p \<Rightarrow>
            (let n = (case find_index spec_sibling (drop (Suc p) ls) of
                 None \<Rightarrow> length ls | Some i \<Rightarrow> Suc p + i) in
             Inr (insert_lines n registry_entry ls, True))
        | None \<Rightarrow> Inr (drop_blank_tail ls @ ''  patches:'' # registry_entry @ [[]], True)))"

text \<open>The markers of the patches the tool owns, with those of the Gateway patches of
  \<open>addons.go\<close> and the two TLS modes.\<close>

definition gateway_vip_marker :: string where
  "gateway_vip_marker = ''# kube-dc: gateway address = MetalLB VIP''"

definition gateway_service_marker :: string where
  "gateway_service_marker = ''# kube-dc: Envoy Service requests MetalLB VIP''"

definition byo_marker :: string where
  "byo_marker = ''TLS_MODE=byo-wildcard: suppress every platform ACME Certificate''"

definition dns01_marker :: string where
  "dns01_marker = ''TLS_MODE=acme-dns01-route53: ClusterIssuer solves via Route53 DNS-01''"

definition owned_markers :: "string list" where
  "owned_markers = [disabled_marker, gateway_vip_marker, gateway_service_marker, byo_marker, dns01_marker]"

definition owned_block :: "line_list \<Rightarrow> bool" where
  "owned_block ls \<longleftrightarrow> list_ex (\<lambda>l. list_ex (\<lambda>m. trim_space l = m \<or> contains (trim_space l) m) owned_markers) ls"

text \<open>\<open>strings.TrimRight(s, "\n")\<close>.\<close>

definition trim_newlines :: "string \<Rightarrow> string" where
  "trim_newlines s = rev (dropWhile (\<lambda>c. c = NL) (rev s))"

definition append_block :: "bool \<Rightarrow> line_list \<Rightarrow> line_list \<Rightarrow> line_list" where
  "append_block has_patches block ls =
     drop_blank_tail ls @ (if has_patches then [] else [''  patches:'']) @ block @ [[]]"

text \<open>\<open>patchKustomizationSuppression\<close>, for the file of the given stem.\<close>

definition suppression_block :: "string \<Rightarrow> line_list" where
  "suppression_block entries =
     [''    # --- '' @ byo_marker @ '' ---'',
      ''    # cert-manager treats an existing Secret it did not issue as material'',
      ''    # to REPLACE; deleting the Certificates from the render is what makes'',
      ''    # the operator wildcard authoritative. Generated by kube-dc bootstrap'',
      ''    # init --tls-mode byo-wildcard; see docs/platform/certificates.md.'']
     @ split_on NL (trim_newlines entries)"

definition patch_suppression :: "string \<Rightarrow> string \<Rightarrow> patcher" where
  "patch_suppression stem entries ls =
     (let has_patches = has_line ''patches:'' ls in
      if list_ex (\<lambda>l. contains (trim_space l) byo_marker) ls then Inr (ls, False)
      else if has_patches \<and> \<not> (stem = ''platform'' \<and> owned_block ls) then Inl Hand_Edited
      else Inr (append_block has_patches (suppression_block entries) ls, True))"

text \<open>\<open>patchPlatformDNS01Solver\<close>: the owned block is the comment lines from the marker on and one
  entry with its deeper lines; it is replaced when it differs.\<close>

definition dns01_block :: "string \<Rightarrow> line_list" where
  "dns01_block entries =
     [''    # --- '' @ dns01_marker @ '' ---'',
      ''    # The default issuer solves HTTP-01 through the Gateway, which requires'',
      ''    # Let'' @ [SQ] @ ''s Encrypt to reach this cluster on :80 '' @ em_dash @ '' impossible on a private'',
      ''    # NODE_EXTERNAL_IP. DNS-01 proves control via Route53 records instead;'',
      ''    # the secret access key lives in dns01-route53-credentials.enc.yaml.'',
      ''    # Generated by kube-dc bootstrap init --tls-mode acme-dns01-route53.'']
     @ split_on NL (trim_newlines entries)"

definition deeper_line :: "string \<Rightarrow> bool" where
  "deeper_line l \<longleftrightarrow> has_prefix l ''      '' \<and> trim_space l \<noteq> []"

text \<open>The length of the owned block that the lines begin with; \<open>None\<close> when no entry follows the
  comments.\<close>

definition dns01_block_length :: "line_list \<Rightarrow> nat option" where
  "dns01_block_length ls =
     (let c = length (takeWhile (\<lambda>l. has_prefix l ''    #'') ls) in
      case drop c ls of
        [] \<Rightarrow> None
      | l # rest \<Rightarrow> if has_prefix l ''    - ''
          then Some (c + 1 + length (takeWhile deeper_line rest)) else None)"

definition patch_dns01 :: "string \<Rightarrow> patcher" where
  "patch_dns01 entries ls =
     (let block = dns01_block entries; has_patches = has_line ''patches:'' ls in
      case find_index (\<lambda>l. contains (trim_space l) dns01_marker) ls of
        Some i \<Rightarrow> (case dns01_block_length (drop i ls) of
            None \<Rightarrow> Inl Misplaced_Block
          | Some n \<Rightarrow>
              if take n (drop i ls) = block then Inr (ls, False)
              else Inr (take i ls @ block @ drop (i + n) ls, True))
      | None \<Rightarrow>
          if has_patches \<and> \<not> owned_block ls then Inl Hand_Edited
          else Inr (append_block has_patches block ls, True))"

text \<open>\<open>setEnvValueLine\<close>.\<close>

definition set_env_value_line :: "string \<Rightarrow> string \<Rightarrow> patcher" where
  "set_env_value_line key v ls =
     (case find_index (\<lambda>l. has_prefix (trim_space l) (key @ ''='')) ls of
        None \<Rightarrow> Inr (ls, False)
      | Some i \<Rightarrow>
          if ls ! i = key @ ''='' @ v then Inr (ls, False)
          else Inr (ls[i := key @ ''='' @ v], True))"

section \<open>The interfaces\<close>

text \<open>A patch that a second run leaves alone.\<close>

locale line_patch =
  fixes patch :: patcher
  assumes quiet: "patch ls = Inr (ls', False) \<Longrightarrow> ls' = ls"
    and settles: "patch ls = Inr (ls', True) \<Longrightarrow> patch ls' = Inr (ls', False)"
begin

lemma idempotent: "patch ls = Inr (ls', b) \<Longrightarrow> patch ls' = Inr (ls', False)"
  using quiet settles by (cases b) auto

end

text \<open>A patch that establishes an entry: it acts only when the entry is missing, loses no line that
  is not blank, and the entry survives whatever keeps the lines.\<close>

locale wiring =
  fixes patch :: patcher and wired :: "line_list \<Rightarrow> bool"
  assumes noop: "wired ls \<Longrightarrow> patch ls = Inr (ls, False)"
    and wires: "patch ls = Inr (ls', b) \<Longrightarrow> wired ls'"
    and unchanged: "patch ls = Inr (ls', False) \<Longrightarrow> ls' = ls"
    and keeps: "patch ls = Inr (ls', b) \<Longrightarrow> subseq (filter nonblank ls) ls'"
    and stable: "wired ls \<Longrightarrow> subseq (filter nonblank ls) ls' \<Longrightarrow> wired ls'"

sublocale wiring \<subseteq> line_patch patch
  using noop wires unchanged by unfold_locales blast+

subsection \<open>Sequences of patches\<close>

fun run_patches :: "patcher list \<Rightarrow> line_list \<Rightarrow> patch_error + line_list" where
  "run_patches [] ls = Inr ls"
| "run_patches (p # ps) ls = (case p ls of Inl e \<Rightarrow> Inl e | Inr (ls', _) \<Rightarrow> run_patches ps ls')"

lemma subseq_nonblank: "subseq (filter nonblank xs) ys \<Longrightarrow> subseq (filter nonblank xs) (filter nonblank ys)"
  using subseq_filter [of "filter nonblank xs" ys nonblank] by simp

lemma kept_trans:
  "subseq (filter nonblank xs) ys \<Longrightarrow> subseq (filter nonblank ys) zs \<Longrightarrow> subseq (filter nonblank xs) zs"
  using subseq_nonblank subseq_order.trans by blast

lemma kept_refl: "subseq (filter nonblank xs) xs"
  by simp

lemma run_keeps:
  assumes "\<forall>p\<in>set ps. \<exists>w. wiring p w" "run_patches ps ls = Inr ls'"
  shows "subseq (filter nonblank ls) ls'"
  using assms
proof (induction ps arbitrary: ls)
  case (Cons p ps)
  then obtain w l b where w: "wiring p w" and p: "p ls = Inr (l, b)" and run: "run_patches ps l = Inr ls'"
    by (auto split: sum.splits)
  have "subseq (filter nonblank ls) l" using wiring.keeps [OF w p] .
  with Cons.IH [OF _ run] Cons.prems(1) show ?case by (auto intro: kept_trans)
qed simp

text \<open>Whatever else ran, every patch of a sequence has left its entry, and a later run of any of
  them is a no-op.\<close>

lemma run_wires:
  assumes "\<forall>p\<in>set ps. \<exists>w. wiring p w" "run_patches ps ls = Inr ls'" "p \<in> set ps" "wiring p w"
  shows "w ls'"
  using assms
proof (induction ps arbitrary: ls)
  case (Cons q ps)
  then obtain l b where q: "q ls = Inr (l, b)" and run: "run_patches ps l = Inr ls'"
    by (auto split: sum.splits)
  show ?case
  proof (cases "p \<in> set ps")
    case False
    with Cons.prems(3) q have "p ls = Inr (l, b)" by simp
    then have "w l" using wiring.wires [OF Cons.prems(4)] by blast
    moreover have "subseq (filter nonblank l) ls'" using Cons.prems(1) run by (intro run_keeps) auto
    ultimately show ?thesis using wiring.stable [OF Cons.prems(4)] by blast
  qed (use Cons.IH [OF _ run] Cons.prems in auto)
qed simp

lemma run_noop: "\<forall>p\<in>set ps. \<exists>w. wiring p w \<and> w ls \<Longrightarrow> run_patches ps ls = Inr ls"
proof (induction ps)
  case (Cons p ps)
  then obtain w where "wiring p w" "w ls" by auto
  then have "p ls = Inr (ls, False)" by (rule wiring.noop)
  with Cons show ?case by simp
qed simp

lemma run_again:
  assumes "\<forall>p\<in>set ps. \<exists>w. wiring p w" "run_patches ps ls = Inr ls'" "set qs \<subseteq> set ps"
  shows "run_patches qs ls' = Inr ls'"
  using assms run_wires by (intro run_noop) blast

section \<open>Every transform implements its interface\<close>

definition spaces :: "string \<Rightarrow> bool" where
  "spaces s \<longleftrightarrow> list_all (\<lambda>c. c = CHR '' '') s"

lemma spaces_replicate: "spaces s \<Longrightarrow> s = replicate (length s) (CHR '' '')"
  by (induction s) (auto simp: spaces_def)

lemma trim_indented: "spaces ind \<Longrightarrow> trimmed x \<Longrightarrow> trim_space (ind @ x) = x"
  using spaces_replicate [of ind] trim_space_spaces [of "length ind" x] by (simp add: trim_space_trimmed)

lemma spaces_indent [simp]: "spaces (indent_of l)" "spaces ''    ''" "spaces ''  ''"
  by (auto simp: indent_of_def spaces_def list_all_iff dest: set_takeWhileD)

lemma has_line_kept:
  assumes "has_line x ls" "x \<noteq> []" "subseq (filter nonblank ls) ls'"
  shows "has_line x ls'"
proof -
  obtain l where l: "l \<in> set ls" "trim_space l = x" using assms(1) by (auto simp: has_line_def list_ex_iff)
  then have "l \<in> set (filter nonblank ls)" using assms(2) by (simp add: nonblank_def)
  then obtain y where "y \<in> set ls'" "l = y" by (rule list_emb_set [OF assms(3)])
  with l(2) show ?thesis by (auto simp: has_line_def list_ex_iff)
qed

lemma insert_keeps: "subseq (filter nonblank ls) (insert_lines i new ls)"
proof -
  have "subseq (take i ls @ drop i ls) (take i ls @ new @ drop i ls)"
    by (intro list_emb_append_mono list_emb_append2) simp_all
  then have "subseq ls (insert_lines i new ls)" by (simp add: insert_lines_def)
  then show ?thesis by (rule subseq_order.trans [OF kept_refl])
qed

lemma has_line_insert: "has_line x (insert_lines i [l] ls) \<longleftrightarrow> trim_space l = x \<or> has_line x ls"
proof -
  have "set (insert_lines i [l] ls) = insert l (set ls)"
    unfolding insert_lines_def using set_append [of "take i ls" "drop i ls"] by simp
  then show ?thesis by (simp add: has_line_def list_ex_iff)
qed

definition inserted :: "string \<Rightarrow> line_list \<Rightarrow> line_list \<Rightarrow> bool" where
  "inserted x ls ls' \<longleftrightarrow> (\<exists>i ind. spaces ind \<and> ls' = insert_lines i [ind @ x] ls)"

lemma insertedI: "spaces ind \<Longrightarrow> inserted x ls (insert_lines i [ind @ x] ls)"
  by (auto simp: inserted_def)

lemma inserted_facts:
  assumes "inserted x ls ls'" "trimmed x"
  shows "has_line x ls'" "subseq (filter nonblank ls) ls'"
  using assms by (auto simp: inserted_def has_line_insert trim_indented insert_keeps)

text \<open>A patch that tests for its line and otherwise inserts it, indented.\<close>

lemma wiring_insertion:
  assumes "\<And>ls. has_line x ls \<Longrightarrow> p ls = Inr (ls, False)" "x \<noteq> []" "trimmed x"
    and ins: "\<And>ls ls' b. p ls = Inr (ls', b) \<Longrightarrow> \<not> has_line x ls \<Longrightarrow> b \<and> inserted x ls ls'"
  shows "wiring p (has_line x)"
proof
  show "has_line x ls'" if "p ls = Inr (ls', b)" for ls ls' b
    using assms(1) [of ls] ins [OF that] that inserted_facts(1) assms(3) by (cases "has_line x ls") auto
  show "ls' = ls" if "p ls = Inr (ls', False)" for ls ls'
    using assms(1) [of ls] ins [OF that] that by (cases "has_line x ls") auto
  show "subseq (filter nonblank ls) ls'" if "p ls = Inr (ls', b)" for ls ls' b
    using assms(1) [of ls] ins [OF that] that inserted_facts(2) assms(3) by (cases "has_line x ls") auto
qed (use assms(1,2) has_line_kept in auto)

lemma wiring_insert_after:
  assumes "trimmed entry" "entry \<noteq> []"
  shows "wiring (insert_after anchor entry) (has_line entry)"
  using assms by (intro wiring_insertion) (auto simp: insert_after_def insertedI split: option.splits)

lemma trimmed_entries: "trimmed ''- infra-object-storage.yaml''" "trimmed ''- rbd-vm.yaml''"
  "trimmed ''- gpu.yaml''" "trimmed ''- name: infra-object-storage''"
  by (simp_all add: trimmed_printable printable_def)

interpretation storage_entry: wiring patch_kustomization_resources "has_line ''- infra-object-storage.yaml''"
  unfolding patch_kustomization_resources_def by (rule wiring_insert_after) (simp_all add: trimmed_entries)

interpretation rbd_vm_entry: wiring patch_kustomization_rbd_vm "has_line ''- rbd-vm.yaml''"
  unfolding patch_kustomization_rbd_vm_def by (rule wiring_insert_after) (simp_all add: trimmed_entries)

interpretation gpu_entry: wiring patch_kustomization_gpu "has_line ''- gpu.yaml''"
  unfolding patch_kustomization_gpu_def by (rule wiring_insert_after) (simp_all add: trimmed_entries)

lemma items_run_spaces: "spaces ind \<Longrightarrow> spaces (snd (items_run seen ind ls))"
  by (induction seen ind ls rule: items_run.induct) (auto simp: Let_def)

interpretation storage_dependency: wiring patch_platform_depends_on "has_line ''- name: infra-object-storage''"
proof (rule wiring_insertion)
  fix ls ls' b
  assume p: "patch_platform_depends_on ls = Inr (ls', b)" "\<not> has_line ''- name: infra-object-storage'' ls"
  then obtain i where i: "find_index (\<lambda>l. trim_space l = ''dependsOn:'') ls = Some i"
    by (auto simp: patch_platform_depends_on_def split: option.splits)
  obtain n ind where r: "items_run False ''    '' (drop (Suc i) ls) = (n, ind)" by fastforce
  then have "spaces ind" using items_run_spaces [of "''    ''" False "drop (Suc i) ls"] by simp
  with p i r show "b \<and> inserted ''- name: infra-object-storage'' ls ls'"
    using insertedI [of ind "''- name: infra-object-storage''" ls]
    by (auto simp: patch_platform_depends_on_def split: if_splits)
qed (simp_all add: patch_platform_depends_on_def trimmed_entries)

lemma wiring_resource:
  assumes "trimmed (''- '' @ r)"
  shows "wiring (patch_kustomization_resource r) (has_line (''- '' @ r))"
proof (rule wiring_insertion)
  fix ls ls' b
  assume p: "patch_kustomization_resource r ls = Inr (ls', b)" "\<not> has_line (''- '' @ r) ls"
  then obtain i where i: "resources_at ls = Some i"
    by (auto simp: patch_kustomization_resource_def split: option.splits)
  define ind where "ind = (case drop (Suc i) ls of
      l # _ \<Rightarrow> if has_prefix (drop (length (indent_of l)) l) ''- '' then indent_of l else ''  ''
    | [] \<Rightarrow> ''  '')"
  have "spaces ind" by (simp add: ind_def split: list.split)
  with p i show "b \<and> inserted (''- '' @ r) ls ls'"
    using insertedI [of ind "''- '' @ r" ls]
    by (auto simp: patch_kustomization_resource_def Let_def ind_def [symmetric])
qed (use assms in \<open>simp_all add: patch_kustomization_resource_def\<close>)

lemma wiring_addons:
  assumes "trimmed (''- '' @ r)"
  shows "wiring (patch_addons_entry r) (has_resource_entry r)"
proof
  have app: "inserted (''- '' @ r) ls ls'" if a: "append_resource_entry r ls = Inr ls'" for ls ls'
  proof -
    obtain i where i: "top_resources_at ls = Some i"
      using a by (auto simp: append_resource_entry_def split: option.splits)
    have run: "spaces ind \<Longrightarrow> entries_run ind xs = Some (n, j) \<Longrightarrow> spaces j" for ind xs n j
      by (induction ind xs arbitrary: n j rule: entries_run.induct) (auto simp: Let_def split: if_splits option.splits)
    obtain n ind where r: "(case entries_run ''  '' (drop (Suc i) ls) of None \<Rightarrow> (0, ''  '') | Some r \<Rightarrow> r) = (n, ind)"
      by fastforce
    then have "spaces ind" using run [of "''  ''" "drop (Suc i) ls"] by (auto split: option.splits)
    with a i r show ?thesis
      using insertedI [of ind "''- '' @ r" ls] by (auto simp: append_resource_entry_def)
  qed
  have add: "b \<and> inserted (''- '' @ r) ls ls'"
    if "patch_addons_entry r ls = Inr (ls', b)" "\<not> has_resource_entry r ls" for ls ls' b
    using that app by (auto simp: patch_addons_entry_def split: sum.splits)
  show noop: "patch_addons_entry r ls = Inr (ls, False)" if "has_resource_entry r ls" for ls
    using that by (simp add: patch_addons_entry_def)
  show "has_resource_entry r ls'" if "patch_addons_entry r ls = Inr (ls', b)" for ls ls' b
    using noop [of ls] add [OF that] that inserted_facts(1) [OF _ assms]
    by (cases "has_resource_entry r ls") (auto simp: has_resource_entry_def)
  show "ls' = ls" if "patch_addons_entry r ls = Inr (ls', False)" for ls ls'
    using noop [of ls] add [OF that] that by (cases "has_resource_entry r ls") auto
  show "subseq (filter nonblank ls) ls'" if "patch_addons_entry r ls = Inr (ls', b)" for ls ls' b
    using noop [of ls] add [OF that] that inserted_facts(2) [OF _ assms] kept_refl
    by (cases "has_resource_entry r ls") auto
  show "has_resource_entry r ls'" if "has_resource_entry r ls" "subseq (filter nonblank ls) ls'" for ls ls'
    using that has_line_kept [of _ ls ls'] by (auto simp: has_resource_entry_def)
qed

text \<open>Blocks at the end.\<close>

lemma nonblank_drop_tail: "filter nonblank (drop_blank_tail ls) = filter nonblank ls"
  by (induction ls rule: rev_induct) (auto simp: drop_blank_tail_def nonblank_def)

lemma append_keeps: "subseq (filter nonblank ls) (drop_blank_tail ls @ xs)"
proof -
  have "subseq (filter nonblank (drop_blank_tail ls)) (drop_blank_tail ls)" by simp
  then have "subseq (filter nonblank (drop_blank_tail ls)) (drop_blank_tail ls @ xs)"
    using list_emb_append_mono [of "(=)" _ "drop_blank_tail ls" "[]" xs] by simp
  then show ?thesis by (simp only: nonblank_drop_tail)
qed

text \<open>A patch that tests for a property of some line and otherwise adds lines that have it.\<close>

lemma wiring_block:
  assumes "\<And>l. Q l \<Longrightarrow> nonblank l"
    and noop: "\<And>ls. list_ex Q ls \<Longrightarrow> p ls = Inr (ls, False)"
    and adds: "\<And>ls ls' b. p ls = Inr (ls', b) \<Longrightarrow> \<not> list_ex Q ls \<Longrightarrow>
      b \<and> list_ex Q ls' \<and> subseq (filter nonblank ls) ls'"
  shows "wiring p (list_ex Q)"
proof
  show "list_ex Q ls'" if "p ls = Inr (ls', b)" for ls ls' b
    using noop [of ls] adds [OF that] that by (cases "list_ex Q ls") auto
  show "ls' = ls" if "p ls = Inr (ls', False)" for ls ls'
    using noop [of ls] adds [OF that] that by (cases "list_ex Q ls") auto
  show "subseq (filter nonblank ls) ls'" if "p ls = Inr (ls', b)" for ls ls' b
    using noop [of ls] adds [OF that] that by (cases "list_ex Q ls") auto
  show "list_ex Q ls'" if Q: "list_ex Q ls" and kept: "subseq (filter nonblank ls) ls'" for ls ls'
  proof -
    obtain l where l: "l \<in> set ls" "Q l" using Q by (auto simp: list_ex_iff)
    then have "l \<in> set (filter nonblank ls)" using assms(1) by simp
    then obtain y where "y \<in> set ls'" "l = y" by (rule list_emb_set [OF kept])
    with l(2) show ?thesis by (auto simp: list_ex_iff)
  qed
qed (rule noop)

lemma markers_plain: "trimmed disabled_marker" "trimmed registry_marker" "disabled_marker \<noteq> []" "registry_marker \<noteq> []"
  by (simp_all add: disabled_marker_def registry_marker_def trimmed_printable printable_def)

interpretation disabled_block: wiring patch_platform_disabled "list_ex (\<lambda>l. trim_space l = disabled_marker)"
proof (rule wiring_block)
  fix ls ls' b
  assume p: "patch_platform_disabled ls = Inr (ls', b)" "\<not> list_ex (\<lambda>l. trim_space l = disabled_marker) ls"
  have "list_ex (\<lambda>l. trim_space l = disabled_marker) disabled_patches"
    using trim_indented [OF spaces_indent(3) markers_plain(1)] by (simp add: disabled_patches_def)
  with p show "b \<and> list_ex (\<lambda>l. trim_space l = disabled_marker) ls' \<and> subseq (filter nonblank ls) ls'"
    using append_keeps by (auto simp: patch_platform_disabled_def has_line_def split: if_splits)
qed (use markers_plain in \<open>auto simp: nonblank_def patch_platform_disabled_def has_line_def\<close>)

interpretation registry_block: wiring patch_platform_registry "list_ex (\<lambda>l. trim_space l = registry_marker)"
proof (rule wiring_block)
  fix ls ls' b
  assume p: "patch_platform_registry ls = Inr (ls', b)" "\<not> list_ex (\<lambda>l. trim_space l = registry_marker) ls"
  have entry: "list_ex (\<lambda>l. trim_space l = registry_marker) registry_entry"
    using trim_indented [OF spaces_indent(2) markers_plain(2)] by (simp add: registry_entry_def)
  show "b \<and> list_ex (\<lambda>l. trim_space l = registry_marker) ls' \<and> subseq (filter nonblank ls) ls'"
  proof (cases "find_index (\<lambda>l. l = ''  patches:'') ls")
    case None
    with p entry show ?thesis
      using append_keeps by (auto simp: patch_platform_registry_def has_line_def)
  next
    case (Some i)
    with p obtain n where "ls' = insert_lines n registry_entry ls" "b"
      by (auto simp: patch_platform_registry_def has_line_def Let_def)
    with entry show ?thesis using insert_keeps by (auto simp: insert_lines_def)
  qed
qed (use markers_plain in \<open>auto simp: nonblank_def patch_platform_registry_def has_line_def\<close>)

lemma contains_nonblank:
  assumes "contains l m" "c \<in> set m" "\<not> space_byte c"
  shows "nonblank l"
proof -
  have "c \<in> set l" using assms(1,2) by (auto simp: contains_iff)
  then show ?thesis using not_blank [OF assms(3)] by (simp add: blank_def nonblank_def)
qed

lemma byo_marker_nonblank: "contains (trim_space l) byo_marker \<Longrightarrow> nonblank l"
  using contains_nonblank [of "trim_space l" byo_marker "CHR ''T''"]
  by (simp add: byo_marker_def nonblank_def) (simp add: space_byte_def space_tokens_def)

lemma trimmed_comment: "trimmed (''# --- '' @ m @ '' ---'')"
proof (rule trimmed_printable)
  show "printable (last (''# --- '' @ m @ '' ---''))" by (simp add: printable_def)
qed (simp_all add: printable_def)

lemma comment_contains: "contains (trim_space (''    # --- '' @ m @ '' ---'')) m"
proof -
  have "trim_space (''    # --- '' @ m @ '' ---'') = ''# --- '' @ m @ '' ---''"
    using trim_indented [OF spaces_indent(2) trimmed_comment [of m]] by simp
  then show ?thesis by (simp only: contains_iff) blast
qed

lemma suppression_marked: "list_ex (\<lambda>l. contains (trim_space l) byo_marker) (suppression_block entries)"
  using comment_contains [of byo_marker] by (simp add: suppression_block_def)

lemma append_block_keeps: "subseq (filter nonblank ls) (append_block h block ls)"
  unfolding append_block_def by (rule append_keeps)

lemma wiring_suppression:
  "wiring (patch_suppression stem entries) (list_ex (\<lambda>l. contains (trim_space l) byo_marker))"
proof (rule wiring_block)
  fix ls ls' b
  assume p: "patch_suppression stem entries ls = Inr (ls', b)"
    "\<not> list_ex (\<lambda>l. contains (trim_space l) byo_marker) ls"
  then have "b" and "ls' = append_block (has_line ''patches:'' ls) (suppression_block entries) ls"
    by (auto simp: patch_suppression_def Let_def split: if_splits)
  then show "b \<and> list_ex (\<lambda>l. contains (trim_space l) byo_marker) ls' \<and> subseq (filter nonblank ls) ls'"
    using append_block_keeps suppression_marked by (auto simp: append_block_def)
qed (auto simp: patch_suppression_def Let_def intro: byo_marker_nonblank)

interpretation platform_suppression: wiring "patch_suppression stem entries"
  "list_ex (\<lambda>l. contains (trim_space l) byo_marker)"
  by (rule wiring_suppression)


section \<open>What it means to be listed\<close>

text \<open>A kustomization file with a list of resources: the lines before it, its key at the start of a
  line, the lines of the list and the lines after it, which begin with another key.  The lines of the
  list are entries with one indentation, comments and blank lines.\<close>

definition entry_line :: "string \<Rightarrow> string \<Rightarrow> bool" where
  "entry_line ind l \<longleftrightarrow> has_prefix l (ind @ ''- '') \<and> has_prefix (trim_space l) ''- ''"

definition list_line :: "string \<Rightarrow> string \<Rightarrow> bool" where
  "list_line ind l \<longleftrightarrow> entry_line ind l \<or> trim_space l = [] \<or> has_prefix (trim_space l) ''#''"

definition list_body :: "string \<Rightarrow> line_list \<Rightarrow> bool" where
  "list_body ind body \<longleftrightarrow> list_all (list_line ind) body \<and>
     (ind = ''  '' \<or> (case body of [] \<Rightarrow> False | l # _ \<Rightarrow> entry_line ind l))"

definition top_key :: "string \<Rightarrow> bool" where
  "top_key l \<longleftrightarrow> (case l of [] \<Rightarrow> False | c # _ \<Rightarrow> printable c \<and> c \<noteq> CHR ''-'' \<and> c \<noteq> CHR ''#'')"

definition known_resources :: "string list" where
  "known_resources = [''infrastructure.yaml'', ''platform.yaml'', ''infra-object-storage.yaml'', ''addons.yaml'',
     ''addons-config.yaml'', ''rbd-vm.yaml'', ''tenant-addons.yaml'', ''cdi-os-mirror.yaml'', ''registry-depot.yaml'',
     ''monitoring-writepath.yaml'', ''gpu.yaml'', ''wildcard-tls-secrets.enc.yaml'',
     ''dns01-route53-credentials.enc.yaml'', ''trusted-ca.yaml'']"

definition names_resource :: "string \<Rightarrow> bool" where
  "names_resource l \<longleftrightarrow> list_ex (\<lambda>r. trim_space l = ''- '' @ r \<or> trim_space l = ''- ./'' @ r) known_resources"

definition kustomization :: "line_list \<Rightarrow> string \<Rightarrow> string \<Rightarrow> line_list \<Rightarrow> bool" where
  "kustomization before key ind after \<longleftrightarrow> spaces ind \<and>
     trim_space key = ''resources:'' \<and> \<not> has_prefix key '' '' \<and>
     list_all (\<lambda>l. trim_space l \<noteq> ''resources:'' \<and> \<not> has_prefix (trim_space l) ''resources: #'') before \<and>
     \<not> list_ex names_resource (before @ after) \<and>
     (case after of [] \<Rightarrow> True | l # _ \<Rightarrow> top_key l)"

definition in_list :: "string \<Rightarrow> string \<Rightarrow> line_list \<Rightarrow> bool" where
  "in_list ind r body \<longleftrightarrow>
     list_ex (\<lambda>l. entry_line ind l \<and> (trim_space l = ''- '' @ r \<or> trim_space l = ''- ./'' @ r)) body"

lemma trim_printable_head: "printable c \<Longrightarrow> \<exists>y. trim_space (c # cs) = c # y"
proof -
  assume c: "printable c"
  have "list_all (\<lambda>t. list_all (\<lambda>c. \<not> printable c) t) space_tokens" by code_simp
  with c have "\<not> space_byte c" by (auto simp: space_byte_def list_all_iff simp del: space_tokens_def)
  then have kept: "c \<in> set (trim_space (c # cs))" by (rule trim_space_keeps) simp
  have "\<not> has_prefix (c # cs) t" if "t \<in> set space_tokens" for t
    using space_ends [OF that] c by (cases t) auto
  then have "lead_len space_tokens (c # cs) = 0" by (simp only: lead_len_0_iff simp_thms ball_simps) blast
  then have "trim_left_space (c # cs) = c # cs" by (simp add: trim_left_space_def strip_fixed)
  then have "prefix (trim_space (c # cs)) (c # cs)"
    using prefix_trim_right [of "c # cs"] by (simp add: trim_space_def)
  with kept show ?thesis by (auto simp: prefix_Cons)
qed

lemma top_keyD:
  assumes "top_key l"
  shows "trim_space l \<noteq> []" "\<not> has_prefix (trim_space l) ''#''" "\<not> has_prefix (trim_space l) ''- ''"
    "spaces ind \<Longrightarrow> \<not> has_prefix l (ind @ ''- '')" "\<not> has_prefix (drop (length (indent_of l)) l) ''- ''"
proof -
  obtain c cs where l: "l = c # cs" "printable c" "c \<noteq> CHR ''-''" "c \<noteq> CHR ''#''"
    using assms by (auto simp: top_key_def split: list.splits)
  moreover obtain y where "trim_space l = c # y" using trim_printable_head [OF l(2)] l(1) by blast
  moreover have "c \<noteq> CHR '' ''" using l(2) by (auto simp: printable_def)
  ultimately show "trim_space l \<noteq> []" "\<not> has_prefix (trim_space l) ''#''" "\<not> has_prefix (trim_space l) ''- ''"
    "spaces ind \<Longrightarrow> \<not> has_prefix l (ind @ ''- '')" "\<not> has_prefix (drop (length (indent_of l)) l) ''- ''"
    by (auto simp: indent_of_def spaces_def append_eq_Cons_conv dest: spaces_replicate split: list.splits)
      (cases ind; simp add: spaces_def)+
qed

text \<open>A patch places an entry: the list grows by lines of its own shape, the entry is one of them, and
  nothing outside the list changes.\<close>

definition places :: "line_list \<Rightarrow> string \<Rightarrow> string \<Rightarrow> line_list \<Rightarrow> string \<Rightarrow> patcher \<Rightarrow> bool" where
  "places before key ind after r p \<longleftrightarrow> (\<forall>body ls' b. list_body ind body \<longrightarrow> p (before @ key # body @ after) = Inr (ls', b) \<longrightarrow>
     (\<exists>body'. ls' = before @ key # body' @ after \<and> list_body ind body' \<and> subseq body body' \<and> in_list ind r body'))"

lemma insert_in_list:
  "k \<le> length body \<Longrightarrow> insert_lines (Suc (length before + k)) new (before @ key # body @ after) =
     before @ key # insert_lines k new body @ after"
  by (simp add: insert_lines_def)

lemma entry_lineI: "spaces ind \<Longrightarrow> trimmed (''- '' @ r) \<Longrightarrow> entry_line ind (ind @ ''- '' @ r)"
proof -
  assume "spaces ind" "trimmed (''- '' @ r)"
  then have t: "trim_space (ind @ ''- '' @ r) = ''- '' @ r" by (rule trim_indented)
  show ?thesis unfolding entry_line_def t by simp
qed

lemma insert_grows:
  assumes "k \<le> length body" "list_body ind body" "spaces ind" "trimmed (''- '' @ r)"
  shows "list_body ind (insert_lines k [ind @ ''- '' @ r] body)" "subseq body (insert_lines k [ind @ ''- '' @ r] body)"
    "in_list ind r (insert_lines k [ind @ ''- '' @ r] body)"
proof -
  let ?x = "ind @ ''- '' @ r"
  have x: "entry_line ind ?x" "trim_space ?x = ''- '' @ r" using entry_lineI [OF assms(3,4)] trim_indented [OF assms(3,4)] by blast+
  have all: "set (insert_lines k [?x] body) = insert ?x (set body)"
    unfolding insert_lines_def using set_append [of "take k body" "drop k body"] by simp
  have "list_all (list_line ind) (insert_lines k [?x] body)"
    using assms(2) x(1) unfolding list_body_def list_all_iff all by (auto simp: list_line_def)
  moreover have "case insert_lines k [?x] body of [] \<Rightarrow> False | l # _ \<Rightarrow> entry_line ind l" if "ind \<noteq> ''  ''"
    using that assms(2) x(1) by (cases k) (auto simp: insert_lines_def list_body_def split: list.splits)
  ultimately show "list_body ind (insert_lines k [?x] body)" by (auto simp: list_body_def)
  have "subseq (take k body @ drop k body) (take k body @ [?x] @ drop k body)"
    by (intro list_emb_append_mono list_emb_append2) simp_all
  then show "subseq body (insert_lines k [?x] body)" by (simp add: insert_lines_def)
  show "in_list ind r (insert_lines k [?x] body)"
    unfolding in_list_def list_ex_iff all using x by blast
qed

lemma item_not_comment: "trim_space l = ''- '' @ r \<or> trim_space l = ''- ./'' @ r \<Longrightarrow> list_line ind l \<Longrightarrow> entry_line ind l"
  by (auto simp: list_line_def)

text \<open>A line that names a known resource is in the list.\<close>

lemma named_in_body:
  assumes "kustomization before key ind after" "i < length (before @ key # body @ after)"
    "names_resource ((before @ key # body @ after) ! i)"
  shows "\<exists>k<length body. i = Suc (length before + k) \<and> (before @ key # body @ after) ! i = body ! k"
proof -
  have out: "l \<notin> set before" "l \<notin> set after" "l \<noteq> key" if "names_resource l" for l
    using assms(1) that by (auto simp: kustomization_def list_ex_iff names_resource_def)
  let ?l = "(before @ key # body @ after) ! i"
  consider "i < length before" | "i = length before"
    | k where "i = Suc (length before + k)" "k < length body"
    | k where "i = Suc (length before + length body + k)" "k < length after"
  proof -
    assume t: thesis if "i < length before"
    assume u: thesis if "i = length before"
    assume v: thesis if "i = Suc (length before + k)" "k < length body" for k
    assume w: thesis if "i = Suc (length before + length body + k)" "k < length after" for k
    show thesis
      using t u v [of "i - Suc (length before)"] w [of "i - Suc (length before + length body)"] assms(2)
      by (cases "i < length before"; cases "i = length before"; cases "i < Suc (length before + length body)") auto
  qed
  then show ?thesis
  proof cases
    case 1
    then have "?l \<in> set before" by (simp add: nth_append)
    with out(1) [OF assms(3)] show ?thesis by blast
  next
    case 2
    then have "?l = key" by (simp add: nth_append)
    with out(3) [OF assms(3)] show ?thesis by blast
  next
    case (3 k)
    then show ?thesis by (intro exI [of _ k]) (simp add: nth_append)
  next
    case (4 k)
    then have "?l \<in> set after" by (simp add: nth_append)
    with out(2) [OF assms(3)] show ?thesis by blast
  qed
qed

lemma already_listed:
  assumes "kustomization before key ind after" "list_body ind body" "r \<in> set known_resources"
    "has_resource_entry r (before @ key # body @ after)"
  shows "in_list ind r body"
proof -
  let ?ls = "before @ key # body @ after"
  obtain l where l: "l \<in> set ?ls" "trim_space l = ''- '' @ r \<or> trim_space l = ''- ./'' @ r"
    using assms(4) by (auto simp: has_resource_entry_def has_line_def list_ex_iff)
  obtain i where i: "i < length ?ls" "?ls ! i = l" using l(1) by (meson in_set_conv_nth)
  have "names_resource (?ls ! i)"
    using l(2) assms(3) i(2) unfolding names_resource_def list_ex_iff by blast
  then obtain k where "k < length body" "?ls ! i = body ! k" using named_in_body [OF assms(1) i(1)] by blast
  with i(2) have "l \<in> set body" by auto
  moreover have "list_line ind l" using assms(2) calculation by (simp add: list_body_def list_all_iff)
  ultimately show ?thesis
    using item_not_comment [OF l(2)] l(2) unfolding in_list_def list_ex_iff by blast
qed

lemma entry_indent: "spaces ind \<Longrightarrow> entry_line ind l \<Longrightarrow> indent_of l = ind \<and> has_prefix (drop (length (indent_of l)) l) ''- ''"
proof -
  assume "spaces ind" "entry_line ind l"
  then obtain rest where "l = ind @ ''- '' @ rest" by (auto simp: entry_line_def prefix_def)
  with \<open>spaces ind\<close> show ?thesis by (simp add: indent_of_def spaces_def list_all_iff takeWhile_append2)
qed

lemma insert_after_places:
  assumes k: "kustomization before key ind after" and "anchor \<in> set known_resources" "r \<in> set known_resources"
    "trimmed (''- '' @ r)"
  shows "places before key ind after r (insert_after (''- '' @ anchor) (''- '' @ r))"
  unfolding places_def
proof (intro allI impI)
  fix body ls' b
  let ?ls = "before @ key # body @ after"
  assume body: "list_body ind body" and p: "insert_after (''- '' @ anchor) (''- '' @ r) ?ls = Inr (ls', b)"
  show "\<exists>body'. ls' = before @ key # body' @ after \<and> list_body ind body' \<and> subseq body body' \<and> in_list ind r body'"
  proof (cases "has_line (''- '' @ r) ?ls")
    case True
    then have "in_list ind r body" using already_listed [OF k body assms(3)] by (simp add: has_resource_entry_def)
    with True p body show ?thesis by (auto simp: insert_after_def)
  next
    case False
    then obtain i where i: "find_index (\<lambda>l. trim_space l = ''- '' @ anchor) ?ls = Some i"
      and ls': "ls' = insert_lines (Suc i) [indent_of (?ls ! i) @ ''- '' @ r] ?ls"
      using p by (auto simp: insert_after_def split: option.splits)
    note at = find_index_SomeD [OF i]
    have "names_resource (?ls ! i)"
      using at assms(2) unfolding names_resource_def list_ex_iff by blast
    then obtain n where n: "n < length body" "i = Suc (length before + n)" "?ls ! i = body ! n"
      using named_in_body [OF k] at by blast
    have "entry_line ind (body ! n)"
      using item_not_comment [of _ anchor ind] at body n by (metis list_all_length list_body_def)
    then have "indent_of (?ls ! i) = ind" using entry_indent k n(3) by (metis kustomization_def)
    with ls' n have "ls' = before @ key # insert_lines (Suc n) [ind @ ''- '' @ r] body @ after"
      using insert_in_list [of "Suc n" body before _ key after] by simp
    moreover have "spaces ind" using k by (simp add: kustomization_def)
    ultimately show ?thesis using insert_grows [of "Suc n" body ind r] n(1) body assms(4) by auto
  qed
qed

lemma take_while_stops:
  "(case ys of [] \<Rightarrow> True | y # _ \<Rightarrow> \<not> P y) \<Longrightarrow> length (takeWhile P (xs @ ys)) \<le> length xs"
  by (induction xs) (auto split: list.splits)

lemma not_item: "trim_space l = [] \<or> has_prefix (trim_space l) ''#'' \<Longrightarrow>
    \<not> has_prefix (drop (length (indent_of l)) l) ''- ''"
proof
  assume t: "trim_space l = [] \<or> has_prefix (trim_space l) ''#''"
    and "has_prefix (drop (length (indent_of l)) l) ''- ''"
  then obtain x where "drop (length (indent_of l)) l = CHR ''-'' # x" by (auto simp: prefix_def)
  moreover have "l = indent_of l @ drop (length (indent_of l)) l"
    unfolding indent_of_def by (metis dropWhile_eq_drop takeWhile_dropWhile_id)
  ultimately have "trim_space l = trim_space (CHR ''-'' # x)"
    using spaces_replicate [of "indent_of l"] trim_space_spaces by (metis spaces_indent(1))
  moreover obtain y where "trim_space (CHR ''-'' # x) = CHR ''-'' # y"
    using trim_printable_head [of "CHR ''-''"] by (auto simp: printable_def)
  ultimately show False using t by auto
qed

lemma resource_places:
  assumes k: "kustomization before key ind after" and "r \<in> set known_resources" "trimmed (''- '' @ r)"
  shows "places before key ind after r (patch_kustomization_resource r)"
  unfolding places_def
proof (intro allI impI)
  fix body ls' b
  let ?ls = "before @ key # body @ after"
  assume body: "list_body ind body" and p: "patch_kustomization_resource r ?ls = Inr (ls', b)"
  have ind: "spaces ind" using k by (simp add: kustomization_def)
  have at: "resources_at ?ls = Some (length before)"
    using k by (induction before) (auto simp: resources_at_def kustomization_def)
  define d where "d = (case body @ after of
      l # _ \<Rightarrow> if has_prefix (drop (length (indent_of l)) l) ''- '' then indent_of l else ''  ''
    | [] \<Rightarrow> ''  '')"
  define n where "n = length (takeWhile (\<lambda>l. has_prefix l (d @ ''- '')) (body @ after))"
  show "\<exists>body'. ls' = before @ key # body' @ after \<and> list_body ind body' \<and> subseq body body' \<and> in_list ind r body'"
  proof (cases "has_line (''- '' @ r) ?ls")
    case True
    then have "in_list ind r body" using already_listed [OF k body assms(2)] by (simp add: has_resource_entry_def)
    with True p body show ?thesis by (auto simp: patch_kustomization_resource_def)
  next
    case False
    with p at have ls': "ls' = insert_lines (Suc (length before) + n) [d @ ''- '' @ r] ?ls"
      by (simp add: patch_kustomization_resource_def n_def d_def Let_def)
    have d: "d = ind"
    proof (cases body)
      case Nil
      then have "d = ''  ''" using k by (auto simp: d_def kustomization_def dest: top_keyD(5) split: list.splits)
      with Nil body show ?thesis by (simp add: list_body_def)
    next
      case (Cons l rest)
      show ?thesis
      proof (cases "entry_line ind l")
        case True
        then have "indent_of l = ind" "has_prefix (drop (length (indent_of l)) l) ''- ''"
          using entry_indent [OF ind] by blast+
        then have "(if has_prefix (drop (length (indent_of l)) l) ''- '' then indent_of l else ''  '') = ind" by argo
        with Cons show ?thesis by (simp only: d_def append_Cons list.case)
      next
        case False
        with body Cons have two: "ind = ''  ''" and "trim_space l = [] \<or> has_prefix (trim_space l) ''#''"
          by (auto simp: list_body_def list_line_def)
        then have "\<not> has_prefix (drop (length (indent_of l)) l) ''- ''"
          using not_item by blast
        with Cons two show ?thesis by (simp add: d_def)
      qed
    qed
    have n: "n \<le> length body"
      unfolding n_def using k top_keyD(4) [OF _ ind] by (intro take_while_stops) (auto simp: d kustomization_def split: list.splits)
    have "ls' = before @ key # insert_lines n [ind @ ''- '' @ r] body @ after"
      using ls' insert_in_list [OF n, of before _ key after] by (simp add: d)
    with insert_grows [OF n body ind assms(3)] show ?thesis by auto
  qed
qed

lemma entries_run_list:
  assumes "case after of [] \<Rightarrow> True | l # _ \<Rightarrow> top_key l" "spaces ind"
  shows "list_all (list_line ind) body \<Longrightarrow> (case entries_run d (body @ after) of
      None \<Rightarrow> \<not> list_ex (entry_line ind) body
    | Some (n, i) \<Rightarrow> n \<le> length body \<and> i = ind)"
proof (induction body)
  case Nil
  then show ?case using assms(1) by (cases after) (auto simp: Let_def dest: top_keyD)
next
  case (Cons l body)
  then have IH: "case entries_run d (body @ after) of None \<Rightarrow> \<not> list_ex (entry_line ind) body
      | Some (n, i) \<Rightarrow> n \<le> length body \<and> i = ind" and l: "list_line ind l" by simp_all
  show ?case
  proof (cases "entry_line ind l")
    case True
    then have "has_prefix (trim_space l) ''- ''" "indent_of l = ind"
      using entry_indent [OF assms(2)] by (auto simp: entry_line_def)
    then show ?thesis using IH by (auto simp: Let_def split: option.splits)
  next
    case False
    then have t: "trim_space l = [] \<or> has_prefix (trim_space l) ''#''" using l by (simp add: list_line_def)
    then have "\<not> has_prefix (trim_space l) ''- ''" by (auto simp: prefix_def)
    with t False IH show ?thesis by (auto simp: Let_def split: option.splits)
  qed
qed

lemma addons_places:
  assumes k: "kustomization before key ind after" and "r \<in> set known_resources" "trimmed (''- '' @ r)"
  shows "places before key ind after r (patch_addons_entry r)"
  unfolding places_def
proof (intro allI impI)
  fix body ls' b
  let ?ls = "before @ key # body @ after"
  assume body: "list_body ind body" and p: "patch_addons_entry r ?ls = Inr (ls', b)"
  have ind: "spaces ind" and stop: "case after of [] \<Rightarrow> True | l # _ \<Rightarrow> top_key l"
    using k by (simp_all add: kustomization_def)
  have at: "top_resources_at ?ls = Some (length before)"
    using k by (induction before) (auto simp: top_resources_at_def kustomization_def)
  show "\<exists>body'. ls' = before @ key # body' @ after \<and> list_body ind body' \<and> subseq body body' \<and> in_list ind r body'"
  proof (cases "has_resource_entry r ?ls")
    case True
    then have "in_list ind r body" using already_listed [OF k body assms(2)] by blast
    with True p body show ?thesis by (auto simp: patch_addons_entry_def)
  next
    case False
    obtain n d where run: "(case entries_run ''  '' (body @ after) of None \<Rightarrow> (0, ''  '') | Some r \<Rightarrow> r) = (n, d)"
      by fastforce
    have nd: "n \<le> length body \<and> d = ind"
      using entries_run_list [OF stop ind, of body "''  ''"] body run
      by (auto simp: list_body_def split: option.splits list.splits)
    have "ls' = insert_lines (Suc (length before) + n) [ind @ ''- '' @ r] ?ls"
      using p False at run nd by (simp add: patch_addons_entry_def append_resource_entry_def)
    then have "ls' = before @ key # insert_lines n [ind @ ''- '' @ r] body @ after"
      using insert_in_list [of n body before _ key after] nd by simp
    with insert_grows [of n body ind r] nd body ind assms(3) show ?thesis by auto
  qed
qed

section \<open>The resources of a cluster\<close>

text \<open>What an installation wires into the resources of its \<open>kustomization.yaml\<close>: one flag per step
  of \<open>Scaffold\<close> that fires, and the patches in the order of the steps.\<close>

record scaffold_steps =
  st_object_storage :: bool
  st_addons :: bool
  st_vm_storage :: bool
  st_baseline :: bool
  st_os_mirror :: bool
  st_registry :: bool
  st_metrics :: bool
  st_gpu :: bool
  st_wildcard :: bool
  st_dns01 :: bool
  st_trusted_ca :: bool

definition resource_table :: "scaffold_steps \<Rightarrow> (bool \<times> string \<times> patcher) list" where
  "resource_table c =
     [(st_object_storage c, ''infra-object-storage.yaml'', patch_kustomization_resources),
      (st_addons c, ''addons.yaml'', patch_addons_entry ''addons.yaml''),
      (st_addons c, ''addons-config.yaml'', patch_addons_entry ''addons-config.yaml''),
      (st_vm_storage c, ''rbd-vm.yaml'', patch_kustomization_rbd_vm),
      (st_baseline c, ''tenant-addons.yaml'', patch_kustomization_resource ''tenant-addons.yaml''),
      (st_os_mirror c, ''cdi-os-mirror.yaml'', patch_kustomization_resource ''cdi-os-mirror.yaml''),
      (st_registry c, ''registry-depot.yaml'', patch_kustomization_resource ''registry-depot.yaml''),
      (st_metrics c, ''monitoring-writepath.yaml'', patch_kustomization_resource ''monitoring-writepath.yaml''),
      (st_gpu c, ''gpu.yaml'', patch_kustomization_gpu),
      (st_wildcard c, ''wildcard-tls-secrets.enc.yaml'', patch_kustomization_resource ''wildcard-tls-secrets.enc.yaml''),
      (st_dns01 c, ''dns01-route53-credentials.enc.yaml'',
        patch_kustomization_resource ''dns01-route53-credentials.enc.yaml''),
      (st_trusted_ca c, ''trusted-ca.yaml'', patch_kustomization_resource ''trusted-ca.yaml'')]"

definition wired_resources :: "scaffold_steps \<Rightarrow> (string \<times> patcher) list" where
  "wired_resources c = map snd (filter fst (resource_table c))"

definition scaffold_resources :: "scaffold_steps \<Rightarrow> line_list \<Rightarrow> patch_error + line_list" where
  "scaffold_resources c = run_patches (map snd (wired_resources c))"

lemma listed: "has_line (''- '' @ r) ls \<Longrightarrow> has_resource_entry r ls"
  by (simp add: has_resource_entry_def)

lemma trimmed_item: "r \<noteq> [] \<Longrightarrow> printable (last r) \<Longrightarrow> trimmed (''- '' @ r)"
  by (rule trimmed_printable) (simp_all add: printable_def)

lemma resource_wiring: "r \<noteq> [] \<Longrightarrow> printable (last r) \<Longrightarrow>
    \<exists>w. wiring (patch_kustomization_resource r) w \<and> (\<forall>ls. w ls \<longrightarrow> has_resource_entry r ls)"
  using wiring_resource [OF trimmed_item] listed by blast

lemma addons_wiring: "r \<noteq> [] \<Longrightarrow> printable (last r) \<Longrightarrow>
    \<exists>w. wiring (patch_addons_entry r) w \<and> (\<forall>ls. w ls \<longrightarrow> has_resource_entry r ls)"
  using wiring_addons [OF trimmed_item] by blast

lemma insertion_wiring: "wiring p (has_line (''- '' @ r)) \<Longrightarrow>
    \<exists>w. wiring p w \<and> (\<forall>ls. w ls \<longrightarrow> has_resource_entry r ls)"
  using listed by blast

lemma table_wiring:
  assumes "(b, r, p) \<in> set (resource_table c)"
  shows "\<exists>w. wiring p w \<and> (\<forall>ls. w ls \<longrightarrow> has_resource_entry r ls)"
proof -
  have fixed: "\<exists>w. wiring patch_kustomization_resources w \<and> (\<forall>ls. w ls \<longrightarrow> has_resource_entry ''infra-object-storage.yaml'' ls)"
    "\<exists>w. wiring patch_kustomization_rbd_vm w \<and> (\<forall>ls. w ls \<longrightarrow> has_resource_entry ''rbd-vm.yaml'' ls)"
    "\<exists>w. wiring patch_kustomization_gpu w \<and> (\<forall>ls. w ls \<longrightarrow> has_resource_entry ''gpu.yaml'' ls)"
    using insertion_wiring [of _ "''infra-object-storage.yaml''"] insertion_wiring [of _ "''rbd-vm.yaml''"]
      insertion_wiring [of _ "''gpu.yaml''"] storage_entry.wiring_axioms rbd_vm_entry.wiring_axioms
      gpu_entry.wiring_axioms by simp_all
  from assms show ?thesis
    unfolding resource_table_def set_simps
    by (elim insertE emptyE)
      (use fixed in \<open>simp_all add: resource_wiring addons_wiring printable_def\<close>)
qed

text \<open>A step is chosen by its flag.\<close>

definition fewer_steps :: "scaffold_steps \<Rightarrow> scaffold_steps \<Rightarrow> bool" where
  "fewer_steps c' c \<longleftrightarrow> list_all2 (\<longrightarrow>) (map fst (resource_table c')) (map fst (resource_table c))"

lemma chosen_mono: "list_all2 (\<longrightarrow>) fs gs \<Longrightarrow>
    set (map snd (filter fst (zip fs es))) \<subseteq> set (map snd (filter fst (zip gs es)))"
proof (induction fs gs arbitrary: es rule: list_all2_induct)
  case (Cons f fs g gs)
  then show ?case by (cases es) auto
qed simp

lemma table_entries: "map snd (resource_table c') = map snd (resource_table c)"
  by (simp only: resource_table_def list.map snd_conv)

lemma fewer_wired:
  assumes "fewer_steps c' c"
  shows "set (wired_resources c') \<subseteq> set (wired_resources c)"
proof -
  have zip: "zip (map fst (resource_table d)) (map snd (resource_table c)) = resource_table d" for d
    unfolding table_entries [of c d] by (simp add: zip_map_fst_snd)
  show ?thesis
    using chosen_mono [OF assms [unfolded fewer_steps_def], of "map snd (resource_table c)"]
    by (simp only: zip wired_resources_def)
qed

text \<open>Every step of the table places its entry.\<close>

lemma table_places:
  assumes "(b, r, p) \<in> set (resource_table c)" "kustomization before key ind after"
  shows "places before key ind after r p"
proof -
  have plain: "\<forall>r\<in>set known_resources. trimmed (''- '' @ r)"
    by (simp add: known_resources_def trimmed_printable printable_def)
  note place = insert_after_places [OF assms(2)] resource_places [OF assms(2)] addons_places [OF assms(2)]
  have fixed: "places before key ind after ''infra-object-storage.yaml'' patch_kustomization_resources"
    "places before key ind after ''rbd-vm.yaml'' patch_kustomization_rbd_vm"
    "places before key ind after ''gpu.yaml'' patch_kustomization_gpu"
    using place(1) [of "''infrastructure.yaml''" "''infra-object-storage.yaml''"]
      place(1) [of "''platform.yaml''" "''rbd-vm.yaml''"] place(1) [of "''platform.yaml''" "''gpu.yaml''"]
    by (simp_all add: known_resources_def trimmed_entries patch_kustomization_resources_def
        patch_kustomization_rbd_vm_def patch_kustomization_gpu_def)
  have known: "places before key ind after s (patch_kustomization_resource s)"
    "places before key ind after s (patch_addons_entry s)" if "s \<in> set known_resources" for s
    using place(2,3) that plain by blast+
  have "list_all (\<lambda>(b, r, p). places before key ind after r p) (resource_table c)"
    unfolding resource_table_def list.pred_inject prod.case
    by (intro conjI TrueI fixed known) (simp_all add: known_resources_def)
  with assms(1) show ?thesis by (auto simp: list_all_iff)
qed

lemma in_list_mono: "in_list ind r body \<Longrightarrow> subseq body body' \<Longrightarrow> in_list ind r body'"
proof -
  assume "in_list ind r body" and sub: "subseq body body'"
  moreover have "x \<in> set body'" if "x \<in> set body" for x
    using list_emb_set [OF sub that] by blast
  ultimately show "in_list ind r body'" unfolding in_list_def list_ex_iff by blast
qed

lemma run_places:
  assumes "\<forall>(r, p)\<in>set rps. places before key ind after r p" "list_body ind body"
    "run_patches (map snd rps) (before @ key # body @ after) = Inr ls'"
  shows "\<exists>body'. ls' = before @ key # body' @ after \<and> list_body ind body' \<and> subseq body body' \<and>
    (\<forall>(r, p)\<in>set rps. in_list ind r body')"
  using assms
proof (induction rps arbitrary: body)
  case (Cons rp rps)
  obtain r p where rp: "rp = (r, p)" by (cases rp)
  with Cons.prems obtain l b where p: "p (before @ key # body @ after) = Inr (l, b)"
    and run: "run_patches (map snd rps) l = Inr ls'" by (auto split: sum.splits)
  have "places before key ind after r p" and rest: "\<forall>(r, p)\<in>set rps. places before key ind after r p"
    using Cons.prems(1) by (simp_all add: rp)
  then obtain body1 where 1: "l = before @ key # body1 @ after" "list_body ind body1" "subseq body body1" "in_list ind r body1"
    using Cons.prems(2) p unfolding places_def by blast
  obtain body' where 2: "ls' = before @ key # body' @ after" "list_body ind body'" "subseq body1 body'"
      "\<forall>(r, p)\<in>set rps. in_list ind r body'"
    using Cons.IH [OF rest 1(2) run [unfolded 1(1)]] by blast
  have "subseq body body'" using 1(3) 2(3) by (rule subseq_order.trans)
  with 2 in_list_mono [OF 1(4) 2(3)] show ?case unfolding rp list.set ball_simps prod.case by blast
qed auto



definition demo_kustomization :: line_list where
  "demo_kustomization = [''apiVersion: kustomize.config.k8s.io/v1beta1'', ''kind: Kustomization'', ''resources:'',
     ''  - cluster-config.yaml'', ''  - infrastructure.yaml'', ''  - platform.yaml'', []]"

definition demo_steps :: scaffold_steps where
  "demo_steps = \<lparr>st_object_storage = True, st_addons = True, st_vm_storage = True, st_baseline = True,
     st_os_mirror = False, st_registry = True, st_metrics = False, st_gpu = True, st_wildcard = False,
     st_dns01 = True, st_trusted_ca = False\<rparr>"

definition demo_wired :: line_list where
  "demo_wired = projr (scaffold_resources demo_steps demo_kustomization)"


text \<open>Where the conditions fail.  The test whether a resource is there does not look at the list, so an
  item of another list counts; and below a comment the list's own indentation is not looked at.\<close>

lemma item_elsewhere_counts:
  "patch_addons_entry ''addons.yaml'' [''resources:'', ''  - platform.yaml'', ''transformers:'', ''  - addons.yaml''] =
     Inr ([''resources:'', ''  - platform.yaml'', ''transformers:'', ''  - addons.yaml''], False)"
  by code_simp

lemma comment_hides_indentation:
  "patch_kustomization_resource ''trusted-ca.yaml'' [''resources:'', ''# layers'', ''- platform.yaml''] =
     Inr ([''resources:'', ''  - trusted-ca.yaml'', ''# layers'', ''- platform.yaml''], True)"
  by code_simp

end
