(* ===== verification/Sops_File.thy ===== *)
theory Sops_File
  imports Atomic_File
begin

text \<open>
  How a secret reaches its encrypted file (\<open>sopsEncryptToFile\<close> in
  \<open>clusterinit/imageaccel.go\<close> and \<open>sopsFileDecryptsTo\<close> in
  \<open>clusterinit/wildcardtls.go\<close>): residue of a crashed run is swept, the plaintext exists only in a
  temporary file of the same directory, the output of the \<open>sops\<close> program is checked, and the
  tracked file appears by one rename.  The program itself is a parameter.
\<close>

section \<open>Encrypting\<close>

datatype sops_error =
    Lock_Failed | Stale_Temp string | No_Suffix | Temp_Create | Temp_Write | Temp_Close
  | Sops_Failed | Temp_Read | Not_Encrypted | Leaks | Finalize

text \<open>What the system does in one run: the lock, the names that \<open>ReadDir\<close> returns (\<open>None\<close> when
  it fails), the temporaries that cannot be removed, the eight random bytes in hexadecimal, the system calls
  on the temporary file, and the \<open>sops\<close> program, which succeeds or not and leaves a content.\<close>

record sops_run =
  sr_lock_ok :: bool
  sr_entries :: "string list option"
  sr_stuck :: "string list"
  sr_suffix :: "string option"
  sr_create_ok :: bool
  sr_written :: "string option"
  sr_close_ok :: bool
  sr_sops :: "string \<Rightarrow> bool \<times> string"
  sr_read_ok :: bool
  sr_rename_ok :: bool
  sr_remove_ok :: bool

text \<open>\<open>filepath.Join\<close> of a directory as \<open>filepath.Dir\<close> returns it and a name.\<close>

definition path_join :: "string \<Rightarrow> string \<Rightarrow> string" where
  "path_join dir n = (if dir = ''.'' then n else if dir \<noteq> [] \<and> last dir = CHR ''/'' then dir @ n else dir @ ''/'' @ n)"

definition stale_name :: "string \<Rightarrow> string \<Rightarrow> bool" where
  "stale_name base n \<longleftrightarrow> has_prefix n (base @ ''.tmp-'') \<and> has_suffix n ''.enc.yaml''"

fun sweep :: "string list \<Rightarrow> string \<Rightarrow> string \<Rightarrow> string list \<Rightarrow> fs \<Rightarrow> sops_error option \<times> fs" where
  "sweep stuck dir base [] d = (None, d)"
| "sweep stuck dir base (n # ns) d =
     (if \<not> stale_name base n then sweep stuck dir base ns d
      else if n \<in> set stuck then (Some (Stale_Temp n), d)
      else sweep stuck dir base ns (d(path_join dir n := None)))"

definition sops_tmp :: "string \<Rightarrow> string \<Rightarrow> string" where
  "sops_tmp path x = path @ ''.tmp-'' @ x @ ''.enc.yaml''"

text \<open>The checks on an encrypted text: it carries the metadata and none of the secrets.\<close>

definition verified :: "string list \<Rightarrow> string \<Rightarrow> bool" where
  "verified leaks enc \<longleftrightarrow> contains enc ''sops'' \<and> list_all (\<lambda>s. s = [] \<or> \<not> contains enc s) leaks"

definition owner_only :: nat where "owner_only = 384"

definition drop_tmp :: "sops_run \<Rightarrow> string \<Rightarrow> fs \<Rightarrow> fs" where
  "drop_tmp r tmp d = (if sr_remove_ok r then d(tmp := None) else d)"

definition encrypt_tmp :: "sops_run \<Rightarrow> string \<Rightarrow> string \<Rightarrow> string \<Rightarrow> string list \<Rightarrow> fs \<Rightarrow> sops_error option \<times> fs" where
  "encrypt_tmp r path tmp plain leaks d =
     (if \<not> sr_create_ok r \<or> d tmp \<noteq> None then (Some Temp_Create, d)
      else let put = \<lambda>c. d(tmp \<mapsto> \<lparr>f_content = c, f_mode = owner_only\<rparr>);
               bail = \<lambda>e c. (Some e, drop_tmp r tmp (put c)) in
      case sr_written r of
        Some part \<Rightarrow> bail Temp_Write part
      | None \<Rightarrow>
          if \<not> sr_close_ok r then bail Temp_Close plain
          else let (ok, enc) = sr_sops r plain in
          if \<not> ok then bail Sops_Failed enc
          else if \<not> sr_read_ok r then bail Temp_Read enc
          else if \<not> contains enc ''sops'' then bail Not_Encrypted enc
          else if \<not> verified leaks enc then bail Leaks enc
          else if \<not> sr_rename_ok r then bail Finalize enc
          else (None, rename_file tmp path (put enc)))"

definition sops_encrypt_to_file :: "sops_run \<Rightarrow> string \<Rightarrow> string \<Rightarrow> string list \<Rightarrow> fs \<Rightarrow> sops_error option \<times> fs" where
  "sops_encrypt_to_file r path plain leaks d =
     (if \<not> sr_lock_ok r then (Some Lock_Failed, d)
      else (case (case sr_entries r of None \<Rightarrow> (None, d)
              | Some ns \<Rightarrow> sweep (sr_stuck r) (dir_of path) (filepath_base path) ns d) of
          (Some e, d1) \<Rightarrow> (Some e, d1)
        | (None, d1) \<Rightarrow> (case sr_suffix r of
            None \<Rightarrow> (Some No_Suffix, d1)
          | Some x \<Rightarrow> encrypt_tmp r path (sops_tmp path x) plain leaks d1)))"

text \<open>\<open>sopsFileDecryptsTo\<close>: whether a file may be kept; \<open>decrypt\<close> stands for \<open>sops --decrypt\<close>.\<close>

definition sops_file_decrypts_to :: "(string \<Rightarrow> string option) \<Rightarrow> string \<Rightarrow> string \<Rightarrow> string list \<Rightarrow> fs \<Rightarrow> bool" where
  "sops_file_decrypts_to decrypt path plain leaks d =
     (case d path of None \<Rightarrow> False
      | Some f \<Rightarrow> verified leaks (f_content f) \<and> decrypt (f_content f) = Some plain)"

section \<open>No plaintext stays behind\<close>

text \<open>A path keeps its file, or it is that of a stale temporary and is gone.\<close>

definition swept :: "string \<Rightarrow> fs \<Rightarrow> fs \<Rightarrow> string \<Rightarrow> bool" where
  "swept path d d' p \<longleftrightarrow> d' p = d p \<or>
     d' p = None \<and> (\<exists>n. stale_name (filepath_base path) n \<and> p = path_join (dir_of path) n)"

lemma sweep_removes:
  "sweep stuck dir base ns d = (e, d') \<Longrightarrow> d' p = d p \<or> d' p = None \<and> (\<exists>n. stale_name base n \<and> p = path_join dir n)"
  by (induction stuck dir base ns d rule: sweep.induct) (auto split: if_splits)

lemma sweep_clears:
  "sweep stuck dir base ns d = (None, d') \<Longrightarrow> n \<in> set ns \<Longrightarrow> stale_name base n \<Longrightarrow> d' (path_join dir n) = None"
proof (induction stuck dir base ns d rule: sweep.induct)
  case (2 stuck dir base m ns d)
  show ?case
  proof (cases "stale_name base m")
    case False
    with 2 show ?thesis by auto
  next
    case True
    with "2.prems"(1) have m: "m \<notin> set stuck" and run: "sweep stuck dir base ns (d(path_join dir m := None)) = (None, d')"
      by (auto split: if_splits)
    show ?thesis
    proof (cases "n \<in> set ns")
      case True
      then show ?thesis
        using "2.IH"(2) \<open>stale_name base m\<close> m run "2.prems"(3) by (simp add: fun_upd_def)
    next
      case False
      then have "n = m" using "2.prems"(2) by simp
      then show ?thesis using sweep_removes [OF run, of "path_join dir m"] by auto
    qed
  qed
qed simp


lemma stale_path_longer:
  assumes "stale_name (filepath_base path) n"
  shows "path_join (dir_of path) n \<noteq> path"
proof (cases "last_slash path")
  case None
  then show ?thesis using assms by (auto simp: stale_name_def prefix_def path_join_def dir_of_def filepath_base_def)
next
  case (Some i)
  have bound: "i < length path" using Some by (auto simp: last_slash_def dest!: find_index_SomeD)
  have "length (filepath_base path) + 5 \<le> length n"
    using assms by (auto simp: stale_name_def prefix_def)
  moreover have "i = 1" if "take i path = ''.''" using arg_cong [OF that, of length] bound by simp
  ultimately have "length path < length (path_join (dir_of path) n)"
    using Some bound by (auto simp: path_join_def dir_of_def filepath_base_def)
  then show ?thesis by auto
qed

lemma tmp_longer: "sops_tmp path x \<noteq> path"
  by (simp add: sops_tmp_def)

text \<open>What is left of the temporary: nothing, unless its removal failed.\<close>

definition left_over :: "sops_run \<Rightarrow> string \<Rightarrow> fs \<Rightarrow> fs \<Rightarrow> bool" where
  "left_over r tmp d d' \<longleftrightarrow> d' = d \<or> \<not> sr_remove_ok r \<and> d tmp = None \<and>
     (\<exists>c. d' = d(tmp \<mapsto> \<lparr>f_content = c, f_mode = owner_only\<rparr>))"

lemma encrypt_tmp_cases:
  assumes "encrypt_tmp r path tmp plain leaks d = (e, d')"
  shows "e \<noteq> None \<Longrightarrow> left_over r tmp d d'"
    and "e = None \<Longrightarrow> \<exists>f. f_mode f = owner_only \<and> verified leaks (f_content f) \<and> d tmp = None \<and> d' = d(path \<mapsto> f)"
proof -
  have "e \<noteq> None \<Longrightarrow> left_over r tmp d d'" "e = None \<Longrightarrow> d tmp = None"
      "e = None \<Longrightarrow> \<exists>f. f_mode f = owner_only \<and> verified leaks (f_content f) \<and> d' = d(path \<mapsto> f)"
  proof (atomize (full), cases "sr_create_ok r \<and> d tmp = None")
    case False
    then have "e = Some Temp_Create" "d' = d" using assms by (auto simp: encrypt_tmp_def)
    then show "(e \<noteq> None \<longrightarrow> left_over r tmp d d') \<and> (e = None \<longrightarrow> d tmp = None) \<and>
      (e = None \<longrightarrow> (\<exists>f. f_mode f = owner_only \<and> verified leaks (f_content f) \<and> d' = d(path \<mapsto> f)))"
      by (simp add: left_over_def)
  next
    case True
    have undo: "left_over r tmp d (drop_tmp r tmp (d(tmp \<mapsto> \<lparr>f_content = c, f_mode = owner_only\<rparr>)))" for c
      using True by (auto simp: drop_tmp_def left_over_def)
    have moved: "rename_file tmp path (d(tmp \<mapsto> f)) = d(path \<mapsto> f)" for f
      using True by (intro ext) (auto simp: rename_file_def)
    have "e \<noteq> None \<longrightarrow> left_over r tmp d d'"
      using assms True undo unfolding encrypt_tmp_def by (auto simp: Let_def split: if_splits option.splits prod.splits)
    moreover have "\<exists>enc. verified leaks enc \<and> d' = d(path \<mapsto> \<lparr>f_content = enc, f_mode = owner_only\<rparr>)" if "e = None"
      using assms True that unfolding encrypt_tmp_def by (auto simp: moved Let_def split: if_splits option.splits prod.splits)
    ultimately show "(e \<noteq> None \<longrightarrow> left_over r tmp d d') \<and> (e = None \<longrightarrow> d tmp = None) \<and>
      (e = None \<longrightarrow> (\<exists>f. f_mode f = owner_only \<and> verified leaks (f_content f) \<and> d' = d(path \<mapsto> f)))"
      using True by force
  qed
  then show "e \<noteq> None \<Longrightarrow> left_over r tmp d d'"
    and "e = None \<Longrightarrow> \<exists>f. f_mode f = owner_only \<and> verified leaks (f_content f) \<and> d tmp = None \<and> d' = d(path \<mapsto> f)"
    by blast+
qed

text \<open>A run is a sweep, and after it the temporary.\<close>

lemma encrypt_run:
  assumes "sops_encrypt_to_file r path plain leaks d = (e, d')"
  obtains (early) "e \<noteq> None" "d' path = d path" "\<And>p. swept path d d' p"
  | (tmp) d1 x where "sr_suffix r = Some x" "encrypt_tmp r path (sops_tmp path x) plain leaks d1 = (e, d')"
      "d1 path = d path" "\<And>p. swept path d d1 p"
      "\<And>ns n. sr_entries r = Some ns \<Longrightarrow> n \<in> set ns \<Longrightarrow> stale_name (filepath_base path) n \<Longrightarrow> d1 (path_join (dir_of path) n) = None"
proof -
  obtain e1 d1 where s: "(case sr_entries r of None \<Rightarrow> (None, d)
      | Some ns \<Rightarrow> sweep (sr_stuck r) (dir_of path) (filepath_base path) ns d) = (e1, d1)" by fastforce
  have swept: "swept path d d1 p" for p
    using s sweep_removes unfolding swept_def by (fastforce split: option.splits)
  have same: "d1 path = d path" using swept [of path] stale_path_longer unfolding swept_def by metis
  consider "\<not> sr_lock_ok r" | "sr_lock_ok r" "e1 \<noteq> None \<or> sr_suffix r = None"
    | x where "sr_lock_ok r" "e1 = None" "sr_suffix r = Some x" by blast
  then show thesis
  proof cases
    case 1
    then show thesis using assms by (intro early) (auto simp: sops_encrypt_to_file_def swept_def)
  next
    case 2
    then have "e \<noteq> None" "d' = d1"
      using assms s by (auto simp: sops_encrypt_to_file_def split: option.splits)
    then show thesis using same swept by (intro early) auto
  next
    case 3
    then have "encrypt_tmp r path (sops_tmp path x) plain leaks d1 = (e, d')"
      using assms s by (simp add: sops_encrypt_to_file_def)
    moreover have "d1 (path_join (dir_of path) n) = None"
      if "sr_entries r = Some ns" "n \<in> set ns" "stale_name (filepath_base path) n" for ns n
      by (rule sweep_clears [OF _ that(2,3)]) (use s 3 that(1) in simp)
    ultimately show thesis using 3(3) same swept tmp by blast
  qed
qed

text \<open>C9. A secret is either encrypted at its path or nowhere.  Whatever fails, the tracked file changes
  only when the run succeeds, and then it carries the metadata of sops, none of the given secrets in
  clear, and the mode 0600.  Every other path keeps its file or was that of a stale temporary of this
  tracked file and is gone, with one exception: when a run fails and the removal of its own temporary fails too, that temporary stays, readable by
  the owner only.  After a success the temporary of the run is gone, and of the temporaries
  of earlier runs each one that the listing of the directory named; a listing that cannot be read
  names none.\<close>

theorem secret_only_encrypted:
  assumes "sops_encrypt_to_file r path plain leaks d = (e, d')"
  shows "(\<forall>p. p \<noteq> path \<longrightarrow> swept path d d' p \<or> e \<noteq> None \<and> \<not> sr_remove_ok r \<and>
        (\<exists>x f. sr_suffix r = Some x \<and> p = sops_tmp path x \<and> d' p = Some f \<and> f_mode f = owner_only))
    \<and> (e \<noteq> None \<longrightarrow> d' path = d path)
    \<and> (e = None \<longrightarrow> (\<exists>f. d' path = Some f \<and> f_mode f = owner_only \<and> verified leaks (f_content f))
        \<and> (\<exists>x. sr_suffix r = Some x \<and> d' (sops_tmp path x) = None)
        \<and> (\<forall>ns n. sr_entries r = Some ns \<and> n \<in> set ns \<and> stale_name (filepath_base path) n \<longrightarrow>
              d' (path_join (dir_of path) n) = None))"
  using assms
proof (cases rule: encrypt_run)
  case (tmp d1 x)
  show ?thesis
  proof (cases "e = None")
    case True
    then obtain f where f: "f_mode f = owner_only" "verified leaks (f_content f)" "d1 (sops_tmp path x) = None" "d' = d1(path \<mapsto> f)"
      using encrypt_tmp_cases(2) [OF tmp(2)] by blast
    have "swept path d d' p" if "p \<noteq> path" for p using tmp(4) [of p] that by (simp add: f(4) swept_def)
    then show ?thesis using True tmp(1,5) f stale_path_longer tmp_longer by auto
  next
    case False
    then have left: "left_over r (sops_tmp path x) d1 d'" using encrypt_tmp_cases(1) [OF tmp(2)] by blast
    have "swept path d d' p \<or> \<not> sr_remove_ok r \<and> p = sops_tmp path x \<and> (\<exists>f. d' p = Some f \<and> f_mode f = owner_only)" for p
      using left tmp(4) [of p] by (cases "p = sops_tmp path x") (auto simp: left_over_def swept_def)
    moreover have "d' path = d path" using left tmp(3) tmp_longer [of path x] by (auto simp: left_over_def)
    ultimately show ?thesis using False tmp(1) by blast
  qed
qed auto

text \<open>When the directory cannot be listed, the run succeeds beside the plaintext of an earlier one.\<close>

lemma unlisted_residue_stays:
  assumes "sops_encrypt_to_file r path plain leaks d = (None, d')" "sr_entries r = None" "sr_suffix r = Some x"
    and "p \<noteq> path" "p \<noteq> sops_tmp path x"
  shows "d' p = d p"
proof -
  have "encrypt_tmp r path (sops_tmp path x) plain leaks d = (None, d')"
    using assms(1-3) by (simp add: sops_encrypt_to_file_def split: if_splits)
  then show ?thesis using encrypt_tmp_cases(2) assms(4,5) by fastforce
qed

text \<open>A run over the residue of a crashed one.\<close>

definition demo_path :: string where
  "demo_path = ''/fleet/dns01.enc.yaml''"

definition demo_disk :: fs where
  "demo_disk = [''/fleet/dns01.enc.yaml.tmp-00.enc.yaml'' \<mapsto> \<lparr>f_content = ''key: s3cret'', f_mode = 384\<rparr>]"

definition demo_run :: sops_run where
  "demo_run = \<lparr>sr_lock_ok = True, sr_entries = Some [''README'', ''dns01.enc.yaml.tmp-00.enc.yaml''], sr_stuck = [],
     sr_suffix = Some ''a1'', sr_create_ok = True, sr_written = None, sr_close_ok = True,
     sr_sops = (\<lambda>_. (True, ''key: ENC[x] sops: mac'')), sr_read_ok = True, sr_rename_ok = True, sr_remove_ok = True\<rparr>"

theorem secret_only_encrypted_witness:
  "\<exists>d' f. sops_encrypt_to_file demo_run demo_path ''key: s3cret'' [''s3cret''] demo_disk = (None, d')
    \<and> d' demo_path = Some f \<and> verified [''s3cret''] (f_content f)
    \<and> d' ''/fleet/dns01.enc.yaml.tmp-00.enc.yaml'' = None"
proof -
  have "fst (sops_encrypt_to_file demo_run demo_path ''key: s3cret'' [''s3cret''] demo_disk) = None" by code_simp
  then obtain d' where run: "sops_encrypt_to_file demo_run demo_path ''key: s3cret'' [''s3cret''] demo_disk = (None, d')"
    by (cases "sops_encrypt_to_file demo_run demo_path ''key: s3cret'' [''s3cret''] demo_disk") simp
  have stale: "stale_name (filepath_base demo_path) ''dns01.enc.yaml.tmp-00.enc.yaml''"
    "path_join (dir_of demo_path) ''dns01.enc.yaml.tmp-00.enc.yaml'' = ''/fleet/dns01.enc.yaml.tmp-00.enc.yaml''"
    "sr_entries demo_run = Some [''README'', ''dns01.enc.yaml.tmp-00.enc.yaml'']"
    by code_simp+
  note ok = secret_only_encrypted [OF run, THEN conjunct2, THEN conjunct2, rule_format, OF refl]
  have "d' (path_join (dir_of demo_path) ''dns01.enc.yaml.tmp-00.enc.yaml'') = None"
    using ok [THEN conjunct2, THEN conjunct2] stale by force
  then show ?thesis using ok [THEN conjunct1] run stale(2) by metis
qed

end
