(* ===== verification/Tls_Writers.thy ===== *)
theory Tls_Writers
  imports Env_File Platform_Patch Sops_File Base64
begin

text \<open>
  The two TLS modes that an installation writes into the fleet: an operator's wildcard certificate
  (\<open>clusterinit/wildcardtls.go\<close>) and the Route53 solver (\<open>clusterinit/dns01.go\<close>).  Both
  stage every plain file in memory, encrypt the secret, and then write each staged file only if it still
  holds what was staged from it; last they record the mode in the cluster's environment.  Other writers
  may change any file while the secret is encrypted, before a staged file is read again, between this
  reading and the write, and before the environment is written.
\<close>

section \<open>Staging and committing\<close>

datatype tls_error =
    Secret_Irregular | Stage_Read string | Absent string | Stage_Patch string patch_error
  | Env_Read env_error | Sops sops_error | Re_Read string | Changed string
  | Write_Failed string | Env_Write env_error

text \<open>The plain files of a job: one that must be readable, one whose absence is reported as such, and
  one that a smaller installation does not have.\<close>

datatype presence = Must_Read | Must_Exist | May_Skip

record tls_job =
  tj_secret :: string
  tj_plain :: string
  tj_leaks :: "string list"
  tj_targets :: "(string \<times> presence \<times> patcher) list"
  tj_env :: string
  tj_values :: "(string \<times> string) list"

text \<open>What the system and other writers do in one run: paths that cannot be read, whether the secret's
  path is no regular file, the encryption, the changes of other writers while \<open>sops\<close> runs, before
  the file of a path is read again, between this and its write, and before the environment is written, and the
  writes that fail with the part they leave.\<close>

record tls_run =
  tr_unreadable :: "string list"
  tr_irregular :: bool
  tr_sops :: sops_run
  tr_decrypt :: "string \<Rightarrow> string option"
  tr_meanwhile :: "fs \<Rightarrow> fs"
  tr_before :: "string \<Rightarrow> fs \<Rightarrow> fs"
  tr_between :: "string \<Rightarrow> fs \<Rightarrow> fs"
  tr_last :: "fs \<Rightarrow> fs"
  tr_failing :: "string \<Rightarrow> string option"
  tr_env :: io_plan

record staged =
  sg_path :: string
  sg_original :: string
  sg_content :: string

definition read_file :: "tls_run \<Rightarrow> string \<Rightarrow> fs \<Rightarrow> string option" where
  "read_file r p d = (if p \<in> set (tr_unreadable r) then None else map_option f_content (d p))"

text \<open>The lines of a text, patched: \<open>None\<close> when nothing changes.\<close>

definition patch_text :: "patcher \<Rightarrow> string \<Rightarrow> patch_error + string option" where
  "patch_text p s = (case p (split_on NL s) of
     Inl e \<Rightarrow> Inl e | Inr (ls, b) \<Rightarrow> Inr (if b then Some (join [NL] ls) else None))"

definition stage :: "tls_run \<Rightarrow> string \<times> presence \<times> patcher \<Rightarrow> fs \<Rightarrow> tls_error + staged list" where
  "stage r t d = (case t of (p, pr, patch) \<Rightarrow>
     (if pr = Must_Exist \<and> d p = None then Inl (Absent p)
      else if pr = May_Skip \<and> d p = None then Inr []
      else case read_file r p d of
          None \<Rightarrow> Inl (Stage_Read p)
        | Some s \<Rightarrow> (case patch_text patch s of
            Inl e \<Rightarrow> Inl (Stage_Patch p e)
          | Inr None \<Rightarrow> Inr []
          | Inr (Some s') \<Rightarrow> Inr [\<lparr>sg_path = p, sg_original = s, sg_content = s'\<rparr>])))"

fun stage_all :: "tls_run \<Rightarrow> (string \<times> presence \<times> patcher) list \<Rightarrow> fs \<Rightarrow> tls_error + staged list" where
  "stage_all r [] d = Inr []"
| "stage_all r (t # ts) d = (case stage r t d of
     Inl e \<Rightarrow> Inl e | Inr ws \<Rightarrow> map_sum id ((@) ws) (stage_all r ts d))"

definition put_content :: "string \<Rightarrow> string \<Rightarrow> fs \<Rightarrow> fs" where
  "put_content p s d = d(p \<mapsto> \<lparr>f_content = s, f_mode = (case d p of None \<Rightarrow> 420 | Some f \<Rightarrow> f_mode f)\<rparr>)"

text \<open>One write of the commit: its path, the files when the path was read again, the files when it was
  written, and the text that was written.  The commit reports the writes it has made.\<close>

record commit_write =
  cw_path :: string
  cw_read :: fs
  cw_found :: fs
  cw_put :: string

fun commit :: "tls_run \<Rightarrow> staged list \<Rightarrow> fs \<Rightarrow> tls_error option \<times> commit_write list \<times> fs" where
  "commit r [] d = (None, [], d)"
| "commit r (w # ws) d = (let d1 = tr_before r (sg_path w) d in
     case read_file r (sg_path w) d1 of
       None \<Rightarrow> (Some (Re_Read (sg_path w)), [], d1)
     | Some s \<Rightarrow>
         if s \<noteq> sg_original w then (Some (Changed (sg_path w)), [], d1)
         else let d2 = tr_between r (sg_path w) d1;
                  put = \<lambda>text. \<lparr>cw_path = sg_path w, cw_read = d1, cw_found = d2, cw_put = text\<rparr> in
           (case tr_failing r (sg_path w) of
             Some part \<Rightarrow> (Some (Write_Failed (sg_path w)), [put part], put_content (sg_path w) part d2)
           | None \<Rightarrow> (case commit r ws (put_content (sg_path w) (sg_content w) d2) of
               (e, tr, d3) \<Rightarrow> (e, put (sg_content w) # tr, d3))))"

text \<open>Phase 1 reads, phase 2 encrypts unless the file at hand is right, phase 3 writes.\<close>

definition tls_stage :: "tls_run \<Rightarrow> tls_job \<Rightarrow> fs \<Rightarrow> tls_error + staged list \<times> env" where
  "tls_stage r j d =
     (if tr_irregular r then Inl Secret_Irregular
      else case stage_all r (tj_targets j) d of
        Inl e \<Rightarrow> Inl e
      | Inr ws \<Rightarrow> (case load_env (tj_env j) d of Inl e \<Rightarrow> Inl (Env_Read e) | Inr env \<Rightarrow> Inr (ws, env)))"

definition tls_encrypt :: "tls_run \<Rightarrow> tls_job \<Rightarrow> fs \<Rightarrow> sops_error option \<times> fs" where
  "tls_encrypt r j d =
     (let (e, d1) = (if sops_file_decrypts_to (tr_decrypt r) (tj_secret j) (tj_plain j) (tj_leaks j) d then (None, d)
        else sops_encrypt_to_file (tr_sops r) (tj_secret j) (tj_plain j) (tj_leaks j) d) in
      (e, tr_meanwhile r d1))"

definition write_tls :: "tls_run \<Rightarrow> tls_job \<Rightarrow> fs \<Rightarrow> tls_error option \<times> commit_write list \<times> fs" where
  "write_tls r j d = (case tls_stage r j d of
     Inl e \<Rightarrow> (Some e, [], d)
   | Inr (ws, env) \<Rightarrow> (case tls_encrypt r j d of
       (Some e, d1) \<Rightarrow> (Some (Sops e), [], d1)
     | (None, d1) \<Rightarrow> (case commit r ws d1 of
         (Some e, tr, d2) \<Rightarrow> (Some e, tr, d2)
       | (None, tr, d2) \<Rightarrow> (case env_write (tr_env r) (foldl (\<lambda>e (k, v). env_set e k v) env (tj_values j)) [] (tr_last r d2) of
           (e, _, d3) \<Rightarrow> (map_option Env_Write e, tr, d3)))))"


section \<open>The Route53 mode\<close>

text \<open>\<open>LoadDNS01Route53\<close>: the three regular expressions and the checks on the secret; the texts
  of the secret's file and of its variable of the environment are inputs.\<close>

definition upper_or_digit :: "char \<Rightarrow> bool" where
  "upper_or_digit c \<longleftrightarrow> (let n = of_char c :: nat in 65 \<le> n \<and> n \<le> 90 \<or> 48 \<le> n \<and> n \<le> 57)"

definition lower_or_digit :: "char \<Rightarrow> bool" where
  "lower_or_digit c \<longleftrightarrow> (let n = of_char c :: nat in 97 \<le> n \<and> n \<le> 122 \<or> 48 \<le> n \<and> n \<le> 57)"

definition zone_id_regex :: "string \<Rightarrow> bool" where
  "zone_id_regex s \<longleftrightarrow> s \<noteq> [] \<and> hd s = CHR ''Z'' \<and> list_all upper_or_digit (tl s)
     \<and> 4 \<le> length (tl s) \<and> length (tl s) \<le> 31"

definition region_regex :: "string \<Rightarrow> bool" where
  "region_regex s \<longleftrightarrow> (let ps = split_on (CHR ''-'') s in
     3 \<le> length ps \<and> length (hd ps) = 2 \<and> list_all (\<lambda>c. lower_or_digit c \<and> \<not> re_digit c) (hd ps)
     \<and> list_all (\<lambda>p. p \<noteq> [] \<and> list_all lower_or_digit p) (butlast (tl ps))
     \<and> length (last ps) = 1 \<and> list_all re_digit (last ps))"

definition access_key_regex :: "string \<Rightarrow> bool" where
  "access_key_regex s \<longleftrightarrow> list_all upper_or_digit s \<and> 16 \<le> length s \<and> length s \<le> 32"

datatype dns01_error =
    Zone_And_Key_Required | Bad_Zone | Bad_Region | Temporary_Key | Bad_Access_Key
  | Secret_Unreadable | Secret_Missing | Secret_Short | Secret_Swapped

text \<open>\<open>file\<close> is \<open>None\<close> when no file is named, and \<open>Some None\<close> when it cannot be read.\<close>

definition dns01_secret :: "string option option \<Rightarrow> string \<Rightarrow> dns01_error + string" where
  "dns01_secret file secret_env = (case file of
     Some None \<Rightarrow> Inl Secret_Unreadable
   | Some (Some s) \<Rightarrow> Inr s
   | None \<Rightarrow> if secret_env \<noteq> [] then Inr secret_env else Inl Secret_Missing)"

definition load_dns01_route53 ::
    "string \<Rightarrow> string \<Rightarrow> string \<Rightarrow> string option option \<Rightarrow> string \<Rightarrow> dns01_error + dns01_material" where
  "load_dns01_route53 zone0 region0 key0 file secret_env =
     (let zone = trim_space zone0; key = trim_space key0;
          region = (if trim_space region0 = [] then ''us-east-1'' else trim_space region0) in
      if zone = [] \<or> key = [] then Inl Zone_And_Key_Required
      else if \<not> zone_id_regex zone then Inl Bad_Zone
      else if \<not> region_regex region then Inl Bad_Region
      else if has_prefix key ''ASIA'' then Inl Temporary_Key
      else if \<not> access_key_regex key then Inl Bad_Access_Key
      else case dns01_secret file secret_env of
          Inl e \<Rightarrow> Inl e
        | Inr raw \<Rightarrow> (let secret = trim_space raw in
            if length secret < 30 then Inl Secret_Short
            else if has_prefix secret ''AKIA'' then Inl Secret_Swapped
            else Inr \<lparr>dm_zone = zone, dm_region = region, dm_access_key = key, dm_secret_key = secret\<rparr>))"

definition render_dns01_secret :: "dns01_material \<Rightarrow> string" where
  "render_dns01_secret m = unlines
     [''# AWS secret access key for the Route53 DNS-01 solver.'',
      ''# TLS_MODE=acme-dns01-route53. Generated by `kube-dc bootstrap init`.'',
      ''#'',
      ''# Consumed by cert-manager via the letsencrypt-prod-http'',
      ''# ClusterIssuer'' @ [SQ] @ ''s secretAccessKeySecretRef. Scope the IAM user to the one'',
      ''# zone: route53:ChangeResourceRecordSets + ListResourceRecordSets on it,'',
      ''# route53:GetChange on *. Rotation: replace the key in AWS, re-run init'',
      ''# with the new material (or `sops edit` this file), commit.'',
      ''# Access key ID (identifies the credential): '' @ dm_access_key m,
      ''---'',
      ''apiVersion: v1'',
      ''kind: Secret'',
      ''metadata:'',
      ''    name: route53-dns01-credentials'',
      ''    namespace: cert-manager'',
      ''    labels:'',
      ''        kube-dc.com/acme-dns01: '' @ [DQ] @ ''route53'' @ [DQ],
      ''type: Opaque'',
      ''data:'',
      ''    secret-access-key: '' @ encode std_digits True (dm_secret_key m)]"

definition dns01_job :: "string \<Rightarrow> dns01_material \<Rightarrow> tls_job" where
  "dns01_job dir m =
     \<lparr>tj_secret = dir @ ''/dns01-route53-credentials.enc.yaml'',
      tj_plain = render_dns01_secret m,
      tj_leaks = [dm_secret_key m, encode std_digits True (dm_secret_key m)],
      tj_targets =
        [(dir @ ''/kustomization.yaml'', Must_Read, patch_kustomization_resource ''dns01-route53-credentials.enc.yaml''),
         (dir @ ''/platform.yaml'', Must_Exist, patch_dns01 (render_dns01_issuer_patch m))],
      tj_env = dir @ ''/cluster-config.env'',
      tj_values = [(''TLS_MODE'', ''acme-dns01-route53''), (''DNS01_ROUTE53_ZONE_ID'', dm_zone m),
        (''DNS01_ROUTE53_REGION'', dm_region m), (''DNS01_ROUTE53_ACCESS_KEY_ID'', dm_access_key m)]\<rparr>"

definition write_dns01_route53 :: "tls_run \<Rightarrow> string \<Rightarrow> dns01_material option \<Rightarrow> fs \<Rightarrow> tls_error option \<times> commit_write list \<times> fs" where
  "write_dns01_route53 r dir m d = (case m of None \<Rightarrow> (None, [], d) | Some m \<Rightarrow> write_tls r (dns01_job dir m) d)"

section \<open>The wildcard mode\<close>

text \<open>The secrets that the listeners refer to, a name with the domain in it as its two parts; and the
  certificates that must not be issued, with the file that declares each.\<close>

definition wildcard_secret_targets :: "(string \<times> string option \<times> string) list" where
  "wildcard_secret_targets =
     [(''wildcard-tls'', None, ''envoy-gateway-system''),
      (''login.'', Some ''-tls'', ''keycloak''),
      (''kube-dc-frontend-tls'', None, ''kube-dc''),
      (''kube-dc-backend-tls'', None, ''kube-dc''),
      (''kube-dc-admin-frontend-tls'', None, ''kube-dc''),
      (''tls-grafana'', None, ''monitoring''),
      (''tls-mimir-query'', None, ''monitoring''),
      (''tls-loki-query'', None, ''monitoring''),
      (''tls-mimir-ruler'', None, ''monitoring''),
      (''tls-mimir-alertmanager'', None, ''monitoring''),
      (''tls-flux'', None, ''flux-system''),
      (''tls-openbao'', None, ''openbao''),
      (''registry-server-tls'', None, ''kube-dc''),
      (''s3-server-tls'', None, ''rook-ceph'')]"

definition suppressed_certificates :: "(string \<times> string \<times> string) list" where
  "suppressed_certificates =
     [(''wildcard-tls'', ''envoy-gateway-system'', ''platform''),
      (''login-tls'', ''keycloak'', ''platform''),
      (''kube-dc-frontend-tls'', ''kube-dc'', ''platform''),
      (''kube-dc-backend-tls'', ''kube-dc'', ''platform''),
      (''kube-dc-admin-frontend-tls'', ''kube-dc'', ''platform''),
      (''tls-grafana'', ''monitoring'', ''platform''),
      (''tls-mimir-query'', ''monitoring'', ''platform''),
      (''tls-loki-query'', ''monitoring'', ''platform''),
      (''tls-mimir-ruler'', ''monitoring'', ''platform''),
      (''tls-mimir-alertmanager'', ''monitoring'', ''platform''),
      (''tls-flux'', ''flux-system'', ''platform''),
      (''tls-openbao'', ''openbao'', ''platform''),
      (''registry-tls'', ''kube-dc'', ''registry-depot''),
      (''s3-tls'', ''rook-ceph'', ''infra-object-storage'')]"

text \<open>\<open>WildcardTLSMaterial\<close>; the expiry is the formatted time.\<close>

record wildcard_material =
  wm_cert :: string
  wm_key :: string
  wm_not_after :: string

definition wildcard_document :: "string \<Rightarrow> string \<Rightarrow> string \<Rightarrow> string \<times> string option \<times> string \<Rightarrow> line_list" where
  "wildcard_document crt key domain t = (case t of (name, tail, ns) \<Rightarrow>
     [''---'',
      ''apiVersion: v1'',
      ''kind: Secret'',
      ''metadata:'',
      ''    name: '' @ (case tail of None \<Rightarrow> name | Some s \<Rightarrow> name @ domain @ s),
      ''    namespace: '' @ ns,
      ''    labels:'',
      ''        kube-dc.com/byo-wildcard-tls: '' @ [DQ] @ ''true'' @ [DQ],
      ''type: kubernetes.io/tls'',
      ''data:'',
      ''    tls.crt: '' @ crt,
      ''    tls.key: '' @ key])"

definition render_wildcard_secrets :: "wildcard_material \<Rightarrow> string \<Rightarrow> string" where
  "render_wildcard_secrets m domain = unlines
     ([''# Operator-supplied wildcard certificate for *.'' @ domain @ ''.'',
       ''# TLS_MODE=byo-wildcard. Generated by `kube-dc bootstrap init`.'',
       ''#'',
       ''# One certificate, replicated under every platform secret name a Gateway'',
       ''# listener references. The matching ACME Certificates are suppressed in the'',
       ''# cluster'' @ [SQ] @ ''s Flux Kustomizations so cert-manager cannot overwrite this'',
       ''# material. Both halves live in Git, so this survives a reinstall.'',
       ''#'',
       ''# Rotation: docs/platform/certificates.md '' @ em_dash @ '' nothing renews this for you.'',
       ''# notAfter: '' @ wm_not_after m]
      @ concat (map (wildcard_document (encode std_digits True (wm_cert m)) (encode std_digits True (wm_key m)) domain)
          wildcard_secret_targets))"

definition suppression_entry :: "string \<Rightarrow> string \<Rightarrow> line_list" where
  "suppression_entry name ns =
     [''    - target:'',
      ''        group: cert-manager.io'',
      ''        version: v1'',
      ''        kind: Certificate'',
      ''        name: '' @ name,
      ''        namespace: '' @ ns,
      ''      patch: |'',
      ''        apiVersion: cert-manager.io/v1'',
      ''        kind: Certificate'',
      ''        metadata:'',
      ''          name: '' @ name,
      ''          namespace: '' @ ns,
      ''        $patch: delete'']"

definition suppression_patches :: "string \<Rightarrow> string" where
  "suppression_patches stem = unlines (concat (map (\<lambda>(n, ns, _). suppression_entry n ns)
     (filter (\<lambda>(_, _, st). st = stem) suppressed_certificates)))"

definition wildcard_job :: "string \<Rightarrow> string \<Rightarrow> wildcard_material \<Rightarrow> tls_job" where
  "wildcard_job dir domain m =
     \<lparr>tj_secret = dir @ ''/wildcard-tls-secrets.enc.yaml'',
      tj_plain = render_wildcard_secrets m domain,
      tj_leaks = [encode std_digits True (wm_key m)],
      tj_targets =
        [(dir @ ''/kustomization.yaml'', Must_Read, patch_kustomization_resource ''wildcard-tls-secrets.enc.yaml''),
         (dir @ ''/platform.yaml'', Must_Exist, patch_suppression ''platform'' (suppression_patches ''platform'')),
         (dir @ ''/registry-depot.yaml'', May_Skip,
           patch_suppression ''registry-depot'' (suppression_patches ''registry-depot'')),
         (dir @ ''/infra-object-storage.yaml'', May_Skip,
           patch_suppression ''infra-object-storage'' (suppression_patches ''infra-object-storage''))],
      tj_env = dir @ ''/cluster-config.env'',
      tj_values = [(''TLS_MODE'', ''byo-wildcard'')]\<rparr>"

definition write_wildcard_tls ::
    "tls_run \<Rightarrow> string \<Rightarrow> string \<Rightarrow> wildcard_material option \<Rightarrow> fs \<Rightarrow> tls_error option \<times> commit_write list \<times> fs" where
  "write_wildcard_tls r dir domain m d =
     (case m of None \<Rightarrow> (None, [], d) | Some m \<Rightarrow> write_tls r (wildcard_job dir domain m) d)"

section \<open>What a run may change\<close>

lemma stage_Inr:
  assumes "stage r (p, pr, patch) d = Inr ws"
  shows "ws = [] \<or> (\<exists>s s'. ws = [\<lparr>sg_path = p, sg_original = s, sg_content = s'\<rparr>]
    \<and> patch_text patch s = Inr (Some s'))"
  using assms by (auto simp: stage_def split: if_splits option.splits sum.splits)

lemma stage_all_Inr:
  "stage_all r (t # ts) d = Inr ws \<longleftrightarrow> (\<exists>us vs. stage r t d = Inr us \<and> stage_all r ts d = Inr vs \<and> ws = us @ vs)"
  by (cases "stage r t d"; cases "stage_all r ts d") auto

lemma staged_from_target:
  "stage_all r ts d = Inr ws \<Longrightarrow> w \<in> set ws \<Longrightarrow>
    \<exists>pr patch. (sg_path w, pr, patch) \<in> set ts \<and> patch_text patch (sg_original w) = Inr (Some (sg_content w))"
proof (induction ts arbitrary: ws)
  case (Cons t ts)
  obtain p pr patch where t: "t = (p, pr, patch)" by (cases t)
  obtain us vs where "stage r (p, pr, patch) d = Inr us" "stage_all r ts d = Inr vs" "ws = us @ vs"
    using Cons.prems(1) unfolding stage_all_Inr t by blast
  with Cons.IH [of vs] Cons.prems(2) stage_Inr [of r p pr patch d us] show ?case by (auto simp: t) blast+
qed simp

lemma staged_paths:
  "stage_all r ts d = Inr ws \<Longrightarrow> distinct (map fst ts) \<Longrightarrow> distinct (map sg_path ws) \<and> sg_path ` set ws \<subseteq> fst ` set ts"
proof (induction ts arbitrary: ws)
  case (Cons t ts)
  obtain p pr patch where t: "t = (p, pr, patch)" by (cases t)
  obtain us vs where s: "stage r (p, pr, patch) d = Inr us" "stage_all r ts d = Inr vs" "ws = us @ vs"
    using Cons.prems(1) unfolding stage_all_Inr t by blast
  have "us = [] \<or> sg_path ` set us = {p} \<and> length us = 1" using stage_Inr [OF s(1)] by auto
  then show ?case
    using Cons.IH [OF s(2)] Cons.prems(2) s(3) by (cases us) (auto simp: t)
qed simp

lemma put_content_at [simp]: "put_content p s d q = (if q = p then Some \<lparr>f_content = s, f_mode =
    (case d p of None \<Rightarrow> 420 | Some f \<Rightarrow> f_mode f)\<rparr> else d q)"
  by (simp add: put_content_def)

lemma read_file_content: "read_file r p d = Some s \<Longrightarrow> map_option f_content (d p) = Some s"
  by (auto simp: read_file_def split: if_splits)

text \<open>One step of the commit.\<close>

lemma commit_step:
  assumes "commit r (w # ws) d = (e, tr, d')"
  obtains (stopped) "tr = []" "e \<noteq> None" "d' = tr_before r (sg_path w) d"
  | (failed) d1 d2 part where "d1 = tr_before r (sg_path w) d" "d2 = tr_between r (sg_path w) d1"
      "map_option f_content (d1 (sg_path w)) = Some (sg_original w)" "tr_failing r (sg_path w) = Some part"
      "e = Some (Write_Failed (sg_path w))" "d' = put_content (sg_path w) part d2"
      "tr = [\<lparr>cw_path = sg_path w, cw_read = d1, cw_found = d2, cw_put = part\<rparr>]"
  | (written) d1 d2 tr' where "d1 = tr_before r (sg_path w) d" "d2 = tr_between r (sg_path w) d1"
      "map_option f_content (d1 (sg_path w)) = Some (sg_original w)"
      "commit r ws (put_content (sg_path w) (sg_content w) d2) = (e, tr', d')"
      "tr = \<lparr>cw_path = sg_path w, cw_read = d1, cw_found = d2, cw_put = sg_content w\<rparr> # tr'"
proof (cases "read_file r (sg_path w) (tr_before r (sg_path w) d) = Some (sg_original w)")
  case False
  then show thesis using assms stopped by (auto simp: Let_def split: option.splits if_splits)
next
  case True
  note content = read_file_content [OF True]
  show thesis
  proof (cases "tr_failing r (sg_path w)")
    case None
    let ?d2 = "tr_between r (sg_path w) (tr_before r (sg_path w) d)"
    obtain e3 tr3 d3 where c: "commit r ws (put_content (sg_path w) (sg_content w) ?d2) = (e3, tr3, d3)"
      by (cases "commit r ws (put_content (sg_path w) (sg_content w) ?d2)")
    then show thesis using assms None True content written [OF refl refl] by (simp add: Let_def)
  next
    case (Some part)
    then show thesis using assms True content failed [OF refl refl] by (simp add: Let_def)
  qed
qed

text \<open>Every write puts what was staged from the text that was read again, or the part of a failed write.\<close>

lemma commit_writes:
  "commit r ws d = (e, tr, d') \<Longrightarrow> c \<in> set tr \<Longrightarrow> \<exists>w\<in>set ws. cw_path c = sg_path w
    \<and> map_option f_content (cw_read c (sg_path w)) = Some (sg_original w) \<and> cw_found c = tr_between r (sg_path w) (cw_read c)
    \<and> (cw_put c = sg_content w \<or> e = Some (Write_Failed (sg_path w)) \<and> tr_failing r (sg_path w) = Some (cw_put c))"
proof (induction ws arbitrary: d tr)
  case (Cons v ws)
  from Cons.prems(1) show ?case
  proof (cases rule: commit_step)
    case (written d1 d2 tr')
    with Cons.prems(2) consider "c = \<lparr>cw_path = sg_path v, cw_read = d1, cw_found = d2, cw_put = sg_content v\<rparr>" | "c \<in> set tr'"
      by auto
    then show ?thesis
    proof cases
      case 1
      then show ?thesis using written(2,3) by (intro bexI [of _ v]) simp_all
    qed (use Cons.IH [OF written(4)] in auto)
  qed (use Cons.prems(2) in auto)
qed simp

lemma commit_all_written: "commit r ws d = (None, tr, d') \<Longrightarrow> map cw_path tr = map sg_path ws"
proof (induction ws arbitrary: d tr)
  case (Cons w ws)
  from Cons.prems show ?case by (cases rule: commit_step) (use Cons.IH in auto)
qed simp

lemma commit_paths: "commit r ws d = (e, tr, d') \<Longrightarrow> set (map cw_path tr) \<subseteq> sg_path ` set ws"
  using commit_writes by fastforce

text \<open>Other writers leave the file of a path alone, or change it only before it is read again.\<close>

definition others_spare :: "tls_run \<Rightarrow> string \<Rightarrow> bool" where
  "others_spare r p \<longleftrightarrow> (\<forall>q d. tr_before r q d p = d p) \<and> (\<forall>q d. tr_between r q d p = d p) \<and> (\<forall>d. tr_last r d p = d p)"

definition others_early :: "tls_run \<Rightarrow> string \<Rightarrow> bool" where
  "others_early r p \<longleftrightarrow> (\<forall>q d. q \<noteq> p \<longrightarrow> tr_before r q d p = d p) \<and> (\<forall>q d. tr_between r q d p = d p) \<and> (\<forall>d. tr_last r d p = d p)"

lemma commit_spared:
  "commit r ws d = (e, tr, d') \<Longrightarrow> others_spare r p \<or> others_early r p \<and> p \<notin> sg_path ` set ws \<Longrightarrow> p \<notin> cw_path ` set tr \<Longrightarrow> d' p = d p"
proof (induction ws arbitrary: d tr)
  case (Cons w ws)
  from Cons.prems(1) show ?case
  proof (cases rule: commit_step)
    case stopped
    then show ?thesis using Cons.prems(2) by (auto simp: others_spare_def others_early_def)
  next
    case (failed d1 d2 part)
    then show ?thesis using Cons.prems(2,3) by (auto simp: others_spare_def others_early_def)
  next
    case (written d1 d2 tr')
    have "d' p = put_content (sg_path w) (sg_content w) d2 p"
      by (rule Cons.IH [OF written(4)]) (use Cons.prems(2,3) written(5) in auto)
    also have "\<dots> = d p" using Cons.prems(2,3) written by (auto simp: others_spare_def others_early_def)
    finally show ?thesis .
  qed
qed simp

text \<open>A file that is written holds what was put there, unless others change it afterwards.\<close>

lemma commit_holds:
  "commit r ws d = (e, tr, d') \<Longrightarrow> distinct (map sg_path ws) \<Longrightarrow> c \<in> set tr \<Longrightarrow> others_early r (cw_path c) \<Longrightarrow>
   map_option f_content (d' (cw_path c)) = Some (cw_put c)"
proof (induction ws arbitrary: d tr)
  case (Cons w ws)
  from Cons.prems(1) show ?case
  proof (cases rule: commit_step)
    case (written d1 d2 tr')
    have new: "sg_path w \<notin> sg_path ` set ws" using Cons.prems(2) by simp
    from Cons.prems(3) written(5) consider "c \<in> set tr'"
      | "c = \<lparr>cw_path = sg_path w, cw_read = d1, cw_found = d2, cw_put = sg_content w\<rparr>" by auto
    then show ?thesis
    proof cases
      case 1
      then show ?thesis using Cons.IH [OF written(4)] Cons.prems(2,4) by simp
    next
      case 2
      have "d' (sg_path w) = put_content (sg_path w) (sg_content w) d2 (sg_path w)"
        using commit_paths [OF written(4)] new Cons.prems(4) 2
        by (intro commit_spared [OF written(4)]) auto
      then show ?thesis using 2 by simp
    qed
  qed (use Cons.prems(3) in auto)
qed simp

lemma env_path_kept [simp]: "env_path (env_set e k v) = env_path e"
  "env_path (append_line e l) = env_path e" "env_path (load_line e s) = env_path e"
  by (auto simp: env_set_def append_line_def load_line_def Let_def split: option.splits prod.splits)

lemma env_path_load_lines [simp]: "env_path (load_lines e ls) = env_path e"
  by (induction e ls rule: load_lines.induct) simp_all

lemma env_path_load: "load_env p d = Inr e \<Longrightarrow> env_path e = p"
  by (auto simp: load_env_def and_then_def split: option.splits sum.splits)

definition set_values :: "tls_job \<Rightarrow> env \<Rightarrow> env" where
  "set_values j e = foldl (\<lambda>e (k, v). env_set e k v) e (tj_values j)"

lemma env_path_values: "env_path (set_values j e) = env_path e"
proof -
  have "env_path (foldl (\<lambda>e (k, v). env_set e k v) e kvs) = env_path e" for kvs
    by (induction kvs arbitrary: e) auto
  then show ?thesis by (simp add: set_values_def)
qed

lemma tls_stage_Inr: "tls_stage r j d = Inr (ws, env) \<longleftrightarrow>
    \<not> tr_irregular r \<and> stage_all r (tj_targets j) d = Inr ws \<and> load_env (tj_env j) d = Inr env"
  by (auto simp: tls_stage_def split: sum.splits)

text \<open>The write of the environment changes no other file.\<close>

lemma env_write_at:
  assumes "env_write plan e [] d = (r, e1, d1)"
  shows "p \<noteq> env_path e \<Longrightarrow> p \<noteq> env_tmp plan (env_path e) \<Longrightarrow> d1 p = d p"
    and "r = None \<Longrightarrow> d1 (env_path e) = Some \<lparr>f_content = render_env e, f_mode = 420\<rparr>"
  using assms
  by (auto simp: env_write_def write_content_def Let_def remove_tmp_def rename_file_def split: if_splits io_fault.splits prod.splits option.splits)

text \<open>A run that got past the encryption, in its last two steps.\<close>

lemma write_tls_steps:
  assumes "tls_stage r j d = Inr (ws, env)" "tls_encrypt r j d = (None, d1)" "write_tls r j d = (e, tr, d')"
  obtains e2 d2 where "commit r ws d1 = (e2, tr, d2)" "e2 \<noteq> None \<Longrightarrow> e = e2 \<and> d' = d2"
    "\<And>p. p \<noteq> tj_env j \<Longrightarrow> p \<noteq> env_tmp (tr_env r) (tj_env j) \<Longrightarrow> tr_last r d2 p = d2 p \<Longrightarrow> d' p = d2 p"
    "e = None \<Longrightarrow> d' (tj_env j) = Some \<lparr>f_content = render_env (set_values j env), f_mode = 420\<rparr>"
    "e2 = None \<Longrightarrow> e = None \<or> (\<exists>x. e = Some (Env_Write x))"
proof -
  obtain e2 tr2 d2 where c: "commit r ws d1 = (e2, tr2, d2)" by (cases "commit r ws d1")
  define ev where "ev = set_values j env"
  have path: "env_path ev = tj_env j"
    using assms(1) env_path_load unfolding tls_stage_Inr by (auto simp: ev_def env_path_values)
  obtain ew en d3 where w: "env_write (tr_env r) ev [] (tr_last r d2) = (ew, en, d3)" by (cases "env_write (tr_env r) ev [] (tr_last r d2)")
  note env = env_write_at [OF w, unfolded path]
  show thesis
  proof (cases e2)
    case None
    with assms c w have "e = map_option Env_Write ew" "tr = tr2" "d' = d3"
      by (auto simp: write_tls_def ev_def set_values_def)
    then show thesis using c env None by (intro that [of None d2]) (auto simp: ev_def)
  next
    case (Some x)
    with assms c have "e = e2" "tr = tr2" "d' = d2" by (auto simp: write_tls_def)
    then show thesis using c Some by (intro that [of "Some x" d2]) auto
  qed
qed

text \<open>C10. A change that another writer has made before a staged file is read again is not lost, whatever
  other writers do and whenever they do it.  Once everything is staged and the secret is encrypted, each
  write of the commit goes to a file of the job and puts there the patch of exactly the text that was read
  again just before, or the part of a write that failed, which the run reports; the text it replaces is the
  one that was read again, or what others made of it in between.  A file that others leave alone from then
  on ends with what was written, a file that is not written and that others leave alone stays as it was after
  the encryption, and a run that succeeds has written every file it staged.  A change that falls between
  the reading and the write is lost.\<close>

theorem staged_update_not_lost:
  assumes "tls_stage r j d = Inr (ws, env)" "tls_encrypt r j d = (None, d1)" "write_tls r j d = (e, tr, d')"
    and "distinct (map fst (tj_targets j))"
  shows "(\<forall>c\<in>set tr. \<exists>pr patch s. (cw_path c, pr, patch) \<in> set (tj_targets j)
        \<and> map_option f_content (cw_read c (cw_path c)) = Some s
        \<and> (patch_text patch s = Inr (Some (cw_put c))
          \<or> e = Some (Write_Failed (cw_path c)) \<and> tr_failing r (cw_path c) = Some (cw_put c))
        \<and> cw_found c = tr_between r (cw_path c) (cw_read c))
    \<and> (\<forall>p. p \<noteq> tj_env j \<and> p \<noteq> env_tmp (tr_env r) (tj_env j) \<longrightarrow>
        (\<forall>c\<in>set tr. cw_path c = p \<and> others_early r p \<longrightarrow> map_option f_content (d' p) = Some (cw_put c))
        \<and> (others_spare r p \<and> p \<notin> cw_path ` set tr \<longrightarrow> d' p = d1 p))
    \<and> (e = None \<longrightarrow> map cw_path tr = map sg_path ws)"
proof -
  obtain e2 d2 where c: "commit r ws d1 = (e2, tr, d2)" and err: "e2 \<noteq> None \<Longrightarrow> e = e2 \<and> d' = d2"
    and other: "\<And>p. p \<noteq> tj_env j \<Longrightarrow> p \<noteq> env_tmp (tr_env r) (tj_env j) \<Longrightarrow> tr_last r d2 p = d2 p \<Longrightarrow> d' p = d2 p"
    using write_tls_steps [OF assms(1-3)] by metis
  have staged: "stage_all r (tj_targets j) d = Inr ws" using assms(1) by (simp add: tls_stage_Inr)
  have paths: "distinct (map sg_path ws)" using staged_paths [OF staged assms(4)] by blast
  have 1: "\<exists>pr patch s. (cw_path x, pr, patch) \<in> set (tj_targets j)
        \<and> map_option f_content (cw_read x (cw_path x)) = Some s
        \<and> (patch_text patch s = Inr (Some (cw_put x))
          \<or> e = Some (Write_Failed (cw_path x)) \<and> tr_failing r (cw_path x) = Some (cw_put x))
        \<and> cw_found x = tr_between r (cw_path x) (cw_read x)" if x: "x \<in> set tr" for x
  proof -
    obtain w where w: "w \<in> set ws" "cw_path x = sg_path w" "map_option f_content (cw_read x (sg_path w)) = Some (sg_original w)"
        "cw_found x = tr_between r (sg_path w) (cw_read x)"
        "cw_put x = sg_content w \<or> e2 = Some (Write_Failed (sg_path w)) \<and> tr_failing r (sg_path w) = Some (cw_put x)"
      using commit_writes [OF c x] by blast
    obtain pr patch where "(sg_path w, pr, patch) \<in> set (tj_targets j)" "patch_text patch (sg_original w) = Inr (Some (sg_content w))"
      using staged_from_target [OF staged w(1)] by blast
    with w err show ?thesis by (metis option.distinct(1))
  qed
  have 2: "map_option f_content (d' p) = Some (cw_put x)"
    if "p \<noteq> tj_env j" "p \<noteq> env_tmp (tr_env r) (tj_env j)" "x \<in> set tr" "cw_path x = p" "others_early r p" for p x
    using commit_holds [OF c paths that(3)] other [OF that(1,2)] that(4,5) by (simp add: others_early_def)
  have 3: "d' p = d1 p"
    if "p \<noteq> tj_env j" "p \<noteq> env_tmp (tr_env r) (tj_env j)" "others_spare r p" "p \<notin> cw_path ` set tr" for p
    using commit_spared [OF c, of p] other [OF that(1,2)] that(3,4) by (simp add: others_spare_def)
  have 4: "map cw_path tr = map sg_path ws" if "e = None" using commit_all_written c err that by fastforce
  show ?thesis using 1 2 3 4 by blast
qed

text \<open>The environment is not re-read: what another writer puts into it while the secret is encrypted is
  overwritten with what was loaded before.\<close>

lemma environment_update_lost:
  assumes "tls_stage r j d = Inr (ws, env)" "tls_encrypt r j d = (None, d1)" "write_tls r j d = (None, tr, d')"
  shows "d' (tj_env j) = Some \<lparr>f_content = render_env (set_values j env), f_mode = 420\<rparr>"
    "load_env (tj_env j) d = Inr env"
  using write_tls_steps [OF assms] assms(1) by (auto simp: tls_stage_Inr)


section \<open>The two modes\<close>

lemma one_line_all: "list_all (\<lambda>c. P c) s \<Longrightarrow> \<not> P NL \<Longrightarrow> one_line s"
  by (auto simp: one_line_def list_all_iff)

lemma split_parts_plain:
  assumes "\<forall>p\<in>set (split_on c s). one_line p" "c \<noteq> NL"
  shows "one_line s"
proof -
  have "one_line (join [c] ps)" if "\<forall>p\<in>set ps. one_line p" for ps
    using that assms(2) by (induction "[c]" ps rule: join.induct) (auto simp: one_line_def)
  then show ?thesis using assms(1) join_split_on [of c s] by metis
qed

lemma region_plain:
  assumes "region_regex s"
  shows "one_line s"
proof (rule split_parts_plain)
  have chars: "\<not> lower_or_digit NL" "\<not> re_digit NL" by code_simp+
  obtain p ps where parts: "split_on (CHR ''-'') s = p # ps" by (cases "split_on (CHR ''-'') s") simp_all
  with assms have ps: "ps \<noteq> []" "list_all (\<lambda>c. lower_or_digit c \<and> \<not> re_digit c) p"
    "list_all (\<lambda>p. p \<noteq> [] \<and> list_all lower_or_digit p) (butlast ps)" "list_all re_digit (last ps)"
    by (auto simp: region_regex_def Let_def split: if_splits)
  have "set ps = set (butlast ps) \<union> {last ps}" using ps(1) by (cases ps rule: rev_cases) auto
  moreover have "one_line p" using chars by (intro one_line_all [OF ps(2)]) auto
  moreover have "one_line q" if "q \<in> set (butlast ps)" for q
    using ps(3) that chars by (intro one_line_all [of lower_or_digit]) (auto simp: list_all_iff)
  moreover have "one_line (last ps)" using chars by (intro one_line_all [OF ps(4)]) auto
  ultimately show "\<forall>p\<in>set (split_on (CHR ''-'') s). one_line p" by (auto simp: parts)
qed simp

text \<open>What \<open>LoadDNS01Route53\<close> returns is plain, so the solver patch converges on it.\<close>

lemma loaded_plain:
  assumes "load_dns01_route53 zone region key file secret_env = Inr m"
  shows "plain_material m"
proof -
  have chars: "\<not> upper_or_digit NL" by code_simp
  have "zone_id_regex (dm_zone m)" "region_regex (dm_region m)" "access_key_regex (dm_access_key m)"
    using assms by (auto simp: load_dns01_route53_def Let_def split: if_splits sum.splits)
  moreover from this(1) have "one_line (dm_zone m)"
    using chars by (cases "dm_zone m") (auto simp: zone_id_regex_def one_line_def list_all_iff)
  moreover from calculation have "one_line (dm_access_key m)"
    using chars by (intro one_line_all [of upper_or_digit]) (auto simp: access_key_regex_def)
  ultimately show ?thesis using region_plain by (simp add: plain_material_def)
qed


text \<open>Every certificate that must not be issued is deleted by an entry of its file, and a secret of the
  same namespace takes its place.\<close>

definition suppression_lines :: "string \<Rightarrow> line_list" where
  "suppression_lines stem = concat (map (\<lambda>(n, ns, _). suppression_entry n ns)
     (filter (\<lambda>(_, _, st). st = stem) suppressed_certificates))"

lemma suppression_entry_plain:
  assumes "(n, ns, st) \<in> set suppressed_certificates"
  shows "list_all one_line (suppression_entry n ns)" "last (suppression_entry n ns) \<noteq> []"
proof -
  have "list_all (\<lambda>(n, ns, _). list_all (list_all (\<lambda>c. c \<noteq> NL)) (suppression_entry n ns)) suppressed_certificates"
    by code_simp
  from bspec [OF this [unfolded list_all_iff] assms] show "list_all one_line (suppression_entry n ns)"
    by (auto simp: list_all_iff one_line_def)
qed (simp add: suppression_entry_def)

lemma suppression_patches_lines:
  assumes "(n, ns, stem) \<in> set suppressed_certificates"
  shows "split_on NL (trim_newlines (suppression_patches stem)) = suppression_lines stem"
proof -
  let ?cs = "filter (\<lambda>(_, _, st). st = stem) suppressed_certificates"
  have "?cs \<noteq> []" using assms by (force simp: filter_empty_conv)
  then obtain cs c where cs: "?cs = cs @ [c]" by (metis rev_exhaust)
  then have "c \<in> set ?cs" by simp
  then obtain m ms where c: "c = (m, ms, stem)" "(m, ms, stem) \<in> set suppressed_certificates" by auto
  have entry: "suppression_entry m ms \<noteq> []" by (simp add: suppression_entry_def)
  have "last (suppression_lines stem) \<noteq> []" "suppression_lines stem \<noteq> []"
    using suppression_entry_plain(2) [OF c(2)] entry by (simp_all add: suppression_lines_def cs c(1))
  moreover have "\<forall>l\<in>set (suppression_lines stem). one_line l"
    using suppression_entry_plain(1) by (fastforce simp: suppression_lines_def list_all_iff)
  ultimately show ?thesis
    unfolding suppression_patches_def suppression_lines_def [symmetric] by (intro split_rendered)
qed

lemma sublist_middle: "sublist xs (as @ xs @ bs)"
  unfolding sublist_def by blast

lemma sublist_concat: "xs \<in> set xss \<Longrightarrow> sublist xs (concat xss)"
  using split_list [of xs xss] sublist_middle [of xs] by auto

text \<open>The wildcard mode leaves no listener to ACME.  When the suppression is written into a file that
did not have it, every certificate that this file declares is deleted by an entry of its own, complete and
in one piece, and no line of the file is lost; and for every certificate deleted anywhere the encrypted set
holds a TLS secret in the same namespace.\<close>

theorem wildcard_mode_complete:
  assumes "patch_suppression stem (suppression_patches stem) ls = Inr (ls', True)"
  shows "(\<forall>(n, ns, st)\<in>set suppressed_certificates. st = stem \<longrightarrow> sublist (suppression_entry n ns) ls')
    \<and> subseq (filter nonblank ls) ls'
    \<and> (\<forall>(n, ns, st)\<in>set suppressed_certificates. \<exists>(s, tail, sns)\<in>set wildcard_secret_targets. sns = ns)"
proof -
  have ls': "ls' = append_block (has_line ''patches:'' ls) (suppression_block (suppression_patches stem)) ls"
    using assms by (auto simp: patch_suppression_def Let_def split: if_splits)
  have "sublist (suppression_entry n ns) ls'" if c: "(n, ns, stem) \<in> set suppressed_certificates" for n ns
  proof -
    have "sublist (suppression_entry n ns) (suppression_lines stem)"
      unfolding suppression_lines_def using c by (intro sublist_concat) force
    also have "sublist (suppression_lines stem) ls'"
      using sublist_middle [of "suppression_lines stem" "drop_blank_tail ls
        @ (if has_line ''patches:'' ls then [] else [''  patches:'']) @ take 5 (suppression_block [])" "[[]]"]
      unfolding ls' append_block_def suppression_block_def suppression_patches_lines [OF c] by simp
    finally show ?thesis .
  qed
  moreover have "list_all (\<lambda>(n, ns, st). list_ex (\<lambda>(s, tail, sns). sns = ns) wildcard_secret_targets)
      suppressed_certificates"
    by code_simp
  moreover have "subseq (filter nonblank ls) ls'" unfolding ls' by (rule append_block_keeps)
  ultimately show ?thesis by (auto simp: list_all_iff list_ex_iff)
qed


section \<open>A run\<close>

definition demo_wildcard :: line_list where
  "demo_wildcard = append_block False (suppression_block (suppression_patches ''platform'')) demo_platform"

theorem wildcard_mode_complete_witness:
  "sublist (suppression_entry ''tls-openbao'' ''openbao'') demo_wildcard \<and> subseq (filter nonblank demo_platform) demo_wildcard"
proof -
  have "\<not> has_line ''patches:'' demo_platform" "\<not> list_ex (\<lambda>l. contains (trim_space l) byo_marker) demo_platform"
    by code_simp+
  then have "patch_suppression ''platform'' (suppression_patches ''platform'') demo_platform = Inr (demo_wildcard, True)"
    unfolding demo_wildcard_def patch_suppression_def Let_def by (simp only: if_False simp_thms)
  note all = wildcard_mode_complete [OF this]
  have "(''tls-openbao'', ''openbao'', ''platform'') \<in> set suppressed_certificates"
    by (simp add: suppressed_certificates_def)
  with all show ?thesis by blast
qed

text \<open>A secret is wired into a fleet while another writer edits the environment.\<close>

definition demo_job :: tls_job where
  "demo_job = \<lparr>tj_secret = ''/c/s.enc.yaml'', tj_plain = ''key: s3cret'', tj_leaks = [''s3cret''],
     tj_targets = [(''/c/kustomization.yaml'', Must_Read, patch_kustomization_resource ''s.enc.yaml''),
       (''/c/registry-depot.yaml'', May_Skip, patch_kustomization_gpu)],
     tj_env = ''/c/cluster.env'', tj_values = [(''TLS_MODE'', ''x'')]\<rparr>"

definition plain_file :: "string \<Rightarrow> disk_file" where
  "plain_file s = \<lparr>f_content = s, f_mode = 420\<rparr>"

definition demo_fleet :: fs where
  "demo_fleet = [''/c/kustomization.yaml'' \<mapsto> plain_file (''resources:'' @ [NL] @ ''  - a.yaml'' @ [NL]),
     ''/c/cluster.env'' \<mapsto> plain_file (''DOMAIN=x.io'' @ [NL])]"

definition demo_tls :: tls_run where
  "demo_tls = \<lparr>tr_unreadable = [], tr_irregular = False, tr_sops = demo_run, tr_decrypt = (\<lambda>_. None),
     tr_meanwhile = put_content ''/c/cluster.env'' (''DOMAIN=y.io'' @ [NL]),
     tr_before = (\<lambda>_ d. d), tr_between = (\<lambda>_ d. d), tr_last = (\<lambda>d. d), tr_failing = (\<lambda>_. None),
     tr_env = \<lparr>io_fault = NoFault, io_rnd = ''7'', io_remove_ok = True\<rparr>\<rparr>"

definition demo_env_loaded :: env where
  "demo_env_loaded = load_lines \<lparr>env_path = ''/c/cluster.env'', env_lines = [], env_index = Map.empty\<rparr> [''DOMAIN=x.io'']"

lemma demo_env_load: "load_env ''/c/cluster.env'' demo_fleet = Inr demo_env_loaded"
proof -
  have "raw_lines (''DOMAIN=x.io'' @ [NL]) = [''DOMAIN=x.io'']" by code_simp
  then have "scan_lines (''DOMAIN=x.io'' @ [NL]) = Inr [''DOMAIN=x.io'']"
    by (simp add: scan_lines_def max_token_def drop_cr_def)
  moreover have "demo_fleet ''/c/cluster.env'' = Some (plain_file (''DOMAIN=x.io'' @ [NL]))"
    by (simp add: demo_fleet_def)
  ultimately show ?thesis by (simp add: load_env_def demo_env_loaded_def plain_file_def)
qed

definition demo_staged :: "staged list" where
  "demo_staged = projr (stage_all demo_tls (tj_targets demo_job) demo_fleet)"

definition demo_written :: fs where
  "demo_written = snd (snd (write_tls demo_tls demo_job demo_fleet))"

lemma demo_stage: "tls_stage demo_tls demo_job demo_fleet = Inr (demo_staged, demo_env_loaded)"
proof -
  have "\<not> isl (stage_all demo_tls (tj_targets demo_job) demo_fleet)" by code_simp
  moreover have "\<not> tr_irregular demo_tls" "tj_env demo_job = ''/c/cluster.env''"
    by (simp_all add: demo_tls_def demo_job_def)
  ultimately show ?thesis by (simp add: tls_stage_Inr demo_env_load demo_staged_def)
qed

lemma demo_commit:
  "\<exists>d1 tr d2. tls_encrypt demo_tls demo_job demo_fleet = (None, d1) \<and> commit demo_tls demo_staged d1 = (None, tr, d2)
    \<and> map cw_path tr = [''/c/kustomization.yaml'']"
proof -
  define d1 where "d1 = snd (tls_encrypt demo_tls demo_job demo_fleet)"
  have "fst (tls_encrypt demo_tls demo_job demo_fleet) = None" by code_simp
  then have e: "tls_encrypt demo_tls demo_job demo_fleet = (None, d1)" by (metis d1_def prod.collapse)
  have "fst (commit demo_tls demo_staged d1) = None" unfolding d1_def by code_simp
  moreover have "map cw_path (fst (snd (commit demo_tls demo_staged d1))) = [''/c/kustomization.yaml'']"
    unfolding d1_def by code_simp
  ultimately show ?thesis using e by (metis prod.collapse)
qed

theorem staged_update_not_lost_witness:
  "\<exists>tr d' c. write_tls demo_tls demo_job demo_fleet = (None, tr, d') \<and> c \<in> set tr \<and> cw_path c = ''/c/kustomization.yaml''
    \<and> map_option f_content (d' ''/c/kustomization.yaml'') = Some (cw_put c)"
proof -
  obtain d1 tr d2 where e: "tls_encrypt demo_tls demo_job demo_fleet = (None, d1)"
      "commit demo_tls demo_staged d1 = (None, tr, d2)" "map cw_path tr = [''/c/kustomization.yaml'']"
    using demo_commit by (elim exE conjE)
  define ev where "ev = set_values demo_job demo_env_loaded"
  have "io_fault (tr_env demo_tls) = NoFault" "env_path ev \<noteq> []"
    by (simp_all add: demo_tls_def ev_def env_path_values demo_env_loaded_def)
  then obtain en d3 where "env_write (tr_env demo_tls) ev [] d2 = (None, en, d3)"
    by (simp add: env_write_def write_content_def Let_def)
  moreover have last: "tr_last demo_tls d2 = d2" by (simp add: demo_tls_def)
  ultimately have w: "write_tls demo_tls demo_job demo_fleet = (None, tr, d3)"
    by (simp add: write_tls_def demo_stage e ev_def set_values_def)
  have "distinct (map fst (tj_targets demo_job))" "''/c/kustomization.yaml'' \<noteq> tj_env demo_job"
    "''/c/kustomization.yaml'' \<noteq> env_tmp (tr_env demo_tls) (tj_env demo_job)"
    by code_simp+
  moreover have "others_early demo_tls p" for p by (simp add: others_early_def demo_tls_def)
  moreover obtain c where "c \<in> set tr" "cw_path c = ''/c/kustomization.yaml''" using e(3) by auto
  ultimately show ?thesis
    using staged_update_not_lost [OF demo_stage e(1) w] w by blast
qed

text \<open>A change that falls between the reading and the write is lost, and the run reports success.\<close>

definition demo_window :: tls_run where
  "demo_window = demo_tls\<lparr>tr_between := \<lambda>p. put_content p (''resources:'' @ [NL] @ ''  - other.yaml'' @ [NL])\<rparr>"

lemma update_in_window_lost:
  "case commit demo_window demo_staged demo_fleet of (e, tr, d') \<Rightarrow>
     e = None \<and> map (\<lambda>c. map_option f_content (cw_found c (cw_path c))) tr = [Some (''resources:'' @ [NL] @ ''  - other.yaml'' @ [NL])] \<and>
     map_option f_content (d' ''/c/kustomization.yaml'') = Some (''resources:'' @ [NL] @ ''  - a.yaml'' @ [NL] @ ''  - s.enc.yaml'' @ [NL])"
  by code_simp

end
