(* ===== verification/Scaffold_Config.thy ===== *)
theory Scaffold_Config
  imports Env_File Preset_Checks Option_Gates
begin

text \<open>
  The post-processing of the generated \<open>cluster-config.env\<close>
  (\<open>postProcessClusterConfig\<close> in \<open>cli/internal/bootstrap/clusterinit/scaffold.go\<close>, with
  \<open>GPUConfigEnv\<close> of \<open>gpu.go\<close>): the values of the reviewed plan, the preset, the fleet and the
  accelerators are merged, written over the file's placeholders, completed with the values that
  follow from them, validated once more as the file that will be published, and written
  atomically.  Each stage after the merge is a list of stores computed from the file as the
  stage finds it.
\<close>

section \<open>Accelerator substitutions\<close>

definition bool_text :: "bool \<Rightarrow> string" where
  "bool_text b = (if b then ''true'' else ''false'')"

definition canonical_gpu_node_modes :: "(string \<times> string) list \<Rightarrow> string" where
  "canonical_gpu_node_modes ms = join '','' (map (\<lambda>(n, m). n @ ''='' @ m) (sort_key fst ms))"

definition shared_v100_profile :: string where
  "shared_v100_profile = ''nvidia-v100-hami''"

text \<open>\<open>GPUConfigEnv\<close>; the entries of the Go map, its keys distinct.\<close>

definition gpu_closed :: "(string \<times> string) list" where
  "gpu_closed = [(''GPU_BILLING_ELIGIBLE'', ''false''), (''GPU_SHARED_CREATION_ENABLED'', ''false''),
     (''GPU_VM_CREATION_ENABLED'', ''false'')]"

definition gpu_config_env :: "'a init_options_scheme \<Rightarrow> (string \<times> string) list" where
  "gpu_config_env g =
     (if io_gpu_platform g = [] then []
      else if io_gpu_platform g = ''disabled'' then
        [(''GPU_ENABLED'', ''false''), (''GPU_CATALOG_ENABLED'', ''false'')] @ gpu_closed
      else
        (let profiles = canonical_gpu_profiles (io_gpu_profiles g);
             enabled = (io_gpu_platform g = ''enabled'') in
         filter (\<lambda>(k, v). trim_space v \<noteq> [])
          ([(''GPU_ENABLED'', bool_text enabled),
            (''GPU_CATALOG_ENABLED'', bool_text (enabled \<and> shared_v100_profile \<in> set profiles))]
           @ gpu_closed @
           [(''GPU_DRIVER_SOURCE'', io_gpu_driver_source g),
            (''GPU_OPERATOR_VERSION'', io_gpu_operator_version g),
            (''NVIDIA_DRIVER_VERSION'', io_nvidia_driver_version g),
            (''NVIDIA_TOOLKIT_VERSION'', io_nvidia_toolkit_version g),
            (''HAMI_ENABLED'', bool_text (io_hami_enabled g)),
            (''GPU_SHARED_ALLOCATOR'', io_gpu_shared_allocator g),
            (''HAMI_VERSION'', io_hami_version g),
            (''HAMI_KUBE_SCHEDULER_VERSION'', io_hami_scheduler_version g),
            (''GPU_NODE_MODES'', canonical_gpu_node_modes (io_gpu_node_modes g)),
            (''GPU_PROFILES'', join '','' profiles)])))"

definition gpu_keys :: "string list" where
  "gpu_keys = [''GPU_ENABLED'', ''GPU_CATALOG_ENABLED''] @ map fst gpu_closed @
     [''GPU_DRIVER_SOURCE'', ''GPU_OPERATOR_VERSION'', ''NVIDIA_DRIVER_VERSION'',
      ''NVIDIA_TOOLKIT_VERSION'', ''HAMI_ENABLED'', ''GPU_SHARED_ALLOCATOR'', ''HAMI_VERSION'',
      ''HAMI_KUBE_SCHEDULER_VERSION'', ''GPU_NODE_MODES'', ''GPU_PROFILES'']"

section \<open>The merged values\<close>

text \<open>What the scaffold takes from the reviewed plan.\<close>

record config_plan =
  cp_preset :: preset
  cp_address_layer :: string
  cp_host_cidr :: string
  cp_ingress_nodes :: "string list"
  cp_inherited :: "(string \<times> string) list"

text \<open>The stores the plan adds to the operator's \<open>--set\<close> values before the preset is
  resolved.\<close>

definition plan_layer :: "config_plan \<Rightarrow> (string \<times> string) list \<Rightarrow> (string \<times> string) list" where
  "plan_layer p sets =
     (let pinned = (\<lambda>k. map_of sets k \<noteq> None) in
      if cp_address_layer p = [] \<and> cp_host_cidr p = [] then []
      else (if cp_address_layer p \<noteq> [] then [(''INGRESS_ADDRESS_LAYER'', cp_address_layer p)] else [])
        @ (if cp_host_cidr p \<noteq> [] \<and> \<not> pinned ''INGRESS_HOST_CIDR''
           then [(''INGRESS_HOST_CIDR'', cp_host_cidr p)] else [])
        @ (if cp_ingress_nodes p \<noteq> [] \<and> \<not> pinned ''ENVOY_REPLICAS''
           then [(''ENVOY_REPLICAS'', itoa (int (length (cp_ingress_nodes p))))] else []))"

definition layered_sets :: "config_plan \<Rightarrow> (string \<times> string) list \<Rightarrow> env_map" where
  "layered_sets p sets = map_of sets ++ map_of (plan_layer p sets)"

definition inherited_values :: "config_plan \<Rightarrow> (string \<times> string) list \<Rightarrow> (string \<times> string) list" where
  "inherited_values p sets = filter (\<lambda>(k, v). map_of sets k = None) (cp_inherited p)"

definition merged_config ::
  "config_plan \<Rightarrow> (string \<times> string) list \<Rightarrow> (string \<times> string) list \<Rightarrow> Preset.env_error + env_map" where
  "merged_config p sets gpu =
     and_then (env_map_for (cp_preset p) (layered_sets p sets))
       (\<lambda>m. Inr (m ++ map_of (inherited_values p sets) ++ map_of gpu))"

text \<open>The keys of the merged Go map, sorted.  A map is a function here, so its keys are found
  among those the presets, the derivations and the inputs can write
  (\<open>merged_keys_set\<close> below: none is missed).\<close>

definition preset_keys :: "string list" where
  "preset_keys =
     [''EXT_NET_NAME'', ''EXT_NET_TYPE'', ''EXT_NET_CIDR'', ''EXT_NET_GATEWAY'', ''EXT_NET_MTU'',
      ''DEFAULT_GW_NETWORK_TYPE'', ''DEFAULT_EIP_NETWORK_TYPE'', ''DEFAULT_FIP_NETWORK_TYPE'',
      ''DEFAULT_SVC_LB_NETWORK_TYPE'', ''POD_CIDR'', ''POD_GATEWAY'', ''SVC_CIDR'',
      ''K8S_SERVICE_IP'', ''CLUSTER_DNS'', ''JOIN_CIDR'', ''INFRA_ATTACHMENT_SUBNET'',
      ''INFRA_ATTACHMENT_CIDR'', ''INFRA_ATTACHMENT_GATEWAY'', ''INFRA_ATTACHMENT_SECURITY_GROUP'',
      ''PROM_STORAGE'', ''PROM_RETENTION'', ''PROM_RETENTION_SIZE'', ''MANAGEMENT_API_MODE'',
      ''KUBE_API_INTERNAL_VIP'', ''PLATFORM_ENDPOINT_KUBE_API_ENABLED'', ''EXT_NET_ANCHOR_IPS'',
      ''EXT_NET_ANCHOR_INTERFACE'', ''EXT_NET_ANCHOR_REQUIRED'', ''EXT_NET_NODE_EGRESS_ENABLED'',
      ''EXT_NET_ANCHOR_VLAN'', ''EXT_NET_ANCHOR_SSH_HOSTS'', ''EXT_NET_PUBLIC_ANCHOR_INTERFACE'',
      ''EXT_NET_PUBLIC_ANCHOR_VLAN'', ''EXT_NET_PUBLIC_ANCHOR_IPS'', ''METALLB_MODE'',
      ''ENVOY_SERVICE_TYPE'', ''ENVOY_LB_CLASS'', ''ENVOY_TRAFFIC_POLICY'', ''INGRESS_NODE_LABEL'',
      ''INGRESS_ADDRESS_LAYER'', ''METALLB_INTERFACE'', ''EXT_PUBLIC_EXCLUDE_IPS_1'',
      ''EXT_PUBLIC_EXCLUDE_IPS_2'']"

definition merged_keys ::
  "config_plan \<Rightarrow> (string \<times> string) list \<Rightarrow> (string \<times> string) list \<Rightarrow> env_map \<Rightarrow> string list" where
  "merged_keys p sets gpu m =
     sort (remdups (filter (\<lambda>k. m k \<noteq> None)
       (preset_keys @ map fst sets @ map fst (plan_layer p sets) @ map fst (cp_inherited p) @ map fst gpu)))"

section \<open>The stages after the merge\<close>

definition set_all :: "env \<Rightarrow> (string \<times> string) list \<Rightarrow> env" where
  "set_all e kvs = foldl (\<lambda>s (k, v). env_set s k v) e kvs"

definition env_of :: "env \<Rightarrow> string \<Rightarrow> string" where
  "env_of e k = (case env_get e k of Some v \<Rightarrow> v | None \<Rightarrow> [])"

definition merged_writes :: "string list \<Rightarrow> env_map \<Rightarrow> (string \<times> string) list" where
  "merged_writes ks m = map (\<lambda>k. (k, env_at m k)) ks"

definition ovn_writes :: "(string \<times> string) list \<Rightarrow> env_map \<Rightarrow> (string \<times> string) list" where
  "ovn_writes sets m =
     (let masters = env_text m ''KUBE_OVN_MASTER_NODES'' in
      if map_of sets ''OVN_DB_IPS'' \<noteq> None \<or> masters = [] then []
      else [(''OVN_DB_IPS'', join '','' (map (\<lambda>ip. ''tcp:'' @ ip @ '':6641'')
        (filter (\<lambda>ip. ip \<noteq> []) (map trim_space (split_on (CHR '','') masters)))))])"

definition route_writes :: "(string \<times> string) list \<Rightarrow> env_map \<Rightarrow> string \<Rightarrow> env \<Rightarrow> (string \<times> string) list" where
  "route_writes sets m node_cidr e =
     (let found' = trim_space (env_of e ''NODE_CIDR'');
          effective = (if node_cidr = [] then found' else node_cidr) in
      if map_of sets ''INFRA_ATTACHMENT_ROUTES'' \<noteq> None then []
      else if effective \<noteq> [] then
        [(''NODE_CIDR'', effective),
         (''INFRA_ATTACHMENT_ROUTES'', join '','' [effective, env_at m ''JOIN_CIDR'', env_at m ''POD_CIDR'']),
         (''INFRA_ATTACHMENT_ENABLED'', ''true'')]
      else
        [(''NODE_CIDR'', []), (''INFRA_ATTACHMENT_ROUTES'', []), (''INFRA_ATTACHMENT_ENABLED'', ''false'')])"

text \<open>\<open>serviceModeViable\<close>: a canonical IPv4 address inside the service network.\<close>

definition service_mode_viable :: "string \<Rightarrow> string \<Rightarrow> bool" where
  "service_mode_viable ip cidr =
     (case parse_ip4 (trim_space ip) of None \<Rightarrow> False
      | Some a \<Rightarrow> dotted a = trim_space ip \<and>
          (case parse_cidr (trim_space cidr) of None \<Rightarrow> False
           | Some (_, n) \<Rightarrow> net_to4 n \<noteq> None \<and> net_contains n (ip_of4 a)))"

definition mode_writes :: "env \<Rightarrow> (string \<times> string) list" where
  "mode_writes e =
     (if equal_fold (trim_space (env_of e ''MANAGEMENT_API_MODE'')) ''auto''
      then [(''MANAGEMENT_API_MODE'',
        if trim_space (env_of e ''INFRA_ATTACHMENT_ENABLED'') = ''true''
           \<and> service_mode_viable (env_of e ''K8S_SERVICE_IP'') (env_of e ''SVC_CIDR'')
        then ''service'' else ''external'')]
      else [])"

definition dead_metallb_keys :: "string \<Rightarrow> string list" where
  "dead_metallb_keys layer =
     (if \<not> layer_requires_vip layer then [''METALLB_FLOATING_IP'', ''METALLB_INTERFACE'']
      else if equal_fold (trim_space layer) layer_bgp then [''METALLB_INTERFACE''] else [])"

definition metallb_writes :: "string \<Rightarrow> env \<Rightarrow> (string \<times> string) list" where
  "metallb_writes layer e =
     map (\<lambda>k. (k, [])) (filter (\<lambda>k. case env_get e k of None \<Rightarrow> False
       | Some v \<Rightarrow> placeholder (trim_space v)) (dead_metallb_keys layer))"

definition arrival_writes :: "env \<Rightarrow> (string \<times> string) list" where
  "arrival_writes e =
     (let l = trim_space (env_of e ''INGRESS_ADDRESS_LAYER'');
          vip = trim_space (env_of e ''METALLB_FLOATING_IP'') in
      if parse_ip (trim_space (env_of e ''KUBE_API_ARRIVAL_IP'')) = None
         \<and> l \<in> {layer_l2, layer_bgp} \<and> parse_ip vip \<noteq> None
      then [(''KUBE_API_ARRIVAL_IP'', vip)] else [])"

text \<open>The stages in the order of the function, each on the file the one before left.\<close>

definition run_stage :: "env \<Rightarrow> (env \<Rightarrow> (string \<times> string) list) \<Rightarrow> env" where
  "run_stage e stage = set_all e (stage e)"

definition config_stages ::
  "config_plan \<Rightarrow> (string \<times> string) list \<Rightarrow> string \<Rightarrow> (string \<times> string) list \<Rightarrow> env_map
    \<Rightarrow> (env \<Rightarrow> (string \<times> string) list) list" where
  "config_stages p sets node_cidr gpu m =
     [\<lambda>_. merged_writes (merged_keys p sets gpu m) m, \<lambda>_. ovn_writes sets m, route_writes sets m node_cidr,
      mode_writes, metallb_writes (cp_address_layer p), arrival_writes]"

definition final_env ::
  "config_plan \<Rightarrow> (string \<times> string) list \<Rightarrow> string \<Rightarrow> (string \<times> string) list \<Rightarrow> env_map \<Rightarrow> env \<Rightarrow> env" where
  "final_env p sets node_cidr gpu m e = foldl run_stage e (config_stages p sets node_cidr gpu m)"

section \<open>The whole function\<close>

text \<open>The message of a left-over placeholder names whichever key the map's random order gives
  first; the model keeps no key.\<close>

datatype config_error =
    Load_Failed Env_File.env_error | Map_Failed Preset.env_error
  | Final_Values "problem list" | Placeholder_Left | Mode_Unresolved
  | Publish_Failed Env_File.env_error

definition final_check :: "durations \<Rightarrow> preset \<Rightarrow> env \<Rightarrow> config_error option" where
  "final_check dur p e =
     (let vals = env_as_map e; ps = validate_preset_values dur p vals in
      if ps \<noteq> [] then Some (Final_Values ps)
      else if list_ex (\<lambda>k. placeholder (env_text vals k)) (env_keys e) then Some Placeholder_Left
      else if equal_fold (env_text vals ''MANAGEMENT_API_MODE'') ''auto'' then Some Mode_Unresolved
      else None)"

definition config_candidate ::
  "string \<Rightarrow> config_plan \<Rightarrow> (string \<times> string) list \<Rightarrow> string \<Rightarrow> (string \<times> string) list \<Rightarrow> fs
    \<Rightarrow> config_error + env" where
  "config_candidate path p sets node_cidr gpu d =
     (case load_env path d of
        Inl x \<Rightarrow> Inl (Load_Failed x)
      | Inr e \<Rightarrow> (case merged_config p sets gpu of
            Inl x \<Rightarrow> Inl (Map_Failed x)
          | Inr m \<Rightarrow> Inr (final_env p sets node_cidr gpu m e)))"

definition post_process_cluster_config ::
  "durations \<Rightarrow> io_plan \<Rightarrow> string \<Rightarrow> config_plan \<Rightarrow> (string \<times> string) list \<Rightarrow> string
    \<Rightarrow> (string \<times> string) list \<Rightarrow> fs \<Rightarrow> config_error option \<times> fs" where
  "post_process_cluster_config dur io path p sets node_cidr gpu d =
     (case config_candidate path p sets node_cidr gpu d of
        Inl x \<Rightarrow> (Some x, d)
      | Inr e \<Rightarrow> (case final_check dur (cp_preset p) e of
            Some x \<Rightarrow> (Some x, d)
          | None \<Rightarrow> (case env_write io e [] d of
              (err, _, d') \<Rightarrow> (map_option Publish_Failed err, d'))))"


section \<open>Lookups after a stage\<close>

lemma set_all_wf [wf_intro]: "env_wf e \<Longrightarrow> env_wf (set_all e kvs)"
  unfolding set_all_def by (rule env_kv.put_all_inv)

lemma set_all_get: "env_wf e \<Longrightarrow> env_get (set_all e kvs) k =
    (case last_of kvs k of Some v \<Rightarrow> Some v | None \<Rightarrow> env_get e k)"
  unfolding set_all_def by (rule env_kv.get_put_all)

lemma set_all_path [simp]: "env_path (set_all e kvs) = env_path e"
proof (induction kvs arbitrary: e)
  case (Cons kv kvs)
  obtain k v where kv: "kv = (k, v)" by (cases kv)
  have "env_path (env_set e k v) = env_path e"
    by (simp add: env_set_def append_line_def Let_def split: option.split)
  with Cons [of "env_set e k v"] kv show ?case by (simp add: set_all_def)
qed (simp add: set_all_def)

lemma run_stages_wf: "env_wf e \<Longrightarrow> env_wf (foldl run_stage e stages)"
  by (induction stages arbitrary: e) (auto simp: run_stage_def intro: set_all_wf)

lemma run_stages_path: "env_path (foldl run_stage e stages) = env_path e"
  by (induction stages arbitrary: e) (simp_all add: run_stage_def)

text \<open>A key that no stage stores keeps its value.\<close>

lemma run_stages_other:
  assumes "env_wf e" "\<And>stage e'. stage \<in> set stages \<Longrightarrow> env_wf e' \<Longrightarrow> env_get e' k = env_get e k
    \<Longrightarrow> last_of (stage e') k = None"
  shows "env_get (foldl run_stage e stages) k = env_get e k"
  using assms
proof (induction stages arbitrary: e)
  case (Cons stage stages)
  let ?e = "run_stage e stage"
  have "last_of (stage e) k = None" using Cons.prems by simp
  then have same: "env_get ?e k = env_get e k"
    using Cons.prems(1) by (simp add: run_stage_def set_all_get)
  have "env_get (foldl run_stage ?e stages) k = env_get ?e k"
    using Cons.prems same by (intro Cons.IH) (auto simp: run_stage_def intro: set_all_wf)
  with same show ?case by simp
qed simp

lemma last_of_merged_writes:
  "last_of (merged_writes ks m) k = (if k \<in> set ks then Some (env_at m k) else None)"
  by (induction ks rule: rev_induct) (auto simp: merged_writes_def)

section \<open>No key of the merged map is missed\<close>

lemma fills_dom: "fills ks m m' \<Longrightarrow> dom m' \<subseteq> dom m \<union> ks"
  unfolding fills_def by (auto simp: dom_def)

lemma map_of_keys: "dom (map_of kvs) \<subseteq> set ks \<longleftrightarrow> list_all (\<lambda>k. k \<in> set ks) (map fst kvs)"
  by (auto simp: dom_map_of_conv_image_fst list_all_iff)

lemma cloud_keys: "dom (cloud_defaults t) \<subseteq> set preset_keys"
  unfolding cloud_defaults_def universal_defaults_def network_defaults_def monitoring_defaults_def
    platform_endpoint_defaults_def anchor_defaults_def public_anchor_defaults_def ingress_defaults_def
    dom_map_add Un_subset_iff map_of_keys list.map fst_conv
  by (intro conjI; code_simp)

lemma fills_kept: "fills ks m m' \<Longrightarrow> \<not> open_value m k \<Longrightarrow> m' k = m k"
  by (simp add: fills_def)

lemma default_keys: "spec_for p = Some spec \<Longrightarrow> dom (sp_defaults spec) \<subseteq> set preset_keys"
  by (cases p) (auto simp: internal_only_preset_def cloud_vlan_preset_def cloud_public_vlan_preset_def
    custom_preset_def intro: cloud_keys [THEN subsetD, OF domI])

lemma layer_env_keys: "dom (address_layer_env layer) \<subseteq> set preset_keys"
  by (auto simp: address_layer_env_def preset_keys_def split: if_splits)

lemma derived_preset_keys: "derived_keys \<subseteq> set preset_keys"
  by (simp add: derived_keys_def l2_keys_def reserved_keys_def preset_keys_def)

lemma with_layer_keys: "dom (with_layer sets out) \<subseteq> dom out \<union> set preset_keys"
proof -
  let ?l = "fst (resolve_address_layer (env_at out ''INGRESS_ADDRESS_LAYER'') (env_at out ''METALLB_FLOATING_IP''))"
  have "dom (\<lambda>k. if sets k \<noteq> None then None else address_layer_env ?l k) \<subseteq> set preset_keys"
    using layer_env_keys [of ?l] by (auto simp: dom_def split: if_splits)
  moreover have "{''INGRESS_ADDRESS_LAYER'', ''METALLB_MODE''} \<subseteq> set preset_keys"
    by (simp add: preset_keys_def)
  ultimately show ?thesis by (auto simp: with_layer_def Let_def split: if_splits)
qed

lemma env_map_for_cases:
  assumes "env_map_for p sets = Inr m"
  obtains spec where "spec_for p = Some spec"
    "m = sp_defaults spec ++ sets \<or> m = derive_public_anchor_env (with_layer sets (sp_defaults spec ++ sets))"
  using assms by (auto simp: env_map_for_def Let_def split: option.splits if_splits)

lemma env_map_keys:
  assumes "env_map_for p sets = Inr m"
  shows "dom m \<subseteq> set preset_keys \<union> dom sets"
proof -
  obtain spec where spec: "spec_for p = Some spec"
    and m: "m = sp_defaults spec ++ sets \<or> m = derive_public_anchor_env (with_layer sets (sp_defaults spec ++ sets))"
    using assms by (rule env_map_for_cases)
  let ?out = "sp_defaults spec ++ sets"
  have out: "dom ?out \<subseteq> set preset_keys \<union> dom sets"
    using default_keys [OF spec] by auto
  have "dom (derive_public_anchor_env (with_layer sets ?out)) \<subseteq> set preset_keys \<union> dom sets"
    by (intro order_trans [OF fills_dom [OF fills_derived]] Un_least order_trans [OF with_layer_keys]
        out Un_upper1 le_supI1 derived_preset_keys)
  with m out show ?thesis by (elim disjE) (simp only:)+
qed

lemma merged_keys_set:
  assumes "merged_config p sets gpu = Inr m"
  shows "set (merged_keys p sets gpu m) = dom m"
proof -
  obtain m0 where m0: "env_map_for (cp_preset p) (layered_sets p sets) = Inr m0"
    and m: "m = m0 ++ map_of (inherited_values p sets) ++ map_of gpu"
    using assms by (auto simp: merged_config_def and_then_Inr_iff)
  have "dom (layered_sets p sets) = fst ` (set sets \<union> set (plan_layer p sets))"
    by (auto simp: layered_sets_def dom_map_of_conv_image_fst image_Un)
  with env_map_keys [OF m0]
  have "dom m \<subseteq> set (preset_keys @ map fst sets @ map fst (plan_layer p sets) @ map fst (cp_inherited p) @ map fst gpu)"
    unfolding m dom_map_add dom_map_of_conv_image_fst
    by (auto simp: inherited_values_def)
  then show ?thesis by (auto simp: merged_keys_def)
qed


section \<open>The stages on the keys they decide\<close>

text \<open>\<open>asked_value\<close>: what the operator set, or else what the fleet hands down.  The keys of
  \<open>decided_keys\<close> the tool may decide over that request.\<close>

definition asked_value :: "config_plan \<Rightarrow> (string \<times> string) list \<Rightarrow> string \<Rightarrow> string option" where
  "asked_value p sets k = (case map_of sets k of Some v \<Rightarrow> Some v | None \<Rightarrow> map_of (cp_inherited p) k)"

definition decided_keys :: "(string \<times> string) list \<Rightarrow> string list" where
  "decided_keys sets =
     [''INGRESS_ADDRESS_LAYER'', ''METALLB_MODE'', ''MANAGEMENT_API_MODE'', ''KUBE_API_ARRIVAL_IP'']
     @ (if map_of sets ''OVN_DB_IPS'' = None then [''OVN_DB_IPS''] else [])
     @ (if map_of sets ''INFRA_ATTACHMENT_ROUTES'' = None
        then [''NODE_CIDR'', ''INFRA_ATTACHMENT_ROUTES'', ''INFRA_ATTACHMENT_ENABLED''] else [])"

lemma last_of_simps [simp]:
  "last_of (kv # kvs) k = (case last_of kvs k of Some v \<Rightarrow> Some v | None \<Rightarrow> if k = fst kv then Some (snd kv) else None)"
  by (cases kv) (auto simp: last_of_def map_add_def split: option.split)

lemma map_of_unset: "map_of (filter (\<lambda>(k, v). P k) kvs) k = (if P k then map_of kvs k else None)"
  by (induction kvs) auto

lemma gpu_env_keys: "fst ` set (gpu_config_env g) \<subseteq> set gpu_keys"
proof -
  have sub: "fst ` set (filter P kvs) \<subseteq> set ks" if "map fst kvs = ks"
    for P and kvs :: "(string \<times> string) list" and ks
    using that by force
  show ?thesis
    unfolding gpu_config_env_def Let_def
    by (simp only: if_split_mem1 split: if_split) (intro conjI impI sub; simp add: gpu_keys_def gpu_closed_def)
qed

lemma gpu_env_other: "k \<notin> set gpu_keys \<Longrightarrow> map_of (gpu_config_env g) k = None"
  using gpu_env_keys [of g] by (auto simp: map_of_eq_None_iff)

lemma plan_layer_keys:
  "k \<in> fst ` set (plan_layer p sets) \<Longrightarrow> k = ''INGRESS_ADDRESS_LAYER'' \<or> map_of sets k = None"
  unfolding plan_layer_def Let_def by (force split: if_split_asm)

lemma plan_layer_pinned:
  "map_of sets k \<noteq> None \<Longrightarrow> k \<noteq> ''INGRESS_ADDRESS_LAYER'' \<Longrightarrow> map_of (plan_layer p sets) k = None"
  using plan_layer_keys [of k p sets] by (auto simp: map_of_eq_None_iff)

lemma with_layer_set:
  "sets k = Some v \<Longrightarrow> k \<noteq> ''INGRESS_ADDRESS_LAYER'' \<Longrightarrow> k \<noteq> ''METALLB_MODE'' \<Longrightarrow>
   with_layer sets (d ++ sets) k = Some v"
  by (simp add: with_layer_def Let_def map_add_def)

lemma env_map_for_set:
  assumes "env_map_for p sets = Inr m" "sets k = Some v" "trim_space v \<noteq> []" "\<not> placeholder (trim_space v)"
    "k \<noteq> ''INGRESS_ADDRESS_LAYER''" "k \<noteq> ''METALLB_MODE''"
  shows "m k = Some v"
proof -
  obtain spec where "spec_for p = Some spec"
    and m: "m = sp_defaults spec ++ sets \<or> m = derive_public_anchor_env (with_layer sets (sp_defaults spec ++ sets))"
    using assms(1) by (rule env_map_for_cases)
  let ?m = "with_layer sets (sp_defaults spec ++ sets)"
  have w: "?m k = Some v" by (rule with_layer_set) (fact assms)+
  then have "env_text ?m k = trim_space v" by (simp only: env_text_def env_at_def option.case)
  then have "\<not> open_value ?m k"
    using assms(3,4) by (auto simp only: open_value_def placeholder_def take_all_iff)
  then have "derive_public_anchor_env ?m k = Some v"
    by (rule fills_kept [OF fills_derived, THEN trans]) (rule w)
  moreover have "(sp_defaults spec ++ sets) k = Some v"
    by (rule map_add_find_right) (rule assms)
  ultimately show ?thesis using m by (elim disjE) (simp_all only:)
qed

lemma merged_asked:
  assumes "merged_config p sets (gpu_config_env g) = Inr m" "asked_value p sets k = Some v"
    "trim_space v \<noteq> []" "\<not> placeholder (trim_space v)"
    "k \<notin> set (decided_keys sets)" "k \<notin> set gpu_keys"
  shows "m k = Some v"
proof -
  obtain m0 where m0: "env_map_for (cp_preset p) (layered_sets p sets) = Inr m0"
    and m: "m = m0 ++ map_of (inherited_values p sets) ++ map_of (gpu_config_env g)"
    using assms(1) by (auto simp: merged_config_def and_then_Inr_iff)
  have inh: "map_of (inherited_values p sets) k = (if map_of sets k = None then map_of (cp_inherited p) k else None)"
    unfolding inherited_values_def by (rule map_of_unset)
  have keys: "k \<noteq> ''INGRESS_ADDRESS_LAYER''" "k \<noteq> ''METALLB_MODE''"
    using assms(5) by (auto simp: decided_keys_def)
  have "m0 k = Some v" if "map_of sets k = Some v"
    using that keys plan_layer_pinned [of sets k p]
    by (intro env_map_for_set [OF m0 _ assms(3,4)]) (auto simp: layered_sets_def map_add_def)
  with inh assms(2) show ?thesis
    unfolding m using gpu_env_other [OF assms(6), of g]
    by (auto simp: asked_value_def map_add_def split: option.splits)
qed

text \<open>No later stage touches such a value.\<close>

lemma undecided_writes:
  assumes "k \<notin> set (decided_keys sets)"
  shows "last_of (ovn_writes sets m) k = None" "last_of (route_writes sets m c e) k = None"
    "last_of (mode_writes e) k = None" "last_of (arrival_writes e) k = None"
proof -
  have k: "k \<noteq> ''MANAGEMENT_API_MODE''" "k \<noteq> ''KUBE_API_ARRIVAL_IP''"
    using assms by (auto simp: decided_keys_def)
  show "last_of (mode_writes e) k = None" "last_of (arrival_writes e) k = None"
    using k by (simp_all add: mode_writes_def arrival_writes_def Let_def)
  show "last_of (ovn_writes sets m) k = None"
    using assms by (cases "map_of sets ''OVN_DB_IPS''") (simp_all add: ovn_writes_def decided_keys_def Let_def)
  show "last_of (route_writes sets m c e) k = None"
    using assms
    by (cases "map_of sets ''INFRA_ATTACHMENT_ROUTES''") (simp_all add: route_writes_def decided_keys_def Let_def)
qed

lemma metallb_writes_keep:
  "env_get e k = Some v \<Longrightarrow> \<not> placeholder (trim_space v) \<Longrightarrow> last_of (metallb_writes layer e) k = None"
  by (auto simp: metallb_writes_def last_of_None_iff)

lemma later_stages_keep:
  assumes "env_wf e" "env_get e k = Some v" "\<not> placeholder (trim_space v)" "k \<notin> set (decided_keys sets)"
  shows "env_get (foldl run_stage e (tl (config_stages p sets c gpu m))) k = Some v"
proof -
  have "env_get (foldl run_stage e (tl (config_stages p sets c gpu m))) k = env_get e k"
    using assms(1)
  proof (rule run_stages_other)
    fix stage e'
    assume s: "stage \<in> set (tl (config_stages p sets c gpu m))" and e': "env_get e' k = env_get e k"
    have "stage = (\<lambda>_. ovn_writes sets m) \<or> stage = route_writes sets m c \<or> stage = mode_writes \<or>
        stage = metallb_writes (cp_address_layer p) \<or> stage = arrival_writes"
      using s by (auto simp: config_stages_def)
    then show "last_of (stage e') k = None"
      using undecided_writes [OF assms(4)] metallb_writes_keep [OF _ assms(3)] assms(2) e'
      by (elim disjE) simp_all
  qed
  with assms(2) show ?thesis by simp
qed

lemma final_env_asked:
  assumes "env_wf e" "merged_config p sets (gpu_config_env g) = Inr m" "asked_value p sets k = Some v"
    "trim_space v \<noteq> []" "\<not> placeholder (trim_space v)"
    "k \<notin> set (decided_keys sets)" "k \<notin> set gpu_keys"
  shows "env_get (final_env p sets c (gpu_config_env g) m e) k = Some v"
proof -
  let ?gpu = "gpu_config_env g"
  let ?e = "run_stage e (\<lambda>_. merged_writes (merged_keys p sets ?gpu m) m)"
  have mk: "m k = Some v" by (rule merged_asked [OF assms(2-)])
  then have "k \<in> set (merged_keys p sets ?gpu m)"
    using merged_keys_set [OF assms(2)] by blast
  then have "env_get ?e k = Some v"
    using assms(1) mk by (simp add: run_stage_def set_all_get last_of_merged_writes env_at_def)
  moreover have "env_wf ?e" using assms(1) by (simp add: run_stage_def set_all_wf)
  moreover have "final_env p sets c ?gpu m e = foldl run_stage ?e (tl (config_stages p sets c ?gpu m))"
    by (simp add: final_env_def config_stages_def)
  ultimately show ?thesis using later_stages_keep assms(5,6) by simp
qed

section \<open>What a successful run leaves\<close>

lemma env_write_own_path: "env_write io e [] d = env_write io e (env_path e) d"
  by (simp add: env_write_def)

lemma config_candidate_InrD:
  assumes "config_candidate path p sets c gpu d = Inr e"
  shows "\<exists>e0 m. load_env path d = Inr e0 \<and> env_wf e0 \<and> env_path e = path \<and>
    merged_config p sets gpu = Inr m \<and> e = final_env p sets c gpu m e0"
proof -
  have "env_path (load_lines e ls) = env_path e" for e ls
  proof (induction ls arbitrary: e)
    case (Cons l ls)
    have "env_path (load_line e l) = env_path e"
      by (simp add: load_line_def append_line_def Let_def split: option.split)
    with Cons show ?case by simp
  qed simp
  then have "env_path e0 = path" if "load_env path d = Inr e0" for e0
    using that by (auto simp: load_env_def and_then_Inr_iff split: option.splits)
  with assms show ?thesis
    by (auto simp: config_candidate_def final_env_def run_stages_path load_env_wf split: sum.splits)
qed

lemma post_process_success:
  assumes "post_process_cluster_config dur io path p sets c gpu d = (None, d')" "env_tmp io path \<notin> dom d"
  shows "\<exists>e. config_candidate path p sets c gpu d = Inr e \<and> final_check dur (cp_preset p) e = None \<and>
    d' = d(path \<mapsto> \<lparr>f_content = render_env e, f_mode = 420\<rparr>)"
proof -
  obtain e where e: "config_candidate path p sets c gpu d = Inr e" "final_check dur (cp_preset p) e = None"
    using assms(1) by (auto simp: post_process_cluster_config_def split: sum.splits option.splits)
  obtain e1 where w: "env_write io e path d = (None, e1, d')"
    using assms(1) e config_candidate_InrD [OF e(1)]
    by (auto simp: post_process_cluster_config_def env_write_own_path [of io e] split: prod.splits)
  then have "path \<noteq> []"
    using config_candidate_InrD [OF e(1)] by (auto simp: env_write_def)
  with env_write_outcome [OF assms(2) _ w] e show ?thesis by auto
qed

lemma post_process_error:
  assumes "post_process_cluster_config dur io path p sets c gpu d = (Some x, d')" "env_tmp io path \<notin> dom d"
  shows "d' path = d path"
proof (cases "config_candidate path p sets c gpu d")
  case (Inr e)
  show ?thesis
  proof (cases "final_check dur (cp_preset p) e")
    case None
    obtain r e1 where w: "env_write io e path d = (r, e1, d')" "map_option Publish_Failed r = Some x"
      using assms(1) Inr None config_candidate_InrD [OF Inr]
      by (auto simp: post_process_cluster_config_def env_write_own_path [of io e] split: prod.splits)
    show ?thesis
      using env_write_outcome [OF assms(2) _ w(1)] w config_candidate_InrD [OF Inr]
      by (cases "path = []") (auto simp: env_write_def)
  qed (use assms Inr in \<open>simp add: post_process_cluster_config_def\<close>)
qed (use assms in \<open>simp add: post_process_cluster_config_def\<close>)


text \<open>What is published is what a reader of the file gets, when every line survives the format.\<close>

lemma published_reads_back:
  assumes "config_candidate path p sets c gpu d0 = Inr e" "list_all clean_line (env_lines e)"
    "d path = Some f" "f_content f = render_env e"
  obtains e' where "load_env path d = Inr e'" "env_as_map e' = env_as_map e" "\<And>k. env_get e' k = env_get e k"
proof -
  have wf: "env_wf e"
    using config_candidate_InrD [OF assms(1)] by (auto simp: final_env_def run_stages_wf)
  have clean: "\<forall>l\<in>set (env_lines e). clean_line l" using assms(2) by (simp add: list_all_iff)
  obtain e' where "load_env path d = Inr e'" "env_lines e' = map canon_line (env_lines e)" "\<And>k. env_get e' k = env_get e k"
    using load_render [OF clean wf, of d path f] assms(3,4) by blast
  then show thesis by (intro that [of e']) (simp_all add: env_as_map_def)
qed

text \<open>A value with a newline in it does not: the lines after the newline are entries of their own for
  every reader, and the checks before the publication never saw them.\<close>

definition kv_line :: "string \<Rightarrow> string \<Rightarrow> env_line" where
  "kv_line k v = \<lparr>el_kind = LineKV, el_key = k, el_value = v, el_raw = k @ ''='' @ v\<rparr>"

lemma newline_smuggles_mode:
  assumes lines: "env_lines e = a @ kv_line k (v @ NL # ''MANAGEMENT_API_MODE=auto'') # b"
    and "\<forall>l\<in>set (a @ kv_line k v # b). clean_line l" "''MANAGEMENT_API_MODE'' \<notin> set (map fst (kv_pairs b))"
    and "d path = Some f" "f_content f = render_env e"
  shows "\<exists>e'. load_env path d = Inr e' \<and> env_as_map e' ''MANAGEMENT_API_MODE'' = Some ''auto''"
proof -
  let ?m = "kv_line ''MANAGEMENT_API_MODE'' ''auto''"
  define e2 where "e2 = \<lparr>env_path = path, env_lines = a @ kv_line k v # ?m # b,
    env_index = last_pos (a @ kv_line k v # ?m # b)\<rparr>"
  have same: "render_env e2 = render_env e"
    by (simp add: render_env_def e2_def lines kv_line_def render_line_def)
  have "clean_text ?m" by code_simp
  then have "clean_line ?m" by (simp add: clean_line_def kv_line_def render_line_def max_token_def)
  then have clean: "\<forall>l\<in>set (env_lines e2). clean_line l" using assms(2) by (auto simp: e2_def)
  obtain e' where e': "load_env path d = Inr e'" "env_lines e' = map canon_line (env_lines e2)"
    using load_render [OF clean, of d path f] assms(4,5) by (auto simp: e2_def env_wf_def same [unfolded e2_def])
  have "map_of (rev (kv_pairs b)) ''MANAGEMENT_API_MODE'' = None"
    using assms(3) by (simp add: map_of_eq_None_iff)
  then have "last_of (kv_pairs (a @ [kv_line k v]) @ (''MANAGEMENT_API_MODE'', ''auto'') # kv_pairs b) ''MANAGEMENT_API_MODE'' = Some ''auto''"
    by (simp only: last_of_def rev_append rev.simps map_of_append map_add_def append_assoc option.case) simp
  moreover have "kv_pairs (env_lines e2) = kv_pairs (a @ [kv_line k v]) @ (''MANAGEMENT_API_MODE'', ''auto'') # kv_pairs b"
    by (simp add: e2_def kv_line_def kv_pairs_def is_kv_def)
  ultimately show ?thesis using e' by (auto simp: env_as_map_def)
qed

section \<open>Properties\<close>

definition acceptable :: "durations \<Rightarrow> preset \<Rightarrow> env_map \<Rightarrow> bool" where
  "acceptable dur p m \<longleftrightarrow> validate_preset_values dur p m = [] \<and>
     (\<forall>v\<in>ran m. \<not> placeholder (trim_space v)) \<and> \<not> equal_fold (env_text m ''MANAGEMENT_API_MODE'') ''auto''"



text \<open>A preset default never wins over a value of the fleet.\<close>

lemma inherited_beats_default:
  assumes "merged_config p sets gpu = Inr m" "map_of sets k = None" "map_of (cp_inherited p) k = Some v" "map_of gpu k = None"
  shows "m k = Some v"
proof -
  obtain m0 where "m = m0 ++ map_of (inherited_values p sets) ++ map_of gpu"
    using assms(1) by (auto simp: merged_config_def and_then_Inr_iff)
  moreover have "map_of (inherited_values p sets) k = Some v"
    unfolding inherited_values_def using map_of_unset [of "\<lambda>k. map_of sets k = None" "cp_inherited p" k] assms(2,3) by simp
  ultimately show ?thesis using assms(4) by (simp add: map_add_def)
qed

lemma mode_stage_get: "env_wf e \<Longrightarrow> k \<noteq> ''MANAGEMENT_API_MODE'' \<Longrightarrow> env_get (run_stage e mode_writes) k = env_get e k"
  by (simp add: run_stage_def set_all_get mode_writes_def)

lemma last_stages_get:
  assumes "env_wf e" "k \<notin> {''METALLB_FLOATING_IP'', ''METALLB_INTERFACE'', ''KUBE_API_ARRIVAL_IP''}"
  shows "env_get (foldl run_stage e [metallb_writes l, arrival_writes]) k = env_get e k"
  using assms(1)
proof (rule run_stages_other)
  fix stage e'
  assume "stage \<in> set [metallb_writes l, arrival_writes]"
  then have "stage = metallb_writes l \<or> stage = arrival_writes" by simp
  then show "last_of (stage e') k = None"
    using assms(2)
    by (elim disjE) (simp_all add: metallb_writes_def dead_metallb_keys_def arrival_writes_def Let_def)
qed

text \<open>The file after the routes stage decides the switch; the stages after it leave it alone.\<close>

lemma final_env_routes:
  assumes "env_wf e0"
  obtains e3 e2 where "env_wf e2" "e3 = run_stage e2 (route_writes sets m c)"
    "\<And>k. k \<notin> {''MANAGEMENT_API_MODE'', ''METALLB_FLOATING_IP'', ''METALLB_INTERFACE'', ''KUBE_API_ARRIVAL_IP''}
      \<Longrightarrow> env_of (final_env p sets c gpu m e0) k = env_of e3 k"
    "env_of (final_env p sets c gpu m e0) ''MANAGEMENT_API_MODE'' = env_of (run_stage e3 mode_writes) ''MANAGEMENT_API_MODE''"
    "''MANAGEMENT_API_MODE'' \<in> set (merged_keys p sets gpu m) \<Longrightarrow>
      env_of e3 ''MANAGEMENT_API_MODE'' = env_at m ''MANAGEMENT_API_MODE''"
proof -
  define e2 where "e2 = foldl run_stage e0 [\<lambda>_. merged_writes (merged_keys p sets gpu m) m, \<lambda>_. ovn_writes sets m]"
  define e3 where "e3 = run_stage e2 (route_writes sets m c)"
  have wf: "env_wf e2" "env_wf e3" "env_wf (run_stage e3 mode_writes)"
    by (simp_all add: e2_def e3_def run_stages_wf assms run_stage_def set_all_wf)
  have fin: "final_env p sets c gpu m e0 =
      foldl run_stage (run_stage e3 mode_writes) [metallb_writes (cp_address_layer p), arrival_writes]"
    by (simp add: e2_def e3_def final_env_def config_stages_def)
  show thesis
  proof (rule that [OF wf(1) e3_def])
    show "env_of (final_env p sets c gpu m e0) k = env_of e3 k"
      if "k \<notin> {''MANAGEMENT_API_MODE'', ''METALLB_FLOATING_IP'', ''METALLB_INTERFACE'', ''KUBE_API_ARRIVAL_IP''}" for k
      using that last_stages_get [OF wf(3), of k] mode_stage_get [OF wf(2), of k] by (simp add: fin env_of_def)
    show "env_of (final_env p sets c gpu m e0) ''MANAGEMENT_API_MODE'' = env_of (run_stage e3 mode_writes) ''MANAGEMENT_API_MODE''"
      using last_stages_get [OF wf(3), of "''MANAGEMENT_API_MODE''"] by (simp add: fin env_of_def)
    show "env_of e3 ''MANAGEMENT_API_MODE'' = env_at m ''MANAGEMENT_API_MODE''"
      if "''MANAGEMENT_API_MODE'' \<in> set (merged_keys p sets gpu m)"
      using that assms by (simp add: e3_def e2_def run_stage_def set_all_get set_all_wf last_of_merged_writes
          ovn_writes_def route_writes_def Let_def env_of_def)
  qed
qed

text \<open>C38. Tenant networking is configured whole or not at all, and the management API follows it.
  Unless the operator fixed the routes, and whatever the requested mode, the file either switches the
  attachment on together with a node network that heads its routes, which is the detected one when there
  is one, or switches it off and leaves both blank.  And when the mode requested is auto, it becomes the
  service mode exactly when, in that same file, the attachment is on and the service address is a
  canonical one inside the service network, and the external mode otherwise.\<close>

theorem tenant_network_coherent:
  assumes "config_candidate path p sets c gpu d = Inr e" "merged_config p sets gpu = Inr m"
    "map_of sets ''INFRA_ATTACHMENT_ROUTES'' = None"
  shows "(if env_of e ''NODE_CIDR'' = []
       then env_of e ''INFRA_ATTACHMENT_ROUTES'' = [] \<and> env_of e ''INFRA_ATTACHMENT_ENABLED'' = ''false''
       else env_of e ''INFRA_ATTACHMENT_ROUTES'' =
           join '','' [env_of e ''NODE_CIDR'', env_at m ''JOIN_CIDR'', env_at m ''POD_CIDR'']
         \<and> env_of e ''INFRA_ATTACHMENT_ENABLED'' = ''true'')
    \<and> (c \<noteq> [] \<longrightarrow> env_of e ''NODE_CIDR'' = c)
    \<and> (equal_fold (env_text m ''MANAGEMENT_API_MODE'') ''auto'' \<longrightarrow> env_of e ''MANAGEMENT_API_MODE'' =
       (if env_of e ''INFRA_ATTACHMENT_ENABLED'' = ''true''
          \<and> service_mode_viable (env_of e ''K8S_SERVICE_IP'') (env_of e ''SVC_CIDR'')
        then ''service'' else ''external''))"
proof -
  obtain e0 where e0: "env_wf e0" and e: "e = final_env p sets c gpu m e0"
    using config_candidate_InrD [OF assms(1)] assms(2) by auto
  obtain e3 e2 where wf: "env_wf e2" and e3: "e3 = run_stage e2 (route_writes sets m c)"
    and keep: "\<And>k. k \<notin> {''MANAGEMENT_API_MODE'', ''METALLB_FLOATING_IP'', ''METALLB_INTERFACE'', ''KUBE_API_ARRIVAL_IP''}
      \<Longrightarrow> env_of e k = env_of e3 k"
    and mode: "env_of e ''MANAGEMENT_API_MODE'' = env_of (run_stage e3 mode_writes) ''MANAGEMENT_API_MODE''"
    and was: "''MANAGEMENT_API_MODE'' \<in> set (merged_keys p sets gpu m) \<Longrightarrow>
      env_of e3 ''MANAGEMENT_API_MODE'' = env_at m ''MANAGEMENT_API_MODE''"
    unfolding e using final_env_routes [OF e0] by metis
  have asked: "env_of e3 ''MANAGEMENT_API_MODE'' = env_at m ''MANAGEMENT_API_MODE''"
    if auto: "equal_fold (env_text m ''MANAGEMENT_API_MODE'') ''auto''"
  proof -
    have "m ''MANAGEMENT_API_MODE'' \<noteq> None"
    proof
      assume "m ''MANAGEMENT_API_MODE'' = None"
      then have "env_text m ''MANAGEMENT_API_MODE'' = []" by (simp add: env_text_def env_at_def)
      with auto show False by (simp add: equal_fold_def)
    qed
    then show ?thesis using merged_keys_set [OF assms(2)] was by blast
  qed
  have detected: "c \<noteq> [] \<longrightarrow> env_of e3 ''NODE_CIDR'' = c"
    using wf assms(3) by (simp add: e3 run_stage_def set_all_get route_writes_def Let_def env_of_def)
  have switch: "if env_of e3 ''NODE_CIDR'' = []
       then env_of e3 ''INFRA_ATTACHMENT_ROUTES'' = [] \<and> env_of e3 ''INFRA_ATTACHMENT_ENABLED'' = ''false''
       else env_of e3 ''INFRA_ATTACHMENT_ROUTES'' =
           join '','' [env_of e3 ''NODE_CIDR'', env_at m ''JOIN_CIDR'', env_at m ''POD_CIDR'']
         \<and> env_of e3 ''INFRA_ATTACHMENT_ENABLED'' = ''true''"
    using wf assms(3) by (simp add: e3 run_stage_def set_all_get route_writes_def Let_def env_of_def)
  have "trim_space ''true'' = ''true''" "trim_space ''false'' = ''false''" by code_simp+
  with switch have "trim_space (env_of e3 ''INFRA_ATTACHMENT_ENABLED'') = ''true'' \<longleftrightarrow>
      env_of e3 ''INFRA_ATTACHMENT_ENABLED'' = ''true''"
    by (auto split: if_splits)
  moreover have "env_wf e3" using wf by (simp add: e3 run_stage_def set_all_wf)
  ultimately have "env_of (run_stage e3 mode_writes) ''MANAGEMENT_API_MODE'' =
       (if env_of e3 ''INFRA_ATTACHMENT_ENABLED'' = ''true''
          \<and> service_mode_viable (env_of e3 ''K8S_SERVICE_IP'') (env_of e3 ''SVC_CIDR'')
        then ''service'' else ''external'')"
    if "equal_fold (env_text m ''MANAGEMENT_API_MODE'') ''auto''"
    using asked [OF that] that
    by (simp add: run_stage_def set_all_get mode_writes_def env_text_def env_of_def)
  with switch detected show ?thesis by (simp add: keep mode)
qed

text \<open>A comment says that an operator's \<open>--set\<close> always wins here, but only the routes are looked for
  among the overrides: whatever the operator set for the switch or the node network, a detected
  network is published over it, with the attachment on.\<close>

lemma attachment_switch_forced:
  assumes "env_wf e0" "map_of sets ''INFRA_ATTACHMENT_ROUTES'' = None" "c \<noteq> []"
  shows "env_of (final_env p sets c gpu m e0) ''INFRA_ATTACHMENT_ENABLED'' = ''true'' \<and>
    env_of (final_env p sets c gpu m e0) ''NODE_CIDR'' = c"
proof -
  obtain e3 e2 where wf: "env_wf e2" and e3: "e3 = run_stage e2 (route_writes sets m c)"
    and keep: "\<And>k. k \<notin> {''MANAGEMENT_API_MODE'', ''METALLB_FLOATING_IP'', ''METALLB_INTERFACE'', ''KUBE_API_ARRIVAL_IP''}
      \<Longrightarrow> env_of (final_env p sets c gpu m e0) k = env_of e3 k"
    using final_env_routes [OF assms(1)] by metis
  have "env_of e3 ''INFRA_ATTACHMENT_ENABLED'' = ''true'' \<and> env_of e3 ''NODE_CIDR'' = c"
    using wf assms(2,3) by (simp add: e3 run_stage_def set_all_get route_writes_def Let_def env_of_def)
  then show ?thesis by (simp add: keep)
qed

section \<open>A concrete run\<close>

definition demo_config_sets :: "(string \<times> string) list" where
  "demo_config_sets = [(''SVC_CIDR'', ''10.1.0.0/16''), (''K8S_SERVICE_IP'', ''10.1.0.1''),
     (''MANAGEMENT_API_MODE'', ''auto''), (''INGRESS_NODE_LABEL'', ''a/b''),
     (''POD_CIDR'', ''10.2.0.0/16''), (''JOIN_CIDR'', ''172.30.0.0/22'')]"

definition demo_config_plan :: config_plan where
  "demo_config_plan = \<lparr>cp_preset = Custom_Preset, cp_address_layer = ''none'', cp_host_cidr = [],
     cp_ingress_nodes = [''n1''], cp_inherited = [(''VER'', ''v1'')]\<rparr>"

definition demo_config_disk :: fs where
  "demo_config_disk = [''c.env'' \<mapsto> \<lparr>f_content = ''# n'' @ [NL] @ ''METALLB_INTERFACE=CHANGEME'' @ [NL], f_mode = 420\<rparr>]"

definition demo_config_loaded :: env where
  "demo_config_loaded = load_lines \<lparr>env_path = ''c.env'', env_lines = [], env_index = Map.empty\<rparr>
     [''# n'', ''METALLB_INTERFACE=CHANGEME'']"

definition demo_final :: "(string \<times> string) list \<Rightarrow> string \<Rightarrow> env" where
  "demo_final sets cidr =
     (let gpu = gpu_config_env demo_init in
      final_env demo_config_plan sets cidr gpu (projr (merged_config demo_config_plan sets gpu)) demo_config_loaded)"

lemma demo_config_preset: "cp_preset demo_config_plan = Custom_Preset"
  by (simp add: demo_config_plan_def)

lemma demo_config_load: "load_env ''c.env'' demo_config_disk = Inr demo_config_loaded"
proof -
  have "raw_lines (''# n'' @ [NL] @ ''METALLB_INTERFACE=CHANGEME'' @ [NL]) = [''# n'', ''METALLB_INTERFACE=CHANGEME'']"
    by code_simp
  then have "scan_lines (''# n'' @ [NL] @ ''METALLB_INTERFACE=CHANGEME'' @ [NL]) = Inr [''# n'', ''METALLB_INTERFACE=CHANGEME'']"
    by (simp add: scan_lines_def max_token_def drop_cr_def)
  then show ?thesis by (simp add: load_env_def demo_config_disk_def demo_config_loaded_def)
qed

lemma demo_candidate:
  assumes "\<not> isl (merged_config demo_config_plan sets (gpu_config_env demo_init))"
  shows "config_candidate ''c.env'' demo_config_plan sets cidr (gpu_config_env demo_init) demo_config_disk
    = Inr (demo_final sets cidr)"
  using assms by (cases "merged_config demo_config_plan sets (gpu_config_env demo_init)")
    (simp_all add: config_candidate_def demo_config_load demo_final_def)

lemma demo_config_merges: "\<not> isl (merged_config demo_config_plan demo_config_sets (gpu_config_env demo_init))"
  by code_simp

definition demo_published :: "(string \<times> string) list" where
  "demo_published = [(''METALLB_INTERFACE'', []), (''ENVOY_REPLICAS'', ''1''),
      (''GPU_BILLING_ELIGIBLE'', ''false''),
      (''GPU_CATALOG_ENABLED'', ''false''),
      (''GPU_DRIVER_SOURCE'', ''gpu-operator''), (''GPU_ENABLED'', ''true''),
      (''GPU_NODE_MODES'', ''g1=pod-hami,g2=vm-passthrough''),
      (''GPU_OPERATOR_VERSION'', ''v26.3.3''),
      (''GPU_PROFILES'', ''a100-hami,a100-passthrough''),
      (''GPU_SHARED_CREATION_ENABLED'', ''false''),
      (''GPU_VM_CREATION_ENABLED'', ''false''), (''HAMI_ENABLED'', ''true''),
      (''HAMI_KUBE_SCHEDULER_VERSION'', ''v1.35.3''),
      (''HAMI_VERSION'', ''2.9.0''), (''INGRESS_ADDRESS_LAYER'', ''none''),
      (''INGRESS_NODE_LABEL'', ''a/b''), (''JOIN_CIDR'', ''172.30.0.0/22''),
      (''K8S_SERVICE_IP'', ''10.1.0.1''),
      (''MANAGEMENT_API_MODE'', ''service''),
      (''NVIDIA_DRIVER_VERSION'', ''580.126.20''),
      (''NVIDIA_TOOLKIT_VERSION'', ''v1.19.1''),
      (''POD_CIDR'', ''10.2.0.0/16''), (''SVC_CIDR'', ''10.1.0.0/16''),
      (''VER'', ''v1''), (''NODE_CIDR'', ''192.168.1.0/24''),
      (''INFRA_ATTACHMENT_ROUTES'',
       ''192.168.1.0/24,172.30.0.0/22,10.2.0.0/16''),
      (''INFRA_ATTACHMENT_ENABLED'', ''true'')]"

lemma demo_published_pairs: "kv_pairs (env_lines (demo_final demo_config_sets ''192.168.1.0/24'')) = demo_published"
  by code_simp

lemma demo_config_checks: "final_check (\<lambda>_. None) Custom_Preset (demo_final demo_config_sets ''192.168.1.0/24'') = None"
proof -
  have "validate_preset_values (\<lambda>_. None) Custom_Preset (last_of demo_published) = []"
    by code_simp
  moreover have "\<not> list_ex (\<lambda>k. placeholder (env_text (last_of demo_published) k)) (map fst demo_published)"
    "\<not> equal_fold (env_text (last_of demo_published) ''MANAGEMENT_API_MODE'') ''auto''"
    by code_simp+
  moreover have "map fst (kv_pairs ls) = map el_key (filter is_kv ls)" for ls
    by (simp add: kv_pairs_def)
  ultimately show ?thesis
    by (simp only: final_check_def env_as_map_def env_keys_def demo_published_pairs Let_def if_False simp_thms) 
      (metis demo_published_pairs)
qed

definition demo_config_io :: io_plan where
  "demo_config_io = \<lparr>io_fault = NoFault, io_rnd = ''1'', io_remove_ok = True\<rparr>"

lemma demo_config_fresh: "env_tmp demo_config_io ''c.env'' \<notin> dom demo_config_disk"
  using env_tmp_longer [of "''c.env''" demo_config_io] by (auto simp: demo_config_disk_def)

definition demo_config_run :: "config_error option \<times> fs" where
  "demo_config_run = post_process_cluster_config (\<lambda>_. None) demo_config_io ''c.env'' demo_config_plan
     demo_config_sets ''192.168.1.0/24'' (gpu_config_env demo_init) demo_config_disk"

lemma demo_config_succeeds: "demo_config_run = (None, snd demo_config_run)"
proof -
  have "env_path (demo_final demo_config_sets ''192.168.1.0/24'') = ''c.env''"
    using config_candidate_InrD [OF demo_candidate [OF demo_config_merges]] by blast
  then have "fst demo_config_run = None"
    by (simp add: demo_config_run_def post_process_cluster_config_def demo_candidate [OF demo_config_merges]
        demo_config_preset demo_config_checks env_write_def write_content_def demo_config_io_def Let_def)
  then show ?thesis by (metis prod.collapse)
qed

lemma demo_config_clean: "list_all clean_line (env_lines (demo_final demo_config_sets ''192.168.1.0/24''))"
proof -
  let ?ls = "env_lines (demo_final demo_config_sets ''192.168.1.0/24'')"
  have "list_all clean_text ?ls" by code_simp
  moreover have "list_all (\<lambda>l. length (render_line l) < 100) ?ls" by code_simp
  ultimately show ?thesis by (auto simp: list_all_iff clean_line_def max_token_def)
qed



theorem tenant_network_coherent_witness:
  "env_of (demo_final demo_config_sets ''192.168.1.0/24'') ''MANAGEMENT_API_MODE'' = ''service''"
proof -
  let ?gpu = "gpu_config_env demo_init" and ?e = "demo_final demo_config_sets ''192.168.1.0/24''"
  obtain m where m: "merged_config demo_config_plan demo_config_sets ?gpu = Inr m"
    using demo_config_merges by (cases "merged_config demo_config_plan demo_config_sets ?gpu") auto
  have e: "?e = final_env demo_config_plan demo_config_sets ''192.168.1.0/24'' ?gpu m demo_config_loaded"
    by (simp add: demo_final_def m)
  have wf: "env_wf demo_config_loaded" by (rule load_env_wf [OF demo_config_load])
  have routes: "map_of demo_config_sets ''INFRA_ATTACHMENT_ROUTES'' = None" by code_simp
  have "env_get ?e k = Some v" if "(k, v) \<in> {(''K8S_SERVICE_IP'', ''10.1.0.1''), (''SVC_CIDR'', ''10.1.0.0/16'')}" for k v
    unfolding e
  proof (rule final_env_asked [OF wf m])
    have all: "list_all (\<lambda>(k, v). asked_value demo_config_plan demo_config_sets k = Some v \<and> trim_space v \<noteq> [] \<and>
        \<not> placeholder (trim_space v) \<and> k \<notin> set (decided_keys demo_config_sets) \<and> k \<notin> set gpu_keys)
        [(''K8S_SERVICE_IP'', ''10.1.0.1''), (''SVC_CIDR'', ''10.1.0.0/16'')]"
      by code_simp
    show "asked_value demo_config_plan demo_config_sets k = Some v" "trim_space v \<noteq> []"
      "\<not> placeholder (trim_space v)" "k \<notin> set (decided_keys demo_config_sets)" "k \<notin> set gpu_keys"
      using bspec [OF iffD1 [OF list_all_iff all], of "(k, v)"] that by (simp_all only: list.set prod.case simp_thms)
  qed
  then have "service_mode_viable (env_of ?e ''K8S_SERVICE_IP'') (env_of ?e ''SVC_CIDR'')
      = service_mode_viable ''10.1.0.1'' ''10.1.0.0/16''"
    by (simp add: env_of_def)
  moreover have "service_mode_viable ''10.1.0.1'' ''10.1.0.0/16''" by code_simp
  moreover have "equal_fold (env_text (projr (merged_config demo_config_plan demo_config_sets ?gpu)) ''MANAGEMENT_API_MODE'') ''auto''"
    by code_simp
  moreover have "env_of ?e ''INFRA_ATTACHMENT_ENABLED'' = ''true''"
    unfolding e using attachment_switch_forced [OF wf routes] by simp
  ultimately show ?thesis
    using tenant_network_coherent [OF demo_candidate [OF demo_config_merges] m routes] m by simp
qed

text \<open>\<open>auto\<close> is meant to become \<open>service\<close> only where the manager would accept it.  On a node
  network that covers the service address it passes for viable, and the gate then refuses the
  file, where \<open>external\<close> would have been accepted.\<close>

definition covering_network :: env_map where
  "covering_network = map_of [(''INFRA_ATTACHMENT_ENABLED'', ''true''), (''K8S_SERVICE_IP'', ''10.1.0.1''),
     (''SVC_CIDR'', ''10.1.0.0/16''), (''INFRA_ATTACHMENT_ROUTES'', ''10.0.0.0/8,172.30.0.0/22,10.2.0.0/16'')]"

lemma auto_refused_on_covering_network:
  "service_mode_viable ''10.1.0.1'' ''10.1.0.0/16''"
  "validate_management_api (covering_network(''MANAGEMENT_API_MODE'' \<mapsto> ''service'')) \<noteq> []"
  "validate_management_api (covering_network(''MANAGEMENT_API_MODE'' \<mapsto> ''external'')) = []"
  by code_simp+

end
