(* ===== verification/Gpu_Upgrade.thy ===== *)
theory Gpu_Upgrade
  imports Init_Options "HOL-Library.Product_Lexorder"
begin

text \<open>
  The qualification gate of a GPU host upgrade
  (\<open>cli/internal/bootstrap/gpuupgrade/gate.go\<close>): the record of a canary, the requested change of
  the kernel, the Kubernetes release and the driver stack, and \<open>Check\<close>, which lets the change
  through or names everything that is wrong.  The parser of RFC 3339 times is a parameter (a time
  is a number of nanoseconds), as is the clock; the decoding of the record's YAML is not modelled,
  nor are the texts of the messages.
\<close>

section \<open>Records\<close>

record target =
  tg_kernel :: string
  tg_rke2 :: string
  tg_driver :: string
  tg_operator :: string
  tg_exporter :: string

record canary =
  cn_completed_at :: string
  cn_allocation :: bool
  cn_monitoring :: bool
  cn_rollback :: bool
  cn_evidence :: string

record qualification =
  ql_api_version :: string
  ql_kind :: string
  ql_id :: string
  ql_state :: string
  ql_approved_by :: string
  ql_revision :: string
  ql_hardware :: "string list"
  ql_target :: target
  ql_canary :: canary

text \<open>The zero time of \<open>Now\<close>, for which the gate reads the clock, is \<open>None\<close>.\<close>

record request =
  rq_current :: target
  rq_target :: target
  rq_hardware :: "string list"
  rq_now :: "int option"
  rq_max_age :: int

record result =
  rs_id :: string
  rs_completed :: int
  rs_revision :: string
  rs_approved_by :: string

section \<open>Regular expressions\<close>

definition lower_hex :: "char \<Rightarrow> bool" where
  "lower_hex c \<longleftrightarrow> c \<in> set ''0123456789abcdef''"

definition id_regex :: "string \<Rightarrow> bool" where
  "id_regex s \<longleftrightarrow> slug {CHR ''.'', CHR ''-''} s"

definition revision_regex :: "string \<Rightarrow> bool" where
  "revision_regex s \<longleftrightarrow> length s = 40 \<and> list_all (\<lambda>c. lower_hex c \<or> c \<in> set ''ABCDEF'') s"

definition pci_regex :: "string \<Rightarrow> bool" where
  "pci_regex s \<longleftrightarrow> length s = 19 \<and> s ! 4 = CHR '':'' \<and> s ! 9 = CHR ''/'' \<and> s ! 14 = CHR '':''
     \<and> list_all lower_hex (take 4 s @ take 4 (drop 5 s) @ take 4 (drop 10 s) @ drop 15 s)"

definition digits :: "string \<Rightarrow> bool" where
  "digits s \<longleftrightarrow> s \<noteq> [] \<and> list_all re_digit s"

text \<open>\<open>v?1.MINOR.PATCH+rke2rREV\<close> with its three groups.\<close>

definition rke2_groups :: "string \<Rightarrow> (string \<times> string \<times> string) option" where
  "rke2_groups s =
     (let s' = trim_prefix s ''v'' in
      if \<not> has_prefix s' ''1.'' then None
      else (case cut (CHR ''.'') (drop 2 s') of
          None \<Rightarrow> None
        | Some (a, r) \<Rightarrow> (case cut (CHR ''+'') r of
            None \<Rightarrow> None
          | Some (b, r') \<Rightarrow>
              if has_prefix r' ''rke2r'' \<and> digits a \<and> digits b \<and> digits (drop 5 r')
              then Some (a, b, drop 5 r') else None)))"

text \<open>\<open>strconv.Atoi\<close> with its error ignored: a number out of range is the largest one.\<close>

definition atoi_saturating :: "string \<Rightarrow> int" where
  "atoi_saturating s = (case atoi s of Some n \<Rightarrow> n | None \<Rightarrow> 2 ^ 63 - 1)"

definition rke2_version :: "string \<Rightarrow> (int \<times> int \<times> int) option" where
  "rke2_version s = map_option
     (\<lambda>(a, b, r). (atoi_saturating a, atoi_saturating b, atoi_saturating r)) (rke2_groups s)"

section \<open>The checks\<close>

datatype hardware_fault = Not_Pci string | Duplicated string | No_Hardware

datatype upgrade_problem =
    Not_A_Record | Bad_Id | Not_Qualified | No_Approver | Bad_Revision
  | Requested_Hardware hardware_fault | Recorded_Hardware hardware_fault | Hardware_Mismatch
  | Field_Missing string | Field_Unqualified string | Nothing_Changes
  | Bad_Version | Downgrade | Skips_Minor
  | Bad_Time | In_Future | Too_Old | Canary_Incomplete | No_Evidence

abbreviation problem_if :: "'p \<Rightarrow> bool \<Rightarrow> 'p list" where
  "problem_if p b \<equiv> if b then [p] else []"

definition canonical_pci :: "string \<Rightarrow> string" where
  "canonical_pci raw = lower_text (trim_space raw)"

definition hardware_step ::
  "string list \<times> hardware_fault list \<Rightarrow> string \<Rightarrow> string list \<times> hardware_fault list" where
  "hardware_step st raw = (case st of (out, ps) \<Rightarrow>
     (let v = canonical_pci raw in
      if \<not> pci_regex v then (out, ps @ [Not_Pci raw])
      else if v \<in> set out then (out, ps @ [Duplicated raw])
      else (out @ [v], ps)))"

definition canonical_hardware :: "string list \<Rightarrow> string list \<times> hardware_fault list" where
  "canonical_hardware vs = (case foldl hardware_step ([], []) vs of
     (out, ps) \<Rightarrow> (sort out, ps @ problem_if No_Hardware (out = [])))"

definition validate_rke2_step :: "string \<Rightarrow> string \<Rightarrow> upgrade_problem option" where
  "validate_rke2_step current target =
     (case (rke2_version current, rke2_version target) of
        (Some (c0, c1, c2), Some (t0, t1, t2)) \<Rightarrow>
          if t0 < c0 \<or> (t0 = c0 \<and> t1 < c1) \<or> (t0 = c0 \<and> t1 = c1 \<and> t2 < c2) then Some Downgrade
          else if 1 < t0 - c0 then Some Skips_Minor else None
      | _ \<Rightarrow> Some Bad_Version)"

definition target_fields :: "(string \<times> (target \<Rightarrow> string)) list" where
  "target_fields = [(''kernel'', tg_kernel), (''rke2'', tg_rke2), (''driver'', tg_driver),
     (''gpuOperator'', tg_operator), (''dcgmExporter'', tg_exporter)]"

definition field_problems :: "qualification \<Rightarrow> request \<Rightarrow> upgrade_problem list" where
  "field_problems q rq = concat (map (\<lambda>(name, field).
       problem_if (Field_Missing name)
         (trim_space (field (rq_current rq)) = [] \<or> trim_space (field (rq_target rq)) = [])
       @ problem_if (Field_Unqualified name) (field (rq_target rq) \<noteq> field (ql_target q)))
     target_fields)"

text \<open>Times and durations: a subtraction of times saturates at 64 bits.\<close>

definition minute :: int where
  "minute = 60 * 1000000000"

definition default_max_age :: int where
  "default_max_age = 30 * 24 * 60 * minute"

definition sub_times :: "int \<Rightarrow> int \<Rightarrow> int" where
  "sub_times a b = max (- (2 ^ 63)) (min (2 ^ 63 - 1) (a - b))"

definition max_age :: "request \<Rightarrow> int" where
  "max_age rq = (if rq_max_age rq \<le> 0 then default_max_age else rq_max_age rq)"

definition now_of :: "int \<Rightarrow> request \<Rightarrow> int" where
  "now_of clock rq = (case rq_now rq of Some n \<Rightarrow> n | None \<Rightarrow> clock)"

definition time_problems :: "(string \<Rightarrow> int option) \<Rightarrow> int \<Rightarrow> qualification \<Rightarrow> request \<Rightarrow> upgrade_problem list" where
  "time_problems rfc3339 clock q rq =
     (case rfc3339 (cn_completed_at (ql_canary q)) of
        None \<Rightarrow> [Bad_Time]
      | Some t \<Rightarrow>
          if now_of clock rq + 5 * minute < t then [In_Future]
          else problem_if Too_Old (max_age rq < sub_times (now_of clock rq) t))"

definition record_problems :: "qualification \<Rightarrow> upgrade_problem list" where
  "record_problems q =
     problem_if Not_A_Record (ql_api_version q \<noteq> ''kube-dc.io/v1alpha1'' \<or> ql_kind q \<noteq> ''GPUUpgradeQualification'')
     @ problem_if Bad_Id (\<not> id_regex (ql_id q))
     @ problem_if Not_Qualified (ql_state q \<noteq> ''qualified'')
     @ problem_if No_Approver (trim_space (ql_approved_by q) = [])
     @ problem_if Bad_Revision (\<not> revision_regex (ql_revision q))"

definition hardware_problems :: "qualification \<Rightarrow> request \<Rightarrow> upgrade_problem list" where
  "hardware_problems q rq =
     (let (want, es) = canonical_hardware (rq_hardware rq);
          (got, fs) = canonical_hardware (ql_hardware q) in
      map Requested_Hardware es @ map Recorded_Hardware fs
      @ problem_if Hardware_Mismatch (want \<noteq> [] \<and> join '','' want \<noteq> join '','' got))"

definition canary_problems :: "canary \<Rightarrow> upgrade_problem list" where
  "canary_problems c =
     problem_if Canary_Incomplete (\<not> cn_allocation c \<or> \<not> cn_monitoring c \<or> \<not> cn_rollback c)
     @ problem_if No_Evidence (trim_space (cn_evidence c) = [])"

definition check_upgrade ::
  "(string \<Rightarrow> int option) \<Rightarrow> int \<Rightarrow> qualification \<Rightarrow> request \<Rightarrow> upgrade_problem list + result" where
  "check_upgrade rfc3339 clock q rq =
     (let ps = record_problems q @ hardware_problems q rq @ field_problems q rq
            @ problem_if Nothing_Changes (rq_current rq = rq_target rq)
            @ (case validate_rke2_step (tg_rke2 (rq_current rq)) (tg_rke2 (rq_target rq)) of
                None \<Rightarrow> [] | Some p \<Rightarrow> [p])
            @ time_problems rfc3339 clock q rq @ canary_problems (ql_canary q) in
      if ps \<noteq> [] then Inl ps
      else Inr \<lparr>rs_id = ql_id q,
        rs_completed = (case rfc3339 (cn_completed_at (ql_canary q)) of Some t \<Rightarrow> t | None \<Rightarrow> 0),
        rs_revision = lower_text (ql_revision q), rs_approved_by = ql_approved_by q\<rparr>)"

section \<open>Hardware identities\<close>

lemma hardware_fold:
  "foldl hardware_step (out, ps) vs = (out', ps') \<Longrightarrow>
     \<exists>es. ps' = ps @ es \<and>
       (es = [] \<longleftrightarrow> list_all pci_regex (map canonical_pci vs) \<and> distinct (map canonical_pci vs)
          \<and> set (map canonical_pci vs) \<inter> set out = {}) \<and>
       (es = [] \<longrightarrow> out' = out @ map canonical_pci vs)"
proof (induction vs arbitrary: out ps)
  case (Cons v vs)
  let ?c = "canonical_pci v"
  show ?case
  proof (cases "pci_regex ?c \<and> ?c \<notin> set out")
    case True
    then have "hardware_step (out, ps) v = (out @ [?c], ps)" by (simp add: hardware_step_def Let_def)
    then have "foldl hardware_step (out @ [?c], ps) vs = (out', ps')" using Cons.prems by simp
    from Cons.IH [OF this] show ?thesis using True by auto
  next
    case False
    then obtain p where "hardware_step (out, ps) v = (out, ps @ [p])"
      by (cases "pci_regex ?c") (auto simp: hardware_step_def Let_def)
    then have "foldl hardware_step (out, ps @ [p]) vs = (out', ps')" using Cons.prems by simp
    from Cons.IH [OF this] obtain es where "ps' = ps @ (p # es)" by auto
    then show ?thesis using False by auto
  qed
qed simp

lemma canonical_hardware_clean:
  "canonical_hardware vs = (out, []) \<longleftrightarrow>
     vs \<noteq> [] \<and> list_all pci_regex (map canonical_pci vs) \<and> distinct (map canonical_pci vs)
     \<and> out = sort (map canonical_pci vs)"
proof -
  obtain out' ps' where f: "foldl hardware_step ([], []) vs = (out', ps')" by fastforce
  from hardware_fold [OF f] show ?thesis
    by (auto simp: canonical_hardware_def f)
qed

lemma pci_no_comma: "pci_regex s \<Longrightarrow> CHR '','' \<notin> set s \<and> s \<noteq> []"
proof -
  assume s: "pci_regex s"
  have split: "s = take 4 s @ s ! 4 # take 4 (drop 5 s) @ s ! 9 # take 4 (drop 10 s) @ s ! 14 # drop 15 s"
  proof -
    have "length s = 19" using s by (simp add: pci_regex_def)
    then show ?thesis
      by (intro nth_equalityI)
        (auto simp: nth_append nth_Cons' min_def intro!: arg_cong [where f = "(!) s"])
  qed
  have "\<not> lower_hex (CHR '','')" by code_simp
  then have "CHR '','' \<notin> set (take 4 s @ take 4 (drop 5 s) @ take 4 (drop 10 s) @ drop 15 s)"
    using s by (fastforce simp: pci_regex_def list_all_iff)
  then have "CHR '','' \<notin> set (take 4 s @ s ! 4 # take 4 (drop 5 s) @ s ! 9 # take 4 (drop 10 s) @ s ! 14 # drop 15 s)"
    using s by (simp add: pci_regex_def)
  then show ?thesis using split s by (auto simp: pci_regex_def)
qed


lemma split_on_join:
  "xs \<noteq> [] \<Longrightarrow> \<forall>x\<in>set xs. c \<notin> set x \<Longrightarrow> split_on c (join [c] xs) = xs"
proof (induction xs)
  case (Cons x xs)
  then show ?case
    by (cases "xs = []") (simp_all add: join_Cons split_on_append split_on_id)
qed simp

lemma join_inj:
  assumes "\<forall>x\<in>set xs. c \<notin> set x" "\<forall>y\<in>set ys. c \<notin> set y" "xs \<noteq> []" "ys \<noteq> []"
  shows "join [c] xs = join [c] ys \<longleftrightarrow> xs = ys"
  using split_on_join [of xs c] split_on_join [of ys c] assms by metis

text \<open>Two lists name the same hardware when both are proper lists of identities, without
  repetition, and name the same identities in whatever order and spelling.\<close>

definition same_hardware :: "string list \<Rightarrow> string list \<Rightarrow> bool" where
  "same_hardware vs ws \<longleftrightarrow> vs \<noteq> [] \<and> list_all pci_regex (map canonical_pci (vs @ ws))
     \<and> distinct (map canonical_pci vs) \<and> distinct (map canonical_pci ws)
     \<and> set (map canonical_pci vs) = set (map canonical_pci ws)"

lemma sort_set_eq: "distinct xs \<Longrightarrow> distinct ys \<Longrightarrow> sort xs = sort ys \<longleftrightarrow> set xs = set (ys :: 'a :: linorder list)"
  by (metis distinct_sort set_sort sorted_distinct_set_unique sorted_sort)

lemma hardware_problems_Nil: "hardware_problems q rq = [] \<longleftrightarrow> same_hardware (rq_hardware rq) (ql_hardware q)"
proof -
  obtain want es where w: "canonical_hardware (rq_hardware rq) = (want, es)" by fastforce
  obtain got fs where g: "canonical_hardware (ql_hardware q) = (got, fs)" by fastforce
  let ?vs = "map canonical_pci (rq_hardware rq)" and ?ws = "map canonical_pci (ql_hardware q)"
  have probs: "hardware_problems q rq = [] \<longleftrightarrow> es = [] \<and> fs = [] \<and> (want = [] \<or> join '','' want = join '','' got)"
    by (simp add: hardware_problems_def w g)
  have clean: "es = [] \<longleftrightarrow> ?vs \<noteq> [] \<and> list_all pci_regex ?vs \<and> distinct ?vs"
    "fs = [] \<longleftrightarrow> ?ws \<noteq> [] \<and> list_all pci_regex ?ws \<and> distinct ?ws"
    "es = [] \<Longrightarrow> want = sort ?vs" "fs = [] \<Longrightarrow> got = sort ?ws"
    using canonical_hardware_clean [of "rq_hardware rq" want] canonical_hardware_clean [of "ql_hardware q" got]
      canonical_hardware_clean [of "rq_hardware rq" "sort ?vs"] canonical_hardware_clean [of "ql_hardware q" "sort ?ws"] w g
    by auto
  show ?thesis
  proof (cases "es = [] \<and> fs = []")
    case True
    have "\<forall>x\<in>set ?vs. CHR '','' \<notin> set x" "\<forall>x\<in>set ?ws. CHR '','' \<notin> set x"
      using clean(1,2) True pci_no_comma by (auto simp: list_all_iff)
    moreover have e: "want = sort ?vs" "got = sort ?ws" using True clean(3,4) by simp_all
    moreover have ne: "sort ?vs \<noteq> []" "sort ?ws \<noteq> []"
      using True clean(1,2) by (metis length_0_conv length_sort)+
    ultimately have "join '','' want = join '','' got \<longleftrightarrow> sort ?vs = sort ?ws"
      unfolding e by (intro join_inj) simp_all
    moreover have "want \<noteq> []" unfolding e by (rule ne)
    ultimately show ?thesis
      using True clean probs sort_set_eq [of ?vs ?ws] by (auto simp: same_hardware_def)
  next
    case False
    then have "\<not> same_hardware (rq_hardware rq) (ql_hardware q)"
      using clean(1,2) by (auto simp: same_hardware_def)
    with False probs show ?thesis by auto
  qed
qed

section \<open>Versions, fields and times\<close>

text \<open>An upgrade of Kubernetes: both versions are releases, the new one is not older in the order
  of minor, patch and revision, and it is at most one minor ahead.\<close>

definition rke2_step_ok :: "string \<Rightarrow> string \<Rightarrow> bool" where
  "rke2_step_ok c t \<longleftrightarrow> (\<exists>u v. rke2_version c = Some u \<and> rke2_version t = Some v \<and> u \<le> v \<and> fst v \<le> fst u + 1)"

lemma validate_rke2_step_None: "validate_rke2_step c t = None \<longleftrightarrow> rke2_step_ok c t"
  by (auto simp: validate_rke2_step_def rke2_step_ok_def less_eq_prod_def split: option.splits)

lemma field_problems_Nil: "field_problems q rq = [] \<longleftrightarrow>
    rq_target rq = ql_target q \<and>
    list_all (\<lambda>(_, field). \<not> blank (field (rq_current rq)) \<and> \<not> blank (field (rq_target rq))) target_fields"
proof -
  have "rq_target rq = ql_target q \<longleftrightarrow> list_all (\<lambda>(_, field). field (rq_target rq) = field (ql_target q)) target_fields"
    by (cases "rq_target rq"; cases "ql_target q") (simp add: target_fields_def)
  then show ?thesis
    by (auto simp: field_problems_def list_all_iff blank_def case_prod_unfold split: if_splits)
qed

text \<open>The evidence is of the past, give or take five minutes, and not too old.\<close>

definition fresh :: "int \<Rightarrow> int \<Rightarrow> int \<Rightarrow> bool" where
  "fresh now age t \<longleftrightarrow> t \<le> now + 5 * minute \<and> now - t \<le> age"

lemma time_problems_Nil:
  assumes "rq_max_age rq < 2 ^ 63 - 1"
  shows "time_problems rfc3339 clock q rq = [] \<longleftrightarrow>
    (\<exists>t. rfc3339 (cn_completed_at (ql_canary q)) = Some t \<and> fresh (now_of clock rq) (max_age rq) t)"
proof -
  have "0 < max_age rq" "max_age rq < 2 ^ 63 - 1"
    using assms by (simp_all add: max_age_def default_max_age_def minute_def)
  then have "max_age rq < sub_times a b \<longleftrightarrow> max_age rq < a - b" for a b
    by (auto simp: sub_times_def)
  then show ?thesis
    by (auto simp: time_problems_def fresh_def split: option.splits)
qed

section \<open>Property\<close>

text \<open>What a qualified upgrade is: the abstract specification of the gate.\<close>

definition qualified_upgrade :: "(string \<Rightarrow> int option) \<Rightarrow> int \<Rightarrow> qualification \<Rightarrow> request \<Rightarrow> bool" where
  "qualified_upgrade rfc3339 clock q rq \<longleftrightarrow>
     record_problems q = []
     \<and> same_hardware (rq_hardware rq) (ql_hardware q)
     \<and> rq_target rq = ql_target q \<and> rq_current rq \<noteq> rq_target rq
     \<and> list_all (\<lambda>(_, field). \<not> blank (field (rq_current rq)) \<and> \<not> blank (field (rq_target rq))) target_fields
     \<and> rke2_step_ok (tg_rke2 (rq_current rq)) (tg_rke2 (rq_target rq))
     \<and> (\<exists>t. rfc3339 (cn_completed_at (ql_canary q)) = Some t \<and> fresh (now_of clock rq) (max_age rq) t)
     \<and> cn_allocation (ql_canary q) \<and> cn_monitoring (ql_canary q) \<and> cn_rollback (ql_canary q)
     \<and> \<not> blank (cn_evidence (ql_canary q))"

text \<open>C26. The gate lets through exactly the qualified upgrades: the requested tuple as a whole is the
  recorded one and differs from the current, the hardware is the same set of identities whatever
  their order and spelling, Kubernetes does not go back in the order of its releases nor skip a
  minor, the canary passed in all three checks and its evidence is neither of the future nor older
  than allowed, for every age limit below the largest duration; and the answer then carries the
  record's own identity, time, revision and approver.\<close>

theorem upgrade_gate_exact:
  assumes "rq_max_age rq < 2 ^ 63 - 1"
  shows "(\<not> isl (check_upgrade rfc3339 clock q rq) \<longleftrightarrow> qualified_upgrade rfc3339 clock q rq) \<and>
    (case check_upgrade rfc3339 clock q rq of
       Inl ps \<Rightarrow> ps \<noteq> []
     | Inr r \<Rightarrow> rs_id r = ql_id q \<and> rs_approved_by r = ql_approved_by q \<and>
         rs_revision r = lower_text (ql_revision q) \<and>
         rfc3339 (cn_completed_at (ql_canary q)) = Some (rs_completed r))"
proof -
  let ?probs = "record_problems q @ hardware_problems q rq @ field_problems q rq
            @ problem_if Nothing_Changes (rq_current rq = rq_target rq)
            @ (case validate_rke2_step (tg_rke2 (rq_current rq)) (tg_rke2 (rq_target rq)) of
                None \<Rightarrow> [] | Some p \<Rightarrow> [p])
            @ time_problems rfc3339 clock q rq @ canary_problems (ql_canary q)"
  have step: "(case validate_rke2_step c t of None \<Rightarrow> [] | Some p \<Rightarrow> [p]) = [] \<longleftrightarrow> rke2_step_ok c t" for c t
    using validate_rke2_step_None [of c t] by (auto split: option.splits)
  have "canary_problems c = [] \<longleftrightarrow>
      cn_allocation c \<and> cn_monitoring c \<and> cn_rollback c \<and> \<not> blank (cn_evidence c)" for c
    by (auto simp: canary_problems_def blank_def)
  then have "?probs = [] \<longleftrightarrow> qualified_upgrade rfc3339 clock q rq"
    by (auto simp: qualified_upgrade_def hardware_problems_Nil field_problems_Nil step
        time_problems_Nil [OF assms])
  then show ?thesis
    by (auto simp: check_upgrade_def Let_def qualified_upgrade_def)
qed

definition demo_target :: "string \<Rightarrow> string \<Rightarrow> target" where
  "demo_target krn rel = \<lparr>tg_kernel = krn, tg_rke2 = rel, tg_driver = ''580.1'', tg_operator = ''v26'', tg_exporter = ''4.1''\<rparr>"

definition demo_qualification :: qualification where
  "demo_qualification = \<lparr>ql_api_version = ''kube-dc.io/v1alpha1'', ql_kind = ''GPUUpgradeQualification'',
     ql_id = ''k6-8.q1'', ql_state = ''qualified'', ql_approved_by = ''ops'',
     ql_revision = ''0123456789ABCDEF0123456789abcdef01234567'',
     ql_hardware = [''10de:1db6/10de:124a'', ''10de:20b0/10de:1450''],
     ql_target = demo_target ''6.8'' ''v1.34.2+rke2r1'',
     ql_canary = \<lparr>cn_completed_at = ''T'', cn_allocation = True, cn_monitoring = True, cn_rollback = True, cn_evidence = ''log''\<rparr>\<rparr>"

definition demo_request :: request where
  "demo_request = \<lparr>rq_current = demo_target ''6.5'' ''v1.33.9+rke2r2'', rq_target = demo_target ''6.8'' ''v1.34.2+rke2r1'',
     rq_hardware = [''10de:20b0/10de:1450'', '' 10DE:1DB6/10de:124a''], rq_now = Some 1000, rq_max_age = 0\<rparr>"

theorem upgrade_gate_exact_witness:
  "qualified_upgrade (\<lambda>s. if s = ''T'' then Some 900 else None) 0 demo_qualification demo_request"
proof -
  have "rq_max_age demo_request < 2 ^ 63 - 1" by (simp add: demo_request_def)
  moreover have "\<not> isl (check_upgrade (\<lambda>s. if s = ''T'' then Some 900 else None) 0 demo_qualification demo_request)"
    by code_simp
  ultimately show ?thesis using upgrade_gate_exact by blast
qed

end
