(* ===== verification/Acceptance.thy ===== *)
theory Acceptance
  imports Go_Strings
begin

text \<open>
  The acceptance run (\<open>cli/internal/bootstrap/accept/accept.go\<close>): the checks over the cluster
  client and the front door, and the verdict.  Every call is made at most once per argument and
  reads only, so the cluster is a record of answers; the error of a failed call carries no text.
  The messages, the suggested fixes and the shell text of the probe (which the answers stand for)
  are not modelled.
\<close>

section \<open>Answers of the cluster and the front door\<close>

datatype head_answer = Bad_Request | No_Answer | Answered int

record cluster_answers =
  ca_flux :: "(unit, (string \<times> bool) list) sum"
  ca_node_labels :: "(unit, (string \<times> string) list list) sum"
  ca_apiserver_args :: "(unit, (string \<times> string list) list) sum"
  ca_head :: "string \<Rightarrow> head_answer"
  ca_crds :: "(unit, string list) sum"
  ca_gw_enabled :: "(unit, string) sum"
  ca_gw_addr :: "(unit, string) sum"
  ca_cni_pods :: "(unit, string list) sum"
  ca_exec :: "string \<Rightarrow> string \<Rightarrow> (unit, string) sum"
  ca_exec_kubectl :: "string \<Rightarrow> string \<Rightarrow> (unit, string) sum"

section \<open>Checks\<close>

datatype state = Reconciling | Converged | Usable

datatype outcome = Pass | Fail | Skipped

record check =
  ck_name :: string
  ck_required :: bool
  ck_outcome :: outcome

definition failed :: "check list \<Rightarrow> check list" where
  "failed cs = filter (\<lambda>c. ck_required c \<and> ck_outcome c \<noteq> Pass) cs"

abbreviation required :: "string \<Rightarrow> outcome \<Rightarrow> check" where
  "required name r \<equiv> \<lparr>ck_name = name, ck_required = True, ck_outcome = r\<rparr>"

abbreviation optional :: "string \<Rightarrow> outcome \<Rightarrow> check" where
  "optional name r \<equiv> \<lparr>ck_name = name, ck_required = False, ck_outcome = r\<rparr>"

text \<open>Convergence, and whether Flux has settled.\<close>

definition check_flux :: "cluster_answers \<Rightarrow> check \<times> bool" where
  "check_flux a = (case ca_flux a of
     Inl _ \<Rightarrow> (required ''flux/kustomizations'' Skipped, False)
   | Inr nodes \<Rightarrow>
       if nodes = [] then (required ''flux/kustomizations'' Fail, False)
       else if filter (\<lambda>(_, ready). \<not> ready) nodes \<noteq> [] then (required ''flux/kustomizations'' Fail, False)
       else (required ''flux/kustomizations'' Pass, True))"

definition is_control_plane :: "(string \<times> string) list \<Rightarrow> bool" where
  "is_control_plane labels \<longleftrightarrow> map_of labels ''node-role.kubernetes.io/control-plane'' \<noteq> None"

definition control_planes :: "cluster_answers \<Rightarrow> nat" where
  "control_planes a = (case ca_node_labels a of
     Inl _ \<Rightarrow> 0 | Inr ls \<Rightarrow> length (filter is_control_plane ls))"

definition check_nodes :: "cluster_answers \<Rightarrow> check" where
  "check_nodes a = (case ca_node_labels a of
     Inl _ \<Rightarrow> required ''nodes'' Skipped
   | Inr ls \<Rightarrow>
       if ls = [] then required ''nodes'' Fail
       else if control_planes a = 0 then required ''nodes'' Fail
       else required ''nodes'' Pass)"

text \<open>A flag wires the webhook when it names the option, with any number of dashes, and gives it a
  value.\<close>

definition webhook_option :: string where
  "webhook_option = ''authentication-token-webhook-config-file=''"

definition wires_webhook :: "string \<Rightarrow> bool" where
  "wires_webhook flag \<longleftrightarrow>
     has_prefix (dropWhile (\<lambda>c. c = CHR ''-'') flag) webhook_option
     \<and> (case cut (CHR ''='') flag of None \<Rightarrow> False | Some (_, v) \<Rightarrow> v \<noteq> [])"

definition check_oidc :: "cluster_answers \<Rightarrow> check" where
  "check_oidc a = (case ca_apiserver_args a of
     Inl _ \<Rightarrow> required ''identity/oidc-cutover'' Skipped
   | Inr pods \<Rightarrow>
       (let wired = filter (\<lambda>(_, args). list_ex wires_webhook args) pods;
            missing = filter (\<lambda>(_, args). \<not> list_ex wires_webhook args) pods in
        if pods = [] then required ''identity/oidc-cutover'' Skipped
        else if missing = [] \<and> 0 < control_planes a \<and> length wired < control_planes a
        then required ''identity/oidc-cutover'' Fail
        else if missing = [] then required ''identity/oidc-cutover'' Pass
        else required ''identity/oidc-cutover'' Fail))"

definition check_front_door :: "string \<Rightarrow> cluster_answers \<Rightarrow> check" where
  "check_front_door domain a =
     (if blank domain then optional ''front-door/tls'' Skipped
      else case ca_head a (''https://console.'' @ domain) of
        Bad_Request \<Rightarrow> optional ''front-door/tls'' Skipped
      | No_Answer \<Rightarrow> required ''front-door/tls'' Fail
      | Answered code \<Rightarrow> if 400 \<le> code then required ''front-door/tls'' Fail else required ''front-door/tls'' Pass)"

definition tenancy_crds :: "string list" where
  "tenancy_crds = [''organizations.kube-dc.com'', ''projects.kube-dc.com'']"

definition check_tenancy :: "cluster_answers \<Rightarrow> check" where
  "check_tenancy a = (case ca_crds a of
     Inl _ \<Rightarrow> required ''tenancy/crds'' Skipped
   | Inr crds \<Rightarrow>
       if filter (\<lambda>c. c \<notin> set crds) tenancy_crds \<noteq> [] then required ''tenancy/crds'' Fail
       else required ''tenancy/crds'' Pass)"

section \<open>Tenant egress\<close>

text \<open>The output of the probe in a pod: the client's own exec, and kubectl's when that one fails
  or comes back empty.\<close>

definition probe_output :: "cluster_answers \<Rightarrow> string \<Rightarrow> string \<Rightarrow> (unit, string) sum" where
  "probe_output a gw pod =
     (let r = ca_exec a pod gw; alt = ca_exec_kubectl a pod gw in
      if (case r of Inl _ \<Rightarrow> True | Inr out \<Rightarrow> blank out)
      then (case alt of Inr out \<Rightarrow> Inr out | Inl _ \<Rightarrow> r) else r)"

definition owned_line :: "string \<Rightarrow> bool" where
  "owned_line line \<longleftrightarrow> contains line ''ARPREPLY'' \<or> contains line ''RESOLVED''
     \<or> contains line ''lladdr'' \<and> \<not> contains line ''FAILED'' \<and> \<not> contains line ''INCOMPLETE''"

text \<open>Over the pods in turn: whether one found an owner of the address, and how many could tell.\<close>

fun probe_pods :: "cluster_answers \<Rightarrow> string \<Rightarrow> string list \<Rightarrow> nat \<Rightarrow> bool \<times> nat" where
  "probe_pods a gw [] probed = (False, probed)"
| "probe_pods a gw (pod # pods) probed =
     (case probe_output a gw pod of
        Inl _ \<Rightarrow> probe_pods a gw pods probed
      | Inr out \<Rightarrow>
          (let line = trim_space out in
           if contains line ''NOROUTE'' then probe_pods a gw pods probed
           else if owned_line line then (True, probed + 1)
           else probe_pods a gw pods (probed + 1)))"

definition max_probes :: nat where
  "max_probes = 6"

definition gateway_of :: "string \<Rightarrow> string" where
  "gateway_of addr = (let gw = trim_space addr in case cut (CHR ''/'') gw of None \<Rightarrow> gw | Some (ip, _) \<Rightarrow> ip)"

definition egress_enabled :: "cluster_answers \<Rightarrow> bool" where
  "egress_enabled a \<longleftrightarrow> (case ca_gw_enabled a of Inl _ \<Rightarrow> False | Inr v \<Rightarrow> trim_space v = ''true'')"

definition check_egress :: "cluster_answers \<Rightarrow> check" where
  "check_egress a =
     (let name = ''network/tenant-egress-gw'' in
      if \<not> egress_enabled a then optional name Skipped
      else case ca_gw_addr a of
        Inl _ \<Rightarrow> required name Fail
      | Inr addr \<Rightarrow>
          if blank addr then required name Fail
          else (case ca_cni_pods a of
              Inl _ \<Rightarrow> required name Skipped
            | Inr pods \<Rightarrow>
                if pods = [] then required name Skipped
                else (case probe_pods a (gateway_of addr) (take max_probes pods) 0 of
                    (True, _) \<Rightarrow> required name Pass
                  | (False, probed) \<Rightarrow> if probed = 0 then required name Skipped else required name Fail)))"

section \<open>The verdict\<close>

record report =
  rp_state :: state
  rp_checks :: "check list"

definition accept :: "string \<Rightarrow> cluster_answers \<Rightarrow> report" where
  "accept domain a =
     (let (flux, settled) = check_flux a;
          cs = [flux, check_nodes a, check_oidc a, check_front_door domain a, check_tenancy a, check_egress a] in
      \<lparr>rp_state = (if \<not> settled then Reconciling else if failed cs \<noteq> [] then Converged else Usable),
       rp_checks = cs\<rparr>)"

section \<open>What each check that passes has seen\<close>

definition passes :: "check \<Rightarrow> bool" where
  "passes c \<longleftrightarrow> ck_required c \<longrightarrow> ck_outcome c = Pass"

lemma failed_Nil: "failed cs = [] \<longleftrightarrow> list_all passes cs"
  by (auto simp: failed_def passes_def filter_empty_conv list_all_iff)

lemma check_flux_settled:
  "snd (check_flux a) \<longleftrightarrow> (\<exists>ns. ca_flux a = Inr ns \<and> ns \<noteq> [] \<and> list_all snd ns)"
  "snd (check_flux a) \<Longrightarrow> passes (fst (check_flux a))"
  by (auto simp: check_flux_def passes_def filter_empty_conv list_all_iff case_prod_unfold split: sum.splits if_splits)

lemma check_nodes_passes:
  "passes (check_nodes a) \<longleftrightarrow> 0 < control_planes a"
  by (auto simp: check_nodes_def passes_def control_planes_def split: sum.splits)

lemma check_oidc_passes:
  "0 < control_planes a \<Longrightarrow> passes (check_oidc a) \<longleftrightarrow>
     (\<exists>pods. ca_apiserver_args a = Inr pods \<and> control_planes a \<le> length pods \<and>
       list_all (\<lambda>(_, args). list_ex wires_webhook args) pods)"
  by (auto simp: check_oidc_def passes_def Let_def filter_empty_conv list_all_iff case_prod_unfold
      split: sum.splits)

lemma check_front_door_passes:
  "passes (check_front_door domain a) \<longleftrightarrow> blank domain \<or>
     (case ca_head a (''https://console.'' @ domain) of
        Bad_Request \<Rightarrow> True | No_Answer \<Rightarrow> False | Answered code \<Rightarrow> code < 400)"
  by (auto simp: check_front_door_def passes_def split: head_answer.splits)

lemma check_tenancy_passes:
  "passes (check_tenancy a) \<longleftrightarrow> (\<exists>crds. ca_crds a = Inr crds \<and> set tenancy_crds \<subseteq> set crds)"
  by (auto simp: check_tenancy_def passes_def filter_empty_conv split: sum.splits)

definition pod_resolves :: "cluster_answers \<Rightarrow> string \<Rightarrow> string \<Rightarrow> bool" where
  "pod_resolves a gw pod \<longleftrightarrow> (case probe_output a gw pod of
     Inl _ \<Rightarrow> False
   | Inr out \<Rightarrow> \<not> contains (trim_space out) ''NOROUTE'' \<and> owned_line (trim_space out))"

lemma probe_pods_resolves: "fst (probe_pods a gw pods n) \<longleftrightarrow> list_ex (pod_resolves a gw) pods"
  by (induction pods arbitrary: n) (auto simp: pod_resolves_def Let_def split: sum.splits)

lemma check_egress_passes:
  "passes (check_egress a) \<longleftrightarrow> \<not> egress_enabled a \<or>
     (\<exists>addr pods. ca_gw_addr a = Inr addr \<and> \<not> blank addr \<and> ca_cni_pods a = Inr pods \<and>
       list_ex (pod_resolves a (gateway_of addr)) (take max_probes pods))"
proof (cases "egress_enabled a \<and> (\<exists>addr pods. ca_gw_addr a = Inr addr \<and> \<not> blank addr \<and> ca_cni_pods a = Inr pods \<and> pods \<noteq> [])")
  case True
  then obtain addr pods where g: "ca_gw_addr a = Inr addr" "\<not> blank addr" "ca_cni_pods a = Inr pods" "pods \<noteq> []"
    by blast
  obtain ok n where p: "probe_pods a (gateway_of addr) (take max_probes pods) 0 = (ok, n)" by fastforce
  then have "ok \<longleftrightarrow> list_ex (pod_resolves a (gateway_of addr)) (take max_probes pods)"
    using probe_pods_resolves [of a "gateway_of addr" "take max_probes pods" 0] by simp
  with True g p show ?thesis
    by (cases ok) (auto simp: check_egress_def passes_def Let_def)
next
  case False
  then show ?thesis
    by (auto simp: check_egress_def passes_def Let_def split: sum.splits)
qed


section \<open>Properties\<close>

text \<open>C25. Usable means usable, and nothing less is called so. The verdict is given exactly when Flux
  has reconciled something and all of it is ready; the cluster has a control plane; at least as
  many apiservers as control-plane nodes are seen and every one of them runs with the webhook
  option and a value for it; both tenancy resources are installed; a known domain was answered
  below 400 over a trusted connection, if the request could be built at all; and, where an
  external gateway is reported as enabled, one of the first six probes saw an owner of its
  address.\<close>

theorem usable_exactly:
  "rp_state (accept domain a) = Usable \<longleftrightarrow>
    (\<exists>ns. ca_flux a = Inr ns \<and> ns \<noteq> [] \<and> list_all snd ns) \<and>
    0 < control_planes a \<and>
    (\<exists>pods. ca_apiserver_args a = Inr pods \<and> control_planes a \<le> length pods \<and>
       list_all (\<lambda>(_, args). list_ex wires_webhook args) pods) \<and>
    (\<exists>crds. ca_crds a = Inr crds \<and> set tenancy_crds \<subseteq> set crds) \<and>
    (if blank domain then True else case ca_head a (''https://console.'' @ domain) of
       Bad_Request \<Rightarrow> True | No_Answer \<Rightarrow> False | Answered code \<Rightarrow> code < 400) \<and>
    (if egress_enabled a then \<exists>addr pods. ca_gw_addr a = Inr addr \<and> \<not> blank addr \<and>
       ca_cni_pods a = Inr pods \<and> list_ex (pod_resolves a (gateway_of addr)) (take max_probes pods) else True)"
proof -
  obtain flux settled where f: "check_flux a = (flux, settled)" by fastforce
  have "rp_state (accept domain a) = Usable \<longleftrightarrow> settled \<and> passes flux \<and> passes (check_nodes a) \<and>
      passes (check_oidc a) \<and> passes (check_front_door domain a) \<and> passes (check_tenancy a) \<and> passes (check_egress a)"
    by (auto simp: accept_def f Let_def failed_Nil split: if_splits)
  also have "\<dots> \<longleftrightarrow> snd (check_flux a) \<and> passes (check_nodes a) \<and>
      passes (check_oidc a) \<and> passes (check_front_door domain a) \<and> passes (check_tenancy a) \<and> passes (check_egress a)"
    using check_flux_settled(2) [of a] f by auto
  finally show ?thesis
    by (auto simp: check_flux_settled(1) check_nodes_passes check_oidc_passes check_front_door_passes
        check_tenancy_passes check_egress_passes)
qed

text \<open>A check that could not be made is not to read as a pass, says the package; the egress check
  reads an error of the very first call as a cluster without a gateway, and the verdict is
  usable.\<close>

definition demo_unreadable_gateway :: cluster_answers where
  "demo_unreadable_gateway = \<lparr>ca_flux = Inr [(''platform'', True)],
     ca_node_labels = Inr [[(''node-role.kubernetes.io/control-plane'', ''true'')]],
     ca_apiserver_args = Inr [(''kube-apiserver-m1'', [''--authentication-token-webhook-config-file=/etc/w.yaml''])],
     ca_head = (\<lambda>_. Answered 200), ca_crds = Inr [''projects.kube-dc.com'', ''organizations.kube-dc.com''],
     ca_gw_enabled = Inl (), ca_gw_addr = Inl (), ca_cni_pods = Inl (),
     ca_exec = (\<lambda>_ _. Inl ()), ca_exec_kubectl = (\<lambda>_ _. Inl ())\<rparr>"

lemma unreadable_gateway_is_usable: "rp_state (accept ''example.com'' demo_unreadable_gateway) = Usable"
  by code_simp

text \<open>The probe can tell: a gateway that nobody answers for keeps the same cluster from being
  usable, and one that resolves lets it through.\<close>

lemma egress_probe_decides:
  "rp_state (accept ''example.com'' (demo_unreadable_gateway\<lparr>ca_gw_enabled := Inr ''true'',
     ca_gw_addr := Inr ''100.65.0.1/16'', ca_cni_pods := Inr [''p1'', ''p2''],
     ca_exec := (\<lambda>pod _. if pod = ''p1'' then Inr ''NOROUTE'' else Inr ''100.65.0.1 dev x FAILED'')\<rparr>)) = Converged"
  "rp_state (accept ''example.com'' (demo_unreadable_gateway\<lparr>ca_gw_enabled := Inr ''true'',
     ca_gw_addr := Inr ''100.65.0.1/16'', ca_cni_pods := Inr [''p1'', ''p2''],
     ca_exec := (\<lambda>pod gw. if pod = ''p2'' \<and> gw = ''100.65.0.1'' then Inr ''ARPREPLY'' else Inl ())\<rparr>)) = Usable"
  by code_simp+

end
