(* ===== verification/Break_Glass.thy ===== *)
theory Break_Glass
  imports Effects Env_File Base64
begin

text \<open>
  The break-glass kubeconfig (\<open>cli/internal/bootstrap/breakglass/breakglass.go\<close>): minting the
  service account's token, waiting for it, building the kubeconfig, and putting it encrypted into
  the fleet; rotation; and a session on the decrypted file.  kubectl and the clock answer from the
  history of calls.  The decoding of kubectl's JSON, the YAML encoding of the kubeconfig and the
  \<open>sops\<close> program (with the directory it is started in) are parameters; the manifest that is
  applied, printed lines and the banner are left out.
\<close>

section \<open>Calls, options and errors\<close>

record bg_options =
  bo_fleet_root :: string
  bo_cluster :: string
  bo_context :: string
  bo_server :: string
  bo_dry_run :: bool

datatype bg_event = Kubectl "string list" "string + string" | Wait bool

text \<open>\<open>be_data\<close> reads the \<open>data\<close> of a Secret out of kubectl's JSON; a wait answers whether the
  run was cancelled.\<close>

record bg_env =
  be_overlay :: "string \<Rightarrow> bool"
  be_kubectl :: "bg_event list \<Rightarrow> string list \<Rightarrow> string + string"
  be_now :: "bg_event list \<Rightarrow> int"
  be_wait :: "bg_event list \<Rightarrow> bool"
  be_data :: "string \<Rightarrow> (string + (string \<rightharpoonup> string))"

datatype bg_error =
    Root_Required | Cluster_Required | No_Overlay | No_Server string | Apply_Failed string
  | Not_Adopted | Delete_Failed string | Token_Error string | Token_Empty | Cancelled

type_synonym 'a bg_prog = "(bg_event, bg_error, 'a) prog"

definition with_context :: "string \<Rightarrow> string list \<Rightarrow> string list" where
  "with_context ctx args = (if ctx \<noteq> [] then [''--context'', ctx] @ args else args)"

definition kubectl :: "bg_env \<Rightarrow> string \<Rightarrow> string list \<Rightarrow> (string + string) bg_prog" where
  "kubectl env ctx args =
     ask (\<lambda>h. be_kubectl env h (with_context ctx args)) (Kubectl (with_context ctx args))"

definition apply_args :: "string list" where
  "apply_args = [''apply'', ''-f'', ''-'']"

definition delete_args :: "string list" where
  "delete_args = [''delete'', ''secret'', ''-n'', ''kube-system'', ''break-glass-token'', ''--ignore-not-found'']"

definition get_args :: "string list" where
  "get_args = [''get'', ''secret'', ''break-glass-token'', ''-n'', ''kube-system'', ''-o'', ''json'']"

definition view_args :: "string list" where
  "view_args = [''config'', ''view'', ''--minify'', ''-o'', ''jsonpath={.clusters[0].cluster.server}'']"

section \<open>The token\<close>

text \<open>The token and the CA in one answer; both empty while the controller has not filled them in.\<close>

definition token_of :: "bg_env \<Rightarrow> string \<Rightarrow> string + string \<times> string" where
  "token_of env out = (case be_data env out of
     Inl e \<Rightarrow> Inl e
   | Inr data \<Rightarrow> (case (data ''token'', data ''ca.crt'') of
       (Some t, Some c) \<Rightarrow> (case (decode std_digits True t, decode std_digits True c) of
           (Some token, Some ca) \<Rightarrow> Inr (token, ca)
         | _ \<Rightarrow> Inl ''base64'')
     | _ \<Rightarrow> Inr ([], [])))"

definition read_token :: "bg_env \<Rightarrow> string \<Rightarrow> (string + string \<times> string) bg_prog" where
  "read_token env ctx = bind (kubectl env ctx get_args)
     (\<lambda>r. ret (case r of Inl e \<Rightarrow> Inl e | Inr out \<Rightarrow> token_of env out))"

definition second :: int where
  "second = 1000000000"

fun wait_for_token :: "bg_env \<Rightarrow> string \<Rightarrow> int \<Rightarrow> nat \<Rightarrow> (string \<times> string) bg_prog" where
  "wait_for_token env ctx deadline 0 = out_of_fuel"
| "wait_for_token env ctx deadline (Suc fuel) =
     bind (read_token env ctx) (\<lambda>r.
     if (case r of Inl _ \<Rightarrow> False | Inr (token, ca) \<Rightarrow> token \<noteq> [] \<and> ca \<noteq> []) then ret (projr r)
     else bind (observe (be_now env)) (\<lambda>now.
       if deadline < now then fail (case r of Inl e \<Rightarrow> Token_Error e | Inr _ \<Rightarrow> Token_Empty)
       else bind (ask (be_wait env) Wait) (\<lambda>cancelled.
         if cancelled then fail Cancelled else wait_for_token env ctx deadline fuel)))"

definition get_token :: "bg_env \<Rightarrow> nat \<Rightarrow> string \<Rightarrow> (string \<times> string) bg_prog" where
  "get_token env fuel ctx =
     bind (observe (be_now env)) (\<lambda>now. wait_for_token env ctx (now + 30 * second) fuel)"

section \<open>The kubeconfig\<close>

record bg_config =
  bk_cluster_name :: string
  bk_server :: string
  bk_ca :: string
  bk_user_name :: string
  bk_token :: string
  bk_context_name :: string

definition sanitize_name :: "string \<Rightarrow> string" where
  "sanitize_name s = map (\<lambda>c. if c = CHR ''/'' then CHR ''-'' else c) s"

definition build_kubeconfig :: "string \<Rightarrow> string \<Rightarrow> string \<Rightarrow> string \<Rightarrow> bg_config" where
  "build_kubeconfig cluster server token ca =
     \<lparr>bk_cluster_name = ''kube-dc-'' @ sanitize_name cluster @ ''-break-glass'', bk_server = server,
      bk_ca = encode std_digits True ca, bk_user_name = ''break-glass@'' @ sanitize_name cluster,
      bk_token = token, bk_context_name = ''break-glass/'' @ cluster\<rparr>"

text \<open>\<open>readEnvVar\<close>: the first line that gives the key.\<close>

fun read_env_lines :: "string \<Rightarrow> string list \<Rightarrow> string" where
  "read_env_lines key [] = []"
| "read_env_lines key (l # ls) =
     (let line = trim_space l in
      if line = [] \<or> has_prefix line ''#'' then read_env_lines key ls
      else case cut (CHR ''='') line of
        Some (k, v) \<Rightarrow> if k \<noteq> [] \<and> trim_space k = key then env_unquote (trim_space v) else read_env_lines key ls
      | None \<Rightarrow> read_env_lines key ls)"

definition read_env_var :: "fs \<Rightarrow> string \<Rightarrow> string \<Rightarrow> string" where
  "read_env_var d path key = (case d path of
     None \<Rightarrow> [] | Some f \<Rightarrow> read_env_lines key (split_on NL (f_content f)))"

definition cluster_dir :: "bg_options \<Rightarrow> string" where
  "cluster_dir o' = bo_fleet_root o' @ ''/clusters/'' @ bo_cluster o'"

definition bg_target :: "bg_options \<Rightarrow> string" where
  "bg_target o' = cluster_dir o' @ ''/break-glass-kubeconfig.enc.yaml''"

definition configured_server :: "bg_options \<Rightarrow> fs \<Rightarrow> string" where
  "configured_server o' d =
     (if bo_server o' \<noteq> [] then bo_server o'
      else read_env_var d (cluster_dir o' @ ''/cluster-config.env'') ''KUBE_API_EXTERNAL_URL'')"

section \<open>Adopt and rotate up to the encryption\<close>

text \<open>The kubeconfig to encrypt; none in a dry run.\<close>

definition adopt_server :: "bg_env \<Rightarrow> bg_options \<Rightarrow> fs \<Rightarrow> string bg_prog" where
  "adopt_server env o' d =
     (if configured_server o' d \<noteq> [] then ret (configured_server o' d)
      else bind (kubectl env (bo_context o') view_args) (\<lambda>r.
        bind (check_err No_Server r) (\<lambda>out. ret (trim_space out))))"

definition adopt_config :: "bg_env \<Rightarrow> nat \<Rightarrow> bg_options \<Rightarrow> fs \<Rightarrow> bg_config option bg_prog" where
  "adopt_config env fuel o' d =
     bind (guard Root_Required (bo_fleet_root o' \<noteq> [])) (\<lambda>_.
     bind (guard Cluster_Required (bo_cluster o' \<noteq> [])) (\<lambda>_.
     bind (guard No_Overlay (be_overlay env (cluster_dir o'))) (\<lambda>_.
     bind (adopt_server env o' d) (\<lambda>server.
     if bo_dry_run o' then ret None
     else bind (kubectl env (bo_context o') apply_args) (\<lambda>r.
       bind (check_err Apply_Failed r) (\<lambda>_.
       bind (get_token env fuel (bo_context o')) (\<lambda>(token, ca).
       ret (Some (build_kubeconfig (bo_cluster o') server token ca)))))))))"

definition rotate_config :: "bg_env \<Rightarrow> nat \<Rightarrow> bg_options \<Rightarrow> fs \<Rightarrow> bg_config option bg_prog" where
  "rotate_config env fuel o' d =
     bind (guard Root_Required (bo_fleet_root o' \<noteq> [])) (\<lambda>_.
     bind (guard Cluster_Required (bo_cluster o' \<noteq> [])) (\<lambda>_.
     bind (guard Not_Adopted (d (bg_target o') \<noteq> None)) (\<lambda>_.
     if bo_dry_run o' then ret None
     else bind (kubectl env (bo_context o') delete_args) (\<lambda>r.
       bind (check_err Delete_Failed r) (\<lambda>_.
       bind (kubectl env (bo_context o') apply_args) (\<lambda>r.
       bind (check_err Apply_Failed r) (\<lambda>_.
       bind (get_token env fuel (bo_context o')) (\<lambda>(token, ca).
       ret (Some (build_kubeconfig (bo_cluster o') (configured_server o' d) token ca))))))))))"

section \<open>Encryption\<close>

text \<open>The values the check looks for.  The regular expression takes, on lines of its own, one of
  the four keys, a colon, and one field; white space between them may span lines.  It is a
  function on the fields of the lines that have any.\<close>

definition fields_of :: "string \<Rightarrow> string list" where
  "fields_of s = filter (\<lambda>f. f \<noteq> []) (split_on (CHR '' '') (map (\<lambda>c. if re_space c then CHR '' '' else c) s))"

definition text_fields :: "string \<Rightarrow> string list list" where
  "text_fields s = filter (\<lambda>fs. fs \<noteq> []) (map fields_of (split_on NL s))"

definition secret_keys :: "string list" where
  "secret_keys = [''token'', ''client-key-data'', ''client-certificate-data'', ''password'']"

definition secret_field :: "string \<Rightarrow> string option" where
  "secret_field f = (case cut (CHR '':'') f of
     Some (k, v) \<Rightarrow> if k \<in> set secret_keys then Some v else None | None \<Rightarrow> None)"

fun secret_values :: "string list list \<Rightarrow> string list" where
  "secret_values [] = []"
| "secret_values ([] # ls) = secret_values ls"
| "secret_values ((f # rest) # ls) =
     (case secret_field f of
        None \<Rightarrow> secret_values ls
      | Some v \<Rightarrow>
          if v \<noteq> [] then (if rest = [] then v # secret_values ls else secret_values ls)
          else (case rest of
              [x] \<Rightarrow> x # secret_values ls
            | [] \<Rightarrow> (case ls of [y] # ls' \<Rightarrow> y # secret_values ls' | _ \<Rightarrow> secret_values ls)
            | _ \<Rightarrow> secret_values ls))"

definition all_encrypted :: "string \<Rightarrow> string \<Rightarrow> bool" where
  "all_encrypted plain enc \<longleftrightarrow>
     list_all (\<lambda>v. length v < 8 \<or> \<not> contains enc v) (secret_values (text_fields plain))"

datatype seal_error =
    Temp_Create | Temp_Write | Temp_Close | Temp_Chmod | Sops_Failed | Temp_Read | Left_In_Clear | Promote

record seal_run =
  sl_rnd :: string
  sl_create_ok :: bool
  sl_written :: "string option"
  sl_close_ok :: bool
  sl_chmod_ok :: bool
  sl_sops :: "string \<Rightarrow> bool \<times> string"
  sl_read_ok :: bool
  sl_rename_ok :: bool
  sl_remove_ok :: bool

definition seal_tmp :: "seal_run \<Rightarrow> string \<Rightarrow> string" where
  "seal_tmp r path = create_temp_name (dir_of path) ''bg-encrypt-'' (''.'' @ filepath_base path) (sl_rnd r)"

definition bg_encrypt :: "seal_run \<Rightarrow> string \<Rightarrow> string \<Rightarrow> fs \<Rightarrow> seal_error option \<times> fs" where
  "bg_encrypt r path plain d =
     (let tmp = seal_tmp r path;
          put = \<lambda>c. d(tmp \<mapsto> \<lparr>f_content = c, f_mode = 384\<rparr>);
          bail = \<lambda>e c. (Some e, if sl_remove_ok r then (put c)(tmp := None) else put c);
          (ok, enc) = sl_sops r plain in
      if \<not> sl_create_ok r then (Some Temp_Create, d)
      else case sl_written r of
        Some part \<Rightarrow> bail Temp_Write part
      | None \<Rightarrow>
          if \<not> sl_close_ok r then bail Temp_Close plain
          else if \<not> sl_chmod_ok r then bail Temp_Chmod plain
          else if \<not> ok then bail Sops_Failed enc
          else if \<not> sl_read_ok r then bail Temp_Read enc
          else if \<not> all_encrypted plain enc then bail Left_In_Clear enc
          else if \<not> sl_rename_ok r then bail Promote enc
          else (None, rename_file tmp path (put enc)))"

text \<open>Adopt and rotate as a whole, on the files of the fleet; \<open>marshal\<close> is the YAML encoder.\<close>

datatype run_error = Config_Error bg_error | Marshal_Failed | Seal_Error seal_error

definition seal_config ::
  "(bg_config \<Rightarrow> string option) \<Rightarrow> seal_run \<Rightarrow> string \<Rightarrow> bg_config option \<Rightarrow> fs \<Rightarrow> run_error option \<times> fs" where
  "seal_config marshal r path kc d = (case kc of
     None \<Rightarrow> (None, d)
   | Some c \<Rightarrow> (case marshal c of
       None \<Rightarrow> (Some Marshal_Failed, d)
     | Some plain \<Rightarrow> (case bg_encrypt r path plain d of (e, d') \<Rightarrow> (map_option Seal_Error e, d'))))"

definition finish_run ::
  "(bg_config \<Rightarrow> string option) \<Rightarrow> seal_run \<Rightarrow> string \<Rightarrow> fs \<Rightarrow> ((bg_error + bg_config option) \<times> bg_event list) option
    \<Rightarrow> (run_error option \<times> fs \<times> bg_event list) option" where
  "finish_run marshal r path d res = map_option (\<lambda>(out, h). case out of
       Inl e \<Rightarrow> (Some (Config_Error e), d, h)
     | Inr kc \<Rightarrow> (case seal_config marshal r path kc d of (e, d') \<Rightarrow> (e, d', h))) res"

definition adopt :: "bg_env \<Rightarrow> (bg_config \<Rightarrow> string option) \<Rightarrow> seal_run \<Rightarrow> nat \<Rightarrow> bg_options \<Rightarrow> fs
    \<Rightarrow> (run_error option \<times> fs \<times> bg_event list) option" where
  "adopt env marshal r fuel o' d = finish_run marshal r (bg_target o') d (adopt_config env fuel o' d [])"

definition rotate :: "bg_env \<Rightarrow> (bg_config \<Rightarrow> string option) \<Rightarrow> seal_run \<Rightarrow> nat \<Rightarrow> bg_options \<Rightarrow> fs
    \<Rightarrow> (run_error option \<times> fs \<times> bg_event list) option" where
  "rotate env marshal r fuel o' d = finish_run marshal r (bg_target o') d (rotate_config env fuel o' d [])"


section \<open>A session on the decrypted file\<close>

text \<open>\<open>Use\<close>: what the system does, the decryption, and whatever the operator does in the shell.\<close>

record session_run =
  sn_home :: "string option"
  sn_mkdir_ok :: bool
  sn_create_ok :: bool
  sn_rnd :: string
  sn_chmod_ok :: bool
  sn_decrypt :: "string \<Rightarrow> string option"
  sn_written :: "string option"
  sn_shell :: "fs \<Rightarrow> fs"
  sn_remove_ok :: bool

datatype session_error = Not_There | No_Home | No_Dir | No_Temp | No_Chmod | No_Decrypt

definition session_tmp :: "session_run \<Rightarrow> string \<Rightarrow> string" where
  "session_tmp r home = create_temp_name (home @ ''/.kube-dc/break-glass'') ''kubeconfig-'' ''.yaml'' (sn_rnd r)"

definition use_session :: "session_run \<Rightarrow> string \<Rightarrow> fs \<Rightarrow> session_error option \<times> fs" where
  "use_session r path d =
     (case d path of
        None \<Rightarrow> (Some Not_There, d)
      | Some f \<Rightarrow> (case sn_home r of
          None \<Rightarrow> (Some No_Home, d)
        | Some home \<Rightarrow>
            if \<not> sn_mkdir_ok r then (Some No_Dir, d)
            else if \<not> sn_create_ok r then (Some No_Temp, d)
            else
              (let tmp = session_tmp r home;
                   put = \<lambda>c. d(tmp \<mapsto> \<lparr>f_content = c, f_mode = 384\<rparr>);
                   wipe = \<lambda>d'. if sn_remove_ok r then d'(tmp := None) else d' in
               if \<not> sn_chmod_ok r then (Some No_Chmod, wipe (put []))
               else (case sn_decrypt r (f_content f) of
                   None \<Rightarrow> (Some No_Decrypt, wipe (put []))
                 | Some plain \<Rightarrow> (case sn_written r of
                     Some part \<Rightarrow> (Some No_Decrypt, wipe (put part))
                   | None \<Rightarrow> (None, wipe (sn_shell r (put plain))))))))"

lemma session_wiped:
  "use_session r path d = (e, d') \<Longrightarrow> sn_remove_ok r \<Longrightarrow> sn_home r = Some home \<Longrightarrow>
     session_tmp r home \<notin> dom d \<Longrightarrow> d' (session_tmp r home) = None"
  by (auto simp: use_session_def Let_def split: option.splits if_splits)

section \<open>What a wait for the token has seen\<close>

definition token_call :: "string \<Rightarrow> bg_event \<Rightarrow> bool" where
  "token_call ctx e \<longleftrightarrow> (case e of Kubectl args _ \<Rightarrow> args = with_context ctx get_args | Wait c \<Rightarrow> \<not> c)"

definition token_read :: "bg_env \<Rightarrow> string \<Rightarrow> bg_event list \<Rightarrow> string \<times> string \<Rightarrow> bool" where
  "token_read env ctx evs tc \<longleftrightarrow> (\<exists>gets out. evs = gets @ [Kubectl (with_context ctx get_args) (Inr out)]
     \<and> list_all (token_call ctx) gets \<and> token_of env out = Inr tc \<and> fst tc \<noteq> [] \<and> snd tc \<noteq> [])"

lemma token_read_later:
  "list_all (token_call ctx) evs \<Longrightarrow> token_read env ctx evs' tc \<Longrightarrow> token_read env ctx (evs @ evs') tc"
  unfolding token_read_def by (metis append.assoc list_all_append)

lemma wait_for_token_reads:
  "wp (wait_for_token env ctx dl fuel) (\<lambda>tc h'. \<exists>evs. h' = h @ evs \<and> token_read env ctx evs tc) (\<lambda>_ _. True) h"
proof (induction fuel arbitrary: h)
  case (Suc fuel)
  let ?r = "be_kubectl env h (with_context ctx get_args)"
  let ?v = "case ?r of Inl e \<Rightarrow> Inl e | Inr out \<Rightarrow> token_of env out"
  let ?get = "Kubectl (with_context ctx get_args) ?r"
  have fin: "token_read env ctx [?get] (projr ?v)"
    if "case ?v of Inl _ \<Rightarrow> False | Inr (token, ca) \<Rightarrow> token \<noteq> [] \<and> ca \<noteq> []"
    using that by (auto simp: token_read_def split: sum.splits)
  have again: "wp (wait_for_token env ctx dl fuel)
      (\<lambda>tc h'. \<exists>evs. h' = h @ evs \<and> token_read env ctx evs tc) (\<lambda>_ _. True) (h @ [?get, Wait False])"
  proof (rule wp_conseq [OF Suc.IH])
    fix tc h'
    assume "\<exists>evs. h' = (h @ [?get, Wait False]) @ evs \<and> token_read env ctx evs tc"
    then obtain evs where "h' = (h @ [?get, Wait False]) @ evs" "token_read env ctx evs tc" by blast
    then show "\<exists>evs. h' = h @ evs \<and> token_read env ctx evs tc"
      using token_read_later [of ctx "[?get, Wait False]" env evs tc]
      by (intro exI [of _ "[?get, Wait False] @ evs"]) (simp add: token_call_def)
  qed simp
  show ?case
    using fin again
    by (auto simp: read_token_def kubectl_def wp split: if_splits)
qed (simp add: wp)

lemma get_token_reads:
  "wp (get_token env fuel ctx) (\<lambda>tc h'. \<exists>evs. h' = h @ evs \<and> token_read env ctx evs tc) (\<lambda>_ _. True) h"
  by (simp add: get_token_def wp wait_for_token_reads)

section \<open>The wait ends\<close>

definition steady_clock :: "bg_env \<Rightarrow> bool" where
  "steady_clock env \<longleftrightarrow> (\<forall>h e. be_now env (h @ [e]) \<ge> be_now env h) \<and>
     (\<forall>h c. be_now env (h @ [Wait c]) \<ge> be_now env h + second)"

lemma wait_for_token_returns:
  "steady_clock env \<Longrightarrow> dl < be_now env h + (int fuel - 1) * second \<Longrightarrow> 0 < fuel \<Longrightarrow>
     returns (wait_for_token env ctx dl fuel) h"
proof (induction fuel arbitrary: h)
  case (Suc fuel)
  let ?r = "be_kubectl env h (with_context ctx get_args)"
  let ?h = "h @ [Kubectl (with_context ctx get_args) ?r]"
  have mono: "be_now env h \<le> be_now env ?h" "be_now env ?h + second \<le> be_now env (?h @ [Wait c])" for c
    using Suc.prems(1) unfolding steady_clock_def by blast+
  have later: "returns (wait_for_token env ctx dl fuel) (?h @ [Wait False])" if "be_now env ?h \<le> dl"
  proof (rule Suc.IH [OF Suc.prems(1)])
    show "dl < be_now env (?h @ [Wait False]) + (int fuel - 1) * second"
      using Suc.prems(2) mono(1) mono(2) [of False] by (simp add: algebra_simps)
    show "0 < fuel"
    proof (rule ccontr)
      assume "\<not> 0 < fuel"
      then show False using Suc.prems(2) that mono(1) by simp
    qed
  qed
  show ?case
    using later
    by (auto simp: read_token_def kubectl_def returns_def bind_def ask_def observe_def ret_def fail_def)
qed simp

definition token_fuel :: nat where
  "token_fuel = 32"

lemma get_token_returns: "steady_clock env \<Longrightarrow> returns (get_token env token_fuel ctx) h"
  using wait_for_token_returns [of env "be_now env h + 30 * second" h token_fuel ctx]
  by (simp add: get_token_def returns_def bind_def observe_def token_fuel_def second_def)


section \<open>What an encryption leaves\<close>

lemma seal_tmp_longer: "length path < length (seal_tmp r path)"
proof (cases "last_slash path")
  case None
  then show ?thesis by (simp add: seal_tmp_def create_temp_name_def dir_of_def filepath_base_def)
next
  case (Some i)
  note last_slash_bound [OF Some]
  with Some show ?thesis
    by (auto simp: seal_tmp_def create_temp_name_def dir_of_def filepath_base_def)
qed

lemma bg_encrypt_outcome:
  assumes "bg_encrypt r path plain d = (e, d')" "seal_tmp r path \<notin> dom d"
  shows "case e of
      None \<Rightarrow> \<exists>enc. d' = d(path \<mapsto> \<lparr>f_content = enc, f_mode = 384\<rparr>) \<and> all_encrypted plain enc
    | Some _ \<Rightarrow> \<forall>p. p \<noteq> seal_tmp r path \<longrightarrow> d' p = d p"
proof -
  have ne: "seal_tmp r path \<noteq> path" using seal_tmp_longer [of path r] by auto
  have fresh: "d(seal_tmp r path := None) = d" using assms(2) by (simp add: fun_upd_idem_iff domIff)
  show ?thesis
    using assms(1) ne fresh
    by (auto simp: bg_encrypt_def Let_def rename_file_def fun_upd_twist split: prod.splits option.splits if_splits)
qed

lemma encrypted_value:
  "all_encrypted plain enc \<Longrightarrow> v \<in> set (secret_values (text_fields plain)) \<Longrightarrow> 8 \<le> length v \<Longrightarrow> \<not> contains enc v"
  by (auto simp: all_encrypted_def list_all_iff)

text \<open>The text has a line that gives a value without blanks to one of the four keys that sops is told to
  encrypt.\<close>

definition gives_secret :: "string \<Rightarrow> string \<Rightarrow> bool" where
  "gives_secret plain v \<longleftrightarrow> (\<exists>lead key. key \<in> {''token'', ''client-key-data'', ''client-certificate-data'', ''password''}
     \<and> list_all re_space lead \<and> v \<noteq> [] \<and> list_all (\<lambda>c. \<not> re_space c) v
     \<and> lead @ key @ '': '' @ v \<in> set (split_on NL plain))"

lemma fields_of_blank: "re_space c \<Longrightarrow> fields_of (c # s) = fields_of s"
  by (simp add: fields_of_def)

lemma no_blank: "list_all (\<lambda>c. \<not> re_space c) s \<Longrightarrow> map (\<lambda>c. if re_space c then CHR '' '' else c) s = s \<and> CHR '' '' \<notin> set s"
  by (auto simp: list_all_iff map_idI re_space_def)

lemma fields_of_key:
  assumes "list_all re_space lead" "list_all (\<lambda>c. \<not> re_space c) key" "list_all (\<lambda>c. \<not> re_space c) v" "v \<noteq> []"
  shows "fields_of (lead @ key @ '': '' @ v) = [key @ '':'', v]"
proof -
  have lead: "fields_of (lead @ s) = fields_of s" for s
    using assms(1) by (induction lead) (simp_all add: fields_of_blank)
  have "split_on (CHR '' '') ((key @ '':'') @ CHR '' '' # v) = [key @ '':'', v]"
    using no_blank [OF assms(2)] no_blank [OF assms(3)] by (subst split_on_append) (simp_all add: split_on_id)
  moreover have "re_space (CHR '' '')" "\<not> re_space (CHR '':'')" by (simp_all add: re_space_def)
  ultimately show ?thesis
    unfolding lead using no_blank [OF assms(2)] no_blank [OF assms(3)] assms(4) by (simp add: fields_of_def)
qed

lemma secret_values_step:
  "set (secret_values ls) \<subseteq> set (secret_values (l # ls)) \<or> (\<exists>y ls'. ls = [y] # ls' \<and> secret_values (l # ls) = y # secret_values ls')"
proof (cases l)
  case (Cons f rest)
  show ?thesis
  proof (cases "secret_field f")
    case None
    then show ?thesis by (simp add: Cons)
  next
    case (Some w)
    note f = Some
    show ?thesis
    proof (cases "w = []")
      case False
      then have "secret_values (l # ls) = (if rest = [] then w # secret_values ls else secret_values ls)" by (simp add: Cons f)
      then have "set (secret_values ls) \<subseteq> set (secret_values (l # ls))" by auto
      then show ?thesis ..
    next
      case w: True
      show ?thesis
      proof (cases rest)
        case Nil
        show ?thesis
        proof (cases "\<exists>y ls'. ls = [y] # ls'")
          case True
          then show ?thesis by (auto simp: Cons f w Nil)
        next
          case False
          then have "secret_values (l # ls) = secret_values ls"
            by (simp add: Cons f w Nil split: list.split) blast
          then show ?thesis by simp
        qed
      next
        case (Cons x xs)
        then show ?thesis by (cases xs) (auto simp: \<open>l = f # rest\<close> f w)
      qed
    qed
  qed
qed simp

lemma secret_values_two:
  "[f, v] \<in> set ls \<Longrightarrow> secret_field f = Some [] \<Longrightarrow> v \<in> set (secret_values ls)"
proof (induction ls rule: measure_induct_rule [of length])
  case (less ls)
  then obtain l ls1 where ls: "ls = l # ls1" by (cases ls) auto
  show ?case
  proof (cases "l = [f, v]")
    case True
    then show ?thesis using less.prems(2) by (simp add: ls)
  next
    case False
    then have rest: "[f, v] \<in> set ls1" using less.prems(1) by (simp add: ls)
    from secret_values_step [of ls1 l] show ?thesis
    proof
      assume "set (secret_values ls1) \<subseteq> set (secret_values (l # ls1))"
      then show ?thesis using less.IH [OF _ rest less.prems(2)] by (auto simp: ls)
    next
      assume "\<exists>y ls'. ls1 = [y] # ls' \<and> secret_values (l # ls1) = y # secret_values ls'"
      then obtain y ls' where y: "ls1 = [y] # ls'" "secret_values (l # ls1) = y # secret_values ls'" by blast
      have "v \<in> set (secret_values ls')" by (rule less.IH) (use rest less.prems(2) y(1) ls in auto)
      then show ?thesis by (simp add: ls y(2))
    qed
  qed
qed

lemma given_secret_checked:
  assumes "gives_secret plain v"
  shows "v \<in> set (secret_values (text_fields plain))"
proof -
  obtain lead key where k: "key \<in> {''token'', ''client-key-data'', ''client-certificate-data'', ''password''}"
      "list_all re_space lead" "v \<noteq> []" "list_all (\<lambda>c. \<not> re_space c) v"
    and line: "lead @ key @ '': '' @ v \<in> set (split_on NL plain)"
    using assms unfolding gives_secret_def by blast
  have key: "list_all (\<lambda>c. \<not> re_space c) key" "secret_field (key @ '':'') = Some []"
    using k(1) by (auto simp: re_space_def secret_field_def secret_keys_def)
  have "fields_of (lead @ key @ '': '' @ v) \<in> set (text_fields plain)"
    using line fields_of_key [OF k(2) key(1) k(4,3)] unfolding text_fields_def by force
  then show ?thesis
    using secret_values_two [OF _ key(2)] unfolding fields_of_key [OF k(2) key(1) k(4,3)] by blast
qed

lemma adopt_not_dry:
  "wp (adopt_config env fuel o' d) (\<lambda>kc _. (kc = None) = bo_dry_run o') (\<lambda>_ _. True) h"
  by (auto simp: adopt_config_def adopt_server_def get_token_def wp kubectl_def case_prod_unfold
      intro!: wp_bound split: sum.split)

lemma rotate_not_dry:
  "wp (rotate_config env fuel o' d) (\<lambda>kc _. (kc = None) = bo_dry_run o') (\<lambda>_ _. True) h"
  by (auto simp: rotate_config_def get_token_def wp kubectl_def case_prod_unfold
      intro!: wp_bound split: sum.split)

lemma finish_run_outcome:
  assumes "finish_run marshal r path d res = Some (e, d', h)" "seal_tmp r path \<notin> dom d"
    and dry: "\<And>kc h. res = Some (Inr kc, h) \<Longrightarrow> (kc = None) = dry"
  shows "case e of
      Some _ \<Rightarrow> \<forall>p. p \<noteq> seal_tmp r path \<longrightarrow> d' p = d p
    | None \<Rightarrow> if dry then d' = d
        else \<exists>kc plain enc. res = Some (Inr (Some kc), h) \<and> marshal kc = Some plain \<and>
          d' = d(path \<mapsto> \<lparr>f_content = enc, f_mode = 384\<rparr>) \<and> all_encrypted plain enc"
proof -
  obtain out h0 where o: "res = Some (out, h0)"
    using assms(1) by (cases res) (auto simp: finish_run_def)
  have res: "res = Some (out, h)" and fin: "(e, d') = (case out of
       Inl x \<Rightarrow> (Some (Config_Error x), d)
     | Inr kc \<Rightarrow> seal_config marshal r path kc d)"
    using assms(1) by (cases out; auto simp: finish_run_def o split: prod.splits)+
  show ?thesis
  proof (cases out)
    case (Inr kc)
    then have k: "(kc = None) = dry" using dry res by simp
    have f: "(e, d') = seal_config marshal r path kc d" using fin Inr by simp
    show ?thesis
    proof (cases kc)
      case (Some c)
      show ?thesis
      proof (cases "marshal c")
        case (Some plain)
        obtain e1 where b: "bg_encrypt r path plain d = (e1, d')" and e: "e = map_option Seal_Error e1"
          using f \<open>kc = Some c\<close> Some by (auto simp: seal_config_def split: prod.splits)
        show ?thesis
          using bg_encrypt_outcome [OF b assms(2)] e k Some \<open>kc = Some c\<close> Inr res by (cases e1) auto
      qed (use f Some in \<open>auto simp: seal_config_def\<close>)
    qed (use f k in \<open>auto simp: seal_config_def\<close>)
  qed (use fin in auto)
qed

section \<open>Properties\<close>

text \<open>C23. The break-glass credential is never in the clear in the fleet. Whichever of the two
  operations runs, and whatever fails on the way, a run that reports an error leaves every file
  but its temporary one as it was, and one that succeeds has, unless it was a dry run, replaced
  the tracked file alone by a text, readable by the owner only, made from the kubeconfig that the run has
  built.  In this text no value of eight or more characters occurs that the encoded kubeconfig gives, on a
  line of its own and without blanks, to one of the keys token, client-key-data, client-certificate-data
  and password; so neither does the token of the kubeconfig when the encoder writes it so.\<close>

theorem break_glass_sealed:
  assumes "(if rotating then rotate env marshal r fuel o' d else adopt env marshal r fuel o' d) = Some (e, d', h)"
    "seal_tmp r (bg_target o') \<notin> dom d"
  shows "case e of
      Some _ \<Rightarrow> \<forall>p. p \<noteq> seal_tmp r (bg_target o') \<longrightarrow> d' p = d p
    | None \<Rightarrow> if bo_dry_run o' then d' = d
        else \<exists>kc plain enc.
          (if rotating then rotate_config env fuel o' d [] else adopt_config env fuel o' d []) = Some (Inr (Some kc), h) \<and>
          marshal kc = Some plain \<and> d' = d(bg_target o' \<mapsto> \<lparr>f_content = enc, f_mode = 384\<rparr>) \<and>
          (\<forall>v. gives_secret plain v \<and> 8 \<le> length v \<longrightarrow> \<not> contains enc v)"
proof -
  let ?res = "if rotating then rotate_config env fuel o' d [] else adopt_config env fuel o' d []"
  have run: "finish_run marshal r (bg_target o') d ?res = Some (e, d', h)"
    using assms(1) by (simp add: adopt_def rotate_def split: if_splits)
  have dry: "(kc = None) = bo_dry_run o'" if "?res = Some (Inr kc, h0)" for kc h0
    using that wp_Inr [OF adopt_not_dry] wp_Inr [OF rotate_not_dry] by (cases rotating) auto
  have out: "case e of
      Some _ \<Rightarrow> \<forall>p. p \<noteq> seal_tmp r (bg_target o') \<longrightarrow> d' p = d p
    | None \<Rightarrow> if bo_dry_run o' then d' = d
        else \<exists>kc plain enc. ?res = Some (Inr (Some kc), h) \<and> marshal kc = Some plain \<and>
          d' = d(bg_target o' \<mapsto> \<lparr>f_content = enc, f_mode = 384\<rparr>) \<and> all_encrypted plain enc"
    using run assms(2) dry by (rule finish_run_outcome)
  show ?thesis
  proof (cases "e = None \<and> \<not> bo_dry_run o'")
    case True
    then obtain kc plain enc where kc: "?res = Some (Inr (Some kc), h)" "marshal kc = Some plain" "all_encrypted plain enc"
        "d' = d(bg_target o' \<mapsto> \<lparr>f_content = enc, f_mode = 384\<rparr>)"
      using out by auto
    then have "\<forall>v. gives_secret plain v \<and> 8 \<le> length v \<longrightarrow> \<not> contains enc v"
      using encrypted_value given_secret_checked by blast
    then show ?thesis using kc True by (simp only: simp_thms option.case if_False) blast
  qed (use out in \<open>auto split: option.splits\<close>)
qed

text \<open>C24. A rotation puts a token into the fleet that was read after the old one was revoked. In a
  rotation that succeeds and is no dry run, the calls are, in this order, the deletion of the
  Secret, which succeeded, the manifest, which was applied, and then only readings of the Secret,
  of which the last one gave the token and the CA of the kubeconfig, both non-empty.\<close>

theorem rotated_token_fresh:
  assumes "rotate_config env fuel o' d h = Some (Inr (Some kc), h')"
  shows "\<exists>ok1 ok2 evs ca. h' = h @ [Kubectl (with_context (bo_context o') delete_args) (Inr ok1),
       Kubectl (with_context (bo_context o') apply_args) (Inr ok2)] @ evs \<and>
     token_read env (bo_context o') evs (bk_token kc, ca) \<and> bk_ca kc = encode std_digits True ca"
proof -
  let ?Q = "\<lambda>c h'. c \<noteq> None \<longrightarrow> (\<exists>ok1 ok2 evs ca. h' = h @ [Kubectl (with_context (bo_context o') delete_args) (Inr ok1),
       Kubectl (with_context (bo_context o') apply_args) (Inr ok2)] @ evs \<and>
     token_read env (bo_context o') evs (bk_token (the c), ca) \<and> bk_ca (the c) = encode std_digits True ca)"
  have tail: "wp (get_token env fuel ctx) (\<lambda>tc h'. ?Q (Some (build_kubeconfig cl srv (fst tc) (snd tc))) h') (\<lambda>_ _. True)
      (h @ [Kubectl (with_context (bo_context o') delete_args) (Inr ok1), Kubectl (with_context (bo_context o') apply_args) (Inr ok2)])"
    if "ctx = bo_context o'" for ctx cl srv ok1 ok2
    by (rule wp_conseq [OF get_token_reads]) (auto simp: that build_kubeconfig_def)
  have "wp (rotate_config env fuel o' d) ?Q (\<lambda>_ _. True) h"
    unfolding rotate_config_def
    by (auto simp: wp kubectl_def case_prod_unfold split: sum.split intro!: tail [simplified])
  from wp_Inr [OF this assms] show ?thesis by simp
qed

text \<open>Where the address comes from: a rotation without an explicit server and without one in the
  configuration publishes a kubeconfig with no address at all, where adoption asks kubectl.\<close>

lemma rotation_loses_server:
  assumes "configured_server o' d = []" "rotate_config env fuel o' d h = Some (Inr (Some kc), h')"
  shows "bk_server kc = []"
proof -
  have "wp (rotate_config env fuel o' d) (\<lambda>c _. c \<noteq> None \<longrightarrow> bk_server (the c) = []) (\<lambda>_ _. True) h"
    by (auto simp: rotate_config_def get_token_def wp kubectl_def case_prod_unfold build_kubeconfig_def assms(1)
        intro!: wp_bound split: sum.split)
  from wp_Inr [OF this assms(2)] show ?thesis by simp
qed

lemma adoption_asks_for_server:
  "configured_server o' d = [] \<Longrightarrow> adopt_server env o' d h =
     (case be_kubectl env h (with_context (bo_context o') view_args) of
        Inl e \<Rightarrow> Some (Inl (No_Server e), h @ [Kubectl (with_context (bo_context o') view_args) (Inl e)])
      | Inr out \<Rightarrow> Some (Inr (trim_space out), h @ [Kubectl (with_context (bo_context o') view_args) (Inr out)]))"
  by (simp add: adopt_server_def kubectl_def bind_def ask_def check_err_def fail_def ret_def split: sum.split)

section \<open>A concrete rotation\<close>

definition demo_bg_env :: bg_env where
  "demo_bg_env = \<lparr>be_overlay = (\<lambda>_. True), be_kubectl = (\<lambda>h args. Inr ''ok''),
     be_now = (\<lambda>h. int (length h) * second), be_wait = (\<lambda>_. False),
     be_data = (\<lambda>out. Inr [''token'' \<mapsto> encode std_digits True ''new-token'', ''ca.crt'' \<mapsto> encode std_digits True ''ca''])\<rparr>"

definition demo_bg_options :: bg_options where
  "demo_bg_options = \<lparr>bo_fleet_root = ''/f'', bo_cluster = ''eu/dc1'', bo_context = [], bo_server = ''https://k:6443'', bo_dry_run = False\<rparr>"

definition demo_bg_fleet :: fs where
  "demo_bg_fleet = [bg_target demo_bg_options \<mapsto> \<lparr>f_content = ''old'', f_mode = 384\<rparr>]"

definition demo_marshal :: "bg_config \<Rightarrow> string option" where
  "demo_marshal c = Some (''server: '' @ bk_server c @ [NL] @ ''  token: '' @ bk_token c @ [NL])"

definition demo_seal :: seal_run where
  "demo_seal = \<lparr>sl_rnd = ''1'', sl_create_ok = True, sl_written = None, sl_close_ok = True, sl_chmod_ok = True,
     sl_sops = (\<lambda>plain. (True, ''token: ENC[x]'')), sl_read_ok = True, sl_rename_ok = True, sl_remove_ok = True\<rparr>"

definition demo_config :: bg_config where
  "demo_config = build_kubeconfig ''eu/dc1'' ''https://k:6443'' ''new-token'' ''ca''"

lemma demo_token: "token_of demo_bg_env out = Inr (''new-token'', ''ca'')"
  by (simp add: token_of_def demo_bg_env_def decode_encode del: encode.simps)

lemma demo_kubectl: "be_kubectl demo_bg_env = (\<lambda>_ _. Inr ''ok'')"
  by (simp add: demo_bg_env_def)

definition demo_events :: "bg_event list" where
  "demo_events = map (\<lambda>args. Kubectl args (Inr ''ok'')) [delete_args, apply_args, get_args]"

lemma demo_rotation_config:
  "rotate_config demo_bg_env (Suc 0) demo_bg_options demo_bg_fleet [] = Some (Inr (Some demo_config), demo_events)"
  by (simp add: rotate_config_def demo_bg_options_def demo_bg_fleet_def demo_config_def demo_kubectl
      demo_token bind_def guard_def ret_def kubectl_def ask_def observe_def check_err_def get_token_def read_token_def
      configured_server_def with_context_def demo_events_def)

definition demo_plain :: string where
  "demo_plain = ''server: https://k:6443'' @ [NL] @ ''  token: new-token'' @ [NL]"

lemma demo_marshal_config: "demo_marshal demo_config = Some demo_plain"
  by (simp add: demo_marshal_def demo_config_def build_kubeconfig_def demo_plain_def)

lemma demo_secrets: "secret_values (text_fields demo_plain) = [''new-token'']"
  by code_simp

lemma demo_sealed: "fst (bg_encrypt demo_seal (bg_target demo_bg_options) demo_plain demo_bg_fleet) = None"
  by code_simp

definition demo_rotation :: "(run_error option \<times> fs \<times> bg_event list) option" where
  "demo_rotation = rotate demo_bg_env demo_marshal demo_seal (Suc 0) demo_bg_options demo_bg_fleet"

lemma demo_rotation_run: "\<exists>d'. demo_rotation = Some (None, d', demo_events)"
  using demo_sealed
  by (cases "bg_encrypt demo_seal (bg_target demo_bg_options) demo_plain demo_bg_fleet")
    (simp add: demo_rotation_def rotate_def finish_run_def demo_rotation_config seal_config_def demo_marshal_config)

theorem break_glass_sealed_witness:
  "\<exists>d' enc. demo_rotation = Some (None, d', demo_events) \<and> d' (bg_target demo_bg_options) = Some \<lparr>f_content = enc, f_mode = 384\<rparr>
     \<and> \<not> contains enc ''new-token''"
proof -
  obtain d' where run: "demo_rotation = Some (None, d', demo_events)" using demo_rotation_run by blast
  have "seal_tmp demo_seal (bg_target demo_bg_options) \<notin> dom demo_bg_fleet"
    using seal_tmp_longer [of "bg_target demo_bg_options" demo_seal] by (auto simp: demo_bg_fleet_def)
  note sealed = break_glass_sealed [of True, simplified if_True, OF run [unfolded demo_rotation_def] this]
  have "\<not> bo_dry_run demo_bg_options" by (simp add: demo_bg_options_def)
  then obtain plain enc where enc: "demo_marshal demo_config = Some plain"
      "d' (bg_target demo_bg_options) = Some \<lparr>f_content = enc, f_mode = 384\<rparr>"
      "\<And>v. gives_secret plain v \<Longrightarrow> 8 \<le> length v \<Longrightarrow> \<not> contains enc v"
    using sealed by (auto simp: demo_rotation_config)
  have "''  '' @ ''token'' @ '': '' @ ''new-token'' \<in> set (split_on NL demo_plain)"
    "list_all re_space ''  ''" "list_all (\<lambda>c. \<not> re_space c) ''new-token''"
    by code_simp+
  then have "gives_secret demo_plain ''new-token''" unfolding gives_secret_def by blast
  then have "\<not> contains enc ''new-token''" using enc(1,3) by (simp add: demo_marshal_config)
  then show ?thesis using run enc(2) by blast
qed

theorem rotated_token_fresh_witness: "bk_token demo_config = ''new-token'' \<and>
    (\<exists>evs ca. demo_events = [Kubectl delete_args (Inr ''ok''), Kubectl apply_args (Inr ''ok'')] @ evs \<and>
      token_read demo_bg_env [] evs (''new-token'', ca))"
proof -
  have "bk_token demo_config = ''new-token''" by (simp add: demo_config_def build_kubeconfig_def)
  then show ?thesis
    using rotated_token_fresh [OF demo_rotation_config]
    by (auto simp: demo_events_def demo_bg_options_def with_context_def)
qed

end
