(* ===== verification/Doctor.thy ===== *)
theory Doctor
  imports Go_Strings "HOL-Library.Product_Lexorder" "HOL-Library.Char_ord" "HOL-Library.List_Lexorder" "HOL-Library.Multiset"
begin

text \<open>
  The probe runner and the report of \<open>bootstrap doctor\<close>
  (\<open>cli/internal/bootstrap/doctor/runner.go\<close>, \<open>printer.go\<close>, the results of
  \<open>ports/probe.go\<close>).  A probe is the result it gives; the runner starts all of them at once and
  stores each in its own slot, so the schedule is a permutation of the slots.  The report is the
  one without colours: the terminal styles belong to a library.
\<close>

section \<open>Severities, categories and results\<close>

datatype severity = Info | Warn | Blocker | Fatal

datatype category = Physical | Accelerators | Auto_Handled | Verifies_Suggests

fun severity_rank :: "severity \<Rightarrow> nat" where
  "severity_rank Info = 0"
| "severity_rank Warn = 1"
| "severity_rank Blocker = 2"
| "severity_rank Fatal = 3"

fun category_rank :: "category \<Rightarrow> nat" where
  "category_rank Physical = 0"
| "category_rank Accelerators = 1"
| "category_rank Auto_Handled = 2"
| "category_rank Verifies_Suggests = 3"

lemma severity_rank_eq: "severity_rank a = severity_rank b \<Longrightarrow> a = b"
  by (cases a; cases b) simp_all

lemma category_rank_eq: "category_rank a = category_rank b \<Longrightarrow> a = b"
  by (cases a; cases b) simp_all

text \<open>Both are ordered as the integers they are in the code.\<close>

instantiation severity :: linorder
begin

definition less_eq_severity :: "severity \<Rightarrow> severity \<Rightarrow> bool" where
  "a \<le> b \<longleftrightarrow> severity_rank a \<le> severity_rank b"

definition less_severity :: "severity \<Rightarrow> severity \<Rightarrow> bool" where
  "a < b \<longleftrightarrow> severity_rank a < severity_rank b"

instance
  by standard (auto simp: less_eq_severity_def less_severity_def intro: severity_rank_eq)

end

instantiation category :: linorder
begin

definition less_eq_category :: "category \<Rightarrow> category \<Rightarrow> bool" where
  "a \<le> b \<longleftrightarrow> category_rank a \<le> category_rank b"

definition less_category :: "category \<Rightarrow> category \<Rightarrow> bool" where
  "a < b \<longleftrightarrow> category_rank a < category_rank b"

instance
  by standard (auto simp: less_eq_category_def less_category_def intro: category_rank_eq)

end

datatype status = Missing | Partial | Installed | Managed

record dns_record =
  dr_type :: string
  dr_name :: string
  dr_value :: string
  dr_ttl :: int

record probe_result =
  pr_status :: status
  pr_severity :: severity
  pr_version :: string
  pr_detail :: string
  pr_hint :: string
  pr_records :: "dns_record list"

record named_result =
  nr_category :: category
  nr_name :: string
  nr_result :: probe_result

section \<open>The runner\<close>

text \<open>\<open>slots\<close> is the order in which the probes finish; each writes its own place of the slice.\<close>

definition fill_slots :: "nat list \<Rightarrow> named_result list \<Rightarrow> named_result option list" where
  "fill_slots slots probes =
     foldl (\<lambda>out i. out[i := Some (probes ! i)]) (replicate (length probes) None) slots"

definition result_key :: "named_result \<Rightarrow> category \<times> string" where
  "result_key r = (nr_category r, nr_name r)"

definition run_all :: "nat list \<Rightarrow> named_result list \<Rightarrow> named_result list" where
  "run_all slots probes = sort_key result_key (map the (fill_slots slots probes))"

section \<open>The report\<close>

definition ordered_categories :: "category list" where
  "ordered_categories = [Physical, Accelerators, Auto_Handled, Verifies_Suggests]"

definition category_text :: "category \<Rightarrow> string" where
  "category_text c = (case c of Physical \<Rightarrow> ''Physical world'' | Accelerators \<Rightarrow> ''Accelerators''
     | Auto_Handled \<Rightarrow> ''Auto-handled by CLI'' | Verifies_Suggests \<Rightarrow> ''CLI verifies + suggests'')"

definition bucket :: "named_result list \<Rightarrow> category \<Rightarrow> named_result list" where
  "bucket rs c = sort_key nr_name (filter (\<lambda>r. nr_category r = c) rs)"

definition column_width :: "named_result list \<Rightarrow> nat" where
  "column_width rs = foldl (\<lambda>w r. if w < length (nr_name r) then length (nr_name r) else w) 18 rs"

definition pad_right :: "string \<Rightarrow> nat \<Rightarrow> string" where
  "pad_right s w = (if w \<le> length s then s else s @ replicate (w - length s) (CHR '' ''))"

text \<open>The four glyphs, in UTF-8: a check mark, a middle dot, a warning sign and a cross.\<close>

definition status_icon :: "probe_result \<Rightarrow> string" where
  "status_icon r = (case pr_severity r of
     Info \<Rightarrow> if pr_status r = Installed \<or> pr_status r = Managed
       then [CHR 0xE2, CHR 0x9C, CHR 0x93] else [CHR 0xC2, CHR 0xB7]
   | Warn \<Rightarrow> [CHR 0xE2, CHR 0x9A, CHR 0xA0]
   | _ \<Rightarrow> [CHR 0xE2, CHR 0x9C, CHR 0x97])"

definition format_row :: "nat \<Rightarrow> named_result \<Rightarrow> string" where
  "format_row w r =
     (let p = nr_result r;
          detail = (if pr_version p \<noteq> [] \<and> \<not> contains (pr_detail p) (pr_version p)
            then pr_version p @ ''  '' @ pr_detail p else pr_detail p) in
      ''  '' @ status_icon p @ ''  '' @ pad_right (nr_name r) w @ ''  '' @ detail)"

definition hint_prefix :: string where
  "hint_prefix = ''      ''"

definition hint_lines :: "probe_result \<Rightarrow> string list" where
  "hint_lines p =
     (if pr_hint p \<noteq> [] then map (\<lambda>l. hint_prefix @ l) (split_on NL (pr_hint p)) else [])
     @ (if pr_records p = [] then []
        else (hint_prefix @ ''Add these DNS records:'')
          # map (\<lambda>d. hint_prefix @ ''  '' @ dr_type d @ ''   '' @ dr_name d @ ''   '' @ dr_value d
              @ ''   '' @ itoa (dr_ttl d)) (pr_records p))"

definition row_lines :: "nat \<Rightarrow> named_result \<Rightarrow> string list" where
  "row_lines w r = format_row w r # hint_lines (nr_result r)"

definition section_lines :: "nat \<Rightarrow> named_result list \<Rightarrow> category \<Rightarrow> string list" where
  "section_lines w rs c = (case bucket rs c of
     [] \<Rightarrow> []
   | rows \<Rightarrow> [category_text c @ '':''] @ concat (map (row_lines w) rows) @ [[]])"

definition count_severity :: "(severity \<Rightarrow> bool) \<Rightarrow> named_result list \<Rightarrow> nat" where
  "count_severity P rs = length (filter (\<lambda>r. P (pr_severity (nr_result r))) rs)"

definition blockers :: "named_result list \<Rightarrow> nat" where
  "blockers = count_severity (\<lambda>s. s = Blocker \<or> s = Fatal)"

definition warnings :: "named_result list \<Rightarrow> nat" where
  "warnings = count_severity (\<lambda>s. s = Warn)"

definition infos :: "named_result list \<Rightarrow> nat" where
  "infos = count_severity (\<lambda>s. s = Info)"

definition footer :: "string \<Rightarrow> named_result list \<Rightarrow> string" where
  "footer nxt rs =
     join '', '' [itoa (int (blockers rs)) @ '' blockers'', itoa (int (warnings rs)) @ '' warnings'',
       itoa (int (infos rs)) @ '' info''] @ (if nxt \<noteq> [] then ''; Next: '' @ nxt else [])"

definition max_severity :: "named_result list \<Rightarrow> severity" where
  "max_severity rs = foldl (\<lambda>m r. if m < pr_severity (nr_result r) then pr_severity (nr_result r) else m) Info rs"

fun exit_code_for :: "severity \<Rightarrow> int" where
  "exit_code_for Fatal = 3"
| "exit_code_for Blocker = 2"
| "exit_code_for Warn = 1"
| "exit_code_for Info = 0"

definition print_report :: "string \<Rightarrow> named_result list \<Rightarrow> string list \<times> int" where
  "print_report nxt rs =
     (concat (map (section_lines (column_width rs) rs) ordered_categories) @ [footer nxt rs],
      exit_code_for (max_severity rs))"

section \<open>The schedule does not matter\<close>

lemma fill_slots_length: "length (foldl (\<lambda>out i. out[i := Some (probes ! i)]) out slots) = length out"
  by (induction slots arbitrary: out) simp_all

lemma fill_slots_nth:
  assumes "\<forall>i\<in>set slots. i < length out" "j < length out"
  shows "foldl (\<lambda>out i. out[i := Some (probes ! i)]) out slots ! j = (if j \<in> set slots then Some (probes ! j) else out ! j)"
  using assms
proof (induction slots rule: rev_induct)
  case (snoc i slots)
  then show ?case
    by (cases "j = i") (simp_all add: fill_slots_length nth_list_update)
qed simp

lemma fill_slots_all:
  assumes "set slots = {..<length probes}"
  shows "map the (fill_slots slots probes) = probes"
  unfolding fill_slots_def
  using assms by (intro nth_equalityI) (simp_all add: fill_slots_length fill_slots_nth)

section \<open>Sections are a sort\<close>

lemma in_category: "nr_category r \<in> set ordered_categories"
  by (cases "nr_category r") (simp_all add: ordered_categories_def)

lemma bucket_category: "r \<in> set (bucket rs c) \<Longrightarrow> nr_category r = c"
  by (simp add: bucket_def)

lemma bucket_filter:
  "filter (\<lambda>x. result_key k = result_key x) (bucket rs c) =
     (if c = nr_category k then filter (\<lambda>x. result_key k = result_key x) rs else [])"
proof (cases "c = nr_category k")
  case True
  have "filter (\<lambda>x. nr_name x = nr_name k) (sort_key nr_name (filter (\<lambda>r. nr_category r = c) rs))
      = filter (\<lambda>x. nr_name x = nr_name k) (filter (\<lambda>r. nr_category r = c) rs)"
    by (rule sort_key_stable)
  moreover have "filter (\<lambda>x. result_key k = result_key x) (bucket rs c) =
      filter (\<lambda>x. nr_name x = nr_name k) (bucket rs c)"
    by (rule filter_cong) (auto simp: result_key_def True dest: bucket_category)
  ultimately show ?thesis
    using True by (auto simp: bucket_def result_key_def intro!: filter_cong)
next
  case False
  then show ?thesis
    by (auto simp: filter_empty_conv result_key_def dest: bucket_category)
qed

lemma sorted_map_pair: "sorted (map f xs) \<Longrightarrow> sorted (map (\<lambda>r. (c, f r)) xs)"
  for f :: "'a \<Rightarrow> 'b :: linorder" and c :: "'c :: linorder"
  by (induction xs) auto

lemma bucket_sorted: "sorted (map result_key (bucket rs c))"
proof -
  have "sorted (map (\<lambda>r. (c, nr_name r)) (bucket rs c))"
    by (rule sorted_map_pair) (simp add: bucket_def)
  moreover have eq: "map result_key (bucket rs c) = map (\<lambda>r. (c, nr_name r)) (bucket rs c)"
    by (rule map_cong) (auto simp: result_key_def dest: bucket_category)
  ultimately show ?thesis unfolding eq by blast
qed

lemma sections_sorted:
  "sorted cs \<Longrightarrow> distinct cs \<Longrightarrow> sorted (map result_key (concat (map (bucket rs) cs)))"
proof (induction cs)
  case (Cons c cs)
  have "result_key x \<le> result_key y" if "x \<in> set (bucket rs c)" "y \<in> set (bucket rs c')" "c' \<in> set cs" for x y c'
  proof -
    have "c < c'" using that(3) Cons.prems by (auto simp: order.strict_iff_order)
    then show ?thesis using that(1,2) by (auto simp: result_key_def dest!: bucket_category)
  qed
  then show ?case
    using Cons bucket_sorted [of rs c] by (auto simp: sorted_append)
qed simp

lemma sections_filter:
  "distinct cs \<Longrightarrow> filter (\<lambda>x. result_key k = result_key x) (concat (map (bucket rs) cs)) =
     (if nr_category k \<in> set cs then filter (\<lambda>x. result_key k = result_key x) rs else [])"
  by (induction cs) (auto simp: bucket_filter)

lemma sections_mset: "mset (concat (map (bucket rs) ordered_categories)) = mset rs"
proof -
  have "mset (concat (map (bucket rs) ordered_categories)) =
      filter_mset (\<lambda>r. nr_category r = Physical) (mset rs) + (filter_mset (\<lambda>r. nr_category r = Accelerators) (mset rs)
      + (filter_mset (\<lambda>r. nr_category r = Auto_Handled) (mset rs) + filter_mset (\<lambda>r. nr_category r = Verifies_Suggests) (mset rs)))"
    by (simp add: ordered_categories_def bucket_def)
  also have "\<dots> = mset rs"
  proof (induction rs)
    case (Cons r rs)
    then show ?case by (cases "nr_category r") simp_all
  qed simp
  finally show ?thesis .
qed

lemma ordered_categories_order: "sorted ordered_categories" "distinct ordered_categories"
  by (simp_all add: ordered_categories_def less_eq_category_def)

lemma sections_sort: "concat (map (bucket rs) ordered_categories) = sort_key result_key rs"
proof (rule properties_for_sort_key [symmetric])
  show "mset (concat (map (bucket rs) ordered_categories)) = mset rs" by (rule sections_mset)
  show "filter (\<lambda>x. result_key k = result_key x) (concat (map (bucket rs) ordered_categories))
      = filter (\<lambda>x. result_key k = result_key x) rs" for k
    by (simp add: sections_filter ordered_categories_order in_category)
  show "sorted (map result_key (concat (map (bucket rs) ordered_categories)))"
    by (intro sections_sorted ordered_categories_order)
qed

section \<open>The report as one pass over the sorted rows\<close>

text \<open>What a reader is promised: a heading wherever the category changes, the lines of each row
  below it, and a blank line at the end of each section.\<close>

fun listing :: "nat \<Rightarrow> category option \<Rightarrow> named_result list \<Rightarrow> string list" where
  "listing w prev [] = (if prev = None then [] else [[]])"
| "listing w prev (r # rs) =
     (if prev = Some (nr_category r) then []
      else (if prev = None then [] else [[]]) @ [category_text (nr_category r) @ '':''])
     @ row_lines w r @ listing w (Some (nr_category r)) rs"

lemma listing_same:
  "\<forall>r\<in>set rows. nr_category r = c \<Longrightarrow>
     listing w (Some c) (rows @ rs) = concat (map (row_lines w) rows) @ listing w (Some c) rs"
  by (induction rows) simp_all

lemma listing_sections:
  "distinct cs \<Longrightarrow> \<forall>c\<in>set cs. prev \<noteq> Some c \<Longrightarrow>
     listing w prev (concat (map (bucket rs) cs)) =
       (if prev = None then [] else [[]]) @ concat (map (section_lines w rs) cs)"
proof (induction cs arbitrary: prev)
  case (Cons c cs)
  show ?case
  proof (cases "bucket rs c")
    case Nil
    then show ?thesis using Cons by (simp add: section_lines_def)
  next
    case (Cons r rows)
    then have c: "nr_category r = c" "\<forall>r\<in>set rows. nr_category r = c"
      using bucket_category [of _ rs c] by (metis list.set_intros)+
    have "\<forall>c'\<in>set cs. Some c \<noteq> Some c'" using Cons.prems(1) by auto
    with Cons.prems(1) have "listing w (Some c) (concat (map (bucket rs) cs)) = [] # concat (map (section_lines w rs) cs)"
      using Cons.IH [of "Some c"] by simp
    moreover have "section_lines w rs c = (category_text c @ '':'') # concat (map (row_lines w) (r # rows)) @ [[]]"
      using Cons by (simp add: section_lines_def)
    ultimately show ?thesis using c Cons Cons.prems(2) by (simp add: listing_same)
  qed
qed simp

text \<open>What one row shows: its mark, its name in a column as wide as that of every other row, its
  detail and its version, and below it its hint and its records.\<close>

definition row_of :: "nat \<Rightarrow> named_result \<Rightarrow> string list \<Rightarrow> bool" where
  "row_of w r ls \<longleftrightarrow> (let p = nr_result r in
     \<exists>icon gap shown hints recs.
       ls = (''  '' @ icon @ ''  '' @ nr_name r @ gap @ shown) # map (\<lambda>l. hint_prefix @ l) (hints @ recs) \<and>
       set gap \<subseteq> {CHR '' ''} \<and> length (nr_name r @ gap) = w + 2 \<and>
       contains shown (pr_detail p) \<and> contains shown (pr_version p) \<and>
       (icon = [CHR 0xE2, CHR 0x9C, CHR 0x97] \<longleftrightarrow> Blocker \<le> pr_severity p) \<and>
       (icon = [CHR 0xE2, CHR 0x9A, CHR 0xA0] \<longleftrightarrow> pr_severity p = Warn) \<and>
       join [NL] hints = pr_hint p \<and>
       (\<forall>d\<in>set (pr_records p). \<exists>l\<in>set recs. \<forall>s\<in>{dr_type d, dr_name d, dr_value d, itoa (dr_ttl d)}. contains l s))"

lemma column_width_max:
  "foldl (\<lambda>w r. if w < length (nr_name r) then length (nr_name r) else w) w0 rs =
     foldl (\<lambda>w r. max w (length (nr_name r))) w0 rs"
  by (rule foldl_cong) (auto simp: max_def)

lemma column_width_fits: "r \<in> set rs \<Longrightarrow> length (nr_name r) \<le> column_width rs"
proof -
  have "w0 \<le> foldl (\<lambda>w r. max w (length (nr_name r))) w0 rs \<and>
      (\<forall>r\<in>set rs. length (nr_name r) \<le> foldl (\<lambda>w r. max w (length (nr_name r))) w0 rs)" for w0
  proof (induction rs arbitrary: w0)
    case (Cons r rs)
    from Cons.IH [of "max w0 (length (nr_name r))"] show ?case by auto
  qed simp
  then show "r \<in> set rs \<Longrightarrow> length (nr_name r) \<le> column_width rs"
    by (simp add: column_width_def column_width_max)
qed

lemma contains_self: "contains (a @ s @ b) s"
  by (auto simp: contains_iff)

lemma status_icon_severity:
  "status_icon p = [CHR 0xE2, CHR 0x9C, CHR 0x97] \<longleftrightarrow> Blocker \<le> pr_severity p"
  "status_icon p = [CHR 0xE2, CHR 0x9A, CHR 0xA0] \<longleftrightarrow> pr_severity p = Warn"
  by (cases "pr_severity p"; simp add: status_icon_def less_eq_severity_def)+

lemma row_lines_shape: "length (nr_name r) \<le> w \<Longrightarrow> row_of w r (row_lines w r)"
proof -
  assume fits: "length (nr_name r) \<le> w"
  let ?p = "nr_result r"
  define gap where "gap = replicate (w - length (nr_name r)) (CHR '' '') @ ''  ''"
  define shown where "shown = (if pr_version ?p \<noteq> [] \<and> \<not> contains (pr_detail ?p) (pr_version ?p)
    then pr_version ?p @ ''  '' @ pr_detail ?p else pr_detail ?p)"
  define hints where "hints = (if pr_hint ?p \<noteq> [] then split_on NL (pr_hint ?p) else [])"
  define recs where "recs = (if pr_records ?p = [] then [] else ''Add these DNS records:''
    # map (\<lambda>d. ''  '' @ dr_type d @ ''   '' @ dr_name d @ ''   '' @ dr_value d @ ''   '' @ itoa (dr_ttl d)) (pr_records ?p))"
  have line: "format_row w r = ''  '' @ status_icon ?p @ ''  '' @ nr_name r @ gap @ shown"
    using fits by (simp add: format_row_def pad_right_def gap_def shown_def Let_def)
  have below: "hint_lines ?p = map (\<lambda>l. hint_prefix @ l) (hints @ recs)"
    by (simp add: hint_lines_def hints_def recs_def)
  have gap: "set gap \<subseteq> {CHR '' ''}" "length (nr_name r @ gap) = w + 2"
    using fits by (auto simp: gap_def)
  have "contains shown (pr_detail ?p)" "contains shown (pr_version ?p)"
    using contains_self [of "pr_version ?p @ ''  ''" "pr_detail ?p" "[]"] contains_self [of "[]" "pr_version ?p"]
    by (auto simp: shown_def contains_self [of "[]" _ "[]", simplified])
  moreover have "join [NL] hints = pr_hint ?p" by (simp add: hints_def)
  moreover have "\<exists>l\<in>set recs. \<forall>s\<in>{dr_type d, dr_name d, dr_value d, itoa (dr_ttl d)}. contains l s"
    if "d \<in> set (pr_records ?p)" for d
  proof
    let ?l = "''  '' @ dr_type d @ ''   '' @ dr_name d @ ''   '' @ dr_value d @ ''   '' @ itoa (dr_ttl d)"
    show "?l \<in> set recs" using that by (force simp: recs_def)
    show "\<forall>s\<in>{dr_type d, dr_name d, dr_value d, itoa (dr_ttl d)}. contains ?l s"
      using contains_self [of "''  ''" "dr_type d" "''   '' @ dr_name d @ ''   '' @ dr_value d @ ''   '' @ itoa (dr_ttl d)"]
        contains_self [of "''  '' @ dr_type d @ ''   ''" "dr_name d" "''   '' @ dr_value d @ ''   '' @ itoa (dr_ttl d)"]
        contains_self [of "''  '' @ dr_type d @ ''   '' @ dr_name d @ ''   ''" "dr_value d" "''   '' @ itoa (dr_ttl d)"]
        contains_self [of "''  '' @ dr_type d @ ''   '' @ dr_name d @ ''   '' @ dr_value d @ ''   ''" "itoa (dr_ttl d)" "[]"]
      by (simp del: append_Cons append_Nil)
  qed
  ultimately show ?thesis
    using gap status_icon_severity [of ?p]
    unfolding row_of_def row_lines_def line below Let_def by blast
qed

section \<open>Severity of a report\<close>

lemma max_severity_fold:
  "foldl (\<lambda>m r. if m < pr_severity (nr_result r) then pr_severity (nr_result r) else m) s rs
     = foldl (\<lambda>m r. max m (pr_severity (nr_result r))) s rs"
  by (rule foldl_cong) (auto simp: max_def)

lemma max_severity_iff: "max_severity rs \<le> s \<longleftrightarrow> (\<forall>r\<in>set rs. pr_severity (nr_result r) \<le> s)"
proof -
  have "foldl (\<lambda>m r. max m (pr_severity (nr_result r))) s0 rs \<le> s \<longleftrightarrow>
      s0 \<le> s \<and> (\<forall>r\<in>set rs. pr_severity (nr_result r) \<le> s)" for s0
    by (induction rs arbitrary: s0) auto
  moreover have "Info \<le> s" by (simp add: less_eq_severity_def)
  ultimately show ?thesis by (simp add: max_severity_def max_severity_fold)
qed

lemma exit_code_rank: "exit_code_for s = int (severity_rank s)"
  by (cases s) simp_all

lemma exit_code_mono: "exit_code_for s \<le> exit_code_for t \<longleftrightarrow> s \<le> t"
  by (simp add: exit_code_rank less_eq_severity_def)

lemma counts_total: "blockers rs + warnings rs + infos rs = length rs"
proof (induction rs)
  case (Cons r rs)
  then show ?case
    by (cases "pr_severity (nr_result r)") (simp_all add: blockers_def warnings_def infos_def count_severity_def)
qed (simp add: blockers_def warnings_def infos_def count_severity_def)

lemma max_severity_least:
  "exit_code_for (max_severity rs) \<le> n \<longleftrightarrow> 0 \<le> n \<and> (\<forall>r\<in>set rs. exit_code_for (pr_severity (nr_result r)) \<le> n)"
proof -
  have "foldl (\<lambda>m r. max m (pr_severity (nr_result r))) s0 rs \<in> insert s0 ((\<lambda>r. pr_severity (nr_result r)) ` set rs)" for s0
    by (induction rs arbitrary: s0) (auto simp: max_def)
  from this [of Info] have "max_severity rs \<in> insert Info ((\<lambda>r. pr_severity (nr_result r)) ` set rs)"
    by (simp add: max_severity_def max_severity_fold)
  moreover have "\<forall>r\<in>set rs. exit_code_for (pr_severity (nr_result r)) \<le> exit_code_for (max_severity rs)"
    using max_severity_iff [of rs "max_severity rs"] by (simp add: exit_code_mono)
  moreover have "0 \<le> exit_code_for (max_severity rs)" by (simp add: exit_code_rank)
  ultimately show ?thesis by fastforce
qed

text \<open>How many of the probes have a severity that \<open>P\<close> holds of.\<close>

definition how_many :: "(severity \<Rightarrow> bool) \<Rightarrow> named_result list \<Rightarrow> int" where
  "how_many P probes = int (size {#r \<in># mset probes. P (pr_severity (nr_result r))#})"

lemma count_severity_how_many: "mset rs = mset probes \<Longrightarrow> int (count_severity P rs) = how_many P probes"
  by (simp add: count_severity_def how_many_def) (metis mset_filter size_mset)

lemma blocker_or_worse: "s = Blocker \<or> s = Fatal \<longleftrightarrow> Blocker \<le> s"
  by (cases s) (simp_all add: less_eq_severity_def)

section \<open>Properties\<close>

text \<open>C39. The plain report shows every probe once, in order, whichever probe answers first, and its
  verdict is its worst row. When every probe finishes, in whatever order, the report is one pass over
  the probes sorted by category and name: a heading where the category changes, the lines of each
  row, a blank line at the end of each section, and last the footer, whose counts are the blockers
  or worse, the warnings and the informations among the probes. A row shows its mark, which is a
  cross exactly for a blocker or worse and a warning sign exactly for a warning, its name in a column
  of the same width in every row, its detail and its version, and below it its hint and every DNS
  record with type, name, value and TTL. The exit code is the least one that is at least the code of
  every row, so it is zero exactly when no row is more than information.\<close>

theorem doctor_report_sound:
  assumes "set slots = {..<length probes}"
  shows "\<exists>w rows. mset rows = mset probes \<and> sorted (map result_key rows) \<and>
    fst (print_report nxt (run_all slots probes)) = listing w None rows @
      [itoa (how_many (\<lambda>s. Blocker \<le> s) probes) @ '' blockers, '' @ itoa (how_many (\<lambda>s. s = Warn) probes) @
       '' warnings, '' @ itoa (how_many (\<lambda>s. s = Info) probes) @ '' info'' @
       (if nxt = [] then [] else ''; Next: '' @ nxt)] \<and>
    rows = sort_key result_key probes \<and>
    (\<forall>r\<in>set probes. row_of w r (row_lines w r)) \<and>
    (\<forall>n. snd (print_report nxt (run_all slots probes)) \<le> n \<longleftrightarrow>
       0 \<le> n \<and> (\<forall>r\<in>set probes. exit_code_for (pr_severity (nr_result r)) \<le> n))"
proof -
  let ?rows = "sort_key result_key probes" and ?w = "column_width (sort_key result_key probes)"
  have run: "run_all slots probes = ?rows"
    by (simp add: run_all_def fill_slots_all [OF assms])
  have "concat (map (section_lines ?w ?rows) ordered_categories) =
      listing ?w None (concat (map (bucket ?rows) ordered_categories))"
    using listing_sections [of ordered_categories None ?w ?rows] by (simp add: ordered_categories_order)
  also have "\<dots> = listing ?w None ?rows"
    by (simp add: sections_sort sort_key_id_if_sorted)
  finally have body: "fst (print_report nxt ?rows) = listing ?w None ?rows @ [footer nxt ?rows]"
    by (simp add: print_report_def)
  have counts: "int (count_severity P ?rows) = how_many P probes" for P
    by (rule count_severity_how_many) simp
  have foot: "footer nxt ?rows = itoa (how_many (\<lambda>s. Blocker \<le> s) probes) @ '' blockers, '' @
      itoa (how_many (\<lambda>s. s = Warn) probes) @ '' warnings, '' @ itoa (how_many (\<lambda>s. s = Info) probes) @ '' info'' @
      (if nxt = [] then [] else ''; Next: '' @ nxt)"
    by (simp add: footer_def blockers_def warnings_def infos_def counts blocker_or_worse)
  show ?thesis
    using column_width_fits [of _ ?rows] max_severity_least [of ?rows]
    by (intro exI [of _ ?w] exI [of _ ?rows])
      (simp add: run body foot row_lines_shape, simp add: print_report_def)
qed

definition demo_probe :: "category \<Rightarrow> string \<Rightarrow> severity \<Rightarrow> named_result" where
  "demo_probe c n s = \<lparr>nr_category = c, nr_name = n, nr_result =
     \<lparr>pr_status = Missing, pr_severity = s, pr_version = [], pr_detail = ''d'', pr_hint = [], pr_records = []\<rparr>\<rparr>"

definition demo_probes :: "named_result list" where
  "demo_probes = [demo_probe Verifies_Suggests ''dns'' Warn, demo_probe Physical ''ram'' Info,
     demo_probe Physical ''cpu'' Blocker]"

theorem doctor_report_sound_witness:
  "\<exists>w. fst (print_report [] (run_all [2, 0, 1] demo_probes)) =
     listing w None [demo_probe Physical ''cpu'' Blocker, demo_probe Physical ''ram'' Info,
       demo_probe Verifies_Suggests ''dns'' Warn] @ [''1 blockers, 1 warnings, 1 info''] \<and>
   snd (print_report [] (run_all [2, 0, 1] demo_probes)) = 2"
proof -
  let ?report = "print_report [] (run_all [2, 0, 1] demo_probes)"
  have "set [2, 0, 1] = {..<length demo_probes}" by (auto simp: demo_probes_def)
  from doctor_report_sound [OF this, of "[]"] obtain w where
    lines: "fst ?report = listing w None (sort_key result_key demo_probes) @
      [itoa (how_many (\<lambda>s. Blocker \<le> s) demo_probes) @ '' blockers, '' @ itoa (how_many (\<lambda>s. s = Warn) demo_probes) @
       '' warnings, '' @ itoa (how_many (\<lambda>s. s = Info) demo_probes) @ '' info'']" and
    code: "\<And>n. snd ?report \<le> n \<longleftrightarrow> 0 \<le> n \<and> (\<forall>r\<in>set demo_probes. exit_code_for (pr_severity (nr_result r)) \<le> n)"
    by auto
  have "sort_key result_key demo_probes = [demo_probe Physical ''cpu'' Blocker, demo_probe Physical ''ram'' Info,
      demo_probe Verifies_Suggests ''dns'' Warn]"
    by code_simp
  moreover have "how_many (\<lambda>s. Blocker \<le> s) demo_probes = 1" "how_many (\<lambda>s. s = Warn) demo_probes = 1"
    "how_many (\<lambda>s. s = Info) demo_probes = 1"
    by (simp_all add: how_many_def demo_probes_def demo_probe_def less_eq_severity_def)
  moreover have "itoa 1 = ''1''" by code_simp
  ultimately have "fst ?report = listing w None [demo_probe Physical ''cpu'' Blocker, demo_probe Physical ''ram'' Info,
      demo_probe Verifies_Suggests ''dns'' Warn] @ [''1 blockers, 1 warnings, 1 info'']"
    by (simp only: lines) simp
  moreover have "snd ?report \<le> 2" "\<not> snd ?report \<le> 1"
    unfolding code by (simp_all add: demo_probes_def demo_probe_def)
  then have "snd ?report = 2" by linarith
  ultimately show ?thesis by blast
qed

end
