(* ===== verification/Topology.thy ===== *)
theory Topology
  imports Preset_Checks
begin

text \<open>
  The classification of a cluster's external network
  (\<open>cli/internal/bootstrap/topology/topology.go\<close>): the four probes over kubectl and the tally of
  their hints.  kubectl is a function from the arguments to its output, since every call only
  reads; the decoding of the EnvoyProxy resource is a parameter.  Of the
  texts only the detail of the first probe is modelled, which the classification searches; the
  reasons and recommendations are left out.
\<close>

section \<open>Signals and results\<close>

datatype net_class = Class_A | Class_B | Class_C | Class_Unknown

datatype verdict = Required | Not_Needed | Already_Enabled | Ambiguous

datatype confidence = High | Medium | Low | Unstated

record signal =
  sg_probe :: string
  sg_detail :: string
  sg_hint :: "net_class option"
  sg_confidence :: confidence

record topology =
  tp_class :: net_class
  tp_verdict :: verdict
  tp_confidence :: confidence
  tp_signals :: "signal list"

definition probe_platform :: string where "probe_platform = ''platform endpoints''"
definition probe_cloud :: string where "probe_cloud = ''cloud-provider''"
definition probe_ext_ips :: string where "probe_ext_ips = ''Envoy externalIPs''"
definition probe_host_net :: string where "probe_host_net = ''Envoy hostNetwork''"

section \<open>The classification\<close>

definition found_enabled :: "signal list \<Rightarrow> bool" where
  "found_enabled ss \<longleftrightarrow> list_ex (\<lambda>s. sg_probe s = probe_platform \<and>
     (contains (sg_detail s) ''kube-api-platform'' \<or> contains (sg_detail s) ''envoy-gateway-platform'')) ss"

definition hints :: "signal list \<Rightarrow> net_class \<Rightarrow> nat" where
  "hints ss c = length (filter (\<lambda>s. sg_hint s = Some c) ss)"

definition classify :: "signal list \<Rightarrow> topology" where
  "classify ss =
     (let r = (\<lambda>c v k. \<lparr>tp_class = c, tp_verdict = v, tp_confidence = k, tp_signals = ss\<rparr>) in
      if found_enabled ss then r Class_A Already_Enabled High
      else if 0 < hints ss Class_C then r Class_C Not_Needed Medium
      else if 0 < hints ss Class_B \<and> hints ss Class_A \<le> hints ss Class_B then r Class_B Not_Needed High
      else if 0 < hints ss Class_A then r Class_A Required Medium
      else r Class_Unknown Ambiguous Low)"

section \<open>The probes\<close>

text \<open>What the decoder finds in the EnvoyProxy resource: whether a daemon set shapes the data
  plane, the type of the service, its external addresses and its load balancer class.\<close>

record envoy_shape =
  es_daemon_set :: bool
  es_type :: string
  es_ext_ips :: "string list"
  es_lb_class :: string

record kube =
  kb_run :: "string list \<Rightarrow> string option"
  kb_decode :: "string \<Rightarrow> envoy_shape option"

abbreviation sig :: "string \<Rightarrow> string \<Rightarrow> net_class option \<Rightarrow> confidence \<Rightarrow> signal" where
  "sig p d h c \<equiv> \<lparr>sg_probe = p, sg_detail = d, sg_hint = h, sg_confidence = c\<rparr>"

definition api_svc_args :: "string list" where
  "api_svc_args = [''-n'', ''kube-system'', ''get'', ''svc'', ''kube-api-platform'', ''-o'', ''name'']"

definition envoy_svc_args :: "string list" where
  "envoy_svc_args = [''-n'', ''envoy-gateway-system'', ''get'', ''svc'', ''envoy-gateway-platform'', ''-o'', ''name'']"

definition node_ids_args :: "string list" where
  "node_ids_args = [''get'', ''nodes'', ''-o'',
     ''jsonpath={range .items[*]}{.spec.providerID}{'' @ [DQ] @ [CHR 0x5C] @ ''n'' @ [DQ] @ ''}{end}'']"

definition envoy_args :: "string \<Rightarrow> string list" where
  "envoy_args out = [''-n'', ''envoy-gateway-system'', ''get'', ''envoyproxy'', ''custom-proxy-config'', ''-o'', out]"

definition host_net_path :: string where
  "host_net_path = ''jsonpath={.spec.provider.kubernetes.envoyDeployment.patch.value.spec.template.spec.hostNetwork}''"

definition platform_services :: "kube \<Rightarrow> signal" where
  "platform_services k =
     (let api = (kb_run k api_svc_args \<noteq> None); envoy = (kb_run k envoy_svc_args \<noteq> None) in
      if api \<and> envoy then sig probe_platform ''both kube-api-platform + envoy-gateway-platform deployed'' (Some Class_A) High
      else if api then sig probe_platform ''kube-api-platform deployed (envoy-gateway-platform not yet)'' (Some Class_A) High
      else if envoy then sig probe_platform ''envoy-gateway-platform deployed (kube-api-platform not yet)'' (Some Class_A) High
      else sig probe_platform ''neither platform-endpoint Service present'' None High)"

definition cloud_provider :: "kube \<Rightarrow> signal" where
  "cloud_provider k = (case kb_run k node_ids_args of
     None \<Rightarrow> sig probe_cloud [] None Unstated
   | Some out \<Rightarrow>
       if list_ex (\<lambda>l. trim_space l \<noteq> []) (split_on NL (trim_space out))
       then sig probe_cloud [] (Some Class_C) Medium else sig probe_cloud [] None High)"

text \<open>\<open>strings.EqualFold\<close> against the two service types: of their letters only the s has a fold
  outside ASCII, the long s.\<close>

definition fold_equals :: "string \<Rightarrow> string \<Rightarrow> bool" where
  "fold_equals s t \<longleftrightarrow> equal_fold (replace_all s [CHR 0xC5, CHR 0xBF] ''s'') t"

definition envoy_external_ips :: "kube \<Rightarrow> signal" where
  "envoy_external_ips k = (case kb_run k (envoy_args ''json'') of
     None \<Rightarrow> sig probe_ext_ips [] None Unstated
   | Some out \<Rightarrow> (case kb_decode k out of
       None \<Rightarrow> sig probe_ext_ips [] None Unstated
     | Some e \<Rightarrow>
         if es_daemon_set e \<and> es_ext_ips e = [] then sig probe_ext_ips [] None Low
         else if es_ext_ips e \<noteq> [] then sig probe_ext_ips [] (Some Class_B) High
         else if fold_equals (es_type e) ''ClusterIP'' then sig probe_ext_ips [] (Some Class_A) Medium
         else if fold_equals (es_type e) ''LoadBalancer'' \<and> es_lb_class e = ''metallb''
         then sig probe_ext_ips [] (Some Class_A) Medium
         else sig probe_ext_ips [] None Unstated))"

definition envoy_host_network :: "kube \<Rightarrow> signal" where
  "envoy_host_network k = (case kb_run k (envoy_args host_net_path) of
     None \<Rightarrow> sig probe_host_net [] None Unstated
   | Some out \<Rightarrow>
       if trim_space out = ''true'' then sig probe_host_net [] (Some Class_A) Medium
       else sig probe_host_net [] None Unstated)"

definition probe_topology :: "kube \<Rightarrow> topology" where
  "probe_topology k =
     classify [platform_services k, cloud_provider k, envoy_external_ips k, envoy_host_network k]"

section \<open>The documented rule\<close>

text \<open>The comment of \<open>classify\<close> lists five cases, the first that holds deciding; stated on the
  answers of the cluster.\<close>

definition endpoint_deployed :: "kube \<Rightarrow> bool" where
  "endpoint_deployed k \<longleftrightarrow> kb_run k api_svc_args \<noteq> None \<or> kb_run k envoy_svc_args \<noteq> None"

definition has_provider_id :: "kube \<Rightarrow> bool" where
  "has_provider_id k \<longleftrightarrow> sg_hint (cloud_provider k) = Some Class_C"

definition has_external_ips :: "kube \<Rightarrow> bool" where
  "has_external_ips k \<longleftrightarrow> (\<exists>out e. kb_run k (envoy_args ''json'') = Some out \<and> kb_decode k out = Some e \<and> es_ext_ips e \<noteq> [])"

definition nat_shape :: "kube \<Rightarrow> bool" where
  "nat_shape k \<longleftrightarrow> sg_hint (envoy_external_ips k) = Some Class_A \<or> sg_hint (envoy_host_network k) = Some Class_A"

definition documented_rule :: "kube \<Rightarrow> net_class \<times> verdict" where
  "documented_rule k =
     (if endpoint_deployed k then (Class_A, Already_Enabled)
      else if has_provider_id k then (Class_C, Not_Needed)
      else if has_external_ips k then (Class_B, Not_Needed)
      else if nat_shape k then (Class_A, Required)
      else (Class_Unknown, Ambiguous))"

lemma platform_detail:
  "contains ''both kube-api-platform + envoy-gateway-platform deployed'' ''kube-api-platform''"
  "contains ''kube-api-platform deployed (envoy-gateway-platform not yet)'' ''kube-api-platform''"
  "contains ''envoy-gateway-platform deployed (kube-api-platform not yet)'' ''kube-api-platform''"
  "\<not> contains ''neither platform-endpoint Service present'' ''kube-api-platform''"
  "\<not> contains ''neither platform-endpoint Service present'' ''envoy-gateway-platform''"
  by code_simp+

lemma probe_names:
  "sg_probe (platform_services k) = probe_platform" "sg_probe (cloud_provider k) \<noteq> probe_platform"
  "sg_probe (envoy_external_ips k) \<noteq> probe_platform" "sg_probe (envoy_host_network k) \<noteq> probe_platform"
  by (auto simp: platform_services_def cloud_provider_def envoy_external_ips_def envoy_host_network_def Let_def
      probe_platform_def probe_cloud_def probe_ext_ips_def probe_host_net_def split: option.split)

lemma found_enabled_probes:
  "found_enabled [platform_services k, cloud_provider k, envoy_external_ips k, envoy_host_network k] \<longleftrightarrow> endpoint_deployed k"
  by (auto simp: found_enabled_def probe_names endpoint_deployed_def platform_services_def Let_def platform_detail)

lemma probe_hints:
  "\<not> endpoint_deployed k \<Longrightarrow> sg_hint (platform_services k) = None"
  "sg_hint (cloud_provider k) \<in> {None, Some Class_C}"
  "sg_hint (envoy_external_ips k) \<in> {None, Some Class_A, Some Class_B}"
  "sg_hint (envoy_external_ips k) = Some Class_B \<longleftrightarrow> has_external_ips k"
  "sg_hint (envoy_host_network k) \<in> {None, Some Class_A}"
  by (auto simp: endpoint_deployed_def platform_services_def cloud_provider_def envoy_external_ips_def
      envoy_host_network_def has_external_ips_def split: option.split)

section \<open>Property\<close>

text \<open>The tally follows the documented precedence. Whatever the cluster answers, counting the hints
  of the four probes, with the comparison that the count of class B is not below that of class A,
  gives the class and the verdict of the ordered list of cases in the comment: the comparison never
  overrides the order, even when the external addresses and the host network point different
  ways.\<close>

theorem topology_as_documented:
  "(tp_class (probe_topology k), tp_verdict (probe_topology k)) = documented_rule k"
proof (cases "endpoint_deployed k")
  case True
  then show ?thesis
    by (simp add: probe_topology_def classify_def Let_def found_enabled_probes documented_rule_def)
next
  case False
  note h = probe_hints [of k] False
  show ?thesis
    using h
    by (auto simp: probe_topology_def classify_def Let_def found_enabled_probes documented_rule_def hints_def
        has_provider_id_def nat_shape_def)
qed

text \<open>On signals of other origin the comparison does override the documented order: two hints of
  class A outweigh the external addresses.\<close>

lemma tally_overrides_order:
  "tp_class (classify [sig ''a'' [] (Some Class_B) High, sig ''b'' [] (Some Class_A) Medium, sig ''c'' [] (Some Class_A) Medium]) = Class_A"
  by code_simp

end
