(* ===== verification/Rke2_Join.thy ===== *)
theory Rke2_Join
  imports Shell Effects Net_Addr
begin

text \<open>
  \<open>src/cli/internal/bootstrap/rke2/install.go\<close> and \<open>join.go\<close>: the RKE2 installer run on a node over
  SSH, as the first control plane, as another one, or as a worker.  The node answers from the
  history of calls.  The embedded scripts and the DNS fallback of the process environment are fields
  of the environment; a CA bundle arrives validated.  Of the output, the plan is a list of labels and
  values and the remote output is kept as printed; progress lines are left out.
\<close>

section \<open>Options, calls and errors\<close>

record trusted_ca =
  ca_pem :: string
  ca_fingerprint :: string
  ca_subjects :: "string list"

record install_options =
  io_has_ssh :: bool
  io_host :: ssh_host
  io_name :: string
  io_domain :: string
  io_pod_cidr :: string
  io_service_cidr :: string
  io_cluster_dns :: string
  io_node_ip :: string
  io_external_ip :: string
  io_version :: string
  io_ca :: "trusted_ca option"
  io_no_registry :: bool
  io_join_token :: string
  io_join_server :: string
  io_cp_port :: int
  io_force :: bool
  io_dry_run :: bool

record worker_options =
  wo_has_ssh :: bool
  wo_worker :: ssh_host
  wo_name :: string
  wo_ip :: string
  wo_control_plane :: ssh_host
  wo_join_token :: string
  wo_cp_host :: string
  wo_cp_port :: int
  wo_version :: string
  wo_ca :: "trusted_ca option"
  wo_no_registry :: bool
  wo_force :: bool
  wo_dry_run :: bool

type_synonym answer = "string \<times> string option"

datatype rk_event =
    Run ssh_host string answer
  | Put ssh_host string string int "string option"
  | Fetch ssh_host string "string + string"
  | Plan "(string \<times> string) list"
  | Output string

record rk_env =
  on_run :: "rk_event list \<Rightarrow> ssh_host \<Rightarrow> string \<Rightarrow> answer"
  on_put :: "rk_event list \<Rightarrow> ssh_host \<Rightarrow> string \<Rightarrow> string \<Rightarrow> string option"
  on_fetch :: "rk_event list \<Rightarrow> ssh_host \<Rightarrow> string \<Rightarrow> string + string"
  ctx_done :: "rk_event list \<Rightarrow> bool"
  server_script :: string
  agent_script :: string
  dns_fallback :: string

datatype rk_error =
    Missing_dependency string | Invalid_option string string
  | Hostname_failed string | No_address string | Cancelled
  | Node_ip rk_error | Cp_ip rk_error | Worker_ip rk_error
  | Token_unread string | Token_empty
  | Vms_unknown string | Vms_running string
  | Ca_not_pushed string | Script_not_pushed string | Install_failed string | Restart_failed string

datatype rk_done = Dry_run | Already_active | Installed

type_synonym 'a rk_prog = "(rk_event, rk_error, 'a) prog"

definition run_on :: "rk_env \<Rightarrow> ssh_host \<Rightarrow> string \<Rightarrow> answer rk_prog" where
  "run_on env host cmd = ask (\<lambda>h. on_run env h host cmd) (Run host cmd)"

definition put_on :: "rk_env \<Rightarrow> (string \<Rightarrow> rk_error) \<Rightarrow> ssh_host \<Rightarrow> string \<Rightarrow> string \<Rightarrow> int \<Rightarrow> unit rk_prog" where
  "put_on env wrap host path content mode =
     bind (ask (\<lambda>h. on_put env h host path content) (Put host path content mode)) (\<lambda>r.
     case r of None \<Rightarrow> ret () | Some e \<Rightarrow> fail (wrap e))"

definition fetch_from :: "rk_env \<Rightarrow> ssh_host \<Rightarrow> string \<Rightarrow> (string + string) rk_prog" where
  "fetch_from env host path = ask (\<lambda>h. on_fetch env h host path) (Fetch host path)"

definition plan :: "(string \<times> string) list \<Rightarrow> unit rk_prog" where
  "plan p = ask (\<lambda>_. ()) (\<lambda>_. Plan p)"

definition print_remote :: "string \<Rightarrow> unit rk_prog" where
  "print_remote s = ask (\<lambda>_. ()) (\<lambda>_. Output s)"

section \<open>The address of a node\<close>

text \<open>\<open>strings.Fields\<close>: the runs of characters that are not white space.\<close>

fun word_of :: "string \<Rightarrow> string" where
  "word_of [] = []"
| "word_of (c # s) = (if lead_len space_tokens (c # s) \<noteq> 0 then [] else c # word_of s)"

function go_fields :: "string \<Rightarrow> string list" where
  "go_fields s = (let r = strip space_tokens s; w = word_of r in
     if w = [] then [] else w # go_fields (drop (length w) r))"
  by pat_completeness auto
termination
proof (relation "measure length")
  fix s r w
  assume r: "r = strip space_tokens s" and w: "w = word_of r" "w \<noteq> []"
  have "length r \<le> length s" unfolding r by (rule strip_length_le)
  moreover have "0 < length r" "0 < length w" using w by auto
  ultimately have "length r - length w < length s" by linarith
  then show "(drop (length w) r, s) \<in> measure length" by simp
qed simp

declare go_fields.simps [simp del]

fun route_src :: "string list \<Rightarrow> string option" where
  "route_src (a # b # r) =
     (if a = ''src'' then (if parse_ip b = None then None else Some b) else route_src (b # r))"
| "route_src _ = None"

definition first_ipv4 :: "string \<Rightarrow> string option" where
  "first_ipv4 out = find (\<lambda>f. parse_ip4 f \<noteq> None) (go_fields out)"

definition route_cmd :: string where "route_cmd = ''ip -4 route get 1.1.1.1''"
definition hostname_cmd :: string where "hostname_cmd = ''hostname -I''"

definition detect_once :: "rk_env \<Rightarrow> ssh_host \<Rightarrow> string rk_prog" where
  "detect_once env host =
     bind (run_on env host route_cmd) (\<lambda>(out, err).
     case (if err = None then route_src (go_fields out) else None) of
       Some ip \<Rightarrow> ret ip
     | None \<Rightarrow>
         bind (run_on env host hostname_cmd) (\<lambda>(out, err).
         case err of
           Some e \<Rightarrow> fail (Hostname_failed e)
         | None \<Rightarrow> (case first_ipv4 out of Some ip \<Rightarrow> ret ip | None \<Rightarrow> fail (No_address (trim_space out)))))"

fun detect_again :: "rk_env \<Rightarrow> ssh_host \<Rightarrow> rk_error \<Rightarrow> nat \<Rightarrow> string rk_prog" where
  "detect_again env host e 0 = fail e"
| "detect_again env host e (Suc n) =
     bind (observe (ctx_done env)) (\<lambda>c.
     if c then fail Cancelled
     else bind (attempt (detect_once env host)) (\<lambda>r.
       case r of Inr ip \<Rightarrow> ret ip | Inl e' \<Rightarrow> detect_again env host e' n))"

definition detect_attempts :: nat where "detect_attempts = 3"

definition detect_node_ip :: "rk_env \<Rightarrow> ssh_host \<Rightarrow> string rk_prog" where
  "detect_node_ip env host =
     bind (attempt (detect_once env host)) (\<lambda>r.
     case r of Inr ip \<Rightarrow> ret ip | Inl e \<Rightarrow> detect_again env host e (detect_attempts - 1))"

section \<open>The join token in what is printed\<close>

definition redact_token :: "string \<Rightarrow> string \<Rightarrow> string" where
  "redact_token s token = (if token = [] then s else replace_all s token ''<redacted>'')"

definition trim_right_nl :: "string \<Rightarrow> string" where
  "trim_right_nl s = rev (dropWhile (\<lambda>c. c = NL) (rev s))"

definition indent :: "string \<Rightarrow> string \<Rightarrow> string" where
  "indent s pre = join [NL] (map ((@) pre) (split_on NL (trim_right_nl s)))"

section \<open>Before a running node is touched\<close>

definition active_cmd :: "string \<Rightarrow> string" where
  "active_cmd svc = ''systemctl is-active '' @ svc @ ''.service 2>/dev/null || true''"

definition vm_probe_cmd :: string where
  "vm_probe_cmd = ''sudo -n sh -c '' @ [SQ] @ ''command -v pgrep >/dev/null || { echo '' @ [DQ] @ ''pgrep not found'' @ [DQ]
     @ '' >&2; exit 127; }; pgrep -fa '' @ [DQ] @ ''[q]emu-system|[q]emu-kvm|[v]irt-launcher'' @ [DQ] @ '' || true'' @ [SQ]"

definition restart_cmd :: "string \<Rightarrow> string" where
  "restart_cmd svc = ''sudo -n systemctl restart '' @ svc"

definition service_active :: "rk_env \<Rightarrow> ssh_host \<Rightarrow> string \<Rightarrow> bool rk_prog" where
  "service_active env host svc =
     bind (run_on env host (active_cmd svc)) (\<lambda>(out, _). ret (trim_space out = ''active''))"

definition ensure_no_running_vms :: "rk_env \<Rightarrow> ssh_host \<Rightarrow> unit rk_prog" where
  "ensure_no_running_vms env host =
     bind (run_on env host vm_probe_cmd) (\<lambda>(out, err).
     case err of
       Some e \<Rightarrow> fail (Vms_unknown e)
     | None \<Rightarrow> if trim_space out \<noteq> [] then fail (Vms_running (trim_space out)) else ret ())"

text \<open>\<open>None\<close>: the service runs and the run is not forced.  Otherwise whether the service ran.\<close>

definition node_gate :: "rk_env \<Rightarrow> ssh_host \<Rightarrow> string \<Rightarrow> bool \<Rightarrow> bool option rk_prog" where
  "node_gate env host svc force =
     bind (service_active env host svc) (\<lambda>was_active.
     if was_active \<and> \<not> force then ret None
     else if was_active then bind (ensure_no_running_vms env host) (\<lambda>_. ret (Some True))
     else ret (Some False))"


section \<open>The installer\<close>

definition server_script_path :: string where "server_script_path = ''/tmp/kube-dc-rke2-install-server.sh''"
definition agent_script_path :: string where "agent_script_path = ''/tmp/kube-dc-rke2-install-agent.sh''"
definition trusted_ca_path :: string where "trusted_ca_path = ''/tmp/kube-dc-trusted-ca.pem''"
definition default_version :: string where "default_version = ''v1.36.3+rke2r1''"
definition default_port :: int where "default_port = 9345"

definition is_join :: "install_options \<Rightarrow> bool" where
  "is_join o' \<longleftrightarrow> io_join_token o' \<noteq> [] \<and> io_join_server o' \<noteq> []"

text \<open>The variables both installers share, as a Go map without its order.\<close>

definition fallback_vars :: "rk_env \<Rightarrow> (string \<times> string) list" where
  "fallback_vars env = (if dns_fallback env \<noteq> [] then [(''RKE2_DNS_PUBLIC_FALLBACK'', dns_fallback env)] else [])"

definition registry_vars :: "bool \<Rightarrow> (string \<times> string) list" where
  "registry_vars off = (if off then [(''EMBEDDED_REGISTRY'', ''false'')] else [])"

definition ca_vars :: "trusted_ca option \<Rightarrow> (string \<times> string) list" where
  "ca_vars ca = (case ca of None \<Rightarrow> []
     | Some c \<Rightarrow> [(''TRUSTED_CA_FILE'', trusted_ca_path), (''TRUSTED_CA_SHA256'', ca_fingerprint c)])"

definition external_ip :: "install_options \<Rightarrow> string" where
  "external_ip o' = (if io_external_ip o' = [] then io_node_ip o' else io_external_ip o')"

definition build_install_env :: "rk_env \<Rightarrow> install_options \<Rightarrow> (string \<times> string) list" where
  "build_install_env env o' =
     [(''RKE2_VERSION'', if io_version o' = [] then default_version else io_version o'),
      (''NODE_NAME'', io_name o'), (''NODE_IP'', io_node_ip o'), (''EXTERNAL_IP'', external_ip o'),
      (''DOMAIN'', io_domain o'), (''POD_CIDR'', io_pod_cidr o'), (''SERVICE_CIDR'', io_service_cidr o'),
      (''CLUSTER_DNS'', io_cluster_dns o')]
     @ fallback_vars env @ registry_vars (io_no_registry o') @ ca_vars (io_ca o')
     @ (if is_join o' \<and> io_cp_port o' \<noteq> 0 \<and> io_cp_port o' \<noteq> default_port
        then [(''CP_PORT'', itoa (io_cp_port o'))] else [])"

definition build_agent_env :: "rk_env \<Rightarrow> worker_options \<Rightarrow> (string \<times> string) list" where
  "build_agent_env env o' =
     [(''NODE_NAME'', wo_name o')]
     @ (if wo_cp_port o' \<noteq> default_port then [(''CP_PORT'', itoa (wo_cp_port o'))] else [])
     @ (if wo_version o' \<noteq> [] then [(''RKE2_VERSION'', wo_version o')] else [])
     @ fallback_vars env @ ca_vars (wo_ca o') @ registry_vars (wo_no_registry o')"

definition remote_install_cmd :: "(string \<times> string) list \<Rightarrow> string \<Rightarrow> string" where
  "remote_install_cmd vars path =
     ''sudo -n env'' @ concat (map (\<lambda>(k, v). '' '' @ k @ ''='' @ quote_bs v) (sort_key fst vars)) @ '' bash '' @ path"

definition server_cmd :: "rk_env \<Rightarrow> install_options \<Rightarrow> string" where
  "server_cmd env o' =
     remote_install_cmd (build_install_env env o') server_script_path
     @ (if is_join o' then '' '' @ quote_bs (io_join_token o') @ '' '' @ quote_bs (io_join_server o') else [])"

definition agent_cmd :: "rk_env \<Rightarrow> worker_options \<Rightarrow> string" where
  "agent_cmd env o' =
     remote_install_cmd (build_agent_env env o') agent_script_path
     @ '' '' @ quote_bs (wo_join_token o') @ '' '' @ quote_bs (wo_cp_host o') @ '' '' @ quote_bs (wo_ip o')"

text \<open>The CA bundle, the script, its run, and the restart of a service that was running.\<close>

definition push_ca :: "rk_env \<Rightarrow> ssh_host \<Rightarrow> trusted_ca option \<Rightarrow> unit rk_prog" where
  "push_ca env host ca = (case ca of
     None \<Rightarrow> ret () | Some c \<Rightarrow> put_on env Ca_not_pushed host trusted_ca_path (ca_pem c) 384)"

definition run_installer :: "rk_env \<Rightarrow> ssh_host \<Rightarrow> string \<Rightarrow> string \<Rightarrow> unit rk_prog" where
  "run_installer env host cmd token =
     bind (run_on env host cmd) (\<lambda>(out, err).
     bind (if out \<noteq> [] then print_remote (indent (redact_token out token) ''    | '') else ret ()) (\<lambda>_.
     case err of Some e \<Rightarrow> fail (Install_failed (redact_token e token)) | None \<Rightarrow> ret ()))"

definition restart_service :: "rk_env \<Rightarrow> ssh_host \<Rightarrow> string \<Rightarrow> unit rk_prog" where
  "restart_service env host svc =
     bind (run_on env host (restart_cmd svc)) (\<lambda>(_, err).
     case err of Some e \<Rightarrow> fail (Restart_failed e) | None \<Rightarrow> ret ())"

definition change_node ::
  "rk_env \<Rightarrow> ssh_host \<Rightarrow> string \<Rightarrow> bool \<Rightarrow> trusted_ca option \<Rightarrow> string \<Rightarrow> string \<Rightarrow> string \<Rightarrow> string \<Rightarrow> rk_done rk_prog" where
  "change_node env host svc force ca path script cmd token =
     bind (node_gate env host svc force) (\<lambda>gate.
     case gate of
       None \<Rightarrow> ret Already_active
     | Some was_active \<Rightarrow>
         bind (push_ca env host ca) (\<lambda>_.
         bind (put_on env Script_not_pushed host path script 493) (\<lambda>_.
         bind (run_installer env host cmd token) (\<lambda>_.
         bind (if was_active then restart_service env host svc else ret ()) (\<lambda>_.
         ret Installed)))))"

section \<open>A control plane\<close>

definition quote_chars :: string where
  "quote_chars = [CHR '' '', CHR 0x09, CR, NL, DQ, SQ]"

definition unsafe_text :: "string \<Rightarrow> bool" where
  "unsafe_text s \<longleftrightarrow> list_ex (\<lambda>c. c \<in> set quote_chars) s"

definition bad_ip :: "string \<Rightarrow> bool" where "bad_ip s \<longleftrightarrow> s \<noteq> [] \<and> parse_ip s = None"

definition validate_install :: "install_options \<Rightarrow> rk_error option" where
  "validate_install o' =
     (if \<not> io_has_ssh o' then Some (Missing_dependency ''SSH client'')
      else if io_name o' = [] then Some (Missing_dependency ''NodeName'')
      else if io_domain o' = [] then Some (Missing_dependency ''Domain'')
      else if io_pod_cidr o' = [] \<or> io_service_cidr o' = [] \<or> io_cluster_dns o' = []
      then Some (Missing_dependency ''PodCIDR/ServiceCIDR/ClusterDNS'')
      else if parse_cidr (io_pod_cidr o') = None then Some (Invalid_option ''PodCIDR'' (io_pod_cidr o'))
      else if parse_cidr (io_service_cidr o') = None then Some (Invalid_option ''ServiceCIDR'' (io_service_cidr o'))
      else if parse_ip (io_cluster_dns o') = None then Some (Invalid_option ''ClusterDNS'' (io_cluster_dns o'))
      else if bad_ip (io_node_ip o') then Some (Invalid_option ''NodeIP'' (io_node_ip o'))
      else if bad_ip (io_external_ip o') then Some (Invalid_option ''ExternalIP'' (io_external_ip o'))
      else if (io_join_token o' = []) \<noteq> (io_join_server o' = []) then Some (Invalid_option ''JoinToken'' [])
      else if bad_ip (io_join_server o') then Some (Invalid_option ''JoinServer'' (io_join_server o'))
      else if io_cp_port o' \<noteq> 0 \<and> (io_cp_port o' < 1 \<or> 65535 < io_cp_port o')
      then Some (Invalid_option ''CPPort'' (itoa (io_cp_port o')))
      else if unsafe_text (io_domain o') then Some (Invalid_option ''Domain'' (io_domain o'))
      else if unsafe_text (io_name o') then Some (Invalid_option ''NodeName'' (io_name o'))
      else None)"

definition ssh_host_arg :: "ssh_host \<Rightarrow> string" where
  "ssh_host_arg h = (if host_alias h \<noteq> [] then host_alias h
     else if user h \<noteq> [] then user h @ ''@'' @ hostname h else hostname h)"

definition ca_summary :: "trusted_ca option \<Rightarrow> string" where
  "ca_summary ca = (case ca of
     None \<Rightarrow> ''none (public CAs only)''
   | Some c \<Rightarrow> itoa (int (length (ca_subjects c))) @ '' CA certificate(s), sha256:'' @ take 16 (ca_fingerprint c)
       @ concat (map (\<lambda>s. [NL] @ ''      - '' @ s) (ca_subjects c)))"

definition registry_line :: "bool \<Rightarrow> string \<times> string" where
  "registry_line off = (''embedded registry'',
     if off then ''disabled (explicit opt-out)'' else ''enabled (spegel, wildcard mirror)'')"

definition install_plan :: "install_options \<Rightarrow> (string \<times> string) list" where
  "install_plan o' =
     (if is_join o'
      then [(''node'', io_name o'), (''host'', ssh_host_arg (io_host o')),
            (''joins'', io_join_server o' @ '':'' @ itoa (if io_cp_port o' = 0 then default_port else io_cp_port o')),
            (''join token'', ''(from control-plane, redacted)'')]
      else [(''node'', io_name o'), (''host'', ssh_host_arg (io_host o'))])
     @ [(''RKE2 version'', if io_version o' = [] then default_version else io_version o'),
        (''node trust anchor'', ca_summary (io_ca o')),
        (''node-ip / advertise-address'', io_node_ip o'), (''node-external-ip'', external_ip o'),
        (''cluster-cidr'', io_pod_cidr o'), (''service-cidr'', io_service_cidr o'), (''cluster-dns'', io_cluster_dns o'),
        registry_line (io_no_registry o'),
        (''tls-san'', io_domain o' @ '', kube-api.'' @ io_domain o' @ '', '' @ external_ip o' @ '', '' @ io_node_ip o')]"

definition install_resolved :: "rk_env \<Rightarrow> install_options \<Rightarrow> rk_done rk_prog" where
  "install_resolved env o' =
     bind (plan (install_plan o')) (\<lambda>_.
     if io_dry_run o' then ret Dry_run
     else change_node env (io_host o') ''rke2-server'' (io_force o') (io_ca o') server_script_path
            (server_script env) (server_cmd env o') (io_join_token o'))"

definition install :: "rk_env \<Rightarrow> install_options \<Rightarrow> rk_done rk_prog" where
  "install env o' =
     bind (case validate_install o' of Some e \<Rightarrow> fail e | None \<Rightarrow> ret ()) (\<lambda>_.
     bind (if io_node_ip o' = [] then wrap_err Node_ip (detect_node_ip env (io_host o')) else ret (io_node_ip o')) (\<lambda>ip.
     install_resolved env (o'\<lparr>io_node_ip := ip\<rparr>)))"

section \<open>A worker\<close>

definition node_token_path :: string where
  "node_token_path = ''/var/lib/rancher/rke2/server/node-token''"

definition read_token :: "rk_env \<Rightarrow> ssh_host \<Rightarrow> string rk_prog" where
  "read_token env cp =
     bind (fetch_from env cp node_token_path) (\<lambda>r.
     bind (check_err Token_unread r) (\<lambda>raw.
     let token = trim_space raw in
     bind (guard Token_empty (token \<noteq> [])) (\<lambda>_. ret token)))"

definition resolve_join_credentials :: "rk_env \<Rightarrow> ssh_host \<Rightarrow> string \<Rightarrow> string \<Rightarrow> (string \<times> string) rk_prog" where
  "resolve_join_credentials env cp token cp_host =
     bind (if cp_host = [] then wrap_err Cp_ip (detect_node_ip env cp) else ret cp_host) (\<lambda>ip.
     bind (guard (Invalid_option ''control-plane host'' ip) (parse_ip ip \<noteq> None)) (\<lambda>_.
     bind (if token = [] then read_token env cp else ret token) (\<lambda>tok.
     ret (tok, ip))))"

definition cp_port :: "worker_options \<Rightarrow> int" where
  "cp_port o' = (if wo_cp_port o' = 0 then default_port else wo_cp_port o')"

definition validate_worker :: "worker_options \<Rightarrow> rk_error option" where
  "validate_worker o' =
     (if \<not> wo_has_ssh o' then Some (Missing_dependency ''SSH client'')
      else if wo_name o' = [] then Some (Missing_dependency ''WorkerName'')
      else if unsafe_text (wo_name o') then Some (Invalid_option ''NodeName'' (wo_name o'))
      else if host_alias (wo_control_plane o') = [] \<and> hostname (wo_control_plane o') = []
        \<and> (wo_join_token o' = [] \<or> wo_cp_host o' = []) then Some (Missing_dependency ''control-plane'')
      else if cp_port o' < 1 \<or> 65535 < cp_port o' then Some (Invalid_option ''--cp-port'' (itoa (cp_port o')))
      else None)"

definition worker_plan :: "worker_options \<Rightarrow> (string \<times> string) list" where
  "worker_plan o' =
     [(''node'', wo_name o'), (''host'', ssh_host_arg (wo_worker o')), (''role'', ''worker (rke2-agent)''),
      (''node-ip'', wo_ip o'), (''join server'', wo_cp_host o' @ '':'' @ itoa (wo_cp_port o')),
      (''join token'', ''(from control-plane, redacted)''),
      (''RKE2 version'', if wo_version o' = [] then ''(cluster default / '' @ default_version @ '')'' else wo_version o'),
      (''node trust anchor'', ca_summary (wo_ca o')), registry_line (wo_no_registry o')]"

definition join_resolved :: "rk_env \<Rightarrow> worker_options \<Rightarrow> rk_done rk_prog" where
  "join_resolved env o' =
     bind (plan (worker_plan o')) (\<lambda>_.
     if wo_dry_run o' then ret Dry_run
     else change_node env (wo_worker o') ''rke2-agent'' (wo_force o') (wo_ca o') agent_script_path
            (agent_script env) (agent_cmd env o') (wo_join_token o'))"

definition join_worker :: "rk_env \<Rightarrow> worker_options \<Rightarrow> rk_done rk_prog" where
  "join_worker env o' =
     bind (case validate_worker o' of Some e \<Rightarrow> fail e | None \<Rightarrow> ret ()) (\<lambda>_.
     bind (resolve_join_credentials env (wo_control_plane o') (wo_join_token o') (wo_cp_host o')) (\<lambda>(tok, cp).
     bind (if wo_ip o' = [] then wrap_err Worker_ip (detect_node_ip env (wo_worker o')) else ret (wo_ip o')) (\<lambda>ip.
     bind (guard (Invalid_option ''worker IP'' ip) (parse_ip ip \<noteq> None)) (\<lambda>_.
     join_resolved env (o'\<lparr>wo_join_token := tok, wo_cp_host := cp, wo_cp_port := cp_port o', wo_ip := ip\<rparr>)))))"


section \<open>Every change waits for the gate\<close>

definition probe_cmds :: "string set" where
  "probe_cmds = {route_cmd, hostname_cmd, active_cmd ''rke2-server'', active_cmd ''rke2-agent'', vm_probe_cmd}"

fun changes :: "rk_event \<Rightarrow> bool" where
  "changes (Run _ cmd _) \<longleftrightarrow> cmd \<notin> probe_cmds"
| "changes (Put _ _ _ _ _) \<longleftrightarrow> True"
| "changes _ \<longleftrightarrow> False"

text \<open>What the probes before a change have told: the service was seen stopped, or running, or the probe failed
  and told nothing; and a forced run found the service running and no virtual machine.\<close>

definition seen_stopped :: "ssh_host \<Rightarrow> string \<Rightarrow> rk_event list \<Rightarrow> bool" where
  "seen_stopped host svc h \<longleftrightarrow> (\<exists>out. Run host (active_cmd svc) (out, None) \<in> set h \<and> trim_space out \<noteq> ''active'')"

definition seen_active :: "ssh_host \<Rightarrow> string \<Rightarrow> rk_event list \<Rightarrow> bool" where
  "seen_active host svc h \<longleftrightarrow> (\<exists>out err. Run host (active_cmd svc) (out, err) \<in> set h \<and> trim_space out = ''active'')"

definition probe_failed :: "ssh_host \<Rightarrow> string \<Rightarrow> rk_event list \<Rightarrow> bool" where
  "probe_failed host svc h \<longleftrightarrow> (\<exists>out e. Run host (active_cmd svc) (out, Some e) \<in> set h \<and> trim_space out \<noteq> ''active'')"

definition forced_and_free :: "ssh_host \<Rightarrow> string \<Rightarrow> bool \<Rightarrow> rk_event list \<Rightarrow> bool" where
  "forced_and_free host svc force h \<longleftrightarrow> force \<and> seen_active host svc h \<and>
     (\<exists>out. Run host vm_probe_cmd (out, None) \<in> set h \<and> trim_space out = [])"

definition gate_open :: "ssh_host \<Rightarrow> string \<Rightarrow> bool \<Rightarrow> rk_event list \<Rightarrow> bool" where
  "gate_open host svc force p \<longleftrightarrow>
     seen_stopped host svc p \<or> forced_and_free host svc force p \<or> probe_failed host svc p"

definition orderly :: "(string \<Rightarrow> bool) \<Rightarrow> ssh_host \<Rightarrow> string \<Rightarrow> bool \<Rightarrow> bool \<Rightarrow> string \<Rightarrow> rk_event list \<Rightarrow> rk_event \<Rightarrow> bool" where
  "orderly installer host svc force dry path p e \<longleftrightarrow>
     (changes e \<longrightarrow> \<not> dry \<and> gate_open host svc force p \<and>
       (case e of
          Put host' to _ _ _ \<Rightarrow> host' = host \<and> to \<in> {trusted_ca_path, path}
        | Run host' cmd _ \<Rightarrow> host' = host \<and>
            (installer cmd \<and> (\<exists>script. Put host path script 493 None \<in> set p) \<or>
             cmd = restart_cmd svc \<and> forced_and_free host svc force p \<and>
               (\<exists>cmd' out. installer cmd' \<and> Run host cmd' (out, None) \<in> set p))
        | _ \<Rightarrow> True))"

text \<open>What an installation that reports success has done: the installer ran without an error, and a
  service that had been seen running was restarted.\<close>

definition applied :: "(string \<Rightarrow> bool) \<Rightarrow> ssh_host \<Rightarrow> string \<Rightarrow> rk_event list \<Rightarrow> bool" where
  "applied installer host svc h \<longleftrightarrow>
     (\<exists>cmd out. installer cmd \<and> Run host cmd (out, None) \<in> set h) \<and>
     ((\<exists>out err. Run host (active_cmd svc) (out, err) \<in> set h \<and> trim_space out = ''active'') \<longrightarrow>
       (\<exists>out. Run host (restart_cmd svc) (out, None) \<in> set h))"

text \<open>Everything before the gate only looks for addresses and the token.\<close>

fun quiet :: "rk_event \<Rightarrow> bool" where
  "quiet (Run _ cmd _) \<longleftrightarrow> cmd \<in> {route_cmd, hostname_cmd}"
| "quiet (Put _ _ _ _ _) \<longleftrightarrow> False"
| "quiet (Output _) \<longleftrightarrow> False"
| "quiet _ \<longleftrightarrow> True"

definition idle :: "'a rk_prog \<Rightarrow> bool" where
  "idle m \<longleftrightarrow> emits quiet m"

lemma quiet_unchanged: "quiet e \<Longrightarrow> \<not> changes e"
  by (cases e) (auto simp: probe_cmds_def)

lemma probe_idle: "cmd \<in> {route_cmd, hostname_cmd} \<Longrightarrow> idle (run_on env host cmd)"
  by (auto simp: idle_def run_on_def intro: emits_rule)

lemma idle_parts:
  "idle (ret x)" "idle (fail e)" "idle (guard e b)" "idle (check_err w r)" "idle (observe a)"
  "idle (plan p)" "idle (fetch_from env host path)"
  by (auto simp: idle_def plan_def fetch_from_def intro: emits_rule)

lemma idle_bind: "idle m \<Longrightarrow> (\<And>x. idle (k x)) \<Longrightarrow> idle (bind m k)"
  by (simp add: idle_def emits_bind)

lemma idle_wrapped: "idle m \<Longrightarrow> idle (wrap_err w m)"
  by (simp add: idle_def emits_wrap_err)

lemma idle_attempt: "idle m \<Longrightarrow> idle (attempt m)"
  by (simp add: idle_def emits_attempt)

lemma idle_detect_once: "idle (detect_once env host)"
  unfolding detect_once_def
  by (intro idle_bind probe_idle) (auto simp: idle_parts intro!: idle_bind probe_idle split: option.split prod.split)

lemma idle_detect_again: "idle (detect_again env host e n)"
proof (induction n arbitrary: e)
  case (Suc n)
  then show ?case
    by (auto intro!: idle_bind idle_attempt idle_detect_once simp: idle_parts split: sum.split)
qed (simp add: idle_parts)

lemma idle_detect: "idle (detect_node_ip env host)"
  unfolding detect_node_ip_def
  by (auto intro!: idle_bind idle_attempt idle_detect_once idle_detect_again simp: idle_parts split: sum.split)

lemma idle_credentials: "idle (resolve_join_credentials env cp token cp_host)"
  unfolding resolve_join_credentials_def read_token_def Let_def
  by (auto intro!: idle_bind idle_wrapped simp: idle_parts idle_detect)

lemmas idle_rules = idle_parts idle_detect idle_wrapped idle_credentials

lemma idle_wp:
  assumes "idle m" "list_all quiet h"
    and "\<And>x h'. list_all quiet h' \<Longrightarrow> Q x h'" "\<And>e h'. list_all quiet h' \<Longrightarrow> E e h'"
  shows "wp m Q E h"
  using emits_any [OF assms(1) [unfolded idle_def], of h] assms(2-)
  by (fastforce simp: wp_def split: option.splits sum.splits)

lemma quiet_orderly: "list_all quiet h \<Longrightarrow> always (orderly i host svc force dry path) h"
  by (auto simp: always_def orderly_def dest: quiet_unchanged)

lemma quiet_unseen:
  "list_all quiet h \<Longrightarrow> svc \<in> {''rke2-server'', ''rke2-agent''} \<Longrightarrow> Run host (active_cmd svc) a \<notin> set h"
proof
  assume q: "list_all quiet h" and svc: "svc \<in> {''rke2-server'', ''rke2-agent''}"
    and "Run host (active_cmd svc) a \<in> set h"
  then have "active_cmd svc \<in> {route_cmd, hostname_cmd}" by (auto simp: list_all_iff)
  then show False by (auto simp: active_cmd_def route_cmd_def hostname_cmd_def)
qed


definition restarted :: "ssh_host \<Rightarrow> string \<Rightarrow> rk_event list \<Rightarrow> bool" where
  "restarted host svc h \<longleftrightarrow> (\<exists>out. Run host (restart_cmd svc) (out, None) \<in> set h)"

lemma gate_open_append:
  "gate_open host svc force p \<Longrightarrow> gate_open host svc force (p @ q)"
  "forced_and_free host svc force p \<Longrightarrow> forced_and_free host svc force (p @ q)"
  by (auto simp: gate_open_def seen_stopped_def forced_and_free_def probe_failed_def seen_active_def)

lemma fixed_cmds:
  "active_cmd svc \<noteq> restart_cmd svc'" "active_cmd svc \<noteq> vm_probe_cmd"
  "active_cmd svc \<noteq> remote_install_cmd vars p @ r" 
  by (simp_all add: active_cmd_def restart_cmd_def vm_probe_cmd_def remote_install_cmd_def)

lemma probe_cmds_active: "svc \<in> {''rke2-server'', ''rke2-agent''} \<Longrightarrow> active_cmd svc \<in> probe_cmds"
  by (auto simp: probe_cmds_def)

lemma probe_orderly: "cmd \<in> probe_cmds \<Longrightarrow> orderly i host svc force dry path p (Run host' cmd a)"
  by (simp add: orderly_def)

lemma node_gate_orderly:
  assumes "list_all quiet h" "svc \<in> {''rke2-server'', ''rke2-agent''}"
  shows "wp (node_gate env host svc force)
    (\<lambda>g h'. always (orderly i host svc force False path) h' \<and>
      (\<forall>w. g = Some w \<longrightarrow> gate_open host svc force h' \<and> (seen_active host svc h' \<longrightarrow> w) \<and>
        (w \<longrightarrow> forced_and_free host svc force h')))
    (\<lambda>e h'. always (orderly i host svc force False path) h') h"
proof -
  note q = quiet_orderly [OF assms(1), of i host svc force False path]
  have vm: "vm_probe_cmd \<in> probe_cmds" by (simp add: probe_cmds_def)
  obtain out err where a: "on_run env h host (active_cmd svc) = (out, err)" by force
  obtain out' err' where b: "on_run env (h @ [Run host (active_cmd svc) (out, err)]) host vm_probe_cmd = (out', err')"
    by force
  show ?thesis
    using q quiet_unseen [OF assms] probe_cmds_active [OF assms(2)] vm fixed_cmds(2) [of svc] a b
    by (cases err) (auto simp: node_gate_def service_active_def ensure_no_running_vms_def run_on_def wp
        gate_open_def seen_active_def seen_stopped_def forced_and_free_def probe_failed_def probe_orderly split: option.split)
qed


text \<open>What a run keeps once the gate is open.\<close>

definition cleared :: "(string \<Rightarrow> bool) \<Rightarrow> ssh_host \<Rightarrow> string \<Rightarrow> bool \<Rightarrow> string \<Rightarrow> bool \<Rightarrow> rk_event list \<Rightarrow> bool" where
  "cleared i host svc force path w h \<longleftrightarrow> always (orderly i host svc force False path) h \<and>
     gate_open host svc force h \<and> (seen_active host svc h \<longrightarrow> w) \<and> (w \<longrightarrow> forced_and_free host svc force h)"

lemma clearedD: "cleared i host svc force path w h \<Longrightarrow> always (orderly i host svc force False path) h"
  by (simp add: cleared_def)

lemma cleared_snoc:
  assumes "cleared i host svc force path w h" "orderly i host svc force False path h e"
    "\<And>host' a. e \<noteq> Run host' (active_cmd svc) a"
  shows "cleared i host svc force path w (h @ [e])"
  using assms gate_open_append by (auto simp: cleared_def seen_active_def)

lemma cleared_put:
  assumes "cleared i host svc force path w h" "to \<in> {trusted_ca_path, path}"
  shows "wp (put_on env wrap host to content mode)
    (\<lambda>_ h'. cleared i host svc force path w h' \<and> h' = h @ [Put host to content mode None])
    (\<lambda>_ h'. always (orderly i host svc force False path) h') h"
proof -
  have o': "orderly i host svc force False path h (Put host to content mode r)" for r
    using assms by (auto simp: orderly_def cleared_def)
  then show ?thesis
    using clearedD [OF assms(1)] cleared_snoc [OF assms(1) o']
    by (auto simp: put_on_def wp split: option.split)
qed

lemma cleared_push_ca:
  assumes "cleared i host svc force path w h"
  shows "wp (push_ca env host ca) (\<lambda>_ h'. cleared i host svc force path w h')
    (\<lambda>_ h'. always (orderly i host svc force False path) h') h"
proof (cases ca)
  case (Some c)
  show ?thesis
    unfolding push_ca_def Some option.case by (rule wp_conseq [OF cleared_put [OF assms]]) auto
qed (use assms in \<open>simp add: push_ca_def wp\<close>)

abbreviation kept :: "(string \<Rightarrow> bool) \<Rightarrow> ssh_host \<Rightarrow> string \<Rightarrow> bool \<Rightarrow> string \<Rightarrow> rk_done rk_prog \<Rightarrow> rk_event list \<Rightarrow> bool" where
  "kept i host svc force path m h \<equiv>
     wp m (\<lambda>d h'. always (orderly i host svc force False path) h' \<and> (d = Installed \<longrightarrow> applied i host svc h'))
       (\<lambda>_ h'. always (orderly i host svc force False path) h') h"

lemma cleared_restart:
  assumes p: "cleared i host svc force path w p" and ran: "Run host cmd (out, None) \<in> set p" and cmd: "i cmd"
  shows "kept i host svc force path (bind (if w then restart_service env host svc else ret ()) (\<lambda>_. ret Installed)) p"
proof -
  have "\<not> w \<Longrightarrow> applied i host svc p"
    using p ran cmd unfolding applied_def seen_active_def cleared_def by blast
  moreover have "applied i host svc (p @ [Run host (restart_cmd svc) (o', None)])" for o'
    using ran cmd unfolding applied_def by auto
  moreover have "w \<Longrightarrow> always (orderly i host svc force False path) (p @ [Run host (restart_cmd svc) a])" for a
    using p ran cmd by (auto simp: orderly_def cleared_def)
  moreover obtain o' e' where "on_run env p host (restart_cmd svc) = (o', e')" by force
  ultimately show ?thesis
    using clearedD [OF p] by (auto simp: restart_service_def run_on_def wp split: option.split)
qed

definition after_install :: "string \<Rightarrow> rk_event list \<Rightarrow> ssh_host \<Rightarrow> string \<Rightarrow> answer \<Rightarrow> rk_event list" where
  "after_install token p host cmd a = p @ [Run host cmd a]
     @ (if fst a = [] then [] else [Output (indent (redact_token (fst a) token) ''    | '')])"

lemma wp_run_installer:
  "wp (run_installer env host cmd token) Q E p =
    (let a = on_run env p host cmd; h = after_install token p host cmd a in
     case snd a of None \<Rightarrow> Q () h | Some e \<Rightarrow> E (Install_failed (redact_token e token)) h)"
proof -
  obtain out err where a: "on_run env p host cmd = (out, err)" by force
  show ?thesis
    by (cases err) (simp_all add: run_installer_def run_on_def print_remote_def wp a after_install_def)
qed

lemma cleared_after_install:
  assumes p: "cleared i host svc force path w p" and pushed: "Put host path script 493 None \<in> set p"
    and cmd: "i cmd" "cmd \<noteq> active_cmd svc"
  shows "cleared i host svc force path w (after_install token p host cmd a)"
proof -
  have "orderly i host svc force False path p (Run host cmd a)"
    using p pushed cmd by (auto simp: orderly_def cleared_def)
  then have p1: "cleared i host svc force path w (p @ [Run host cmd a])" using p cmd(2) by (intro cleared_snoc) auto
  have "cleared i host svc force path w ((p @ [Run host cmd a]) @ [Output t])" for t
    by (rule cleared_snoc [OF p1]) (simp_all add: orderly_def)
  then show ?thesis using p1 by (simp add: after_install_def)
qed

lemma cleared_installer:
  assumes p: "cleared i host svc force path w p" and pushed: "Put host path script 493 None \<in> set p"
    and cmd: "i cmd" "cmd \<noteq> active_cmd svc"
  shows "kept i host svc force path (bind (run_installer env host cmd token)
    (\<lambda>_. bind (if w then restart_service env host svc else ret ()) (\<lambda>_. ret Installed))) p"
proof (rule wp_bindI, subst wp_run_installer)
  obtain out err where a: "on_run env p host cmd = (out, err)" by force
  note c = cleared_after_install [OF p pushed cmd, of token "(out, err)"]
  have "Run host cmd (out, err) \<in> set (after_install token p host cmd (out, err))" by (simp add: after_install_def)
  then show "let a = on_run env p host cmd; h = after_install token p host cmd a in
      case snd a of None \<Rightarrow> kept i host svc force path (bind (if w then restart_service env host svc else ret ()) (\<lambda>_. ret Installed)) h
      | Some e \<Rightarrow> always (orderly i host svc force False path) h"
    using cleared_restart [OF c _ cmd(1), of out] clearedD [OF c] by (cases err) (simp_all add: a)
qed

lemma change_node_orderly:
  assumes h: "list_all quiet h" and svc: "svc \<in> {''rke2-server'', ''rke2-agent''}" and cmd: "i cmd" "cmd \<noteq> active_cmd svc"
  shows "kept i host svc force path (change_node env host svc force ca path script cmd token) h"
  unfolding change_node_def
proof (rule wp_bindI, rule wp_conseq [OF node_gate_orderly [OF h svc]])
  fix g p
  assume g: "always (orderly i host svc force False path) p \<and>
    (\<forall>w. g = Some w \<longrightarrow> gate_open host svc force p \<and> (seen_active host svc p \<longrightarrow> w) \<and>
      (w \<longrightarrow> forced_and_free host svc force p))"
  show "kept i host svc force path (case g of None \<Rightarrow> ret Already_active
       | Some was_active \<Rightarrow> bind (push_ca env host ca) (\<lambda>_.
           bind (put_on env Script_not_pushed host path script 493) (\<lambda>_.
           bind (run_installer env host cmd token) (\<lambda>_.
           bind (if was_active then restart_service env host svc else ret ()) (\<lambda>_. ret Installed))))) p"
  proof (cases g)
    case (Some w)
    then have p: "cleared i host svc force path w p" using g by (simp add: cleared_def)
    show ?thesis
      unfolding Some option.case
    proof (rule wp_bindI, rule wp_conseq [OF cleared_push_ca [OF p]])
      fix u p1
      assume p1: "cleared i host svc force path w p1"
      show "kept i host svc force path (bind (put_on env Script_not_pushed host path script 493) (\<lambda>_.
           bind (run_installer env host cmd token) (\<lambda>_.
           bind (if w then restart_service env host svc else ret ()) (\<lambda>_. ret Installed)))) p1"
        by (rule wp_bindI, rule wp_conseq [OF cleared_put [OF p1]], simp)
          (rule cleared_installer [where i = i], auto simp: cmd)
    qed
  qed (use g in \<open>simp add: wp_ret\<close>)
qed auto


section \<open>The token in what is printed\<close>

definition token_ok :: "string \<Rightarrow> bool" where
  "token_ok t \<longleftrightarrow> t \<noteq> [] \<and> set t \<inter> {SQ, CHR ''<'', CHR ''>'', CHR '' '', CHR ''|'', NL} = {} \<and> \<not> contains ''redacted'' t"

lemma contains_around: "c \<notin> set t \<Longrightarrow> contains (a @ c # b) t \<longleftrightarrow> contains a t \<or> contains b t"
proof -
  assume c: "c \<notin> set t"
  have "contains a t \<or> contains b t" if abt: "a @ c # b = p @ t @ q" for p q
  proof (cases "length (p @ t) \<le> length a")
    case True
    then have "\<exists>r. a = (p @ t) @ r"
      using abt by (auto simp: append_eq_append_conv2)
    then show ?thesis by (auto simp: contains_iff)
  next
    case False
    show ?thesis
    proof (cases "length p \<le> length a")
      case True
      then obtain m where m: "a = p @ m" using abt by (auto simp: append_eq_append_conv2)
      then have "m @ c # b = t @ q" using abt by simp
      moreover have "length m < length t" using False m by simp
      ultimately have "c \<in> set t" by (auto simp: append_eq_append_conv2 append_eq_Cons_conv Cons_eq_append_conv)
      then show ?thesis using c by simp
    next
      case False
      then obtain m where "p = a @ c # m" 
        using abt by (auto simp: append_eq_append_conv2 append_eq_Cons_conv Cons_eq_append_conv)
      then have "b = m @ t @ q" using abt by simp
      then show ?thesis by (auto simp: contains_iff)
    qed
  qed
  moreover have "contains a t \<Longrightarrow> contains (a @ c # b) t" using contains_append [of a t "[]" "c # b"] by simp
  moreover have "contains b t \<Longrightarrow> contains (a @ c # b) t" using contains_append [of b t "a @ [c]" "[]"] by simp
  ultimately show ?thesis by (auto simp: contains_iff [of "a @ c # b"])
qed

lemma index_of_first: "index_of s t = Some i \<Longrightarrow> t \<noteq> [] \<Longrightarrow> \<not> contains (take i s) t"
proof (induction s arbitrary: i)
  case (Cons x xs)
  show ?case
  proof (cases "has_prefix (x # xs) t")
    case False
    then obtain j where j: "index_of xs t = Some j" "i = Suc j" using Cons.prems by auto
    have "\<not> has_prefix (x # take j xs) t"
      using False by (metis prefix_order.trans prefix_def append_take_drop_id append_Cons)
    then show ?thesis using Cons.IH [OF j(1) Cons.prems(2)] j(2) by (simp add: contains_Cons)
  qed (use Cons.prems in simp)
qed simp

lemma split_str_free: "t \<noteq> [] \<Longrightarrow> p \<in> set (split_str t s) \<Longrightarrow> \<not> contains p t"
proof (induction s rule: measure_induct_rule [of length])
  case (less s)
  show ?case
  proof (cases "index_of s t")
    case None
    then show ?thesis using less.prems by (subst (asm) split_str.simps) (simp add: contains_def)
  next
    case (Some i)
    have "\<not> contains (take i s) t" by (rule index_of_first [OF Some less.prems(1)])
    moreover have "\<not> contains p t" if "p \<in> set (split_str t (drop (i + length t) s))"
    proof (rule less.IH [OF _ less.prems(1) that])
      have "0 < length t" using less.prems(1) by simp
      then have "length s - (i + length t) < length s" using index_of_bound [OF Some] by linarith
      then show "length (drop (i + length t) s) < length s" by simp
    qed
    ultimately show ?thesis using less.prems Some by (subst (asm) (2) split_str.simps) auto
  qed
qed

lemma join_redacted_free:
  assumes t: "token_ok t" and ps: "\<And>p. p \<in> set ps \<Longrightarrow> \<not> contains p t"
  shows "\<not> contains (join ''<redacted>'' ps) t"
proof -
  have c: "CHR ''<'' \<notin> set t" "CHR ''>'' \<notin> set t" "\<not> contains ''redacted'' t" "t \<noteq> []"
    using t by (auto simp: token_ok_def)
  show ?thesis
    using ps
  proof (induction ps)
    case (Cons p ps)
    show ?case
    proof (cases "ps = []")
      case False
      have "join ''<redacted>'' (p # ps) = p @ CHR ''<'' # ''redacted'' @ CHR ''>'' # join ''<redacted>'' ps"
        using False by (simp add: join_Cons)
      then show ?thesis
        using Cons c contains_around [OF c(1)] contains_around [OF c(2)] by (metis list.set_intros)
    qed (use Cons in simp)
  qed (use c in simp)
qed

lemma redact_token_free: "token_ok t \<Longrightarrow> \<not> contains (redact_token s t) t"
  using join_redacted_free [of t "split_str t s"] split_str_free [of t]
  by (auto simp: redact_token_def replace_all_def token_ok_def)

lemma contains_join_lines: "NL \<notin> set t \<Longrightarrow> ls \<noteq> [] \<Longrightarrow> contains (join [NL] ls) t \<longleftrightarrow> (\<exists>l\<in>set ls. contains l t)"
proof (induction ls)
  case (Cons l ls)
  then show ?case by (cases "ls = []") (auto simp: join_Cons contains_around)
qed simp

lemma contains_prefixed:
  assumes "set pre \<inter> set t = {}" "t \<noteq> []"
  shows "contains (pre @ l) t \<longleftrightarrow> contains l t"
  using assms
proof (induction pre)
  case (Cons c pre)
  then have c: "c \<notin> set t" by auto
  have "contains (c # pre @ l) t \<longleftrightarrow> contains [] t \<or> contains (pre @ l) t"
    using contains_around [OF c, of "[]"] by simp
  then show ?case using Cons by auto
qed simp

lemma indent_free:
  assumes t: "token_ok t" and s: "\<not> contains s t"
  shows "\<not> contains (indent s ''    | '') t"
proof -
  let ?r = "trim_right_nl s"
  have nl: "NL \<notin> set t" "t \<noteq> []" "set ''    | '' \<inter> set t = {}" using t by (auto simp: token_ok_def)
  have "s = ?r @ rev (takeWhile (\<lambda>c. c = NL) (rev s))"
    by (simp add: trim_right_nl_def flip: rev_append)
  then have r: "\<not> contains ?r t" using s contains_append [of ?r t "[]"] by (metis append_Nil)
  have "\<not> contains l t" if "l \<in> set (split_on NL ?r)" for l
    using r contains_join_lines [OF nl(1), of "split_on NL ?r"] that by auto
  then show ?thesis
    unfolding indent_def using contains_join_lines [OF nl(1)] contains_prefixed [OF nl(3,2)] by auto
qed

lemma printed_free: "token_ok t \<Longrightarrow> \<not> contains (indent (redact_token s t) ''    | '') t"
  by (simp add: indent_free redact_token_free)


section \<open>What a run prints and reports\<close>

definition prints_no :: "string \<Rightarrow> rk_event \<Rightarrow> bool" where
  "prints_no t e \<longleftrightarrow> (\<forall>s. e = Output s \<longrightarrow> \<not> contains s t)"

definition tells_no :: "string \<Rightarrow> rk_error \<Rightarrow> bool" where
  "tells_no t e \<longleftrightarrow> (\<forall>s. e = Install_failed s \<longrightarrow> \<not> contains s t)"

definition discreet :: "string \<Rightarrow> 'a rk_prog \<Rightarrow> bool" where
  "discreet t m \<longleftrightarrow> emits (prints_no t) m \<and> (\<forall>h. wp m (\<lambda>_ _. True) (\<lambda>e _. tells_no t e) h)"

named_theorems discreet_rule "workflows that keep the token out of the output and the errors"

lemma discreet_basic [discreet_rule]:
  "discreet t (ret x)" "tells_no t e \<Longrightarrow> discreet t (fail e)" "tells_no t e \<Longrightarrow> discreet t (guard e b)"
  "discreet t (run_on env host cmd)" "discreet t (plan p)" "\<not> contains s t \<Longrightarrow> discreet t (print_remote s)"
  by (auto simp: discreet_def wp run_on_def plan_def print_remote_def prints_no_def intro!: emits_rule)

lemma discreet_bind [discreet_rule]: "discreet t m \<Longrightarrow> (\<And>x. discreet t (k x)) \<Longrightarrow> discreet t (bind m k)"
  unfolding discreet_def by (auto intro!: emits_bind wp_bindI intro: wp_conseq)

lemma discreet_put [discreet_rule]:
  "(\<And>e. tells_no t (wrap e)) \<Longrightarrow> discreet t (put_on env wrap host path content mode)"
  by (auto simp: discreet_def put_on_def wp prints_no_def intro!: emits_rule split: option.split)

lemma quiet_prints: "emits quiet m \<Longrightarrow> emits (prints_no t) m"
  unfolding emits_def list_all_iff prints_no_def by (metis quiet.simps(3))

lemma discreet_detect [discreet_rule]:
  "(\<And>e. tells_no t (wrap e)) \<Longrightarrow> discreet t (wrap_err wrap (detect_node_ip env host))"
  using quiet_prints [OF idle_detect [unfolded idle_def], of t env host]
  by (auto simp: discreet_def wp intro: emits_wrap_err wp_bound)

lemma discreet_if [discreet_rule]: "(b \<Longrightarrow> discreet t m) \<Longrightarrow> (\<not> b \<Longrightarrow> discreet t m') \<Longrightarrow> discreet t (if b then m else m')"
  by simp

lemma discreet_cases [discreet_rule]:
  "(x = None \<Longrightarrow> discreet t m) \<Longrightarrow> (\<And>e. x = Some e \<Longrightarrow> discreet t (f e)) \<Longrightarrow> discreet t (case x of None \<Rightarrow> m | Some e \<Rightarrow> f e)"
  "(\<And>a b. discreet t (g a b)) \<Longrightarrow> discreet t (case p of (a, b) \<Rightarrow> g a b)"
  by (auto split: option.split prod.split)

lemma tells_no_other [simp]:
  "tells_no t (Missing_dependency s)" "tells_no t (Invalid_option s u)" "tells_no t (Node_ip e)" "tells_no t (Cp_ip e)"
  "tells_no t (Worker_ip e)" "tells_no t (Token_unread s)" "tells_no t Token_empty" "tells_no t (Vms_unknown s)"
  "tells_no t (Vms_running s)" "tells_no t (Ca_not_pushed s)" "tells_no t (Script_not_pushed s)" "tells_no t (Restart_failed s)"
  "token_ok t \<Longrightarrow> tells_no t (Install_failed (redact_token s t))"
  by (auto simp: tells_no_def redact_token_free)

lemma discreet_change:
  assumes t: "token_ok t"
  shows "discreet t (change_node env host svc force ca path script cmd t)"
  unfolding change_node_def node_gate_def service_active_def ensure_no_running_vms_def push_ca_def run_installer_def restart_service_def
  by (auto intro!: discreet_rule simp: t printed_free)

definition server_call :: "rk_env \<Rightarrow> install_options \<Rightarrow> string \<Rightarrow> bool" where
  "server_call env o' cmd \<longleftrightarrow> validate_install o' = None \<and>
     (\<exists>ip. parse_ip ip \<noteq> None \<and> cmd = server_cmd env (o'\<lparr>io_node_ip := ip\<rparr>))"

definition agent_call :: "rk_env \<Rightarrow> worker_options \<Rightarrow> string \<Rightarrow> bool" where
  "agent_call env w cmd \<longleftrightarrow> validate_worker w = None \<and>
     (\<exists>tok cp ip. tok \<noteq> [] \<and> parse_ip cp \<noteq> None \<and> parse_ip ip \<noteq> None \<and>
       cmd = agent_cmd env (w\<lparr>wo_join_token := tok, wo_cp_host := cp, wo_cp_port := cp_port w, wo_ip := ip\<rparr>))"

lemma route_src_ip: "route_src fs = Some ip \<Longrightarrow> \<exists>a. parse_ip ip = Some a"
  by (induction fs rule: route_src.induct) (auto split: if_splits)

lemma first_ipv4_ip: "first_ipv4 out = Some ip \<Longrightarrow> \<exists>a. parse_ip ip = Some a"
  by (auto simp: first_ipv4_def find_Some_iff parse_ip4_def bind_eq_Some_conv)

definition finds_ip :: "string rk_prog \<Rightarrow> bool" where
  "finds_ip m \<longleftrightarrow> (\<forall>h. wp m (\<lambda>ip _. parse_ip ip \<noteq> None) (\<lambda>_ _. True) h)"

lemma finds_basic:
  "\<exists>a. parse_ip ip = Some a \<Longrightarrow> finds_ip (ret ip)" "finds_ip (fail e)"
  "(\<And>a. finds_ip (k a)) \<Longrightarrow> finds_ip (bind (run_on env host cmd) k)"
  by (simp_all add: finds_ip_def wp run_on_def)

lemma finds_once: "finds_ip (detect_once env host)"
  unfolding detect_once_def
  by (auto intro!: finds_basic dest!: route_src_ip first_ipv4_ip split: option.split prod.split)

lemma finds_attempt:
  assumes "finds_ip m" "\<And>e. finds_ip (f e)"
  shows "finds_ip (bind (attempt m) (\<lambda>r. case r of Inr ip \<Rightarrow> ret ip | Inl e \<Rightarrow> f e))"
  unfolding finds_ip_def
proof (intro allI, rule wp_bindI, subst wp_attempt, rule wp_conseq [OF assms(1) [unfolded finds_ip_def, rule_format]])
  show "wp (case Inl e of Inr ip \<Rightarrow> ret ip | Inl e \<Rightarrow> f e) (\<lambda>ip _. parse_ip ip \<noteq> None) (\<lambda>_ _. True) h" for e h
    using assms(2) [of e] by (simp add: finds_ip_def)
qed (simp add: wp_ret)

lemma finds_again: "finds_ip (detect_again env host e n)"
proof (induction n arbitrary: e)
  case (Suc n)
  have "finds_ip (bind (attempt (detect_once env host)) (\<lambda>r. case r of Inr ip \<Rightarrow> ret ip | Inl e' \<Rightarrow> detect_again env host e' n))"
    by (intro finds_attempt finds_once Suc.IH)
  then show ?case by (simp add: finds_ip_def wp_bind wp_observe wp_if wp_fail)
qed (simp add: finds_ip_def wp)

lemma finds_detect: "finds_ip (detect_node_ip env host)"
  unfolding detect_node_ip_def by (intro finds_attempt finds_once finds_again)


section \<open>Whole runs\<close>

abbreviation well_run ::
  "(string \<Rightarrow> bool) \<Rightarrow> ssh_host \<Rightarrow> string \<Rightarrow> bool \<Rightarrow> bool \<Rightarrow> string \<Rightarrow> rk_done rk_prog \<Rightarrow> rk_event list \<Rightarrow> bool" where
  "well_run i host svc force dry path m h \<equiv>
     wp m (\<lambda>d h'. always (orderly i host svc force dry path) h' \<and> (d = Installed \<longrightarrow> applied i host svc h'))
       (\<lambda>_ h'. always (orderly i host svc force dry path) h') h"

lemma resolved_orderly:
  assumes h: "list_all quiet h" and svc: "svc \<in> {''rke2-server'', ''rke2-agent''}"
    and cmd: "i cmd" "cmd \<noteq> active_cmd svc"
  shows "well_run i host svc force dry path
    (bind (plan p) (\<lambda>_. if dry then ret Dry_run else change_node env host svc force ca path script cmd token)) h"
proof (rule wp_bindI, rule idle_wp [OF idle_parts(6) h])
  fix h'
  assume q: "list_all quiet h'"
  show "well_run i host svc force dry path
    (if dry then ret Dry_run else change_node env host svc force ca path script cmd token) h'"
    using quiet_orderly [OF q] change_node_orderly [OF q svc, of i cmd] cmd by (cases dry) (simp_all add: wp_ret)
qed (rule quiet_orderly)

lemma install_cmd_not_probe: "server_cmd env o' \<noteq> active_cmd svc" "agent_cmd env w \<noteq> active_cmd svc"
  by (simp_all add: server_cmd_def agent_cmd_def remote_install_cmd_def active_cmd_def)

lemma quiet_finds:
  assumes "idle m" "finds_ip m" "list_all quiet h"
    and "\<And>ip h'. list_all quiet h' \<Longrightarrow> parse_ip ip \<noteq> None \<Longrightarrow> Q ip h'" "\<And>e h'. list_all quiet h' \<Longrightarrow> E e h'"
  shows "wp m Q E h"
proof (rule wp_conseq [OF emits_wp [OF assms(1) [unfolded idle_def] assms(2) [unfolded finds_ip_def, rule_format]]])
qed (use assms(3-) in auto)

lemma finds_wrapped: "finds_ip m \<Longrightarrow> finds_ip (wrap_err w m)"
  by (simp add: finds_ip_def wp_wrap_err)

lemma given_or_found:
  assumes "parse_ip s \<noteq> None \<or> s = []"
  shows "finds_ip (if s = [] then wrap_err w (detect_node_ip env host) else ret s)"
  using assms by (auto intro!: finds_wrapped finds_detect finds_basic)

lemma idle_given: "idle (if s = [] then wrap_err w (detect_node_ip env host) else ret s)"
  by (simp add: idle_rules)

lemma install_resolved_orderly:
  assumes "list_all quiet h" "validate_install o' = None" "parse_ip ip \<noteq> None"
  shows "well_run (server_call env o') (io_host o') ''rke2-server'' (io_force o') (io_dry_run o') server_script_path
    (install_resolved env (o'\<lparr>io_node_ip := ip\<rparr>)) h"
proof -
  have "server_call env o' (server_cmd env (o'\<lparr>io_node_ip := ip\<rparr>))"
    using assms(2,3) by (auto simp: server_call_def)
  then show ?thesis
    unfolding install_resolved_def by (simp cong: if_cong split del: if_split) (rule resolved_orderly [OF assms(1)], simp_all add: install_cmd_not_probe)
qed

lemma install_orderly:
  "well_run (server_call env o') (io_host o') ''rke2-server'' (io_force o') (io_dry_run o') server_script_path (install env o') []"
proof (cases "validate_install o'")
  case None
  have ip: "parse_ip (io_node_ip o') \<noteq> None \<or> io_node_ip o' = []"
    using None by (auto simp: validate_install_def bad_ip_def split: if_splits)
  show ?thesis
    unfolding install_def None option.case
    by (rule wp_bindI, subst wp_ret, rule wp_bindI, rule quiet_finds [OF idle_given given_or_found [OF ip]], simp)
      (auto intro: install_resolved_orderly [OF _ None] quiet_orderly)
qed (simp add: install_def wp)

text \<open>The credentials a worker joins with.\<close>

lemma resolved_credentials:
  "wp (resolve_join_credentials env cp token host)
    (\<lambda>c h. list_all quiet h \<and> fst c \<noteq> [] \<and> parse_ip (snd c) \<noteq> None) (\<lambda>_. list_all quiet) []"
proof -
  have "wp (resolve_join_credentials env cp token host) (\<lambda>c h. fst c \<noteq> [] \<and> parse_ip (snd c) \<noteq> None) (\<lambda>_ _. True) h" for h
    unfolding resolve_join_credentials_def read_token_def fetch_from_def Let_def
    by (rule wp_bindI, rule wp_bound) (auto simp: wp split: sum.split)
  from emits_wp [OF idle_credentials [unfolded idle_def] this, of "[]"] show ?thesis
    by (rule wp_conseq) auto
qed

abbreviation resolved_worker :: "worker_options \<Rightarrow> string \<Rightarrow> string \<Rightarrow> string \<Rightarrow> worker_options" where
  "resolved_worker w tok cp ip \<equiv> w\<lparr>wo_join_token := tok, wo_cp_host := cp, wo_cp_port := cp_port w, wo_ip := ip\<rparr>"

lemma join_resolved_orderly:
  assumes "list_all quiet h" "validate_worker w = None" "tok \<noteq> []" "parse_ip cp \<noteq> None" "parse_ip ip \<noteq> None"
  shows "well_run (agent_call env w) (wo_worker w) ''rke2-agent'' (wo_force w) (wo_dry_run w) agent_script_path
    (join_resolved env (resolved_worker w tok cp ip)) h"
proof -
  have "agent_call env w (agent_cmd env (resolved_worker w tok cp ip))"
    using assms(2-) unfolding agent_call_def by blast
  then show ?thesis
    unfolding join_resolved_def by (simp cong: if_cong split del: if_split) (rule resolved_orderly [OF assms(1)], simp_all add: install_cmd_not_probe)
qed

lemma join_orderly:
  "well_run (agent_call env w) (wo_worker w) ''rke2-agent'' (wo_force w) (wo_dry_run w) agent_script_path (join_worker env w) []"
proof (cases "validate_worker w")
  case None
  show ?thesis
    unfolding join_worker_def None option.case
  proof (rule wp_bindI, subst wp_ret, rule wp_bindI, rule wp_conseq [OF resolved_credentials])
    fix c :: "string \<times> string" and h
    assume c: "list_all quiet h \<and> fst c \<noteq> [] \<and> parse_ip (snd c) \<noteq> None"
    obtain tok cp where tc: "c = (tok, cp)" by force
    show "well_run (agent_call env w) (wo_worker w) ''rke2-agent'' (wo_force w) (wo_dry_run w) agent_script_path
      (case c of (tok, cp) \<Rightarrow>
        bind (if wo_ip w = [] then wrap_err Worker_ip (detect_node_ip env (wo_worker w)) else ret (wo_ip w)) (\<lambda>ip.
        bind (guard (Invalid_option ''worker IP'' ip) (parse_ip ip \<noteq> None)) (\<lambda>_.
        join_resolved env (resolved_worker w tok cp ip)))) h"
      unfolding tc split_conv
    proof (rule wp_bindI, rule idle_wp [OF idle_given])
      fix ip h'
      assume q: "list_all quiet h'"
      show "well_run (agent_call env w) (wo_worker w) ''rke2-agent'' (wo_force w) (wo_dry_run w) agent_script_path
        (bind (guard (Invalid_option ''worker IP'' ip) (parse_ip ip \<noteq> None)) (\<lambda>_. join_resolved env (resolved_worker w tok cp ip))) h'"
        using join_resolved_orderly [OF q None, of tok cp ip env] c quiet_orderly [OF q]
        by (cases "parse_ip ip") (simp_all add: tc wp_bind wp_guard)
    qed (use c in \<open>auto intro: quiet_orderly\<close>)
  qed (rule quiet_orderly)
qed (simp add: join_worker_def wp)


section \<open>The command line a node reads\<close>

lemma plain_words:
  "plain_char (CHR ''='')" "list_all plain_char ''sudo''" "list_all plain_char ''-n''" "list_all plain_char ''env''"
  "list_all plain_char ''bash''" "list_all plain_char server_script_path" "list_all plain_char agent_script_path"
  by code_simp+

lemma sh_words_plain_blank:
  "list_all plain_char p \<Longrightarrow> p \<noteq> [] \<Longrightarrow>
   sh_words w (p @ CHR '' '' # r) = map_option (Cons (word_so_far w @ p)) (sh_words None r)"
  by (simp add: sh_words_plain sh_words_blank closed_word_def fun_eq_iff option.map_comp comp_def cong: map_option_cong)

definition assignment :: "string \<times> string \<Rightarrow> string" where
  "assignment kv = fst kv @ ''='' @ snd kv"

lemma sh_words_assignments:
  "(\<And>kv. kv \<in> set kvs \<Longrightarrow> list_all plain_char (fst kv)) \<Longrightarrow>
   sh_words (Some x) (concat (map (\<lambda>(k, v). '' '' @ k @ ''='' @ quote_bs v) kvs) @ CHR '' '' # r) =
     map_option (\<lambda>ws. x # map assignment kvs @ ws) (sh_words None r)"
proof (induction kvs arbitrary: x)
  case Nil
  then show ?case by (simp add: sh_words_blank closed_word_def fun_eq_iff cong: map_option_cong)
next
  case (Cons kv kvs)
  obtain k v where kv: "kv = (k, v)" by force
  let ?rest = "concat (map (\<lambda>(k, v). '' '' @ k @ ''='' @ quote_bs v) kvs) @ CHR '' '' # r"
  have "list_all plain_char (k @ ''='')" using Cons.prems [of kv] kv plain_words(1) by simp
  then have "sh_words None ((k @ ''='') @ quote_bs v @ ?rest) = sh_words (Some (k @ ''='' @ v)) ?rest"
    by (subst sh_words_plain) (simp_all add: sh_words_quote word_so_far_def)
  then show ?case
    using Cons.IH [of "k @ ''='' @ v"] Cons.prems
    by (simp add: kv sh_words_blank closed_word_def assignment_def option.map_comp comp_def cong: map_option_cong)
qed

lemma sh_words_args:
  "sh_words (Some x) (concat (map (\<lambda>a. '' '' @ quote_bs a) args)) = Some (x # args)"
proof (induction args arbitrary: x)
  case (Cons a args)
  then show ?case by (simp add: sh_words_blank sh_words_quote closed_word_def word_so_far_def)
qed (simp add: sh_words_end closed_word_def)

lemma sh_words_install_cmd:
  assumes keys: "\<And>kv. kv \<in> set vars \<Longrightarrow> list_all plain_char (fst kv)" and path: "list_all plain_char path" "path \<noteq> []"
  shows "sh_words None (remote_install_cmd vars path @ concat (map (\<lambda>a. '' '' @ quote_bs a) args)) =
    Some ([''sudo'', ''-n'', ''env''] @ map assignment (sort_key fst vars) @ [''bash'', path] @ args)"
proof -
  let ?args = "concat (map (\<lambda>a. '' '' @ quote_bs a) args)"
  have tail: "sh_words None (''bash'' @ CHR '' '' # path @ ?args) = Some (''bash'' # path # args)"
    using path sh_words_args [of path args]
    by (simp only: sh_words_plain_blank [OF plain_words(5)] sh_words_plain [OF path] word_so_far_def
        list.distinct not_False_eq_True option.case append_Nil option.map)
  have vars: "sh_words (Some ''env'')
      (concat (map (\<lambda>(k, v). '' '' @ k @ ''='' @ quote_bs v) (sort_key fst vars)) @ CHR '' '' # ''bash'' @ CHR '' '' # path @ ?args) =
      Some (''env'' # map assignment (sort_key fst vars) @ ''bash'' # path # args)"
    by (subst sh_words_assignments) (use keys tail in \<open>auto simp: \<close>)
  have "sh_words None (''sudo'' @ CHR '' '' # ''-n'' @ CHR '' '' # ''env'' @
      concat (map (\<lambda>(k, v). '' '' @ k @ ''='' @ quote_bs v) (sort_key fst vars)) @ CHR '' '' # ''bash'' @ CHR '' '' # path @ ?args) =
      Some (''sudo'' # ''-n'' # ''env'' # map assignment (sort_key fst vars) @ ''bash'' # path # args)"
    using vars
    by (simp only: sh_words_plain_blank [OF plain_words(2)] sh_words_plain_blank [OF plain_words(3)]
        sh_words_plain [OF plain_words(4)] word_so_far_def list.distinct not_False_eq_True) simp
  then show ?thesis by (simp add: remote_install_cmd_def)
qed


lemma install_keys:
  "kv \<in> set (build_install_env env o') \<Longrightarrow> list_all plain_char (fst kv)"
  "kv \<in> set (build_agent_env env w) \<Longrightarrow> list_all plain_char (fst kv)"
proof -
  have keys: "list_all (list_all plain_char)
    [''RKE2_VERSION'', ''NODE_NAME'', ''NODE_IP'', ''EXTERNAL_IP'', ''DOMAIN'', ''POD_CIDR'', ''SERVICE_CIDR'', ''CLUSTER_DNS'',
     ''RKE2_DNS_PUBLIC_FALLBACK'', ''EMBEDDED_REGISTRY'', ''TRUSTED_CA_FILE'', ''TRUSTED_CA_SHA256'', ''CP_PORT'']"
    by code_simp
  show "kv \<in> set (build_install_env env o') \<Longrightarrow> list_all plain_char (fst kv)"
    and "kv \<in> set (build_agent_env env w) \<Longrightarrow> list_all plain_char (fst kv)"
    using keys by (auto simp: build_install_env_def build_agent_env_def fallback_vars_def registry_vars_def ca_vars_def
        split: if_splits option.splits)
qed

text \<open>C40. What the operator typed is what the installer gets. A shell that reads the command sent to the
  node finds exactly the words meant: the environment with every variable and its value, the script,
  and for a join the token and the addresses as its arguments, whatever quotes, dollars, blanks or
  newlines the values hold.\<close>

theorem installer_command_read_back:
  "sh_words None (server_cmd env o') =
     Some ([''sudo'', ''-n'', ''env''] @ map assignment (sort_key fst (build_install_env env o')) @
       [''bash'', server_script_path] @ (if is_join o' then [io_join_token o', io_join_server o'] else [])) \<and>
   sh_words None (agent_cmd env w) =
     Some ([''sudo'', ''-n'', ''env''] @ map assignment (sort_key fst (build_agent_env env w)) @
       [''bash'', agent_script_path] @ [wo_join_token w, wo_cp_host w, wo_ip w])"
proof -
  have paths: "server_script_path \<noteq> []" "agent_script_path \<noteq> []"
    by (simp_all add: server_script_path_def agent_script_path_def)
  let ?args = "if is_join o' then [io_join_token o', io_join_server o'] else []"
  have "sh_words None (remote_install_cmd (build_install_env env o') server_script_path @ concat (map (\<lambda>a. '' '' @ quote_bs a) ?args)) =
      Some ([''sudo'', ''-n'', ''env''] @ map assignment (sort_key fst (build_install_env env o')) @ [''bash'', server_script_path] @ ?args)"
    by (rule sh_words_install_cmd [OF install_keys(1) plain_words(6) paths(1)])
  moreover have "sh_words None (remote_install_cmd (build_agent_env env w) agent_script_path
        @ concat (map (\<lambda>a. '' '' @ quote_bs a) [wo_join_token w, wo_cp_host w, wo_ip w])) =
      Some ([''sudo'', ''-n'', ''env''] @ map assignment (sort_key fst (build_agent_env env w)) @ [''bash'', agent_script_path]
        @ [wo_join_token w, wo_cp_host w, wo_ip w])"
    by (rule sh_words_install_cmd [OF install_keys(2) plain_words(7) paths(2)])
  ultimately show ?thesis by (cases "is_join o'") (simp_all add: server_cmd_def agent_cmd_def)
qed

section \<open>Properties\<close>

definition finishes :: "'a rk_prog \<Rightarrow> bool" where
  "finishes m \<longleftrightarrow> (\<forall>h. m h \<noteq> None)"

named_theorems finishes_rule "workflows that return"

lemma finishes_basic [finishes_rule]:
  "finishes (ret x)" "finishes (fail e)" "finishes (ask f g)" "finishes (observe f)" "finishes (check_err wrap r)" "finishes (guard e b)"
  by (auto simp: finishes_def ret_def fail_def ask_def observe_def check_err_def guard_def split: sum.split)

lemma finishes_bind [finishes_rule]: "finishes m \<Longrightarrow> (\<And>x. finishes (k x)) \<Longrightarrow> finishes (bind m k)"
  by (fastforce simp: finishes_def bind_def split: option.split sum.split)

lemma finishes_caught [finishes_rule]: "finishes m \<Longrightarrow> finishes (attempt m)" "finishes m \<Longrightarrow> finishes (wrap_err w m)"
  by (fastforce simp: finishes_def attempt_def wrap_err_def split: option.split sum.split)+

lemma finishes_cases [finishes_rule]:
  "(b \<Longrightarrow> finishes m) \<Longrightarrow> (\<not> b \<Longrightarrow> finishes m') \<Longrightarrow> finishes (if b then m else m')"
  "finishes m \<Longrightarrow> (\<And>e. finishes (f e)) \<Longrightarrow> finishes (case x of None \<Rightarrow> m | Some e \<Rightarrow> f e)"
  "(\<And>e. finishes (f e)) \<Longrightarrow> (\<And>y. finishes (k y)) \<Longrightarrow> finishes (case r of Inl e \<Rightarrow> f e | Inr y \<Rightarrow> k y)"
  "(\<And>a b. finishes (g a b)) \<Longrightarrow> finishes (case p of (a, b) \<Rightarrow> g a b)"
  by (auto split: option.split sum.split prod.split)

lemmas rk_calls = run_on_def put_on_def fetch_from_def plan_def print_remote_def

lemma finishes_detect [finishes_rule]: "finishes (detect_node_ip env host)"
proof -
  have once: "finishes (detect_once env host)"
    unfolding detect_once_def rk_calls by (intro finishes_rule)
  have "finishes (detect_again env host e n)" for e n
    by (induction n arbitrary: e) (auto intro!: finishes_rule once)
  then show ?thesis unfolding detect_node_ip_def by (intro finishes_rule once)
qed

lemma finishes_change [finishes_rule]: "finishes (change_node env host svc force ca path script cmd token)"
  unfolding change_node_def node_gate_def service_active_def ensure_no_running_vms_def push_ca_def run_installer_def
    restart_service_def rk_calls by (intro finishes_rule)

lemma finishes_runs: "finishes (install env o')" "finishes (join_worker env w)"
  unfolding install_def install_resolved_def join_worker_def join_resolved_def resolve_join_credentials_def read_token_def
    rk_calls Let_def by (intro finishes_rule)+

lemma run_outcome:
  assumes "finishes m" "well_run i host svc force dry path m []"
  shows "\<exists>r h. m [] = Some (r, h) \<and> always (orderly i host svc force dry path) h \<and> (r = Inr Installed \<longrightarrow> applied i host svc h)"
proof -
  obtain r h where m: "m [] = Some (r, h)" using assms(1) unfolding finishes_def by fastforce
  then show ?thesis using assms(2) by (cases r) (auto simp: wp_def)
qed


lemma discreet_run:
  assumes "discreet t m" "m h0 = Some (r, h)" "list_all quiet h0"
  shows "(\<forall>s. Output s \<in> set h \<longrightarrow> \<not> contains s t) \<and> (\<forall>s. r = Inl (Install_failed s) \<longrightarrow> \<not> contains s t)"
proof -
  obtain evs where "h = h0 @ evs" "list_all (prints_no t) evs"
    using assms(1,2) unfolding discreet_def emits_def by blast
  moreover have "r = Inl e \<Longrightarrow> tells_no t e" for e
    using assms(1,2) unfolding discreet_def by (metis wp_Inl)
  moreover have "Output s \<notin> set h0" for s
    using assms(3) by (auto simp: list_all_iff)
  ultimately show ?thesis by (auto simp: list_all_iff prints_no_def tells_no_def)
qed

lemma validation_tells_no: "validate_install o' = Some e \<Longrightarrow> tells_no t e" "validate_worker w = Some e \<Longrightarrow> tells_no t e"
  by (auto simp: validate_install_def validate_worker_def split: if_splits)

lemma install_discreet:
  assumes t: "token_ok (io_join_token o')"
  shows "discreet (io_join_token o') (install env o')"
proof -
  have "discreet (io_join_token o') (change_node env host svc force ca path script cmd (io_join_token (o'\<lparr>io_node_ip := ip\<rparr>)))"
    for host svc force ca path script cmd ip
    using discreet_change [OF t] by simp
  then show ?thesis
    unfolding install_def install_resolved_def
    by (intro discreet_rule) (auto simp: validation_tells_no)
qed

lemma join_discreet:
  assumes t: "token_ok t"
  shows "discreet t (bind (if wo_ip w = [] then wrap_err Worker_ip (detect_node_ip env (wo_worker w)) else ret (wo_ip w)) (\<lambda>ip.
     bind (guard (Invalid_option ''worker IP'' ip) (parse_ip ip \<noteq> None)) (\<lambda>_. join_resolved env (resolved_worker w t cp ip))))"
proof -
  have "discreet t (change_node env host svc force ca path script cmd (wo_join_token (resolved_worker w t cp ip)))"
    for host svc force ca path script cmd ip
    using discreet_change [OF t] by simp
  then show ?thesis
    unfolding join_resolved_def by (intro discreet_rule) auto
qed

text \<open>The commands of an orderly run.\<close>

lemma commands_of:
  assumes "always (orderly i host svc force dry path) h" "Run host' cmd a \<in> set h"
  shows "cmd \<in> probe_cmds \<or> i cmd \<or> cmd = restart_cmd svc"
proof -
  obtain p s where "h = p @ Run host' cmd a # s" using assms(2) by (auto dest: split_list)
  then have "orderly i host svc force dry path p (Run host' cmd a)" using assms(1) by (auto dest: alwaysD)
  then show ?thesis by (auto simp: orderly_def)
qed

lemma orderly_result: "well_run i host svc force dry path m [] \<Longrightarrow> m [] = Some (r, h) \<Longrightarrow> always (orderly i host svc force dry path) h"
  by (cases r) (auto simp: wp_def)



section \<open>Concrete runs\<close>

text \<open>A node whose agent runs; the installer fails, and the connection quotes the command in its error.\<close>

definition demo_ssh :: ssh_host where
  "demo_ssh = \<lparr>host_alias = ''node'', hostname = [], user = [], port = 0, proxy_jump = []\<rparr>"

definition demo_node :: "bool \<Rightarrow> rk_env" where
  "demo_node ok = \<lparr>on_run = (\<lambda>h host cmd.
       if cmd = active_cmd ''rke2-agent'' then (''active'' @ [NL], None)
       else if cmd = vm_probe_cmd then ([], None)
       else if ok then (''done'', None)
       else (''ran '' @ cmd, Some (''failed: '' @ cmd))),
     on_put = (\<lambda>_ _ _ _. None), on_fetch = (\<lambda>_ _ _. Inr (''K10ab::server:cd'' @ [NL])), ctx_done = (\<lambda>_. False),
     server_script = ''server'', agent_script = ''agent'', dns_fallback = []\<rparr>"

definition demo_worker :: worker_options where
  "demo_worker = \<lparr>wo_has_ssh = True, wo_worker = demo_ssh, wo_name = ''w1'', wo_ip = ''10.0.0.7'',
     wo_control_plane = demo_ssh, wo_join_token = ''K10ab::server:cd'', wo_cp_host = ''10.0.0.1'', wo_cp_port = 0, wo_version = [], wo_ca = None,
     wo_no_registry = False, wo_force = True, wo_dry_run = False\<rparr>"

lemma demo_facts:
  "validate_worker demo_worker = None" "parse_ip ''10.0.0.7'' \<noteq> None" "parse_ip ''10.0.0.1'' \<noteq> None"
  "trim_space (''active'' @ [NL]) = ''active''" "token_ok ''K10ab::server:cd''"
  by code_simp+

lemma demo_cmds:
  "agent_cmd env w \<noteq> vm_probe_cmd" "restart_cmd svc \<noteq> vm_probe_cmd" "restart_cmd svc \<noteq> active_cmd svc'"
  by (simp_all add: agent_cmd_def remote_install_cmd_def restart_cmd_def active_cmd_def vm_probe_cmd_def)

lemma demo_credentials:
  "resolve_join_credentials env cp ''K10ab::server:cd'' ''10.0.0.1'' h = Some (Inr (''K10ab::server:cd'', ''10.0.0.1''), h)"
  using demo_facts(3) by (simp add: resolve_join_credentials_def bind_ret guard_def) (simp add: ret_def)

definition demo_joined :: worker_options where
  "demo_joined = resolved_worker demo_worker ''K10ab::server:cd'' ''10.0.0.1'' ''10.0.0.7''"

lemma demo_join: "join_worker env demo_worker [] = join_resolved env demo_joined []"
proof -
  have "join_worker env demo_worker = join_resolved env demo_joined"
    unfolding join_worker_def demo_facts(1) option.case bind_ret fun_eq_iff
    using demo_facts(2)
    by (simp add: demo_worker_def bind_ret guard_def demo_joined_def bind_run [where m = "resolve_join_credentials _ _ _ _", OF demo_credentials])
  then show ?thesis by simp
qed

lemma demo_gate: "node_gate (demo_node ok) demo_ssh ''rke2-agent'' True h =
    Some (Inr (Some True), h @ [Run demo_ssh (active_cmd ''rke2-agent'') (''active'' @ [NL], None), Run demo_ssh vm_probe_cmd ([], None)])"
  using demo_facts(4) fixed_cmds(2) [of "''rke2-agent''"]
  by (simp add: node_gate_def service_active_def ensure_no_running_vms_def run_on_def bind_def ask_def ret_def demo_node_def)

definition demo_pushed :: "rk_event list \<Rightarrow> rk_event list" where
  "demo_pushed h = h @ [Plan (worker_plan demo_joined), Run demo_ssh (active_cmd ''rke2-agent'') (''active'' @ [NL], None),
     Run demo_ssh vm_probe_cmd ([], None), Put demo_ssh agent_script_path ''agent'' 493 None]"

lemma demo_run: "join_resolved (demo_node ok) demo_joined h =
    bind (run_installer (demo_node ok) demo_ssh (agent_cmd (demo_node ok) demo_joined) ''K10ab::server:cd'') (\<lambda>_.
      bind (restart_service (demo_node ok) demo_ssh ''rke2-agent'') (\<lambda>_. ret Installed)) (demo_pushed h)"
proof -
  have plan: "plan p h = Some (Inr (), h @ [Plan p])" for p h by (simp add: plan_def ask_def)
  have put: "put_on (demo_node ok) wrap host path content mode h = Some (Inr (), h @ [Put host path content mode None])" for wrap host path content mode h
    by (simp add: put_on_def ask_def bind_def ret_def demo_node_def)
  have script: "agent_script (demo_node ok) = ''agent''" by (simp add: demo_node_def)
  have opts: "wo_dry_run demo_joined = False" "wo_force demo_joined" "wo_worker demo_joined = demo_ssh" "wo_ca demo_joined = None"
    "wo_join_token demo_joined = ''K10ab::server:cd''"
    by (simp_all add: demo_joined_def demo_worker_def)
  show ?thesis
    unfolding join_resolved_def bind_run [where m = "plan _", OF plan] opts if_False change_node_def
    by (simp add: opts bind_run [where m = "node_gate _ _ _ _", OF demo_gate] bind_run [where m = "put_on _ _ _ _ _ _", OF put]
        push_ca_def bind_ret demo_pushed_def script)
qed


lemma demo_outcome:
  "\<exists>h. join_worker (demo_node True) demo_worker [] = Some (Inr Installed, h)"
  "\<exists>s h. join_worker (demo_node False) demo_worker [] = Some (Inl (Install_failed s), h)"
proof -
  have a: "agent_cmd env demo_joined \<noteq> active_cmd ''rke2-agent''" for env by (rule install_cmd_not_probe)
  have good: "on_run (demo_node True) h demo_ssh (agent_cmd env demo_joined) = (''done'', None)"
    "on_run (demo_node True) h demo_ssh (restart_cmd ''rke2-agent'') = (''done'', None)" for h env
    using a demo_cmds by (simp_all add: demo_node_def)
  have bad: "on_run (demo_node False) h demo_ssh (agent_cmd env demo_joined) =
      (''ran '' @ agent_cmd env demo_joined, Some (''failed: '' @ agent_cmd env demo_joined))" for h env
    using a demo_cmds by (simp add: demo_node_def)
  have print: "print_remote s h = Some (Inr (), h @ [Output s])" for s h by (simp add: print_remote_def ask_def)
  show "\<exists>h. join_worker (demo_node True) demo_worker [] = Some (Inr Installed, h)"
    unfolding demo_join demo_run
    by (simp add: run_installer_def restart_service_def run_on_def bind_def ask_def ret_def good print)
  show "\<exists>s h. join_worker (demo_node False) demo_worker [] = Some (Inl (Install_failed s), h)"
    unfolding demo_join demo_run
    by (simp add: run_installer_def run_on_def bind_def ask_def ret_def fail_def bad print)
qed



section \<open>What the guards miss\<close>

text \<open>A token with a quote in it is part of the command only in its quoted form, and an error that
  repeats the command shows it: the masking looks for the token as it is.\<close>

lemma quoted_token_not_masked:
  "contains (redact_token (''ssh: '' @ quote_bs (''K10::server:it'' @ [SQ] @ ''s-secret'')) (''K10::server:it'' @ [SQ] @ ''s-secret''))
     ''s-secret''"
  by code_simp

text \<open>A probe that cannot be read counts as a service that does not run: without being forced, and
  without a look at the virtual machines, the gate lets the installer through.\<close>

lemma lost_probe_opens_gate:
  assumes "on_run env h host (active_cmd svc) = ([], Some e)"
  shows "node_gate env host svc False h = Some (Inr (Some False), h @ [Run host (active_cmd svc) ([], Some e)])"
  using assms by (simp add: node_gate_def service_active_def run_on_def bind_def ask_def ret_def)

end
