(* ===== verification/Spec2Isabelle.thy ===== *)
theory Spec2Isabelle
  imports Env_File Oidc_Run Gpu_Transition Node_Remove Kubeconfig Credentials Redact Openbao_Init Front_Door
    Public_Anchor Option_Gates Tls_Writers Scaffold_Config Gpu_Upgrade Acceptance Break_Glass Doctor Topology Rke2_Join
begin

text \<open>
  The kube-dc command line tool, \<open>src/cli\<close>: a development of what its operations promise.

  \<^bold>\<open>The program.\<close>  The tool installs and runs Kube-DC clusters from an operator's machine.  What a
  cluster should be is kept in a git repository, the fleet: one directory per cluster with
  \<open>cluster-config.env\<close>, the generated manifests, and secrets encrypted by sops.  \<open>bootstrap init\<close>
  writes that directory from presets, options and what it finds on the nodes; other commands
  prepare nodes over SSH (RKE2, the OIDC cutover, the modes of GPU nodes, the removal of a node),
  initialize and open the vault, mint the break-glass kubeconfig, and judge the result (doctor,
  acceptance, topology, the gate of GPU upgrades).  The same binary serves kubectl as its
  credential plugin and keeps the operator's kubeconfig.  Paths below are relative to
  \<open>src/cli/internal/bootstrap\<close> unless they start with \<open>src\<close>.

  \<^bold>\<open>How code becomes definitions.\<close>  A Go function is a HOL function of the same name in lower case with
  underscores.  Structs are records, enumerations datatypes, strings lists of bytes; a pair of a value
  and an error is a sum, with an error datatype per component that has a constructor for each return
  of an error.  Texts of messages are dropped where nothing reads them.  Go's \<open>int\<close> is \<open>int\<close> with
  \<open>int64\<close> where a result can leave the range, addresses are 32 and 128 bit words.  Two ways of
  modelling effects are used.  A component that works on files is a function on a map from paths to
  contents, with a plan that says which system calls fail (Atomic_File).  A component that talks to
  others is a workflow (Effects): a function on the history of calls, whose environment answers each
  call as any function of that history; a theorem for all environments therefore holds whatever
  kubectl, the node, the vault or the clock answer, and a statement about order is one about the
  history.  \<open>always A h\<close> says that every event of \<open>h\<close> is allowed by \<open>A\<close> after the events before it.

  \<^bold>\<open>Shared theories.\<close>
  \<^item> Prelude: fact collections, sums, lists, 64 bit integers.  Go_Strings: the functions of \<open>strings\<close> and
    \<open>strconv\<close> in use.  Effects: the workflow combinators, their weakest preconditions (\<open>wp\<close>), what they
    emit, that they return, and \<open>always\<close>.  Base64, Net_Addr (\<open>net.ParseIP\<close>, \<open>net.ParseCIDR\<close>), Shell (SSH hosts,
    the two quoting functions and the reader of a POSIX command line).
  \<^item> Key_Value: the locale \<open>kv_store\<close>, interpreted by Env_File on \<open>env_get\<close>/\<open>env_set\<close> and by Key_Value on
    the named lists that Kubeconfig keeps.  Atomic_File: the locale \<open>atomic_writer\<close>, interpreted by Env_File and
    Gpu_Node_Rule on their writers.

  \<^bold>\<open>Files of the fleet.\<close>
  \<^item> Env_File (\<open>config/env.go\<close>): the lines and index of the file, \<open>load_env\<close>, \<open>env_get\<close>, \<open>env_set\<close>, \<open>env_write\<close>.  A lookup gives the last
    write; a file reads back what was written; a failed write changes nothing but a temporary file.
  \<^item> Fleet_Patch, Platform_Patch (the line transforms of \<open>clusterinit\<close>: \<open>objectstorage\<close>, \<open>addons\<close>,
    \<open>wildcardtls\<close>, \<open>dns01\<close>, \<open>imageaccel\<close>, \<open>registry_listener\<close>, \<open>natgate\<close>, \<open>kubeapi_offenvoy\<close>): patches are functions on
    lines.  Locales \<open>line_patch\<close> and \<open>wiring\<close> (a sublocale of it) state that a patch is idempotent, keeps
    what it does not own, and establishes its entry; each patch interprets one of them.
  \<^item> Sops_File (\<open>sopsEncryptToFile\<close>): a secret reaches its path only encrypted, whichever call fails.
    Tls_Writers (\<open>wildcardtls.go\<close>, \<open>dns01.go\<close>): staging, checking and committing several files while others may
    write them: nothing staged overwrites a change.
  \<^item> Scaffold_Config (\<open>postProcessClusterConfig\<close> of \<open>clusterinit/scaffold.go\<close>): the configuration that is published
    passes the validators, holds what was asked for, and its tenant network is coherent.

  \<^bold>\<open>Installation requests.\<close>
  \<^item> Preset, Preset_Checks, Front_Door, Public_Anchor (\<open>clusterinit/preset.go\<close>, \<open>publicanchor.go\<close>): the preset
    tables, the environment built from them, every validator, and what acceptance gives: the front door is
    announced where it is used, values have their types, and the derived anchors are the ones accepted, within bounds.
  \<^item> Init_Options, Option_Gates (\<open>clusterinit/options.go\<close>, \<open>gpu.go\<close>): all checks of the options in their order, and that
    an accepted request is coherent alone and together with the preset.

  \<^bold>\<open>Nodes.\<close>
  \<^item> Oidc_Config, Oidc_Run (\<open>oidccutover\<close>): the text transform of the RKE2 configuration, and the run over
    the control planes as a workflow, refined by the step relation \<open>oe_step\<close> (\<open>oe_path\<close> its runs): one node at a time,
    a restart only with a snapshot, the rollback first restores what was saved.
  \<^item> Rke2_Join (\<open>rke2\<close>): installing a control plane or a worker; the node is changed only behind the gate, the join
    token is never shown, and the node reads the command that was meant.
  \<^item> Gpu_Node_Rule, Gpu_Transition (\<open>gputransition\<close>, \<open>src/cli/cmd/kube-dc/bootstrap_gpu.go\<close>): the rule of a node and the change of its mode; the
    locale \<open>fleet\<close> is the transaction the engine relies on, interpreted on the command's git transaction.
  \<^item> Node_Remove (\<open>noderemove\<close>): the etcd member first, then cordon and drain, then the node object
    and its teardown; never the last control plane.
  \<^item> Gpu_Upgrade (\<open>gpuupgrade/gate.go\<close>): the gate lets through exactly the qualified changes.

  \<^bold>\<open>Secrets.\<close>
  \<^item> Openbao_Shares, Share_Custody, Openbao, Openbao_Init, Script_Stream (\<open>openbao\<close>, \<open>secrets\<close>, \<open>ports/drain.go\<close>, \<open>adapters/script/runner.go\<close>): the shares from
    the output of the script to the encrypted file, and the engines.  The locale \<open>audited_disclosure\<close>
    (nothing is shown before its audit record) is interpreted on reveal-shares and generate-root.
  \<^item> Break_Glass (\<open>breakglass\<close>): the kubeconfig of a lost cluster is published only sealed, and a rotation publishes a token
    read after the old one was deleted.
  \<^item> Credentials, Jwt, Kubeconfig (\<open>src/cli/internal/config\<close>, \<open>src/cli/pkg/credential\<close>, \<open>src/cli/internal/jwt\<close>, \<open>src/cli/internal/kubeconfig\<close>): what logins keep and
    kubectl is given.  Redact (\<open>log/redact.go\<close>): what reaches a log.

  \<^bold>\<open>Verdicts.\<close>
  \<^item> Doctor (\<open>doctor\<close>, \<open>ports/probe.go\<close>), with \<open>linorder\<close> instances of its severities and categories: the report does not depend on
    which probe ends first and its exit code is that of the worst row.  Acceptance (\<open>accept/accept.go\<close>): usable
    means exactly what the package says, but for the one reading named below.  Topology (\<open>topology/topology.go\<close>): the tally follows the documented precedence.

  \<^bold>\<open>Loops and fuel.\<close>  Loops over data are recursive functions with termination proofs.  The polling loops of Oidc_Run,
  Gpu_Transition and Break_Glass take a fuel; running out is \<open>None\<close>, which no theorem about an outcome counts as one.
  A loop waits a fixed interval between polls until a deadline, so with a clock that does not run
  back and timers that do not fire early it polls at most timeout / interval times and once more: \<open>enough_fuel\<close> and \<open>gt_fuel\<close> state this bound for any options,
  \<open>token_fuel\<close> is 32 for thirty polls a second apart; \<open>cutover_returns\<close>, \<open>gpu_transition_returns\<close> and
  \<open>wait_for_token_returns\<close> prove that this is enough.  The detection of an address tries three times and needs none.

  \<^bold>\<open>What is assumed of the rest of the world.\<close>  The theorems hold for any environment, codec and fault plan except where
  a hypothesis is named: clocks and timers as above (\<open>clock_sound\<close>, \<open>gt_clock\<close>, \<open>steady_clock\<close>); the temporary name of a writer is
  unused, as \<open>os.CreateTemp\<close> promises; a YAML or JSON codec reads back what it wrote, where a
  round trip is claimed.  Parsers of the standard library or third parties (durations, mail addresses,
  RFC 3339, YAML, JSON, SHA-256), the sops program, other writers of a file and file locks are parameters;
  each property that restricts one has a witness with a concrete instance.  Of the shell, Shell reads plain
  letters, quotes and backslashes; a command that needs more of it is an opaque text.

  \<^bold>\<open>What the modelling showed.\<close>  Code that does not do what it means to is stated as a lemma beside the
  definitions, among others: a probe that cannot be read opens the gate of an RKE2 installation
  (\<open>lost_probe_opens_gate\<close>), a quoted token escapes the masking (\<open>quoted_token_not_masked\<close>), an unreadable
  gateway counts as usable (\<open>unreadable_gateway_is_usable\<close>), a rotation forgets the server
  (\<open>rotation_loses_server\<close>), an etcd member is looked up by a prefix of its name (\<open>member_lookup_confuses_nodes\<close>), a logout
  drops contexts of other servers (\<open>logout_drops_other_servers\<close>).

  \<^bold>\<open>Not modelled.\<close>  The adapters (clients over third-party libraries) are the environments of the model.  The
  command line, the terminal interface and the alerts screens declare flags and render; the console clients send one request each.
  Discovery and adoption turn answers of clients into statuses without state.  The plan, the starter, the
  prefill and the creation of the repository render templates and drive git in a straight line around
  the steps modelled here.  The node anchors' units, the DNS, custom interface and add-on gates compare
  single values with what a host answers.  X.509 parsing in \<open>rke2/trustedca.go\<close> and \<open>wildcardtls.go\<close> belongs to the
  standard library.  The shell scripts that RKE2 nodes run, the charts, the documentation and the end-to-end
  tests are not Go code of the program.  Printed progress is left out everywhere, except where a secret could be in it.
\<close>

end
